(* ===== verification/Prelude.thy ===== *)
theory Prelude
  imports Complex_Main "HOL-Library.AList" "HOL-Library.List_Lexorder" "HOL-Library.Char_ord"
    "HOL-Library.Product_Lexorder" "HOL-Library.Word"
begin

text \<open>
  Shared ground of the development: the exceptions of the Python sources as values, Python's
  insertion-ordered dictionaries as association lists, the string operations the sources use
  (\<open>strip\<close>, \<open>upper\<close>, \<open>lower\<close>, \<open>split\<close>), timestamps, decimals and UUIDs, and the generic
  lemmas on them that the component theories rely on.

  Conventions.  A Python \<open>str\<close> is a HOL \<^typ>\<open>string\<close> holding ASCII code points; Python orders
  strings by code point, which is the lexicographic order of \<open>HOL-Library.List_Lexorder\<close>.
  An aware \<open>datetime\<close> is its UTC instant in microseconds.  Python \<open>int\<close>s are \<^typ>\<open>int\<close>;
  monotonic clock readings and finite \<open>Decimal\<close>s are \<^typ>\<open>rat\<close>.
\<close>

named_theorems dict_simps \<open>lookup and size facts for the dictionary operations\<close>
named_theorems normal_simps \<open>idempotence and fixpoint facts for symbol normalisation\<close>

section \<open>Exceptions as values\<close>

text \<open>
  Pydantic's \<open>ValidationError\<close> is \<open>FieldErrors\<close> with the offending fields when a declared field
  constraint fails and \<open>ValueError\<close> with the message when a validator body raises.
\<close>

datatype error =
    ValueError string
  | FieldErrors "string list"
  | KeyError string
  | TypeError string
  | RuntimeError string
  | AuthenticationError string
  | AuthorizationError string
  | CoinbaseProtocolError string
  | CoinbaseUsageError string
  | LedgerIntegrityError string
  | InvalidOperation
  | ConnectionError string
  | OSError string
  | RedisError string
  | PostgresError string
  | AttributeError string
  | HTTPException int string
  | OverflowError string

type_synonym 'a result = "error + 'a"

text \<open>
  The subclasses of \<open>ValueError\<close> among them (\<open>except ValueError\<close> catches these):
  \<open>decimal.InvalidOperation\<close> is an \<open>ArithmeticError\<close> and \<open>KeyError\<close> a \<open>LookupError\<close>, so
  neither is one.
\<close>

fun is_value_error :: "error \<Rightarrow> bool" where
  "is_value_error (ValueError _) = True"
| "is_value_error (FieldErrors _) = True"
| "is_value_error (AuthenticationError _) = True"
| "is_value_error (AuthorizationError _) = True"
| "is_value_error (CoinbaseProtocolError _) = True"
| "is_value_error (LedgerIntegrityError _) = True"
| "is_value_error _ = False"

text \<open>The text of an exception; that of a pydantic validation error is abbreviated to the field names.\<close>

fun error_text :: "error \<Rightarrow> string" where
  "error_text (ValueError s) = s"
| "error_text (FieldErrors fs) = concat fs"
| "error_text (KeyError s) = s"
| "error_text (TypeError s) = s"
| "error_text (RuntimeError s) = s"
| "error_text (AuthenticationError s) = s"
| "error_text (AuthorizationError s) = s"
| "error_text (CoinbaseProtocolError s) = s"
| "error_text (CoinbaseUsageError s) = s"
| "error_text (LedgerIntegrityError s) = s"
| "error_text InvalidOperation = ''InvalidOperation''"
| "error_text (ConnectionError s) = s"
| "error_text (OSError s) = s"
| "error_text (RedisError s) = s"
| "error_text (PostgresError s) = s"
| "error_text (AttributeError s) = s"
| "error_text (HTTPException _ s) = s"
| "error_text (OverflowError s) = s"

definition bindE :: "'a result \<Rightarrow> ('a \<Rightarrow> 'b result) \<Rightarrow> 'b result" where
  "bindE m f = (case m of Inl e \<Rightarrow> Inl e | Inr x \<Rightarrow> f x)"

lemma bindE_Inl [simp]: "bindE (Inl e) f = Inl e"
  by (simp add: bindE_def)

lemma bindE_Inr [simp]: "bindE (Inr x) f = f x"
  by (simp add: bindE_def)

lemma bindE_eq_Inr: "bindE m f = Inr y \<longleftrightarrow> (\<exists>x. m = Inr x \<and> f x = Inr y)"
  by (cases m) auto

lemma bindE_eq_Inl: "bindE m f = Inl e \<longleftrightarrow> m = Inl e \<or> (\<exists>x. m = Inr x \<and> f x = Inl e)"
  by (cases m) auto

text \<open>A chain of guards that raise succeeds when no guard holds.\<close>

lemma if_Inl_eq_Inr: "(if c then Inl e else m) = Inr x \<longleftrightarrow> \<not> c \<and> m = Inr x"
  by simp

definition is_ok :: "'a result \<Rightarrow> bool" where
  "is_ok m \<longleftrightarrow> (case m of Inl _ \<Rightarrow> False | Inr _ \<Rightarrow> True)"

lemma is_ok_simps [simp]: "is_ok (Inr x)" "\<not> is_ok (Inl e)"
  by (simp_all add: is_ok_def)

lemma is_ok_iff: "is_ok m \<longleftrightarrow> (\<exists>x. m = Inr x)"
  by (cases m) auto

text \<open>A comprehension whose body may raise: the first exception wins.\<close>

fun mapE :: "('a \<Rightarrow> 'b result) \<Rightarrow> 'a list \<Rightarrow> 'b list result" where
  "mapE f [] = Inr []"
| "mapE f (x # xs) = bindE (f x) (\<lambda>y. bindE (mapE f xs) (\<lambda>ys. Inr (y # ys)))"

lemma mapE_Inr_iff: "mapE f xs = Inr ys \<longleftrightarrow> list_all2 (\<lambda>x y. f x = Inr y) xs ys"
  by (induction xs arbitrary: ys) (auto simp: bindE_eq_Inr list_all2_Cons1)

lemma mapE_pure [simp]: "mapE (\<lambda>x. Inr (f x)) xs = Inr (map f xs)"
  by (induction xs) auto

lemma mapE_cong_Inr:
  "(\<And>x. x \<in> set xs \<Longrightarrow> f x = Inr (g x)) \<Longrightarrow> mapE f xs = Inr (map g xs)"
  by (induction xs) auto

text \<open>
  Stateful calls that may raise: a call maps a state to an outcome and the state it leaves, also when it
  raises.  \<open>bindS\<close> is sequencing, \<open>catchS\<close> is \<open>try/except Exception\<close>, and \<open>callS\<close> is a call to a
  service that may be unreachable, which then raises and leaves the state as it was.
\<close>

type_synonym ('s, 'a) call = "'s \<Rightarrow> 'a result \<times> 's"

definition bindS :: "('s, 'a) call \<Rightarrow> ('a \<Rightarrow> ('s, 'b) call) \<Rightarrow> ('s, 'b) call" where
  "bindS m f s = (case m s of (Inl e, s') \<Rightarrow> (Inl e, s') | (Inr x, s') \<Rightarrow> f x s')"

definition returnS :: "'a \<Rightarrow> ('s, 'a) call" where
  "returnS x s = (Inr x, s)"

definition raiseS :: "error \<Rightarrow> ('s, 'a) call" where
  "raiseS e s = (Inl e, s)"

definition catchS :: "('s, 'a) call \<Rightarrow> (error \<Rightarrow> ('s, 'a) call) \<Rightarrow> ('s, 'a) call" where
  "catchS m h s = (case m s of (Inl e, s') \<Rightarrow> h e s' | (Inr x, s') \<Rightarrow> (Inr x, s'))"

definition liftS :: "'a result \<Rightarrow> ('s, 'a) call" where
  "liftS m s = (m, s)"

definition callS :: "error option \<Rightarrow> ('s, 'a) call \<Rightarrow> ('s, 'a) call" where
  "callS fault m s = (case fault of Some e \<Rightarrow> (Inl e, s) | None \<Rightarrow> m s)"

text \<open>A \<open>for\<close> loop whose body may raise: the exception leaves the loop.\<close>

primrec forS :: "('a \<Rightarrow> ('s, unit) call) \<Rightarrow> 'a list \<Rightarrow> ('s, unit) call" where
  "forS f [] = returnS ()"
| "forS f (x # xs) = bindS (f x) (\<lambda>_. forS f xs)"

lemma bindS_simps [simp]:
  "m s = (Inr x, s') \<Longrightarrow> bindS m f s = f x s'" "m s = (Inl e, s') \<Longrightarrow> bindS m f s = (Inl e, s')"
  by (simp_all add: bindS_def)

lemma catchS_simps [simp]:
  "m s = (Inr x, s') \<Longrightarrow> catchS m h s = (Inr x, s')" "m s = (Inl e, s') \<Longrightarrow> catchS m h s = h e s'"
  by (simp_all add: catchS_def)

lemma bindS_preserves:
  "P (snd (m s)) \<Longrightarrow> (\<And>x s'. P s' \<Longrightarrow> P (snd (f x s'))) \<Longrightarrow> P (snd (bindS m f s))"
  by (cases "m s"; cases "fst (m s)") auto

lemma bindS_post:
  "(\<And>e s'. m s = (Inl e, s') \<Longrightarrow> P s') \<Longrightarrow> (\<And>x s'. m s = (Inr x, s') \<Longrightarrow> P (snd (f x s'))) \<Longrightarrow> P (snd (bindS m f s))"
  by (cases "m s"; cases "fst (m s)") auto

lemma bindS_cases:
  assumes "bindS m f s = (y, t)"
  obtains (raised) e where "m s = (Inl e, t)" "y = Inl e"
    | (returned) x s' where "m s = (Inr x, s')" "f x s' = (y, t)"
  using assms by (cases "m s"; cases "fst (m s)") auto

lemma forS_preserves:
  "P s \<Longrightarrow> (\<And>x s'. x \<in> set xs \<Longrightarrow> P s' \<Longrightarrow> P (snd (f x s'))) \<Longrightarrow> P (snd (forS f xs s))"
proof (induction xs arbitrary: s)
  case Nil
  then show ?case by (simp add: returnS_def)
next
  case (Cons x xs)
  show ?case unfolding forS.simps by (rule bindS_preserves) (use Cons in auto)
qed

lemma callS_simps [simp]: "callS None m = m" "callS (Some e) m s = (Inl e, s)"
  by (simp_all add: callS_def fun_eq_iff)

section \<open>Python dictionaries\<close>

text \<open>
  A dictionary is an association list in insertion order: assigning to a present key keeps its
  position, assigning to a new key appends (\<^const>\<open>AList.update\<close>), \<open>pop\<close> removes.
\<close>

type_synonym ('k, 'v) dict = "('k \<times> 'v) list"

abbreviation dict_get :: "('k, 'v) dict \<Rightarrow> 'k \<Rightarrow> 'v option" where
  "dict_get \<equiv> map_of"

abbreviation dict_set :: "'k \<Rightarrow> 'v \<Rightarrow> ('k, 'v) dict \<Rightarrow> ('k, 'v) dict" where
  "dict_set \<equiv> AList.update"

abbreviation dict_pop :: "'k \<Rightarrow> ('k, 'v) dict \<Rightarrow> ('k, 'v) dict" where
  "dict_pop \<equiv> AList.delete"

definition dict_keys :: "('k, 'v) dict \<Rightarrow> 'k list" where
  "dict_keys d = map fst d"

definition dict_get_default :: "('k, 'v) dict \<Rightarrow> 'k \<Rightarrow> 'v \<Rightarrow> 'v" where
  "dict_get_default d k v = (case map_of d k of None \<Rightarrow> v | Some x \<Rightarrow> x)"

definition dict_ok :: "('k, 'v) dict \<Rightarrow> bool" where
  "dict_ok d \<longleftrightarrow> distinct (map fst d)"

lemma dict_ok_Nil [simp]: "dict_ok []"
  by (simp add: dict_ok_def)

lemma dict_ok_set [simp]: "dict_ok d \<Longrightarrow> dict_ok (dict_set k v d)"
  by (simp add: dict_ok_def distinct_update)

lemma dict_ok_pop [simp]: "dict_ok d \<Longrightarrow> dict_ok (dict_pop k d)"
  by (simp add: dict_ok_def distinct_delete)

lemma dict_get_set [dict_simps]: "dict_get (dict_set k v d) = (dict_get d)(k \<mapsto> v)"
  by (rule update_conv')

lemma dict_get_pop [dict_simps]: "dict_get (dict_pop k d) = (dict_get d)(k := None)"
  by (rule delete_conv')

lemma dict_get_None: "dict_get d k = None \<longleftrightarrow> k \<notin> set (dict_keys d)"
  by (simp add: dict_keys_def map_of_eq_None_iff)

lemma in_keys_iff: "k \<in> set (dict_keys d) \<longleftrightarrow> dict_get d k \<noteq> None"
  by (simp add: dict_get_None)

lemma dict_keys_set: "set (dict_keys (dict_set k v d)) = insert k (set (dict_keys d))"
  by (auto simp: dict_keys_def dom_update simp flip: image_set)

lemma dict_keys_pop: "set (dict_keys (dict_pop k d)) = set (dict_keys d) - {k}"
  by (auto simp: dict_keys_def delete_keys)

lemma length_dict_set:
  "length (dict_set k v d) = (if k \<in> set (dict_keys d) then length d else Suc (length d))"
  by (induction d) (auto simp: dict_keys_def)

lemma length_dict_pop:
  assumes "dict_ok d" "k \<in> set (dict_keys d)"
  shows "Suc (length (dict_pop k d)) = length d"
  using assms
proof (induction d)
  case (Cons p d)
  show ?case
  proof (cases "fst p = k")
    case True
    with Cons.prems have "k \<notin> fst ` set d" by (auto simp: dict_ok_def)
    then have "dict_pop k d = d" by (simp add: delete_idem)
    with True show ?thesis by simp
  next
    case False
    with Cons show ?thesis by (auto simp: dict_ok_def dict_keys_def)
  qed
qed (simp add: dict_keys_def)

lemma dict_get_in: "dict_ok d \<Longrightarrow> (k, v) \<in> set d \<longleftrightarrow> dict_get d k = Some v"
  by (auto simp: dict_ok_def)

lemma length_dict_pop_le: "length (dict_pop k d) \<le> length d"
  by (rule length_delete_le)

text \<open>\<open>list(dict.fromkeys(xs))\<close>: the distinct elements in order of first occurrence.\<close>

fun py_unique :: "'a list \<Rightarrow> 'a list" where
  "py_unique [] = []"
| "py_unique (x # xs) = x # filter (\<lambda>y. y \<noteq> x) (py_unique xs)"

lemma set_py_unique [simp]: "set (py_unique xs) = set xs"
  by (induction xs) auto

lemma distinct_py_unique [simp]: "distinct (py_unique xs)"
  by (induction xs) auto

lemma py_unique_id: "distinct xs \<Longrightarrow> py_unique xs = xs"
proof (induction xs)
  case (Cons x xs)
  then have "filter (\<lambda>y. y \<noteq> x) xs = xs" by (intro filter_True) auto
  with Cons show ?case by simp
qed simp

lemma length_py_unique: "length (py_unique xs) = card (set xs)"
  by (metis distinct_card distinct_py_unique set_py_unique)

section \<open>Strings\<close>

definition char_code :: "char \<Rightarrow> nat" where
  "char_code c = of_char c"

text \<open>The ASCII characters for which \<open>str.isspace\<close> holds, which \<open>str.strip\<close> removes.\<close>

definition py_isspace :: "char \<Rightarrow> bool" where
  "py_isspace c \<longleftrightarrow> (9 \<le> char_code c \<and> char_code c \<le> 13) \<or> (28 \<le> char_code c \<and> char_code c \<le> 32)"

definition py_strip :: "string \<Rightarrow> string" where
  "py_strip s = rev (dropWhile py_isspace (rev (dropWhile py_isspace s)))"

definition upper_char :: "char \<Rightarrow> char" where
  "upper_char c = (if 97 \<le> char_code c \<and> char_code c \<le> 122 then char_of (char_code c - 32) else c)"

definition lower_char :: "char \<Rightarrow> char" where
  "lower_char c = (if 65 \<le> char_code c \<and> char_code c \<le> 90 then char_of (char_code c + 32) else c)"

definition py_upper :: "string \<Rightarrow> string" where
  "py_upper s = map upper_char s"

definition py_lower :: "string \<Rightarrow> string" where
  "py_lower s = map lower_char s"

text \<open>\<open>value.strip().upper()\<close>, the normalisation every symbol goes through.\<close>

definition normalize :: "string \<Rightarrow> string" where
  "normalize s = py_upper (py_strip s)"

lemma char_code_upper: "char_code (upper_char c) =
    (if 97 \<le> char_code c \<and> char_code c \<le> 122 then char_code c - 32 else char_code c)"
  by (auto simp: upper_char_def char_code_def)

lemma upper_char_idem [normal_simps]: "upper_char (upper_char c) = upper_char c"
proof -
  have "\<not> (97 \<le> char_code (upper_char c) \<and> char_code (upper_char c) \<le> 122)"
    by (auto simp: char_code_upper)
  then show ?thesis unfolding upper_char_def [of "upper_char c"] by (rule if_not_P)
qed

lemma py_isspace_upper [normal_simps]: "py_isspace (upper_char c) = py_isspace c"
  by (auto simp: py_isspace_def char_code_upper)

lemma py_upper_idem [normal_simps]: "py_upper (py_upper s) = py_upper s"
  by (simp add: py_upper_def upper_char_idem)

lemma py_upper_Nil_iff [simp]: "py_upper s = [] \<longleftrightarrow> s = []"
  by (simp add: py_upper_def)

lemma length_py_upper [simp]: "length (py_upper s) = length s"
  by (simp add: py_upper_def)

lemma dropWhile_dropWhile_rev:
  "dropWhile P (rev (dropWhile P (rev (dropWhile P s)))) = rev (dropWhile P (rev (dropWhile P s)))"
proof (cases "rev (dropWhile P (rev (dropWhile P s)))")
  case (Cons x xs)
  let ?t = "dropWhile P s"
  have "?t = rev (dropWhile P (rev ?t)) @ rev (takeWhile P (rev ?t))"
    by (metis rev_append rev_rev_ident takeWhile_dropWhile_id)
  with Cons have "?t = x # xs @ rev (takeWhile P (rev ?t))" by simp
  then have "\<not> P x" by (metis dropWhile_eq_Cons_conv)
  with Cons show ?thesis by simp
qed (simp only: dropWhile.simps)

lemma py_strip_idem [normal_simps]: "py_strip (py_strip s) = py_strip s"
  by (simp add: py_strip_def dropWhile_dropWhile_rev)

lemma dropWhile_space_upper:
  "dropWhile py_isspace (map upper_char s) = map upper_char (dropWhile py_isspace s)"
  by (induction s) (auto simp: py_isspace_upper)

lemma py_strip_upper [normal_simps]: "py_strip (py_upper s) = py_upper (py_strip s)"
  by (simp add: py_strip_def py_upper_def dropWhile_space_upper rev_map)

lemma normalize_idem [normal_simps]: "normalize (normalize s) = normalize s"
  by (simp add: normalize_def normal_simps)

lemma dropWhile_none: "\<forall>c \<in> set s. \<not> P c \<Longrightarrow> dropWhile P s = s"
  by (cases s) auto

lemma py_strip_none: "\<forall>c \<in> set s. \<not> py_isspace c \<Longrightarrow> py_strip s = s"
  by (simp add: py_strip_def dropWhile_none)

lemma set_py_strip: "set (py_strip s) \<subseteq> set s"
  by (auto simp: py_strip_def dest!: set_dropWhileD)

text \<open>
  \<open>[A-Z0-9._:-]\<close>, the alphabet of market symbols; such strings are fixpoints of the
  normalisation.
\<close>

definition symbol_char :: "char \<Rightarrow> bool" where
  "symbol_char c \<longleftrightarrow> c \<in> set ''ABCDEFGHIJKLMNOPQRSTUVWXYZ0123456789._:-''"

lemma symbol_char_plain: "symbol_char c \<Longrightarrow> \<not> py_isspace c \<and> upper_char c = c"
  by (auto simp: symbol_char_def py_isspace_def upper_char_def char_code_def)

lemma normalize_symbol_fix [normal_simps]: "list_all symbol_char s \<Longrightarrow> normalize s = s"
  by (auto simp: normalize_def py_upper_def list_all_iff py_strip_none symbol_char_plain
      intro: map_idI)

lemma py_upper_symbol_fix [normal_simps]: "list_all symbol_char s \<Longrightarrow> py_upper s = s"
  by (auto simp: py_upper_def list_all_iff symbol_char_plain intro: map_idI)

definition is_digit :: "char \<Rightarrow> bool" where
  "is_digit c \<longleftrightarrow> 48 \<le> char_code c \<and> char_code c \<le> 57"

text \<open>\<open>int(s)\<close> on a string of decimal digits.\<close>

definition nat_of_digits :: "string \<Rightarrow> nat" where
  "nat_of_digits s = foldl (\<lambda>n c. 10 * n + (char_code c - 48)) 0 s"

text \<open>\<open>s.split(sep)\<close> on a one-character separator; the empty string splits into one empty field.\<close>

fun py_split :: "char \<Rightarrow> string \<Rightarrow> string list" where
  "py_split d [] = [[]]"
| "py_split d (c # s) =
     (if c = d then [] # py_split d s
      else case py_split d s of [] \<Rightarrow> [[c]] | f # fs \<Rightarrow> (c # f) # fs)"

lemma py_split_nonempty: "py_split d s \<noteq> []"
  by (cases s) (auto split: list.splits)

text \<open>\<open>s.partition(sep)\<close> at a one-character separator: head, whether found, tail.\<close>

definition py_partition :: "char \<Rightarrow> string \<Rightarrow> string \<times> bool \<times> string" where
  "py_partition d s = (takeWhile (\<lambda>c. c \<noteq> d) s, d \<in> set s, drop 1 (dropWhile (\<lambda>c. c \<noteq> d) s))"

lemma py_partition_join:
  "py_partition d s = (a, True, b) \<Longrightarrow> s = a @ d # b"
proof -
  assume p: "py_partition d s = (a, True, b)"
  then have in_s: "d \<in> set s" and a: "a = takeWhile (\<lambda>c. c \<noteq> d) s"
    and b: "b = drop 1 (dropWhile (\<lambda>c. c \<noteq> d) s)"
    by (auto simp: py_partition_def)
  from in_s have "dropWhile (\<lambda>c. c \<noteq> d) s = d # b"
    unfolding b by (induction s) auto
  then show ?thesis using a by (metis takeWhile_dropWhile_id)
qed

text \<open>\<open>str(n)\<close> on an integer.\<close>

fun string_of_nat :: "nat \<Rightarrow> string" where
  "string_of_nat n = (if n < 10 then [char_of (48 + n)] else string_of_nat (n div 10) @ [char_of (48 + n mod 10)])"

declare string_of_nat.simps [simp del]

definition string_of_int :: "int \<Rightarrow> string" where
  "string_of_int n = (if n < 0 then ''-'' @ string_of_nat (nat (- n)) else string_of_nat (nat n))"

lemma string_of_nat_digits: "list_all is_digit (string_of_nat n) \<and> string_of_nat n \<noteq> []"
proof (induction n rule: string_of_nat.induct)
  case (1 n)
  have d: "is_digit (char_of (48 + k))" if "k < 10" for k :: nat
    using that by (simp add: is_digit_def char_code_def)
  show ?case
    by (subst string_of_nat.simps, subst (2) string_of_nat.simps) (use 1 d in auto)
qed

lemma nat_of_digits_string: "nat_of_digits (string_of_nat n) = n"
proof (induction n rule: string_of_nat.induct)
  case (1 n)
  have c: "char_code (char_of (48 + k)) - 48 = k" if "k < 10" for k :: nat
    using that by (simp add: char_code_def)
  have c': "char_code (char_of (48 + n mod 10)) - 48 = n mod 10"
    by (rule c) simp
  show ?case
    by (subst string_of_nat.simps) (use 1 c c' in \<open>auto simp: nat_of_digits_def\<close>)
qed

lemma string_of_nat_inj: "string_of_nat m = string_of_nat n \<longleftrightarrow> m = n"
  by (metis nat_of_digits_string)

lemma string_of_nat_chars: "c \<in> set (string_of_nat n) \<Longrightarrow> is_digit c"
  using string_of_nat_digits [of n] by (auto simp: list_all_iff)

lemma not_digit: "\<not> is_digit CHR ''-''" "\<not> is_digit CHR '':''"
  by (simp_all add: is_digit_def char_code_def)

lemma string_of_int_inj [simp]: "string_of_int m = string_of_int n \<longleftrightarrow> m = n"
proof -
  have m: "string_of_nat k \<noteq> CHR ''-'' # s" for s k
  proof
    assume "string_of_nat k = CHR ''-'' # s"
    then have "CHR ''-'' \<in> set (string_of_nat k)" by (simp only: list.set_intros)
    then show False using string_of_nat_chars not_digit(1) by blast
  qed
  show ?thesis
  proof (cases "m < 0"; cases "n < 0")
    assume "m < 0" "n < 0"
    then show ?thesis by (simp add: string_of_int_def string_of_nat_inj) linarith
  next
    assume "\<not> m < 0" "\<not> n < 0"
    then show ?thesis by (simp add: string_of_int_def string_of_nat_inj) linarith
  qed (auto simp: string_of_int_def m m [symmetric])
qed

lemma string_of_int_chars: "c \<in> set (string_of_int n) \<Longrightarrow> is_digit c \<or> c = CHR ''-''"
  by (auto simp: string_of_int_def dest: string_of_nat_chars split: if_splits)

lemma string_of_int_colon: "CHR '':'' \<notin> set (string_of_int n)"
proof
  assume "CHR '':'' \<in> set (string_of_int n)"
  from string_of_int_chars [OF this] not_digit(2) show False by simp
qed

text \<open>\<open>min(xs, key=f)\<close>: the first element with the least key; \<open>min\<close> of an empty iterable raises.\<close>

definition py_min_by :: "('a \<Rightarrow> 'b::linorder) \<Rightarrow> 'a list \<Rightarrow> 'a result" where
  "py_min_by f xs = (case xs of
       [] \<Rightarrow> Inl (ValueError ''min() iterable argument is empty'')
     | y # ys \<Rightarrow> Inr (foldl (\<lambda>m x. if f x < f m then x else m) y ys))"

lemma foldl_min_by:
  "foldl (\<lambda>m x. if f x < f m then x else m) y ys \<in> insert y (set ys) \<and>
   f (foldl (\<lambda>m x. if f x < f m then x else m) y ys) \<le> f y \<and>
   (\<forall>x \<in> set ys. f (foldl (\<lambda>m x. if f x < f m then x else m) y ys) \<le> (f x :: 'b::linorder))"
proof (induction ys arbitrary: y)
  case (Cons z ys)
  show ?case
  proof (cases "f z < f y")
    case True
    with Cons.IH [of z] show ?thesis by (auto intro: order_trans less_imp_le)
  next
    case False
    with Cons.IH [of y] show ?thesis by (auto intro: order_trans)
  qed
qed simp

lemma py_min_by_Inr:
  assumes "py_min_by f xs = Inr m"
  shows "m \<in> set xs" "\<And>x. x \<in> set xs \<Longrightarrow> f m \<le> f x"
  using assms foldl_min_by [of f] by (auto simp: py_min_by_def split: list.splits)

lemma py_min_by_Cons: "xs \<noteq> [] \<Longrightarrow> \<exists>m. py_min_by f xs = Inr m"
  by (cases xs) (auto simp: py_min_by_def)

section \<open>Timestamps and decimals\<close>

text \<open>
  A \<open>datetime\<close>: for an aware one \<open>dt_us\<close> is the UTC instant in microseconds and \<open>dt_offset\<close>
  the UTC offset; for a naive one \<open>dt_offset\<close> is \<^const>\<open>None\<close> and \<open>dt_us\<close> the wall clock.
  Aware datetimes are compared and subtracted by instant; after \<open>astimezone(UTC)\<close> a datetime is
  its instant.
\<close>

type_synonym instant = int

record datetime =
  dt_us :: instant
  dt_offset :: "int option"

definition is_aware :: "datetime \<Rightarrow> bool" where
  "is_aware d \<longleftrightarrow> dt_offset d \<noteq> None"

definition utc_datetime :: "instant \<Rightarrow> datetime" where
  "utc_datetime t = \<lparr>dt_us = t, dt_offset = Some 0\<rparr>"

lemma utc_datetime_simps [simp]: "dt_us (utc_datetime t) = t" "is_aware (utc_datetime t)"
  by (simp_all add: utc_datetime_def is_aware_def)

abbreviation us_per_second :: int where
  "us_per_second \<equiv> 1000000"

text \<open>\<open>int(x)\<close> on a timestamp in seconds: truncation towards zero of \<open>us / 10^6\<close>.\<close>

definition trunc_seconds :: "instant \<Rightarrow> int" where
  "trunc_seconds us = (if 0 \<le> us then us div us_per_second else - ((- us) div us_per_second))"

lemma trunc_seconds_mult [simp]: "trunc_seconds (s * us_per_second) = s"
  by (auto simp: trunc_seconds_def)

text \<open>A \<open>decimal.Decimal\<close>: finite values are exact rationals.\<close>

datatype decimal = Finite rat | Infinite bool | NaN

section \<open>UUIDs\<close>

text \<open>
  A \<open>UUID\<close> is its 128-bit value.  Python's candles compare \<open>str(uuid)\<close> and PostgreSQL compares
  \<open>uuid\<close> values; \<open>uuid_str\<close> is the 8-4-4-4-12 lowercase hexadecimal rendering, and
  \<open>uuid_str_less\<close> shows that the two orders agree.
\<close>

type_synonym uuid = "128 word"

definition hex_digit :: "nat \<Rightarrow> char" where
  "hex_digit n = char_of (if n < 10 then 48 + n else 87 + n)"

fun hex_of :: "nat \<Rightarrow> nat \<Rightarrow> string" where
  "hex_of 0 n = []"
| "hex_of (Suc k) n = hex_digit (n div 16 ^ k mod 16) # hex_of k n"

definition uuid_str :: "uuid \<Rightarrow> string" where
  "uuid_str u = (let n = unat u in
     hex_of 8 (n div 16 ^ 24) @ ''-'' @ hex_of 4 (n div 16 ^ 20) @ ''-'' @
     hex_of 4 (n div 16 ^ 16) @ ''-'' @ hex_of 4 (n div 16 ^ 12) @ ''-'' @ hex_of 12 n)"

lemma length_hex_of [simp]: "length (hex_of k n) = k"
  by (induction k) auto

lemma hex_of_mod: "k \<le> l \<Longrightarrow> hex_of k (n mod 16 ^ l) = hex_of k n"
proof (induction k)
  case (Suc k)
  then have l: "(16::nat) ^ l = 16 ^ k * (16 * 16 ^ (l - Suc k))"
    by (metis Suc_diff_Suc Suc_le_lessD le_add_diff_inverse less_imp_le_nat power_Suc power_add)
  have "n mod 16 ^ l div 16 ^ k mod 16 = n div 16 ^ k mod 16"
    unfolding l by (simp add: mod_mult2_eq)
  with Suc show ?case by simp
qed simp

lemma hex_of_add: "hex_of (k + l) n = hex_of k (n div 16 ^ l) @ hex_of l n"
  by (induction k) (simp_all add: div_mult2_eq [symmetric] power_add mult.commute)

lemma hex_digit_less: "a < 16 \<Longrightarrow> b < 16 \<Longrightarrow> hex_digit a < hex_digit b \<longleftrightarrow> a < b"
  by (auto simp: hex_digit_def less_char_def)

lemma hex_digit_eq: "a < 16 \<Longrightarrow> b < 16 \<Longrightarrow> hex_digit a = hex_digit b \<longleftrightarrow> a = b"
  using hex_digit_less [of a b] hex_digit_less [of b a] by (metis linorder_neq_iff)

lemma append_less_append:
  fixes a b :: "'a::linorder list"
  shows "length a = length b \<Longrightarrow> a @ x < b @ y \<longleftrightarrow> a < b \<or> a = b \<and> x < y"
  by (induction a b rule: list_induct2) auto

lemma less_iff_div_mod:
  "(a::nat) < b \<longleftrightarrow> a div p < b div p \<or> a div p = b div p \<and> a mod p < b mod p"
proof -
  consider (lt) "a div p < b div p" | (eq) "a div p = b div p" | (gt) "b div p < a div p"
    by linarith
  then show ?thesis
  proof cases
    case lt
    then have "\<not> b \<le> a" using div_le_mono [of b a p] by linarith
    with lt show ?thesis by simp
  next
    case eq
    have "a = a div p * p + a mod p" "b = b div p * p + b mod p" by simp_all
    with eq show ?thesis by (metis add_less_cancel_left less_irrefl)
  next
    case gt
    then have "\<not> a \<le> b" using div_le_mono [of a b p] by linarith
    with gt show ?thesis by simp
  qed
qed

lemma hex_of_less: "a < 16 ^ k \<Longrightarrow> b < 16 ^ k \<Longrightarrow> hex_of k a < hex_of k b \<longleftrightarrow> a < b"
proof (induction k arbitrary: a b)
  case (Suc k)
  let ?p = "16 ^ k :: nat"
  have lt: "a div ?p < 16" "b div ?p < 16"
    using Suc.prems by (simp_all add: less_mult_imp_div_less)
  have IH: "hex_of k a < hex_of k b \<longleftrightarrow> a mod ?p < b mod ?p"
    using Suc.IH [of "a mod ?p" "b mod ?p"] by (simp add: hex_of_mod)
  have "a < b \<longleftrightarrow> a div ?p < b div ?p \<or> a div ?p = b div ?p \<and> a mod ?p < b mod ?p"
    by (rule less_iff_div_mod)
  with lt IH show ?case by (simp add: hex_digit_less hex_digit_eq)
qed simp

lemma uuid_str_hex: "uuid_str u < uuid_str v \<longleftrightarrow> hex_of 32 (unat u) < hex_of 32 (unat v)"
proof -
  have h: "hex_of 32 n = hex_of 8 (n div 16 ^ 24) @ hex_of 4 (n div 16 ^ 20) @
      hex_of 4 (n div 16 ^ 16) @ hex_of 4 (n div 16 ^ 12) @ hex_of 12 n" for n
    using hex_of_add [of 8 "4 + (4 + (4 + 12))" n] hex_of_add [of 4 "4 + (4 + 12)" n]
      hex_of_add [of 4 "4 + 12" n] hex_of_add [of 4 12 n]
    by (simp only: add_numeral_left numeral_plus_numeral add_num_simps)
  show ?thesis unfolding h uuid_str_def Let_def
    by (simp only: append_less_append length_hex_of append_Cons append_Nil Cons_less_Cons
        less_irrefl simp_thms)
qed

lemma uuid_str_less: "uuid_str u < uuid_str v \<longleftrightarrow> u < v"
proof -
  have "unat w < 16 ^ 32" for w :: uuid
    using unsigned_less [of w] by simp
  then have "hex_of 32 (unat u) < hex_of 32 (unat v) \<longleftrightarrow> unat u < unat v"
    by (intro hex_of_less)
  then show ?thesis by (simp add: uuid_str_hex word_less_nat_alt)
qed

lemma uuid_str_eq [simp]: "uuid_str u = uuid_str v \<longleftrightarrow> u = v"
  using uuid_str_less [of u v] uuid_str_less [of v u] by (metis linorder_neq_iff)

end
