(* ===== verification/Models.thy ===== *)
theory Models
  imports Prelude
begin

text \<open>
  The provider-independent domain model, \<open>domain/models.py\<close>: the enumerations, the evidence
  semantics, \<open>QuoteEvent\<close> with its field constraints and its market validator, snapshots, client
  identities and WebSocket commands.  A \<open>_input\<close> record is what a constructor or
  \<open>model_validate_json\<close> receives; the validators are the functions \<open>validate_*\<close>, which return the
  normalised object or the exception.  \<open>market_ok\<close> states declaratively what a validated event
  promises; the lemmas show that the validator accepts exactly these events and that a dumped event
  validates back to itself.
\<close>

section \<open>Enumerations\<close>

datatype service_tier = BASIC | PRO | PREMIUM

fun tier_value :: "service_tier \<Rightarrow> string" where
  "tier_value BASIC = ''basic''"
| "tier_value PRO = ''pro''"
| "tier_value PREMIUM = ''premium''"

text \<open>\<open>ServiceTier(text)\<close>; \<^const>\<open>None\<close> stands for the \<open>ValueError\<close> of an unknown value.\<close>

definition service_tier_of :: "string \<Rightarrow> service_tier option" where
  "service_tier_of s =
     (if s = ''basic'' then Some BASIC else if s = ''pro'' then Some PRO
      else if s = ''premium'' then Some PREMIUM else None)"

lemma service_tier_of_value [simp]: "service_tier_of (tier_value t) = Some t"
  by (cases t) (simp_all add: service_tier_of_def)

datatype capability = LEVEL1_QUOTE | VOLUME | AGGRESSOR_FLOW | TRADE_COUNT | TOP_OF_BOOK_DEPTH

fun capability_value :: "capability \<Rightarrow> string" where
  "capability_value LEVEL1_QUOTE = ''level1_quote''"
| "capability_value VOLUME = ''volume''"
| "capability_value AGGRESSOR_FLOW = ''aggressor_flow''"
| "capability_value TRADE_COUNT = ''trade_count''"
| "capability_value TOP_OF_BOOK_DEPTH = ''top_of_book_depth''"

datatype evidence_origin = NATIVE | PROVIDER_AGGREGATED | GATEWAY_DERIVED

datatype quantity_unit = BASE_ASSET | QUOTE_NOTIONAL | CONTRACTS

datatype volume_kind = INTERVAL | CUMULATIVE

section \<open>Annotated field types\<close>

definition symbol_ok :: "string \<Rightarrow> bool" where
  "symbol_ok s \<longleftrightarrow> 1 \<le> length s \<and> length s \<le> 32 \<and> list_all symbol_char s"

fun positive_decimal :: "decimal \<Rightarrow> bool" where
  "positive_decimal (Finite r) = (0 < r)"
| "positive_decimal _ = False"

fun non_negative_decimal :: "decimal \<Rightarrow> bool" where
  "non_negative_decimal (Finite r) = (0 \<le> r)"
| "non_negative_decimal _ = False"

fun finite_value :: "decimal \<Rightarrow> rat" where
  "finite_value (Finite r) = r"
| "finite_value _ = 0"

definition currency_char :: "char \<Rightarrow> bool" where
  "currency_char c \<longleftrightarrow> c \<in> set ''ABCDEFGHIJKLMNOPQRSTUVWXYZ0123456789''"

definition currency_ok :: "string \<Rightarrow> bool" where
  "currency_ok s \<longleftrightarrow> 2 \<le> length s \<and> length s \<le> 12 \<and> list_all currency_char s"

definition opt_all :: "('a \<Rightarrow> bool) \<Rightarrow> 'a option \<Rightarrow> bool" where
  "opt_all P x \<longleftrightarrow> (case x of None \<Rightarrow> True | Some v \<Rightarrow> P v)"

lemma opt_all_simps [simp]: "opt_all P None" "opt_all P (Some v) = P v"
  by (simp_all add: opt_all_def)

lemma opt_all_map [simp]: "opt_all P (map_option f x) = opt_all (\<lambda>v. P (f v)) x"
  by (cases x) auto

lemma currency_char_symbol: "currency_char c \<Longrightarrow> symbol_char c"
  by (auto simp: currency_char_def symbol_char_def)

lemma symbol_ok_fix [normal_simps]: "symbol_ok s \<Longrightarrow> normalize s = s"
  by (simp add: symbol_ok_def normal_simps)

lemma symbol_ok_upper [normal_simps]: "symbol_ok s \<Longrightarrow> py_upper s = s"
  by (simp add: symbol_ok_def normal_simps)

lemma currency_ok_fix [normal_simps]: "currency_ok s \<Longrightarrow> normalize s = s"
  by (metis currency_ok_def currency_char_symbol list.pred_mono_strong normalize_symbol_fix)

section \<open>Evidence semantics\<close>

record volume_semantics =
  vs_kind :: volume_kind
  vs_unit :: quantity_unit
  vs_window_ms :: "int option"
  vs_currency :: "string option"
  vs_origin :: evidence_origin

record depth_semantics =
  ds_unit :: quantity_unit
  ds_levels :: int
  ds_currency :: "string option"
  ds_origin :: evidence_origin

text \<open>\<open>normalize_currency\<close> runs before the field constraints of \<open>currency\<close>.\<close>

definition vs_normalize_currency :: "volume_semantics \<Rightarrow> volume_semantics" where
  "vs_normalize_currency v = v\<lparr>vs_currency := map_option normalize (vs_currency v)\<rparr>"

definition vs_field_errors :: "volume_semantics \<Rightarrow> string list" where
  "vs_field_errors v =
     (if opt_all (\<lambda>n. 0 < n) (vs_window_ms v) then [] else [''aggregation_window_ms'']) @
     (if opt_all currency_ok (vs_currency v) then [] else [''currency''])"

definition vs_validate_semantics :: "volume_semantics \<Rightarrow> volume_semantics result" where
  "vs_validate_semantics v =
     (if vs_kind v = INTERVAL \<and> vs_window_ms v = None
      then Inl (ValueError ''interval volume requires aggregation_window_ms'')
      else if vs_kind v = CUMULATIVE \<and> vs_window_ms v \<noteq> None
      then Inl (ValueError ''cumulative volume must not declare aggregation_window_ms'')
      else if vs_unit v = QUOTE_NOTIONAL \<and> vs_currency v = None
      then Inl (ValueError ''quote_notional volume requires currency'')
      else if vs_unit v \<noteq> QUOTE_NOTIONAL \<and> vs_currency v \<noteq> None
      then Inl (ValueError ''currency is only valid for quote_notional volume'')
      else Inr v)"

definition validate_volume_semantics :: "volume_semantics \<Rightarrow> volume_semantics result" where
  "validate_volume_semantics raw =
     (let v = vs_normalize_currency raw in
      if vs_field_errors v \<noteq> [] then Inl (FieldErrors (vs_field_errors v))
      else vs_validate_semantics v)"

definition ds_normalize_currency :: "depth_semantics \<Rightarrow> depth_semantics" where
  "ds_normalize_currency d = d\<lparr>ds_currency := map_option normalize (ds_currency d)\<rparr>"

definition ds_field_errors :: "depth_semantics \<Rightarrow> string list" where
  "ds_field_errors d =
     (if 1 \<le> ds_levels d \<and> ds_levels d \<le> 20 then [] else [''levels'']) @
     (if opt_all currency_ok (ds_currency d) then [] else [''currency''])"

definition ds_validate_semantics :: "depth_semantics \<Rightarrow> depth_semantics result" where
  "ds_validate_semantics d =
     (if ds_unit d = QUOTE_NOTIONAL \<and> ds_currency d = None
      then Inl (ValueError ''quote_notional depth requires currency'')
      else if ds_unit d \<noteq> QUOTE_NOTIONAL \<and> ds_currency d \<noteq> None
      then Inl (ValueError ''currency is only valid for quote_notional depth'')
      else Inr d)"

definition validate_depth_semantics :: "depth_semantics \<Rightarrow> depth_semantics result" where
  "validate_depth_semantics raw =
     (let d = ds_normalize_currency raw in
      if ds_field_errors d \<noteq> [] then Inl (FieldErrors (ds_field_errors d))
      else ds_validate_semantics d)"

definition volume_semantics_ok :: "volume_semantics \<Rightarrow> bool" where
  "volume_semantics_ok v \<longleftrightarrow>
     opt_all (\<lambda>n. 0 < n) (vs_window_ms v) \<and> opt_all currency_ok (vs_currency v) \<and>
     (vs_kind v = INTERVAL \<longleftrightarrow> vs_window_ms v \<noteq> None) \<and>
     (vs_unit v = QUOTE_NOTIONAL \<longleftrightarrow> vs_currency v \<noteq> None)"

definition depth_semantics_ok :: "depth_semantics \<Rightarrow> bool" where
  "depth_semantics_ok d \<longleftrightarrow>
     1 \<le> ds_levels d \<and> ds_levels d \<le> 20 \<and> opt_all currency_ok (ds_currency d) \<and>
     (ds_unit d = QUOTE_NOTIONAL \<longleftrightarrow> ds_currency d \<noteq> None)"

lemma validate_volume_semantics_iff:
  "validate_volume_semantics raw = Inr v \<longleftrightarrow> v = vs_normalize_currency raw \<and> volume_semantics_ok v"
  by (cases "vs_kind raw")
    (auto simp: validate_volume_semantics_def Let_def vs_validate_semantics_def vs_field_errors_def
      volume_semantics_ok_def vs_normalize_currency_def split: if_splits)

lemma validate_depth_semantics_iff:
  "validate_depth_semantics raw = Inr d \<longleftrightarrow> d = ds_normalize_currency raw \<and> depth_semantics_ok d"
  by (auto simp: validate_depth_semantics_def Let_def ds_validate_semantics_def ds_field_errors_def
      depth_semantics_ok_def ds_normalize_currency_def split: if_splits)

lemma map_option_currency_ok: "opt_all currency_ok c \<Longrightarrow> map_option normalize c = c"
  by (cases c) (auto simp: normal_simps)

lemma volume_semantics_ok_fix: "volume_semantics_ok v \<Longrightarrow> validate_volume_semantics v = Inr v"
  by (simp add: validate_volume_semantics_iff vs_normalize_currency_def volume_semantics_ok_def
      map_option_currency_ok)

lemma depth_semantics_ok_fix: "depth_semantics_ok d \<Longrightarrow> validate_depth_semantics d = Inr d"
  by (simp add: validate_depth_semantics_iff ds_normalize_currency_def depth_semantics_ok_def
      map_option_currency_ok)

section \<open>Quote events\<close>

record quote_input =
  i_schema_version :: string
  i_event_id :: uuid
  i_symbol :: string
  i_price :: decimal
  i_bid :: "decimal option"
  i_ask :: "decimal option"
  i_provider_timestamp :: datetime
  i_received_at :: datetime
  i_sequence :: "int option"
  i_provider :: string
  i_capabilities :: "capability set"
  i_volume :: "decimal option"
  i_buy_volume :: "decimal option"
  i_sell_volume :: "decimal option"
  i_trade_count :: "int option"
  i_bid_depth :: "decimal option"
  i_ask_depth :: "decimal option"
  i_volume_semantics :: "volume_semantics option"
  i_depth_semantics :: "depth_semantics option"

record quote_event =
  q_schema_version :: string
  q_event_id :: uuid
  q_symbol :: string
  q_price :: rat
  q_bid :: "rat option"
  q_ask :: "rat option"
  q_provider_timestamp :: datetime
  q_received_at :: datetime
  q_sequence :: "int option"
  q_provider :: string
  q_capabilities :: "capability set"
  q_volume :: "rat option"
  q_buy_volume :: "rat option"
  q_sell_volume :: "rat option"
  q_trade_count :: "int option"
  q_bid_depth :: "rat option"
  q_ask_depth :: "rat option"
  q_volume_semantics :: "volume_semantics option"
  q_depth_semantics :: "depth_semantics option"

text \<open>The pattern \<open>^1\.[0-9]+$\<close> and the minor version \<open>schema_version.split(".", 1)[1]\<close>.\<close>

definition schema_version_ok :: "string \<Rightarrow> bool" where
  "schema_version_ok s \<longleftrightarrow> take 2 s = ''1.'' \<and> drop 2 s \<noteq> [] \<and> list_all is_digit (drop 2 s)"

definition schema_minor_text :: "string \<Rightarrow> string" where
  "schema_minor_text s = snd (snd (py_partition (CHR ''.'') s))"

definition field_errors :: "(bool \<times> string) list \<Rightarrow> string list" where
  "field_errors cs = map snd (filter (\<lambda>c. \<not> fst c) cs)"

definition quote_field_errors :: "quote_input \<Rightarrow> string list" where
  "quote_field_errors r = field_errors
     [(schema_version_ok (i_schema_version r), ''schema_version''),
      (symbol_ok (normalize (i_symbol r)), ''symbol''),
      (positive_decimal (i_price r), ''price''),
      (opt_all positive_decimal (i_bid r), ''bid''),
      (opt_all positive_decimal (i_ask r), ''ask''),
      (is_aware (i_provider_timestamp r), ''provider_timestamp''),
      (is_aware (i_received_at r), ''received_at''),
      (opt_all (\<lambda>n. 0 \<le> n) (i_sequence r), ''sequence''),
      (1 \<le> length (i_provider r) \<and> length (i_provider r) \<le> 64, ''provider''),
      (opt_all non_negative_decimal (i_volume r), ''volume''),
      (opt_all non_negative_decimal (i_buy_volume r), ''buy_volume''),
      (opt_all non_negative_decimal (i_sell_volume r), ''sell_volume''),
      (opt_all (\<lambda>n. 0 \<le> n) (i_trade_count r), ''trade_count''),
      (opt_all non_negative_decimal (i_bid_depth r), ''bid_depth''),
      (opt_all non_negative_decimal (i_ask_depth r), ''ask_depth''),
      (opt_all (\<lambda>v. is_ok (validate_volume_semantics v)) (i_volume_semantics r), ''volume_semantics''),
      (opt_all (\<lambda>d. is_ok (validate_depth_semantics d)) (i_depth_semantics r), ''depth_semantics'')]"

definition quote_of_input :: "quote_input \<Rightarrow> quote_event" where
  "quote_of_input r =
     \<lparr>q_schema_version = i_schema_version r,
      q_event_id = i_event_id r,
      q_symbol = normalize (i_symbol r),
      q_price = finite_value (i_price r),
      q_bid = map_option finite_value (i_bid r),
      q_ask = map_option finite_value (i_ask r),
      q_provider_timestamp = i_provider_timestamp r,
      q_received_at = i_received_at r,
      q_sequence = i_sequence r,
      q_provider = i_provider r,
      q_capabilities = i_capabilities r,
      q_volume = map_option finite_value (i_volume r),
      q_buy_volume = map_option finite_value (i_buy_volume r),
      q_sell_volume = map_option finite_value (i_sell_volume r),
      q_trade_count = i_trade_count r,
      q_bid_depth = map_option finite_value (i_bid_depth r),
      q_ask_depth = map_option finite_value (i_ask_depth r),
      q_volume_semantics = map_option vs_normalize_currency (i_volume_semantics r),
      q_depth_semantics = map_option ds_normalize_currency (i_depth_semantics r)\<rparr>"

definition rich_values_present :: "quote_event \<Rightarrow> bool" where
  "rich_values_present q \<longleftrightarrow>
     q_volume q \<noteq> None \<or> q_buy_volume q \<noteq> None \<or> q_sell_volume q \<noteq> None \<or>
     q_trade_count q \<noteq> None \<or> q_bid_depth q \<noteq> None \<or> q_ask_depth q \<noteq> None \<or>
     q_volume_semantics q \<noteq> None \<or> q_depth_semantics q \<noteq> None"

definition volume_values_present :: "quote_event \<Rightarrow> bool" where
  "volume_values_present q \<longleftrightarrow>
     q_volume q \<noteq> None \<or> q_buy_volume q \<noteq> None \<or> q_sell_volume q \<noteq> None \<or> q_trade_count q \<noteq> None"

definition crossed :: "quote_event \<Rightarrow> bool" where
  "crossed q \<longleftrightarrow> (case (q_bid q, q_ask q) of (Some b, Some a) \<Rightarrow> a < b | _ \<Rightarrow> False)"

definition flow_exceeds_volume :: "quote_event \<Rightarrow> bool" where
  "flow_exceeds_volume q \<longleftrightarrow>
     (case (q_volume q, q_buy_volume q, q_sell_volume q) of
        (Some v, Some b, Some s) \<Rightarrow> v < b + s | _ \<Rightarrow> False)"

definition depth_levels_differ :: "quote_event \<Rightarrow> bool" where
  "depth_levels_differ q \<longleftrightarrow>
     (case q_depth_semantics q of None \<Rightarrow> False | Some d \<Rightarrow> ds_levels d \<noteq> 1)"

text \<open>\<open>int(...)\<close> refuses more than 4300 digits, which the field pattern allows.\<close>

definition validate_market :: "quote_event \<Rightarrow> quote_event result" where
  "validate_market q =
     (let minor = schema_minor_text (q_schema_version q);
          flow_present = (q_buy_volume q \<noteq> None \<or> q_sell_volume q \<noteq> None);
          depth_present = (q_bid_depth q \<noteq> None \<or> q_ask_depth q \<noteq> None) in
      if crossed q then Inl (ValueError ''bid must be less than or equal to ask'')
      else if LEVEL1_QUOTE \<notin> q_capabilities q
      then Inl (ValueError ''level1_quote capability is required'')
      else if 4300 < length minor
      then Inl (ValueError ''Exceeds the limit (4300 digits) for integer string conversion'')
      else if rich_values_present q \<and> nat_of_digits minor < 1
      then Inl (ValueError ''rich market evidence requires schema_version 1.1 or newer'')
      else if volume_values_present q \<and> q_volume_semantics q = None
      then Inl (ValueError ''volume-like evidence requires volume_semantics'')
      else if q_volume q \<noteq> None \<and> VOLUME \<notin> q_capabilities q
      then Inl (ValueError ''volume evidence requires volume capability'')
      else if flow_present \<and> (q_buy_volume q = None \<or> q_sell_volume q = None)
      then Inl (ValueError ''buy_volume and sell_volume must be provided together'')
      else if flow_present \<and> AGGRESSOR_FLOW \<notin> q_capabilities q
      then Inl (ValueError ''aggressor flow requires aggressor_flow capability'')
      else if flow_present \<and> flow_exceeds_volume q
      then Inl (ValueError ''classified buy and sell volume must not exceed total volume'')
      else if q_trade_count q \<noteq> None \<and> TRADE_COUNT \<notin> q_capabilities q
      then Inl (ValueError ''trade_count evidence requires trade_count capability'')
      else if depth_present \<and> (q_bid_depth q = None \<or> q_ask_depth q = None)
      then Inl (ValueError ''bid_depth and ask_depth must be provided together'')
      else if depth_present \<and> q_depth_semantics q = None
      then Inl (ValueError ''depth evidence requires depth_semantics'')
      else if depth_present \<and> depth_levels_differ q
      then Inl (ValueError ''bid_depth and ask_depth represent exactly one top-of-book level'')
      else if depth_present \<and> TOP_OF_BOOK_DEPTH \<notin> q_capabilities q
      then Inl (ValueError ''depth evidence requires top_of_book_depth capability'')
      else Inr q)"

definition validate_quote :: "quote_input \<Rightarrow> quote_event result" where
  "validate_quote r =
     (if quote_field_errors r \<noteq> [] then Inl (FieldErrors (quote_field_errors r))
      else validate_market (quote_of_input r))"

text \<open>
  \<open>model_dump\<close>: \<open>serialize_available_evidence\<close> drops the absent fields, so an absent field of the
  dump is \<^const>\<open>None\<close> again; \<open>serialize_capabilities\<close> lists the values in order.
\<close>

definition quote_dump :: "quote_event \<Rightarrow> quote_input" where
  "quote_dump q =
     \<lparr>i_schema_version = q_schema_version q,
      i_event_id = q_event_id q,
      i_symbol = q_symbol q,
      i_price = Finite (q_price q),
      i_bid = map_option Finite (q_bid q),
      i_ask = map_option Finite (q_ask q),
      i_provider_timestamp = q_provider_timestamp q,
      i_received_at = q_received_at q,
      i_sequence = q_sequence q,
      i_provider = q_provider q,
      i_capabilities = q_capabilities q,
      i_volume = map_option Finite (q_volume q),
      i_buy_volume = map_option Finite (q_buy_volume q),
      i_sell_volume = map_option Finite (q_sell_volume q),
      i_trade_count = q_trade_count q,
      i_bid_depth = map_option Finite (q_bid_depth q),
      i_ask_depth = map_option Finite (q_ask_depth q),
      i_volume_semantics = q_volume_semantics q,
      i_depth_semantics = q_depth_semantics q\<rparr>"

definition serialize_capabilities :: "capability set \<Rightarrow> string list" where
  "serialize_capabilities cs = sorted_list_of_set (capability_value ` cs)"

subsection \<open>What a validated event promises\<close>

definition market_ok :: "quote_event \<Rightarrow> bool" where
  "market_ok q \<longleftrightarrow>
     (\<forall>b a. q_bid q = Some b \<longrightarrow> q_ask q = Some a \<longrightarrow> b \<le> a) \<and>
     LEVEL1_QUOTE \<in> q_capabilities q \<and>
     length (schema_minor_text (q_schema_version q)) \<le> 4300 \<and>
     (rich_values_present q \<longrightarrow> 1 \<le> nat_of_digits (schema_minor_text (q_schema_version q))) \<and>
     (volume_values_present q \<longrightarrow> q_volume_semantics q \<noteq> None) \<and>
     (q_volume q \<noteq> None \<longrightarrow> VOLUME \<in> q_capabilities q) \<and>
     (q_buy_volume q = None \<longleftrightarrow> q_sell_volume q = None) \<and>
     (q_buy_volume q \<noteq> None \<longrightarrow> AGGRESSOR_FLOW \<in> q_capabilities q) \<and>
     (\<forall>v b s. q_volume q = Some v \<longrightarrow> q_buy_volume q = Some b \<longrightarrow> q_sell_volume q = Some s \<longrightarrow> b + s \<le> v) \<and>
     (q_trade_count q \<noteq> None \<longrightarrow> TRADE_COUNT \<in> q_capabilities q) \<and>
     (q_bid_depth q = None \<longleftrightarrow> q_ask_depth q = None) \<and>
     (q_bid_depth q \<noteq> None \<longrightarrow>
        (\<exists>d. q_depth_semantics q = Some d \<and> ds_levels d = 1) \<and> TOP_OF_BOOK_DEPTH \<in> q_capabilities q)"

definition quote_fields_ok :: "quote_event \<Rightarrow> bool" where
  "quote_fields_ok q \<longleftrightarrow>
     schema_version_ok (q_schema_version q) \<and> symbol_ok (q_symbol q) \<and> 0 < q_price q \<and>
     opt_all (\<lambda>x. 0 < x) (q_bid q) \<and> opt_all (\<lambda>x. 0 < x) (q_ask q) \<and>
     is_aware (q_provider_timestamp q) \<and> is_aware (q_received_at q) \<and>
     opt_all (\<lambda>n. 0 \<le> n) (q_sequence q) \<and> 1 \<le> length (q_provider q) \<and> length (q_provider q) \<le> 64 \<and>
     opt_all (\<lambda>x. 0 \<le> x) (q_volume q) \<and> opt_all (\<lambda>x. 0 \<le> x) (q_buy_volume q) \<and>
     opt_all (\<lambda>x. 0 \<le> x) (q_sell_volume q) \<and> opt_all (\<lambda>n. 0 \<le> n) (q_trade_count q) \<and>
     opt_all (\<lambda>x. 0 \<le> x) (q_bid_depth q) \<and> opt_all (\<lambda>x. 0 \<le> x) (q_ask_depth q) \<and>
     opt_all volume_semantics_ok (q_volume_semantics q) \<and>
     opt_all depth_semantics_ok (q_depth_semantics q)"

lemma field_errors_Nil: "field_errors cs = [] \<longleftrightarrow> (\<forall>c \<in> set cs. fst c)"
  by (auto simp: field_errors_def filter_empty_conv)

lemma crossed_iff: "crossed q \<longleftrightarrow> (\<exists>b a. q_bid q = Some b \<and> q_ask q = Some a \<and> a < b)"
  by (cases "q_bid q"; cases "q_ask q") (auto simp: crossed_def)

lemma flow_exceeds_volume_iff:
  "flow_exceeds_volume q \<longleftrightarrow>
     (\<exists>v b s. q_volume q = Some v \<and> q_buy_volume q = Some b \<and> q_sell_volume q = Some s \<and> v < b + s)"
  by (cases "q_volume q"; cases "q_buy_volume q"; cases "q_sell_volume q")
    (auto simp: flow_exceeds_volume_def)

lemma depth_levels_differ_iff:
  "depth_levels_differ q \<longleftrightarrow> (\<exists>d. q_depth_semantics q = Some d \<and> ds_levels d \<noteq> 1)"
  by (cases "q_depth_semantics q") (auto simp: depth_levels_differ_def)

lemma market_ok_alt:
  "market_ok q \<longleftrightarrow>
     \<not> crossed q \<and> \<not> LEVEL1_QUOTE \<notin> q_capabilities q \<and>
     \<not> 4300 < length (schema_minor_text (q_schema_version q)) \<and>
     \<not> (rich_values_present q \<and> nat_of_digits (schema_minor_text (q_schema_version q)) < 1) \<and>
     \<not> (volume_values_present q \<and> q_volume_semantics q = None) \<and>
     \<not> (q_volume q \<noteq> None \<and> VOLUME \<notin> q_capabilities q) \<and>
     \<not> ((q_buy_volume q \<noteq> None \<or> q_sell_volume q \<noteq> None) \<and> (q_buy_volume q = None \<or> q_sell_volume q = None)) \<and>
     \<not> ((q_buy_volume q \<noteq> None \<or> q_sell_volume q \<noteq> None) \<and> AGGRESSOR_FLOW \<notin> q_capabilities q) \<and>
     \<not> ((q_buy_volume q \<noteq> None \<or> q_sell_volume q \<noteq> None) \<and> flow_exceeds_volume q) \<and>
     \<not> (q_trade_count q \<noteq> None \<and> TRADE_COUNT \<notin> q_capabilities q) \<and>
     \<not> ((q_bid_depth q \<noteq> None \<or> q_ask_depth q \<noteq> None) \<and> (q_bid_depth q = None \<or> q_ask_depth q = None)) \<and>
     \<not> ((q_bid_depth q \<noteq> None \<or> q_ask_depth q \<noteq> None) \<and> q_depth_semantics q = None) \<and>
     \<not> ((q_bid_depth q \<noteq> None \<or> q_ask_depth q \<noteq> None) \<and> depth_levels_differ q) \<and>
     \<not> ((q_bid_depth q \<noteq> None \<or> q_ask_depth q \<noteq> None) \<and> TOP_OF_BOOK_DEPTH \<notin> q_capabilities q)"
proof -
  have crossed: "(\<forall>b a. q_bid q = Some b \<longrightarrow> q_ask q = Some a \<longrightarrow> b \<le> a) \<longleftrightarrow> \<not> crossed q"
    by (auto simp: crossed_iff not_less)
  have flow: "(\<forall>v b s. q_volume q = Some v \<longrightarrow> q_buy_volume q = Some b \<longrightarrow> q_sell_volume q = Some s \<longrightarrow>
      b + s \<le> v) \<longleftrightarrow> \<not> flow_exceeds_volume q"
    by (auto simp: flow_exceeds_volume_iff not_less)
  have none: "\<not> flow_exceeds_volume q" if "q_buy_volume q = None \<or> q_sell_volume q = None"
    using that by (auto simp: flow_exceeds_volume_iff)
  have depth: "(\<exists>d. q_depth_semantics q = Some d \<and> ds_levels d = 1) \<longleftrightarrow>
      q_depth_semantics q \<noteq> None \<and> \<not> depth_levels_differ q"
    by (auto simp: depth_levels_differ_iff)
  show ?thesis
    unfolding market_ok_def crossed flow depth using none
    by (cases "q_buy_volume q = None"; cases "q_sell_volume q = None";
        cases "q_bid_depth q = None"; cases "q_ask_depth q = None"; auto simp: not_less Suc_le_eq simp del: not_None_eq)
qed

lemma validate_market_eq: "validate_market q = Inr q' \<longleftrightarrow> q' = q \<and> market_ok q"
  unfolding validate_market_def Let_def if_Inl_eq_Inr market_ok_alt sum.inject
  by (rule iffI; elim conjE; intro conjI; (assumption | erule sym))

lemma quote_field_errors_Nil:
  "quote_field_errors r = [] \<longleftrightarrow>
     schema_version_ok (i_schema_version r) \<and> symbol_ok (normalize (i_symbol r)) \<and>
     positive_decimal (i_price r) \<and> opt_all positive_decimal (i_bid r) \<and>
     opt_all positive_decimal (i_ask r) \<and> is_aware (i_provider_timestamp r) \<and>
     is_aware (i_received_at r) \<and> opt_all (\<lambda>n. 0 \<le> n) (i_sequence r) \<and>
     1 \<le> length (i_provider r) \<and> length (i_provider r) \<le> 64 \<and>
     opt_all non_negative_decimal (i_volume r) \<and> opt_all non_negative_decimal (i_buy_volume r) \<and>
     opt_all non_negative_decimal (i_sell_volume r) \<and> opt_all (\<lambda>n. 0 \<le> n) (i_trade_count r) \<and>
     opt_all non_negative_decimal (i_bid_depth r) \<and> opt_all non_negative_decimal (i_ask_depth r) \<and>
     opt_all (\<lambda>v. is_ok (validate_volume_semantics v)) (i_volume_semantics r) \<and>
     opt_all (\<lambda>d. is_ok (validate_depth_semantics d)) (i_depth_semantics r)"
  by (simp add: quote_field_errors_def field_errors_Nil conj_assoc)

lemma positive_decimal_iff: "positive_decimal d \<longleftrightarrow> (\<exists>r. d = Finite r \<and> 0 < r)"
  by (cases d) auto

lemma non_negative_decimal_iff: "non_negative_decimal d \<longleftrightarrow> (\<exists>r. d = Finite r \<and> 0 \<le> r)"
  by (cases d) auto

lemma positive_finite_value: "positive_decimal d \<Longrightarrow> 0 < finite_value d"
  by (cases d) auto

lemma non_negative_finite_value: "non_negative_decimal d \<Longrightarrow> 0 \<le> finite_value d"
  by (cases d) auto

lemma opt_all_mono: "opt_all P x \<Longrightarrow> (\<And>v. P v \<Longrightarrow> Q v) \<Longrightarrow> opt_all Q x"
  by (cases x) auto

lemma semantics_ok_of_input:
  "is_ok (validate_volume_semantics v) \<Longrightarrow> volume_semantics_ok (vs_normalize_currency v)"
  "is_ok (validate_depth_semantics d) \<Longrightarrow> depth_semantics_ok (ds_normalize_currency d)"
  by (auto simp: is_ok_iff validate_volume_semantics_iff validate_depth_semantics_iff)

lemma quote_of_input_fields_ok:
  assumes "quote_field_errors r = []"
  shows "quote_fields_ok (quote_of_input r)"
  using assms unfolding quote_field_errors_Nil quote_fields_ok_def
  by (auto simp: quote_of_input_def elim!: opt_all_mono
      intro: positive_finite_value non_negative_finite_value semantics_ok_of_input)

lemma validate_quote_iff:
  "validate_quote r = Inr q \<longleftrightarrow> quote_field_errors r = [] \<and> q = quote_of_input r \<and> market_ok q"
  by (auto simp: validate_quote_def validate_market_eq)

lemma quote_fields_of_dump:
  assumes "quote_fields_ok q"
  shows "quote_field_errors (quote_dump q) = []"
  using assms unfolding quote_field_errors_Nil quote_fields_ok_def
  by (auto simp: quote_dump_def symbol_ok_fix volume_semantics_ok_fix depth_semantics_ok_fix
      elim!: opt_all_mono)

lemma map_option_Finite: "map_option finite_value (map_option Finite x) = x"
  by (cases x) auto

lemma quote_of_dump:
  assumes "quote_fields_ok q"
  shows "quote_of_input (quote_dump q) = q"
proof -
  have "map_option vs_normalize_currency (q_volume_semantics q) = q_volume_semantics q"
    using assms volume_semantics_ok_fix
    by (cases "q_volume_semantics q") (auto simp: quote_fields_ok_def validate_volume_semantics_iff)
  moreover have "map_option ds_normalize_currency (q_depth_semantics q) = q_depth_semantics q"
    using assms depth_semantics_ok_fix
    by (cases "q_depth_semantics q") (auto simp: quote_fields_ok_def validate_depth_semantics_iff)
  moreover have "normalize (q_symbol q) = q_symbol q"
    using assms by (simp add: quote_fields_ok_def symbol_ok_fix)
  ultimately show ?thesis
    by (simp add: quote_of_input_def quote_dump_def option.map_comp comp_def option.map_ident)
qed

lemma validated_dump: "validate_quote r = Inr q \<Longrightarrow> validate_quote (quote_dump q) = Inr q"
  by (metis quote_fields_of_dump quote_of_dump quote_of_input_fields_ok validate_quote_iff)

section \<open>Snapshots, identities, commands, gap observations\<close>

record quote_snapshot =
  snap_quote :: quote_event
  snap_stale :: bool
  snap_age_ms :: int

record client_identity =
  ci_client_id :: string
  ci_tier :: service_tier
  ci_allowed_symbols :: "string set option"
  ci_allowed_channels :: "string set"
  ci_organization_id :: "string option"

definition normalize_allowed_symbols :: "string list option \<Rightarrow> string set option" where
  "normalize_allowed_symbols value =
     map_option (\<lambda>xs. set (map normalize (filter (\<lambda>s. py_strip s \<noteq> []) xs))) value"

definition make_identity ::
  "string \<Rightarrow> service_tier \<Rightarrow> string list option \<Rightarrow> string set \<Rightarrow> string option \<Rightarrow> client_identity result" where
  "make_identity client_id tier allowed_symbols allowed_channels organization_id =
     (if 1 \<le> length client_id \<and> length client_id \<le> 128
      then Inr \<lparr>ci_client_id = client_id, ci_tier = tier,
                ci_allowed_symbols = normalize_allowed_symbols allowed_symbols,
                ci_allowed_channels = allowed_channels, ci_organization_id = organization_id\<rparr>
      else Inl (FieldErrors [''client_id'']))"

record gap_observation =
  gap_symbol :: string
  gap_previous_sequence :: "int option"
  gap_current_sequence :: int
  gap_size :: int
  gap_out_of_order :: bool

datatype action = Subscribe | Unsubscribe | Ping

definition action_of :: "string \<Rightarrow> action option" where
  "action_of s =
     (if s = ''subscribe'' then Some Subscribe else if s = ''unsubscribe'' then Some Unsubscribe
      else if s = ''ping'' then Some Ping else None)"

record command_input =
  in_action :: string
  in_symbols :: "string list option"
  in_channels :: "string list"
  in_request_id :: "string option"

record subscription_command =
  cmd_action :: action
  cmd_symbols :: "string list"
  cmd_channels :: "string list"
  cmd_request_id :: "string option"

definition normalize_symbols :: "string list option \<Rightarrow> string list" where
  "normalize_symbols value =
     (case value of None \<Rightarrow> []
      | Some xs \<Rightarrow> py_unique (map normalize (filter (\<lambda>s. py_strip s \<noteq> []) xs)))"

definition command_field_errors :: "command_input \<Rightarrow> string list" where
  "command_field_errors r = field_errors
     [(action_of (in_action r) \<noteq> None, ''action''),
      (list_all symbol_ok (normalize_symbols (in_symbols r)) \<and>
         length (normalize_symbols (in_symbols r)) \<le> 500, ''symbols''),
      (length (in_channels r) \<le> 10, ''channels''),
      (opt_all (\<lambda>s. length s \<le> 128) (in_request_id r), ''request_id'')]"

definition validate_command :: "command_input \<Rightarrow> subscription_command result" where
  "validate_command r =
     (if command_field_errors r \<noteq> [] then Inl (FieldErrors (command_field_errors r))
      else
        let a = the (action_of (in_action r)); syms = normalize_symbols (in_symbols r) in
        if a \<in> {Subscribe, Unsubscribe} \<and> syms = []
        then Inl (ValueError ''symbols are required for subscribe and unsubscribe'')
        else Inr \<lparr>cmd_action = a, cmd_symbols = syms, cmd_channels = in_channels r,
                  cmd_request_id = in_request_id r\<rparr>)"

lemma normalize_symbols_fix:
  "set xs \<subseteq> Collect symbol_ok \<Longrightarrow> distinct xs \<Longrightarrow> normalize_symbols (Some xs) = xs"
proof -
  assume ok: "set xs \<subseteq> Collect symbol_ok" and d: "distinct xs"
  have "filter (\<lambda>s. py_strip s \<noteq> []) xs = xs"
  proof (rule filter_True, rule ballI)
    fix s assume "s \<in> set xs"
    with ok have "symbol_ok s" by auto
    then have "normalize s \<noteq> []" by (auto simp: symbol_ok_fix) (simp add: symbol_ok_def)
    then show "py_strip s \<noteq> []" by (simp add: normalize_def)
  qed
  moreover have "map normalize xs = xs" using ok by (auto intro!: map_idI simp: symbol_ok_fix)
  ultimately show ?thesis using d by (simp add: normalize_symbols_def py_unique_id)
qed

section \<open>Properties\<close>

text \<open>A quote event that passes validation has well-formed fields and satisfies the market
  contract: prices positive, bid not above ask, evidence only with its capability, paired flow and
  depth values, classified flow within the total volume, rich evidence only from schema 1.1 on.\<close>

theorem validated_quote_wf:
  "validate_quote r = Inr q \<Longrightarrow> quote_fields_ok q \<and> market_ok q"
  by (auto simp: validate_quote_iff quote_of_input_fields_ok)

text \<open>C26: \<open>QuoteEvent.validate_market\<close> is exact: it returns the event unchanged when the event
  satisfies the declarative market contract and raises otherwise.\<close>

theorem validate_market_exact:
  "(market_ok q \<longrightarrow> validate_market q = Inr q) \<and> (\<not> market_ok q \<longrightarrow> (\<exists>e. validate_market q = Inl e))"
  using validate_market_eq [of q] by (cases "validate_market q") auto


text \<open>An accepted WebSocket command carries at most 500 distinct, normalised, valid symbols, at
  least one for subscribe and unsubscribe, and validating its symbols again changes nothing.\<close>

theorem validated_command_symbols:
  assumes "validate_command r = Inr c"
  shows "distinct (cmd_symbols c) \<and> length (cmd_symbols c) \<le> 500 \<and>
    (\<forall>s \<in> set (cmd_symbols c). symbol_ok s \<and> normalize s = s) \<and>
    (cmd_action c \<noteq> Ping \<longrightarrow> cmd_symbols c \<noteq> []) \<and>
    normalize_symbols (Some (cmd_symbols c)) = cmd_symbols c"
proof -
  from assms have c: "cmd_symbols c = normalize_symbols (in_symbols r)"
    and ok: "list_all symbol_ok (cmd_symbols c)" and len: "length (cmd_symbols c) \<le> 500"
    and ne: "cmd_action c \<in> {Subscribe, Unsubscribe} \<longrightarrow> cmd_symbols c \<noteq> []"
    by (auto simp: validate_command_def Let_def command_field_errors_def field_errors_Nil
        split: if_splits)
  have d: "distinct (cmd_symbols c)"
    unfolding c by (cases "in_symbols r") (auto simp: normalize_symbols_def)
  from ne have "cmd_action c \<noteq> Ping \<longrightarrow> cmd_symbols c \<noteq> []" by (cases "cmd_action c") auto
  with ok len d show ?thesis
    by (auto simp: list_all_iff symbol_ok_fix intro!: normalize_symbols_fix)
qed

section \<open>Witnesses\<close>

definition sample_input :: quote_input where
  "sample_input =
     \<lparr>i_schema_version = ''1.1'', i_event_id = 7, i_symbol = '' aapl '',
      i_price = Finite 10, i_bid = Some (Finite 9), i_ask = Some (Finite 11),
      i_provider_timestamp = utc_datetime 61000000, i_received_at = utc_datetime 62000000,
      i_sequence = Some 3, i_provider = ''mock'', i_capabilities = {LEVEL1_QUOTE, VOLUME, AGGRESSOR_FLOW},
      i_volume = Some (Finite 5), i_buy_volume = Some (Finite 2), i_sell_volume = Some (Finite 3),
      i_trade_count = None, i_bid_depth = None, i_ask_depth = None,
      i_volume_semantics = Some \<lparr>vs_kind = INTERVAL, vs_unit = BASE_ASSET, vs_window_ms = Some 250,
         vs_currency = None, vs_origin = NATIVE\<rparr>,
      i_depth_semantics = None\<rparr>"

lemma sample_input_valid: "validate_quote sample_input = Inr (quote_of_input sample_input)"
  by code_simp

theorem validated_quote_wf_witness:
  "validate_quote sample_input = Inr (quote_of_input sample_input) \<and>
   quote_fields_ok (quote_of_input sample_input) \<and> market_ok (quote_of_input sample_input)"
  using validated_quote_wf [OF sample_input_valid] sample_input_valid by simp


theorem validate_market_exact_witness:
  "market_ok (quote_of_input sample_input) \<and>
   validate_market (quote_of_input sample_input) = Inr (quote_of_input sample_input) \<and>
   (\<exists>e. validate_market ((quote_of_input sample_input)\<lparr>q_ask := Some 8\<rparr>) = Inl e)"
proof -
  have "market_ok (quote_of_input sample_input)"
    using sample_input_valid by (simp add: validate_quote_iff)
  moreover have "\<not> market_ok ((quote_of_input sample_input)\<lparr>q_ask := Some 8\<rparr>)"
    by (simp add: market_ok_def quote_of_input_def sample_input_def)
  ultimately show ?thesis
    using validate_market_exact [of "quote_of_input sample_input"]
      validate_market_exact [of "(quote_of_input sample_input)\<lparr>q_ask := Some 8\<rparr>"] by simp
qed

definition sample_command :: command_input where
  "sample_command = \<lparr>in_action = ''subscribe'', in_symbols = Some [''aapl'', '' AAPL'', ''tsla''],
     in_channels = [''quote''], in_request_id = None\<rparr>"

lemma sample_command_valid: "validate_command sample_command =
   Inr \<lparr>cmd_action = Subscribe, cmd_symbols = [''AAPL'', ''TSLA''], cmd_channels = [''quote''],
        cmd_request_id = None\<rparr>"
  by code_simp

theorem validated_command_symbols_witness:
  "distinct [''AAPL'', ''TSLA''] \<and> symbol_ok ''AAPL'' \<and>
   normalize_symbols (Some [''AAPL'', ''TSLA'']) = [''AAPL'', ''TSLA'']"
  using validated_command_symbols [OF sample_command_valid] by simp

end
