(* ===== verification/Candles.thy ===== *)
theory Candles
  imports Models "HOL-Library.Multiset"
begin

text \<open>
  One-minute candles and their aggregation, \<open>candles.py\<close>.  \<open>floor_time\<close> and \<open>history_window\<close> do
  the bucket arithmetic, \<open>from_quote\<close> and \<open>with_quote\<close> maintain the canonical one-minute candle of
  a symbol, \<open>aggregate_base_candles\<close> rolls minute candles up into a closed-interval series.

  The lemmas show that a candle built from quotes summarises them (\<open>summarises\<close>), whatever the
  order in which they arrive, and that the series is sorted, aligned, inside the requested window
  and loses no observation.
\<close>

section \<open>Timeframes and bucket arithmetic\<close>

datatype timeframe = TF_1m | TF_5m | TF_15m | TF_1h | TF_4h | TF_1d

fun timeframe_seconds :: "timeframe \<Rightarrow> int" where
  "timeframe_seconds TF_1m = 60"
| "timeframe_seconds TF_5m = 300"
| "timeframe_seconds TF_15m = 900"
| "timeframe_seconds TF_1h = 3600"
| "timeframe_seconds TF_4h = 14400"
| "timeframe_seconds TF_1d = 86400"

text \<open>The arithmetic of \<open>floor_time\<close> on an aware value, whose UTC conversion is its instant.\<close>

definition floor_utc :: "instant \<Rightarrow> int \<Rightarrow> instant" where
  "floor_utc t interval = (let epoch = trunc_seconds t in (epoch - epoch mod interval) * us_per_second)"

definition floor_time :: "datetime \<Rightarrow> int \<Rightarrow> instant result" where
  "floor_time value interval =
     (if \<not> is_aware value then Inl (ValueError ''timestamps must include timezone information'')
      else Inr (floor_utc (dt_us value) interval))"

definition history_window :: "timeframe \<Rightarrow> int \<Rightarrow> datetime \<Rightarrow> (instant \<times> instant) result" where
  "history_window tf limit end_at =
     (if limit < 1 then Inl (ValueError ''limit must be positive'')
      else if \<not> is_aware end_at then Inl (ValueError ''end must include timezone information'')
      else
        let interval = timeframe_seconds tf;
            effective_end = dt_us end_at;
            last_closed_bucket = floor_utc effective_end interval - interval * us_per_second;
            start = last_closed_bucket - interval * (limit - 1) * us_per_second
        in Inr (start, effective_end))"

lemma timeframe_seconds_pos [simp]: "0 < timeframe_seconds tf"
  by (cases tf) auto

lemma timeframe_minutes: "60 dvd timeframe_seconds tf"
  by (cases tf) auto

lemma floor_utc_dvd: "interval * us_per_second dvd floor_utc t interval"
  by (simp add: floor_utc_def Let_def minus_mod_eq_mult_div)

lemma trunc_seconds_bounds:
  "0 \<le> t \<Longrightarrow> trunc_seconds t * us_per_second \<le> t \<and> t < trunc_seconds t * us_per_second + us_per_second"
  by (simp add: trunc_seconds_def) linarith

lemma trunc_seconds_lower: "t < trunc_seconds t * us_per_second + us_per_second"
  by (cases "0 \<le> t") (auto simp: trunc_seconds_def; linarith)+

lemma mod_step: "0 < i \<Longrightarrow> (e::int) - e mod i \<le> e \<and> e < e - e mod i + i"
  using pos_mod_bound [of i e] pos_mod_sign [of i e] by linarith

lemma floor_utc_bounds:
  assumes "0 \<le> t" "0 < interval"
  shows "floor_utc t interval \<le> t \<and> t < floor_utc t interval + interval * us_per_second"
proof -
  let ?e = "trunc_seconds t"
  have "(?e - ?e mod interval) * us_per_second \<le> ?e * us_per_second"
    and "?e + 1 \<le> ?e - ?e mod interval + interval"
    using mod_step [OF assms(2), of ?e] by (auto intro: mult_right_mono)
  then have "(?e + 1) * us_per_second \<le> (?e - ?e mod interval + interval) * us_per_second"
    by (intro mult_right_mono) auto
  with \<open>(?e - ?e mod interval) * us_per_second \<le> ?e * us_per_second\<close> trunc_seconds_bounds [OF assms(1)]
  show ?thesis by (simp add: floor_utc_def Let_def algebra_simps)
qed

text \<open>The upper bound holds before the epoch too, where the result may lie above the input.\<close>

lemma floor_utc_upper:
  assumes "0 < interval"
  shows "t < floor_utc t interval + interval * us_per_second"
proof -
  let ?e = "trunc_seconds t"
  have "?e + 1 \<le> ?e - ?e mod interval + interval"
    using mod_step [OF assms, of ?e] by linarith
  then have "(?e + 1) * us_per_second \<le> (?e - ?e mod interval + interval) * us_per_second"
    by (intro mult_right_mono) auto
  with trunc_seconds_lower [of t] show ?thesis by (simp add: floor_utc_def Let_def algebra_simps)
qed

lemma floor_utc_whole: "floor_utc (s * us_per_second) interval = (s - s mod interval) * us_per_second"
  by (simp add: floor_utc_def)

lemma floor_utc_aligned:
  assumes "interval * us_per_second dvd t"
  shows "floor_utc t interval = t"
proof -
  from assms obtain k where "t = (interval * k) * us_per_second"
    by (auto simp: dvd_def algebra_simps)
  then show ?thesis by (simp only: floor_utc_whole) simp
qed

lemma floor_utc_whole_bounds:
  assumes "us_per_second dvd t" "0 < interval"
  shows "floor_utc t interval \<le> t \<and> t < floor_utc t interval + interval * us_per_second"
proof -
  from assms(1) obtain s where t: "t = s * us_per_second" by (auto simp: dvd_def)
  have "(s - s mod interval) * us_per_second \<le> s * us_per_second"
    using mod_step [OF assms(2), of s] by (intro mult_right_mono) auto
  with floor_utc_upper [OF assms(2), of t] show ?thesis unfolding t floor_utc_whole by simp
qed

section \<open>The canonical one-minute candle\<close>

record base_candle =
  b_symbol :: string
  b_open_time :: instant
  b_open :: rat
  b_high :: rat
  b_low :: rat
  b_close :: rat
  b_activity :: int
  b_first_ts :: instant
  b_last_ts :: instant
  b_first_id :: uuid
  b_last_id :: uuid

definition event_ts :: "quote_event \<Rightarrow> instant" where
  "event_ts e = dt_us (q_provider_timestamp e)"

definition from_quote :: "quote_event \<Rightarrow> base_candle" where
  "from_quote e =
     \<lparr>b_symbol = q_symbol e, b_open_time = floor_utc (event_ts e) 60,
      b_open = q_price e, b_high = q_price e, b_low = q_price e, b_close = q_price e,
      b_activity = 1, b_first_ts = event_ts e, b_last_ts = event_ts e,
      b_first_id = q_event_id e, b_last_id = q_event_id e\<rparr>"

definition event_key :: "quote_event \<Rightarrow> instant \<times> string" where
  "event_key e = (event_ts e, uuid_str (q_event_id e))"

definition first_key :: "base_candle \<Rightarrow> instant \<times> string" where
  "first_key c = (b_first_ts c, uuid_str (b_first_id c))"

definition last_key :: "base_candle \<Rightarrow> instant \<times> string" where
  "last_key c = (b_last_ts c, uuid_str (b_last_id c))"

text \<open>Both comparisons are made on the candle before the update.\<close>

definition with_quote :: "base_candle \<Rightarrow> quote_event \<Rightarrow> base_candle result" where
  "with_quote c e =
     (if q_symbol e \<noteq> b_symbol c then Inl (ValueError ''quote symbol does not match candle symbol'')
      else if floor_utc (event_ts e) 60 \<noteq> b_open_time c
      then Inl (ValueError ''quote does not belong to this minute candle'')
      else
        let c1 = c\<lparr>b_high := max (b_high c) (q_price e), b_low := min (b_low c) (q_price e),
                   b_activity := b_activity c + 1\<rparr>;
            c2 = (if event_key e < first_key c
                  then c1\<lparr>b_open := q_price e, b_first_ts := event_ts e, b_first_id := q_event_id e\<rparr>
                  else c1);
            c3 = (if last_key c < event_key e
                  then c2\<lparr>b_close := q_price e, b_last_ts := event_ts e, b_last_id := q_event_id e\<rparr>
                  else c2)
        in Inr c3)"

text \<open>
  The life of a minute candle in the store: the first quote of the bucket creates it, every later
  one updates it (\<open>RedisStore.cache_quote\<close>).
\<close>

fun apply_quotes :: "base_candle \<Rightarrow> quote_event list \<Rightarrow> base_candle result" where
  "apply_quotes c [] = Inr c"
| "apply_quotes c (e # es) = bindE (with_quote c e) (\<lambda>c'. apply_quotes c' es)"

fun candle_of_quotes :: "quote_event list \<Rightarrow> base_candle option result" where
  "candle_of_quotes [] = Inr None"
| "candle_of_quotes (e # es) = bindE (apply_quotes (from_quote e) es) (\<lambda>c. Inr (Some c))"

definition in_bucket :: "string \<Rightarrow> instant \<Rightarrow> quote_event \<Rightarrow> bool" where
  "in_bucket s t e \<longleftrightarrow> q_symbol e = s \<and> floor_utc (event_ts e) 60 = t"

text \<open>What the candle of a bucket says of the quotes it has seen.\<close>

definition summarises :: "base_candle \<Rightarrow> quote_event list \<Rightarrow> bool" where
  "summarises c es \<longleftrightarrow>
     (\<forall>e \<in> set es. in_bucket (b_symbol c) (b_open_time c) e) \<and>
     b_activity c = int (length es) \<and>
     b_high c = Max (q_price ` set es) \<and> b_low c = Min (q_price ` set es) \<and>
     (\<exists>f \<in> set es. (\<forall>e \<in> set es. event_key f \<le> event_key e) \<and>
        b_open c = q_price f \<and> b_first_ts c = event_ts f \<and> b_first_id c = q_event_id f) \<and>
     (\<exists>l \<in> set es. (\<forall>e \<in> set es. event_key e \<le> event_key l) \<and>
        b_close c = q_price l \<and> b_last_ts c = event_ts l \<and> b_last_id c = q_event_id l)"

lemma event_key_less_iff:
  "event_key e < event_key f \<longleftrightarrow> event_ts e < event_ts f \<or> event_ts e = event_ts f \<and> q_event_id e < q_event_id f"
  by (auto simp: event_key_def uuid_str_less)

lemma from_quote_summarises: "summarises (from_quote e) [e]"
  by (simp add: summarises_def from_quote_def in_bucket_def)

lemma with_quote_Inr:
  "with_quote c e = Inr c' \<Longrightarrow> in_bucket (b_symbol c) (b_open_time c) e"
  by (simp add: with_quote_def in_bucket_def split: if_splits)

lemma with_quote_defined:
  "in_bucket (b_symbol c) (b_open_time c) e \<Longrightarrow> \<exists>c'. with_quote c e = Inr c'"
  by (simp add: with_quote_def in_bucket_def Let_def)

lemma with_quote_fields:
  assumes "with_quote c e = Inr c'"
  shows "b_symbol c' = b_symbol c" "b_open_time c' = b_open_time c"
    "b_activity c' = b_activity c + 1"
    "b_high c' = max (b_high c) (q_price e)" "b_low c' = min (b_low c) (q_price e)"
    "b_open c' = (if event_key e < first_key c then q_price e else b_open c)"
    "b_first_ts c' = (if event_key e < first_key c then event_ts e else b_first_ts c)"
    "b_first_id c' = (if event_key e < first_key c then q_event_id e else b_first_id c)"
    "b_close c' = (if last_key c < event_key e then q_price e else b_close c)"
    "b_last_ts c' = (if last_key c < event_key e then event_ts e else b_last_ts c)"
    "b_last_id c' = (if last_key c < event_key e then q_event_id e else b_last_id c)"
  using assms by (auto simp: with_quote_def Let_def split: if_splits)

lemma summarises_first_key: "summarises c es \<Longrightarrow> e \<in> set es \<Longrightarrow> first_key c \<le> event_key e"
  by (auto simp: summarises_def first_key_def event_key_def)

lemma summarises_last_key: "summarises c es \<Longrightarrow> e \<in> set es \<Longrightarrow> event_key e \<le> last_key c"
  by (auto simp: summarises_def last_key_def event_key_def)

lemma summarises_first:
  assumes "summarises c es"
  obtains f where "f \<in> set es" "first_key c = event_key f" "\<forall>e \<in> set es. event_key f \<le> event_key e"
    "b_open c = q_price f" "b_first_ts c = event_ts f" "b_first_id c = q_event_id f"
  using assms by (auto simp: summarises_def first_key_def event_key_def)

lemma summarises_last:
  assumes "summarises c es"
  obtains l where "l \<in> set es" "last_key c = event_key l" "\<forall>e \<in> set es. event_key e \<le> event_key l"
    "b_close c = q_price l" "b_last_ts c = event_ts l" "b_last_id c = q_event_id l"
  using assms by (auto simp: summarises_def last_key_def event_key_def)

lemma with_quote_first:
  assumes s: "summarises c es" and w: "with_quote c e = Inr c'"
  shows "\<exists>f \<in> set (es @ [e]). (\<forall>e' \<in> set (es @ [e]). event_key f \<le> event_key e') \<and>
     b_open c' = q_price f \<and> b_first_ts c' = event_ts f \<and> b_first_id c' = q_event_id f"
proof (cases "event_key e < first_key c")
  case True
  then have "\<forall>e' \<in> set es. event_key e \<le> event_key e'"
    using summarises_first_key [OF s] by (meson less_le_trans less_imp_le)
  with True show ?thesis by (intro bexI [of _ e]) (auto simp: with_quote_fields [OF w])
next
  case False
  obtain f where f: "f \<in> set es" "first_key c = event_key f" "\<forall>e \<in> set es. event_key f \<le> event_key e"
    "b_open c = q_price f" "b_first_ts c = event_ts f" "b_first_id c = q_event_id f"
    by (rule summarises_first [OF s])
  with False show ?thesis
    by (intro bexI [of _ f]) (auto simp: with_quote_fields [OF w] not_less)
qed

lemma with_quote_last:
  assumes s: "summarises c es" and w: "with_quote c e = Inr c'"
  shows "\<exists>l \<in> set (es @ [e]). (\<forall>e' \<in> set (es @ [e]). event_key e' \<le> event_key l) \<and>
     b_close c' = q_price l \<and> b_last_ts c' = event_ts l \<and> b_last_id c' = q_event_id l"
proof (cases "last_key c < event_key e")
  case True
  then have "\<forall>e' \<in> set es. event_key e' \<le> event_key e"
    using summarises_last_key [OF s] by (meson le_less_trans less_imp_le)
  with True show ?thesis by (intro bexI [of _ e]) (auto simp: with_quote_fields [OF w])
next
  case False
  obtain l where l: "l \<in> set es" "last_key c = event_key l" "\<forall>e \<in> set es. event_key e \<le> event_key l"
    "b_close c = q_price l" "b_last_ts c = event_ts l" "b_last_id c = q_event_id l"
    by (rule summarises_last [OF s])
  with False show ?thesis
    by (intro bexI [of _ l]) (auto simp: with_quote_fields [OF w] not_less)
qed

lemma summarises_nonempty: "summarises c es \<Longrightarrow> es \<noteq> []"
  by (auto simp: summarises_def)

lemma with_quote_summarises:
  assumes s: "summarises c es" and w: "with_quote c e = Inr c'"
  shows "summarises c' (es @ [e])"
proof -
  have ne: "set es \<noteq> {}" using summarises_nonempty [OF s] by simp
  have "\<forall>x \<in> set (es @ [e]). in_bucket (b_symbol c') (b_open_time c') x"
    using s with_quote_Inr [OF w] by (auto simp: summarises_def with_quote_fields [OF w])
  moreover have "b_activity c' = int (length (es @ [e]))"
    using s by (simp add: summarises_def with_quote_fields [OF w])
  moreover have "b_high c' = Max (q_price ` set (es @ [e]))"
    using s ne by (simp add: summarises_def with_quote_fields [OF w] max.commute)
  moreover have "b_low c' = Min (q_price ` set (es @ [e]))"
    using s ne by (simp add: summarises_def with_quote_fields [OF w] min.commute)
  ultimately show ?thesis
    unfolding summarises_def using with_quote_first [OF s w] with_quote_last [OF s w] by simp
qed

lemma apply_quotes_summarises:
  assumes "summarises c es" "\<forall>e \<in> set fs. in_bucket (b_symbol c) (b_open_time c) e"
  shows "\<exists>c'. apply_quotes c fs = Inr c' \<and> summarises c' (es @ fs) \<and>
    b_symbol c' = b_symbol c \<and> b_open_time c' = b_open_time c"
  using assms
proof (induction fs arbitrary: c es)
  case (Cons e fs)
  have "in_bucket (b_symbol c) (b_open_time c) e" using Cons.prems(2) by simp
  then obtain c1 where c1: "with_quote c e = Inr c1" by (blast dest: with_quote_defined)
  have "summarises c1 (es @ [e])" using Cons.prems(1) c1 by (rule with_quote_summarises)
  from Cons.IH [OF this] Cons.prems(2) show ?case
    by (simp add: c1 with_quote_fields [OF c1])
qed simp

lemma candle_of_quotes_summarises:
  assumes "es \<noteq> []" "\<forall>e \<in> set es. in_bucket s t e"
  shows "\<exists>c. candle_of_quotes es = Inr (Some c) \<and> summarises c es \<and> b_symbol c = s \<and> b_open_time c = t"
proof -
  from assms(1) obtain e fs where es: "es = e # fs" by (cases es) auto
  have st: "b_symbol (from_quote e) = s" "b_open_time (from_quote e) = t"
    using assms(2) es by (auto simp: from_quote_def in_bucket_def)
  have "\<forall>x \<in> set fs. in_bucket (b_symbol (from_quote e)) (b_open_time (from_quote e)) x"
    using assms(2) es by (simp add: st)
  from apply_quotes_summarises [OF from_quote_summarises this] st es show ?thesis by auto
qed

text \<open>With distinct event identifiers the summary determines the candle.\<close>

lemma event_key_inj: "event_key e = event_key f \<Longrightarrow> q_event_id e = q_event_id f"
  by (simp add: event_key_def)

lemma summarises_unique:
  assumes c: "summarises c es" and d: "summarises d fs"
    and st: "set es = set fs" "length es = length fs" and inj: "inj_on q_event_id (set es)"
    and b: "b_symbol c = b_symbol d" "b_open_time c = b_open_time d"
  shows "c = d"
proof -
  obtain f where f: "f \<in> set es" "\<forall>e \<in> set es. event_key f \<le> event_key e"
    "b_open c = q_price f" "b_first_ts c = event_ts f" "b_first_id c = q_event_id f"
    by (rule summarises_first [OF c])
  obtain f' where f': "f' \<in> set fs" "\<forall>e \<in> set fs. event_key f' \<le> event_key e"
    "b_open d = q_price f'" "b_first_ts d = event_ts f'" "b_first_id d = q_event_id f'"
    by (rule summarises_first [OF d])
  obtain l where l: "l \<in> set es" "\<forall>e \<in> set es. event_key e \<le> event_key l"
    "b_close c = q_price l" "b_last_ts c = event_ts l" "b_last_id c = q_event_id l"
    by (rule summarises_last [OF c])
  obtain l' where l': "l' \<in> set fs" "\<forall>e \<in> set fs. event_key e \<le> event_key l'"
    "b_close d = q_price l'" "b_last_ts d = event_ts l'" "b_last_id d = q_event_id l'"
    by (rule summarises_last [OF d])
  have "event_key f = event_key f'" "event_key l = event_key l'"
    using f f' l l' st(1) by (auto intro: antisym)
  then have "f = f'" "l = l'"
    using inj f(1) f'(1) l(1) l'(1) st(1) by (metis event_key_inj inj_onD)+
  with f f' l l' b st c d show ?thesis
    by (intro base_candle.equality) (auto simp: summarises_def)
qed

lemma candle_of_quotes_perm:
  assumes "mset es = mset fs" "\<forall>e \<in> set es. in_bucket s t e" "distinct (map q_event_id es)"
  shows "candle_of_quotes es = candle_of_quotes fs"
proof (cases "es = []")
  case False
  from assms(1) have st: "set es = set fs" and len: "length es = length fs"
    by (auto dest: mset_eq_setD mset_eq_length)
  from candle_of_quotes_summarises [OF False assms(2)] obtain c where
    c: "candle_of_quotes es = Inr (Some c)" "summarises c es" "b_symbol c = s" "b_open_time c = t" by auto
  from False len have "fs \<noteq> []" by auto
  from candle_of_quotes_summarises [OF this, of s t] assms(2) st obtain d where
    d: "candle_of_quotes fs = Inr (Some d)" "summarises d fs" "b_symbol d = s" "b_open_time d = t" by auto
  have "inj_on q_event_id (set es)" using assms(3) by (simp add: distinct_map)
  then have "c = d" using summarises_unique [OF c(2) d(2) st len] c d by simp
  with c d show ?thesis by simp
qed (use assms(1) in simp)

section \<open>Series of closed candles\<close>

record candle =
  c_symbol :: string
  c_timeframe :: timeframe
  c_open_time :: instant
  c_close_time :: instant
  c_open :: rat
  c_high :: rat
  c_low :: rat
  c_close :: rat
  c_activity :: int
  c_first_observation :: instant
  c_last_observation :: instant
  c_closed :: bool

record candle_series =
  s_symbol :: string
  s_timeframe :: timeframe
  s_requested_limit :: int
  s_returned_count :: int
  s_retention_seconds :: int
  s_period_start :: instant
  s_period_end :: instant
  s_data :: "candle list"
  s_warnings :: "string list"

definition default_warnings :: "string list" where
  "default_warnings =
     [''Candles are aggregated from observed quote prices; trade volume is unavailable.'',
      ''Intervals with no accepted quote observations are omitted.'',
      ''Only fully closed intervals at or before period_end are returned.'']"

text \<open>The field constraints of \<open>Candle\<close> and \<open>CandleSeries\<close>.\<close>

definition make_candle :: "candle \<Rightarrow> candle result" where
  "make_candle c =
     (let errs = field_errors
        [(symbol_ok (c_symbol c), ''symbol''), (0 < c_open c, ''open''), (0 < c_high c, ''high''),
         (0 < c_low c, ''low''), (0 < c_close c, ''close''), (1 \<le> c_activity c, ''activity_count'')]
      in if errs \<noteq> [] then Inl (FieldErrors errs) else Inr c)"

definition make_series :: "candle_series \<Rightarrow> candle_series result" where
  "make_series s =
     (let errs = field_errors
        [(symbol_ok (s_symbol s), ''symbol''),
         (1 \<le> s_requested_limit s \<and> s_requested_limit s \<le> 1000, ''requested_limit''),
         (0 \<le> s_returned_count s, ''returned_count''), (0 < s_retention_seconds s, ''retention_seconds'')]
      in if errs \<noteq> [] then Inl (FieldErrors errs) else Inr s)"

definition bucket_of :: "int \<Rightarrow> base_candle \<Rightarrow> instant" where
  "bucket_of interval c = floor_utc (b_open_time c) interval"

definition in_window :: "int \<Rightarrow> instant \<Rightarrow> instant \<Rightarrow> instant \<Rightarrow> bool" where
  "in_window interval start effective_end bucket \<longleftrightarrow>
     \<not> (bucket < start \<or> effective_end < bucket + interval * us_per_second)"

fun group_candles ::
  "int \<Rightarrow> instant \<Rightarrow> instant \<Rightarrow> (instant, base_candle list) dict \<Rightarrow> base_candle list \<Rightarrow>
   (instant, base_candle list) dict" where
  "group_candles interval start effective_end grouped [] = grouped"
| "group_candles interval start effective_end grouped (c # cs) =
     (let bucket = bucket_of interval c in
      if \<not> in_window interval start effective_end bucket
      then group_candles interval start effective_end grouped cs
      else group_candles interval start effective_end
             (dict_set bucket (dict_get_default grouped bucket [] @ [c]) grouped) cs)"

definition last_observation :: "base_candle list \<Rightarrow> instant" where
  "last_observation obs = Max (b_last_ts ` set obs)"

definition rollup :: "string \<Rightarrow> timeframe \<Rightarrow> instant \<Rightarrow> base_candle list \<Rightarrow> candle" where
  "rollup symbol tf bucket obs =
     \<lparr>c_symbol = symbol, c_timeframe = tf, c_open_time = bucket,
      c_close_time = bucket + timeframe_seconds tf * us_per_second,
      c_open = b_open (hd obs), c_high = Max (b_high ` set obs), c_low = Min (b_low ` set obs),
      c_close = b_close (last obs), c_activity = sum_list (map b_activity obs),
      c_first_observation = Min (b_first_ts ` set obs), c_last_observation = last_observation obs,
      c_closed = True\<rparr>"

text \<open>\<open>data[-limit:]\<close>.\<close>

definition last_n :: "int \<Rightarrow> 'a list \<Rightarrow> 'a list" where
  "last_n limit xs = drop (length xs - nat limit) xs"

definition aggregate_base_candles ::
  "string \<Rightarrow> timeframe \<Rightarrow> int \<Rightarrow> datetime \<Rightarrow> int \<Rightarrow> base_candle list \<Rightarrow> candle_series result" where
  "aggregate_base_candles symbol tf limit end_at retention base_candles =
     bindE (history_window tf limit end_at) (\<lambda>(start, effective_end).
       let interval = timeframe_seconds tf;
           grouped = group_candles interval start effective_end [] (sort_key b_open_time base_candles);
           observations = (\<lambda>bucket. dict_get_default grouped bucket []);
           buckets = filter (\<lambda>bucket. \<not> effective_end < last_observation (observations bucket))
                       (sort (dict_keys grouped))
       in bindE (mapE (\<lambda>bucket. make_candle (rollup symbol tf bucket (observations bucket))) buckets)
            (\<lambda>data. let result = last_n limit data in
               make_series \<lparr>s_symbol = symbol, s_timeframe = tf, s_requested_limit = limit,
                 s_returned_count = int (length result), s_retention_seconds = retention,
                 s_period_start = start, s_period_end = effective_end, s_data = result,
                 s_warnings = default_warnings\<rparr>))"

subsection \<open>Grouping\<close>

definition window_obs :: "int \<Rightarrow> instant \<Rightarrow> instant \<Rightarrow> base_candle list \<Rightarrow> instant \<Rightarrow> base_candle list" where
  "window_obs interval start effective_end cs bucket =
     filter (\<lambda>c. in_window interval start effective_end (bucket_of interval c) \<and> bucket_of interval c = bucket)
       (sort_key b_open_time cs)"

definition window_buckets :: "int \<Rightarrow> instant \<Rightarrow> instant \<Rightarrow> base_candle list \<Rightarrow> instant set" where
  "window_buckets interval start effective_end cs =
     {b \<in> bucket_of interval ` set cs. in_window interval start effective_end b}"

lemma dict_get_default_Nil [simp]: "dict_get_default [] k x = x"
  by (simp add: dict_get_default_def)

lemma dict_get_default_set:
  "dict_get_default (dict_set k v d) k' x = (if k' = k then v else dict_get_default d k' x)"
  by (simp add: dict_get_default_def dict_simps)

lemma group_candles_get:
  "dict_get_default (group_candles i s e g cs) b [] =
     dict_get_default g b [] @ filter (\<lambda>c. in_window i s e (bucket_of i c) \<and> bucket_of i c = b) cs"
  by (induction i s e g cs rule: group_candles.induct)
    (auto simp: Let_def dict_get_default_set)

lemma group_candles_keys:
  "set (dict_keys (group_candles i s e g cs)) =
     set (dict_keys g) \<union> {b \<in> bucket_of i ` set cs. in_window i s e b}"
  by (induction i s e g cs rule: group_candles.induct) (auto simp: Let_def dict_keys_set)

lemma group_candles_ok: "dict_ok g \<Longrightarrow> dict_ok (group_candles i s e g cs)"
  by (induction i s e g cs rule: group_candles.induct) (auto simp: Let_def)

lemma group_candles_obs:
  "dict_get_default (group_candles i s e [] (sort_key b_open_time cs)) b [] = window_obs i s e cs b"
  by (simp add: group_candles_get window_obs_def)

lemma finite_window_buckets [simp]: "finite (window_buckets i s e cs)"
  by (simp add: window_buckets_def)

lemma group_candles_buckets:
  "sort (dict_keys (group_candles i s e [] (sort_key b_open_time cs))) =
     sorted_list_of_set (window_buckets i s e cs)"
proof -
  let ?g = "group_candles i s e [] (sort_key b_open_time cs)"
  have "distinct (dict_keys ?g)"
    using group_candles_ok [of "[]"] by (simp add: dict_ok_def dict_keys_def)
  moreover have "set (dict_keys ?g) = window_buckets i s e cs"
    by (simp add: group_candles_keys window_buckets_def) (simp add: dict_keys_def)
  ultimately show ?thesis
    by (metis sorted_list_of_set_sort_remdups distinct_remdups_id)
qed

lemma set_window_obs:
  "set (window_obs i s e cs b) = {c \<in> set cs. in_window i s e (bucket_of i c) \<and> bucket_of i c = b}"
  by (simp add: window_obs_def)

lemma sorted_window_obs: "sorted (map b_open_time (window_obs i s e cs b))"
  unfolding window_obs_def by (rule sorted_filter) simp

lemma window_obs_nonempty: "b \<in> window_buckets i s e cs \<Longrightarrow> window_obs i s e cs b \<noteq> []"
proof -
  assume "b \<in> window_buckets i s e cs"
  then have "set (window_obs i s e cs b) \<noteq> {}"
    by (auto simp: set_window_obs window_buckets_def)
  then show ?thesis by auto
qed

subsection \<open>The series in closed form\<close>

definition series_buckets :: "int \<Rightarrow> instant \<Rightarrow> instant \<Rightarrow> base_candle list \<Rightarrow> instant list" where
  "series_buckets interval start effective_end cs =
     filter (\<lambda>b. \<not> effective_end < last_observation (window_obs interval start effective_end cs b))
       (sorted_list_of_set (window_buckets interval start effective_end cs))"

lemma aggregate_closed_form:
  "aggregate_base_candles symbol tf limit end_at retention cs =
     bindE (history_window tf limit end_at) (\<lambda>(start, effective_end).
       bindE (mapE (\<lambda>b. make_candle (rollup symbol tf b (window_obs (timeframe_seconds tf) start effective_end cs b)))
                (series_buckets (timeframe_seconds tf) start effective_end cs))
         (\<lambda>data. make_series \<lparr>s_symbol = symbol, s_timeframe = tf, s_requested_limit = limit,
            s_returned_count = int (length (last_n limit data)), s_retention_seconds = retention,
            s_period_start = start, s_period_end = effective_end, s_data = last_n limit data,
            s_warnings = default_warnings\<rparr>))"
  by (simp add: aggregate_base_candles_def Let_def group_candles_obs group_candles_buckets series_buckets_def)

lemma make_candle_Inr: "make_candle c = Inr c' \<Longrightarrow> c' = c"
  by (auto simp: make_candle_def Let_def split: if_splits)

lemma make_series_Inr: "make_series s = Inr s' \<Longrightarrow> s' = s"
  by (auto simp: make_series_def Let_def split: if_splits)

lemma mapE_make_candle: "mapE (\<lambda>b. make_candle (f b)) bs = Inr data \<Longrightarrow> data = map f bs"
proof -
  assume "mapE (\<lambda>b. make_candle (f b)) bs = Inr data"
  then have "list_all2 (\<lambda>b c. c = f b) bs data"
    by (auto simp: mapE_Inr_iff elim!: list_all2_mono dest: make_candle_Inr)
  then show ?thesis by (induction rule: list_all2_induct) auto
qed

lemma aggregate_Inr:
  assumes "aggregate_base_candles symbol tf limit end_at retention cs = Inr s"
  obtains start effective_end where
    "history_window tf limit end_at = Inr (start, effective_end)"
    "s_data s = last_n limit (map (\<lambda>b. rollup symbol tf b (window_obs (timeframe_seconds tf) start effective_end cs b))
       (series_buckets (timeframe_seconds tf) start effective_end cs))"
    "s_period_start s = start" "s_period_end s = effective_end" "s_returned_count s = int (length (s_data s))"
    "s_requested_limit s = limit"
  using assms
  by (fastforce simp: aggregate_closed_form bindE_eq_Inr dest!: mapE_make_candle make_series_Inr)

subsection \<open>The window holds exactly \<open>limit\<close> buckets\<close>

lemma history_window_Inr:
  assumes "history_window tf limit end_at = Inr (start, effective_end)"
  shows "effective_end = dt_us end_at" "1 \<le> limit"
    "start = floor_utc effective_end (timeframe_seconds tf) - limit * (timeframe_seconds tf * us_per_second)"
  using assms by (auto simp: history_window_def Let_def algebra_simps split: if_splits)

lemma history_window_dvd:
  assumes "history_window tf limit end_at = Inr (start, effective_end)"
  shows "timeframe_seconds tf * us_per_second dvd start"
  using history_window_Inr [OF assms] floor_utc_dvd by simp

lemma window_bucket_index:
  assumes w: "history_window tf limit end_at = Inr (start, effective_end)"
    and d: "timeframe_seconds tf * us_per_second dvd b"
    and iw: "in_window (timeframe_seconds tf) start effective_end b"
  shows "\<exists>k. 0 \<le> k \<and> k < limit \<and> b = start + k * (timeframe_seconds tf * us_per_second)"
proof -
  let ?I = "timeframe_seconds tf * us_per_second"
  have pos: "0 < ?I" by simp
  from d history_window_dvd [OF w] obtain k where k: "b - start = ?I * k"
    by (metis dvd_diff dvdE)
  have "start \<le> b" "b + ?I \<le> effective_end" using iw by (auto simp: in_window_def)
  then have "0 \<le> ?I * k" using k by linarith
  then have "0 \<le> k" using pos by (simp add: zero_le_mult_iff)
  have "effective_end < floor_utc effective_end (timeframe_seconds tf) + ?I"
    by (rule floor_utc_upper) simp
  then have "?I * k < limit * ?I"
    using k \<open>b + ?I \<le> effective_end\<close> history_window_Inr(3) [OF w] by linarith
  then have "?I * k < ?I * limit" by (simp only: mult.commute)
  then have "k < limit" using pos by (simp add: mult_less_cancel_left_pos)
  with \<open>0 \<le> k\<close> k show ?thesis by (intro exI [of _ k]) (simp add: algebra_simps)
qed

lemma bucket_of_dvd: "i * us_per_second dvd bucket_of i c"
  by (simp add: bucket_of_def floor_utc_dvd)

lemma card_window_buckets:
  assumes w: "history_window tf limit end_at = Inr (start, effective_end)"
  shows "card (window_buckets (timeframe_seconds tf) start effective_end cs) \<le> nat limit"
proof -
  let ?I = "timeframe_seconds tf * us_per_second"
  have "window_buckets (timeframe_seconds tf) start effective_end cs \<subseteq> (\<lambda>k. start + k * ?I) ` {0..<limit}"
    using window_bucket_index [OF w] bucket_of_dvd by (fastforce simp: window_buckets_def)
  then have "card (window_buckets (timeframe_seconds tf) start effective_end cs) \<le>
      card ((\<lambda>k. start + k * ?I) ` {0..<limit})"
    by (intro card_mono) auto
  also have "\<dots> \<le> card {0..<limit}" by (rule card_image_le) simp
  finally show ?thesis by simp
qed

lemma length_series_buckets:
  assumes "history_window tf limit end_at = Inr (start, effective_end)"
  shows "length (series_buckets (timeframe_seconds tf) start effective_end cs) \<le> nat limit"
proof -
  have "length (series_buckets (timeframe_seconds tf) start effective_end cs) \<le>
      card (window_buckets (timeframe_seconds tf) start effective_end cs)"
    by (simp add: series_buckets_def) (metis length_filter_le length_sorted_list_of_set)
  with card_window_buckets [OF assms] show ?thesis by (meson le_trans)
qed

lemma aggregate_data:
  assumes "aggregate_base_candles symbol tf limit end_at retention cs = Inr s"
  shows "history_window tf limit end_at = Inr (s_period_start s, s_period_end s)"
    "s_data s = map (\<lambda>b. rollup symbol tf b (window_obs (timeframe_seconds tf) (s_period_start s) (s_period_end s) cs b))
       (series_buckets (timeframe_seconds tf) (s_period_start s) (s_period_end s) cs)"
    "length (s_data s) \<le> nat limit" "s_returned_count s = int (length (s_data s))"
proof -
  obtain start effective_end where w: "history_window tf limit end_at = Inr (start, effective_end)"
    and data: "s_data s = last_n limit (map (\<lambda>b. rollup symbol tf b
        (window_obs (timeframe_seconds tf) start effective_end cs b))
        (series_buckets (timeframe_seconds tf) start effective_end cs))"
    and se: "s_period_start s = start" "s_period_end s = effective_end"
    and n: "s_returned_count s = int (length (s_data s))"
    by (rule aggregate_Inr [OF assms])
  note len = length_series_buckets [OF w, of cs]
  then have full: "s_data s = map (\<lambda>b. rollup symbol tf b
      (window_obs (timeframe_seconds tf) start effective_end cs b))
      (series_buckets (timeframe_seconds tf) start effective_end cs)"
    by (simp add: data last_n_def)
  show "history_window tf limit end_at = Inr (s_period_start s, s_period_end s)" using w se by simp
  show "s_data s = map (\<lambda>b. rollup symbol tf b
      (window_obs (timeframe_seconds tf) (s_period_start s) (s_period_end s) cs b))
      (series_buckets (timeframe_seconds tf) (s_period_start s) (s_period_end s) cs)"
    using full se by simp
  show "length (s_data s) \<le> nat limit" using len full by simp
  show "s_returned_count s = int (length (s_data s))" by (rule n)
qed

subsection \<open>Minute candles inside their bucket\<close>

abbreviation minute_us :: int where
  "minute_us \<equiv> 60 * us_per_second"

definition minute_ok :: "base_candle \<Rightarrow> bool" where
  "minute_ok c \<longleftrightarrow> minute_us dvd b_open_time c \<and> b_last_ts c < b_open_time c + minute_us"

lemma summarises_minute_ok: "summarises c es \<Longrightarrow> minute_ok c"
proof -
  assume s: "summarises c es"
  obtain l where l: "l \<in> set es" "b_last_ts c = event_ts l"
    by (rule summarises_last [OF s])
  have "b_open_time c = floor_utc (event_ts l) 60"
    using s l(1) by (simp add: summarises_def in_bucket_def)
  with l(2) show ?thesis
    using floor_utc_dvd [of 60 "event_ts l"] floor_utc_upper [of 60 "event_ts l"]
    by (simp add: minute_ok_def)
qed

lemma dvd_gap: "(d::int) dvd a \<Longrightarrow> d dvd b \<Longrightarrow> a < b \<Longrightarrow> a + d \<le> b"
proof -
  assume "d dvd a" "d dvd b" "a < b"
  then have "d dvd b - a" "0 < b - a" by auto
  then have "d \<le> b - a" by (rule zdvd_imp_le)
  then show ?thesis by simp
qed

lemma minute_in_bucket:
  assumes "minute_us dvd b_open_time c"
  shows "bucket_of (timeframe_seconds tf) c \<le> b_open_time c"
    "b_open_time c + minute_us \<le> bucket_of (timeframe_seconds tf) c + timeframe_seconds tf * us_per_second"
proof -
  let ?b = "bucket_of (timeframe_seconds tf) c" and ?I = "timeframe_seconds tf * us_per_second"
  have "us_per_second dvd b_open_time c" using assms by (meson dvd_trans dvd_triv_right)
  then have bounds: "?b \<le> b_open_time c \<and> b_open_time c < ?b + ?I"
    unfolding bucket_of_def by (rule floor_utc_whole_bounds) simp
  have "minute_us dvd ?I" using timeframe_minutes [of tf] by (simp only: mult_dvd_mono dvd_refl)
  then have "minute_us dvd ?b + ?I"
    using bucket_of_dvd [of "timeframe_seconds tf" c] by (meson dvd_add dvd_trans)
  from dvd_gap [OF assms this] bounds show "?b \<le> b_open_time c" "b_open_time c + minute_us \<le> ?b + ?I"
    by auto
qed

lemma series_buckets_all:
  assumes ok: "\<forall>c \<in> set cs. minute_ok c"
  shows "series_buckets (timeframe_seconds tf) start effective_end cs =
    sorted_list_of_set (window_buckets (timeframe_seconds tf) start effective_end cs)"
  unfolding series_buckets_def
proof (rule filter_True, rule ballI)
  let ?obs = "window_obs (timeframe_seconds tf) start effective_end cs"
  fix b assume "b \<in> set (sorted_list_of_set (window_buckets (timeframe_seconds tf) start effective_end cs))"
  then have ne: "set (?obs b) \<noteq> {}" by (simp add: window_obs_nonempty)
  have "b_last_ts c \<le> effective_end" if "c \<in> set (?obs b)" for c
  proof -
    from that ok have "minute_ok c" "in_window (timeframe_seconds tf) start effective_end (bucket_of (timeframe_seconds tf) c)"
      by (auto simp: set_window_obs)
    with minute_in_bucket(2) [of c tf] show ?thesis by (simp add: minute_ok_def in_window_def)
  qed
  with ne show "\<not> effective_end < last_observation (?obs b)"
    by (simp add: last_observation_def not_less)
qed

subsection \<open>From quotes to series\<close>

text \<open>
  The candle store represents the accepted quotes of a symbol: one candle per minute that has a
  quote, each the summary of that minute's quotes.
\<close>

definition represents :: "base_candle list \<Rightarrow> quote_event list \<Rightarrow> bool" where
  "represents cs qs \<longleftrightarrow>
     distinct (map b_open_time cs) \<and>
     (\<forall>c \<in> set cs. summarises c (filter (\<lambda>e. floor_utc (event_ts e) 60 = b_open_time c) qs)) \<and>
     (\<forall>e \<in> set qs. floor_utc (event_ts e) 60 \<in> b_open_time ` set cs)"

text \<open>What a returned candle says of the quotes of its interval.\<close>

definition series_summarises :: "candle \<Rightarrow> quote_event list \<Rightarrow> bool" where
  "series_summarises k es \<longleftrightarrow>
     es \<noteq> [] \<and> c_activity k = int (length es) \<and>
     c_high k = Max (q_price ` set es) \<and> c_low k = Min (q_price ` set es) \<and>
     (\<exists>f \<in> set es. (\<forall>e \<in> set es. event_key f \<le> event_key e) \<and> c_open k = q_price f \<and>
        c_first_observation k = event_ts f) \<and>
     (\<exists>l \<in> set es. (\<forall>e \<in> set es. event_key e \<le> event_key l) \<and> c_close k = q_price l \<and>
        c_last_observation k = event_ts l)"

lemma trunc_seconds_mono: "s \<le> t \<Longrightarrow> trunc_seconds s \<le> trunc_seconds t"
proof -
  assume st: "s \<le> t"
  consider "0 \<le> s" | "s < 0" "0 \<le> t" | "t < 0" by linarith
  then show ?thesis
  proof cases
    case 1
    with st show ?thesis by (simp add: trunc_seconds_def zdiv_mono1)
  next
    case 2
    then have "0 \<le> (- s) div us_per_second" "0 \<le> t div us_per_second"
      by (simp_all add: pos_imp_zdiv_nonneg_iff)
    with 2 show ?thesis by (simp add: trunc_seconds_def)
  next
    case 3
    with st show ?thesis by (simp add: trunc_seconds_def zdiv_mono1)
  qed
qed

lemma floor_utc_mono: "0 < i \<Longrightarrow> s \<le> t \<Longrightarrow> floor_utc s i \<le> floor_utc t i"
  using zdiv_mono1 [OF trunc_seconds_mono, of s t i]
  by (simp add: floor_utc_def Let_def minus_mod_eq_mult_div mult_left_mono)

lemma event_key_minute_less:
  assumes "floor_utc (event_ts e) 60 < floor_utc (event_ts f) 60"
  shows "event_key e < event_key f"
proof -
  have "event_ts e < event_ts f"
    using assms floor_utc_mono [of 60 "event_ts f" "event_ts e"] by (cases "event_ts f \<le> event_ts e") auto
  then show ?thesis by (simp add: event_key_less_iff)
qed

lemma floor_utc_coarser:
  assumes "60 dvd i" "0 < i"
  shows "floor_utc (floor_utc t 60) i = floor_utc t i"
proof -
  let ?e = "trunc_seconds t"
  from assms obtain k where k: "i = 60 * k" and "0 \<le> k" by (auto simp: dvd_def)
  have "(?e - ?e mod 60) mod i = ?e mod i - ?e mod 60"
  proof -
    have "(?e - ?e mod 60) mod (60 * k) = 60 * (?e div 60 mod k)"
      by (simp only: minus_mod_eq_mult_div mod_mult_mult1)
    moreover have "?e mod (60 * k) = 60 * (?e div 60 mod k) + ?e mod 60"
      using \<open>0 \<le> k\<close> by (rule zmod_zmult2_eq)
    ultimately show ?thesis by (simp add: k)
  qed
  then show ?thesis
    unfolding floor_utc_def [of t 60] Let_def floor_utc_whole by (simp add: floor_utc_def Let_def)
qed

lemma sum_partition:
  "distinct ts \<Longrightarrow> (\<Sum>t\<leftarrow>ts. int (length (filter (\<lambda>x. f x = t) xs))) = int (length (filter (\<lambda>x. f x \<in> set ts) xs))"
proof (induction ts)
  case (Cons t ts)
  have "length (filter (\<lambda>x. f x = t \<or> f x \<in> set ts) xs) =
      length (filter (\<lambda>x. f x = t) xs) + length (filter (\<lambda>x. f x \<in> set ts) xs)"
    using Cons.prems by (induction xs) auto
  with Cons show ?case by simp
qed simp

text \<open>The quotes behind one bucket: the union over the bucket's minutes.\<close>

definition minute_quotes :: "quote_event list \<Rightarrow> base_candle \<Rightarrow> quote_event list" where
  "minute_quotes qs c = filter (\<lambda>e. floor_utc (event_ts e) 60 = b_open_time c) qs"

definition bucket_quotes :: "quote_event list \<Rightarrow> int \<Rightarrow> instant \<Rightarrow> quote_event list" where
  "bucket_quotes qs interval b = filter (\<lambda>e. floor_utc (event_ts e) interval = b) qs"

lemma represents_summarises:
  "represents cs qs \<Longrightarrow> c \<in> set cs \<Longrightarrow> summarises c (minute_quotes qs c)"
  by (simp add: represents_def minute_quotes_def)

lemma bucket_quote_minute:
  assumes r: "represents cs qs" and w: "in_window (timeframe_seconds tf) start effective_end b"
  shows "e \<in> set (bucket_quotes qs (timeframe_seconds tf) b) \<longleftrightarrow>
    (\<exists>c \<in> set (window_obs (timeframe_seconds tf) start effective_end cs b). e \<in> set (minute_quotes qs c))"
    (is "?l \<longleftrightarrow> ?r")
proof
  have coarse: "floor_utc (floor_utc t 60) (timeframe_seconds tf) = floor_utc t (timeframe_seconds tf)" for t
    by (rule floor_utc_coarser [OF timeframe_minutes timeframe_seconds_pos])
  {
    assume ?l
    then have e: "e \<in> set qs" "floor_utc (event_ts e) (timeframe_seconds tf) = b"
      by (auto simp: bucket_quotes_def)
    with r obtain c where c: "c \<in> set cs" "floor_utc (event_ts e) 60 = b_open_time c"
      by (auto simp: represents_def)
    then have "bucket_of (timeframe_seconds tf) c = b"
      using e(2) coarse [of "event_ts e"] by (simp add: bucket_of_def)
    with c e w show ?r by (auto simp: set_window_obs minute_quotes_def)
  next
    assume ?r
    then show ?l using coarse [of "event_ts e"]
      by (auto simp: set_window_obs minute_quotes_def bucket_quotes_def bucket_of_def)
  }
qed

lemma Max_UN_eq:
  assumes "finite A" "A \<noteq> {}" "\<And>c. c \<in> A \<Longrightarrow> finite (E c) \<and> E c \<noteq> {} \<and> h c = Max (p ` E c)"
  shows "Max (h ` A) = Max (p ` (\<Union>c\<in>A. E c))"
proof (rule Max_eqI)
  show "finite (h ` A)" using assms by simp
  have fin: "finite (p ` (\<Union>c\<in>A. E c))" using assms by auto
  show "y \<le> Max (p ` (\<Union>c\<in>A. E c))" if "y \<in> h ` A" for y
  proof -
    from that obtain c where c: "c \<in> A" "y = h c" by auto
    then have "y \<in> p ` E c" using assms(3) [OF c(1)] by (metis Max_in finite_imageI image_is_empty)
    then have "y \<in> p ` (\<Union>c\<in>A. E c)" using c by auto
    then show ?thesis by (rule Max_ge [OF fin])
  qed
  have "Max (p ` (\<Union>c\<in>A. E c)) \<in> p ` (\<Union>c\<in>A. E c)"
    using assms by (intro Max_in fin) auto
  then obtain c where c: "c \<in> A" "Max (p ` (\<Union>c\<in>A. E c)) \<in> p ` E c" by auto
  have "Max (p ` (\<Union>c\<in>A. E c)) \<le> h c"
    using assms(3) [OF c(1)] c(2) by (metis Max_ge finite_imageI)
  moreover have "h c \<le> Max (p ` (\<Union>c\<in>A. E c))"
    using assms(3) [OF c(1)] c(1) fin by (metis Max_mono UN_upper image_is_empty image_mono)
  ultimately show "Max (p ` (\<Union>c\<in>A. E c)) \<in> h ` A" using c(1) by (metis antisym imageI)
qed

lemma Min_via_Max:
  fixes f :: "'b \<Rightarrow> 'c::linordered_ab_group_add"
  assumes "finite B" "B \<noteq> {}"
  shows "Min (f ` B) = - Max ((\<lambda>x. - f x) ` B)"
proof -
  have "- Max ((\<lambda>x. - f x) ` B) = Min (uminus ` (\<lambda>x. - f x) ` B)"
    using assms by (intro minus_Max_eq_Min) auto
  then show ?thesis by (simp add: image_image)
qed

lemma Min_UN_eq:
  fixes p :: "'b \<Rightarrow> 'c::linordered_ab_group_add"
  assumes A: "finite A" "A \<noteq> {}" "\<And>c. c \<in> A \<Longrightarrow> finite (E c) \<and> E c \<noteq> {} \<and> h c = Min (p ` E c)"
  shows "Min (h ` A) = Min (p ` (\<Union>c\<in>A. E c))"
proof -
  have E: "finite (E c) \<and> E c \<noteq> {} \<and> - h c = Max ((\<lambda>x. - p x) ` E c)" if "c \<in> A" for c
    using A(3) [OF that] by (metis Min_via_Max minus_minus)
  have "Max ((\<lambda>c. - h c) ` A) = Max ((\<lambda>x. - p x) ` (\<Union>c\<in>A. E c))"
    using A(1,2) E by (rule Max_UN_eq)
  moreover have "Min (h ` A) = - Max ((\<lambda>c. - h c) ` A)" using A(1,2) by (rule Min_via_Max)
  moreover have "Min (p ` (\<Union>c\<in>A. E c)) = - Max ((\<lambda>x. - p x) ` (\<Union>c\<in>A. E c))"
    using A by (intro Min_via_Max) auto
  ultimately show ?thesis by simp
qed

text \<open>The rolled-up candle of a bucket summarises the bucket's quotes.\<close>

lemma window_obs_represented:
  assumes r: "represents cs qs" and "c \<in> set (window_obs i start effective_end cs b)"
  shows "c \<in> set cs" "summarises c (minute_quotes qs c)" "minute_quotes qs c \<noteq> []"
  using assms represents_summarises [OF r] summarises_nonempty by (auto simp: set_window_obs)

lemma set_bucket_quotes:
  assumes "represents cs qs" "b \<in> window_buckets (timeframe_seconds tf) start effective_end cs"
  shows "set (bucket_quotes qs (timeframe_seconds tf) b) =
    (\<Union>c \<in> set (window_obs (timeframe_seconds tf) start effective_end cs b). set (minute_quotes qs c))"
  using bucket_quote_minute [OF assms(1)] assms(2) by (auto simp: window_buckets_def)

lemma rollup_extremes:
  assumes r: "represents cs qs" and b: "b \<in> window_buckets (timeframe_seconds tf) start effective_end cs"
  shows "c_high (rollup symbol tf b (window_obs (timeframe_seconds tf) start effective_end cs b)) =
      Max (q_price ` set (bucket_quotes qs (timeframe_seconds tf) b))"
    "c_low (rollup symbol tf b (window_obs (timeframe_seconds tf) start effective_end cs b)) =
      Min (q_price ` set (bucket_quotes qs (timeframe_seconds tf) b))"
proof -
  let ?obs = "window_obs (timeframe_seconds tf) start effective_end cs b"
  have ne: "set ?obs \<noteq> {}" using window_obs_nonempty [OF b] by simp
  have hl: "finite (set (minute_quotes qs c)) \<and> set (minute_quotes qs c) \<noteq> {} \<and>
      b_high c = Max (q_price ` set (minute_quotes qs c))"
    "finite (set (minute_quotes qs c)) \<and> set (minute_quotes qs c) \<noteq> {} \<and>
      b_low c = Min (q_price ` set (minute_quotes qs c))" if "c \<in> set ?obs" for c
    using window_obs_represented [OF r that] by (auto simp: summarises_def)
  show "c_high (rollup symbol tf b ?obs) = Max (q_price ` set (bucket_quotes qs (timeframe_seconds tf) b))"
    unfolding set_bucket_quotes [OF r b] using ne hl(1) by (simp add: rollup_def Max_UN_eq)
  show "c_low (rollup symbol tf b ?obs) = Min (q_price ` set (bucket_quotes qs (timeframe_seconds tf) b))"
    unfolding set_bucket_quotes [OF r b] using ne hl(2) by (simp add: rollup_def Min_UN_eq)
qed

lemma distinct_window_obs:
  "represents cs qs \<Longrightarrow> distinct (map b_open_time (window_obs i start effective_end cs b))"
  unfolding window_obs_def represents_def
  by (rule distinct_map_filter) (metis distinct_map distinct_sort set_sort)

lemma rollup_activity:
  assumes r: "represents cs qs" and b: "b \<in> window_buckets (timeframe_seconds tf) start effective_end cs"
  shows "c_activity (rollup symbol tf b (window_obs (timeframe_seconds tf) start effective_end cs b)) =
    int (length (bucket_quotes qs (timeframe_seconds tf) b))"
proof -
  let ?obs = "window_obs (timeframe_seconds tf) start effective_end cs b"
  let ?min = "\<lambda>e. floor_utc (event_ts e) 60"
  have iw: "in_window (timeframe_seconds tf) start effective_end b"
    using b by (simp add: window_buckets_def)
  have "map b_activity ?obs = map (\<lambda>t. int (length (filter (\<lambda>e. ?min e = t) qs))) (map b_open_time ?obs)"
    using window_obs_represented(2) [OF r] by (auto simp: summarises_def minute_quotes_def)
  then have "sum_list (map b_activity ?obs) =
      int (length (filter (\<lambda>e. ?min e \<in> set (map b_open_time ?obs)) qs))"
    by (simp only: sum_partition [OF distinct_window_obs [OF r]])
  moreover have "filter (\<lambda>e. ?min e \<in> set (map b_open_time ?obs)) qs = bucket_quotes qs (timeframe_seconds tf) b"
    unfolding bucket_quotes_def
  proof (rule filter_cong [OF refl])
    fix e assume "e \<in> set qs"
    then show "?min e \<in> set (map b_open_time ?obs) \<longleftrightarrow> floor_utc (event_ts e) (timeframe_seconds tf) = b"
      using bucket_quote_minute [OF r iw, of e] by (auto simp: bucket_quotes_def minute_quotes_def)
  qed
  ultimately show ?thesis by (simp add: rollup_def)
qed

lemma sorted_hd_last:
  assumes "sorted (map f xs)" "x \<in> set xs"
  shows "f (hd xs) \<le> f x" "f x \<le> f (last xs)"
  using assms by (induction xs) auto

lemma event_key_le_ts: "event_key e \<le> event_key f \<Longrightarrow> event_ts e \<le> event_ts f"
  by (auto simp: event_key_def)

lemma rollup_first:
  assumes r: "represents cs qs" and b: "b \<in> window_buckets (timeframe_seconds tf) start effective_end cs"
  shows "\<exists>f \<in> set (bucket_quotes qs (timeframe_seconds tf) b).
    (\<forall>e \<in> set (bucket_quotes qs (timeframe_seconds tf) b). event_key f \<le> event_key e) \<and>
    c_open (rollup symbol tf b (window_obs (timeframe_seconds tf) start effective_end cs b)) = q_price f \<and>
    c_first_observation (rollup symbol tf b (window_obs (timeframe_seconds tf) start effective_end cs b)) = event_ts f"
proof -
  let ?obs = "window_obs (timeframe_seconds tf) start effective_end cs b"
  let ?Q = "set (bucket_quotes qs (timeframe_seconds tf) b)"
  have hd: "hd ?obs \<in> set ?obs" using window_obs_nonempty [OF b] by simp
  obtain f where f: "f \<in> set (minute_quotes qs (hd ?obs))"
    "\<forall>e \<in> set (minute_quotes qs (hd ?obs)). event_key f \<le> event_key e"
    "b_open (hd ?obs) = q_price f" "b_first_ts (hd ?obs) = event_ts f"
    by (rule summarises_first [OF window_obs_represented(2) [OF r hd]])
  have least: "event_key f \<le> event_key e" if "c \<in> set ?obs" "e \<in> set (minute_quotes qs c)" for c e
  proof (cases "b_open_time c = b_open_time (hd ?obs)")
    case True
    then have "minute_quotes qs c = minute_quotes qs (hd ?obs)" by (simp add: minute_quotes_def)
    with that(2) f(2) show ?thesis by simp
  next
    case False
    with sorted_hd_last(1) [OF sorted_window_obs that(1)] have "b_open_time (hd ?obs) < b_open_time c" by simp
    with f(1) that(2) have "event_key f < event_key e"
      by (intro event_key_minute_less) (simp add: minute_quotes_def)
    then show ?thesis by simp
  qed
  have "Min (b_first_ts ` set ?obs) = event_ts f"
  proof (rule Min_eqI)
    show "event_ts f \<in> b_first_ts ` set ?obs" using hd f(4) by (metis imageI)
    fix y assume "y \<in> b_first_ts ` set ?obs"
    then obtain c where c: "c \<in> set ?obs" "y = b_first_ts c" by auto
    obtain g where "g \<in> set (minute_quotes qs c)" "b_first_ts c = event_ts g"
      by (rule summarises_first [OF window_obs_represented(2) [OF r c(1)]])
    then show "event_ts f \<le> y" using least [OF c(1)] c(2) by (simp add: event_key_le_ts)
  qed simp
  with f least hd show ?thesis
    unfolding set_bucket_quotes [OF r b]
    by (intro bexI [of _ f]) (auto simp: rollup_def)
qed

lemma rollup_last:
  assumes r: "represents cs qs" and b: "b \<in> window_buckets (timeframe_seconds tf) start effective_end cs"
  shows "\<exists>l \<in> set (bucket_quotes qs (timeframe_seconds tf) b).
    (\<forall>e \<in> set (bucket_quotes qs (timeframe_seconds tf) b). event_key e \<le> event_key l) \<and>
    c_close (rollup symbol tf b (window_obs (timeframe_seconds tf) start effective_end cs b)) = q_price l \<and>
    c_last_observation (rollup symbol tf b (window_obs (timeframe_seconds tf) start effective_end cs b)) = event_ts l"
proof -
  let ?obs = "window_obs (timeframe_seconds tf) start effective_end cs b"
  have la: "last ?obs \<in> set ?obs" using window_obs_nonempty [OF b] by simp
  obtain l where l: "l \<in> set (minute_quotes qs (last ?obs))"
    "\<forall>e \<in> set (minute_quotes qs (last ?obs)). event_key e \<le> event_key l"
    "b_close (last ?obs) = q_price l" "b_last_ts (last ?obs) = event_ts l"
    by (rule summarises_last [OF window_obs_represented(2) [OF r la]])
  have greatest: "event_key e \<le> event_key l" if "c \<in> set ?obs" "e \<in> set (minute_quotes qs c)" for c e
  proof (cases "b_open_time c = b_open_time (last ?obs)")
    case True
    then have "minute_quotes qs c = minute_quotes qs (last ?obs)" by (simp add: minute_quotes_def)
    with that(2) l(2) show ?thesis by simp
  next
    case False
    with sorted_hd_last(2) [OF sorted_window_obs that(1)] have "b_open_time c < b_open_time (last ?obs)" by simp
    with l(1) that(2) have "event_key e < event_key l"
      by (intro event_key_minute_less) (simp add: minute_quotes_def)
    then show ?thesis by simp
  qed
  have "last_observation ?obs = event_ts l"
    unfolding last_observation_def
  proof (rule Max_eqI)
    show "event_ts l \<in> b_last_ts ` set ?obs" using la l(4) by (metis imageI)
    fix y assume "y \<in> b_last_ts ` set ?obs"
    then obtain c where c: "c \<in> set ?obs" "y = b_last_ts c" by auto
    obtain g where "g \<in> set (minute_quotes qs c)" "b_last_ts c = event_ts g"
      by (rule summarises_last [OF window_obs_represented(2) [OF r c(1)]])
    then show "y \<le> event_ts l" using greatest [OF c(1)] c(2) by (simp add: event_key_le_ts)
  qed simp
  with l greatest la show ?thesis
    unfolding set_bucket_quotes [OF r b]
    by (intro bexI [of _ l]) (auto simp: rollup_def)
qed

lemma rollup_summarises:
  assumes r: "represents cs qs" and b: "b \<in> window_buckets (timeframe_seconds tf) start effective_end cs"
  shows "series_summarises (rollup symbol tf b (window_obs (timeframe_seconds tf) start effective_end cs b))
    (bucket_quotes qs (timeframe_seconds tf) b)"
proof -
  have "bucket_quotes qs (timeframe_seconds tf) b \<noteq> []"
    using rollup_first [OF r b] by auto
  then show ?thesis
    unfolding series_summarises_def
    using rollup_activity [OF r b] rollup_extremes [OF r b] rollup_first [OF r b] rollup_last [OF r b]
    by simp
qed

lemma represents_minute_ok: "represents cs qs \<Longrightarrow> c \<in> set cs \<Longrightarrow> minute_ok c"
  using represents_summarises summarises_minute_ok by blast

subsection \<open>Totality\<close>

definition base_candle_ok :: "base_candle \<Rightarrow> bool" where
  "base_candle_ok c \<longleftrightarrow> 0 < b_open c \<and> 0 < b_high c \<and> 0 < b_low c \<and> 0 < b_close c \<and> 1 \<le> b_activity c"

lemma make_candle_rollup:
  assumes "symbol_ok symbol" "obs \<noteq> []" "\<forall>c \<in> set obs. base_candle_ok c"
  shows "make_candle (rollup symbol tf b obs) = Inr (rollup symbol tf b obs)"
proof -
  have hl: "hd obs \<in> set obs" "last obs \<in> set obs" using assms(2) by auto
  have "Max (b_high ` set obs) \<in> b_high ` set obs" "Min (b_low ` set obs) \<in> b_low ` set obs"
    using assms(2) by (auto intro!: Max_in Min_in)
  then have "0 < Max (b_high ` set obs)" "0 < Min (b_low ` set obs)"
    using assms(3) by (auto simp: base_candle_ok_def)
  moreover have "1 \<le> sum_list (map b_activity obs)"
    using assms(2,3)
  proof (induction obs)
    case (Cons c obs)
    then show ?case by (cases obs) (auto simp: base_candle_ok_def)
  qed simp
  ultimately show ?thesis
    using assms hl by (auto simp: make_candle_def Let_def field_errors_def rollup_def base_candle_ok_def)
qed

lemma series_buckets_obs:
  assumes "b \<in> set (series_buckets i start effective_end cs)"
  shows "b \<in> window_buckets i start effective_end cs"
  using assms by (simp add: series_buckets_def)

lemma aggregate_defined:
  assumes "1 \<le> limit" "limit \<le> 1000" "is_aware end_at" "symbol_ok symbol" "0 < retention"
    "\<forall>c \<in> set cs. base_candle_ok c"
  shows "\<exists>s. aggregate_base_candles symbol tf limit end_at retention cs = Inr s"
proof -
  obtain start effective_end where w: "history_window tf limit end_at = Inr (start, effective_end)"
    using assms(1,3) by (auto simp: history_window_def Let_def)
  let ?obs = "window_obs (timeframe_seconds tf) start effective_end cs"
  have "make_candle (rollup symbol tf b (?obs b)) = Inr (rollup symbol tf b (?obs b))"
    if "b \<in> set (series_buckets (timeframe_seconds tf) start effective_end cs)" for b
    using that assms(4,6) window_obs_nonempty [OF series_buckets_obs [OF that]]
    by (intro make_candle_rollup) (auto simp: set_window_obs)
  then show ?thesis
    using assms by (simp add: aggregate_closed_form w mapE_cong_Inr make_series_def Let_def field_errors_def)
qed

lemma aggregate_shape:
  assumes "aggregate_base_candles symbol tf limit end_at retention cs = Inr s"
  shows "sorted_wrt (<) (map c_open_time (s_data s)) \<and> int (length (s_data s)) \<le> limit \<and>
    s_returned_count s = int (length (s_data s)) \<and>
    (\<forall>k \<in> set (s_data s). c_closed k \<and> timeframe_seconds tf * us_per_second dvd c_open_time k \<and>
       c_close_time k = c_open_time k + timeframe_seconds tf * us_per_second \<and>
       s_period_start s \<le> c_open_time k \<and> c_close_time k \<le> dt_us end_at)"
proof -
  note d = aggregate_data [OF assms]
  have "sorted_wrt (<) (map c_open_time (s_data s))"
    unfolding d(2) by (simp add: comp_def rollup_def series_buckets_def sorted_wrt_filter)
  moreover have "int (length (s_data s)) \<le> limit"
    using d(3) history_window_Inr(2) [OF d(1)] by simp
  moreover have "c_closed k \<and> timeframe_seconds tf * us_per_second dvd c_open_time k \<and>
       c_close_time k = c_open_time k + timeframe_seconds tf * us_per_second \<and>
       s_period_start s \<le> c_open_time k \<and> c_close_time k \<le> dt_us end_at" if "k \<in> set (s_data s)" for k
    using that history_window_Inr(1) [OF d(1)] unfolding d(2)
    by (auto simp: rollup_def series_buckets_def window_buckets_def in_window_def intro: bucket_of_dvd)
  ultimately show ?thesis using d(4) by blast
qed

lemma aggregate_summarises:
  assumes "aggregate_base_candles symbol tf limit end_at retention cs = Inr s" "represents cs qs"
  shows "(\<forall>k \<in> set (s_data s). series_summarises k (bucket_quotes qs (timeframe_seconds tf) (c_open_time k))) \<and>
    (\<forall>e \<in> set qs. in_window (timeframe_seconds tf) (s_period_start s) (dt_us end_at)
        (floor_utc (event_ts e) (timeframe_seconds tf)) \<longrightarrow>
       (\<exists>k \<in> set (s_data s). c_open_time k = floor_utc (event_ts e) (timeframe_seconds tf)))"
proof -
  let ?W = "window_buckets (timeframe_seconds tf) (s_period_start s) (s_period_end s) cs"
  note d = aggregate_data [OF assms(1)]
  have bs: "set (series_buckets (timeframe_seconds tf) (s_period_start s) (s_period_end s) cs) = ?W"
    using series_buckets_all represents_minute_ok [OF assms(2)] by simp
  have 1: "series_summarises k (bucket_quotes qs (timeframe_seconds tf) (c_open_time k))" if "k \<in> set (s_data s)" for k
  proof -
    from that d(2) bs obtain b where b: "b \<in> ?W" "k = rollup symbol tf b
        (window_obs (timeframe_seconds tf) (s_period_start s) (s_period_end s) cs b)" by auto
    then have "c_open_time k = b" by (simp add: rollup_def)
    with rollup_summarises [OF assms(2) b(1)] b(2) show ?thesis by simp
  qed
  have 2: "\<exists>k \<in> set (s_data s). c_open_time k = floor_utc (event_ts e) (timeframe_seconds tf)"
    if e: "e \<in> set qs" and w: "in_window (timeframe_seconds tf) (s_period_start s) (dt_us end_at)
        (floor_utc (event_ts e) (timeframe_seconds tf))" for e
  proof -
    let ?b = "floor_utc (event_ts e) (timeframe_seconds tf)"
    from assms(2) e obtain c where c: "c \<in> set cs" "floor_utc (event_ts e) 60 = b_open_time c"
      by (auto simp: represents_def)
    then have "bucket_of (timeframe_seconds tf) c = ?b"
      using floor_utc_coarser [OF timeframe_minutes [of tf] timeframe_seconds_pos [of tf], of "event_ts e"]
      by (simp add: bucket_of_def)
    with c(1) w have "?b \<in> ?W"
      using history_window_Inr(1) [OF d(1)] by (force simp: window_buckets_def)
    then show ?thesis unfolding d(2) by (simp add: bs rollup_def)
  qed
  show ?thesis using 1 2 by blast
qed

section \<open>Properties\<close>

text \<open>For a timezone-aware timestamp at or after the epoch, \<open>floor_time\<close> returns the start of
  the interval that contains it: a multiple of the interval, not after the timestamp, less than one
  interval before it.\<close>

theorem floor_time_correct:
  assumes "is_aware v" "0 \<le> dt_us v" "0 < interval"
  shows "\<exists>b. floor_time v interval = Inr b \<and> interval * us_per_second dvd b \<and>
    b \<le> dt_us v \<and> dt_us v < b + interval * us_per_second"
  using assms floor_utc_bounds [of "dt_us v" interval] floor_utc_dvd by (auto simp: floor_time_def)

text \<open>Before the epoch \<open>floor_time\<close> truncates towards zero: half a second before the epoch is put
  into the minute that starts at the epoch, after the timestamp itself.\<close>

theorem floor_time_before_epoch:
  "floor_time (utc_datetime (- 500000)) 60 = Inr 0"
  by (simp add: floor_time_def floor_utc_def trunc_seconds_def)

text \<open>The candle built from the quotes of one symbol and minute summarises them: the count, the
  extreme prices, and the prices of the first and last quote by timestamp and event identifier.\<close>

theorem candle_summarises_quotes:
  assumes "es \<noteq> []" "\<forall>e \<in> set es. in_bucket s t e"
  shows "\<exists>c. candle_of_quotes es = Inr (Some c) \<and> summarises c es \<and> b_symbol c = s \<and> b_open_time c = t"
  using assms by (rule candle_of_quotes_summarises)

text \<open>The minute candle does not depend on the order in which its quotes arrive: any two
  arrival orders of the same events give the same candle.\<close>

theorem candle_order_independent:
  assumes "mset es = mset fs" "\<forall>e \<in> set es. in_bucket s t e" "distinct (map q_event_id es)"
  shows "candle_of_quotes es = candle_of_quotes fs"
  using assms by (rule candle_of_quotes_perm)

text \<open>A returned series holds at most \<open>limit\<close> closed candles in strictly increasing time order,
  each aligned to the timeframe and inside the requested period, and says how many it holds.\<close>

theorem aggregate_series_shape:
  assumes "aggregate_base_candles symbol tf limit end_at retention cs = Inr s"
  shows "sorted_wrt (<) (map c_open_time (s_data s)) \<and> int (length (s_data s)) \<le> limit \<and>
    s_returned_count s = int (length (s_data s)) \<and>
    (\<forall>k \<in> set (s_data s). c_closed k \<and> timeframe_seconds tf * us_per_second dvd c_open_time k \<and>
       c_close_time k = c_open_time k + timeframe_seconds tf * us_per_second \<and>
       s_period_start s \<le> c_open_time k \<and> c_close_time k \<le> dt_us end_at)"
  using assms by (rule aggregate_shape)

text \<open>C4: when the minute candles represent a set of quotes, the series loses and invents nothing:
  every candle it returns summarises exactly the quotes of its interval, and every quote whose
  interval lies in the requested window is inside a returned candle.\<close>

theorem aggregate_summarises_quotes:
  assumes "aggregate_base_candles symbol tf limit end_at retention cs = Inr s" "represents cs qs"
  shows "(\<forall>k \<in> set (s_data s). series_summarises k (bucket_quotes qs (timeframe_seconds tf) (c_open_time k))) \<and>
    (\<forall>e \<in> set qs. in_window (timeframe_seconds tf) (s_period_start s) (dt_us end_at)
        (floor_utc (event_ts e) (timeframe_seconds tf)) \<longrightarrow>
       (\<exists>k \<in> set (s_data s). c_open_time k = floor_utc (event_ts e) (timeframe_seconds tf)))"
  using assms by (rule aggregate_summarises)

text \<open>Aggregation succeeds on every valid request: a limit from 1 to 1000, a timezone-aware end,
  a valid symbol, a positive retention and valid minute candles.\<close>

theorem aggregate_total:
  assumes "1 \<le> limit" "limit \<le> 1000" "is_aware end_at" "symbol_ok symbol" "0 < retention"
    "\<forall>c \<in> set cs. base_candle_ok c"
  shows "\<exists>s. aggregate_base_candles symbol tf limit end_at retention cs = Inr s"
  using assms by (rule aggregate_defined)

section \<open>Witnesses\<close>

definition sample_quote :: "uuid \<Rightarrow> rat \<Rightarrow> instant \<Rightarrow> quote_event" where
  "sample_quote i p t = (quote_of_input sample_input)
     \<lparr>q_event_id := i, q_price := p, q_provider_timestamp := utc_datetime t\<rparr>"

definition sample_quotes :: "quote_event list" where
  "sample_quotes = [sample_quote 3 12 65000000, sample_quote 1 9 61000000, sample_quote 2 10 61000000]"

definition sample_candle :: base_candle where
  "sample_candle =
     \<lparr>b_symbol = ''AAPL'', b_open_time = 60000000, b_open = 9, b_high = 12, b_low = 9, b_close = 12,
      b_activity = 3, b_first_ts = 61000000, b_last_ts = 65000000, b_first_id = 1, b_last_id = 3\<rparr>"

lemma sample_quotes_bucket: "\<forall>e \<in> set sample_quotes. in_bucket ''AAPL'' 60000000 e"
  by code_simp

lemma sample_quote_simps [simp]:
  "q_symbol (sample_quote i p t) = ''AAPL''" "q_event_id (sample_quote i p t) = i"
  "q_price (sample_quote i p t) = p" "event_ts (sample_quote i p t) = t"
proof -
  have "q_symbol (quote_of_input sample_input) = ''AAPL''" by code_simp
  then show "q_symbol (sample_quote i p t) = ''AAPL''" by (simp add: sample_quote_def)
qed (simp_all add: sample_quote_def event_ts_def)

lemma sample_quotes_candle: "candle_of_quotes sample_quotes = Inr (Some sample_candle)"
  by (simp add: sample_quotes_def sample_candle_def from_quote_def with_quote_def event_key_def
      first_key_def last_key_def uuid_str_less floor_utc_def trunc_seconds_def)

lemma sample_quotes_nonempty: "sample_quotes \<noteq> []"
  by (simp add: sample_quotes_def)

lemma sample_candle_summarises: "summarises sample_candle sample_quotes"
  using candle_of_quotes_summarises [OF sample_quotes_nonempty sample_quotes_bucket]
  by (simp add: sample_quotes_candle)

lemma sample_represents: "represents [sample_candle] sample_quotes"
proof -
  have m: "\<forall>e \<in> set sample_quotes. floor_utc (event_ts e) 60 = b_open_time sample_candle"
    by code_simp
  then have "filter (\<lambda>e. floor_utc (event_ts e) 60 = b_open_time sample_candle) sample_quotes = sample_quotes"
    by (intro filter_True) auto
  with m sample_candle_summarises show ?thesis by (simp add: represents_def)
qed

lemma sample_request:
  "1 \<le> (2::int)" "(2::int) \<le> 1000" "is_aware (utc_datetime 180000000)" "symbol_ok ''AAPL''" "0 < (3600::int)"
  "\<forall>c \<in> set [sample_candle]. base_candle_ok c"
  by code_simp+

definition sample_series :: candle_series where
  "sample_series =
     \<lparr>s_symbol = ''AAPL'', s_timeframe = TF_1m, s_requested_limit = 2, s_returned_count = 1,
      s_retention_seconds = 3600, s_period_start = 60000000, s_period_end = 180000000,
      s_data = [rollup ''AAPL'' TF_1m 60000000 [sample_candle]], s_warnings = default_warnings\<rparr>"

lemma sample_aggregate:
  "aggregate_base_candles ''AAPL'' TF_1m 2 (utc_datetime 180000000) 3600 [sample_candle] = Inr sample_series"
  by code_simp

lemma sample_series_data: "s_data sample_series \<noteq> []"
  by (simp add: sample_series_def)

theorem floor_time_correct_witness:
  "\<exists>b. floor_time (utc_datetime 61500000) 60 = Inr b \<and> 60000000 dvd b \<and> b \<le> 61500000 \<and> 61500000 < b + 60000000"
  using floor_time_correct [of "utc_datetime 61500000" 60] by simp

theorem candle_summarises_quotes_witness:
  "\<exists>c. candle_of_quotes sample_quotes = Inr (Some c) \<and> summarises c sample_quotes \<and>
     b_symbol c = ''AAPL'' \<and> b_open_time c = 60000000"
  by (rule candle_summarises_quotes [OF sample_quotes_nonempty sample_quotes_bucket])

theorem candle_order_independent_witness:
  "sample_quotes \<noteq> rev sample_quotes \<and> candle_of_quotes sample_quotes = candle_of_quotes (rev sample_quotes)"
proof
  show "sample_quotes \<noteq> rev sample_quotes" by code_simp
  have "distinct (map q_event_id sample_quotes)" by code_simp
  then show "candle_of_quotes sample_quotes = candle_of_quotes (rev sample_quotes)"
    by (intro candle_order_independent [OF _ sample_quotes_bucket]) simp_all
qed

theorem aggregate_series_shape_witness:
  "s_data sample_series \<noteq> [] \<and> sorted_wrt (<) (map c_open_time (s_data sample_series)) \<and>
   int (length (s_data sample_series)) \<le> 2"
  using sample_series_data aggregate_series_shape [OF sample_aggregate] by simp

theorem aggregate_summarises_quotes_witness:
  "s_data sample_series \<noteq> [] \<and>
   series_summarises (hd (s_data sample_series))
     (bucket_quotes sample_quotes 60 (c_open_time (hd (s_data sample_series))))"
  using sample_series_data aggregate_summarises_quotes [OF sample_aggregate sample_represents] by simp

theorem aggregate_total_witness:
  "\<exists>s. aggregate_base_candles ''AAPL'' TF_5m 2 (utc_datetime 180000000) 3600 [sample_candle] = Inr s"
  by (rule aggregate_total [OF sample_request])

end
