(* ===== verification/Candle_Store.thy ===== *)
theory Candle_Store
  imports Candles
begin

text \<open>
  The contract of a store of one-minute candles, as the locale \<open>candle_store\<close>: storing an accepted
  quote creates or updates the candle of its symbol and minute and touches no other.  The Redis hot
  layer (\<open>RedisStore.cache_quote\<close>) and the PostgreSQL archive (\<open>PostgresCandleArchive\<close>) provide
  it.  \<open>dedup_store\<close> extends it for a store that remembers the event identifiers it has seen;
  its lemmas show that such a store converges: duplicates and reordering of the deliveries do not
  change the candles.
\<close>

section \<open>Exact series\<close>

text \<open>A series of closed candles that is exact for the quotes \<open>qs\<close> of its window.\<close>

definition series_exact :: "timeframe \<Rightarrow> instant \<Rightarrow> instant \<Rightarrow> candle list \<Rightarrow> quote_event list \<Rightarrow> bool" where
  "series_exact tf start effective_end cs qs \<longleftrightarrow>
     sorted_wrt (<) (map c_open_time cs) \<and>
     (\<forall>k \<in> set cs. in_window (timeframe_seconds tf) start effective_end (c_open_time k) \<and>
        timeframe_seconds tf * us_per_second dvd c_open_time k \<and>
        series_summarises k (bucket_quotes qs (timeframe_seconds tf) (c_open_time k))) \<and>
     (\<forall>e \<in> set qs. in_window (timeframe_seconds tf) start effective_end (floor_utc (event_ts e) (timeframe_seconds tf)) \<longrightarrow>
        floor_utc (event_ts e) (timeframe_seconds tf) \<in> c_open_time ` set cs)"

lemma sorted_strict_distinct: "sorted_wrt (<) (map c_open_time cs) \<Longrightarrow> distinct (map c_open_time cs)"
  by (simp add: strict_sorted_iff)

lemma aggregate_exact:
  assumes "aggregate_base_candles symbol tf limit end_at retention cs = Inr s" "represents cs qs"
  shows "series_exact tf (s_period_start s) (dt_us end_at) (s_data s) qs"
  using aggregate_summarises [OF assms] aggregate_shape [OF assms(1)]
  by (force simp: series_exact_def in_window_def)

lemma series_exact_length:
  assumes w: "history_window tf limit end_at = Inr (start, effective_end)"
    and ex: "series_exact tf start effective_end cs qs"
  shows "length cs \<le> nat limit"
proof -
  let ?I = "timeframe_seconds tf * us_per_second"
  have "c_open_time ` set cs \<subseteq> (\<lambda>k. start + k * ?I) ` {0..<limit}"
    using window_bucket_index [OF w] ex by (fastforce simp: series_exact_def)
  then have "card (c_open_time ` set cs) \<le> card ((\<lambda>k. start + k * ?I) ` {0..<limit})"
    by (intro card_mono) auto
  also have "\<dots> \<le> card {0..<limit}" by (rule card_image_le) simp
  finally have "card (set (map c_open_time cs)) \<le> nat limit" by simp
  moreover have "distinct (map c_open_time cs)"
    using ex by (simp add: series_exact_def sorted_strict_distinct)
  ultimately show ?thesis by (metis distinct_card length_map)
qed

section \<open>Vocabulary of the contract\<close>

definition minute_of :: "quote_event \<Rightarrow> instant" where
  "minute_of e = floor_utc (event_ts e) 60"

text \<open>\<^const>\<open>with_quote\<close> on a quote of the candle's own bucket, where it cannot raise.\<close>

definition absorb :: "base_candle \<Rightarrow> quote_event \<Rightarrow> base_candle" where
  "absorb c e = (case with_quote c e of Inl _ \<Rightarrow> c | Inr c' \<Rightarrow> c')"

fun accepted :: "('s \<Rightarrow> quote_event \<Rightarrow> bool) \<Rightarrow> ('s \<Rightarrow> quote_event \<Rightarrow> 's) \<Rightarrow> 's \<Rightarrow> quote_event list \<Rightarrow> quote_event list" where
  "accepted fresh store s [] = []"
| "accepted fresh store s (e # es) =
     (if fresh s e then e # accepted fresh store (store s e) es else accepted fresh store (store s e) es)"

fun first_occurrences :: "uuid set \<Rightarrow> quote_event list \<Rightarrow> quote_event list" where
  "first_occurrences seen [] = []"
| "first_occurrences seen (e # es) =
     (if q_event_id e \<in> seen then first_occurrences seen es
      else e # first_occurrences (insert (q_event_id e) seen) es)"

lemma with_quote_absorb:
  "in_bucket (b_symbol c) (b_open_time c) e \<Longrightarrow> with_quote c e = Inr (absorb c e)"
  by (auto simp: absorb_def dest: with_quote_defined)

lemma in_bucket_minute: "in_bucket s t e \<longleftrightarrow> s = q_symbol e \<and> t = minute_of e"
  by (auto simp: in_bucket_def minute_of_def)

lemma apply_quotes_append:
  "apply_quotes c (es @ fs) = bindE (apply_quotes c es) (\<lambda>c'. apply_quotes c' fs)"
proof (induction es arbitrary: c)
  case (Cons e es)
  then show ?case by (cases "with_quote c e") auto
qed simp

lemma candle_of_quotes_snoc:
  assumes "candle_of_quotes es = Inr m"
  shows "candle_of_quotes (es @ [e]) =
    (case m of None \<Rightarrow> Inr (Some (from_quote e)) | Some c \<Rightarrow> bindE (with_quote c e) (\<lambda>c'. Inr (Some c')))"
  using assms
  by (cases es) (auto simp: apply_quotes_append bindE_eq_Inr bindE_def split: sum.splits)

lemma set_first_occurrences: "set (first_occurrences seen es) \<subseteq> set es"
  by (induction seen es rule: first_occurrences.induct) auto

lemma ids_first_occurrences:
  "q_event_id ` set (first_occurrences seen es) = q_event_id ` set es - seen"
  by (induction seen es rule: first_occurrences.induct) auto

lemma distinct_first_occurrences: "distinct (map q_event_id (first_occurrences seen es))"
proof (induction seen es rule: first_occurrences.induct)
  case (2 seen e es)
  then show ?case using ids_first_occurrences [of "insert (q_event_id e) seen" es] by auto
qed simp

lemma first_occurrences_fresh: "e \<in> set (first_occurrences seen es) \<Longrightarrow> q_event_id e \<notin> seen"
  using ids_first_occurrences [of seen es] by blast

lemma first_occurrences_cong:
  assumes "set es = set fs" "inj_on q_event_id (set es)"
  shows "mset (first_occurrences seen es) = mset (first_occurrences seen fs)"
proof -
  have eq: "set (first_occurrences seen gs) = {e \<in> set gs. q_event_id e \<notin> seen}"
    if "inj_on q_event_id (set gs)" for gs
  proof
    show "{e \<in> set gs. q_event_id e \<notin> seen} \<subseteq> set (first_occurrences seen gs)"
    proof
      fix e assume e: "e \<in> {e \<in> set gs. q_event_id e \<notin> seen}"
      then have "q_event_id e \<in> q_event_id ` set (first_occurrences seen gs)"
        by (simp add: ids_first_occurrences)
      then obtain f where "f \<in> set (first_occurrences seen gs)" "q_event_id f = q_event_id e" by auto
      with e that set_first_occurrences [of seen gs] have "f = e" by (auto dest!: inj_onD)
      with \<open>f \<in> set (first_occurrences seen gs)\<close> show "e \<in> set (first_occurrences seen gs)" by simp
    qed
  qed (use set_first_occurrences first_occurrences_fresh in blast)
  have "distinct (first_occurrences seen gs)" for gs
    using distinct_first_occurrences distinct_map by blast
  then show ?thesis using eq [of es] eq [of fs] assms by (simp add: set_eq_iff_mset_eq_distinct [symmetric])
qed

section \<open>The contract\<close>

locale candle_store =
  fixes store :: "'s \<Rightarrow> quote_event \<Rightarrow> 's"
    and candle_at :: "'s \<Rightarrow> string \<Rightarrow> instant \<Rightarrow> base_candle option"
    and fresh :: "'s \<Rightarrow> quote_event \<Rightarrow> bool"
    and inv :: "'s \<Rightarrow> bool"
    and valid :: "quote_event \<Rightarrow> bool"
  assumes inv_store: "inv s \<Longrightarrow> valid e \<Longrightarrow> inv (store s e)"
    and store_stale: "inv s \<Longrightarrow> valid e \<Longrightarrow> \<not> fresh s e \<Longrightarrow> candle_at (store s e) sy t = candle_at s sy t"
    and store_hit: "inv s \<Longrightarrow> valid e \<Longrightarrow> fresh s e \<Longrightarrow>
      candle_at (store s e) (q_symbol e) (minute_of e) =
        Some (case candle_at s (q_symbol e) (minute_of e) of None \<Rightarrow> from_quote e | Some c \<Rightarrow> absorb c e)"
    and store_other: "inv s \<Longrightarrow> valid e \<Longrightarrow> (sy, t) \<noteq> (q_symbol e, minute_of e) \<Longrightarrow>
      candle_at (store s e) sy t = candle_at s sy t"
    and candle_key: "inv s \<Longrightarrow> candle_at s sy t = Some c \<Longrightarrow> b_symbol c = sy \<and> b_open_time c = t"
begin

text \<open>The store holds the quotes \<open>es\<close>: each candle is the one built from its bucket's quotes.\<close>

definition holds :: "'s \<Rightarrow> quote_event list \<Rightarrow> bool" where
  "holds s es \<longleftrightarrow> (\<forall>sy t. candle_of_quotes (filter (in_bucket sy t) es) = Inr (candle_at s sy t))"

lemma holds_store:
  assumes "inv s" "valid e" "holds s es"
  shows "holds (store s e) (if fresh s e then es @ [e] else es)"
proof (cases "fresh s e")
  case True
  have "candle_of_quotes (filter (in_bucket sy t) (es @ [e])) = Inr (candle_at (store s e) sy t)" for sy t
  proof (cases "in_bucket sy t e")
    case hit: True
    then have st: "sy = q_symbol e" "t = minute_of e" by (simp_all add: in_bucket_minute)
    have prev: "candle_of_quotes (filter (in_bucket sy t) es) = Inr (candle_at s sy t)"
      using assms(3) by (simp add: holds_def)
    have "with_quote c e = Inr (absorb c e)" if "candle_at s sy t = Some c" for c
      using candle_key [OF assms(1) that] hit by (simp add: with_quote_absorb)
    then show ?thesis
      using hit candle_of_quotes_snoc [OF prev, of e] store_hit [OF assms(1,2) True]
      by (auto simp: st split: option.splits)
  next
    case False
    then have "(sy, t) \<noteq> (q_symbol e, minute_of e)" by (simp add: in_bucket_minute)
    with False assms(3) store_other [OF assms(1,2)] show ?thesis by (simp add: holds_def)
  qed
  with True show ?thesis by (simp add: holds_def)
next
  case False
  with assms store_stale [OF assms(1,2)] show ?thesis by (simp add: holds_def)
qed

lemma holds_store_all:
  assumes "inv s" "\<forall>e \<in> set es. valid e" "holds s fs"
  shows "holds (foldl store s es) (fs @ accepted fresh store s es) \<and> inv (foldl store s es)"
  using assms
proof (induction es arbitrary: s fs)
  case (Cons e es)
  then have "holds (store s e) (if fresh s e then fs @ [e] else fs)" "inv (store s e)"
    using holds_store inv_store by auto
  with Cons.IH [of "store s e" "if fresh s e then fs @ [e] else fs"] Cons.prems(2) show ?case
    by (simp split: if_splits)
qed simp

lemma holds_candle:
  assumes "holds s es" "candle_at s sy t = Some c"
  shows "summarises c (filter (in_bucket sy t) es)"
proof -
  have c: "candle_of_quotes (filter (in_bucket sy t) es) = Inr (Some c)"
    using assms by (simp add: holds_def)
  then have "filter (in_bucket sy t) es \<noteq> []" by auto
  from candle_of_quotes_summarises [OF this, of sy t] c show ?thesis by auto
qed

lemma holds_present:
  assumes "holds s es" "e \<in> set es"
  shows "\<exists>c. candle_at s (q_symbol e) (minute_of e) = Some c"
proof -
  have "filter (in_bucket (q_symbol e) (minute_of e)) es \<noteq> []"
    using assms(2) by (auto simp: filter_empty_conv in_bucket_minute)
  from candle_of_quotes_summarises [OF this, of "q_symbol e" "minute_of e"] assms(1) show ?thesis
    by (auto simp: holds_def)
qed

end

text \<open>A store that remembers the identifiers it has seen.\<close>

locale dedup_store = candle_store +
  fixes ids :: "'a \<Rightarrow> uuid set"
  assumes fresh_ids: "inv s \<Longrightarrow> fresh s e \<longleftrightarrow> q_event_id e \<notin> ids s"
    and ids_store: "inv s \<Longrightarrow> valid e \<Longrightarrow> ids (store s e) = insert (q_event_id e) (ids s)"
begin

lemma accepted_first:
  assumes "inv s" "\<forall>e \<in> set es. valid e"
  shows "accepted fresh store s es = first_occurrences (ids s) es"
  using assms
  by (induction es arbitrary: s) (auto simp: fresh_ids ids_store inv_store insert_absorb)

lemma redelivery:
  assumes "inv s" "valid e" "q_event_id e \<in> ids s"
  shows "candle_at (store s e) sy t = candle_at s sy t"
  using assms by (simp add: store_stale fresh_ids)

lemma convergence:
  assumes s: "inv s" "ids s = {}" "holds s []"
    and v: "\<forall>e \<in> set es. valid e"
    and eq: "set es = set fs" "inj_on q_event_id (set es)"
  shows "candle_at (foldl store s es) sy t = candle_at (foldl store s fs) sy t"
proof -
  let ?E = "filter (in_bucket sy t) (first_occurrences {} es)"
    and ?F = "filter (in_bucket sy t) (first_occurrences {} fs)"
  have "mset ?E = mset ?F"
    using first_occurrences_cong [OF eq, of "{}"] by simp
  moreover have "distinct (map q_event_id ?E)"
    using distinct_first_occurrences by (rule distinct_map_filter)
  ultimately have "candle_of_quotes ?E = candle_of_quotes ?F"
    by (intro candle_of_quotes_perm [of _ _ sy t]) auto
  moreover have "candle_of_quotes ?E = Inr (candle_at (foldl store s es) sy t)"
    using holds_store_all [OF s(1) v s(3)] accepted_first [OF s(1) v] s(2) by (simp add: holds_def)
  moreover have "candle_of_quotes ?F = Inr (candle_at (foldl store s fs) sy t)"
    using holds_store_all [OF s(1) _ s(3), of fs] accepted_first [OF s(1), of fs] s(2) v eq(1)
    by (simp add: holds_def)
  ultimately show ?thesis by simp
qed

end

end
