(* ===== verification/Archive.thy ===== *)
theory Archive
  imports Candle_Store
begin

text \<open>
  The durable candle archive, \<open>candle_archive.py\<close>.  The two tables of \<open>_CREATE_TABLES\<close> are
  dictionaries on their primary keys; \<open>_UPSERT_EVENT\<close> and \<open>_SELECT_CANDLES\<close> are functions on
  them; \<open>persist_event\<close> and \<open>get_candles\<close> are the methods of \<open>PostgresCandleArchive\<close> around
  these statements; \<open>hybrid_get_candles\<close> merges the archive with the hot layer.

  The archive is an interpretation of \<open>dedup_store\<close>, so redelivered and reordered events do
  not change it, and its SQL aggregation is proved equal to \<^const>\<open>aggregate_base_candles\<close>.
\<close>

section \<open>Tables\<close>

text \<open>
  \<open>candle_archive_events\<close> and \<open>candle_archive_1m\<close>; the bookkeeping columns \<open>archived_at\<close> and
  \<open>updated_at\<close> are written by the server clock and never read.
\<close>

record archive_db =
  events :: "(uuid, instant) dict"
  candles_1m :: "(string \<times> instant, base_candle) dict"

text \<open>The \<open>CHECK\<close> constraints of \<open>candle_archive_1m\<close>.\<close>

definition row_checks :: "base_candle \<Rightarrow> bool" where
  "row_checks r \<longleftrightarrow> 0 < b_open r \<and> 0 < b_high r \<and> 0 < b_low r \<and> 0 < b_close r \<and> 1 \<le> b_activity r \<and>
     b_low r \<le> b_high r \<and> b_first_ts r \<le> b_last_ts r"

definition inserted_row :: "uuid \<Rightarrow> instant \<Rightarrow> string \<Rightarrow> instant \<Rightarrow> rat \<Rightarrow> base_candle" where
  "inserted_row event_id ts symbol bucket price =
     \<lparr>b_symbol = symbol, b_open_time = bucket, b_open = price, b_high = price, b_low = price,
      b_close = price, b_activity = 1, b_first_ts = ts, b_last_ts = ts,
      b_first_id = event_id, b_last_id = event_id\<rparr>"

text \<open>\<open>ON CONFLICT (symbol, open_time) DO UPDATE SET ...\<close>: \<open>old\<close> is the stored row, \<open>new\<close> is \<open>EXCLUDED\<close>.\<close>

definition updated_row :: "base_candle \<Rightarrow> base_candle \<Rightarrow> base_candle" where
  "updated_row old new =
     (let earlier = (b_first_ts new, b_first_id new) < (b_first_ts old, b_first_id old);
          later = (b_last_ts new, b_last_id new) > (b_last_ts old, b_last_id old)
      in old\<lparr>b_open := if earlier then b_open new else b_open old,
             b_high := max (b_high old) (b_high new),
             b_low := min (b_low old) (b_low new),
             b_close := if later then b_close new else b_close old,
             b_activity := b_activity old + 1,
             b_first_ts := min (b_first_ts old) (b_first_ts new),
             b_last_ts := max (b_last_ts old) (b_last_ts new),
             b_first_id := if earlier then b_first_id new else b_first_id old,
             b_last_id := if later then b_last_id new else b_last_id old\<rparr>)"

text \<open>
  The statement is one transaction: a failed check leaves both tables as they were.  The value is
  the \<open>activity_count\<close> returned, \<^const>\<open>None\<close> when the statement wrote no row.
\<close>

definition upsert_event ::
  "archive_db \<Rightarrow> uuid \<Rightarrow> instant \<Rightarrow> string \<Rightarrow> instant \<Rightarrow> rat \<Rightarrow> (int option \<times> archive_db) result" where
  "upsert_event db event_id ts symbol bucket price =
     (if dict_get (events db) event_id \<noteq> None then Inr (None, db)
      else
        let new = inserted_row event_id ts symbol bucket price;
            row = (case dict_get (candles_1m db) (symbol, bucket) of
                     None \<Rightarrow> new
                   | Some old \<Rightarrow> updated_row old new)
        in if \<not> row_checks row then Inl (PostgresError ''check_violation'')
           else Inr (Some (b_activity row),
                  db\<lparr>events := dict_set event_id ts (events db),
                     candles_1m := dict_set (symbol, bucket) row (candles_1m db)\<rparr>))"

section \<open>The archive client\<close>

text \<open>\<open>PostgresCandleArchive\<close>: \<open>pool\<close> is present between \<open>start\<close> and \<open>close\<close>.\<close>

record archive =
  available :: bool
  timescale_enabled :: bool
  database :: archive_db

definition make_archive :: "string option \<Rightarrow> archive_db \<Rightarrow> archive result" where
  "make_archive database_url db =
     (if database_url = None \<or> database_url = Some [] then
        Inl (ValueError ''database_url is required for the candle archive'')
      else Inr \<lparr>available = False, timescale_enabled = False, database = db\<rparr>)"

text \<open>
  \<open>_enable_timescale\<close>: whether the extension is listed, and the outcome of the three statements
  that install it; a \<open>PostgresError\<close> from them is swallowed.
\<close>

definition enable_timescale :: "bool \<Rightarrow> unit result \<Rightarrow> bool result" where
  "enable_timescale listed install =
     (if \<not> listed then Inr False
      else case install of
        Inr _ \<Rightarrow> Inr True
      | Inl (PostgresError _) \<Rightarrow> Inr False
      | Inl e \<Rightarrow> Inl e)"

definition start_archive :: "unit result \<Rightarrow> unit result \<Rightarrow> bool \<Rightarrow> unit result \<Rightarrow> archive \<Rightarrow> unit result \<times> archive" where
  "start_archive create_pool create_tables listed install a =
     (if available a then (Inr (), a)
      else case create_pool of
        Inl e \<Rightarrow> (Inl e, a)
      | Inr _ \<Rightarrow>
          (let a1 = a\<lparr>available := True\<rparr> in
           case bindE create_tables (\<lambda>_. enable_timescale listed install) of
             Inl e \<Rightarrow> (Inl e, a1)
           | Inr b \<Rightarrow> (Inr (), a1\<lparr>timescale_enabled := b\<rparr>)))"

definition close_archive :: "archive \<Rightarrow> archive" where
  "close_archive a = a\<lparr>available := False\<rparr>"

definition persist_event :: "archive \<Rightarrow> quote_event \<Rightarrow> (bool \<times> archive) result" where
  "persist_event a e =
     (if \<not> available a then Inl (RuntimeError ''candle archive is not started'')
      else bindE (floor_time (q_provider_timestamp e) 60) (\<lambda>bucket.
        bindE (upsert_event (database a) (q_event_id e) (dt_us (q_provider_timestamp e)) (q_symbol e)
                 bucket (q_price e))
          (\<lambda>(activity_count, db). Inr (activity_count \<noteq> None, a\<lparr>database := db\<rparr>))))"

section \<open>The archive as a candle store\<close>

definition archive_inv :: "archive \<Rightarrow> bool" where
  "archive_inv a \<longleftrightarrow> available a \<and> dict_ok (candles_1m (database a)) \<and>
     (\<forall>k r. dict_get (candles_1m (database a)) k = Some r \<longrightarrow>
        (b_symbol r, b_open_time r) = k \<and> row_checks r \<and> minute_ok r)"

text \<open>What validation guarantees of an event and the archive relies on.\<close>

definition archivable :: "quote_event \<Rightarrow> bool" where
  "archivable e \<longleftrightarrow> is_aware (q_provider_timestamp e) \<and> 0 < q_price e"

definition archive_store :: "archive \<Rightarrow> quote_event \<Rightarrow> archive" where
  "archive_store a e = (case persist_event a e of Inl _ \<Rightarrow> a | Inr (_, a') \<Rightarrow> a')"

definition archived_candle :: "archive \<Rightarrow> string \<Rightarrow> instant \<Rightarrow> base_candle option" where
  "archived_candle a symbol t = dict_get (candles_1m (database a)) (symbol, t)"

definition archived_ids :: "archive \<Rightarrow> uuid set" where
  "archived_ids a = set (dict_keys (events (database a)))"

definition unarchived :: "archive \<Rightarrow> quote_event \<Rightarrow> bool" where
  "unarchived a e \<longleftrightarrow> dict_get (events (database a)) (q_event_id e) = None"

lemma inserted_row_from_quote:
  "inserted_row (q_event_id e) (event_ts e) (q_symbol e) (floor_utc (event_ts e) 60) (q_price e) = from_quote e"
  by (simp add: inserted_row_def from_quote_def)

text \<open>
  The SQL row update is \<^const>\<open>with_quote\<close>: PostgreSQL compares \<open>uuid\<close> values where Python compares
  their text, and \<open>LEAST\<close>/\<open>GREATEST\<close> of the timestamps agree with the row comparisons.
\<close>

lemma updated_row_with_quote:
  assumes "in_bucket (b_symbol c) (b_open_time c) e"
  shows "with_quote c e = Inr (updated_row c (from_quote e))"
proof -
  have f: "event_key e < first_key c \<longleftrightarrow> (event_ts e, q_event_id e) < (b_first_ts c, b_first_id c)"
    by (simp add: event_key_def first_key_def uuid_str_less)
  have l: "last_key c < event_key e \<longleftrightarrow> (b_last_ts c, b_last_id c) < (event_ts e, q_event_id e)"
    by (simp add: event_key_def last_key_def uuid_str_less)
  obtain c' where c': "with_quote c e = Inr c'" using with_quote_defined [OF assms] by auto
  have "c' = updated_row c (from_quote e)"
    by (rule base_candle.equality)
      (use with_quote_fields [OF c'] in \<open>auto simp: updated_row_def from_quote_def f l Let_def\<close>)
  with c' show ?thesis by simp
qed

lemma absorb_updated_row:
  "in_bucket (b_symbol c) (b_open_time c) e \<Longrightarrow> absorb c e = updated_row c (from_quote e)"
  by (simp add: absorb_def updated_row_with_quote)

lemma row_checks_from_quote: "0 < q_price e \<Longrightarrow> row_checks (from_quote e)"
  by (simp add: row_checks_def from_quote_def)

lemma row_checks_updated:
  "row_checks old \<Longrightarrow> row_checks new \<Longrightarrow> row_checks (updated_row old new)"
  by (auto simp: row_checks_def updated_row_def Let_def)

lemma minute_ok_from_quote: "minute_ok (from_quote e)"
  by (rule summarises_minute_ok [OF from_quote_summarises])

lemma minute_ok_updated:
  "minute_ok old \<Longrightarrow> minute_ok (from_quote e) \<Longrightarrow> b_open_time old = minute_of e \<Longrightarrow>
   minute_ok (updated_row old (from_quote e))"
  by (auto simp: minute_ok_def updated_row_def from_quote_def minute_of_def Let_def)

text \<open>What the archive does with a valid event, on both branches.\<close>

lemma persist_event_cases:
  assumes "archive_inv a" "archivable e"
  shows "persist_event a e =
    (if unarchived a e then
       Inr (True, a\<lparr>database := (database a)\<lparr>events := dict_set (q_event_id e) (event_ts e) (events (database a)),
         candles_1m := dict_set (q_symbol e, minute_of e)
           (case archived_candle a (q_symbol e) (minute_of e) of None \<Rightarrow> from_quote e | Some c \<Rightarrow> absorb c e)
           (candles_1m (database a))\<rparr>\<rparr>)
     else Inr (False, a))"
proof (cases "archived_candle a (q_symbol e) (minute_of e)")
  case None
  with assms show ?thesis
    by (simp add: persist_event_def archive_inv_def archivable_def floor_time_def upsert_event_def
        unarchived_def archived_candle_def minute_of_def event_ts_def [symmetric]
        inserted_row_from_quote row_checks_from_quote Let_def)
next
  case (Some c)
  then have c: "b_symbol c = q_symbol e" "b_open_time c = minute_of e" "row_checks c"
    using assms(1) by (auto simp: archive_inv_def archived_candle_def)
  then have "absorb c e = updated_row c (from_quote e)"
    by (intro absorb_updated_row) (simp add: in_bucket_minute)
  moreover have "row_checks (updated_row c (from_quote e))"
    using c assms(2) by (simp add: row_checks_updated row_checks_from_quote archivable_def)
  ultimately show ?thesis using Some assms
    by (simp add: persist_event_def archive_inv_def archivable_def floor_time_def upsert_event_def
        unarchived_def archived_candle_def minute_of_def event_ts_def [symmetric]
        inserted_row_from_quote Let_def)
qed

lemma archive_inv_store:
  assumes "archive_inv a" "archivable e"
  shows "archive_inv (archive_store a e)"
proof (cases "archived_candle a (q_symbol e) (minute_of e)")
  case None
  have "b_symbol (from_quote e) = q_symbol e" "b_open_time (from_quote e) = minute_of e"
    by (simp_all add: from_quote_def minute_of_def)
  with None assms show ?thesis
    by (auto simp: archive_store_def persist_event_cases archive_inv_def archivable_def dict_simps
        row_checks_from_quote minute_ok_from_quote)
next
  case (Some c)
  then have c: "b_symbol c = q_symbol e" "b_open_time c = minute_of e" "row_checks c" "minute_ok c"
    using assms(1) by (auto simp: archive_inv_def archived_candle_def)
  then have u: "absorb c e = updated_row c (from_quote e)"
    by (intro absorb_updated_row) (simp add: in_bucket_minute)
  have "row_checks (absorb c e)" "minute_ok (absorb c e)" "b_symbol (absorb c e) = q_symbol e"
    "b_open_time (absorb c e) = minute_of e"
    using c assms(2) by (simp_all add: u row_checks_updated row_checks_from_quote archivable_def
        minute_ok_updated minute_ok_from_quote) (simp_all add: updated_row_def Let_def)
  with Some assms show ?thesis
    by (auto simp: archive_store_def persist_event_cases archive_inv_def dict_simps)
qed

interpretation pg: dedup_store archive_store archived_candle unarchived archive_inv archivable archived_ids
proof
  fix s e sy t assume "archive_inv s" "archivable e"
  then show "archive_inv (archive_store s e)" by (rule archive_inv_store)
next
  fix s e sy t assume "archive_inv s" "archivable e" "\<not> unarchived s e"
  then show "archived_candle (archive_store s e) sy t = archived_candle s sy t"
    by (simp add: archive_store_def persist_event_cases)
next
  fix s e assume "archive_inv s" "archivable e" "unarchived s e"
  then show "archived_candle (archive_store s e) (q_symbol e) (minute_of e) =
      Some (case archived_candle s (q_symbol e) (minute_of e) of None \<Rightarrow> from_quote e | Some c \<Rightarrow> absorb c e)"
    by (simp add: archive_store_def persist_event_cases archived_candle_def dict_simps)
next
  fix s e sy t assume "archive_inv s" "archivable e" "(sy, t) \<noteq> (q_symbol e, minute_of e)"
  then show "archived_candle (archive_store s e) sy t = archived_candle s sy t"
    by (auto simp: archive_store_def persist_event_cases archived_candle_def dict_simps)
next
  fix s sy t c assume "archive_inv s" "archived_candle s sy t = Some c"
  then show "b_symbol c = sy \<and> b_open_time c = t"
    by (auto simp: archive_inv_def archived_candle_def)
next
  fix s e assume "archive_inv s"
  show "unarchived s e \<longleftrightarrow> q_event_id e \<notin> archived_ids s"
    by (simp add: unarchived_def archived_ids_def dict_get_None)
next
  fix s e assume "archive_inv s" "archivable e"
  then show "archived_ids (archive_store s e) = insert (q_event_id e) (archived_ids s)"
    by (auto simp: archive_store_def persist_event_cases archived_ids_def dict_keys_set unarchived_def
        dict_get_None insert_absorb)
qed

section \<open>Reading the archive\<close>

text \<open>
  \<open>_SELECT_CANDLES\<close>.  \<open>floor(extract(epoch FROM open_time) / $4) * $4\<close> is exact on the stored
  whole seconds.  \<open>(array_agg(x ORDER BY open_time ASC))[1]\<close> is the value of the earliest row of the
  group, \<open>DESC\<close> of the latest.
\<close>

record aggregate_row =
  r_bucket_start :: instant
  r_bucket_end :: instant
  r_open :: rat
  r_high :: rat
  r_low :: rat
  r_close :: rat
  r_activity :: int
  r_first_observation :: instant
  r_last_observation :: instant

definition sql_bucket :: "int \<Rightarrow> base_candle \<Rightarrow> instant" where
  "sql_bucket interval r = b_open_time r div (interval * us_per_second) * (interval * us_per_second)"

definition bucketed :: "archive_db \<Rightarrow> string \<Rightarrow> instant \<Rightarrow> instant \<Rightarrow> base_candle list" where
  "bucketed db symbol start effective_end =
     filter (\<lambda>r. b_symbol r = symbol \<and> start \<le> b_open_time r \<and> b_open_time r < effective_end)
       (map snd (candles_1m db))"

definition aggregated :: "int \<Rightarrow> base_candle list \<Rightarrow> instant \<Rightarrow> aggregate_row" where
  "aggregated interval rows bucket =
     (let g = filter (\<lambda>r. sql_bucket interval r = bucket) rows in
      \<lparr>r_bucket_start = bucket, r_bucket_end = bucket + interval * us_per_second,
       r_open = b_open (hd (sort_key b_open_time g)),
       r_high = Max (b_high ` set g), r_low = Min (b_low ` set g),
       r_close = b_close (hd (sort_key (\<lambda>r. - b_open_time r) g)),
       r_activity = sum_list (map b_activity g),
       r_first_observation = Min (b_first_ts ` set g),
       r_last_observation = Max (b_last_ts ` set g)\<rparr>)"

definition select_candles ::
  "archive_db \<Rightarrow> string \<Rightarrow> instant \<Rightarrow> instant \<Rightarrow> int \<Rightarrow> int \<Rightarrow> aggregate_row list" where
  "select_candles db symbol start effective_end interval limit =
     (let rows = bucketed db symbol start effective_end;
          groups = map (aggregated interval rows) (remdups (map (sql_bucket interval) rows))
      in take (nat limit)
           (sort_key (\<lambda>g. - r_bucket_start g) (filter (\<lambda>g. r_bucket_end g \<le> effective_end) groups)))"

definition archive_warnings :: "string list" where
  "archive_warnings =
     [''Candles are aggregated from observed quote prices; trade volume is unavailable.'',
      ''Intervals with no accepted quote observations are omitted.'',
      ''Durable history is stored as canonical one-minute candles and aggregated on read.'']"

definition candle_of_row :: "string \<Rightarrow> timeframe \<Rightarrow> aggregate_row \<Rightarrow> candle" where
  "candle_of_row symbol tf row =
     \<lparr>c_symbol = symbol, c_timeframe = tf, c_open_time = r_bucket_start row, c_close_time = r_bucket_end row,
      c_open = r_open row, c_high = r_high row, c_low = r_low row, c_close = r_close row,
      c_activity = r_activity row, c_first_observation = r_first_observation row,
      c_last_observation = r_last_observation row, c_closed = True\<rparr>"

definition archive_get_candles ::
  "archive \<Rightarrow> int \<Rightarrow> string \<Rightarrow> timeframe \<Rightarrow> int \<Rightarrow> datetime \<Rightarrow> candle_series result" where
  "archive_get_candles a retention symbol tf limit end_at =
     (if \<not> available a then Inl (RuntimeError ''candle archive is not started'')
      else
        let normalized = py_upper symbol in
        bindE (history_window tf limit end_at) (\<lambda>(start, effective_end).
          let rows = select_candles (database a) normalized start effective_end (timeframe_seconds tf) limit in
          bindE (mapE (\<lambda>row. make_candle (candle_of_row normalized tf row)) (rev rows)) (\<lambda>data.
            make_series \<lparr>s_symbol = normalized, s_timeframe = tf, s_requested_limit = limit,
              s_returned_count = int (length data), s_retention_seconds = retention,
              s_period_start = start, s_period_end = effective_end, s_data = data,
              s_warnings = archive_warnings\<rparr>)))"

definition symbol_rows :: "archive_db \<Rightarrow> string \<Rightarrow> base_candle list" where
  "symbol_rows db symbol = filter (\<lambda>r. b_symbol r = symbol) (map snd (candles_1m db))"

subsection \<open>The SQL aggregation is \<open>aggregate_base_candles\<close>\<close>

lemma sort_key_map: "sort_key k (map f xs) = map f (sort_key (\<lambda>x. k (f x)) xs)"
proof (induction xs)
  case (Cons x xs)
  have "insort_key k (f x) (map f ys) = map f (insort_key (\<lambda>x. k (f x)) x ys)" for ys
    by (induction ys) auto
  with Cons show ?case by simp
qed simp

lemma sort_key_minus:
  fixes f :: "'a \<Rightarrow> int"
  assumes "distinct (map f xs)"
  shows "sort_key (\<lambda>x. - f x) xs = rev (sort_key f xs)"
proof (rule sort_key_inj_key_eq)
  show "inj_on (\<lambda>x. - f x) (set xs)" using assms by (auto simp: distinct_map inj_on_def)
  show "sorted (map (\<lambda>x. - f x) (rev (sort_key f xs)))"
    using sorted_sort_key [of f xs] by (simp add: rev_map [symmetric] sorted_wrt_rev sorted_map sorted_wrt_map)
qed simp

lemma sql_bucket_floor:
  assumes "minute_us dvd b_open_time r"
  shows "sql_bucket interval r = bucket_of interval r"
proof -
  from assms obtain k where "b_open_time r = minute_us * k" by (rule dvdE)
  then have t: "b_open_time r = (60 * k) * us_per_second" by simp
  show ?thesis unfolding sql_bucket_def bucket_of_def t floor_utc_whole
    by (simp add: minus_mod_eq_div_mult)
qed

lemma bucketed_symbol_rows:
  "bucketed db symbol start effective_end =
     filter (\<lambda>r. start \<le> b_open_time r \<and> b_open_time r < effective_end) (symbol_rows db symbol)"
  by (simp add: bucketed_def symbol_rows_def conj_commute conj_left_commute)

lemma aggregated_bounds [simp]:
  "r_bucket_start (aggregated interval rows b) = b"
  "r_bucket_end (aggregated interval rows b) = b + interval * us_per_second"
  by (simp_all add: aggregated_def Let_def)

lemma bucketed_group:
  assumes ok: "\<forall>r \<in> set (symbol_rows db symbol). minute_ok r"
    and w: "in_window (timeframe_seconds tf) start effective_end b"
  shows "filter (\<lambda>r. sql_bucket (timeframe_seconds tf) r = b) (bucketed db symbol start effective_end) =
    filter (\<lambda>c. in_window (timeframe_seconds tf) start effective_end (bucket_of (timeframe_seconds tf) c) \<and>
       bucket_of (timeframe_seconds tf) c = b) (symbol_rows db symbol)"
proof -
  have "(start \<le> b_open_time r \<and> b_open_time r < effective_end) \<and> sql_bucket (timeframe_seconds tf) r = b \<longleftrightarrow>
      in_window (timeframe_seconds tf) start effective_end (bucket_of (timeframe_seconds tf) r) \<and>
      bucket_of (timeframe_seconds tf) r = b" if "r \<in> set (symbol_rows db symbol)" for r
  proof -
    have m: "minute_us dvd b_open_time r" using ok that by (simp add: minute_ok_def)
    show ?thesis
      using minute_in_bucket [OF m, of tf] w by (auto simp: sql_bucket_floor [OF m] in_window_def)
  qed
  then show ?thesis
    unfolding bucketed_symbol_rows filter_filter by (rule filter_cong [OF refl])
qed

lemma bucketed_buckets:
  assumes ok: "\<forall>r \<in> set (symbol_rows db symbol). minute_ok r"
    and d: "timeframe_seconds tf * us_per_second dvd start"
  shows "{b \<in> sql_bucket (timeframe_seconds tf) ` set (bucketed db symbol start effective_end).
      b + timeframe_seconds tf * us_per_second \<le> effective_end} =
    window_buckets (timeframe_seconds tf) start effective_end (symbol_rows db symbol)"
proof (intro set_eqI iffI)
  let ?I = "timeframe_seconds tf * us_per_second"
  fix b assume "b \<in> {b \<in> sql_bucket (timeframe_seconds tf) ` set (bucketed db symbol start effective_end).
      b + ?I \<le> effective_end}"
  then obtain r where r: "r \<in> set (symbol_rows db symbol)" "start \<le> b_open_time r"
      "b = sql_bucket (timeframe_seconds tf) r" "b + ?I \<le> effective_end"
    by (auto simp: bucketed_def symbol_rows_def)
  have m: "minute_us dvd b_open_time r" using ok r(1) by (simp add: minute_ok_def)
  have "start div ?I * ?I \<le> b_open_time r div ?I * ?I"
    using r(2) by (intro mult_right_mono zdiv_mono1) (simp_all add: less_imp_le)
  then have "start \<le> b" using d r(3) by (simp add: sql_bucket_def)
  with r sql_bucket_floor [OF m]
  show "b \<in> window_buckets (timeframe_seconds tf) start effective_end (symbol_rows db symbol)"
    by (auto simp: window_buckets_def in_window_def)
next
  let ?I = "timeframe_seconds tf * us_per_second"
  fix b assume "b \<in> window_buckets (timeframe_seconds tf) start effective_end (symbol_rows db symbol)"
  then obtain r where r: "r \<in> set (symbol_rows db symbol)" "b = bucket_of (timeframe_seconds tf) r"
      "start \<le> b" "b + ?I \<le> effective_end"
    by (auto simp: window_buckets_def in_window_def)
  have m: "minute_us dvd b_open_time r" using ok r(1) by (simp add: minute_ok_def)
  have "r \<in> set (bucketed db symbol start effective_end)"
    using r minute_in_bucket [OF m, of tf] by (auto simp: bucketed_def symbol_rows_def)
  then have "sql_bucket (timeframe_seconds tf) r \<in>
      sql_bucket (timeframe_seconds tf) ` set (bucketed db symbol start effective_end)" by (rule imageI)
  with r show "b \<in> {b \<in> sql_bucket (timeframe_seconds tf) ` set (bucketed db symbol start effective_end).
      b + ?I \<le> effective_end}"
    by (simp add: sql_bucket_floor [OF m])
qed

lemma sort_filter_remdups:
  "sort_key (\<lambda>b. - b) (filter P (remdups (xs :: int list))) = rev (sorted_list_of_set {b \<in> set xs. P b})"
proof -
  have "distinct (filter P (remdups xs))" by simp
  then have "sort (filter P (remdups xs)) = sorted_list_of_set (set (filter P (remdups xs)))"
    by (metis sorted_list_of_set_sort_remdups distinct_remdups_id)
  then show ?thesis using sort_key_minus [of "\<lambda>b. b" "filter P (remdups xs)"] by simp
qed

lemma aggregated_rollup:
  assumes ok: "\<forall>r \<in> set (symbol_rows db symbol). minute_ok r"
    and dist: "distinct (map b_open_time (symbol_rows db symbol))"
    and w: "in_window (timeframe_seconds tf) start effective_end b"
  shows "candle_of_row symbol tf (aggregated (timeframe_seconds tf) (bucketed db symbol start effective_end) b) =
    rollup symbol tf b (window_obs (timeframe_seconds tf) start effective_end (symbol_rows db symbol) b)"
proof -
  let ?g = "filter (\<lambda>c. in_window (timeframe_seconds tf) start effective_end (bucket_of (timeframe_seconds tf) c) \<and>
       bucket_of (timeframe_seconds tf) c = b) (symbol_rows db symbol)"
  have obs: "window_obs (timeframe_seconds tf) start effective_end (symbol_rows db symbol) b =
      sort_key b_open_time ?g"
    by (simp add: window_obs_def filter_sort)
  have "distinct (map b_open_time ?g)" using dist by (rule distinct_map_filter)
  from sort_key_minus [OF this] have close: "sort_key (\<lambda>r. - b_open_time r) ?g = rev (sort_key b_open_time ?g)" .
  have "sum_list (map b_activity (sort_key b_open_time ?g)) = sum_list (map b_activity ?g)"
    by (simp flip: sum_mset_sum_list)
  then show ?thesis
    unfolding obs rollup_def candle_of_row_def aggregated_def Let_def bucketed_group [OF ok w] close
    by (simp add: hd_rev last_observation_def)
qed

lemma select_candles_closed:
  assumes ok: "\<forall>r \<in> set (symbol_rows db symbol). minute_ok r"
    and w: "history_window tf limit end_at = Inr (start, effective_end)"
  shows "rev (select_candles db symbol start effective_end (timeframe_seconds tf) limit) =
    map (aggregated (timeframe_seconds tf) (bucketed db symbol start effective_end))
      (series_buckets (timeframe_seconds tf) start effective_end (symbol_rows db symbol))"
proof -
  let ?W = "window_buckets (timeframe_seconds tf) start effective_end (symbol_rows db symbol)"
  let ?rows = "bucketed db symbol start effective_end" and ?i = "timeframe_seconds tf"
  have "sort_key (\<lambda>g. - r_bucket_start g) (filter (\<lambda>g. r_bucket_end g \<le> effective_end)
      (map (aggregated ?i ?rows) (remdups (map (sql_bucket ?i) ?rows)))) =
    map (aggregated ?i ?rows) (sort_key (\<lambda>b. - b)
      (filter (\<lambda>b. b + ?i * us_per_second \<le> effective_end) (remdups (map (sql_bucket ?i) ?rows))))"
    by (simp only: filter_map comp_def sort_key_map aggregated_bounds)
  also have "\<dots> = map (aggregated ?i ?rows) (rev (sorted_list_of_set ?W))"
    using bucketed_buckets [OF ok history_window_dvd [OF w]] by (simp add: sort_filter_remdups)
  finally have "select_candles db symbol start effective_end ?i limit =
      take (nat limit) (map (aggregated ?i ?rows) (rev (sorted_list_of_set ?W)))"
    unfolding select_candles_def Let_def by simp
  moreover have "length (sorted_list_of_set ?W) \<le> nat limit"
    using card_window_buckets [OF w] by simp
  ultimately show ?thesis using series_buckets_all [OF ok] by (simp add: rev_map)
qed

definition with_warnings :: "string list \<Rightarrow> candle_series result \<Rightarrow> candle_series result" where
  "with_warnings ws m = bindE m (\<lambda>s. Inr (s\<lparr>s_warnings := ws\<rparr>))"

lemma make_series_warnings:
  "make_series (s\<lparr>s_warnings := ws\<rparr>) = bindE (make_series s) (\<lambda>s. Inr (s\<lparr>s_warnings := ws\<rparr>))"
  by (auto simp: make_series_def Let_def)

lemma mapE_cong: "(\<And>x. x \<in> set xs \<Longrightarrow> f x = g x) \<Longrightarrow> mapE f xs = mapE g xs"
  by (induction xs) auto

lemma mapE_map: "mapE f (map g xs) = mapE (\<lambda>x. f (g x)) xs"
  by (induction xs) auto

lemma archive_get_candles_eq:
  assumes "available a" "\<forall>r \<in> set (symbol_rows (database a) (py_upper symbol)). minute_ok r"
    and dist: "distinct (map b_open_time (symbol_rows (database a) (py_upper symbol)))"
  shows "archive_get_candles a retention symbol tf limit end_at =
    with_warnings archive_warnings
      (aggregate_base_candles (py_upper symbol) tf limit end_at retention
         (symbol_rows (database a) (py_upper symbol)))"
proof (cases "history_window tf limit end_at")
  case (Inl e)
  with assms(1) show ?thesis
    by (simp add: archive_get_candles_def aggregate_closed_form with_warnings_def Let_def)
next
  case (Inr w)
  then obtain start effective_end where w: "history_window tf limit end_at = Inr (start, effective_end)"
    by (cases w) auto
  let ?S = "py_upper symbol" and ?cs = "symbol_rows (database a) (py_upper symbol)"
  let ?bs = "series_buckets (timeframe_seconds tf) start effective_end ?cs"
  let ?M = "mapE (\<lambda>b. make_candle (rollup ?S tf b (window_obs (timeframe_seconds tf) start effective_end ?cs b))) ?bs"
  have iw: "in_window (timeframe_seconds tf) start effective_end b" if "b \<in> set ?bs" for b
    using that by (simp add: series_buckets_def window_buckets_def)
  have "mapE (\<lambda>row. make_candle (candle_of_row ?S tf row))
      (rev (select_candles (database a) ?S start effective_end (timeframe_seconds tf) limit)) = ?M"
    unfolding select_candles_closed [OF assms(2) w] mapE_map
    by (intro mapE_cong) (simp add: aggregated_rollup [OF assms(2) dist iw])
  moreover have "last_n limit data = data" if "?M = Inr data" for data
    using mapE_make_candle [OF that] length_series_buckets [OF w, of ?cs] by (simp add: last_n_def)
  ultimately show ?thesis using assms(1)
    by (cases ?M) (auto simp: archive_get_candles_def aggregate_closed_form with_warnings_def w Let_def
        make_series_warnings [symmetric])
qed

lemma archive_inv_rows:
  assumes "archive_inv a"
  shows "\<forall>r \<in> set (symbol_rows (database a) s). minute_ok r \<and> row_checks r"
    "distinct (map b_open_time (symbol_rows (database a) s))"
proof -
  let ?rows = "candles_1m (database a)"
  have k: "(b_symbol (snd p), b_open_time (snd p)) = fst p \<and> row_checks (snd p) \<and> minute_ok (snd p)"
    if "p \<in> set ?rows" for p
    using assms that by (cases p) (force simp: archive_inv_def dict_get_in [symmetric])
  then show "\<forall>r \<in> set (symbol_rows (database a) s). minute_ok r \<and> row_checks r"
    by (auto simp: symbol_rows_def)
  have "distinct (map fst ?rows)" using assms by (simp add: archive_inv_def dict_ok_def)
  then have "distinct (map (\<lambda>p. (b_symbol (snd p), b_open_time (snd p))) ?rows)"
    using k by (metis (no_types, lifting) map_cong)
  then have "distinct (map (\<lambda>p. (b_symbol (snd p), b_open_time (snd p))) (filter (\<lambda>p. b_symbol (snd p) = s) ?rows))"
    by (rule distinct_map_filter)
  then show "distinct (map b_open_time (symbol_rows (database a) s))"
    by (auto simp: symbol_rows_def filter_map comp_def distinct_map inj_on_def)
qed

lemma archive_series:
  assumes "archive_inv a"
  shows "archive_get_candles a retention symbol tf limit end_at =
    with_warnings archive_warnings
      (aggregate_base_candles (py_upper symbol) tf limit end_at retention
         (symbol_rows (database a) (py_upper symbol)))"
  using assms archive_inv_rows [OF assms]
  by (intro archive_get_candles_eq) (auto simp: archive_inv_def)

section \<open>The hybrid store\<close>

text \<open>
  \<open>HybridCandleHistoryStore.get_candles\<close> on the outcomes of the two layers, captured by
  \<open>_capture_series\<close>: a layer that raises is recorded and the other one used.
\<close>

definition ceil_timeframe :: "datetime \<Rightarrow> timeframe \<Rightarrow> instant result" where
  "ceil_timeframe v tf =
     bindE (floor_time v (timeframe_seconds tf)) (\<lambda>bucket.
       if bucket < dt_us v then Inr (bucket + timeframe_seconds tf * us_per_second) else Inr bucket)"

definition unique_warnings :: "string list list \<Rightarrow> string list" where
  "unique_warnings groups = py_unique (concat groups)"

definition by_open_time :: "candle list \<Rightarrow> (instant, candle) dict" where
  "by_open_time cs = foldl (\<lambda>d c. dict_set (c_open_time c) c d) [] cs"

fun overlay_hot :: "instant \<Rightarrow> (instant, candle) dict \<Rightarrow> candle list \<Rightarrow> (instant, candle) dict" where
  "overlay_hot authoritative merged [] = merged"
| "overlay_hot authoritative merged (c # cs) =
     overlay_hot authoritative
       (if authoritative \<le> c_open_time c \<or> dict_get merged (c_open_time c) = None
        then dict_set (c_open_time c) c merged else merged) cs"

text \<open>\<open>[merged[key] for key in sorted(merged)]\<close>.\<close>

definition sorted_values :: "(instant, candle) dict \<Rightarrow> candle list" where
  "sorted_values d = map (\<lambda>k. the (dict_get d k)) (sort (dict_keys d))"

definition merge_series ::
  "instant \<Rightarrow> int \<Rightarrow> timeframe \<Rightarrow> int \<Rightarrow> candle_series \<Rightarrow> candle_series \<Rightarrow> candle_series result" where
  "merge_series authoritative retention tf limit hot arch =
     (let data = last_n limit (sorted_values (overlay_hot authoritative (by_open_time (s_data arch)) (s_data hot)))
      in make_series \<lparr>s_symbol = s_symbol arch, s_timeframe = tf, s_requested_limit = limit,
           s_returned_count = int (length data), s_retention_seconds = retention,
           s_period_start = s_period_start arch, s_period_end = s_period_end arch, s_data = data,
           s_warnings = unique_warnings [s_warnings arch, s_warnings hot,
             [''Complete recent buckets are overlaid from the Redis hot layer.'']]\<rparr>)"

definition hybrid_get_candles ::
  "candle_series result \<Rightarrow> candle_series result option \<Rightarrow> instant \<Rightarrow> int \<Rightarrow> int \<Rightarrow> timeframe \<Rightarrow> int \<Rightarrow>
   candle_series result" where
  "hybrid_get_candles hot arch now hot_retention archive_retention tf limit =
     (case arch of
        None \<Rightarrow> hot
      | Some arch_result \<Rightarrow>
          (case (hot, arch_result) of
             (Inl hot_error, Inl _) \<Rightarrow> Inl hot_error
           | (Inr h, Inl _) \<Rightarrow> Inr (h\<lparr>s_warnings := unique_warnings [s_warnings h,
               [''Durable archive was unavailable; this response contains Redis hot history only.'']]\<rparr>)
           | (Inl _, Inr a) \<Rightarrow> Inr (a\<lparr>s_warnings := unique_warnings [s_warnings a,
               [''Redis hot history was unavailable; this response contains durable archive data only.'']]\<rparr>)
           | (Inr h, Inr a) \<Rightarrow>
               bindE (ceil_timeframe (utc_datetime (now - hot_retention * us_per_second)) tf)
                 (\<lambda>authoritative. merge_series authoritative archive_retention tf limit h a)))"

subsection \<open>Merging\<close>

definition candle_in :: "candle list \<Rightarrow> instant \<Rightarrow> candle option" where
  "candle_in cs k = find (\<lambda>c. c_open_time c = k) cs"

lemma candle_in_Some:
  "distinct (map c_open_time cs) \<Longrightarrow> candle_in cs k = Some c \<longleftrightarrow> c \<in> set cs \<and> c_open_time c = k"
  by (induction cs) (auto simp: candle_in_def)

lemma candle_in_None: "candle_in cs k = None \<longleftrightarrow> k \<notin> c_open_time ` set cs"
  by (auto simp: candle_in_def find_None_iff)

lemma by_open_time_get:
  assumes "distinct (map c_open_time cs)"
  shows "dict_get (by_open_time cs) k = candle_in cs k"
proof -
  have "dict_get (foldl (\<lambda>d c. dict_set (c_open_time c) c d) d cs) k =
      (case candle_in cs k of None \<Rightarrow> dict_get d k | Some c \<Rightarrow> Some c)" for d
    using assms
  proof (induction cs arbitrary: d)
    case (Cons c cs)
    then have "candle_in cs (c_open_time c) = None" by (simp add: candle_in_None)
    with Cons show ?case by (auto simp: candle_in_def dict_simps split: option.splits)
  qed (simp add: candle_in_def)
  then show ?thesis by (simp add: by_open_time_def split: option.splits)
qed

lemma overlay_hot_get:
  assumes "distinct (map c_open_time cs)"
  shows "dict_get (overlay_hot authoritative d cs) k =
    (case candle_in cs k of
       None \<Rightarrow> dict_get d k
     | Some c \<Rightarrow> if authoritative \<le> k \<or> dict_get d k = None then Some c else dict_get d k)"
  using assms
proof (induction cs arbitrary: d)
  case (Cons c cs)
  then have "candle_in cs (c_open_time c) = None" by (simp add: candle_in_None)
  with Cons show ?case by (auto simp: candle_in_def dict_simps split: option.splits)
qed (simp add: candle_in_def)

lemma overlay_hot_ok: "dict_ok d \<Longrightarrow> dict_ok (overlay_hot authoritative d cs)"
  by (induction authoritative d cs rule: overlay_hot.induct) auto

lemma by_open_time_ok: "dict_ok (by_open_time cs)"
proof -
  have "dict_ok (foldl (\<lambda>d c. dict_set (c_open_time c) c d) d cs)" if "dict_ok d" for d
    using that by (induction cs arbitrary: d) auto
  then show ?thesis by (simp add: by_open_time_def)
qed

text \<open>The merge rule: which layer a bucket is taken from.\<close>

definition merged_candle :: "instant \<Rightarrow> candle list \<Rightarrow> candle list \<Rightarrow> instant \<Rightarrow> candle option" where
  "merged_candle authoritative hot arch k =
     (case candle_in hot k of
        None \<Rightarrow> candle_in arch k
      | Some c \<Rightarrow> if authoritative \<le> k \<or> candle_in arch k = None then Some c else candle_in arch k)"

lemma merged_candle_cases:
  "merged_candle authoritative hot arch k = Some c \<longleftrightarrow>
     candle_in hot k = Some c \<and> (authoritative \<le> k \<or> candle_in arch k = None) \<or>
     candle_in arch k = Some c \<and> (candle_in hot k = None \<or> k < authoritative)"
  by (auto simp: merged_candle_def split: option.splits)

lemma merged_values:
  fixes authoritative :: instant
  assumes "distinct (map c_open_time hot)" "distinct (map c_open_time arch)"
  defines "vs \<equiv> sorted_values (overlay_hot authoritative (by_open_time arch) hot)"
  shows "sorted_wrt (<) (map c_open_time vs)"
    and "c \<in> set vs \<longleftrightarrow> merged_candle authoritative hot arch (c_open_time c) = Some c"
proof -
  let ?d = "overlay_hot authoritative (by_open_time arch) hot"
  have get: "dict_get ?d k = merged_candle authoritative hot arch k" for k
    by (auto simp: overlay_hot_get assms by_open_time_get merged_candle_def split: option.splits)
  have key: "c_open_time v = k" if "dict_get ?d k = Some v" for k v
    using that assms(1,2) by (auto simp: get merged_candle_cases candle_in_Some)
  have in_keys: "k \<in> set (dict_keys ?d) \<longleftrightarrow> dict_get ?d k \<noteq> None" for k
    by (simp add: dict_get_None)
  have "map c_open_time vs = sort (dict_keys ?d)"
    unfolding vs_def sorted_values_def map_map
    by (rule map_idI) (auto simp: in_keys dest: key)
  moreover have "distinct (dict_keys ?d)"
    using overlay_hot_ok [OF by_open_time_ok] by (simp add: dict_ok_def dict_keys_def)
  ultimately show "sorted_wrt (<) (map c_open_time vs)" by (simp add: strict_sorted_iff)
  show "c \<in> set vs \<longleftrightarrow> merged_candle authoritative hot arch (c_open_time c) = Some c"
  proof
    assume "c \<in> set vs"
    then obtain k where k: "k \<in> set (dict_keys ?d)" "c = the (dict_get ?d k)"
      by (auto simp: vs_def sorted_values_def)
    then have "dict_get ?d k = Some c" by (auto simp: in_keys)
    with key [OF this] show "merged_candle authoritative hot arch (c_open_time c) = Some c"
      by (simp add: get)
  next
    assume "merged_candle authoritative hot arch (c_open_time c) = Some c"
    then have "c_open_time c \<in> set (dict_keys ?d)" "the (dict_get ?d (c_open_time c)) = c"
      by (simp_all add: in_keys get)
    then show "c \<in> set vs" by (force simp: vs_def sorted_values_def)
  qed
qed

lemma series_exact_covers:
  assumes "series_exact tf start effective_end cs qs"
    and "in_window (timeframe_seconds tf) start effective_end b"
  shows "candle_in cs b = None \<longleftrightarrow> bucket_quotes qs (timeframe_seconds tf) b = []"
proof
  assume "candle_in cs b = None"
  then show "bucket_quotes qs (timeframe_seconds tf) b = []"
    using assms by (auto simp: series_exact_def candle_in_None bucket_quotes_def filter_empty_conv)
next
  assume "bucket_quotes qs (timeframe_seconds tf) b = []"
  then show "candle_in cs b = None"
    using assms(1) by (auto simp: series_exact_def candle_in_None series_summarises_def)
qed

text \<open>
  The hot layer is complete from \<open>authoritative\<close> on and the archive before it; both hold only
  accepted quotes.  Then the merge is exact for all of them.
\<close>

lemma merged_exact:
  fixes authoritative :: instant
  assumes hot: "series_exact tf start effective_end hot qh" and arch: "series_exact tf start effective_end arch qa"
    and recent: "\<And>b. authoritative \<le> b \<Longrightarrow> bucket_quotes qh (timeframe_seconds tf) b = bucket_quotes qs (timeframe_seconds tf) b"
    and old: "\<And>b. b < authoritative \<Longrightarrow> bucket_quotes qa (timeframe_seconds tf) b = bucket_quotes qs (timeframe_seconds tf) b"
    and sub: "set qh \<subseteq> set qs" "set qa \<subseteq> set qs"
  shows "series_exact tf start effective_end
    (sorted_values (overlay_hot authoritative (by_open_time arch) hot)) qs"
proof -
  let ?vs = "sorted_values (overlay_hot authoritative (by_open_time arch) hot)"
  let ?q = "\<lambda>qs b. bucket_quotes qs (timeframe_seconds tf) b"
  have dh: "distinct (map c_open_time hot)" and da: "distinct (map c_open_time arch)"
    using hot arch by (auto simp: series_exact_def intro!: sorted_strict_distinct)
  note vs = merged_values [OF dh da]
  have empty: "?q qh b = []" "?q qa b = []" if "?q qs b = []" for b
    using that sub by (auto simp: bucket_quotes_def filter_empty_conv)
  have 1: "in_window (timeframe_seconds tf) start effective_end (c_open_time c) \<and>
        timeframe_seconds tf * us_per_second dvd c_open_time c \<and>
        series_summarises c (?q qs (c_open_time c))" if "c \<in> set ?vs" for c
  proof -
    let ?k = "c_open_time c"
    from that have "merged_candle authoritative hot arch ?k = Some c" by (simp add: vs)
    then consider (hot) "c \<in> set hot" "authoritative \<le> ?k \<or> candle_in arch ?k = None"
      | (arch) "c \<in> set arch" "candle_in hot ?k = None \<or> ?k < authoritative"
      by (auto simp: merged_candle_cases candle_in_Some dh da)
    then show ?thesis
    proof cases
      case h: hot
      then have c: "in_window (timeframe_seconds tf) start effective_end ?k"
          "timeframe_seconds tf * us_per_second dvd ?k" "series_summarises c (?q qh ?k)"
        using hot by (auto simp: series_exact_def)
      have "authoritative \<le> ?k"
      proof (rule ccontr)
        assume "\<not> authoritative \<le> ?k"
        with h have "?q qs ?k = []"
          using series_exact_covers [OF arch c(1)] old by simp
        with c(3) empty show False by (simp add: series_summarises_def)
      qed
      with c recent show ?thesis by simp
    next
      case a: arch
      then have c: "in_window (timeframe_seconds tf) start effective_end ?k"
          "timeframe_seconds tf * us_per_second dvd ?k" "series_summarises c (?q qa ?k)"
        using arch by (auto simp: series_exact_def)
      have "?k < authoritative"
      proof (rule ccontr)
        assume n: "\<not> ?k < authoritative"
        with a have "?q qs ?k = []"
          using series_exact_covers [OF hot c(1)] recent by simp
        with c(3) empty show False by (simp add: series_summarises_def)
      qed
      with c old show ?thesis by simp
    qed
  qed
  have 2: "b \<in> c_open_time ` set ?vs"
    if w: "in_window (timeframe_seconds tf) start effective_end b" and ne: "?q qs b \<noteq> []" for b
  proof -
    have "\<exists>c. merged_candle authoritative hot arch b = Some c"
      using ne recent [of b] old [of b] series_exact_covers [OF hot w] series_exact_covers [OF arch w]
      by (cases "authoritative \<le> b") (auto simp: merged_candle_def split: option.splits)
    then obtain c where c: "merged_candle authoritative hot arch b = Some c" ..
    then have "c_open_time c = b" by (auto simp: merged_candle_cases candle_in_Some dh da)
    with c show ?thesis using vs(2) [of c] by force
  qed
  have "?q qs (floor_utc (event_ts e) (timeframe_seconds tf)) \<noteq> []" if "e \<in> set qs" for e
    using that by (auto simp: bucket_quotes_def filter_empty_conv)
  with 1 2 vs(1) show ?thesis by (simp add: series_exact_def)
qed

section \<open>Properties\<close>

text \<open>The SQL upsert of an accepted event leaves exactly the row that \<open>BaseMinuteCandle.with_quote\<close>
  computes in Python, although SQL compares UUID values and Python their text.\<close>

theorem upsert_equals_with_quote:
  assumes "with_quote c e = Inr c'"
  shows "updated_row c (inserted_row (q_event_id e) (event_ts e) (q_symbol e) (minute_of e) (q_price e)) = c'"
  using assms updated_row_with_quote [OF with_quote_Inr [OF assms]]
  by (simp add: minute_of_def inserted_row_from_quote)

text \<open>\<open>persist_event\<close> accepts an event exactly once: a new event is reported as stored and its
  identifier remembered, the redelivery of a stored event is reported as a duplicate and changes nothing.\<close>

theorem persist_event_once:
  assumes "archive_inv a" "archivable e"
  shows "\<exists>a'. persist_event a e = Inr (q_event_id e \<notin> archived_ids a, a') \<and> archive_inv a' \<and>
    archived_ids a' = insert (q_event_id e) (archived_ids a) \<and> persist_event a' e = Inr (False, a')"
proof -
  let ?a' = "archive_store a e"
  have p: "persist_event a e = Inr (unarchived a e, ?a')"
    using persist_event_cases [OF assms] by (simp add: archive_store_def)
  have i: "archive_inv ?a'" using assms by (rule pg.inv_store)
  have ids: "archived_ids ?a' = insert (q_event_id e) (archived_ids a)" using assms by (rule pg.ids_store)
  then have "\<not> unarchived ?a' e" using pg.fresh_ids [OF i] by simp
  then have "persist_event ?a' e = Inr (False, ?a')" using persist_event_cases [OF i assms(2)] by simp
  with p i ids pg.fresh_ids [OF assms(1)] show ?thesis by auto
qed

text \<open>At-least-once delivery gives exactly-once candles: after any sequence of deliveries, duplicates
  included, into an empty archive, the candle of every minute summarises the distinct events of that
  minute, and every delivered event is inside one.\<close>

theorem archive_exactly_once:
  assumes "available a" "database a = \<lparr>events = [], candles_1m = []\<rparr>" "\<forall>e \<in> set es. archivable e"
  shows "(\<forall>sy t c. archived_candle (foldl archive_store a es) sy t = Some c \<longrightarrow>
      summarises c (filter (in_bucket sy t) (first_occurrences {} es))) \<and>
    (\<forall>e \<in> set (first_occurrences {} es). archived_candle (foldl archive_store a es) (q_symbol e) (minute_of e) \<noteq> None)"
proof -
  have i: "archive_inv a" and ids: "archived_ids a = {}"
    using assms by (simp_all add: archive_inv_def archived_ids_def dict_keys_def)
  have "pg.holds a []" using assms(2) by (simp add: pg.holds_def archived_candle_def)
  from pg.holds_store_all [OF i assms(3) this] pg.accepted_first [OF i assms(3)] ids
  have "pg.holds (foldl archive_store a es) (first_occurrences {} es)" by simp
  then show ?thesis using pg.holds_candle pg.holds_present by blast
qed

text \<open>The archive converges: two delivery sequences of the same events, in any order and with any
  duplicates, leave the same candles.\<close>

theorem archive_convergence:
  assumes "available a" "database a = \<lparr>events = [], candles_1m = []\<rparr>" "\<forall>e \<in> set es. archivable e"
    "set es = set fs" "inj_on q_event_id (set es)"
  shows "archived_candle (foldl archive_store a es) sy t = archived_candle (foldl archive_store a fs) sy t"
proof (rule pg.convergence [OF _ _ _ assms(3-5)])
  show "archive_inv a" "archived_ids a = {}"
    using assms by (simp_all add: archive_inv_def archived_ids_def dict_keys_def)
  show "pg.holds a []" using assms(2) by (simp add: pg.holds_def archived_candle_def)
qed

text \<open>C5: reading candles from the archive with one SQL aggregation gives the series that
  \<open>aggregate_base_candles\<close> computes in Python from the same minute candles, errors included, with the
  archive's own warnings.\<close>

theorem archive_series_equivalence:
  assumes "archive_inv a"
  shows "archive_get_candles a retention symbol tf limit end_at =
    with_warnings archive_warnings
      (aggregate_base_candles (py_upper symbol) tf limit end_at retention
         (symbol_rows (database a) (py_upper symbol)))"
  using assms by (rule archive_series)

text \<open>C6: the hybrid store is exact when the hot layer is complete from the authoritative start on and
  the archive before it: the merged series summarises every accepted quote of its window.\<close>

theorem hybrid_exact:
  assumes a: "archive_inv a"
    and h: "aggregate_base_candles (py_upper symbol) tf limit end_at hot_retention hot_rows = Inr h"
    and g: "archive_get_candles a retention symbol tf limit end_at = Inr g"
    and auth: "ceil_timeframe (utc_datetime (now - hot_retention * us_per_second)) tf = Inr authoritative"
    and rep: "represents hot_rows qh" "represents (symbol_rows (database a) (py_upper symbol)) qa"
    and recent: "\<And>b. authoritative \<le> b \<Longrightarrow> bucket_quotes qh (timeframe_seconds tf) b = bucket_quotes qs (timeframe_seconds tf) b"
    and old: "\<And>b. b < authoritative \<Longrightarrow> bucket_quotes qa (timeframe_seconds tf) b = bucket_quotes qs (timeframe_seconds tf) b"
    and sub: "set qh \<subseteq> set qs" "set qa \<subseteq> set qs"
  shows "\<exists>s. hybrid_get_candles (Inr h) (Some (Inr g)) now hot_retention retention tf limit = Inr s \<and>
    series_exact tf (s_period_start s) (dt_us end_at) (s_data s) qs"
proof -
  let ?cs = "symbol_rows (database a) (py_upper symbol)"
  let ?vs = "sorted_values (overlay_hot authoritative (by_open_time (s_data g)) (s_data h))"
  obtain g0 where g0: "aggregate_base_candles (py_upper symbol) tf limit end_at retention ?cs = Inr g0"
      "g = g0\<lparr>s_warnings := archive_warnings\<rparr>"
    using g archive_series [OF a] by (auto simp: with_warnings_def bindE_eq_Inr)
  note wh = aggregate_data(1) [OF h] and wg = aggregate_data(1) [OF g0(1)]
  have ps: "s_period_start g0 = s_period_start h" "s_period_end g0 = dt_us end_at"
    using wh wg history_window_Inr(1) [OF wg] by auto
  have "series_exact tf (s_period_start h) (dt_us end_at) (s_data h) qh"
    using aggregate_exact [OF h rep(1)] .
  moreover have "series_exact tf (s_period_start h) (dt_us end_at) (s_data g) qa"
    using aggregate_exact [OF g0(1) rep(2)] ps g0(2) by simp
  ultimately have ex: "series_exact tf (s_period_start h) (dt_us end_at) ?vs qs"
    using recent old sub by (rule merged_exact)
  have "length ?vs \<le> nat limit"
    using series_exact_length [OF _ ex] wg ps by simp
  then have n: "last_n limit ?vs = ?vs" by (simp add: last_n_def)
  have "make_series g0 = Inr g0" "s_symbol g0 = py_upper symbol" "s_requested_limit g0 = limit"
      "s_retention_seconds g0 = retention"
    using g0(1) by (auto simp: aggregate_closed_form bindE_eq_Inr make_series_def Let_def split: if_splits)
  then have "symbol_ok (py_upper symbol)" "1 \<le> limit" "limit \<le> 1000" "0 < retention"
    by (auto simp: make_series_def field_errors_def Let_def split: if_splits)
  moreover have "s_symbol g = py_upper symbol" "s_period_start g = s_period_start h"
    using g0(2) ps \<open>s_symbol g0 = py_upper symbol\<close> by simp_all
  ultimately show ?thesis using ex
    by (simp add: hybrid_get_candles_def auth merge_series_def n make_series_def field_errors_def Let_def)
qed

text \<open>The hybrid store degrades layer by layer: with one layer down it answers with the data of the
  other and says so in a warning, and it fails only when both do, with the hot layer's error.\<close>

theorem hybrid_degrades:
  "hybrid_get_candles hot None now hr ar tf limit = hot \<and>
   hybrid_get_candles (Inl e) (Some (Inl e')) now hr ar tf limit = Inl e \<and>
   (\<exists>s. hybrid_get_candles (Inr h) (Some (Inl e')) now hr ar tf limit = Inr s \<and> s_data s = s_data h \<and>
     ''Durable archive was unavailable; this response contains Redis hot history only.'' \<in> set (s_warnings s) \<and>
     set (s_warnings h) \<subseteq> set (s_warnings s)) \<and>
   (\<exists>s. hybrid_get_candles (Inl e) (Some (Inr g)) now hr ar tf limit = Inr s \<and> s_data s = s_data g \<and>
     ''Redis hot history was unavailable; this response contains durable archive data only.'' \<in> set (s_warnings s) \<and>
     set (s_warnings g) \<subseteq> set (s_warnings s))"
  by (auto simp: hybrid_get_candles_def unique_warnings_def)

section \<open>Witnesses\<close>

definition empty_archive :: archive where
  "empty_archive = \<lparr>available = True, timescale_enabled = False, database = \<lparr>events = [], candles_1m = []\<rparr>\<rparr>"

definition sample_deliveries :: "quote_event list" where
  "sample_deliveries = sample_quotes @ [sample_quote 1 9 61000000]"

lemma empty_archive_inv: "archive_inv empty_archive" "available empty_archive"
  "database empty_archive = \<lparr>events = [], candles_1m = []\<rparr>"
  by (simp_all add: archive_inv_def empty_archive_def)

lemma sample_archivable: "archivable (sample_quote i p t) \<longleftrightarrow> 0 < p"
  by (simp add: archivable_def sample_quote_def)

lemma sample_deliveries_archivable: "\<forall>e \<in> set sample_deliveries. archivable e"
  by (simp add: sample_deliveries_def sample_quotes_def sample_archivable)

theorem upsert_equals_with_quote_witness:
  "updated_row (from_quote (sample_quote 3 12 65000000))
     (inserted_row 1 61000000 ''AAPL'' 60000000 9) =
   \<lparr>b_symbol = ''AAPL'', b_open_time = 60000000, b_open = 9, b_high = 12, b_low = 9, b_close = 12,
    b_activity = 2, b_first_ts = 61000000, b_last_ts = 65000000, b_first_id = 1, b_last_id = 3\<rparr>"
proof -
  have w: "with_quote (from_quote (sample_quote 3 12 65000000)) (sample_quote 1 9 61000000) =
      Inr \<lparr>b_symbol = ''AAPL'', b_open_time = 60000000, b_open = 9, b_high = 12, b_low = 9, b_close = 12,
        b_activity = 2, b_first_ts = 61000000, b_last_ts = 65000000, b_first_id = 1, b_last_id = 3\<rparr>"
    by (simp add: from_quote_def with_quote_def event_key_def first_key_def last_key_def uuid_str_less
        floor_utc_def trunc_seconds_def)
  show ?thesis using upsert_equals_with_quote [OF w]
    by (simp add: minute_of_def floor_utc_def trunc_seconds_def)
qed

theorem persist_event_once_witness:
  "\<exists>a'. persist_event empty_archive (sample_quote 1 9 61000000) = Inr (True, a') \<and>
     persist_event a' (sample_quote 1 9 61000000) = Inr (False, a')"
  using persist_event_once [OF empty_archive_inv(1), of "sample_quote 1 9 61000000"]
  by (auto simp: sample_archivable archived_ids_def empty_archive_def dict_keys_def)

theorem archive_exactly_once_witness:
  "\<exists>c. archived_candle (foldl archive_store empty_archive sample_deliveries) ''AAPL'' 60000000 = Some c \<and>
     summarises c sample_quotes"
proof -
  have f: "first_occurrences {} sample_deliveries = sample_quotes"
    by (simp add: sample_deliveries_def sample_quotes_def)
  have e: "sample_quote 1 9 61000000 \<in> set sample_quotes" by (simp add: sample_quotes_def)
  have m: "minute_of (sample_quote 1 9 61000000) = 60000000"
    by (simp add: minute_of_def floor_utc_def trunc_seconds_def)
  have all: "filter (in_bucket ''AAPL'' 60000000) sample_quotes = sample_quotes"
    using sample_quotes_bucket by (intro filter_True) auto
  note t = archive_exactly_once [OF empty_archive_inv(2,3) sample_deliveries_archivable, unfolded f]
  obtain c where c: "archived_candle (foldl archive_store empty_archive sample_deliveries) ''AAPL'' 60000000 = Some c"
    using t e m by fastforce
  with t all show ?thesis by metis
qed

theorem archive_convergence_witness:
  "sample_deliveries \<noteq> rev sample_quotes \<and>
   archived_candle (foldl archive_store empty_archive sample_deliveries) ''AAPL'' 60000000 =
   archived_candle (foldl archive_store empty_archive (rev sample_quotes)) ''AAPL'' 60000000"
proof
  show "sample_deliveries \<noteq> rev sample_quotes" by (simp add: sample_deliveries_def sample_quotes_def)
  have "set sample_deliveries = set (rev sample_quotes)" "inj_on q_event_id (set sample_deliveries)"
    by (auto simp: sample_deliveries_def sample_quotes_def)
  then show "archived_candle (foldl archive_store empty_archive sample_deliveries) ''AAPL'' 60000000 =
      archived_candle (foldl archive_store empty_archive (rev sample_quotes)) ''AAPL'' 60000000"
    by (rule archive_convergence [OF empty_archive_inv(2,3) sample_deliveries_archivable])
qed

definition sample_archive :: archive where
  "sample_archive = \<lparr>available = True, timescale_enabled = False,
     database = \<lparr>events = [(1, 61000000), (2, 61000000), (3, 65000000)],
       candles_1m = [((''AAPL'', 60000000), sample_candle)]\<rparr>\<rparr>"

lemma sample_archive_inv: "archive_inv sample_archive"
  by (auto simp: archive_inv_def sample_archive_def sample_candle_def row_checks_def minute_ok_def dict_ok_def)

lemma sample_archive_rows: "symbol_rows (database sample_archive) ''AAPL'' = [sample_candle]"
  by (simp add: symbol_rows_def sample_archive_def sample_candle_def)

lemma sample_upper: "py_upper ''aapl'' = ''AAPL''"
  by code_simp

theorem archive_series_equivalence_witness:
  "archive_get_candles sample_archive 3600 ''aapl'' TF_1m 2 (utc_datetime 180000000) =
   Inr (sample_series\<lparr>s_warnings := archive_warnings\<rparr>)"
  using archive_series_equivalence [OF sample_archive_inv, of 3600 "''aapl''" TF_1m 2 "utc_datetime 180000000"]
  by (simp add: sample_upper sample_archive_rows sample_aggregate with_warnings_def)

theorem hybrid_exact_witness:
  "\<exists>s. hybrid_get_candles (Inr sample_series) (Some (Inr (sample_series\<lparr>s_warnings := archive_warnings\<rparr>)))
      200000000 3600 3600 TF_1m 2 = Inr s \<and>
    series_exact TF_1m (s_period_start s) 180000000 (s_data s) sample_quotes"
proof -
  have g: "archive_get_candles sample_archive 3600 ''aapl'' TF_1m 2 (utc_datetime 180000000) =
      Inr (sample_series\<lparr>s_warnings := archive_warnings\<rparr>)"
    by (simp add: archive_series [OF sample_archive_inv] sample_upper sample_archive_rows sample_aggregate
        with_warnings_def)
  have c: "ceil_timeframe (utc_datetime (200000000 - 3600 * us_per_second)) TF_1m = Inr (- 3360000000)"
    by code_simp
  show ?thesis
    using hybrid_exact [OF sample_archive_inv, of "''aapl''" TF_1m 2 "utc_datetime 180000000" 3600 "[sample_candle]"
        sample_series 3600 _ 200000000 _ sample_quotes sample_quotes sample_quotes, unfolded sample_upper,
        OF sample_aggregate g [unfolded sample_upper] c sample_represents]
    by (simp add: sample_archive_rows sample_represents)
qed

end
