(* ===== verification/Bounded_Buffer.thy ===== *)
theory Bounded_Buffer
  imports Prelude
begin

text \<open>
  The contract shared by the gateway's lossy bounded buffers, as the locale \<open>bounded_buffer\<close>: an
  offer never blocks and never exceeds the capacity, at the price of losing (coalescing, evicting or
  dropping) elements, and every loss is counted.  \<open>LatestValueBuffer\<close> (\<open>qos.py\<close>) and the usage
  queue (\<open>usage.py\<close>) provide it.
\<close>

datatype ('a, 't) buffer_op = Offer 'a | Take 't

text \<open>Running a sequence of operations; the count is of the elements taken.\<close>

fun run_ops :: "('b \<Rightarrow> 'a \<Rightarrow> 'b) \<Rightarrow> ('t \<Rightarrow> 'b \<Rightarrow> 'b option) \<Rightarrow> 'b \<Rightarrow> ('a, 't) buffer_op list \<Rightarrow> 'b \<times> nat" where
  "run_ops offer take1 b [] = (b, 0)"
| "run_ops offer take1 b (Offer x # ops) = run_ops offer take1 (offer b x) ops"
| "run_ops offer take1 b (Take t # ops) =
     (case take1 t b of None \<Rightarrow> run_ops offer take1 b ops
      | Some b' \<Rightarrow> (let (b'', n) = run_ops offer take1 b' ops in (b'', Suc n)))"

fun offers :: "('a, 't) buffer_op list \<Rightarrow> nat" where
  "offers [] = 0"
| "offers (Offer x # ops) = Suc (offers ops)"
| "offers (Take t # ops) = offers ops"

locale bounded_buffer =
  fixes offer :: "'b \<Rightarrow> 'a \<Rightarrow> 'b"
    and take_one :: "'t \<Rightarrow> 'b \<Rightarrow> 'b option"
    and depth :: "'b \<Rightarrow> nat"
    and lost :: "'b \<Rightarrow> nat"
    and capacity :: "'b \<Rightarrow> nat"
    and inv :: "'b \<Rightarrow> bool"
    and ok :: "'a \<Rightarrow> bool"
  assumes bounded: "inv b \<Longrightarrow> depth b \<le> capacity b"
    and inv_offer: "inv b \<Longrightarrow> ok x \<Longrightarrow> inv (offer b x)"
    and inv_take: "inv b \<Longrightarrow> take_one t b = Some b' \<Longrightarrow> inv b'"
    and capacity_offer: "inv b \<Longrightarrow> ok x \<Longrightarrow> capacity (offer b x) = capacity b"
    and capacity_take: "inv b \<Longrightarrow> take_one t b = Some b' \<Longrightarrow> capacity b' = capacity b"
    and account_offer: "inv b \<Longrightarrow> ok x \<Longrightarrow> depth (offer b x) + lost (offer b x) = Suc (depth b + lost b)"
    and account_take: "inv b \<Longrightarrow> take_one t b = Some b' \<Longrightarrow> Suc (depth b' + lost b') = depth b + lost b"
begin

definition ops_ok :: "('a, 't) buffer_op list \<Rightarrow> bool" where
  "ops_ok ops \<longleftrightarrow> (\<forall>x. Offer x \<in> set ops \<longrightarrow> ok x)"

text \<open>Nothing is lost silently, and the bound holds after every operation.\<close>

lemma run_ops_account:
  assumes "inv b" "ops_ok ops" "run_ops offer take_one b ops = (b', taken)"
  shows "inv b' \<and> depth b' \<le> capacity b \<and> capacity b' = capacity b \<and>
    depth b' + lost b' + taken = depth b + lost b + offers ops"
  using assms
proof (induction ops arbitrary: b taken rule: offers.induct)
  case 1
  then show ?case by (simp add: bounded)
next
  case (2 x ops)
  then have "ok x" "ops_ok ops" by (auto simp: ops_ok_def)
  with 2 have "inv b' \<and> depth b' \<le> capacity (offer b x) \<and> capacity b' = capacity (offer b x) \<and>
      depth b' + lost b' + taken = depth (offer b x) + lost (offer b x) + offers ops"
    by (intro "2.IH") (auto intro: inv_offer)
  with 2 \<open>ok x\<close> show ?case by (simp add: capacity_offer account_offer)
next
  case (3 t ops)
  then have "ops_ok ops" by (auto simp: ops_ok_def)
  show ?case
  proof (cases "take_one t b")
    case None
    with 3 \<open>ops_ok ops\<close> show ?thesis by simp
  next
    case (Some c)
    then obtain n where n: "run_ops offer take_one c ops = (b', n)" "taken = Suc n"
      using 3 by (auto split: prod.splits)
    have "inv c" using 3 Some by (simp add: inv_take)
    then have "inv b' \<and> depth b' \<le> capacity c \<and> capacity b' = capacity c \<and>
        depth b' + lost b' + n = depth c + lost c + offers ops"
      using \<open>ops_ok ops\<close> n(1) by (rule "3.IH")
    with 3 Some n show ?thesis using account_take [of b t c] by (simp add: capacity_take)
  qed
qed

end

end
