(* ===== verification/QoS.thy ===== *)
theory QoS
  imports Models Bounded_Buffer
begin

text \<open>
  Service quality, \<open>qos.py\<close> with the tier policies of \<open>config.py\<close>: the per-tier limits, the
  latest-value buffer of a client session and the connection hub that indexes sessions by symbol.
  The buffer is an interpretation of \<open>bounded_buffer\<close>.  The hub is a state machine whose steps
  are the critical sections of its lock, so that its invariant holds under every interleaving;
  \<open>publish\<close> is a snapshot step followed by one delivery step per session.
  Prometheus counters are output only and left out.
\<close>

section \<open>Tier policies\<close>

record tier_policy =
  max_symbols :: int
  max_connections :: int
  updates_per_second :: rat
  rest_requests_per_minute :: int
  subscription_ops_per_minute :: int
  market_depth :: string
  historical_data :: bool

definition default_tier_policies :: "(string, tier_policy) dict" where
  "default_tier_policies =
     [(''basic'', \<lparr>max_symbols = 20, max_connections = 2, updates_per_second = 1,
        rest_requests_per_minute = 120, subscription_ops_per_minute = 60,
        market_depth = ''top'', historical_data = False\<rparr>),
      (''pro'', \<lparr>max_symbols = 100, max_connections = 5, updates_per_second = 5,
        rest_requests_per_minute = 600, subscription_ops_per_minute = 300,
        market_depth = ''limited'', historical_data = True\<rparr>),
      (''premium'', \<lparr>max_symbols = 500, max_connections = 20, updates_per_second = 10,
        rest_requests_per_minute = 3000, subscription_ops_per_minute = 1200,
        market_depth = ''extended'', historical_data = True\<rparr>)]"

definition policy_for :: "(string, tier_policy) dict \<Rightarrow> service_tier \<Rightarrow> tier_policy result" where
  "policy_for policies tier =
     (case dict_get policies (tier_value tier) of
        None \<Rightarrow> Inl (KeyError (tier_value tier))
      | Some p \<Rightarrow> Inr p)"

definition validate_symbol_count :: "(string, tier_policy) dict \<Rightarrow> service_tier \<Rightarrow> int \<Rightarrow> unit result" where
  "validate_symbol_count policies tier count =
     bindE (policy_for policies tier) (\<lambda>policy.
       if max_symbols policy < count
       then Inl (ValueError (''symbol limit exceeded: '' @ string_of_int count @ '' > '' @
              string_of_int (max_symbols policy)))
       else Inr ())"

definition delivery_interval :: "(string, tier_policy) dict \<Rightarrow> service_tier \<Rightarrow> rat result" where
  "delivery_interval policies tier =
     bindE (policy_for policies tier) (\<lambda>policy.
       let rate = updates_per_second policy in Inr (if 0 < rate then 1 / rate else 3600))"

lemma validate_symbol_count_iff:
  "validate_symbol_count policies tier n = Inr () \<longleftrightarrow>
     (\<exists>p. dict_get policies (tier_value tier) = Some p \<and> n \<le> max_symbols p)"
  by (auto simp: validate_symbol_count_def policy_for_def split: option.splits)

lemma delivery_interval_pos: "delivery_interval policies tier = Inr i \<Longrightarrow> 0 < i"
  by (auto simp: delivery_interval_def Let_def bindE_eq_Inr split: if_splits)

section \<open>The latest-value buffer\<close>

record latest_buffer =
  lb_max_items :: int
  lb_events :: "(string, quote_event) dict"
  lb_closed :: bool
  lb_coalesced :: nat
  lb_dropped :: nat

definition new_buffer :: "int \<Rightarrow> latest_buffer" where
  "new_buffer max_items =
     \<lparr>lb_max_items = max_items, lb_events = [], lb_closed = False, lb_coalesced = 0, lb_dropped = 0\<rparr>"

definition lb_depth :: "latest_buffer \<Rightarrow> nat" where
  "lb_depth b = length (lb_events b)"

text \<open>\<open>min(self._events, key=lambda symbol: self._events[symbol].received_at)\<close>.\<close>

definition oldest_symbol :: "(string, quote_event) dict \<Rightarrow> string result" where
  "oldest_symbol evs = bindE (py_min_by (\<lambda>p. dt_us (q_received_at (snd p))) evs) (\<lambda>p. Inr (fst p))"

definition buffer_put :: "latest_buffer \<Rightarrow> quote_event \<Rightarrow> ((bool \<times> bool) \<times> latest_buffer) result" where
  "buffer_put b e =
     (if lb_closed b then Inr ((False, False), b)
      else
        let coalesced = dict_get (lb_events b) (q_symbol e) \<noteq> None;
            full = \<not> coalesced \<and> lb_max_items b \<le> int (length (lb_events b))
        in bindE (if full
                  then bindE (oldest_symbol (lb_events b)) (\<lambda>oldest.
                         Inr (b\<lparr>lb_events := dict_pop oldest (lb_events b), lb_dropped := lb_dropped b + 1\<rparr>))
                  else Inr b)
             (\<lambda>b1.
                let b2 = (if coalesced then b1\<lparr>lb_coalesced := lb_coalesced b1 + 1\<rparr> else b1)
                in Inr ((coalesced, full), b2\<lparr>lb_events := dict_set (q_symbol e) e (lb_events b2)\<rparr>)))"

text \<open>
  One pass of the loop of \<open>get_due\<close>, a critical section of the condition: it ends the call, or
  leaves the section to wait for a notification or for a time.
\<close>

datatype due = Cancelled | WaitNotify | WaitAtMost rat | Due quote_event latest_buffer

fun due_scan :: "rat \<Rightarrow> (string, rat) dict \<Rightarrow> rat \<Rightarrow> rat option \<Rightarrow> string list \<Rightarrow> string option \<times> rat option" where
  "due_scan interval last_sent now next_delay [] = (None, next_delay)"
| "due_scan interval last_sent now next_delay (s # ss) =
     (let delay = max 0 (dict_get_default last_sent s 0 + interval - now) in
      if delay \<le> 0 then (Some s, next_delay)
      else due_scan interval last_sent now
             (Some (case next_delay of None \<Rightarrow> delay | Some d \<Rightarrow> min d delay)) ss)"

definition get_due :: "latest_buffer \<Rightarrow> rat \<Rightarrow> (string, rat) dict \<Rightarrow> rat \<Rightarrow> due" where
  "get_due b interval last_sent now =
     (if lb_closed b \<and> lb_events b = [] then Cancelled
      else if lb_events b = [] then WaitNotify
      else case due_scan interval last_sent now None (sort (dict_keys (lb_events b))) of
        (Some s, _) \<Rightarrow> (case dict_get (lb_events b) s of
            Some e \<Rightarrow> Due e (b\<lparr>lb_events := dict_pop s (lb_events b)\<rparr>)
          | None \<Rightarrow> Cancelled)
      | (None, next_delay) \<Rightarrow>
          WaitAtMost (max (1 / 1000) (case next_delay of None \<Rightarrow> interval | Some d \<Rightarrow> if d = 0 then interval else d)))"

definition buffer_close :: "latest_buffer \<Rightarrow> latest_buffer" where
  "buffer_close b = b\<lparr>lb_closed := True, lb_events := []\<rparr>"

text \<open>An open buffer of a session, whose capacity is at least one.\<close>

definition buffer_inv :: "latest_buffer \<Rightarrow> bool" where
  "buffer_inv b \<longleftrightarrow> 1 \<le> lb_max_items b \<and> dict_ok (lb_events b) \<and> int (length (lb_events b)) \<le> lb_max_items b \<and>
     (\<forall>s e. dict_get (lb_events b) s = Some e \<longrightarrow> q_symbol e = s)"

lemma new_buffer_inv: "1 \<le> n \<Longrightarrow> buffer_inv (new_buffer n)"
  by (simp add: buffer_inv_def new_buffer_def)

lemma buffer_close_inv: "buffer_inv b \<Longrightarrow> buffer_inv (buffer_close b)"
  by (simp add: buffer_inv_def buffer_close_def)

lemma oldest_symbol_spec:
  assumes "dict_ok evs" "evs \<noteq> []"
  shows "\<exists>s e. oldest_symbol evs = Inr s \<and> dict_get evs s = Some e \<and>
    (\<forall>s' e'. dict_get evs s' = Some e' \<longrightarrow> dt_us (q_received_at e) \<le> dt_us (q_received_at e'))"
proof -
  from py_min_by_Cons [OF assms(2)] obtain p where
    p: "py_min_by (\<lambda>p. dt_us (q_received_at (snd p))) evs = Inr p" by blast
  note m = py_min_by_Inr [OF p]
  have "dict_get evs (fst p) = Some (snd p)"
    using m(1) assms(1) by (simp add: dict_get_in [symmetric])
  moreover have "dt_us (q_received_at (snd p)) \<le> dt_us (q_received_at e')"
    if "dict_get evs s' = Some e'" for s' e'
    using m(2) [of "(s', e')"] that assms(1) by (simp add: dict_get_in)
  ultimately show ?thesis by (auto simp: oldest_symbol_def p)
qed

text \<open>The three ways an open buffer takes an event in: replace, append, evict and append.\<close>

lemma buffer_put_coalesce:
  assumes "\<not> lb_closed b" "dict_get (lb_events b) (q_symbol e) \<noteq> None"
  shows "buffer_put b e = Inr ((True, False),
    b\<lparr>lb_coalesced := lb_coalesced b + 1, lb_events := dict_set (q_symbol e) e (lb_events b)\<rparr>)"
  using assms by (auto simp: buffer_put_def Let_def)

lemma buffer_put_room:
  assumes "\<not> lb_closed b" "dict_get (lb_events b) (q_symbol e) = None" "int (lb_depth b) < lb_max_items b"
  shows "buffer_put b e = Inr ((False, False), b\<lparr>lb_events := dict_set (q_symbol e) e (lb_events b)\<rparr>)"
  using assms by (simp add: buffer_put_def lb_depth_def Let_def)

lemma buffer_put_evict:
  assumes "buffer_inv b" "\<not> lb_closed b" "dict_get (lb_events b) (q_symbol e) = None"
    "lb_max_items b \<le> int (lb_depth b)"
  shows "\<exists>s o'. dict_get (lb_events b) s = Some o' \<and> s \<noteq> q_symbol e \<and>
    (\<forall>s' e'. dict_get (lb_events b) s' = Some e' \<longrightarrow> dt_us (q_received_at o') \<le> dt_us (q_received_at e')) \<and>
    buffer_put b e = Inr ((False, True),
      b\<lparr>lb_dropped := lb_dropped b + 1, lb_events := dict_set (q_symbol e) e (dict_pop s (lb_events b))\<rparr>)"
proof -
  have "lb_events b \<noteq> []" using assms by (auto simp: buffer_inv_def lb_depth_def)
  with assms(1) oldest_symbol_spec [of "lb_events b"] obtain s o' where
    s: "oldest_symbol (lb_events b) = Inr s" "dict_get (lb_events b) s = Some o'"
    "\<forall>s' e'. dict_get (lb_events b) s' = Some e' \<longrightarrow> dt_us (q_received_at o') \<le> dt_us (q_received_at e')"
    by (auto simp: buffer_inv_def)
  with assms have "buffer_put b e = Inr ((False, True),
      b\<lparr>lb_dropped := lb_dropped b + 1, lb_events := dict_set (q_symbol e) e (dict_pop s (lb_events b))\<rparr>)"
    by (simp add: buffer_put_def lb_depth_def Let_def)
  moreover have "s \<noteq> q_symbol e" using s(2) assms(3) by auto
  ultimately show ?thesis using s by blast
qed

lemma buffer_put_spec:
  assumes "buffer_inv b" "\<not> lb_closed b"
  shows "\<exists>c d b'. buffer_put b e = Inr ((c, d), b') \<and> buffer_inv b' \<and> \<not> lb_closed b' \<and>
    lb_max_items b' = lb_max_items b \<and> dict_get (lb_events b') (q_symbol e) = Some e \<and>
    lb_depth b' + lb_coalesced b' + lb_dropped b' = Suc (lb_depth b + lb_coalesced b + lb_dropped b)"
proof (cases "dict_get (lb_events b) (q_symbol e) = None")
  case False
  with assms show ?thesis
    by (auto simp: buffer_put_coalesce buffer_inv_def dict_simps length_dict_set in_keys_iff lb_depth_def)
next
  case True
  show ?thesis
  proof (cases "int (lb_depth b) < lb_max_items b")
    case room: True
    with assms True show ?thesis
      by (auto simp: buffer_put_room buffer_inv_def dict_simps length_dict_set in_keys_iff lb_depth_def)
  next
    case False
    then have "lb_max_items b \<le> int (lb_depth b)" by simp
    from buffer_put_evict [OF assms True this] obtain s o' where
      s: "dict_get (lb_events b) s = Some o'" "s \<noteq> q_symbol e"
      "buffer_put b e = Inr ((False, True),
        b\<lparr>lb_dropped := lb_dropped b + 1, lb_events := dict_set (q_symbol e) e (dict_pop s (lb_events b))\<rparr>)"
      by blast
    have l: "Suc (length (dict_pop s (lb_events b))) = length (lb_events b)"
      using assms(1) s(1) by (intro length_dict_pop) (auto simp: buffer_inv_def in_keys_iff)
    have "length (dict_set (q_symbol e) e (dict_pop s (lb_events b))) = length (lb_events b)"
      using True l by (simp add: length_dict_set in_keys_iff dict_simps)
    then show ?thesis using assms s
      by (auto simp: buffer_inv_def dict_simps lb_depth_def split: if_splits)
  qed
qed

lemma due_scan_Some:
  "due_scan interval last_sent now nd ss = (Some s, nd') \<Longrightarrow>
   s \<in> set ss \<and> dict_get_default last_sent s 0 + interval \<le> now"
  by (induction interval last_sent now nd ss rule: due_scan.induct)
    (auto simp: Let_def max_def split: if_splits)

lemma due_scan_None:
  assumes "due_scan interval last_sent now nd ss = (None, nd')"
  shows "\<forall>s \<in> set ss. now < dict_get_default last_sent s 0 + interval"
  using assms
  by (induction interval last_sent now nd ss rule: due_scan.induct)
    (auto simp: Let_def max_def split: if_splits)

text \<open>The delay reported when nothing is due is the least waiting time.\<close>

lemma due_scan_delay:
  assumes "due_scan interval last_sent now nd ss = (None, nd')"
  shows "nd' = (if ss = [] then nd else Some (let ds = (\<lambda>s. dict_get_default last_sent s 0 + interval - now) ` set ss
      in case nd of None \<Rightarrow> Min ds | Some d \<Rightarrow> min d (Min ds)))"
  using assms
proof (induction ss arbitrary: nd)
  case (Cons s ss)
  let ?f = "\<lambda>s. dict_get_default last_sent s 0 + interval - now"
  have pos: "0 < ?f s" using due_scan_None [OF Cons.prems] by simp
  then have "due_scan interval last_sent now (Some (case nd of None \<Rightarrow> ?f s | Some d \<Rightarrow> min d (?f s))) ss = (None, nd')"
    using Cons.prems by (simp add: Let_def max_def split: if_splits)
  from Cons.IH [OF this] show ?case
    by (cases "ss = []") (auto simp: Let_def min.assoc split: option.splits)
qed simp

lemma get_due_Due:
  assumes "get_due b interval last_sent now = Due e b'" "buffer_inv b"
  shows "dict_get (lb_events b) (q_symbol e) = Some e"
    "b' = b\<lparr>lb_events := dict_pop (q_symbol e) (lb_events b)\<rparr>"
    "dict_get_default last_sent (q_symbol e) 0 + interval \<le> now"
proof -
  obtain s nd where s: "due_scan interval last_sent now None (sort (dict_keys (lb_events b))) = (Some s, nd)"
      "dict_get (lb_events b) s = Some e" "b' = b\<lparr>lb_events := dict_pop s (lb_events b)\<rparr>"
    using assms(1) unfolding get_due_def by (simp split: if_splits prod.splits option.splits)
  have q: "q_symbol e = s" using assms(2) s(2) unfolding buffer_inv_def by blast
  show "dict_get (lb_events b) (q_symbol e) = Some e"
    "b' = b\<lparr>lb_events := dict_pop (q_symbol e) (lb_events b)\<rparr>"
    "dict_get_default last_sent (q_symbol e) 0 + interval \<le> now"
    unfolding q using s(2,3) due_scan_Some [OF s(1)] by simp_all
qed

lemma get_due_Due_spec:
  assumes "get_due b interval last_sent now = Due e b'" "buffer_inv b"
  shows "buffer_inv b'" "lb_max_items b' = lb_max_items b" "Suc (lb_depth b') = lb_depth b"
    "lb_coalesced b' = lb_coalesced b" "lb_dropped b' = lb_dropped b" "lb_closed b' = lb_closed b"
proof -
  note d = get_due_Due [OF assms]
  have "dict_ok (lb_events b)" using assms(2) by (simp add: buffer_inv_def)
  then have "Suc (length (dict_pop (q_symbol e) (lb_events b))) = length (lb_events b)"
    using d(1) by (intro length_dict_pop) (simp_all add: in_keys_iff)
  then show "Suc (lb_depth b') = lb_depth b" by (simp add: d(2) lb_depth_def)
  show "buffer_inv b'" "lb_max_items b' = lb_max_items b" "lb_coalesced b' = lb_coalesced b"
    "lb_dropped b' = lb_dropped b" "lb_closed b' = lb_closed b"
    using assms(2) length_dict_pop_le [of "q_symbol e" "lb_events b"]
    by (auto simp: d(2) buffer_inv_def dict_simps split: if_splits)
qed

text \<open>The buffer behind the contract of \<open>bounded_buffer\<close>.\<close>

definition put_event :: "latest_buffer \<Rightarrow> quote_event \<Rightarrow> latest_buffer" where
  "put_event b e = (case buffer_put b e of Inl _ \<Rightarrow> b | Inr (_, b') \<Rightarrow> b')"

definition take_due :: "rat \<times> (string, rat) dict \<times> rat \<Rightarrow> latest_buffer \<Rightarrow> latest_buffer option" where
  "take_due t b = (case t of (interval, last_sent, now) \<Rightarrow>
     (case get_due b interval last_sent now of Due e b' \<Rightarrow> Some b' | _ \<Rightarrow> None))"

definition open_buffer :: "latest_buffer \<Rightarrow> bool" where
  "open_buffer b \<longleftrightarrow> buffer_inv b \<and> \<not> lb_closed b"

definition lb_lost :: "latest_buffer \<Rightarrow> nat" where
  "lb_lost b = lb_coalesced b + lb_dropped b"

definition lb_capacity :: "latest_buffer \<Rightarrow> nat" where
  "lb_capacity b = nat (lb_max_items b)"

lemma put_event_spec:
  assumes "open_buffer b"
  shows "open_buffer (put_event b e)" "lb_max_items (put_event b e) = lb_max_items b"
    "dict_get (lb_events (put_event b e)) (q_symbol e) = Some e"
    "lb_depth (put_event b e) + lb_lost (put_event b e) = Suc (lb_depth b + lb_lost b)"
  using assms buffer_put_spec [of b e]
  by (auto simp: put_event_def open_buffer_def lb_lost_def)

lemma take_due_spec:
  assumes "open_buffer b" "take_due t b = Some b'"
  shows "open_buffer b'" "lb_max_items b' = lb_max_items b" "Suc (lb_depth b' + lb_lost b') = lb_depth b + lb_lost b"
proof -
  obtain interval last_sent now e where "get_due b interval last_sent now = Due e b'"
    using assms(2) by (auto simp: take_due_def split: prod.splits due.splits)
  from get_due_Due_spec [OF this] assms(1)
  show "open_buffer b'" "lb_max_items b' = lb_max_items b" "Suc (lb_depth b' + lb_lost b') = lb_depth b + lb_lost b"
    by (auto simp: open_buffer_def lb_lost_def)
qed

interpretation lvb: bounded_buffer put_event take_due lb_depth lb_lost lb_capacity open_buffer "\<lambda>_. True"
proof
  fix b assume "open_buffer b"
  then show "lb_depth b \<le> lb_capacity b"
    by (auto simp: open_buffer_def buffer_inv_def lb_depth_def lb_capacity_def)
qed (auto simp: put_event_spec take_due_spec lb_capacity_def)

section \<open>Client sessions and the rate of delivery\<close>

record client_session =
  cs_connection_id :: string
  cs_identity :: client_identity
  cs_buffer :: latest_buffer
  cs_subscriptions :: "string set"
  cs_last_sent :: "(string, rat) dict"

text \<open>
  One turn of \<open>send_loop\<close> (\<open>app.py\<close>): \<open>get_due\<close> reads the clock at \<open>now\<close>, and the time \<open>sent\<close> is
  recorded for the symbol just before the quote is written to the socket.
\<close>

definition send_turn :: "rat \<Rightarrow> client_session \<Rightarrow> rat \<Rightarrow> rat \<Rightarrow> (quote_event \<times> client_session) option" where
  "send_turn interval session now sent =
     (case get_due (cs_buffer session) interval (cs_last_sent session) now of
        Due e b \<Rightarrow> Some (e, session\<lparr>cs_buffer := b,
                     cs_last_sent := dict_set (q_symbol e) sent (cs_last_sent session)\<rparr>)
      | _ \<Rightarrow> None)"

datatype session_event = Arrive quote_event | Wake rat rat

text \<open>The deliveries of a session, with the time of each, for a sequence of arrivals and turns.\<close>

fun deliveries :: "rat \<Rightarrow> client_session \<Rightarrow> session_event list \<Rightarrow> (rat \<times> quote_event) list" where
  "deliveries interval session [] = []"
| "deliveries interval session (Arrive e # evs) =
     deliveries interval (session\<lparr>cs_buffer := put_event (cs_buffer session) e\<rparr>) evs"
| "deliveries interval session (Wake now sent # evs) =
     (case send_turn interval session now sent of
        None \<Rightarrow> deliveries interval session evs
      | Some (e, session') \<Rightarrow> (sent, e) # deliveries interval session' evs)"

fun clock_ok :: "session_event list \<Rightarrow> bool" where
  "clock_ok [] = True"
| "clock_ok (Arrive e # evs) = clock_ok evs"
| "clock_ok (Wake now sent # evs) = (now \<le> sent \<and> clock_ok evs)"

definition deliveries_of :: "string \<Rightarrow> (rat \<times> quote_event) list \<Rightarrow> rat list" where
  "deliveries_of s ds = map fst (filter (\<lambda>d. q_symbol (snd d) = s) ds)"

lemma send_turn_Some:
  assumes "send_turn interval session now sent = Some (e, session')" "open_buffer (cs_buffer session)"
  shows "open_buffer (cs_buffer session')" "dict_get_default (cs_last_sent session) (q_symbol e) 0 + interval \<le> now"
    "cs_last_sent session' = dict_set (q_symbol e) sent (cs_last_sent session)"
    "dict_get (lb_events (cs_buffer session)) (q_symbol e) = Some e"
proof -
  obtain b where d: "get_due (cs_buffer session) interval (cs_last_sent session) now = Due e b"
      "session' = session\<lparr>cs_buffer := b, cs_last_sent := dict_set (q_symbol e) sent (cs_last_sent session)\<rparr>"
    using assms(1) by (auto simp: send_turn_def split: due.splits)
  have i: "buffer_inv (cs_buffer session)" using assms(2) by (simp add: open_buffer_def)
  show "dict_get_default (cs_last_sent session) (q_symbol e) 0 + interval \<le> now"
    "dict_get (lb_events (cs_buffer session)) (q_symbol e) = Some e"
    by (fact get_due_Due(3) [OF d(1) i]) (fact get_due_Due(1) [OF d(1) i])
  show "open_buffer (cs_buffer session')"
    using get_due_Due_spec(1,6) [OF d(1) i] assms(2) d(2) by (simp add: open_buffer_def)
  show "cs_last_sent session' = dict_set (q_symbol e) sent (cs_last_sent session)" using d(2) by simp
qed

lemma deliveries_spaced:
  assumes "0 \<le> interval" "clock_ok evs" "open_buffer (cs_buffer session)"
  shows "sorted_wrt (\<lambda>t t'. t + interval \<le> t') (deliveries_of s (deliveries interval session evs)) \<and>
    (\<forall>t0. dict_get (cs_last_sent session) s = Some t0 \<longrightarrow>
       (\<forall>t \<in> set (deliveries_of s (deliveries interval session evs)). t0 + interval \<le> t))"
  using assms
proof (induction evs arbitrary: session rule: clock_ok.induct)
  case 1
  then show ?case by (simp add: deliveries_of_def)
next
  case (2 e evs)
  then show ?case
    using "2.IH" [of "session\<lparr>cs_buffer := put_event (cs_buffer session) e\<rparr>"] by (simp add: put_event_spec)
next
  case (3 now sent evs)
  show ?case
  proof (cases "send_turn interval session now sent")
    case None
    with 3 show ?thesis by simp
  next
    case (Some p)
    then obtain e session' where p: "send_turn interval session now sent = Some (e, session')"
      by (cases p) auto
    note t = send_turn_Some [OF p "3.prems"(3)]
    let ?ds = "deliveries_of s (deliveries interval session' evs)"
    have "sorted_wrt (\<lambda>t t'. t + interval \<le> t') ?ds \<and>
        (\<forall>t0. dict_get (cs_last_sent session') s = Some t0 \<longrightarrow> (\<forall>t \<in> set ?ds. t0 + interval \<le> t))"
      using "3.prems" t(1) by (intro "3.IH") auto
    then have IH: "sorted_wrt (\<lambda>t t'. t + interval \<le> t') ?ds"
      and later: "\<And>t0 t. dict_get (cs_last_sent session') s = Some t0 \<Longrightarrow> t \<in> set ?ds \<Longrightarrow> t0 + interval \<le> t"
      by auto
    show ?thesis
    proof (cases "q_symbol e = s")
      case True
      have "dict_get (cs_last_sent session') s = Some sent" using True t(3) by (simp add: dict_simps)
      note l = later [OF this]
      have first: "t0 + interval \<le> sent" if "dict_get (cs_last_sent session) s = Some t0" for t0
        using t(2) that True "3.prems"(2) by (simp add: dict_get_default_def)
      have "t0 + interval \<le> x" if "dict_get (cs_last_sent session) s = Some t0" "x \<in> set ?ds" for t0 x
        using first [OF that(1)] l [OF that(2)] "3.prems"(1) by linarith
      with True IH l first show ?thesis by (auto simp: p deliveries_of_def)
    next
      case False
      then have "dict_get (cs_last_sent session') s = dict_get (cs_last_sent session) s"
        using t(3) by (simp add: dict_simps)
      with False IH later show ?thesis by (auto simp: p deliveries_of_def)
    qed
  qed
qed

section \<open>The connection hub\<close>

record hub =
  sessions :: "(string, client_session) dict"
  symbol_sessions :: "(string, string set) dict"

definition empty_hub :: hub where
  "empty_hub = \<lparr>sessions = [], symbol_sessions = []\<rparr>"

definition hub_add :: "hub \<Rightarrow> client_session \<Rightarrow> hub" where
  "hub_add h session = h\<lparr>sessions := dict_set (cs_connection_id session) session (sessions h)\<rparr>"

definition index_add :: "string \<Rightarrow> (string, string set) dict \<Rightarrow> string \<Rightarrow> (string, string set) dict" where
  "index_add cid idx symbol = dict_set symbol (insert cid (dict_get_default idx symbol {})) idx"

definition index_discard :: "string \<Rightarrow> (string, string set) dict \<Rightarrow> string \<Rightarrow> (string, string set) dict" where
  "index_discard cid idx symbol =
     (case dict_get idx symbol of
        None \<Rightarrow> idx
      | Some connections \<Rightarrow>
          (let rest = connections - {cid} in
           if rest = {} then dict_pop symbol idx else dict_set symbol rest idx))"

text \<open>Python iterates the sets in an unspecified order; the model takes the sorted one.\<close>

definition hub_remove :: "hub \<Rightarrow> string \<Rightarrow> client_session option \<times> hub" where
  "hub_remove h cid =
     (case dict_get (sessions h) cid of
        None \<Rightarrow> (None, h)
      | Some session \<Rightarrow>
          (Some (session\<lparr>cs_buffer := buffer_close (cs_buffer session)\<rparr>),
           h\<lparr>sessions := dict_pop cid (sessions h),
             symbol_sessions := foldl (index_discard cid) (symbol_sessions h)
               (sorted_list_of_set (cs_subscriptions session))\<rparr>))"

definition hub_subscribe ::
  "(string, tier_policy) dict \<Rightarrow> hub \<Rightarrow> string \<Rightarrow> string set \<Rightarrow> (string set \<times> hub) result" where
  "hub_subscribe policies h cid symbols =
     (case dict_get (sessions h) cid of
        None \<Rightarrow> Inl (KeyError cid)
      | Some session \<Rightarrow>
          (let combined = cs_subscriptions session \<union> symbols in
           bindE (validate_symbol_count policies (ci_tier (cs_identity session)) (int (card combined))) (\<lambda>_.
             let added = symbols - cs_subscriptions session in
             Inr (added,
               h\<lparr>sessions := dict_set cid (session\<lparr>cs_subscriptions := cs_subscriptions session \<union> added\<rparr>) (sessions h),
                 symbol_sessions := foldl (index_add cid) (symbol_sessions h) (sorted_list_of_set added)\<rparr>))))"

definition hub_unsubscribe :: "hub \<Rightarrow> string \<Rightarrow> string set \<Rightarrow> (string set \<times> hub) result" where
  "hub_unsubscribe h cid symbols =
     (case dict_get (sessions h) cid of
        None \<Rightarrow> Inl (KeyError cid)
      | Some session \<Rightarrow>
          (let removed = symbols \<inter> cs_subscriptions session in
           Inr (removed,
             h\<lparr>sessions := dict_set cid (session\<lparr>cs_subscriptions := cs_subscriptions session - removed\<rparr>) (sessions h),
               symbol_sessions := foldl (index_discard cid) (symbol_sessions h) (sorted_list_of_set removed)\<rparr>)))"

text \<open>
  \<open>publish\<close>: the sessions are collected under the lock, then each buffer is filled on its own.  A
  session removed in between has a closed buffer, which ignores the event.
\<close>

definition publish_targets :: "hub \<Rightarrow> quote_event \<Rightarrow> string list" where
  "publish_targets h e =
     filter (\<lambda>cid. dict_get (sessions h) cid \<noteq> None)
       (sorted_list_of_set (dict_get_default (symbol_sessions h) (q_symbol e) {}))"

definition hub_deliver :: "quote_event \<Rightarrow> hub \<Rightarrow> string \<Rightarrow> hub" where
  "hub_deliver e h cid =
     (case dict_get (sessions h) cid of
        None \<Rightarrow> h
      | Some session \<Rightarrow>
          h\<lparr>sessions := dict_set cid (session\<lparr>cs_buffer := put_event (cs_buffer session) e\<rparr>) (sessions h)\<rparr>)"

definition hub_publish :: "hub \<Rightarrow> quote_event \<Rightarrow> hub" where
  "hub_publish h e = foldl (hub_deliver e) h (publish_targets h e)"

definition hub_session :: "hub \<Rightarrow> string \<Rightarrow> client_session option" where
  "hub_session h cid = dict_get (sessions h) cid"

record hub_stats =
  st_connections :: nat
  st_client_subscriptions :: nat
  st_unique_symbols :: nat

definition local_stats :: "hub \<Rightarrow> hub_stats" where
  "local_stats h =
     \<lparr>st_connections = length (sessions h),
      st_client_subscriptions = sum_list (map (\<lambda>p. card (cs_subscriptions (snd p))) (sessions h)),
      st_unique_symbols = length (symbol_sessions h)\<rparr>"

subsection \<open>The hub's state machine\<close>

text \<open>
  The gateway's tasks run these steps in any order: connections come (with an identifier never used
  before, no subscription and an open buffer) and go, commands change subscriptions, the fan-out
  listener snapshots the targets of a quote and delivers to them one at a time, and send loops drain
  buffers.  \<open>pending\<close> are the deliveries that the listener still has to make.
\<close>

inductive hub_step :: "(string, tier_policy) dict \<Rightarrow> hub \<times> (string \<times> quote_event) list \<Rightarrow> hub \<times> (string \<times> quote_event) list \<Rightarrow> bool"
  for policies where
  Connect: "dict_get (sessions h) (cs_connection_id s) = None \<Longrightarrow> cs_subscriptions s = {} \<Longrightarrow>
    open_buffer (cs_buffer s) \<Longrightarrow> \<exists>p. policy_for policies (ci_tier (cs_identity s)) = Inr p \<and> 0 \<le> max_symbols p \<Longrightarrow>
    hub_step policies (h, pending) (hub_add h s, pending)"
| Disconnect: "hub_step policies (h, pending) (snd (hub_remove h cid), pending)"
| Subscribed: "finite symbols \<Longrightarrow> hub_subscribe policies h cid symbols = Inr (added, h') \<Longrightarrow>
    hub_step policies (h, pending) (h', pending)"
| Unsubscribed: "finite symbols \<Longrightarrow> hub_unsubscribe h cid symbols = Inr (removed, h') \<Longrightarrow>
    hub_step policies (h, pending) (h', pending)"
| Publish: "hub_step policies (h, pending) (h, pending @ map (\<lambda>cid. (cid, e)) (publish_targets h e))"
| DeliverTo: "hub_step policies (h, (cid, e) # pending) (hub_deliver e h cid, pending)"
| Sent: "dict_get (sessions h) cid = Some s \<Longrightarrow> send_turn interval s now t = Some (e, s') \<Longrightarrow>
    hub_step policies (h, pending) (h\<lparr>sessions := dict_set cid s' (sessions h)\<rparr>, pending)"

inductive hub_reachable :: "(string, tier_policy) dict \<Rightarrow> hub \<times> (string \<times> quote_event) list \<Rightarrow> bool"
  for policies where
  Start: "hub_reachable policies (empty_hub, [])"
| Step: "hub_reachable policies x \<Longrightarrow> hub_step policies x y \<Longrightarrow> hub_reachable policies y"

inductive_cases hub_stepE: "hub_step policies (h, pending) y"

definition session_inv :: "(string, tier_policy) dict \<Rightarrow> string \<Rightarrow> client_session \<Rightarrow> bool" where
  "session_inv policies cid s \<longleftrightarrow> cs_connection_id s = cid \<and> finite (cs_subscriptions s) \<and>
     open_buffer (cs_buffer s) \<and>
     (\<exists>p. policy_for policies (ci_tier (cs_identity s)) = Inr p \<and> int (card (cs_subscriptions s)) \<le> max_symbols p)"

text \<open>The index and the sessions agree.\<close>

definition subscribed :: "hub \<Rightarrow> string \<Rightarrow> string \<Rightarrow> bool" where
  "subscribed h cid symbol \<longleftrightarrow> (\<exists>s. dict_get (sessions h) cid = Some s \<and> symbol \<in> cs_subscriptions s)"

definition indexed :: "(string, string set) dict \<Rightarrow> string \<Rightarrow> string \<Rightarrow> bool" where
  "indexed idx cid symbol \<longleftrightarrow> cid \<in> dict_get_default idx symbol {}"

definition index_ok :: "(string, string set) dict \<Rightarrow> bool" where
  "index_ok idx \<longleftrightarrow> dict_ok idx \<and> (\<forall>symbol c. dict_get idx symbol = Some c \<longrightarrow> c \<noteq> {} \<and> finite c)"

definition hub_inv :: "(string, tier_policy) dict \<Rightarrow> hub \<Rightarrow> bool" where
  "hub_inv policies h \<longleftrightarrow> dict_ok (sessions h) \<and> index_ok (symbol_sessions h) \<and>
     (\<forall>cid s. dict_get (sessions h) cid = Some s \<longrightarrow> session_inv policies cid s) \<and>
     (\<forall>cid symbol. indexed (symbol_sessions h) cid symbol \<longleftrightarrow> subscribed h cid symbol)"

lemma indexed_add: "indexed (index_add c idx s) cid symbol \<longleftrightarrow> indexed idx cid symbol \<or> cid = c \<and> symbol = s"
  by (auto simp: indexed_def index_add_def dict_get_default_def dict_simps)

lemma index_ok_add: "index_ok idx \<Longrightarrow> index_ok (index_add c idx s)"
  by (auto simp: index_ok_def index_add_def dict_get_default_def dict_simps split: option.splits if_splits)

lemma indexed_discard:
  "indexed (index_discard c idx s) cid symbol \<longleftrightarrow> indexed idx cid symbol \<and> \<not> (cid = c \<and> symbol = s)"
  by (auto simp: indexed_def index_discard_def dict_get_default_def dict_simps Let_def split: option.splits if_splits)

lemma index_ok_discard: "index_ok idx \<Longrightarrow> index_ok (index_discard c idx s)"
  by (auto simp: index_ok_def index_discard_def dict_simps Let_def split: option.splits if_splits)

lemma indexed_add_all:
  "indexed (foldl (index_add c) idx ss) cid symbol \<longleftrightarrow> indexed idx cid symbol \<or> cid = c \<and> symbol \<in> set ss"
  by (induction ss arbitrary: idx) (auto simp: indexed_add)

lemma index_ok_add_all: "index_ok idx \<Longrightarrow> index_ok (foldl (index_add c) idx ss)"
  by (induction ss arbitrary: idx) (auto simp: index_ok_add)

lemma indexed_discard_all:
  "indexed (foldl (index_discard c) idx ss) cid symbol \<longleftrightarrow> indexed idx cid symbol \<and> \<not> (cid = c \<and> symbol \<in> set ss)"
  by (induction ss arbitrary: idx) (auto simp: indexed_discard)

lemma index_ok_discard_all: "index_ok idx \<Longrightarrow> index_ok (foldl (index_discard c) idx ss)"
  by (induction ss arbitrary: idx) (auto simp: index_ok_discard)

lemmas index_simps = indexed_add_all index_ok_add_all indexed_discard_all index_ok_discard_all

lemma hub_inv_session: "hub_inv policies h \<Longrightarrow> dict_get (sessions h) cid = Some s \<Longrightarrow> session_inv policies cid s"
  by (simp add: hub_inv_def)

text \<open>Replacing a session by one with the same subscriptions.\<close>

lemma hub_inv_replace:
  assumes "hub_inv policies h" "dict_get (sessions h) cid = Some s" "session_inv policies cid s'"
    "cs_subscriptions s' = cs_subscriptions s"
  shows "hub_inv policies (h\<lparr>sessions := dict_set cid s' (sessions h)\<rparr>)"
proof -
  have "subscribed (h\<lparr>sessions := dict_set cid s' (sessions h)\<rparr>) c y \<longleftrightarrow> subscribed h c y" for c y
    using assms(2,4) by (auto simp: subscribed_def dict_simps)
  with assms show ?thesis by (auto simp: hub_inv_def dict_simps)
qed

lemma hub_add_inv:
  assumes "hub_inv policies h" "dict_get (sessions h) (cs_connection_id s) = None" "cs_subscriptions s = {}"
    "open_buffer (cs_buffer s)" "policy_for policies (ci_tier (cs_identity s)) = Inr p" "0 \<le> max_symbols p"
  shows "hub_inv policies (hub_add h s)"
proof -
  have "subscribed (hub_add h s) c y \<longleftrightarrow> subscribed h c y" for c y
    using assms(2,3) by (auto simp: subscribed_def hub_add_def dict_simps)
  moreover have "session_inv policies (cs_connection_id s) s"
    using assms by (simp add: session_inv_def)
  ultimately show ?thesis using assms(1) by (auto simp: hub_inv_def hub_add_def dict_simps)
qed

lemma hub_remove_inv:
  assumes "hub_inv policies h"
  shows "hub_inv policies (snd (hub_remove h cid))"
proof (cases "dict_get (sessions h) cid")
  case None
  with assms show ?thesis by (simp add: hub_remove_def)
next
  case (Some s)
  let ?h = "snd (hub_remove h cid)"
  have f: "finite (cs_subscriptions s)" using hub_inv_session [OF assms Some] by (simp add: session_inv_def)
  have "indexed (symbol_sessions ?h) c y \<longleftrightarrow> subscribed ?h c y" for c y
    using assms Some f by (auto simp: hub_inv_def hub_remove_def subscribed_def index_simps dict_simps)
  then show ?thesis using assms Some
    by (auto simp: hub_inv_def hub_remove_def index_simps dict_simps split: if_splits)
qed

lemma hub_subscribe_inv:
  assumes "hub_inv policies h" "finite symbols" "hub_subscribe policies h cid symbols = Inr (added, h')"
  shows "hub_inv policies h'"
proof -
  obtain s where s: "dict_get (sessions h) cid = Some s"
      "validate_symbol_count policies (ci_tier (cs_identity s)) (int (card (cs_subscriptions s \<union> symbols))) = Inr ()"
      "h' = h\<lparr>sessions := dict_set cid (s\<lparr>cs_subscriptions := cs_subscriptions s \<union> (symbols - cs_subscriptions s)\<rparr>) (sessions h),
          symbol_sessions := foldl (index_add cid) (symbol_sessions h) (sorted_list_of_set (symbols - cs_subscriptions s))\<rparr>"
    using assms(3) by (auto simp: hub_subscribe_def Let_def bindE_eq_Inr split: option.splits)
  note si = hub_inv_session [OF assms(1) s(1)]
  have "session_inv policies cid (s\<lparr>cs_subscriptions := cs_subscriptions s \<union> symbols\<rparr>)"
    using si s(2) assms(2) by (auto simp: session_inv_def validate_symbol_count_iff policy_for_def split: option.splits)
  moreover have "indexed (symbol_sessions h') c y \<longleftrightarrow> subscribed h' c y" for c y
    using assms(1,2) s(1) by (auto simp: s(3) hub_inv_def subscribed_def index_simps dict_simps)
  ultimately show ?thesis using assms(1) by (auto simp: s(3) hub_inv_def index_simps dict_simps)
qed

lemma hub_unsubscribe_inv:
  assumes "hub_inv policies h" "finite symbols" "hub_unsubscribe h cid symbols = Inr (removed, h')"
  shows "hub_inv policies h'"
proof -
  obtain s where s: "dict_get (sessions h) cid = Some s"
      "h' = h\<lparr>sessions := dict_set cid (s\<lparr>cs_subscriptions := cs_subscriptions s - symbols \<inter> cs_subscriptions s\<rparr>) (sessions h),
          symbol_sessions := foldl (index_discard cid) (symbol_sessions h) (sorted_list_of_set (symbols \<inter> cs_subscriptions s))\<rparr>"
    using assms(3) by (auto simp: hub_unsubscribe_def Let_def split: option.splits)
  note si = hub_inv_session [OF assms(1) s(1)]
  have "card (cs_subscriptions s - symbols \<inter> cs_subscriptions s) \<le> card (cs_subscriptions s)"
    using si by (intro card_mono) (auto simp: session_inv_def)
  with si have "session_inv policies cid (s\<lparr>cs_subscriptions := cs_subscriptions s - symbols \<inter> cs_subscriptions s\<rparr>)"
    by (auto simp: session_inv_def)
  moreover have "indexed (symbol_sessions h') c y \<longleftrightarrow> subscribed h' c y" for c y
    using assms(1,2) s(1) by (auto simp: s(2) hub_inv_def subscribed_def index_simps dict_simps)
  ultimately show ?thesis using assms(1) by (auto simp: s(2) hub_inv_def index_simps dict_simps)
qed

lemma hub_deliver_inv:
  assumes "hub_inv policies h"
  shows "hub_inv policies (hub_deliver e h cid)"
proof (cases "dict_get (sessions h) cid")
  case (Some s)
  then have "session_inv policies cid (s\<lparr>cs_buffer := put_event (cs_buffer s) e\<rparr>)"
    using hub_inv_session [OF assms Some] by (simp add: session_inv_def put_event_spec)
  from hub_inv_replace [OF assms Some this] Some show ?thesis by (simp add: hub_deliver_def)
qed (use assms in \<open>simp add: hub_deliver_def\<close>)

lemma hub_sent_inv:
  assumes "hub_inv policies h" "dict_get (sessions h) cid = Some s" "send_turn interval s now t = Some (e, s')"
  shows "hub_inv policies (h\<lparr>sessions := dict_set cid s' (sessions h)\<rparr>)"
proof (rule hub_inv_replace [OF assms(1,2)])
  obtain b where s': "s' = s\<lparr>cs_buffer := b, cs_last_sent := dict_set (q_symbol e) t (cs_last_sent s)\<rparr>"
    using assms(3) by (auto simp: send_turn_def split: due.splits)
  have "session_inv policies cid s" using assms by (simp add: hub_inv_session)
  moreover from this have "open_buffer (cs_buffer s')" using send_turn_Some [OF assms(3)] by (simp add: session_inv_def)
  ultimately show "session_inv policies cid s'" by (simp add: session_inv_def s')
  show "cs_subscriptions s' = cs_subscriptions s" by (simp add: s')
qed

lemma hub_step_inv:
  assumes "hub_step policies x y" "hub_inv policies (fst x)"
  shows "hub_inv policies (fst y)"
  using assms
  by (induction rule: hub_step.induct)
    (auto intro: hub_add_inv hub_remove_inv hub_subscribe_inv hub_unsubscribe_inv hub_deliver_inv hub_sent_inv)

lemma hub_reachable_inv: "hub_reachable policies x \<Longrightarrow> hub_inv policies (fst x)"
proof (induction rule: hub_reachable.induct)
  case Start
  then show ?case
    by (simp add: hub_inv_def empty_hub_def index_ok_def indexed_def subscribed_def dict_get_default_def)
next
  case (Step x y)
  then show ?case using hub_step_inv by blast
qed

subsection \<open>Publishing\<close>

lemma hub_deliver_session:
  "hub_session (hub_deliver e h c) cid =
     (if cid = c then map_option (\<lambda>s. s\<lparr>cs_buffer := put_event (cs_buffer s) e\<rparr>) (hub_session h cid)
      else hub_session h cid)"
  by (auto simp: hub_session_def hub_deliver_def dict_simps split: option.splits)

lemma hub_deliver_all_session:
  "distinct cs \<Longrightarrow> hub_session (foldl (hub_deliver e) h cs) cid =
     (if cid \<in> set cs then map_option (\<lambda>s. s\<lparr>cs_buffer := put_event (cs_buffer s) e\<rparr>) (hub_session h cid)
      else hub_session h cid)"
  by (induction cs arbitrary: h) (auto simp: hub_deliver_session)

lemma publish_targets_subscribed:
  assumes "hub_inv policies h"
  shows "cid \<in> set (publish_targets h e) \<longleftrightarrow> subscribed h cid (q_symbol e)"
proof -
  have f: "finite (dict_get_default (symbol_sessions h) (q_symbol e) {})"
    using assms by (auto simp: hub_inv_def index_ok_def dict_get_default_def split: option.splits)
  have "cid \<in> dict_get_default (symbol_sessions h) (q_symbol e) {} \<longleftrightarrow> subscribed h cid (q_symbol e)"
    using assms by (simp add: hub_inv_def indexed_def)
  with f show ?thesis by (auto simp: publish_targets_def subscribed_def)
qed

subsection \<open>Waiting for the next due quote\<close>

lemma hub_publish_session:
  assumes "hub_inv policies h"
  shows "(subscribed h cid (q_symbol e) \<longrightarrow> (\<exists>s. hub_session (hub_publish h e) cid = Some s \<and>
      dict_get (lb_events (cs_buffer s)) (q_symbol e) = Some e)) \<and>
    (\<not> subscribed h cid (q_symbol e) \<longrightarrow> hub_session (hub_publish h e) cid = hub_session h cid)"
proof -
  have d: "distinct (publish_targets h e)" by (simp add: publish_targets_def)
  have o: "open_buffer (cs_buffer s)" if "dict_get (sessions h) cid = Some s" for s
    using hub_inv_session [OF assms that] by (simp add: session_inv_def)
  have "hub_session (hub_publish h e) cid =
      (if subscribed h cid (q_symbol e)
       then map_option (\<lambda>s. s\<lparr>cs_buffer := put_event (cs_buffer s) e\<rparr>) (hub_session h cid)
       else hub_session h cid)"
    by (simp add: hub_publish_def hub_deliver_all_session [OF d] publish_targets_subscribed [OF assms])
  then show ?thesis using o by (auto simp: subscribed_def hub_session_def put_event_spec(3))
qed

lemma due_scan_found:
  assumes "s \<in> set ss" "dict_get_default last_sent s 0 + interval \<le> now"
  shows "\<exists>s' nd'. due_scan interval last_sent now nd ss = (Some s', nd')"
proof (rule ccontr)
  assume "\<not> ?thesis"
  then obtain nd' where "due_scan interval last_sent now nd ss = (None, nd')"
    by (metis option.exhaust surj_pair)
  with due_scan_None assms show False by fastforce
qed

lemma get_due_found:
  assumes "lb_events b \<noteq> []" "s \<in> set (dict_keys (lb_events b))" "dict_get_default last_sent s 0 + interval \<le> now"
  shows "\<exists>e b'. get_due b interval last_sent now = Due e b'"
proof -
  obtain s' nd' where s': "due_scan interval last_sent now None (sort (dict_keys (lb_events b))) = (Some s', nd')"
    using due_scan_found [of s "sort (dict_keys (lb_events b))" last_sent interval now None] assms(2,3) by auto
  then have "s' \<in> set (dict_keys (lb_events b))" using due_scan_Some [OF s'] by simp
  then obtain e where "dict_get (lb_events b) s' = Some e" by (auto simp: in_keys_iff)
  with assms(1) s' show ?thesis by (simp add: get_due_def)
qed

lemma get_due_wait:
  assumes "lb_events b \<noteq> []" "get_due b interval last_sent now = WaitAtMost d"
  defines "ds \<equiv> (\<lambda>s. dict_get_default last_sent s 0 + interval - now) ` set (dict_keys (lb_events b))"
  shows "d = max (1 / 1000) (Min ds)" "\<forall>x \<in> ds. 0 < x"
proof -
  let ?ss = "sort (dict_keys (lb_events b))"
  obtain nd where nd: "due_scan interval last_sent now None ?ss = (None, nd)"
      "d = max (1 / 1000) (case nd of None \<Rightarrow> interval | Some d \<Rightarrow> if d = 0 then interval else d)"
    using assms(1,2) by (auto simp: get_due_def split: prod.splits option.splits if_splits)
  have ne: "?ss \<noteq> []" using assms(1) by (cases "lb_events b") (auto simp: dict_keys_def)
  then have fin: "ds \<noteq> {}" "finite ds" by (auto simp: ds_def)
  show pos: "\<forall>x \<in> ds. 0 < x"
    using due_scan_None [OF nd(1)] by (auto simp: ds_def)
  have "nd = Some (Min ds)" using due_scan_delay [OF nd(1)] ne by (simp add: ds_def Let_def)
  moreover have "Min ds \<noteq> 0" using fin pos by (metis Min_in less_irrefl)
  ultimately show "d = max (1 / 1000) (Min ds)" using nd(2) by simp
qed

section \<open>Properties\<close>

text \<open>C10: in every reachable state of the hub, under every interleaving of connects, disconnects,
  commands, publications and sends, the symbol index and the sessions agree, no index entry is empty,
  every session stays within its tier's symbol limit and every buffer within its capacity.\<close>

theorem hub_consistent:
  assumes "hub_reachable policies (h, pending)"
  shows "(\<forall>cid symbol. indexed (symbol_sessions h) cid symbol \<longleftrightarrow> subscribed h cid symbol) \<and>
    (\<forall>symbol c. dict_get (symbol_sessions h) symbol = Some c \<longrightarrow> c \<noteq> {}) \<and>
    (\<forall>cid s. hub_session h cid = Some s \<longrightarrow> int (lb_depth (cs_buffer s)) \<le> lb_max_items (cs_buffer s) \<and>
       (\<exists>p. policy_for policies (ci_tier (cs_identity s)) = Inr p \<and> int (card (cs_subscriptions s)) \<le> max_symbols p))"
  using hub_reachable_inv [OF assms]
  by (auto simp: hub_inv_def index_ok_def hub_session_def session_inv_def open_buffer_def buffer_inv_def lb_depth_def)

text \<open>Publishing a quote puts it, as the pending value of its symbol, into the buffer of every
  session subscribed to the symbol and leaves every other session as it was.\<close>

theorem publish_reaches_subscribers:
  assumes "hub_inv policies h"
  shows "(subscribed h cid (q_symbol e) \<longrightarrow> (\<exists>s. hub_session (hub_publish h e) cid = Some s \<and>
      dict_get (lb_events (cs_buffer s)) (q_symbol e) = Some e)) \<and>
    (\<not> subscribed h cid (q_symbol e) \<longrightarrow> hub_session (hub_publish h e) cid = hub_session h cid)"
  using assms by (rule hub_publish_session)

text \<open>C11: the latest-value buffer loses nothing silently: over any sequence of puts and sends from an
  empty buffer, what was put is what was sent, what still waits and what was counted as coalesced or
  dropped, and never more than \<open>max_items\<close> quotes wait.\<close>

theorem buffer_accounting:
  assumes "1 \<le> n" "run_ops put_event take_due (new_buffer n) ops = (b, sent)"
  shows "sent + lb_depth b + lb_coalesced b + lb_dropped b = offers ops \<and> int (lb_depth b) \<le> n"
proof -
  have "open_buffer (new_buffer n)" using assms(1) new_buffer_inv by (simp add: open_buffer_def new_buffer_def)
  from lvb.run_ops_account [OF this _ assms(2)] show ?thesis using assms(1)
    by (auto simp: lvb.ops_ok_def lb_lost_def lb_capacity_def lb_depth_def new_buffer_def)
qed

text \<open>The effect of \<open>put\<close> on an open buffer: the new quote is the one kept for its symbol, the other
  symbols keep theirs, except that a full buffer meeting a new symbol gives up the quote received longest
  ago; the returned flags say which happened.\<close>

theorem buffer_put_effect:
  assumes "buffer_inv b" "\<not> lb_closed b"
  shows "\<exists>coalesced dropped b'. buffer_put b e = Inr ((coalesced, dropped), b') \<and>
    (coalesced \<longleftrightarrow> dict_get (lb_events b) (q_symbol e) \<noteq> None) \<and>
    (dropped \<longleftrightarrow> \<not> coalesced \<and> lb_max_items b \<le> int (lb_depth b)) \<and>
    dict_get (lb_events b') (q_symbol e) = Some e \<and>
    (\<forall>s. s \<noteq> q_symbol e \<longrightarrow> dict_get (lb_events b') s \<noteq> dict_get (lb_events b) s \<longrightarrow>
       dropped \<and> dict_get (lb_events b') s = None \<and>
       (\<exists>old. dict_get (lb_events b) s = Some old \<and>
          (\<forall>s' x. dict_get (lb_events b) s' = Some x \<longrightarrow> dt_us (q_received_at old) \<le> dt_us (q_received_at x))))"
proof (cases "dict_get (lb_events b) (q_symbol e) = None")
  case False
  then show ?thesis using buffer_put_coalesce [OF assms(2) False] by (auto simp: dict_simps)
next
  case True
  show ?thesis
  proof (cases "int (lb_depth b) < lb_max_items b")
    case room: True
    with True show ?thesis using buffer_put_room [OF assms(2) True room] by (auto simp: dict_simps)
  next
    case False
    then have full: "lb_max_items b \<le> int (lb_depth b)" by simp
    from buffer_put_evict [OF assms True this] obtain s old where
      "dict_get (lb_events b) s = Some old" "s \<noteq> q_symbol e"
      "\<forall>s' x. dict_get (lb_events b) s' = Some x \<longrightarrow> dt_us (q_received_at old) \<le> dt_us (q_received_at x)"
      "buffer_put b e = Inr ((False, True),
        b\<lparr>lb_dropped := lb_dropped b + 1, lb_events := dict_set (q_symbol e) e (dict_pop s (lb_events b))\<rparr>)"
      by blast
    with True full show ?thesis by (auto simp: dict_simps)
  qed
qed

text \<open>C12: the tier's update rate is respected: whatever arrives and whenever the sender wakes up, two
  deliveries of the same symbol to a session are at least the tier's delivery interval apart.\<close>

theorem delivery_rate:
  assumes "delivery_interval policies tier = Inr interval" "open_buffer (cs_buffer session)" "clock_ok evs"
  shows "sorted_wrt (\<lambda>t t'. t + interval \<le> t') (deliveries_of s (deliveries interval session evs))"
  using deliveries_spaced [OF _ assms(3,2), of interval s] delivery_interval_pos [OF assms(1)] by simp

text \<open>The sender neither sleeps past a due quote nor wakes for nothing: with quotes waiting, \<open>get_due\<close>
  delivers at once, or waits a time after which it delivers, and before which (beyond the one-millisecond
  floor) nothing waiting was due.\<close>

theorem get_due_progress:
  assumes "buffer_inv b" "lb_events b \<noteq> []"
  shows "(\<exists>e b'. get_due b interval last_sent now = Due e b') \<or>
    (\<exists>d. get_due b interval last_sent now = WaitAtMost d \<and>
       (\<exists>e b'. get_due b interval last_sent (now + d) = Due e b') \<and>
       (\<forall>s t. s \<in> set (dict_keys (lb_events b)) \<longrightarrow> 1 / 1000 \<le> t \<longrightarrow> t < d \<longrightarrow>
          now + t < dict_get_default last_sent s 0 + interval))"
proof (cases "get_due b interval last_sent now")
  case Cancelled
  then obtain s nd where "due_scan interval last_sent now None (sort (dict_keys (lb_events b))) = (Some s, nd)"
      "dict_get (lb_events b) s = None"
    using assms(2) by (auto simp: get_due_def split: prod.splits option.splits if_splits)
  then show ?thesis using due_scan_Some [of interval last_sent now] by (fastforce simp: in_keys_iff)
next
  case WaitNotify
  then show ?thesis using assms(2) by (auto simp: get_due_def split: prod.splits option.splits if_splits)
next
  case (WaitAtMost d)
  let ?f = "\<lambda>s. dict_get_default last_sent s 0 + interval - now"
  let ?ds = "?f ` set (dict_keys (lb_events b))"
  note w = get_due_wait [OF assms(2) WaitAtMost]
  have "set (dict_keys (lb_events b)) \<noteq> {}" using assms(2) by (cases "lb_events b") (auto simp: dict_keys_def)
  then have ne: "?ds \<noteq> {}" "finite ?ds" by auto
  from Min_in [OF ne(2,1)] obtain s where s: "s \<in> set (dict_keys (lb_events b))" "Min ?ds = ?f s" by auto
  have "dict_get_default last_sent s 0 + interval \<le> now + d" using w(1) s(2) by simp
  from get_due_found [OF assms(2) s(1) this] have "\<exists>e b'. get_due b interval last_sent (now + d) = Due e b'" .
  moreover have "now + t < dict_get_default last_sent s' 0 + interval"
    if "s' \<in> set (dict_keys (lb_events b))" "1 / 1000 \<le> t" "t < d" for s' t
  proof -
    have "Min ?ds \<le> ?f s'" using that(1) ne by (intro Min_le) auto
    moreover have "t < Min ?ds" using that(2,3) w(1) by (simp add: max_def split: if_splits)
    ultimately show ?thesis by linarith
  qed
  ultimately show ?thesis using WaitAtMost by blast
next
  case (Due e b')
  then show ?thesis by blast
qed

section \<open>Witnesses\<close>

definition tick :: "string \<Rightarrow> instant \<Rightarrow> quote_event" where
  "tick s t = (quote_of_input sample_input)\<lparr>q_symbol := s, q_received_at := utc_datetime t\<rparr>"

definition sample_session :: client_session where
  "sample_session =
     \<lparr>cs_connection_id = ''c1'',
      cs_identity = \<lparr>ci_client_id = ''u'', ci_tier = BASIC, ci_allowed_symbols = None,
        ci_allowed_channels = {''quotes''}, ci_organization_id = None\<rparr>,
      cs_buffer = new_buffer 2, cs_subscriptions = {}, cs_last_sent = []\<rparr>"

lemma tick_simps [simp]: "q_symbol (tick s t) = s" "q_received_at (tick s t) = utc_datetime t"
  by (simp_all add: tick_def)

lemma sample_policy:
  "\<exists>p. policy_for default_tier_policies (ci_tier (cs_identity sample_session)) = Inr p \<and> 0 \<le> max_symbols p"
  by (simp add: policy_for_def default_tier_policies_def sample_session_def)

definition one_session_hub :: hub where
  "one_session_hub =
     \<lparr>sessions = [(''c1'', sample_session\<lparr>cs_subscriptions := {''AAPL''}\<rparr>)],
      symbol_sessions = [(''AAPL'', {''c1''})]\<rparr>"

lemma sample_subscribe:
  "hub_subscribe default_tier_policies (hub_add empty_hub sample_session) ''c1'' {''AAPL''} =
     Inr ({''AAPL''}, one_session_hub)"
  by (simp add: hub_subscribe_def hub_add_def empty_hub_def sample_session_def one_session_hub_def
      validate_symbol_count_def policy_for_def default_tier_policies_def index_add_def dict_get_default_def Let_def)

lemma one_session_reachable: "hub_reachable default_tier_policies (one_session_hub, [])"
proof -
  have "open_buffer (cs_buffer sample_session)"
    by (simp add: open_buffer_def sample_session_def new_buffer_inv) (simp add: new_buffer_def)
  then have "hub_step default_tier_policies (empty_hub, []) (hub_add empty_hub sample_session, [])"
    using sample_policy by (intro hub_step.Connect) (auto simp: empty_hub_def sample_session_def)
  moreover have "hub_step default_tier_policies (hub_add empty_hub sample_session, []) (one_session_hub, [])"
    by (rule hub_step.Subscribed [OF _ sample_subscribe]) simp
  ultimately show ?thesis by (meson hub_reachable.intros)
qed

theorem hub_consistent_witness:
  "hub_reachable default_tier_policies (one_session_hub, []) \<and>
   indexed (symbol_sessions one_session_hub) ''c1'' ''AAPL'' \<and> subscribed one_session_hub ''c1'' ''AAPL''"
proof -
  have "subscribed one_session_hub ''c1'' ''AAPL''"
    by (simp add: subscribed_def one_session_hub_def)
  with hub_consistent [OF one_session_reachable] one_session_reachable show ?thesis by blast
qed

theorem publish_reaches_subscribers_witness:
  "\<exists>s. hub_session (hub_publish one_session_hub (tick ''AAPL'' 5)) ''c1'' = Some s \<and>
     dict_get (lb_events (cs_buffer s)) ''AAPL'' = Some (tick ''AAPL'' 5)"
proof -
  have "subscribed one_session_hub ''c1'' ''AAPL''"
    by (simp add: subscribed_def one_session_hub_def)
  with publish_reaches_subscribers [of default_tier_policies one_session_hub "''c1''" "tick ''AAPL'' 5"]
    hub_reachable_inv [OF one_session_reachable] show ?thesis by simp
qed

definition sample_ops :: "(quote_event, rat \<times> (string, rat) dict \<times> rat) buffer_op list" where
  "sample_ops = [Offer (tick ''A'' 1), Offer (tick ''B'' 2), Offer (tick ''A'' 3), Offer (tick ''C'' 4), Take (1, [], 5)]"

theorem buffer_accounting_witness:
  "\<exists>b sent. run_ops put_event take_due (new_buffer 2) sample_ops = (b, sent) \<and>
     sent + lb_depth b + lb_coalesced b + lb_dropped b = 4 \<and> int (lb_depth b) \<le> 2"
proof -
  obtain b sent where r: "run_ops put_event take_due (new_buffer 2) sample_ops = (b, sent)"
    by (cases "run_ops put_event take_due (new_buffer 2) sample_ops")
  have "offers sample_ops = 4" by (simp add: sample_ops_def)
  with buffer_accounting [OF _ r] r show ?thesis by auto
qed

definition full_buffer :: latest_buffer where
  "full_buffer = (new_buffer 2)\<lparr>lb_events := [(''A'', tick ''A'' 1), (''B'', tick ''B'' 2)]\<rparr>"

lemma full_buffer_open: "buffer_inv full_buffer" "\<not> lb_closed full_buffer" "lb_events full_buffer \<noteq> []"
  by (auto simp: full_buffer_def buffer_inv_def new_buffer_def dict_ok_def)

theorem buffer_put_effect_witness:
  "\<exists>coalesced dropped b'. buffer_put full_buffer (tick ''C'' 3) = Inr ((coalesced, dropped), b') \<and>
     \<not> coalesced \<and> dropped \<and> dict_get (lb_events b') ''C'' = Some (tick ''C'' 3)"
  using buffer_put_effect [OF full_buffer_open(1,2), of "tick ''C'' 3"]
  by (auto simp: full_buffer_def new_buffer_def lb_depth_def)

theorem delivery_rate_witness:
  "deliveries_of ''A'' (deliveries 1 (sample_session\<lparr>cs_buffer := full_buffer\<rparr>)
     [Wake 2 2, Arrive (tick ''A'' 9), Wake (5 / 2) (5 / 2), Wake 3 3]) = [2, 3] \<and>
   sorted_wrt (\<lambda>t t'. t + 1 \<le> t') (deliveries_of ''A'' (deliveries 1 (sample_session\<lparr>cs_buffer := full_buffer\<rparr>)
     [Wake 2 2, Arrive (tick ''A'' 9), Wake (5 / 2) (5 / 2), Wake 3 3]))"
proof
  have i: "delivery_interval default_tier_policies BASIC = Inr 1"
    by (simp add: delivery_interval_def policy_for_def default_tier_policies_def)
  have b: "open_buffer (cs_buffer (sample_session\<lparr>cs_buffer := full_buffer\<rparr>))"
    using full_buffer_open by (simp add: open_buffer_def)
  show "sorted_wrt (\<lambda>t t'. t + 1 \<le> t') (deliveries_of ''A'' (deliveries 1 (sample_session\<lparr>cs_buffer := full_buffer\<rparr>)
     [Wake 2 2, Arrive (tick ''A'' 9), Wake (5 / 2) (5 / 2), Wake 3 3]))"
    by (rule delivery_rate [OF i b]) simp
  show "deliveries_of ''A'' (deliveries 1 (sample_session\<lparr>cs_buffer := full_buffer\<rparr>)
     [Wake 2 2, Arrive (tick ''A'' 9), Wake (5 / 2) (5 / 2), Wake 3 3]) = [2, 3]"
    by code_simp
qed

theorem get_due_progress_witness:
  "\<exists>d. get_due full_buffer 1 [(''A'', 4), (''B'', 5)] 4 = WaitAtMost d \<and>
     (\<exists>e b'. get_due full_buffer 1 [(''A'', 4), (''B'', 5)] (4 + d) = Due e b')"
proof -
  have "get_due full_buffer 1 [(''A'', 4), (''B'', 5)] 4 = WaitAtMost 1" by code_simp
  with get_due_progress [OF full_buffer_open(1,3), of 1 "[(''A'', 4), (''B'', 5)]" 4] show ?thesis by auto
qed

end
