(* ===== verification/Redis.thy ===== *)
theory Redis
  imports Candles
begin

text \<open>
  The Redis server, which the gateway calls and does not contain.  A client of it is a function of the
  commands, the record \<open>redis_ops\<close>, over a server state of any type.  The locale \<open>redis\<close> states what
  the command reference documents, through an abstraction \<open>db\<close> of the server state to the data the
  gateway keeps there; every key prefix is used with one data type.  \<open>db_ops\<close> are the commands on the
  data itself, the interpretation that shows the laws can hold and on which witnesses run.

  A stored value is a \<open>payload\<close>: plain text, the decimal text of an integer, the ISO text of
  a datetime, or a JSON document, which is
  represented by the value it encodes (pydantic and \<open>json\<close> do the encoding, without loss on these models;
  what validation makes of a decoded quote is \<^const>\<open>validate_quote\<close>).

  A Lua script runs atomically, so it is the composition of its commands.  Scores and hash fields are
  the exact numbers that the clients write.  Time-to-live only ever removes keys: it is the separate
  step \<open>db_evict\<close>.  Trimming of streams beyond their maximal length is left out.
\<close>

section \<open>Data\<close>

datatype payload =
    Text string
  | Number int
  | Iso datetime
  | QuoteJson quote_input
  | CandleJson base_candle
  | FieldsJson "(string \<times> payload) list"
  | TextList "string list"

text \<open>\<open>str(value)\<close> of a reply that is not a JSON document.\<close>

fun payload_text :: "payload \<Rightarrow> string" where
  "payload_text (Text s) = s"
| "payload_text (Number n) = string_of_int n"
| "payload_text _ = []"

type_synonym entry = "(string, payload) dict"

record redis_db =
  kv :: "string \<Rightarrow> payload option"
  zset :: "string \<Rightarrow> (string, rat) dict"
  sset :: "string \<Rightarrow> string set"
  hash :: "string \<Rightarrow> string \<Rightarrow> rat option"
  stream :: "string \<Rightarrow> (string \<times> entry) list"
  pel :: "string \<Rightarrow> string \<Rightarrow> string set"
  published :: "(string \<times> payload) list"

definition empty_db :: redis_db where
  "empty_db = \<lparr>kv = (\<lambda>_. None), zset = (\<lambda>_. []), sset = (\<lambda>_. {}), hash = (\<lambda>_ _. None),
     stream = (\<lambda>_. []), pel = (\<lambda>_ _. {}), published = []\<rparr>"

text \<open>The commands, with the replies the gateway uses.\<close>

record 'r redis_ops =
  get_cmd :: "'r \<Rightarrow> string \<Rightarrow> payload option"
  set_cmd :: "'r \<Rightarrow> string \<Rightarrow> payload \<Rightarrow> 'r"
  setnx_cmd :: "'r \<Rightarrow> string \<Rightarrow> payload \<Rightarrow> bool \<times> 'r"
  del_cmd :: "'r \<Rightarrow> string \<Rightarrow> 'r"
  incr_cmd :: "'r \<Rightarrow> string \<Rightarrow> int result \<times> 'r"
  expire_cmd :: "'r \<Rightarrow> string \<Rightarrow> int \<Rightarrow> 'r"
  zadd_cmd :: "'r \<Rightarrow> string \<Rightarrow> rat \<Rightarrow> string \<Rightarrow> bool \<times> 'r"
  zrem_cmd :: "'r \<Rightarrow> string \<Rightarrow> string \<Rightarrow> bool \<times> 'r"
  zremrangebyscore_cmd :: "'r \<Rightarrow> string \<Rightarrow> rat \<Rightarrow> 'r"
  zcard_cmd :: "'r \<Rightarrow> string \<Rightarrow> nat"
  zrangebyscore_cmd :: "'r \<Rightarrow> string \<Rightarrow> rat \<Rightarrow> rat \<Rightarrow> string list"
  sadd_cmd :: "'r \<Rightarrow> string \<Rightarrow> string \<Rightarrow> 'r"
  srem_cmd :: "'r \<Rightarrow> string \<Rightarrow> string \<Rightarrow> 'r"
  smembers_cmd :: "'r \<Rightarrow> string \<Rightarrow> string set"
  hget_cmd :: "'r \<Rightarrow> string \<Rightarrow> string \<Rightarrow> rat option"
  hset_cmd :: "'r \<Rightarrow> string \<Rightarrow> string \<Rightarrow> rat \<Rightarrow> 'r"
  xadd_cmd :: "'r \<Rightarrow> string \<Rightarrow> entry \<Rightarrow> string \<times> 'r"
  xack_cmd :: "'r \<Rightarrow> string \<Rightarrow> string \<Rightarrow> string \<Rightarrow> 'r"
  publish_cmd :: "'r \<Rightarrow> string \<Rightarrow> payload \<Rightarrow> 'r"

section \<open>The commands on the data\<close>

text \<open>\<open>int(s)\<close> of Python and \<open>INCR\<close> of Redis on a stored value.\<close>

fun int_of_payload :: "payload \<Rightarrow> int result" where
  "int_of_payload (Number n) = Inr n"
| "int_of_payload _ = Inl (ValueError ''invalid literal for int()'')"

definition db_setnx :: "redis_db \<Rightarrow> string \<Rightarrow> payload \<Rightarrow> bool \<times> redis_db" where
  "db_setnx d k v = (if kv d k = None then (True, d\<lparr>kv := (kv d)(k := Some v)\<rparr>) else (False, d))"

definition db_incr :: "redis_db \<Rightarrow> string \<Rightarrow> int result \<times> redis_db" where
  "db_incr d k =
     (case (case kv d k of None \<Rightarrow> Inr 0 | Some s \<Rightarrow> int_of_payload s) of
        Inl _ \<Rightarrow> (Inl (RedisError ''value is not an integer''), d)
      | Inr n \<Rightarrow> (Inr (n + 1), d\<lparr>kv := (kv d)(k := Some (Number (n + 1)))\<rparr>))"

definition db_zadd :: "redis_db \<Rightarrow> string \<Rightarrow> rat \<Rightarrow> string \<Rightarrow> bool \<times> redis_db" where
  "db_zadd d k score m =
     (dict_get (zset d k) m = None, d\<lparr>zset := (zset d)(k := dict_set m score (zset d k))\<rparr>)"

definition db_zrem :: "redis_db \<Rightarrow> string \<Rightarrow> string \<Rightarrow> bool \<times> redis_db" where
  "db_zrem d k m =
     (dict_get (zset d k) m \<noteq> None, d\<lparr>zset := (zset d)(k := dict_pop m (zset d k))\<rparr>)"

definition db_zremrangebyscore :: "redis_db \<Rightarrow> string \<Rightarrow> rat \<Rightarrow> redis_db" where
  "db_zremrangebyscore d k bound = d\<lparr>zset := (zset d)(k := filter (\<lambda>p. bound < snd p) (zset d k))\<rparr>"

text \<open>Members come by score, members of equal score in lexicographic order.\<close>

definition db_zrangebyscore :: "redis_db \<Rightarrow> string \<Rightarrow> rat \<Rightarrow> rat \<Rightarrow> string list" where
  "db_zrangebyscore d k lo hi =
     map fst (sort_key (\<lambda>p. (snd p, fst p)) (filter (\<lambda>p. lo \<le> snd p \<and> snd p \<le> hi) (zset d k)))"

definition next_stream_id :: "redis_db \<Rightarrow> string \<Rightarrow> string" where
  "next_stream_id d k = string_of_nat (Suc (length (stream d k))) @ ''-0''"

definition db_xadd :: "redis_db \<Rightarrow> string \<Rightarrow> entry \<Rightarrow> string \<times> redis_db" where
  "db_xadd d k flds =
     (next_stream_id d k, d\<lparr>stream := (stream d)(k := stream d k @ [(next_stream_id d k, flds)])\<rparr>)"

definition db_ops :: "redis_db redis_ops" where
  "db_ops =
     \<lparr>get_cmd = kv, set_cmd = (\<lambda>d k v. d\<lparr>kv := (kv d)(k := Some v)\<rparr>), setnx_cmd = db_setnx,
      del_cmd = (\<lambda>d k. d\<lparr>kv := (kv d)(k := None), sset := (sset d)(k := {})\<rparr>),
      incr_cmd = db_incr, expire_cmd = (\<lambda>d k t. d),
      zadd_cmd = db_zadd, zrem_cmd = db_zrem, zremrangebyscore_cmd = db_zremrangebyscore,
      zcard_cmd = (\<lambda>d k. length (zset d k)), zrangebyscore_cmd = db_zrangebyscore,
      sadd_cmd = (\<lambda>d k m. d\<lparr>sset := (sset d)(k := insert m (sset d k))\<rparr>),
      srem_cmd = (\<lambda>d k m. d\<lparr>sset := (sset d)(k := sset d k - {m})\<rparr>),
      smembers_cmd = sset, hget_cmd = hash,
      hset_cmd = (\<lambda>d k f v. d\<lparr>hash := (hash d)(k := (hash d k)(f := Some v))\<rparr>),
      xadd_cmd = db_xadd,
      xack_cmd = (\<lambda>d k g i. d\<lparr>pel := (pel d)(k := (pel d k)(g := pel d k g - {i}))\<rparr>),
      publish_cmd = (\<lambda>d c m. d\<lparr>published := published d @ [(c, m)]\<rparr>)\<rparr>"

text \<open>Expiry of a key whose time to live has passed.\<close>

definition db_evict :: "redis_db \<Rightarrow> string \<Rightarrow> redis_db" where
  "db_evict d k = d\<lparr>kv := (kv d)(k := None), zset := (zset d)(k := []), sset := (sset d)(k := {}),
     hash := (hash d)(k := (\<lambda>_. None))\<rparr>"

section \<open>The documented behaviour\<close>

locale redis =
  fixes R :: "'r redis_ops" and db :: "'r \<Rightarrow> redis_db"
  assumes get [simp]: "get_cmd R r k = kv (db r) k"
    and set [simp]: "db (set_cmd R r k v) = (db r)\<lparr>kv := (kv (db r))(k := Some v)\<rparr>"
    and setnx [simp]: "fst (setnx_cmd R r k v) = fst (db_setnx (db r) k v)"
      "db (snd (setnx_cmd R r k v)) = snd (db_setnx (db r) k v)"
    and del [simp]: "db (del_cmd R r k) = (db r)\<lparr>kv := (kv (db r))(k := None), sset := (sset (db r))(k := {})\<rparr>"
    and incr [simp]: "fst (incr_cmd R r k) = fst (db_incr (db r) k)"
      "db (snd (incr_cmd R r k)) = snd (db_incr (db r) k)"
    and expire [simp]: "db (expire_cmd R r k t) = db r"
    and zadd [simp]: "fst (zadd_cmd R r k score m) = fst (db_zadd (db r) k score m)"
      "db (snd (zadd_cmd R r k score m)) = snd (db_zadd (db r) k score m)"
    and zrem [simp]: "fst (zrem_cmd R r k m) = fst (db_zrem (db r) k m)"
      "db (snd (zrem_cmd R r k m)) = snd (db_zrem (db r) k m)"
    and zremrangebyscore [simp]: "db (zremrangebyscore_cmd R r k bound) = db_zremrangebyscore (db r) k bound"
    and zcard [simp]: "zcard_cmd R r k = length (zset (db r) k)"
    and zrangebyscore [simp]: "zrangebyscore_cmd R r k lo hi = db_zrangebyscore (db r) k lo hi"
    and sadd [simp]: "db (sadd_cmd R r k m) = (db r)\<lparr>sset := (sset (db r))(k := insert m (sset (db r) k))\<rparr>"
    and srem [simp]: "db (srem_cmd R r k m) = (db r)\<lparr>sset := (sset (db r))(k := sset (db r) k - {m})\<rparr>"
    and smembers [simp]: "smembers_cmd R r k = sset (db r) k"
    and hget [simp]: "hget_cmd R r k f = hash (db r) k f"
    and hset [simp]: "db (hset_cmd R r k f x) = (db r)\<lparr>hash := (hash (db r))(k := (hash (db r) k)(f := Some x))\<rparr>"
    and xadd [simp]: "db (snd (xadd_cmd R r k flds)) =
      (db r)\<lparr>stream := (stream (db r))(k := stream (db r) k @ [(fst (xadd_cmd R r k flds), flds)])\<rparr>"
    and xack [simp]: "db (xack_cmd R r k g i) = (db r)\<lparr>pel := (pel (db r))(k := (pel (db r) k)(g := pel (db r) k g - {i}))\<rparr>"
    and publish [simp]: "db (publish_cmd R r c v) = (db r)\<lparr>published := published (db r) @ [(c, v)]\<rparr>"

interpretation mem: redis db_ops id
  by unfold_locales (simp_all add: db_ops_def db_xadd_def)

lemma mem_redis: "redis db_ops id"
  by unfold_locales

subsection \<open>Sorted sets of expiring members\<close>

text \<open>
  The idiom of the registries: a sorted set whose scores are expiry times, purged before it is read.
\<close>

definition live :: "redis_db \<Rightarrow> string \<Rightarrow> rat \<Rightarrow> string set" where
  "live d k now = {m. \<exists>t. dict_get (zset d k) m = Some t \<and> now < t}"

definition zset_ok :: "redis_db \<Rightarrow> bool" where
  "zset_ok d \<longleftrightarrow> (\<forall>k. dict_ok (zset d k))"

lemma dict_get_filter:
  "dict_ok d \<Longrightarrow> dict_get (filter (\<lambda>p. P (snd p)) d) m = (case dict_get d m of None \<Rightarrow> None | Some v \<Rightarrow> if P v then Some v else None)"
proof (induction d)
  case (Cons p d)
  then have "fst p \<notin> fst ` set d" by (auto simp: dict_ok_def)
  then have "dict_get d (fst p) = None" by (simp add: map_of_eq_None_iff)
  with Cons show ?case by (cases p) (auto simp: dict_ok_def split: option.splits)
qed simp

lemma dict_ok_filter: "dict_ok d \<Longrightarrow> dict_ok (filter P d)"
  by (simp add: dict_ok_def distinct_map_filter)

lemma zset_ok_purge: "zset_ok d \<Longrightarrow> zset_ok (db_zremrangebyscore d k bound)"
  by (simp add: zset_ok_def db_zremrangebyscore_def dict_ok_filter)

lemma zset_ok_add: "zset_ok d \<Longrightarrow> zset_ok (snd (db_zadd d k s m))"
  by (simp add: zset_ok_def db_zadd_def)

lemma zset_ok_rem: "zset_ok d \<Longrightarrow> zset_ok (snd (db_zrem d k m))"
  by (simp add: zset_ok_def db_zrem_def)

lemma purge_get:
  "zset_ok d \<Longrightarrow> dict_get (zset (db_zremrangebyscore d k bound) k) m =
    (case dict_get (zset d k) m of None \<Rightarrow> None | Some t \<Rightarrow> if bound < t then Some t else None)"
  by (simp add: db_zremrangebyscore_def dict_get_filter zset_ok_def)

lemma purge_members:
  "zset_ok d \<Longrightarrow> set (dict_keys (zset (db_zremrangebyscore d k now) k)) = live d k now"
  by (auto simp: in_keys_iff live_def purge_get split: option.splits if_splits)

lemma card_members: "zset_ok d \<Longrightarrow> length (zset d k) = card (set (dict_keys (zset d k)))"
  by (metis dict_keys_def dict_ok_def distinct_card length_map zset_ok_def)

lemma finite_live [simp]: "zset_ok d \<Longrightarrow> finite (live d k now)"
  by (simp flip: purge_members)

lemma purge_card: "zset_ok d \<Longrightarrow> length (zset (db_zremrangebyscore d k now) k) = card (live d k now)"
  by (simp add: card_members zset_ok_purge purge_members)

end
