(* ===== verification/Rate_Limits.thy ===== *)
theory Rate_Limits
  imports Redis
begin

text \<open>
  The distributed limits: the token bucket of \<open>rate_limit.py\<close>, the limiter of \<open>security.py\<close> on top
  of it, and the connection registry of \<open>connections.py\<close>.  The Lua scripts are the compositions of
  their commands.  The lemmas show that a bucket never admits more than its capacity and refill allow,
  that expiry of an idle bucket is unobservable, and that a client never holds more connections than
  its tier permits.
\<close>

section \<open>Token bucket\<close>

definition tokens_field :: string where "tokens_field = ''tokens''"
definition updated_field :: string where "updated_field = ''updated_at''"

definition token_bucket_script ::
  "'r redis_ops \<Rightarrow> 'r \<Rightarrow> string \<Rightarrow> rat \<Rightarrow> rat \<Rightarrow> rat \<Rightarrow> rat \<Rightarrow> int \<Rightarrow> ((bool \<times> rat) result) \<times> 'r" where
  "token_bucket_script R r key now capacity refill_rate cost ttl =
     (let state = (hget_cmd R r key tokens_field, hget_cmd R r key updated_field) in
      case (case state of
              (None, _) \<Rightarrow> Inr capacity
            | (Some tokens, Some updated_at) \<Rightarrow> Inr (min capacity (tokens + max 0 (now - updated_at) * refill_rate))
            | (Some tokens, None) \<Rightarrow> Inl (RedisError ''attempt to perform arithmetic on a nil value'')) of
        Inl e \<Rightarrow> (Inl e, r)
      | Inr tokens \<Rightarrow>
          (let allowed = cost \<le> tokens;
               tokens' = (if allowed then tokens - cost else tokens);
               r1 = hset_cmd R (hset_cmd R r key tokens_field tokens') key updated_field now
           in (Inr (allowed, tokens'), expire_cmd R r1 key ttl)))"

definition bucket_capacity :: "int \<Rightarrow> int option \<Rightarrow> int" where
  "bucket_capacity requests_per_minute burst_capacity =
     (case burst_capacity of
        Some c \<Rightarrow> if c = 0 then max 5 \<lceil>of_int requests_per_minute / (6::rat)\<rceil> else c
      | None \<Rightarrow> max 5 \<lceil>of_int requests_per_minute / (6::rat)\<rceil>)"

definition refill_rate_of :: "int \<Rightarrow> rat" where
  "refill_rate_of requests_per_minute = of_int requests_per_minute / 60"

definition bucket_ttl :: "int \<Rightarrow> int \<Rightarrow> int" where
  "bucket_ttl capacity requests_per_minute =
     max 60 \<lceil>of_int capacity / refill_rate_of requests_per_minute * 2\<rceil>"

definition bucket_key :: "string \<Rightarrow> string" where
  "bucket_key key = ''smdg:token-bucket:'' @ key"

definition bucket_allow ::
  "'r redis_ops \<Rightarrow> 'r \<Rightarrow> string \<Rightarrow> int \<Rightarrow> int \<Rightarrow> int option \<Rightarrow> rat \<Rightarrow> ((bool \<times> rat) result) \<times> 'r" where
  "bucket_allow R r key requests_per_minute cost burst_capacity now =
     (if requests_per_minute \<le> 0 then (Inr (False, 0), r)
      else
        let capacity = bucket_capacity requests_per_minute burst_capacity in
        token_bucket_script R r (bucket_key key) now (of_int capacity) (refill_rate_of requests_per_minute)
          (of_int cost) (bucket_ttl capacity requests_per_minute))"

text \<open>\<open>DistributedRateLimiter.allow\<close> of \<open>security.py\<close>.\<close>

definition limiter_allow ::
  "'r redis_ops \<Rightarrow> 'r \<Rightarrow> string \<Rightarrow> client_identity \<Rightarrow> int \<Rightarrow> rat \<Rightarrow> bool result \<times> 'r" where
  "limiter_allow R r scope identity limit now =
     (let (m, r') = bucket_allow R r (scope @ '':'' @ ci_client_id identity) limit 1 None now
      in (bindE m (\<lambda>(allowed, _). Inr allowed), r'))"

text \<open>The contents of a bucket, refilled up to a time.\<close>

definition bucket_level :: "redis_db \<Rightarrow> string \<Rightarrow> rat \<Rightarrow> rat \<Rightarrow> rat \<Rightarrow> rat" where
  "bucket_level d key capacity refill_rate now =
     (case (hash d key tokens_field, hash d key updated_field) of
        (Some tokens, Some updated_at) \<Rightarrow> min capacity (tokens + max 0 (now - updated_at) * refill_rate)
      | _ \<Rightarrow> capacity)"

definition bucket_ok :: "redis_db \<Rightarrow> string \<Rightarrow> rat \<Rightarrow> bool" where
  "bucket_ok d key now \<longleftrightarrow>
     (case (hash d key tokens_field, hash d key updated_field) of
        (None, None) \<Rightarrow> True
      | (Some tokens, Some updated_at) \<Rightarrow> 0 \<le> tokens \<and> updated_at \<le> now
      | _ \<Rightarrow> False)"

lemma fields_differ [simp]: "tokens_field \<noteq> updated_field" "updated_field \<noteq> tokens_field"
  by (simp_all add: tokens_field_def updated_field_def)

context redis
begin

lemma token_bucket:
  assumes "bucket_ok (db r) key now" "0 \<le> refill" "0 \<le> capacity" "0 \<le> cost"
    and script: "token_bucket_script R r key now capacity refill cost ttl = (m, r')"
  defines "level \<equiv> bucket_level (db r) key capacity refill now"
  shows "m = Inr (cost \<le> level, if cost \<le> level then level - cost else level)"
    "bucket_ok (db r') key now"
    "hash (db r') key tokens_field = Some (if cost \<le> level then level - cost else level)"
    "hash (db r') key updated_field = Some now"
    "k \<noteq> key \<Longrightarrow> hash (db r') k = hash (db r) k"
proof -
  let ?left = "if cost \<le> level then level - cost else level"
  have level: "0 \<le> level"
    using assms(1-3) by (auto simp: level_def bucket_level_def bucket_ok_def split: option.splits)
  have "(m, r') = (Inr (cost \<le> level, ?left),
      expire_cmd R (hset_cmd R (hset_cmd R r key tokens_field ?left) key updated_field now) key ttl)"
    using assms(1) script
    by (auto simp: token_bucket_script_def level_def bucket_level_def bucket_ok_def Let_def split: option.splits)
  then show "m = Inr (cost \<le> level, ?left)" "hash (db r') key tokens_field = Some ?left"
    "hash (db r') key updated_field = Some now" "k \<noteq> key \<Longrightarrow> hash (db r') k = hash (db r) k"
    by simp_all
  with level assms(4) show "bucket_ok (db r') key now" by (simp add: bucket_ok_def)
qed

end

text \<open>A sequence of unit requests on one bucket, and how many of them are admitted.\<close>

fun run_bucket :: "'r redis_ops \<Rightarrow> 'r \<Rightarrow> string \<Rightarrow> int \<Rightarrow> int option \<Rightarrow> rat list \<Rightarrow> nat \<times> 'r" where
  "run_bucket R r key rpm burst [] = (0, r)"
| "run_bucket R r key rpm burst (now # ts) =
     (let (m, r1) = bucket_allow R r key rpm 1 burst now;
          (n, r2) = run_bucket R r1 key rpm burst ts
      in (case m of Inr (True, _) \<Rightarrow> Suc n | _ \<Rightarrow> n, r2))"

lemma bucket_capacity_pos: "0 \<le> bucket_capacity rpm burst \<or> (\<exists>c. burst = Some c \<and> c < 0)"
  by (auto simp: bucket_capacity_def split: option.splits)

lemma bucket_level_le:
  "bucket_level d key capacity refill now \<le> capacity"
  by (auto simp: bucket_level_def split: option.splits)

lemma bucket_level_refill:
  assumes "bucket_ok d key t" "t \<le> now" "0 \<le> refill" "0 \<le> capacity"
  shows "bucket_level d key capacity refill now \<le> bucket_level d key capacity refill t + (now - t) * refill"
proof (cases "hash d key tokens_field")
  case None
  with assms show ?thesis by (auto simp: bucket_level_def bucket_ok_def split: option.splits)
next
  case (Some tokens)
  with assms(1) obtain u where u: "hash d key updated_field = Some u" "u \<le> t"
    by (auto simp: bucket_ok_def split: option.splits)
  have "(now - u) * refill = (t - u) * refill + (now - t) * refill" by (simp add: algebra_simps)
  moreover have "0 \<le> (now - t) * refill" using assms by simp
  ultimately show ?thesis using Some u assms(2) by (auto simp: bucket_level_def min_def)
qed

context redis
begin

lemma run_bucket_bound:
  assumes "bucket_ok (db r) (bucket_key key) t0" "0 < rpm" "0 \<le> bucket_capacity rpm burst"
    "sorted (t0 # ts)" "run_bucket R r key rpm burst ts = (n, r')"
  shows "of_nat n \<le> bucket_level (db r) (bucket_key key) (of_int (bucket_capacity rpm burst)) (refill_rate_of rpm) t0
    + (last (t0 # ts) - t0) * refill_rate_of rpm"
  using assms
proof (induction ts arbitrary: r t0 n r')
  case Nil
  then show ?case by (auto simp: bucket_level_def bucket_ok_def refill_rate_of_def split: option.splits)
next
  case (Cons now ts)
  let ?k = "bucket_key key" and ?c = "of_int (bucket_capacity rpm burst) :: rat" and ?f = "refill_rate_of rpm"
  have f: "0 \<le> ?f" using Cons.prems(2) by (simp add: refill_rate_of_def)
  have c: "0 \<le> ?c" using Cons.prems(3) by simp
  have t: "t0 \<le> now" "sorted (now # ts)" using Cons.prems(4) by auto
  have ok: "bucket_ok (db r) ?k now"
    using Cons.prems(1) t(1) by (auto simp: bucket_ok_def split: option.splits)
  obtain m r1 where m: "bucket_allow R r key rpm 1 burst now = (m, r1)" by (cases "bucket_allow R r key rpm 1 burst now")
  obtain k r2 where k: "run_bucket R r1 key rpm burst ts = (k, r2)" by (cases "run_bucket R r1 key rpm burst ts")
  let ?L = "bucket_level (db r) ?k ?c ?f now"
  have "token_bucket_script R r ?k now ?c ?f 1 (bucket_ttl (bucket_capacity rpm burst) rpm) = (m, r1)"
    using m Cons.prems(2) by (simp add: bucket_allow_def Let_def)
  note b = token_bucket [OF ok f c zero_le_one this]
  have L1: "bucket_level (db r1) ?k ?c ?f now = (if 1 \<le> ?L then ?L - 1 else ?L)"
    using b(3,4) bucket_level_le [of "db r" ?k ?c ?f now] by (auto simp: bucket_level_def)
  have IH: "of_nat k \<le> bucket_level (db r1) ?k ?c ?f now + (last (now # ts) - now) * ?f"
    using Cons.IH [OF b(2) Cons.prems(2,3) t(2) k] .
  have n: "of_nat n = (if 1 \<le> ?L then of_nat k + 1 else (of_nat k :: rat))"
    using Cons.prems(5) m k b(1) by (auto simp: Let_def split: if_splits)
  have "?L \<le> bucket_level (db r) ?k ?c ?f t0 + (now - t0) * ?f"
    using bucket_level_refill [OF Cons.prems(1) t(1) f c] .
  moreover have "(last (now # ts) - t0) * ?f = (now - t0) * ?f + (last (now # ts) - now) * ?f"
    by (simp add: algebra_simps)
  moreover have "last (t0 # now # ts) = last (now # ts)" by simp
  ultimately show ?case using IH L1 n by (auto split: if_splits)
qed

end

text \<open>By the time an idle bucket may expire, it has refilled, so its expiry changes nothing.\<close>

lemma bucket_full_at_ttl:
  assumes "hash d key tokens_field = Some tokens" "hash d key updated_field = Some u" "0 \<le> tokens"
    "0 < rpm" "u + of_int (bucket_ttl capacity rpm) \<le> now" "0 \<le> capacity"
  shows "bucket_level d key (of_int capacity) (refill_rate_of rpm) now = of_int capacity"
proof -
  let ?f = "refill_rate_of rpm"
  have f: "0 < ?f" using assms(4) by (simp add: refill_rate_of_def)
  have "of_int capacity / ?f * 2 \<le> of_int (bucket_ttl capacity rpm)"
    unfolding bucket_ttl_def by (meson le_of_int_ceiling max.cobounded2 of_int_le_iff order_trans)
  then have "of_int capacity / ?f * 2 \<le> now - u" using assms(5) by linarith
  then have "of_int capacity / ?f * 2 * ?f \<le> (now - u) * ?f" using f by (intro mult_right_mono) auto
  then have "of_int capacity * 2 \<le> (now - u) * ?f" using f by simp
  moreover have "(now - u) * ?f \<le> max 0 (now - u) * ?f" using f by (intro mult_right_mono) auto
  moreover have "(0::rat) \<le> of_int capacity" using assms(6) by simp
  ultimately have "of_int capacity \<le> tokens + max 0 (now - u) * ?f" using assms(3) by linarith
  then show ?thesis using assms(1,2) by (simp add: bucket_level_def)
qed

section \<open>Connection registry\<close>

definition client_key :: "string \<Rightarrow> string" where
  "client_key client_id = ''smdg:connections:client:'' @ client_id"

definition owner_key :: "string \<Rightarrow> string" where
  "owner_key connection_id = ''smdg:connections:owner:'' @ connection_id"

definition acquire_script ::
  "'r redis_ops \<Rightarrow> 'r \<Rightarrow> string \<Rightarrow> string \<Rightarrow> rat \<Rightarrow> rat \<Rightarrow> string \<Rightarrow> int \<Rightarrow> int \<Rightarrow> string \<Rightarrow> (bool \<times> int) \<times> 'r" where
  "acquire_script R r key1 key2 now expires_at connection_id max_conns ttl client_id =
     (let r1 = zremrangebyscore_cmd R r key1 now;
          r2 = snd (zadd_cmd R r1 key1 expires_at connection_id);
          count = int (zcard_cmd R r2 key1)
      in if max_conns < count
         then ((False, count - 1), snd (zrem_cmd R r2 key1 connection_id))
         else ((True, count), expire_cmd R (expire_cmd R (set_cmd R r2 key2 (Text client_id)) key2 ttl) key1 (ttl * 2)))"

definition acquire ::
  "'r redis_ops \<Rightarrow> 'r \<Rightarrow> int \<Rightarrow> string \<Rightarrow> string \<Rightarrow> int \<Rightarrow> rat \<Rightarrow> (bool \<times> int) \<times> 'r" where
  "acquire R r ttl client_id connection_id max_conns now =
     acquire_script R r (client_key client_id) (owner_key connection_id) now (now + of_int ttl)
       connection_id max_conns ttl client_id"

definition connection_heartbeat :: "'r redis_ops \<Rightarrow> 'r \<Rightarrow> int \<Rightarrow> string \<Rightarrow> rat \<Rightarrow> 'r" where
  "connection_heartbeat R r ttl connection_id now =
     (case get_cmd R r (owner_key connection_id) of
        None \<Rightarrow> r
      | Some v \<Rightarrow>
          (let client_id = payload_text v;
               r1 = snd (zadd_cmd R r (client_key client_id) (now + of_int ttl) connection_id);
               r2 = expire_cmd R r1 (client_key client_id) (ttl * 2)
           in expire_cmd R r2 (owner_key connection_id) ttl))"

definition release :: "'r redis_ops \<Rightarrow> 'r \<Rightarrow> string \<Rightarrow> 'r" where
  "release R r connection_id =
     (case get_cmd R r (owner_key connection_id) of
        None \<Rightarrow> r
      | Some v \<Rightarrow>
          del_cmd R (snd (zrem_cmd R r (client_key (payload_text v)) connection_id)) (owner_key connection_id))"

definition connection_count :: "'r redis_ops \<Rightarrow> 'r \<Rightarrow> string \<Rightarrow> rat \<Rightarrow> nat \<times> 'r" where
  "connection_count R r client_id now =
     (let r1 = zremrangebyscore_cmd R r (client_key client_id) now
      in (zcard_cmd R r1 (client_key client_id), r1))"

lemma client_key_eq [simp]: "client_key a = client_key b \<longleftrightarrow> a = b"
  by (simp add: client_key_def)

lemma owner_key_eq [simp]: "owner_key a = owner_key b \<longleftrightarrow> a = b"
  by (simp add: owner_key_def)

lemma live_zadd:
  assumes "zset_ok d" "now < score"
  shows "live (snd (db_zadd d k score m)) k now = insert m (live d k now)"
  using assms by (auto simp: live_def db_zadd_def dict_simps split: if_splits)

lemma live_zrem: "live (snd (db_zrem d k m)) k now = live d k now - {m}"
  by (auto simp: live_def db_zrem_def dict_simps split: if_splits)

lemma live_purge: "zset_ok d \<Longrightarrow> live (db_zremrangebyscore d k now) k now = live d k now"
  by (auto simp: live_def purge_get split: option.splits if_splits)

lemma members_zadd: "set (dict_keys (zset (snd (db_zadd d k s m)) k)) = insert m (set (dict_keys (zset d k)))"
  by (simp add: db_zadd_def dict_keys_set)

lemma zset_other:
  "k' \<noteq> k \<Longrightarrow> zset (snd (db_zadd d k s m)) k' = zset d k'"
  "k' \<noteq> k \<Longrightarrow> zset (snd (db_zrem d k m)) k' = zset d k'"
  "k' \<noteq> k \<Longrightarrow> zset (db_zremrangebyscore d k b) k' = zset d k'"
  by (simp_all add: db_zadd_def db_zrem_def db_zremrangebyscore_def)

lemma live_cong: "zset d k = zset d' k' \<Longrightarrow> live d k now = live d' k' now"
  by (simp add: live_def)

context redis
begin

lemma acquire_effect:
  assumes ok: "zset_ok (db r)" and ttl: "0 < ttl"
    and a: "acquire R r ttl client_id cid max_conns now = ((granted, n), r')"
  defines "before \<equiv> live (db r) (client_key client_id) now"
  shows "granted \<longleftrightarrow> int (card (insert cid before)) \<le> max_conns"
    "live (db r') (client_key client_id) now = (if granted then insert cid before else before - {cid})"
    "n = int (card (insert cid before)) - (if granted then 0 else 1)"
    "zset_ok (db r')" "k \<noteq> client_key client_id \<Longrightarrow> zset (db r') k = zset (db r) k"
    "granted \<Longrightarrow> kv (db r') (owner_key cid) = Some (Text client_id)"
proof -
  let ?k = "client_key client_id"
  let ?d1 = "db_zremrangebyscore (db r) ?k now"
  let ?d2 = "snd (db_zadd ?d1 ?k (now + of_int ttl) cid)"
  have ok2: "zset_ok ?d2" by (intro zset_ok_add zset_ok_purge ok)
  have "set (dict_keys (zset ?d2 ?k)) = insert cid before"
    by (simp add: members_zadd purge_members ok before_def)
  then have count: "length (zset ?d2 ?k) = card (insert cid before)"
    by (simp only: card_members [OF ok2])
  have lt: "now < now + of_int ttl" using ttl by simp
  have live2: "live ?d2 ?k now = insert cid before"
    using live_zadd [OF zset_ok_purge [OF ok] lt, of ?k now ?k cid] by (simp add: live_purge ok before_def)
  have g: "granted \<longleftrightarrow> \<not> max_conns < int (card (insert cid before))"
    and n: "n = int (card (insert cid before)) - (if granted then 0 else 1)"
    and r': "db r' = (if granted then ?d2\<lparr>kv := (kv ?d2)(owner_key cid := Some (Text client_id))\<rparr> else snd (db_zrem ?d2 ?k cid))"
    using a count by (auto simp: acquire_def acquire_script_def Let_def split: if_splits)
  show "granted \<longleftrightarrow> int (card (insert cid before)) \<le> max_conns" using g by auto
  show "n = int (card (insert cid before)) - (if granted then 0 else 1)" by (rule n)
  have "live (?d2\<lparr>kv := x\<rparr>) ?k now = live ?d2 ?k now" for x by (simp add: live_def)
  then show "live (db r') ?k now = (if granted then insert cid before else before - {cid})"
    using live2 by (auto simp: r' live_zrem)
  show "zset_ok (db r')" using ok2 zset_ok_rem [OF ok2] by (auto simp: r' zset_ok_def)
  show "zset (db r') k = zset (db r) k" if "k \<noteq> ?k"
    using that by (simp add: r' zset_other)
  show "kv (db r') (owner_key cid) = Some (Text client_id)" if granted using that by (simp add: r')
qed

lemma heartbeat_effect:
  assumes "zset_ok (db r)" "0 < ttl" "kv (db r) (owner_key cid) = Some (Text client_id)"
  shows "live (db (connection_heartbeat R r ttl cid now)) (client_key client_id) now =
      insert cid (live (db r) (client_key client_id) now)"
    "zset_ok (db (connection_heartbeat R r ttl cid now))"
    "k \<noteq> client_key client_id \<Longrightarrow> zset (db (connection_heartbeat R r ttl cid now)) k = zset (db r) k"
  using assms by (simp_all add: connection_heartbeat_def Let_def live_zadd zset_ok_add zset_other)

lemma release_effect:
  assumes "zset_ok (db r)" "kv (db r) (owner_key cid) = Some (Text client_id)"
  shows "live (db (release R r cid)) (client_key client_id) now = live (db r) (client_key client_id) now - {cid}"
    "zset_ok (db (release R r cid))" "kv (db (release R r cid)) (owner_key cid) = None"
    "k \<noteq> client_key client_id \<Longrightarrow> zset (db (release R r cid)) k = zset (db r) k"
proof -
  let ?d = "snd (db_zrem (db r) (client_key client_id) cid)"
  have d: "db (release R r cid) = ?d\<lparr>kv := (kv ?d)(owner_key cid := None), sset := (sset ?d)(owner_key cid := {})\<rparr>"
    using assms(2) by (simp add: release_def)
  have "live (db (release R r cid)) (client_key client_id) now = live ?d (client_key client_id) now"
    by (rule live_cong) (simp add: d)
  then show "live (db (release R r cid)) (client_key client_id) now = live (db r) (client_key client_id) now - {cid}"
    by (simp add: live_zrem)
  show "zset_ok (db (release R r cid))" using zset_ok_rem [OF assms(1)] by (simp add: d zset_ok_def)
  show "kv (db (release R r cid)) (owner_key cid) = None" by (simp add: d)
  show "zset (db (release R r cid)) k = zset (db r) k" if "k \<noteq> client_key client_id"
    using that by (simp add: d zset_other)
qed

end

section \<open>Properties\<close>


text \<open>Expiry of an idle bucket is unobservable: once a bucket has been idle for the time to live that
  \<open>allow\<close> gives it, a request is answered the same whether or not Redis has dropped the key.\<close>

theorem bucket_expiry_unobservable:
  assumes "0 < rpm" "hash d (bucket_key key) tokens_field = Some tokens" "0 \<le> tokens"
    "hash d (bucket_key key) updated_field = Some u"
    "u + of_int (bucket_ttl (bucket_capacity rpm None) rpm) \<le> now"
  shows "fst (bucket_allow db_ops d key rpm cost None now) =
    fst (bucket_allow db_ops (db_evict d (bucket_key key)) key rpm cost None now)"
proof -
  have "0 \<le> bucket_capacity rpm None" by (simp add: bucket_capacity_def)
  from bucket_full_at_ttl [OF assms(2,4,3,1,5) this]
  have "min (of_int (bucket_capacity rpm None)) (tokens + max 0 (now - u) * refill_rate_of rpm) =
      of_int (bucket_capacity rpm None)"
    using assms(2,4) by (simp add: bucket_level_def)
  then have le: "of_int (bucket_capacity rpm None) \<le> tokens + max 0 (now - u) * refill_rate_of rpm"
    by (simp only: min.absorb_iff1)
  show ?thesis using assms(1,2,4)
    by (simp add: bucket_allow_def token_bucket_script_def db_ops_def db_evict_def Let_def min_absorb1 [OF le])
      (use le in \<open>meson of_int_le_iff order_trans\<close>)
qed

text \<open>The connection limit holds: \<open>acquire\<close> grants a connection exactly when the client's live
  connections, this one included, fit the limit; a grant adds only this connection, a refusal leaves
  the other connections as they were, and the reported count is the number of live connections.\<close>

theorem acquire_respects_limit:
  assumes "redis R db" "zset_ok (db r)" "0 < ttl"
    "acquire R r ttl client_id cid max_conns now = ((granted, n), r')"
  defines "before \<equiv> live (db r) (client_key client_id) now"
    and "after \<equiv> live (db r') (client_key client_id) now"
  shows "(granted \<longleftrightarrow> int (card (insert cid before)) \<le> max_conns) \<and>
    (granted \<longrightarrow> after = insert cid before \<and> n = int (card after) \<and> n \<le> max_conns) \<and>
    (\<not> granted \<longrightarrow> after = before - {cid} \<and> n = int (card after)) \<and>
    (\<forall>other. other \<noteq> client_id \<longrightarrow> live (db r') (client_key other) now = live (db r) (client_key other) now)"
proof -
  note e = redis.acquire_effect [OF assms(1-4), folded before_def after_def]
  have "finite before" using assms(2) by (simp add: before_def)
  then have "int (card (insert cid before)) - 1 = int (card (before - {cid}))"
    by (simp add: card.insert_remove)
  with e(1-3) e(5) show ?thesis by (auto intro!: live_cong)
qed

text \<open>After a granted connection is released the client's live connections are what they were before
  it was acquired, and its owner entry is gone.\<close>

theorem acquire_release_roundtrip:
  assumes "redis R db" "zset_ok (db r)" "0 < ttl" "cid \<notin> live (db r) (client_key client_id) now"
    "acquire R r ttl client_id cid max_conns now = ((True, n), r')"
  shows "live (db (release R r' cid)) (client_key client_id) now = live (db r) (client_key client_id) now \<and>
    kv (db (release R r' cid)) (owner_key cid) = None"
proof -
  note e = redis.acquire_effect [OF assms(1-3,5)]
  have "kv (db r') (owner_key cid) = Some (Text client_id)" using e(6) by simp
  with redis.release_effect [OF assms(1) e(4) this] e(2) assms(4) show ?thesis by simp
qed

section \<open>Witnesses\<close>


definition idle_bucket :: redis_db where
  "idle_bucket = empty_db\<lparr>hash := (\<lambda>_ f. if f = tokens_field then Some 0 else if f = updated_field then Some 5 else None)\<rparr>"

theorem bucket_expiry_unobservable_witness:
  "fst (bucket_allow db_ops idle_bucket ''rest:u'' 60 1 None 100) =
   fst (bucket_allow db_ops (db_evict idle_bucket (bucket_key ''rest:u'')) ''rest:u'' 60 1 None 100)"
  by (rule bucket_expiry_unobservable [of _ _ _ 0 5])
    (simp_all add: idle_bucket_def bucket_ttl_def bucket_capacity_def refill_rate_of_def)

lemma empty_db_ok: "zset_ok empty_db"
  by (simp add: zset_ok_def empty_db_def)

theorem acquire_respects_limit_witness:
  "\<exists>n r'. acquire db_ops empty_db 60 ''u'' ''c1'' 2 100 = ((True, n), r') \<and> n \<le> 2 \<and>
     live r' (client_key ''u'') 100 = {''c1''}"
proof -
  obtain g n r' where a: "acquire db_ops empty_db 60 ''u'' ''c1'' 2 100 = ((g, n), r')"
    by (metis surj_pair)
  have "live empty_db (client_key ''u'') 100 = {}" by (simp add: live_def empty_db_def)
  with acquire_respects_limit [OF mem_redis _ _ a] a empty_db_ok show ?thesis by auto
qed

theorem acquire_release_roundtrip_witness:
  "\<exists>n r'. acquire db_ops empty_db 60 ''u'' ''c1'' 2 100 = ((True, n), r') \<and>
     live (release db_ops r' ''c1'') (client_key ''u'') 100 = {}"
proof -
  have l: "live empty_db (client_key ''u'') 100 = {}" by (simp add: live_def empty_db_def)
  obtain n r' where a: "acquire db_ops empty_db 60 ''u'' ''c1'' 2 100 = ((True, n), r')"
    by (simp add: acquire_def acquire_script_def db_ops_def db_zadd_def db_zremrangebyscore_def empty_db_def Let_def)
  from acquire_release_roundtrip [OF mem_redis _ _ _ a] a l empty_db_ok show ?thesis by auto
qed

end
