(* ===== verification/Subscriptions.thy ===== *)
theory Subscriptions
  imports Rate_Limits
begin

text \<open>
  The subscription registry, \<open>subscriptions.py\<close>: which connections subscribe to which symbol, kept in
  Redis with expiry, and the first and last transitions that tell the collector to open or close the
  upstream subscription.  Scripts are atomic; between a script and the command that follows it other
  gateways may act, which the step relation \<open>sub_step\<close> makes explicit.

  The invariant is that a symbol with a live subscriber is active upstream or about to be activated.
  Three lemmas record where the registry falls short: a metrics refresh hides expired subscriptions from
  the cleanup, the cleanup misreads symbols that contain a colon, and a release racing with another
  gateway's subscribe leaves the collector unsubscribed.
\<close>

section \<open>Keys and scripts\<close>

definition symbol_key :: "string \<Rightarrow> string" where
  "symbol_key symbol = ''smdg:sub:symbol:'' @ symbol"

definition connection_key :: "string \<Rightarrow> string" where
  "connection_key connection_id = ''smdg:sub:connection:'' @ connection_id"

definition state_key :: "string \<Rightarrow> string" where
  "state_key symbol = ''smdg:sub:upstream-state:'' @ symbol"

lemma sub_key_eq [simp]:
  "symbol_key a = symbol_key b \<longleftrightarrow> a = b" "connection_key a = connection_key b \<longleftrightarrow> a = b"
  "state_key a = state_key b \<longleftrightarrow> a = b"
  by (simp_all add: symbol_key_def connection_key_def state_key_def)

definition subscribe_script ::
  "'r redis_ops \<Rightarrow> 'r \<Rightarrow> string \<Rightarrow> string \<Rightarrow> rat \<Rightarrow> rat \<Rightarrow> string \<Rightarrow> string \<Rightarrow> int \<Rightarrow> (nat \<times> nat \<times> bool) \<times> 'r" where
  "subscribe_script R r key1 key2 now expires_at connection_id symbol ttl =
     (let r1 = zremrangebyscore_cmd R r key1 now;
          before = zcard_cmd R r1 key1;
          (added, r2) = zadd_cmd R r1 key1 expires_at connection_id;
          r3 = sadd_cmd R r2 key2 symbol;
          r4 = expire_cmd R (expire_cmd R r3 key2 ttl) key1 (ttl * 2);
          after = zcard_cmd R r4 key1
      in ((before, after, added), r4))"

definition unsubscribe_script ::
  "'r redis_ops \<Rightarrow> 'r \<Rightarrow> string \<Rightarrow> string \<Rightarrow> rat \<Rightarrow> string \<Rightarrow> string \<Rightarrow> (bool \<times> nat) \<times> 'r" where
  "unsubscribe_script R r key1 key2 now connection_id symbol =
     (let r1 = zremrangebyscore_cmd R r key1 now;
          (removed, r2) = zrem_cmd R r1 key1 connection_id;
          r3 = srem_cmd R r2 key2 symbol
      in ((removed, zcard_cmd R r3 key1), r3))"

definition release_script :: "'r redis_ops \<Rightarrow> 'r \<Rightarrow> string \<Rightarrow> string \<Rightarrow> rat \<Rightarrow> bool \<times> 'r" where
  "release_script R r key1 key2 now =
     (let r1 = zremrangebyscore_cmd R r key1 now in
      if zcard_cmd R r1 key1 \<noteq> 0 then (False, r1)
      else if get_cmd R r1 key2 = Some (Text ''active'') then (True, del_cmd R r1 key2)
      else (False, r1))"

section \<open>The registry\<close>

record sub_config =
  sc_ttl_seconds :: int
  sc_control_stream :: string

text \<open>
  One gateway's registry: the server and the symbols with a release scheduled.  A scheduled release is
  a task that sleeps for the grace period; \<open>subscribe\<close> cancels it.
\<close>

record 'r registry =
  server :: 'r
  release_tasks :: "string set"

text \<open>\<open>RedisStore.publish_control\<close>; \<open>created_at\<close> is the current time as text.\<close>

definition publish_control :: "'r redis_ops \<Rightarrow> sub_config \<Rightarrow> 'r \<Rightarrow> string \<Rightarrow> string \<Rightarrow> string \<Rightarrow> 'r" where
  "publish_control R cfg r action symbol created_at =
     snd (xadd_cmd R r (sc_control_stream cfg)
       [(''action'', Text action), (''symbol'', Text symbol), (''created_at'', Text created_at)])"

definition activate :: "'r redis_ops \<Rightarrow> sub_config \<Rightarrow> string \<Rightarrow> string \<Rightarrow> 'r \<Rightarrow> 'r" where
  "activate R cfg created_at symbol r =
     (let (activated, r1) = setnx_cmd R r (state_key symbol) (Text ''active'')
      in if activated then publish_control R cfg r1 ''subscribe'' symbol created_at else r1)"

definition subscribe_one ::
  "'r redis_ops \<Rightarrow> sub_config \<Rightarrow> string \<Rightarrow> rat \<Rightarrow> string \<Rightarrow> string \<Rightarrow> string set \<times> 'r registry \<Rightarrow> string set \<times> 'r registry" where
  "subscribe_one R cfg connection_id now created_at symbol0 st =
     (let (added_symbols, reg) = st;
          symbol = py_upper symbol0;
          ((before, after, added), r1) = subscribe_script R (server reg) (symbol_key symbol)
             (connection_key connection_id) now (now + of_int (sc_ttl_seconds cfg)) connection_id symbol
             (sc_ttl_seconds cfg);
          r2 = (if after = 1 then activate R cfg created_at symbol r1 else r1)
      in (if added then insert symbol added_symbols else added_symbols,
          reg\<lparr>server := r2, release_tasks := release_tasks reg - {symbol}\<rparr>))"

definition schedule_release :: "string \<Rightarrow> 'r registry \<Rightarrow> 'r registry" where
  "schedule_release symbol reg = reg\<lparr>release_tasks := insert symbol (release_tasks reg)\<rparr>"

definition unsubscribe_one ::
  "'r redis_ops \<Rightarrow> sub_config \<Rightarrow> string \<Rightarrow> rat \<Rightarrow> string \<Rightarrow> string set \<times> 'r registry \<Rightarrow> string set \<times> 'r registry" where
  "unsubscribe_one R cfg connection_id now symbol0 st =
     (let (removed_symbols, reg) = st;
          symbol = py_upper symbol0;
          ((removed, after), r1) = unsubscribe_script R (server reg) (symbol_key symbol)
             (connection_key connection_id) now connection_id symbol;
          reg1 = reg\<lparr>server := r1\<rparr>
      in (if removed then insert symbol removed_symbols else removed_symbols,
          if after = 0 then schedule_release symbol reg1 else reg1))"

record sub_stats =
  ss_client_subscriptions :: nat
  ss_unique_symbols :: nat

text \<open>\<open>refresh_metrics\<close> on the keys that \<open>SCAN\<close> returned for \<open>smdg:sub:symbol:*\<close>.\<close>

fun refresh_metrics :: "'r redis_ops \<Rightarrow> rat \<Rightarrow> string list \<Rightarrow> 'r \<Rightarrow> sub_stats \<times> 'r" where
  "refresh_metrics R now [] r = (\<lparr>ss_client_subscriptions = 0, ss_unique_symbols = 0\<rparr>, r)"
| "refresh_metrics R now (key # keys) r =
     (let r1 = zremrangebyscore_cmd R r key now;
          count = zcard_cmd R r1 key;
          (stats, r2) = refresh_metrics R now keys r1
      in (\<lparr>ss_client_subscriptions = count + ss_client_subscriptions stats,
           ss_unique_symbols = (if count \<noteq> 0 then 1 else 0) + ss_unique_symbols stats\<rparr>, r2))"

definition refreshed :: "'r redis_ops \<Rightarrow> rat \<Rightarrow> string list \<Rightarrow> 'r registry \<Rightarrow> 'r registry" where
  "refreshed R now keys reg = reg\<lparr>server := snd (refresh_metrics R now keys (server reg))\<rparr>"

definition registry_subscribe ::
  "'r redis_ops \<Rightarrow> sub_config \<Rightarrow> string list \<Rightarrow> string \<Rightarrow> string \<Rightarrow> rat \<Rightarrow> string set \<Rightarrow> 'r registry \<Rightarrow> string set \<times> 'r registry" where
  "registry_subscribe R cfg scan created_at connection_id now symbols reg =
     (let (added, reg1) = foldl (\<lambda>st symbol. subscribe_one R cfg connection_id now created_at symbol st) ({}, reg)
                            (sorted_list_of_set symbols)
      in (added, refreshed R now scan reg1))"

definition registry_unsubscribe ::
  "'r redis_ops \<Rightarrow> sub_config \<Rightarrow> string list \<Rightarrow> string \<Rightarrow> rat \<Rightarrow> string set \<Rightarrow> 'r registry \<Rightarrow> string set \<times> 'r registry" where
  "registry_unsubscribe R cfg scan connection_id now symbols reg =
     (let (removed, reg1) = foldl (\<lambda>st symbol. unsubscribe_one R cfg connection_id now symbol st) ({}, reg)
                              (sorted_list_of_set symbols)
      in (removed, refreshed R now scan reg1))"

definition registry_heartbeat :: "'r redis_ops \<Rightarrow> sub_config \<Rightarrow> string \<Rightarrow> rat \<Rightarrow> 'r \<Rightarrow> 'r" where
  "registry_heartbeat R cfg connection_id now r =
     (let symbols = smembers_cmd R r (connection_key connection_id);
          ttl = sc_ttl_seconds cfg;
          beat = (\<lambda>r symbol. expire_cmd R
             (snd (zadd_cmd R r (symbol_key symbol) (now + of_int ttl) connection_id)) (symbol_key symbol) (ttl * 2))
      in if symbols = {} then r
         else expire_cmd R (foldl beat r (sorted_list_of_set symbols)) (connection_key connection_id) ttl)"

definition registry_disconnect ::
  "'r redis_ops \<Rightarrow> sub_config \<Rightarrow> string list \<Rightarrow> string \<Rightarrow> rat \<Rightarrow> 'r registry \<Rightarrow> string set \<times> 'r registry" where
  "registry_disconnect R cfg scan connection_id now reg =
     (let symbols = smembers_cmd R (server reg) (connection_key connection_id);
          (removed, reg1) = (if symbols \<noteq> {} then registry_unsubscribe R cfg scan connection_id now symbols reg
                             else ({}, reg))
      in (removed, reg1\<lparr>server := del_cmd R (server reg1) (connection_key connection_id)\<rparr>))"

text \<open>The end of \<open>_release_after_grace\<close>, once the grace period has passed.\<close>

definition release_after_grace ::
  "'r redis_ops \<Rightarrow> sub_config \<Rightarrow> string list \<Rightarrow> string \<Rightarrow> rat \<Rightarrow> string \<Rightarrow> 'r registry \<Rightarrow> 'r registry" where
  "release_after_grace R cfg scan created_at now symbol reg =
     (let (released, r1) = release_script R (server reg) (symbol_key symbol) (state_key symbol) now;
          r2 = (if released then publish_control R cfg r1 ''unsubscribe'' symbol created_at else r1)
      in refreshed R now scan (reg\<lparr>server := r2, release_tasks := release_tasks reg - {symbol}\<rparr>))"

text \<open>\<open>key.rsplit(":", 1)[-1]\<close>.\<close>

definition rsplit_last :: "string \<Rightarrow> string" where
  "rsplit_last key = last (py_split CHR '':'' key)"

fun cleanup_keys :: "'r redis_ops \<Rightarrow> rat \<Rightarrow> string list \<Rightarrow> 'r registry \<Rightarrow> 'r registry" where
  "cleanup_keys R now [] reg = reg"
| "cleanup_keys R now (key # keys) reg =
     (let symbol = rsplit_last key;
          before = zcard_cmd R (server reg) key;
          r1 = zremrangebyscore_cmd R (server reg) key now;
          after = zcard_cmd R r1 key;
          reg1 = reg\<lparr>server := r1\<rparr>
      in cleanup_keys R now keys (if before \<noteq> 0 \<and> after = 0 then schedule_release symbol reg1 else reg1))"

definition cleanup_expired :: "'r redis_ops \<Rightarrow> rat \<Rightarrow> string list \<Rightarrow> string list \<Rightarrow> 'r registry \<Rightarrow> 'r registry" where
  "cleanup_expired R now scan scan' reg = refreshed R now scan' (cleanup_keys R now scan reg)"

definition close_registry :: "'r registry \<Rightarrow> 'r registry" where
  "close_registry reg = reg\<lparr>release_tasks := {}\<rparr>"

section \<open>Effects\<close>

definition subscribers :: "redis_db \<Rightarrow> string \<Rightarrow> rat \<Rightarrow> string set" where
  "subscribers d symbol now = live d (symbol_key symbol) now"

definition upstream_active :: "redis_db \<Rightarrow> string \<Rightarrow> bool" where
  "upstream_active d symbol \<longleftrightarrow> kv d (state_key symbol) = Some (Text ''active'')"

definition control_log :: "sub_config \<Rightarrow> redis_db \<Rightarrow> (string \<times> string) list" where
  "control_log cfg d =
     map (\<lambda>(_, flds). (payload_text (dict_get_default flds ''action'' (Text [])),
        payload_text (dict_get_default flds ''symbol'' (Text []))))
       (stream d (sc_control_stream cfg))"

lemma live_sset [simp]: "live (d\<lparr>sset := x\<rparr>) k now = live d k now"
  by (simp add: live_def)

lemma live_kv [simp]: "live (d\<lparr>kv := x\<rparr>) k now = live d k now"
  by (simp add: live_def)

lemma live_stream [simp]: "live (d\<lparr>stream := x\<rparr>) k now = live d k now"
  by (simp add: live_def)

lemma zset_ok_fields [simp]:
  "zset_ok (d\<lparr>sset := x\<rparr>) = zset_ok d" "zset_ok (d\<lparr>kv := y\<rparr>) = zset_ok d" "zset_ok (d\<lparr>stream := z\<rparr>) = zset_ok d"
  by (simp_all add: zset_ok_def)

lemma live_zadd_other: "k \<noteq> k' \<Longrightarrow> live (snd (db_zadd d k' s m)) k now = live d k now"
  by (rule live_cong) (simp add: zset_other)

lemma live_zrem_other: "k \<noteq> k' \<Longrightarrow> live (snd (db_zrem d k' m)) k now = live d k now"
  by (rule live_cong) (simp add: zset_other)

lemma live_purge_any: "zset_ok d \<Longrightarrow> t \<le> now \<Longrightarrow> live (db_zremrangebyscore d k' t) k now = live d k now"
  by (cases "k = k'") (auto simp: live_def purge_get zset_other split: option.splits if_splits)

lemma live_mono: "t \<le> now \<Longrightarrow> live d k now \<subseteq> live d k t"
  by (auto simp: live_def intro: le_less_trans)

lemma kv_zset [simp]:
  "kv (snd (db_zadd d k s m)) = kv d" "kv (snd (db_zrem d k m)) = kv d" "kv (db_zremrangebyscore d k b) = kv d"
  "stream (snd (db_zadd d k s m)) = stream d" "stream (snd (db_zrem d k m)) = stream d"
  "stream (db_zremrangebyscore d k b) = stream d"
  "sset (snd (db_zadd d k s m)) = sset d" "sset (snd (db_zrem d k m)) = sset d" "sset (db_zremrangebyscore d k b) = sset d"
  by (simp_all add: db_zadd_def db_zrem_def db_zremrangebyscore_def)

context redis
begin

lemma subscribe_script_effect:
  assumes ok: "zset_ok (db r)" and t: "now < expires_at"
    and s: "subscribe_script R r k1 k2 now expires_at cid symbol ttl = ((before, after, added), r')"
  shows "after = card (insert cid (live (db r) k1 now))" "added \<longleftrightarrow> cid \<notin> live (db r) k1 now"
    "before = card (live (db r) k1 now)"
    "live (db r') k now = (if k = k1 then insert cid (live (db r) k1 now) else live (db r) k now)"
    "zset_ok (db r')" "kv (db r') = kv (db r)" "stream (db r') = stream (db r)"
    "sset (db r') = (sset (db r))(k2 := insert symbol (sset (db r) k2))"
proof -
  let ?d1 = "db_zremrangebyscore (db r) k1 now"
  let ?d2 = "snd (db_zadd ?d1 k1 expires_at cid)"
  have d: "db r' = ?d2\<lparr>sset := (sset ?d2)(k2 := insert symbol (sset ?d2 k2))\<rparr>"
    and b: "before = length (zset ?d1 k1)" and a: "after = length (zset ?d2 k1)"
    and ad: "added = (dict_get (zset ?d1 k1) cid = None)"
    using s by (auto simp: subscribe_script_def Let_def case_prod_beta) (simp_all add: db_zadd_def)
  have ok2: "zset_ok ?d2" by (intro zset_ok_add zset_ok_purge ok)
  show "before = card (live (db r) k1 now)" by (simp add: b purge_card ok)
  show "after = card (insert cid (live (db r) k1 now))"
    unfolding a card_members [OF ok2] by (simp only: members_zadd purge_members [OF ok])
  show "added \<longleftrightarrow> cid \<notin> live (db r) k1 now"
    by (simp add: ad dict_get_None purge_members ok)
  show "live (db r') k now = (if k = k1 then insert cid (live (db r) k1 now) else live (db r) k now)"
    using live_zadd [OF zset_ok_purge [OF ok] t]
    by (simp add: d live_zadd_other live_purge_any ok)
  show "zset_ok (db r')" using ok2 by (simp add: d)
  show "kv (db r') = kv (db r)" "stream (db r') = stream (db r)"
    "sset (db r') = (sset (db r))(k2 := insert symbol (sset (db r) k2))" by (simp_all add: d)
qed

lemma unsubscribe_script_effect:
  assumes ok: "zset_ok (db r)"
    and s: "unsubscribe_script R r k1 k2 now cid symbol = ((removed, after), r')"
  shows "removed \<longleftrightarrow> cid \<in> live (db r) k1 now" "after = card (live (db r) k1 now - {cid})"
    "live (db r') k now = (if k = k1 then live (db r) k1 now - {cid} else live (db r) k now)"
    "zset_ok (db r')" "kv (db r') = kv (db r)" "stream (db r') = stream (db r)"
    "sset (db r') = (sset (db r))(k2 := sset (db r) k2 - {symbol})"
proof -
  let ?d1 = "db_zremrangebyscore (db r) k1 now"
  let ?d2 = "snd (db_zrem ?d1 k1 cid)"
  have d: "db r' = ?d2\<lparr>sset := (sset ?d2)(k2 := sset ?d2 k2 - {symbol})\<rparr>"
    and a: "after = length (zset ?d2 k1)" and rm: "removed = (dict_get (zset ?d1 k1) cid \<noteq> None)"
    using s by (auto simp: unsubscribe_script_def Let_def case_prod_beta) (simp_all add: db_zrem_def)
  have ok2: "zset_ok ?d2" by (intro zset_ok_rem zset_ok_purge ok)
  have "set (dict_keys (zset ?d2 k1)) = live (db r) k1 now - {cid}"
    by (simp add: db_zrem_def dict_keys_pop purge_members [OF ok])
  then show "after = card (live (db r) k1 now - {cid})" unfolding a card_members [OF ok2] by simp
  show "removed \<longleftrightarrow> cid \<in> live (db r) k1 now"
    by (simp only: rm dict_get_None purge_members [OF ok] not_not)
  show "live (db r') k now = (if k = k1 then live (db r) k1 now - {cid} else live (db r) k now)"
    by (simp add: d live_zrem live_zrem_other live_purge_any ok)
  show "zset_ok (db r')" using ok2 by (simp add: d)
  show "kv (db r') = kv (db r)" "stream (db r') = stream (db r)"
    "sset (db r') = (sset (db r))(k2 := sset (db r) k2 - {symbol})" by (simp_all add: d)
qed

lemma release_script_effect:
  assumes ok: "zset_ok (db r)" and s: "release_script R r k1 k2 now = (released, r')"
  shows "released \<longleftrightarrow> live (db r) k1 now = {} \<and> kv (db r) k2 = Some (Text ''active'')"
    "live (db r') k now = live (db r) k now" "zset_ok (db r')"
    "kv (db r') = (if released then (kv (db r))(k2 := None) else kv (db r))" "stream (db r') = stream (db r)"
proof -
  let ?d1 = "db_zremrangebyscore (db r) k1 now"
  have "length (zset ?d1 k1) = 0 \<longleftrightarrow> live (db r) k1 now = {}"
    using purge_card [OF ok] ok by simp
  then have r: "released \<longleftrightarrow> live (db r) k1 now = {} \<and> kv (db r) k2 = Some (Text ''active'')"
    and d: "db r' = (if released then ?d1\<lparr>kv := (kv ?d1)(k2 := None), sset := (sset ?d1)(k2 := {})\<rparr> else ?d1)"
    using s by (auto simp: release_script_def Let_def split: if_splits)
  show "released \<longleftrightarrow> live (db r) k1 now = {} \<and> kv (db r) k2 = Some (Text ''active'')" by (rule r)
  show "live (db r') k now = live (db r) k now" by (simp add: d live_purge_any ok)
  show "zset_ok (db r')" by (simp add: d zset_ok_purge ok)
  show "kv (db r') = (if released then (kv (db r))(k2 := None) else kv (db r))" "stream (db r') = stream (db r)"
    by (simp_all add: d)
qed

lemma publish_control_effect:
  "live (db (publish_control R cfg r a symbol c)) k now = live (db r) k now"
  "zset_ok (db (publish_control R cfg r a symbol c)) = zset_ok (db r)"
  "kv (db (publish_control R cfg r a symbol c)) = kv (db r)"
  "control_log cfg (db (publish_control R cfg r a symbol c)) = control_log cfg (db r) @ [(a, symbol)]"
  by (simp_all add: publish_control_def control_log_def dict_get_default_def)

lemma activate_effect:
  "live (db (activate R cfg c symbol r)) k now = live (db r) k now"
  "zset_ok (db (activate R cfg c symbol r)) = zset_ok (db r)"
  "kv (db (activate R cfg c symbol r)) =
     (if kv (db r) (state_key symbol) = None then (kv (db r))(state_key symbol := Some (Text ''active'')) else kv (db r))"
  "control_log cfg (db (activate R cfg c symbol r)) =
     control_log cfg (db r) @ (if kv (db r) (state_key symbol) = None then [(''subscribe'', symbol)] else [])"
  by (auto simp: activate_def case_prod_beta publish_control_effect db_setnx_def)
    (auto simp: control_log_def)

lemma refresh_effect:
  assumes "zset_ok (db r)" "t \<le> now"
  shows "live (db (snd (refresh_metrics R t keys r))) k now = live (db r) k now \<and>
    zset_ok (db (snd (refresh_metrics R t keys r))) \<and> kv (db (snd (refresh_metrics R t keys r))) = kv (db r) \<and>
    control_log cfg (db (snd (refresh_metrics R t keys r))) = control_log cfg (db r)"
  using assms
  by (induction keys arbitrary: r)
    (simp_all add: Let_def case_prod_beta live_purge_any zset_ok_purge control_log_def)

text \<open>One symbol of \<open>subscribe\<close>: the connection becomes a subscriber, and the first one activates.\<close>

lemma subscribe_one_effect:
  assumes ok: "zset_ok (db (server reg))" and ttl: "0 < sc_ttl_seconds cfg"
    and s: "subscribe_one R cfg cid now c symbol0 (acc, reg) = (acc', reg')"
  defines "symbol \<equiv> py_upper symbol0" and "before \<equiv> subscribers (db (server reg)) (py_upper symbol0) now"
  shows "subscribers (db (server reg')) x now = (if x = symbol then insert cid before else subscribers (db (server reg)) x now)"
    "zset_ok (db (server reg'))"
    "acc' = (if cid \<in> before then acc else insert symbol acc)"
    "kv (db (server reg')) = (if before \<subseteq> {cid} \<and> kv (db (server reg)) (state_key symbol) = None
       then (kv (db (server reg)))(state_key symbol := Some (Text ''active'')) else kv (db (server reg)))"
    "control_log cfg (db (server reg')) = control_log cfg (db (server reg)) @
       (if before \<subseteq> {cid} \<and> kv (db (server reg)) (state_key symbol) = None then [(''subscribe'', symbol)] else [])"
    "release_tasks reg' = release_tasks reg - {symbol}"
proof -
  obtain b a ad r1 where sc: "subscribe_script R (server reg) (symbol_key symbol) (connection_key cid) now
      (now + of_int (sc_ttl_seconds cfg)) cid symbol (sc_ttl_seconds cfg) = ((b, a, ad), r1)"
    by (metis surj_pair)
  have lt: "now < now + of_int (sc_ttl_seconds cfg)" using ttl by simp
  note e = subscribe_script_effect [OF ok lt sc]
  have fin: "finite before" using ok by (simp add: before_def subscribers_def)
  have "card (insert cid before) = 1 \<longleftrightarrow> before \<subseteq> {cid}"
    using fin by (auto simp: card_1_singleton_iff)
  then have a1: "a = 1 \<longleftrightarrow> before \<subseteq> {cid}" using e(1) by (simp add: before_def subscribers_def symbol_def)
  have reg': "acc' = (if ad then insert symbol acc else acc)"
    "reg' = reg\<lparr>server := if a = 1 then activate R cfg c symbol r1 else r1, release_tasks := release_tasks reg - {symbol}\<rparr>"
    using s sc by (auto simp: subscribe_one_def symbol_def Let_def)
  show "subscribers (db (server reg')) x now = (if x = symbol then insert cid before else subscribers (db (server reg)) x now)"
    by (simp add: reg' subscribers_def activate_effect e(4) before_def symbol_def)
  show "zset_ok (db (server reg'))" by (simp add: reg' activate_effect e(5))
  show "acc' = (if cid \<in> before then acc else insert symbol acc)"
    using e(2) by (simp add: reg' before_def subscribers_def symbol_def)
  show "kv (db (server reg')) = (if before \<subseteq> {cid} \<and> kv (db (server reg)) (state_key symbol) = None
       then (kv (db (server reg)))(state_key symbol := Some (Text ''active'')) else kv (db (server reg)))"
    unfolding reg' using a1 by (simp add: activate_effect e(6))
  show "control_log cfg (db (server reg')) = control_log cfg (db (server reg)) @
       (if before \<subseteq> {cid} \<and> kv (db (server reg)) (state_key symbol) = None then [(''subscribe'', symbol)] else [])"
    unfolding reg' using a1 e(7) by (simp add: activate_effect e(6)) (simp add: control_log_def)
  show "release_tasks reg' = release_tasks reg - {symbol}" by (simp add: reg')
qed

end

section \<open>Interleavings\<close>

text \<open>
  The atomic steps of any number of gateways on one server.  \<open>pending\<close> are the symbols for which a
  \<open>subscribe\<close> has run its script, seen one subscriber and not yet tried to activate; \<open>unpublished\<close> those
  whose release has run its script and not yet told the collector.  Time never goes back.  A heartbeat
  renews subscriptions that are still live.
\<close>

record 'r shared =
  sh_server :: 'r
  sh_time :: rat
  sh_pending :: "string set"
  sh_unpublished :: "string set"

inductive sub_step :: "'r redis_ops \<Rightarrow> sub_config \<Rightarrow> ('r \<Rightarrow> redis_db) \<Rightarrow> 'r shared \<Rightarrow> 'r shared \<Rightarrow> bool" for R cfg db where
  Tick: "sh_time s \<le> t \<Longrightarrow> sub_step R cfg db s (s\<lparr>sh_time := t\<rparr>)"
| SubscribeScript: "subscribe_script R (sh_server s) (symbol_key symbol) (connection_key cid) (sh_time s)
      (sh_time s + of_int (sc_ttl_seconds cfg)) cid symbol (sc_ttl_seconds cfg) = ((before, after, added), r) \<Longrightarrow>
    sub_step R cfg db s (s\<lparr>sh_server := r, sh_pending := if after = 1 then insert symbol (sh_pending s) else sh_pending s\<rparr>)"
| Activate: "symbol \<in> sh_pending s \<Longrightarrow>
    sub_step R cfg db s (s\<lparr>sh_server := activate R cfg c symbol (sh_server s), sh_pending := sh_pending s - {symbol}\<rparr>)"
| UnsubscribeScript: "unsubscribe_script R (sh_server s) (symbol_key symbol) (connection_key cid) (sh_time s) cid symbol
      = ((removed, after), r) \<Longrightarrow> sub_step R cfg db s (s\<lparr>sh_server := r\<rparr>)"
| Heartbeat: "cid \<in> subscribers (db (sh_server s)) symbol (sh_time s) \<Longrightarrow>
    sub_step R cfg db s (s\<lparr>sh_server := snd (zadd_cmd R (sh_server s) (symbol_key symbol)
      (sh_time s + of_int (sc_ttl_seconds cfg)) cid)\<rparr>)"
| ReleaseScript: "release_script R (sh_server s) (symbol_key symbol) (state_key symbol) (sh_time s) = (released, r) \<Longrightarrow>
    sub_step R cfg db s (s\<lparr>sh_server := r,
      sh_unpublished := if released then insert symbol (sh_unpublished s) else sh_unpublished s\<rparr>)"
| ReleasePublish: "symbol \<in> sh_unpublished s \<Longrightarrow>
    sub_step R cfg db s (s\<lparr>sh_server := publish_control R cfg (sh_server s) ''unsubscribe'' symbol c,
      sh_unpublished := sh_unpublished s - {symbol}\<rparr>)"
| Purge: "sub_step R cfg db s (s\<lparr>sh_server := snd (refresh_metrics R (sh_time s) keys (sh_server s))\<rparr>)"

inductive sub_reachable :: "'r redis_ops \<Rightarrow> sub_config \<Rightarrow> ('r \<Rightarrow> redis_db) \<Rightarrow> 'r shared \<Rightarrow> bool" for R cfg db where
  Start: "zset_ok (db (sh_server s)) \<Longrightarrow> \<forall>k. zset (db (sh_server s)) k = [] \<Longrightarrow>
    \<forall>symbol. kv (db (sh_server s)) (state_key symbol) \<in> {None, Some (Text ''active'')} \<Longrightarrow> sub_reachable R cfg db s"
| Step: "sub_reachable R cfg db s \<Longrightarrow> sub_step R cfg db s s' \<Longrightarrow> sub_reachable R cfg db s'"

definition sub_inv :: "('r \<Rightarrow> redis_db) \<Rightarrow> 'r shared \<Rightarrow> bool" where
  "sub_inv db s \<longleftrightarrow> zset_ok (db (sh_server s)) \<and>
     (\<forall>symbol. kv (db (sh_server s)) (state_key symbol) \<in> {None, Some (Text ''active'')}) \<and>
     (\<forall>symbol. subscribers (db (sh_server s)) symbol (sh_time s) \<noteq> {} \<longrightarrow>
        upstream_active (db (sh_server s)) symbol \<or> symbol \<in> sh_pending s)"

context redis
begin

lemma sub_step_inv:
  assumes ttl: "0 < sc_ttl_seconds cfg" and step: "sub_step R cfg db s s'" and inv: "sub_inv db s"
  shows "sub_inv db s'"
  using step
proof cases
  case (Tick t)
  then show ?thesis using inv live_mono [of "sh_time s" t] by (fastforce simp: sub_inv_def subscribers_def)
next
  case (SubscribeScript symbol cid before after added r)
  let ?d = "db (sh_server s)" and ?k = "symbol_key symbol"
  have ok: "zset_ok ?d" using inv by (simp add: sub_inv_def)
  have lt: "sh_time s < sh_time s + of_int (sc_ttl_seconds cfg)" using ttl by simp
  note e = subscribe_script_effect [OF ok lt SubscribeScript(2)]
  have "upstream_active ?d symbol \<or> symbol \<in> sh_pending s" if "after \<noteq> 1"
  proof -
    have "live ?d ?k (sh_time s) \<noteq> {}" using that e(1) by auto
    then show ?thesis using inv by (simp add: sub_inv_def subscribers_def)
  qed
  then show ?thesis using SubscribeScript(1) inv e
    by (auto simp: sub_inv_def subscribers_def upstream_active_def)
next
  case (Activate symbol c)
  have a: "kv (db (activate R cfg c symbol (sh_server s))) =
      (kv (db (sh_server s)))(state_key symbol := Some (Text ''active''))"
  proof (cases "kv (db (sh_server s)) (state_key symbol) = None")
    case False
    moreover have "kv (db (sh_server s)) (state_key symbol) \<in> {None, Some (Text ''active'')}"
      using inv unfolding sub_inv_def by blast
    ultimately have "kv (db (sh_server s)) (state_key symbol) = Some (Text ''active'')"
      by (metis insertE singletonD)
    then show ?thesis by (auto simp: activate_effect)
  qed (simp add: activate_effect)
  with Activate(1) inv show ?thesis
    by (auto simp: sub_inv_def subscribers_def upstream_active_def activate_effect(1,2))
next
  case (UnsubscribeScript symbol cid removed after r)
  have ok: "zset_ok (db (sh_server s))" using inv by (simp add: sub_inv_def)
  note e = unsubscribe_script_effect [OF ok UnsubscribeScript(2)]
  show ?thesis using UnsubscribeScript(1) inv e
    by (auto simp: sub_inv_def subscribers_def upstream_active_def split: if_splits)
next
  case (Heartbeat cid symbol)
  have ok: "zset_ok (db (sh_server s))" using inv by (simp add: sub_inv_def)
  have lt: "sh_time s < sh_time s + of_int (sc_ttl_seconds cfg)" using ttl by simp
  have "live (snd (db_zadd (db (sh_server s)) (symbol_key symbol) (sh_time s + of_int (sc_ttl_seconds cfg)) cid)) k (sh_time s)
      = live (db (sh_server s)) k (sh_time s)" for k
    using Heartbeat(2) live_zadd [OF ok lt, of "symbol_key symbol" cid]
    by (cases "k = symbol_key symbol") (auto simp: live_zadd_other subscribers_def)
  then show ?thesis using Heartbeat(1) inv
    by (auto simp: sub_inv_def subscribers_def upstream_active_def zset_ok_add)
next
  case (ReleaseScript symbol released r)
  have ok: "zset_ok (db (sh_server s))" using inv by (simp add: sub_inv_def)
  note e = release_script_effect [OF ok ReleaseScript(2)]
  show ?thesis using ReleaseScript(1) inv e
    by (auto simp: sub_inv_def subscribers_def upstream_active_def split: if_splits)
next
  case (ReleasePublish symbol c)
  then show ?thesis using inv
    by (auto simp: sub_inv_def subscribers_def upstream_active_def publish_control_effect)
next
  case (Purge keys)
  have "zset_ok (db (sh_server s))" using inv by (simp add: sub_inv_def)
  note e = refresh_effect [OF this order_refl [of "sh_time s"], of keys]
  with Purge inv show ?thesis by (auto simp: sub_inv_def subscribers_def upstream_active_def)
qed

lemma sub_reachable_inv: "0 < sc_ttl_seconds cfg \<Longrightarrow> sub_reachable R cfg db s \<Longrightarrow> sub_inv db s"
proof (rotate_tac, induction rule: sub_reachable.induct)
  case (Start s)
  then show ?case by (simp add: sub_inv_def subscribers_def live_def)
next
  case (Step s s')
  then show ?case using sub_step_inv by blast
qed

end

section \<open>Expiry hidden from the cleanup\<close>

lemma purged_zcard: "zset (db_zremrangebyscore (db_zremrangebyscore d k t) k t) k = zset (db_zremrangebyscore d k t) k"
  by (simp add: db_zremrangebyscore_def)

definition no_live_keys :: "redis_db \<Rightarrow> rat \<Rightarrow> string list \<Rightarrow> bool" where
  "no_live_keys d now keys \<longleftrightarrow> (\<forall>k \<in> set keys. zset d k = filter (\<lambda>p. now < snd p) (zset d k))"

context redis
begin

lemma refresh_purges:
  "zset (db (snd (refresh_metrics R now keys r))) k =
     (if k \<in> set keys then filter (\<lambda>p. now < snd p) (zset (db r) k) else zset (db r) k)"
  by (induction keys arbitrary: r) (auto simp: Let_def case_prod_beta db_zremrangebyscore_def)

text \<open>A key whose expired members are already gone schedules nothing.\<close>

lemma cleanup_nothing:
  assumes "no_live_keys (db (server reg)) now keys"
  shows "release_tasks (cleanup_keys R now keys reg) = release_tasks reg"
  using assms
proof (induction keys arbitrary: reg)
  case (Cons key keys)
  let ?r1 = "zremrangebyscore_cmd R (server reg) key now"
  have same: "zset (db ?r1) k = zset (db (server reg)) k" for k
    using Cons.prems by (auto simp: no_live_keys_def db_zremrangebyscore_def)
  then have "no_live_keys (db (server (reg\<lparr>server := ?r1\<rparr>))) now keys"
    using Cons.prems by (simp add: no_live_keys_def)
  from Cons.IH [OF this] same [of key] show ?case by (simp add: Let_def)
qed simp

end

section \<open>Releases lost at shutdown\<close>

definition cleanup_rounds :: "'r redis_ops \<Rightarrow> (rat \<times> string list \<times> string list) list \<Rightarrow> 'r registry \<Rightarrow> 'r registry" where
  "cleanup_rounds R rounds reg = foldl (\<lambda>reg (now, scan, scan'). cleanup_expired R now scan scan' reg) reg rounds"

text \<open>An active symbol that nothing will release: no key is read as it, or those that are have no members.\<close>

definition stranded :: "('r \<Rightarrow> redis_db) \<Rightarrow> string \<Rightarrow> 'r registry \<Rightarrow> bool" where
  "stranded db symbol reg \<longleftrightarrow> zset_ok (db (server reg)) \<and> upstream_active (db (server reg)) symbol \<and> symbol \<notin> release_tasks reg \<and>
     (\<forall>key. rsplit_last key = symbol \<or> key = symbol_key symbol \<longrightarrow> zset (db (server reg)) key = [])"

context redis
begin

lemma stranded_cleanup_keys: "stranded db symbol reg \<Longrightarrow> stranded db symbol (cleanup_keys R now keys reg)"
proof (induction keys arbitrary: reg)
  case (Cons key keys)
  define r1 where "r1 = zremrangebyscore_cmd R (server reg) key now"
  define sched where "sched \<longleftrightarrow> zcard_cmd R (server reg) key \<noteq> 0 \<and> zcard_cmd R r1 key = 0"
  define reg1 where "reg1 = (if sched then schedule_release (rsplit_last key) (reg\<lparr>server := r1\<rparr>) else reg\<lparr>server := r1\<rparr>)"
  have "rsplit_last key \<noteq> symbol" if sched using Cons.prems that by (auto simp: sched_def stranded_def)
  moreover have "zset_ok (db r1)" "kv (db r1) = kv (db (server reg))"
    using Cons.prems by (simp_all add: stranded_def r1_def zset_ok_purge)
  moreover have "zset (db r1) k = []" if "zset (db (server reg)) k = []" for k
    using that by (auto simp: r1_def db_zremrangebyscore_def)
  ultimately have "stranded db symbol reg1"
    using Cons.prems by (auto simp: stranded_def reg1_def schedule_release_def upstream_active_def)
  moreover have "cleanup_keys R now (key # keys) reg = cleanup_keys R now keys reg1"
    by (simp only: cleanup_keys.simps Let_def r1_def sched_def reg1_def)
  ultimately show ?case using Cons.IH by metis
qed simp

lemma stranded_refreshed: "stranded db symbol reg \<Longrightarrow> stranded db symbol (refreshed R now keys reg)"
  using refresh_effect [of "server reg" now now keys] refresh_purges [of now keys "server reg"]
  by (auto simp: stranded_def refreshed_def upstream_active_def)

lemma stranded_rounds: "stranded db symbol reg \<Longrightarrow> stranded db symbol (cleanup_rounds R rounds reg)"
  by (induction rounds arbitrary: reg)
    (auto simp: cleanup_rounds_def cleanup_expired_def stranded_cleanup_keys stranded_refreshed)

end

section \<open>Properties\<close>


text \<open>\<open>subscribe\<close> on one symbol adds exactly this connection to the symbol's live subscribers, reports
  the symbol as added when it was not subscribed, cancels a scheduled release, and tells the collector
  to subscribe exactly when this is the only subscriber and the symbol was not active.\<close>

theorem subscribe_effect:
  assumes "redis R db" "zset_ok (db (server reg))" "0 < sc_ttl_seconds cfg"
    "subscribe_one R cfg cid now c symbol0 ({}, reg) = (added, reg')"
  defines "symbol \<equiv> py_upper symbol0" and "before \<equiv> subscribers (db (server reg)) (py_upper symbol0) now"
  shows "subscribers (db (server reg')) symbol now = insert cid before \<and>
    (\<forall>x. x \<noteq> symbol \<longrightarrow> subscribers (db (server reg')) x now = subscribers (db (server reg)) x now) \<and>
    added = (if cid \<in> before then {} else {symbol}) \<and> symbol \<notin> release_tasks reg' \<and>
    control_log cfg (db (server reg')) = control_log cfg (db (server reg)) @
      (if before \<subseteq> {cid} \<and> kv (db (server reg)) (state_key symbol) = None then [(''subscribe'', symbol)] else [])"
  using redis.subscribe_one_effect [OF assms(1-4), folded symbol_def] unfolding before_def symbol_def by simp

text \<open>The release script closes the upstream subscription exactly when the symbol has no live
  subscriber and is active; then and only then the collector is told to unsubscribe.\<close>

theorem release_only_unused:
  assumes "redis R db" "zset_ok (db (server reg))"
  shows "(control_log cfg (db (server (release_after_grace R cfg [] c now symbol reg))) =
      control_log cfg (db (server reg)) @
        (if subscribers (db (server reg)) symbol now = {} \<and> upstream_active (db (server reg)) symbol
         then [(''unsubscribe'', symbol)] else [])) \<and>
    (upstream_active (db (server (release_after_grace R cfg [] c now symbol reg))) symbol \<longleftrightarrow>
       upstream_active (db (server reg)) symbol \<and> subscribers (db (server reg)) symbol now \<noteq> {})"
proof -
  obtain released r1 where r: "release_script R (server reg) (symbol_key symbol) (state_key symbol) now = (released, r1)"
    by (metis surj_pair)
  note e = redis.release_script_effect [OF assms r]
  have "control_log cfg (db r1) = control_log cfg (db (server reg))" using e(5) by (simp add: control_log_def)
  then show ?thesis using e
    by (auto simp: release_after_grace_def refreshed_def r upstream_active_def subscribers_def Let_def
        redis.publish_control_effect [OF assms(1)] split: if_splits)
qed

text \<open>A metrics refresh hides expiry from the cleanup: after \<open>refresh_metrics\<close> has purged the scanned
  keys, \<open>cleanup_expired\<close> at the same time schedules no release, so an active symbol whose last
  subscriber expired stays active with no subscriber.\<close>

theorem refresh_hides_expiry:
  assumes "redis R db" "zset_ok (db (server reg))"
    "subscribers (db (server reg)) symbol now = {}" "upstream_active (db (server reg)) symbol"
  shows "release_tasks (cleanup_expired R now keys keys (refreshed R now keys reg)) = release_tasks reg \<and>
    upstream_active (db (server (refreshed R now keys reg))) symbol \<and>
    subscribers (db (server (refreshed R now keys reg))) symbol now = {}"
proof -
  have n: "no_live_keys (db (server (refreshed R now keys reg))) now keys"
    using redis.refresh_purges [OF assms(1)] by (simp add: no_live_keys_def refreshed_def)
  have "release_tasks (cleanup_expired R now keys keys (refreshed R now keys reg)) = release_tasks reg"
    using redis.cleanup_nothing [OF assms(1) n] by (simp add: cleanup_expired_def refreshed_def)
  moreover have "upstream_active (db (server (refreshed R now keys reg))) symbol \<and>
      subscribers (db (server (refreshed R now keys reg))) symbol now = {}"
    using redis.refresh_effect [OF assms(1,2) order_refl, of now keys] assms(3,4)
    by (simp add: refreshed_def upstream_active_def subscribers_def)
  ultimately show ?thesis by blast
qed

text \<open>The cleanup misreads symbols with a colon: when the last subscriber of such a symbol has expired,
  the release is scheduled for the part after the last colon instead.\<close>

theorem cleanup_misreads_colon:
  assumes "redis R db" "zset_ok (db (server reg))" "CHR '':'' \<notin> set b"
    "zset (db (server reg)) (symbol_key (a @ '':'' @ b)) \<noteq> []"
    "subscribers (db (server reg)) (a @ '':'' @ b) now = {}"
  shows "release_tasks (cleanup_keys R now [symbol_key (a @ '':'' @ b)] reg) = insert b (release_tasks reg)"
proof -
  have one: "py_split CHR '':'' b = [b]" using assms(3) by (induction b) auto
  have "last (py_split CHR '':'' (x @ CHR '':'' # b)) = b" for x
  proof (induction x)
    case (Cons y x)
    have "length (py_split CHR '':'' (x @ CHR '':'' # b)) \<noteq> 1"
      by (induction x) (auto simp: one py_split_nonempty split: list.splits)
    then show ?case using Cons by (auto simp: py_split_nonempty split: list.splits)
  qed (simp add: one)
  then have "rsplit_last (symbol_key (a @ '':'' @ b)) = b"
    by (simp add: rsplit_last_def symbol_key_def py_split_nonempty)
  moreover have "zset (db_zremrangebyscore (db (server reg)) (symbol_key (a @ '':'' @ b)) now) (symbol_key (a @ '':'' @ b)) = []"
    using assms(2,5) purge_card [OF assms(2), of "symbol_key (a @ '':'' @ b)" now] by (simp add: subscribers_def)
  ultimately show ?thesis using assms(4)
    by (simp add: Let_def redis.zcard [OF assms(1)] redis.zremrangebyscore [OF assms(1)] schedule_release_def)
qed

text \<open>A release racing with another gateway's subscribe leaves the collector unsubscribed: when the
  subscribe runs between the release script and the release's control message, the symbol is active and
  has a live subscriber, but the last control message is to unsubscribe.\<close>

theorem release_subscribe_race:
  assumes "redis R db" "zset_ok (db (server reg))" "0 < sc_ttl_seconds cfg"
    "subscribers (db (server reg)) (py_upper s0) now = {}" "upstream_active (db (server reg)) (py_upper s0)"
    "release_script R (server reg) (symbol_key (py_upper s0)) (state_key (py_upper s0)) now = (released, r1)"
    "subscribe_one R cfg cid now c s0 ({}, reg\<lparr>server := r1\<rparr>) = (added, reg2)"
  defines "r3 \<equiv> publish_control R cfg (server reg2) ''unsubscribe'' (py_upper s0) c"
  shows "subscribers (db r3) (py_upper s0) now = {cid} \<and> upstream_active (db r3) (py_upper s0) \<and>
    control_log cfg (db r3) = control_log cfg (db (server reg)) @ [(''subscribe'', py_upper s0), (''unsubscribe'', py_upper s0)]"
proof -
  note rel = redis.release_script_effect [OF assms(1,2,6)]
  have released using rel(1) assms(4,5) by (simp add: subscribers_def upstream_active_def)
  have empty: "subscribers (db r1) (py_upper s0) now = {}" using rel(2) assms(4) by (simp add: subscribers_def)
  have inactive: "kv (db r1) (state_key (py_upper s0)) = None" using rel(4) \<open>released\<close> by simp
  have log: "control_log cfg (db r1) = control_log cfg (db (server reg))" using rel(5) by (simp add: control_log_def)
  have "zset_ok (db (server (reg\<lparr>server := r1\<rparr>)))" using rel(3) by simp
  note sub = redis.subscribe_one_effect [OF assms(1) this assms(3,7)]
  show ?thesis using sub(1) [of "py_upper s0"] sub(4,5) empty inactive log
    by (simp add: r3_def redis.publish_control_effect [OF assms(1)] upstream_active_def subscribers_def)
qed

text \<open>C37: a shutdown strands the symbols it should release: when the last subscriber of an active symbol has left, its
  release is only scheduled; \<open>close\<close> cancels it, and from then on no cleanup, of this or of another gateway with no
  release of the symbol scheduled, ever schedules one: the symbol stays active upstream with no subscriber.\<close>

theorem shutdown_strands_symbol:
  assumes "redis R db" "zset_ok (db (server reg))"
    "unsubscribe_one R cfg cid now s0 ({}, reg) = (removed, reg1)"
    "subscribers (db (server reg)) (py_upper s0) now = {cid}" "upstream_active (db (server reg)) (py_upper s0)"
    "\<forall>key. rsplit_last key = py_upper s0 \<longrightarrow> zset (db (server reg)) key = [] \<or> key = symbol_key (py_upper s0)"
    "py_upper s0 \<notin> other_tasks"
    "reg2 = cleanup_rounds R rounds ((close_registry reg1)\<lparr>release_tasks := other_tasks\<rparr>)"
  shows "py_upper s0 \<in> release_tasks reg1 \<and> release_tasks (close_registry reg1) = {} \<and> py_upper s0 \<notin> release_tasks reg2 \<and>
    upstream_active (db (server reg2)) (py_upper s0) \<and> subscribers (db (server reg2)) (py_upper s0) t = {}"
proof -
  let ?s = "py_upper s0"
  obtain gone after r1 where u: "unsubscribe_script R (server reg) (symbol_key ?s) (connection_key cid) now cid ?s = ((gone, after), r1)"
    by (metis surj_pair)
  note e = redis.unsubscribe_script_effect [OF assms(1,2) u]
  have after: "after = 0" using e(2) assms(4) by (simp add: subscribers_def)
  then have reg1: "reg1 = schedule_release ?s (reg\<lparr>server := r1\<rparr>)"
    using assms(3) u by (auto simp: unsubscribe_one_def Let_def)
  have z: "zset (db r1) (symbol_key ?s) = []"
    using u after redis.zcard [OF assms(1)] by (auto simp: unsubscribe_script_def Let_def case_prod_beta)
  have other: "zset (db r1) k = zset (db (server reg)) k" if "k \<noteq> symbol_key ?s" for k
    using u that
    by (auto simp: unsubscribe_script_def Let_def case_prod_beta redis.srem [OF assms(1)] redis.zrem [OF assms(1)]
        redis.zremrangebyscore [OF assms(1)] zset_other)
  have "zset (db r1) k = []" if "rsplit_last k = ?s \<or> k = symbol_key ?s" for k
    by (cases "k = symbol_key ?s") (use z other [of k] assms(6) that in auto)
  then have "stranded db ?s ((close_registry reg1)\<lparr>release_tasks := other_tasks\<rparr>)"
    using e(4,5) assms(5,7) by (auto simp: stranded_def reg1 close_registry_def schedule_release_def upstream_active_def)
  then have "stranded db ?s reg2" unfolding assms(8) by (rule redis.stranded_rounds [OF assms(1)])
  then show ?thesis
    by (auto simp: stranded_def reg1 close_registry_def schedule_release_def subscribers_def live_def)
qed

section \<open>Witnesses\<close>

definition sample_config :: sub_config where
  "sample_config = \<lparr>sc_ttl_seconds = 60, sc_control_stream = ''smdg:subscriptions:control:v1''\<rparr>"

definition sample_registry :: "redis_db registry" where
  "sample_registry = \<lparr>server = empty_db\<lparr>kv := (\<lambda>_. None)(state_key ''AAPL'' := Some (Text ''active''))\<rparr>, release_tasks = {}\<rparr>"

lemma sample_registry_ok:
  "zset_ok (id (server sample_registry))" "subscribers (id (server sample_registry)) ''AAPL'' 100 = {}"
  "upstream_active (id (server sample_registry)) ''AAPL''" "0 < sc_ttl_seconds sample_config"
  by (simp_all add: zset_ok_def sample_registry_def subscribers_def live_def upstream_active_def sample_config_def
      empty_db_def)

definition sample_shared :: "redis_db shared" where
  "sample_shared = \<lparr>sh_server = empty_db, sh_time = 100, sh_pending = {}, sh_unpublished = {}\<rparr>"


theorem subscribe_effect_witness:
  "\<exists>added reg'. subscribe_one db_ops sample_config ''c1'' 100 ''t'' ''aapl'' ({}, sample_registry\<lparr>server := empty_db\<rparr>) = (added, reg') \<and>
     subscribers (server reg') ''AAPL'' 100 = {''c1''} \<and> added = {''AAPL''} \<and>
     control_log sample_config (server reg') = [(''subscribe'', ''AAPL'')]"
proof -
  obtain added reg' where s: "subscribe_one db_ops sample_config ''c1'' 100 ''t'' ''aapl'' ({}, sample_registry\<lparr>server := empty_db\<rparr>) = (added, reg')"
    by (metis surj_pair)
  have u: "py_upper ''aapl'' = ''AAPL''" by code_simp
  have e: "subscribers empty_db x 100 = {}" "kv empty_db k = None" "control_log sample_config empty_db = []" for x k
    by (simp_all add: subscribers_def live_def empty_db_def control_log_def)
  from subscribe_effect [OF mem_redis _ sample_registry_ok(4) s] s show ?thesis
    by (simp add: u e empty_db_ok)
qed

theorem release_only_unused_witness:
  "control_log sample_config (server (release_after_grace db_ops sample_config [] ''t'' 100 ''AAPL'' sample_registry)) =
     [(''unsubscribe'', ''AAPL'')]"
proof -
  have "control_log sample_config (server sample_registry) = []"
    by (simp add: control_log_def sample_registry_def empty_db_def)
  with release_only_unused [OF mem_redis sample_registry_ok(1), of sample_config "''t''" 100 "''AAPL''"] sample_registry_ok(2,3)
  show ?thesis by simp
qed

theorem refresh_hides_expiry_witness:
  "release_tasks (cleanup_expired db_ops 100 [symbol_key ''AAPL''] [symbol_key ''AAPL'']
     (refreshed db_ops 100 [symbol_key ''AAPL''] sample_registry)) = {}"
  using refresh_hides_expiry [OF mem_redis sample_registry_ok(1-3), of "[symbol_key ''AAPL'']"]
  by (simp add: sample_registry_def)

definition colon_registry :: "redis_db registry" where
  "colon_registry = \<lparr>server = empty_db\<lparr>zset := (\<lambda>_. [])(symbol_key ''X:BTC'' := [(''c1'', 50)])\<rparr>, release_tasks = {}\<rparr>"

theorem cleanup_misreads_colon_witness:
  "release_tasks (cleanup_keys db_ops 100 [symbol_key ''X:BTC''] colon_registry) = {''BTC''}"
  using cleanup_misreads_colon [OF mem_redis, of colon_registry "''BTC''" "''X''" 100]
  by (simp add: colon_registry_def zset_ok_def dict_ok_def subscribers_def live_def)

theorem release_subscribe_race_witness:
  "\<exists>r3. upstream_active r3 ''AAPL'' \<and> subscribers r3 ''AAPL'' 100 = {''c2''} \<and>
     control_log sample_config r3 = [(''subscribe'', ''AAPL''), (''unsubscribe'', ''AAPL'')]"
proof -
  have u: "py_upper ''AAPL'' = ''AAPL''" by code_simp
  obtain released r1 where r: "release_script db_ops (server sample_registry) (symbol_key (py_upper ''AAPL''))
      (state_key (py_upper ''AAPL'')) 100 = (released, r1)" by (metis surj_pair)
  obtain added reg2 where s: "subscribe_one db_ops sample_config ''c2'' 100 ''t'' ''AAPL'' ({}, sample_registry\<lparr>server := r1\<rparr>) = (added, reg2)"
    by (metis surj_pair)
  have "control_log sample_config (server sample_registry) = []"
    by (simp add: control_log_def sample_registry_def empty_db_def)
  with release_subscribe_race [OF mem_redis sample_registry_ok(1,4) _ _ r s] sample_registry_ok(2,3)
  show ?thesis unfolding u by auto
qed

definition last_subscriber :: "redis_db registry" where
  "last_subscriber = \<lparr>server = empty_db\<lparr>kv := (\<lambda>_. None)(state_key ''AAPL'' := Some (Text ''active'')),
     zset := (\<lambda>_. [])(symbol_key ''AAPL'' := [(''c1'', 160)])\<rparr>, release_tasks = {}\<rparr>"

theorem shutdown_strands_symbol_witness:
  "\<exists>removed reg1. unsubscribe_one db_ops sample_config ''c1'' 100 ''AAPL'' ({}, last_subscriber) = (removed, reg1) \<and>
     upstream_active (server (cleanup_rounds db_ops [(200, [symbol_key ''AAPL''], [symbol_key ''AAPL''])] (close_registry reg1))) ''AAPL'' \<and>
     release_tasks (cleanup_rounds db_ops [(200, [symbol_key ''AAPL''], [symbol_key ''AAPL''])] (close_registry reg1)) \<subseteq> - {''AAPL''}"
proof -
  have u: "py_upper ''AAPL'' = ''AAPL''" by code_simp
  obtain removed reg1 where r: "unsubscribe_one db_ops sample_config ''c1'' 100 ''AAPL'' ({}, last_subscriber) = (removed, reg1)"
    by (metis surj_pair)
  have ok: "zset_ok (id (server last_subscriber))" by (simp add: last_subscriber_def zset_ok_def dict_ok_def)
  have s: "subscribers (id (server last_subscriber)) (py_upper ''AAPL'') 100 = {''c1''}"
    "upstream_active (id (server last_subscriber)) (py_upper ''AAPL'')"
    "\<forall>key. rsplit_last key = py_upper ''AAPL'' \<longrightarrow> zset (id (server last_subscriber)) key = [] \<or> key = symbol_key (py_upper ''AAPL'')"
    unfolding u by (auto simp: last_subscriber_def subscribers_def live_def upstream_active_def empty_db_def)
  have "py_upper ''AAPL'' \<notin> {}" by simp
  note w = shutdown_strands_symbol [OF mem_redis ok r s this refl]
  have "(close_registry reg1)\<lparr>release_tasks := {}\<rparr> = close_registry reg1" by (simp add: close_registry_def)
  with w [of "[(200, [symbol_key ''AAPL''], [symbol_key ''AAPL''])]"] r show ?thesis unfolding u by auto
qed

end
