(* ===== verification/Storage.thy ===== *)
theory Storage
  imports Redis Candle_Store
begin

text \<open>
  \<open>RedisStore\<close> of \<open>storage.py\<close>: the quote stream, the hot candle cache with its optimistic update, the
  latest quotes, the hot candle history, event deduplication, sequence observation, the dead-letter and
  retry bookkeeping, the fixed-window rate limit and the usage stream.  The hot cache is an
  interpretation of \<open>candle_store\<close>.
\<close>

section \<open>Settings and keys\<close>

record store_config =
  quote_stream :: string
  quote_pubsub_channel :: string
  usage_stream :: string
  dead_letter_stream :: string
  stream_group :: string
  retry_limit :: int
  quote_freshness_seconds :: rat
  candle_history_retention_seconds :: int
  candle_update_retry_limit :: nat

definition candle_index_key :: "string \<Rightarrow> string" where
  "candle_index_key symbol = ''smdg:candles:index:v1:1m:'' @ symbol"

definition candle_key :: "string \<Rightarrow> string \<Rightarrow> string" where
  "candle_key symbol bucket_epoch = ''smdg:candles:data:v1:1m:'' @ symbol @ '':'' @ bucket_epoch"

definition latest_key :: "string \<Rightarrow> string" where
  "latest_key symbol = ''smdg:latest:'' @ symbol"

definition dedupe_key :: "uuid \<Rightarrow> string" where
  "dedupe_key event_id = ''smdg:dedupe:'' @ uuid_str event_id"

definition sequence_key :: "string \<Rightarrow> string \<Rightarrow> string" where
  "sequence_key provider symbol = ''smdg:sequence:'' @ provider @ '':'' @ symbol"

definition retry_key :: "string \<Rightarrow> string" where
  "retry_key stream_id = ''smdg:retry:'' @ stream_id"

definition rate_key :: "string \<Rightarrow> string" where
  "rate_key key = ''smdg:rate:'' @ key"

definition usage_key :: "string \<Rightarrow> string" where
  "usage_key idempotency_key = ''smdg:usage:idempotency:'' @ idempotency_key"

text \<open>An instant as the seconds that \<open>timestamp()\<close> returns.\<close>

definition timestamp :: "instant \<Rightarrow> rat" where
  "timestamp t = of_int t / of_int us_per_second"

definition bucket_epoch :: "instant \<Rightarrow> string" where
  "bucket_epoch bucket = string_of_int (trunc_seconds bucket)"

definition expired_bucket_score :: "store_config \<Rightarrow> instant \<Rightarrow> rat" where
  "expired_bucket_score cfg now =
     timestamp (now - (candle_history_retention_seconds cfg + 60) * us_per_second)"

section \<open>Streams\<close>

definition publish_quote :: "'r redis_ops \<Rightarrow> store_config \<Rightarrow> 'r \<Rightarrow> quote_event \<Rightarrow> string \<times> 'r" where
  "publish_quote R cfg r e = xadd_cmd R r (quote_stream cfg) [(''payload'', QuoteJson (quote_dump e))]"

definition ack :: "'r redis_ops \<Rightarrow> 'r \<Rightarrow> string \<Rightarrow> string \<Rightarrow> string list \<Rightarrow> 'r" where
  "ack R r stream_name grp ids = foldl (\<lambda>r i. xack_cmd R r stream_name grp i) r ids"

definition publish_fanout :: "'r redis_ops \<Rightarrow> store_config \<Rightarrow> 'r \<Rightarrow> quote_event \<Rightarrow> 'r" where
  "publish_fanout R cfg r e = publish_cmd R r (quote_pubsub_channel cfg) (QuoteJson (quote_dump e))"

text \<open>\<open>QuoteEvent.model_validate_json\<close> and \<open>BaseMinuteCandle.model_validate_json\<close>.\<close>

fun quote_of_payload :: "payload \<Rightarrow> quote_event result" where
  "quote_of_payload (QuoteJson q) = validate_quote q"
| "quote_of_payload _ = Inl (ValueError ''Invalid JSON'')"

fun candle_of_payload :: "payload \<Rightarrow> base_candle result" where
  "candle_of_payload (CandleJson c) =
     (let errs = field_errors
        [(symbol_ok (b_symbol c), ''symbol''), (0 < b_open c, ''open''), (0 < b_high c, ''high''),
         (0 < b_low c, ''low''), (0 < b_close c, ''close''), (1 \<le> b_activity c, ''activity_count'')]
      in if errs \<noteq> [] then Inl (FieldErrors errs) else Inr c)"
| "candle_of_payload _ = Inl (ValueError ''Invalid JSON'')"

section \<open>The hot candle cache\<close>

text \<open>
  \<open>cache_quote\<close>.  Between the read of the watched key and \<open>EXEC\<close> other clients act: \<open>others k\<close> is what
  they do during attempt \<open>k\<close>, and \<open>EXEC\<close> raises \<open>WatchError\<close> when they have touched the key, which
  \<open>touched k\<close> says for writes that leave the value as it was.
\<close>

definition commit_quote ::
  "'r redis_ops \<Rightarrow> store_config \<Rightarrow> instant \<Rightarrow> quote_event \<Rightarrow> base_candle \<Rightarrow> 'r \<Rightarrow> 'r" where
  "commit_quote R cfg now e c r =
     (let bucket = floor_utc (event_ts e) 60;
          deadline = bucket + (60 + candle_history_retention_seconds cfg) * us_per_second;
          ttl = max 1 \<lceil>timestamp (deadline - now)\<rceil>;
          ckey = candle_key (q_symbol e) (bucket_epoch bucket);
          ikey = candle_index_key (q_symbol e);
          r1 = set_cmd R r (latest_key (q_symbol e)) (QuoteJson (quote_dump e));
          r2 = expire_cmd R (set_cmd R r1 ckey (CandleJson c)) ckey ttl;
          r3 = snd (zadd_cmd R r2 ikey (timestamp bucket) (bucket_epoch bucket));
          r4 = zremrangebyscore_cmd R r3 ikey (expired_bucket_score cfg now)
      in expire_cmd R r4 ikey (candle_history_retention_seconds cfg + 60))"

definition next_candle :: "payload option \<Rightarrow> quote_event \<Rightarrow> base_candle result" where
  "next_candle v e =
     (case v of
        None \<Rightarrow> Inr (from_quote e)
      | Some p \<Rightarrow> bindE (candle_of_payload p) (\<lambda>c. with_quote c e))"

fun cache_attempts ::
  "'r redis_ops \<Rightarrow> store_config \<Rightarrow> instant \<Rightarrow> (nat \<Rightarrow> 'r \<Rightarrow> 'r) \<Rightarrow> (nat \<Rightarrow> bool) \<Rightarrow> quote_event \<Rightarrow>
   nat \<Rightarrow> nat \<Rightarrow> 'r \<Rightarrow> unit result \<times> 'r" where
  "cache_attempts R cfg now others touched e 0 k r =
     (Inl (RuntimeError (''failed to update candle for '' @ q_symbol e @ '' after '' @
        string_of_nat (candle_update_retry_limit cfg) @ '' optimistic retries'')), r)"
| "cache_attempts R cfg now others touched e (Suc n) k r =
     (let ckey = candle_key (q_symbol e) (bucket_epoch (floor_utc (event_ts e) 60));
          v = get_cmd R r ckey
      in case next_candle v e of
           Inl err \<Rightarrow> (Inl err, r)
         | Inr c \<Rightarrow>
             (let r1 = others k r in
              if touched k \<or> get_cmd R r1 ckey \<noteq> v
              then cache_attempts R cfg now others touched e n (Suc k) r1
              else (Inr (), commit_quote R cfg now e c r1)))"

definition cache_quote ::
  "'r redis_ops \<Rightarrow> store_config \<Rightarrow> instant \<Rightarrow> (nat \<Rightarrow> 'r \<Rightarrow> 'r) \<Rightarrow> (nat \<Rightarrow> bool) \<Rightarrow> quote_event \<Rightarrow> 'r \<Rightarrow> unit result \<times> 'r" where
  "cache_quote R cfg now others touched e r =
     (case floor_time (q_provider_timestamp e) 60 of
        Inl err \<Rightarrow> (Inl err, r)
      | Inr bucket \<Rightarrow>
          (let retention_deadline = bucket + 60 * us_per_second + candle_history_retention_seconds cfg * us_per_second
           in if retention_deadline \<le> now
              then (Inr (), set_cmd R r (latest_key (q_symbol e)) (QuoteJson (quote_dump e)))
              else cache_attempts R cfg now others touched e (candle_update_retry_limit cfg) 0 r))"

section \<open>Reading\<close>

definition snapshot_of :: "store_config \<Rightarrow> instant \<Rightarrow> quote_event \<Rightarrow> quote_snapshot" where
  "snapshot_of cfg now q =
     (let age_seconds = max 0 (timestamp (now - dt_us (q_received_at q)))
      in \<lparr>snap_quote = q, snap_stale = quote_freshness_seconds cfg < age_seconds,
          snap_age_ms = \<lfloor>age_seconds * 1000\<rfloor>\<rparr>)"

definition get_latest :: "'r redis_ops \<Rightarrow> store_config \<Rightarrow> instant \<Rightarrow> 'r \<Rightarrow> string \<Rightarrow> quote_snapshot option result" where
  "get_latest R cfg now r symbol =
     (case get_cmd R r (latest_key (py_upper symbol)) of
        None \<Rightarrow> Inr None
      | Some p \<Rightarrow> bindE (quote_of_payload p) (\<lambda>q. Inr (Some (snapshot_of cfg now q))))"

text \<open>The result of \<open>get_many\<close> is a dictionary, so a repeated symbol has one entry.\<close>

fun get_many ::
  "'r redis_ops \<Rightarrow> store_config \<Rightarrow> instant \<Rightarrow> 'r \<Rightarrow> (string, quote_snapshot option) dict \<Rightarrow> string list \<Rightarrow>
   (string, quote_snapshot option) dict result" where
  "get_many R cfg now r acc [] = Inr acc"
| "get_many R cfg now r acc (s # ss) =
     bindE (case get_cmd R r (latest_key (py_upper s)) of
              None \<Rightarrow> Inr None
            | Some p \<Rightarrow> bindE (quote_of_payload p) (\<lambda>q. Inr (Some (snapshot_of cfg now q))))
       (\<lambda>snap. get_many R cfg now r (dict_set (py_upper s) snap acc) ss)"

fun collect_candles :: "'r redis_ops \<Rightarrow> 'r \<Rightarrow> string \<Rightarrow> string list \<Rightarrow> (base_candle list \<times> string list) result" where
  "collect_candles R r symbol [] = Inr ([], [])"
| "collect_candles R r symbol (epoch # epochs) =
     (case get_cmd R r (candle_key symbol epoch) of
        None \<Rightarrow> bindE (collect_candles R r symbol epochs) (\<lambda>(cs, missing). Inr (cs, epoch # missing))
      | Some p \<Rightarrow> bindE (candle_of_payload p) (\<lambda>c.
          bindE (collect_candles R r symbol epochs) (\<lambda>(cs, missing). Inr (c # cs, missing))))"

definition hot_get_candles ::
  "'r redis_ops \<Rightarrow> store_config \<Rightarrow> instant \<Rightarrow> 'r \<Rightarrow> string \<Rightarrow> timeframe \<Rightarrow> int \<Rightarrow> datetime \<Rightarrow> candle_series result \<times> 'r" where
  "hot_get_candles R cfg now r symbol tf limit end_at =
     (let normalized = py_upper symbol in
      case history_window tf limit end_at of
        Inl e \<Rightarrow> (Inl e, r)
      | Inr (start, effective_end) \<Rightarrow>
          (let ikey = candle_index_key normalized;
               r1 = zremrangebyscore_cmd R r ikey (expired_bucket_score cfg now);
               epochs = zrangebyscore_cmd R r1 ikey (timestamp start) (timestamp effective_end)
           in case collect_candles R r1 normalized epochs of
                Inl e \<Rightarrow> (Inl e, r1)
              | Inr (base_candles, missing) \<Rightarrow>
                  (aggregate_base_candles normalized tf limit (utc_datetime effective_end)
                     (candle_history_retention_seconds cfg) base_candles,
                   foldl (\<lambda>r m. snd (zrem_cmd R r ikey m)) r1 missing)))"

section \<open>Deduplication, sequences, retries, usage\<close>

definition accept_event_once :: "'r redis_ops \<Rightarrow> 'r \<Rightarrow> quote_event \<Rightarrow> bool \<times> 'r" where
  "accept_event_once R r e = setnx_cmd R r (dedupe_key (q_event_id e)) (Text ''1'')"

definition observe_sequence :: "'r redis_ops \<Rightarrow> 'r \<Rightarrow> quote_event \<Rightarrow> gap_observation option result \<times> 'r" where
  "observe_sequence R r e =
     (case q_sequence e of
        None \<Rightarrow> (Inr None, r)
      | Some n \<Rightarrow>
          (let key = sequence_key (q_provider e) (q_symbol e) in
           case (case get_cmd R r key of None \<Rightarrow> Inr None | Some p \<Rightarrow> bindE (int_of_payload p) (\<lambda>i. Inr (Some i))) of
             Inl err \<Rightarrow> (Inl err, r)
           | Inr previous \<Rightarrow>
               (let r1 = (if previous = None \<or> the previous < n then expire_cmd R (set_cmd R r key (Number n)) key 86400 else r)
                in case previous of
                     None \<Rightarrow> (Inr None, r1)
                   | Some p \<Rightarrow>
                       if n = p + 1 then (Inr None, r1)
                       else (Inr (Some \<lparr>gap_symbol = q_symbol e, gap_previous_sequence = Some p,
                               gap_current_sequence = n, gap_size = max 0 (n - p - 1), gap_out_of_order = (n \<le> p)\<rparr>), r1))))"

definition move_to_dead_letter ::
  "'r redis_ops \<Rightarrow> store_config \<Rightarrow> 'r \<Rightarrow> string \<Rightarrow> string \<Rightarrow> entry \<Rightarrow> string \<Rightarrow> int \<Rightarrow> datetime \<Rightarrow> 'r" where
  "move_to_dead_letter R cfg r source_stream stream_id flds err retry_count failed_at =
     snd (xadd_cmd R r (dead_letter_stream cfg)
       [(''source_stream'', Text source_stream), (''source_id'', Text stream_id), (''payload'', FieldsJson flds),
        (''error'', Text err), (''retry_count'', Number retry_count), (''failed_at'', Iso failed_at)])"

definition increment_retry :: "'r redis_ops \<Rightarrow> 'r \<Rightarrow> string \<Rightarrow> int result \<times> 'r" where
  "increment_retry R r stream_id =
     (let (n, r1) = incr_cmd R r (retry_key stream_id) in (n, expire_cmd R r1 (retry_key stream_id) 3600))"

definition rate_limit :: "'r redis_ops \<Rightarrow> 'r \<Rightarrow> string \<Rightarrow> int \<Rightarrow> int \<Rightarrow> bool result \<times> 'r" where
  "rate_limit R r key limit window_seconds =
     (let (n, r1) = incr_cmd R r (rate_key key)
      in (bindE n (\<lambda>n. Inr (n \<le> limit)), expire_cmd R r1 (rate_key key) window_seconds))"

record usage_event =
  u_idempotency_key :: string
  u_client_id :: string
  u_event_type :: string
  u_quantity :: int
  u_metadata :: entry

definition record_usage :: "'r redis_ops \<Rightarrow> store_config \<Rightarrow> datetime \<Rightarrow> 'r \<Rightarrow> usage_event \<Rightarrow> bool \<times> 'r" where
  "record_usage R cfg created_at r u =
     (let (accepted, r1) = setnx_cmd R r (usage_key (u_idempotency_key u)) (Text ''1'') in
      if \<not> accepted then (False, r1)
      else (True, snd (xadd_cmd R r1 (usage_stream cfg)
        [(''idempotency_key'', Text (u_idempotency_key u)), (''client_id'', Text (u_client_id u)),
         (''event_type'', Text (u_event_type u)), (''quantity'', Number (u_quantity u)),
         (''metadata'', FieldsJson (u_metadata u)), (''created_at'', Iso created_at)])))"

section \<open>Keys are distinct\<close>

lemma append_Cons_unique: "x \<notin> set b \<Longrightarrow> x \<notin> set d \<Longrightarrow> b @ x # a = d @ x # c \<Longrightarrow> b = d \<and> a = c"
proof (induction b arbitrary: d)
  case Nil
  then show ?case by (cases d) auto
next
  case (Cons y b)
  then show ?case by (cases d) auto
qed

lemma split_last_colon:
  assumes "a @ CHR '':'' # b = c @ CHR '':'' # d" "CHR '':'' \<notin> set b" "CHR '':'' \<notin> set d"
  shows "a = c \<and> b = d"
proof -
  have "rev b @ CHR '':'' # rev a = rev d @ CHR '':'' # rev c"
    using arg_cong [OF assms(1), of rev] by simp
  then have "rev b = rev d \<and> rev a = rev c"
    by (rule append_Cons_unique [rotated 2]) (use assms(2,3) in simp_all)
  then show ?thesis by simp
qed

lemma bucket_epoch_inj:
  "us_per_second dvd s \<Longrightarrow> us_per_second dvd t \<Longrightarrow> bucket_epoch s = bucket_epoch t \<longleftrightarrow> s = t"
  by (auto simp: bucket_epoch_def dvd_def mult.commute)

lemma candle_key_inj:
  assumes "us_per_second dvd s" "us_per_second dvd t"
  shows "candle_key a (bucket_epoch s) = candle_key b (bucket_epoch t) \<longleftrightarrow> a = b \<and> s = t"
proof
  assume "candle_key a (bucket_epoch s) = candle_key b (bucket_epoch t)"
  then have "a @ CHR '':'' # bucket_epoch s = b @ CHR '':'' # bucket_epoch t" by (simp add: candle_key_def)
  from split_last_colon [OF this] have "a = b \<and> bucket_epoch s = bucket_epoch t"
    by (simp add: bucket_epoch_def string_of_int_colon)
  then show "a = b \<and> s = t" using bucket_epoch_inj [OF assms] by simp
qed simp

lemma key_clash [simp]:
  "latest_key a \<noteq> candle_key b c" "candle_key b c \<noteq> latest_key a" "dedupe_key i \<noteq> candle_key b c"
  "latest_key a = latest_key b \<longleftrightarrow> a = b" "candle_index_key a = candle_index_key b \<longleftrightarrow> a = b"
  "dedupe_key i = dedupe_key j \<longleftrightarrow> i = j" "retry_key a = retry_key b \<longleftrightarrow> a = b" "usage_key a = usage_key b \<longleftrightarrow> a = b"
  by (simp_all add: latest_key_def candle_key_def dedupe_key_def candle_index_key_def retry_key_def usage_key_def)

section \<open>The optimistic update\<close>

definition quote_candle_key :: "quote_event \<Rightarrow> string" where
  "quote_candle_key e = candle_key (q_symbol e) (bucket_epoch (minute_of e))"

lemma cache_attempts_commit:
  assumes "cache_attempts R cfg now others touched e n k r = (Inr (), r')"
  shows "\<exists>r1 c. r' = commit_quote R cfg now e c r1 \<and> next_candle (get_cmd R r1 (quote_candle_key e)) e = Inr c"
  using assms
proof (induction n arbitrary: k r)
  case (Suc n)
  let ?v = "get_cmd R r (quote_candle_key e)"
  show ?case
  proof (cases "next_candle ?v e")
    case (Inl err)
    with Suc.prems show ?thesis by (simp add: quote_candle_key_def minute_of_def Let_def)
  next
    case (Inr c)
    show ?thesis
    proof (cases "touched k \<or> get_cmd R (others k r) (quote_candle_key e) \<noteq> ?v")
      case True
      with Inr Suc.prems have "cache_attempts R cfg now others touched e n (Suc k) (others k r) = (Inr (), r')"
        by (simp add: quote_candle_key_def minute_of_def Let_def)
      then show ?thesis by (rule Suc.IH)
    next
      case False
      with Inr Suc.prems have "r' = commit_quote R cfg now e c (others k r)"
        by (simp add: quote_candle_key_def minute_of_def Let_def)
      moreover have "next_candle (get_cmd R (others k r) (quote_candle_key e)) e = Inr c"
        using False Inr by simp
      ultimately show ?thesis by blast
    qed
  qed
qed simp

text \<open>Without interference the first attempt decides.\<close>

lemma cache_attempts_quiet:
  assumes "others 0 r = r" "\<not> touched 0"
  shows "cache_attempts R cfg now others touched e (Suc n) 0 r =
    (case next_candle (get_cmd R r (quote_candle_key e)) e of
       Inl err \<Rightarrow> (Inl err, r) | Inr c \<Rightarrow> (Inr (), commit_quote R cfg now e c r))"
  using assms by (simp add: quote_candle_key_def minute_of_def Let_def split: sum.splits)

context redis
begin

lemma commit_quote_kv:
  "kv (db (commit_quote R cfg now e c r)) =
     (kv (db r))(latest_key (q_symbol e) := Some (QuoteJson (quote_dump e)), quote_candle_key e := Some (CandleJson c))"
  by (simp add: commit_quote_def Let_def quote_candle_key_def minute_of_def db_zremrangebyscore_def db_zadd_def)

lemma commit_quote_index:
  "zset (db (commit_quote R cfg now e c r)) =
     (zset (db r))(candle_index_key (q_symbol e) :=
        filter (\<lambda>p. expired_bucket_score cfg now < snd p)
          (dict_set (bucket_epoch (minute_of e)) (timestamp (minute_of e)) (zset (db r) (candle_index_key (q_symbol e)))))"
  by (simp add: commit_quote_def Let_def minute_of_def db_zremrangebyscore_def db_zadd_def)

end

section \<open>The hot layer as a candle store\<close>

definition hot_candle :: "redis_db \<Rightarrow> string \<Rightarrow> instant \<Rightarrow> base_candle option" where
  "hot_candle d symbol t =
     (if \<not> minute_us dvd t then None
      else case kv d (candle_key symbol (bucket_epoch t)) of Some (CandleJson c) \<Rightarrow> Some c | _ \<Rightarrow> None)"

definition hot_store :: "store_config \<Rightarrow> instant \<Rightarrow> redis_db \<Rightarrow> quote_event \<Rightarrow> redis_db" where
  "hot_store cfg now d e = snd (cache_quote db_ops cfg now (\<lambda>_ d. d) (\<lambda>_. False) e d)"

text \<open>
  What the cache maintains: the value under a candle key is the valid candle of that symbol and minute,
  and the index of a symbol holds the minutes that have a candle and are inside the retention.
\<close>

definition hot_inv :: "store_config \<Rightarrow> instant \<Rightarrow> redis_db \<Rightarrow> bool" where
  "hot_inv cfg now d \<longleftrightarrow> zset_ok d \<and>
     (\<forall>sy t v. minute_us dvd t \<longrightarrow> kv d (candle_key sy (bucket_epoch t)) = Some v \<longrightarrow>
        (\<exists>c. v = CandleJson c \<and> b_symbol c = sy \<and> b_open_time c = t \<and> symbol_ok sy \<and> base_candle_ok c \<and> minute_ok c)) \<and>
     (\<forall>sy m s. dict_get (zset d (candle_index_key sy)) m = Some s \<longrightarrow>
        (\<exists>t. minute_us dvd t \<and> m = bucket_epoch t \<and> s = timestamp t)) \<and>
     (\<forall>sy t c. hot_candle d sy t = Some c \<longrightarrow> expired_bucket_score cfg now < timestamp t \<longrightarrow>
        dict_get (zset d (candle_index_key sy)) (bucket_epoch t) = Some (timestamp t))"

definition hot_valid :: "store_config \<Rightarrow> instant \<Rightarrow> quote_event \<Rightarrow> bool" where
  "hot_valid cfg now e \<longleftrightarrow> is_aware (q_provider_timestamp e) \<and> 0 < q_price e \<and> symbol_ok (q_symbol e) \<and>
     now < minute_of e + (60 + candle_history_retention_seconds cfg) * us_per_second \<and>
     0 < candle_update_retry_limit cfg"

lemma minute_of_dvd: "minute_us dvd minute_of e"
  using floor_utc_dvd [of 60 "event_ts e"] by (simp add: minute_of_def)

lemma dvd_second: "minute_us dvd t \<Longrightarrow> us_per_second dvd t"
  by (meson dvd_mult_right)

lemma hot_inv_data:
  "hot_inv cfg now d \<Longrightarrow> minute_us dvd t \<Longrightarrow> kv d (candle_key sy (bucket_epoch t)) = Some v \<Longrightarrow>
   \<exists>c. v = CandleJson c \<and> b_symbol c = sy \<and> b_open_time c = t \<and> symbol_ok sy \<and> base_candle_ok c \<and> minute_ok c"
  unfolding hot_inv_def by blast

lemma hot_inv_get:
  assumes "hot_inv cfg now d" "minute_us dvd t"
  shows "kv d (candle_key sy (bucket_epoch t)) = map_option CandleJson (hot_candle d sy t)"
proof (cases "kv d (candle_key sy (bucket_epoch t))")
  case (Some v)
  with hot_inv_data [OF assms Some] assms(2) show ?thesis by (auto simp: hot_candle_def)
qed (simp add: hot_candle_def)

lemma hot_inv_candle:
  assumes "hot_inv cfg now d" "hot_candle d sy t = Some c"
  shows "b_symbol c = sy" "b_open_time c = t" "symbol_ok sy" "base_candle_ok c" "minute_ok c" "minute_us dvd t"
proof -
  show t: "minute_us dvd t" using assms(2) by (simp add: hot_candle_def split: if_splits)
  then have "kv d (candle_key sy (bucket_epoch t)) = Some (CandleJson c)"
    using hot_inv_get [OF assms(1) t, of sy] assms(2) by simp
  from hot_inv_data [OF assms(1) t this]
  show "b_symbol c = sy" "b_open_time c = t" "symbol_ok sy" "base_candle_ok c" "minute_ok c" by simp_all
qed

lemma candle_of_payload_ok:
  "symbol_ok (b_symbol c) \<Longrightarrow> base_candle_ok c \<Longrightarrow> candle_of_payload (CandleJson c) = Inr c"
  by (simp add: base_candle_ok_def field_errors_def Let_def)

lemma base_candle_ok_from_quote: "0 < q_price e \<Longrightarrow> base_candle_ok (from_quote e)"
  by (simp add: base_candle_ok_def from_quote_def)

lemma base_candle_ok_with_quote:
  "base_candle_ok c \<Longrightarrow> 0 < q_price e \<Longrightarrow> with_quote c e = Inr c' \<Longrightarrow> base_candle_ok c'"
  by (auto simp: base_candle_ok_def with_quote_fields)

lemma minute_ok_with_quote:
  assumes "minute_ok c" "with_quote c e = Inr c'"
  shows "minute_ok c'"
proof -
  have "b_open_time c = minute_of e" using with_quote_Inr [OF assms(2)] by (simp add: in_bucket_def minute_of_def)
  moreover have "event_ts e < minute_of e + minute_us"
    using floor_utc_upper [of 60 "event_ts e"] by (simp add: minute_of_def)
  ultimately show ?thesis using assms by (auto simp: minute_ok_def with_quote_fields)
qed

text \<open>The candle that a valid quote leaves.\<close>

definition updated_candle :: "redis_db \<Rightarrow> quote_event \<Rightarrow> base_candle" where
  "updated_candle d e = (case hot_candle d (q_symbol e) (minute_of e) of None \<Rightarrow> from_quote e | Some c \<Rightarrow> absorb c e)"

lemma updated_candle_ok:
  assumes "hot_inv cfg now d" "hot_valid cfg now e"
  shows "b_symbol (updated_candle d e) = q_symbol e" "b_open_time (updated_candle d e) = minute_of e"
    "base_candle_ok (updated_candle d e)" "minute_ok (updated_candle d e)"
    "next_candle (kv d (quote_candle_key e)) e = Inr (updated_candle d e)"
proof -
  let ?h = "hot_candle d (q_symbol e) (minute_of e)"
  have p: "0 < q_price e" using assms(2) by (simp add: hot_valid_def)
  have kv: "kv d (quote_candle_key e) = map_option CandleJson ?h"
    using hot_inv_get [OF assms(1) minute_of_dvd] by (simp add: quote_candle_key_def)
  have "b_symbol (updated_candle d e) = q_symbol e \<and> b_open_time (updated_candle d e) = minute_of e \<and>
    base_candle_ok (updated_candle d e) \<and> minute_ok (updated_candle d e) \<and>
    next_candle (kv d (quote_candle_key e)) e = Inr (updated_candle d e)"
  proof (cases ?h)
    case None
    then have u: "updated_candle d e = from_quote e" by (simp add: updated_candle_def)
    show ?thesis unfolding u kv using p None
      by (simp add: base_candle_ok_from_quote summarises_minute_ok [OF from_quote_summarises] next_candle_def)
        (simp add: from_quote_def minute_of_def)
  next
    case (Some c)
    note c = hot_inv_candle [OF assms(1) Some]
    have w: "with_quote c e = Inr (absorb c e)" using c by (intro with_quote_absorb) (simp add: in_bucket_minute)
    have u: "updated_candle d e = absorb c e" using Some by (simp add: updated_candle_def)
    show ?thesis unfolding u kv using p Some c w
      by (simp add: with_quote_fields [OF w] base_candle_ok_with_quote [OF _ _ w] minute_ok_with_quote [OF _ w]
          next_candle_def candle_of_payload_ok del: candle_of_payload.simps)
  qed
  then show "b_symbol (updated_candle d e) = q_symbol e" "b_open_time (updated_candle d e) = minute_of e"
    "base_candle_ok (updated_candle d e)" "minute_ok (updated_candle d e)"
    "next_candle (kv d (quote_candle_key e)) e = Inr (updated_candle d e)" by auto
qed

lemma hot_store_commit:
  assumes "hot_inv cfg now d" "hot_valid cfg now e"
  shows "cache_quote db_ops cfg now (\<lambda>_ d. d) (\<lambda>_. False) e d =
    (Inr (), commit_quote db_ops cfg now e (updated_candle d e) d)"
proof -
  obtain n where n: "candle_update_retry_limit cfg = Suc n"
    using assms(2) by (cases "candle_update_retry_limit cfg") (auto simp: hot_valid_def)
  have "next_candle (get_cmd db_ops d (quote_candle_key e)) e = Inr (updated_candle d e)"
    using updated_candle_ok(5) [OF assms] by (simp add: db_ops_def)
  then show ?thesis using assms(2) cache_attempts_quiet [of "\<lambda>_ d. d" d "\<lambda>_. False" db_ops cfg now e n]
    by (simp add: cache_quote_def floor_time_def hot_valid_def minute_of_def event_ts_def n algebra_simps
        del: cache_attempts.simps)
qed

lemma hot_store_candle:
  assumes "hot_inv cfg now d" "hot_valid cfg now e"
  shows "hot_candle (hot_store cfg now d e) sy t =
    (if (sy, t) = (q_symbol e, minute_of e) then Some (updated_candle d e) else hot_candle d sy t)"
proof -
  have "kv (hot_store cfg now d e) = (kv d)(latest_key (q_symbol e) := Some (QuoteJson (quote_dump e)),
      quote_candle_key e := Some (CandleJson (updated_candle d e)))"
    using mem.commit_quote_kv by (simp add: hot_store_def hot_store_commit [OF assms])
  moreover have "candle_key sy (bucket_epoch t) = quote_candle_key e \<longleftrightarrow> sy = q_symbol e \<and> t = minute_of e"
    if "minute_us dvd t"
    using candle_key_inj [OF dvd_second [OF that] dvd_second [OF minute_of_dvd]] by (simp add: quote_candle_key_def)
  ultimately show ?thesis using minute_of_dvd [of e] by (auto simp: hot_candle_def)
qed

lemma hot_store_index:
  assumes "hot_inv cfg now d" "hot_valid cfg now e"
  shows "dict_get (zset (hot_store cfg now d e) (candle_index_key sy)) m =
    (if sy = q_symbol e then
       (let s = (if m = bucket_epoch (minute_of e) then Some (timestamp (minute_of e))
                 else dict_get (zset d (candle_index_key sy)) m)
        in case s of None \<Rightarrow> None | Some x \<Rightarrow> if expired_bucket_score cfg now < x then Some x else None)
     else dict_get (zset d (candle_index_key sy)) m)"
    "zset_ok (hot_store cfg now d e)"
proof -
  have z: "zset (hot_store cfg now d e) = (zset d)(candle_index_key (q_symbol e) :=
      filter (\<lambda>p. expired_bucket_score cfg now < snd p)
        (dict_set (bucket_epoch (minute_of e)) (timestamp (minute_of e)) (zset d (candle_index_key (q_symbol e)))))"
    using mem.commit_quote_index by (simp add: hot_store_def hot_store_commit [OF assms])
  have ok: "dict_ok (zset d k)" for k using assms(1) by (simp add: hot_inv_def zset_ok_def)
  show "zset_ok (hot_store cfg now d e)" using ok by (simp add: z zset_ok_def dict_ok_filter)
  have "dict_get (filter (\<lambda>p. expired_bucket_score cfg now < snd p)
        (dict_set (bucket_epoch (minute_of e)) (timestamp (minute_of e)) (zset d k))) m =
      (case (if m = bucket_epoch (minute_of e) then Some (timestamp (minute_of e)) else dict_get (zset d k) m) of
         None \<Rightarrow> None | Some x \<Rightarrow> if expired_bucket_score cfg now < x then Some x else None)" for k
    by (simp add: dict_get_filter ok dict_simps)
  then show "dict_get (zset (hot_store cfg now d e) (candle_index_key sy)) m =
    (if sy = q_symbol e then
       (let s = (if m = bucket_epoch (minute_of e) then Some (timestamp (minute_of e))
                 else dict_get (zset d (candle_index_key sy)) m)
        in case s of None \<Rightarrow> None | Some x \<Rightarrow> if expired_bucket_score cfg now < x then Some x else None)
     else dict_get (zset d (candle_index_key sy)) m)"
    by (simp only: z fun_upd_apply key_clash Let_def if_distrib [of "\<lambda>f. f m"] cong: if_cong) simp
qed

lemma hot_store_inv:
  assumes "hot_inv cfg now d" "hot_valid cfg now e"
  shows "hot_inv cfg now (hot_store cfg now d e)"
proof -
  let ?d = "hot_store cfg now d e"
  note u = updated_candle_ok [OF assms] and idx = hot_store_index [OF assms] and hc = hot_store_candle [OF assms]
  have sok: "symbol_ok (q_symbol e)" using assms(2) by (simp add: hot_valid_def)
  have kv: "kv ?d = (kv d)(latest_key (q_symbol e) := Some (QuoteJson (quote_dump e)),
      quote_candle_key e := Some (CandleJson (updated_candle d e)))"
    using mem.commit_quote_kv by (simp add: hot_store_def hot_store_commit [OF assms])
  have 1: "\<exists>c. v = CandleJson c \<and> b_symbol c = sy \<and> b_open_time c = t \<and> symbol_ok sy \<and> base_candle_ok c \<and> minute_ok c"
    if t: "minute_us dvd t" and v: "kv ?d (candle_key sy (bucket_epoch t)) = Some v" for sy t v
  proof (cases "sy = q_symbol e \<and> t = minute_of e")
    case True
    then have "v = CandleJson (updated_candle d e)" using v by (simp add: kv quote_candle_key_def)
    with u sok True show ?thesis by blast
  next
    case False
    then have "candle_key sy (bucket_epoch t) \<noteq> quote_candle_key e"
      using candle_key_inj [OF dvd_second [OF t] dvd_second [OF minute_of_dvd]] by (simp add: quote_candle_key_def)
    then have "kv d (candle_key sy (bucket_epoch t)) = Some v" using v by (simp add: kv)
    then show ?thesis by (rule hot_inv_data [OF assms(1) t])
  qed
  have 2: "\<exists>t. minute_us dvd t \<and> m = bucket_epoch t \<and> s = timestamp t"
    if "dict_get (zset ?d (candle_index_key sy)) m = Some s" for sy m s
  proof -
    have "m = bucket_epoch (minute_of e) \<and> s = timestamp (minute_of e) \<or>
        dict_get (zset d (candle_index_key sy)) m = Some s"
    proof (cases "sy = q_symbol e")
      case True
      show ?thesis
        using that unfolding idx(1) if_P [OF True] Let_def
        by (cases "m = bucket_epoch (minute_of e)"; cases "dict_get (zset d (candle_index_key sy)) m")
          (simp_all split: if_split_asm)
    next
      case False
      show ?thesis using that unfolding idx(1) if_not_P [OF False] by simp
    qed
    moreover have "\<exists>t. minute_us dvd t \<and> m = bucket_epoch t \<and> s = timestamp t"
      if "dict_get (zset d (candle_index_key sy)) m = Some s"
      using assms(1) that unfolding hot_inv_def by blast
    ultimately show ?thesis using minute_of_dvd by blast
  qed
  have 3: "dict_get (zset ?d (candle_index_key sy)) (bucket_epoch t) = Some (timestamp t)"
    if c: "hot_candle ?d sy t = Some c" and x: "expired_bucket_score cfg now < timestamp t" for sy t c
  proof (cases "(sy, t) = (q_symbol e, minute_of e)")
    case True
    with x show ?thesis by (simp add: idx)
  next
    case False
    have c': "hot_candle d sy t = Some c" using c unfolding hc if_not_P [OF False] .
    then have old: "dict_get (zset d (candle_index_key sy)) (bucket_epoch t) = Some (timestamp t)"
      using assms(1) x unfolding hot_inv_def by blast
    have "minute_us dvd t" using hot_inv_candle(6) [OF assms(1) c'] .
    then have "bucket_epoch t = bucket_epoch (minute_of e) \<longleftrightarrow> t = minute_of e"
      by (rule bucket_epoch_inj [OF dvd_second dvd_second [OF minute_of_dvd]])
    with False x old show ?thesis by (auto simp: idx Let_def)
  qed
  show ?thesis unfolding hot_inv_def using idx(2) 1 2 3 by blast
qed

interpretation hot: candle_store "hot_store cfg now" hot_candle "\<lambda>_ _. True" "hot_inv cfg now" "hot_valid cfg now"
  for cfg now
proof
  fix d e sy t assume "hot_inv cfg now d" "hot_valid cfg now e"
  then show "hot_inv cfg now (hot_store cfg now d e)" by (rule hot_store_inv)
next
  fix d e assume "hot_inv cfg now d" "hot_valid cfg now e"
  then show "hot_candle (hot_store cfg now d e) (q_symbol e) (minute_of e) =
      Some (case hot_candle d (q_symbol e) (minute_of e) of None \<Rightarrow> from_quote e | Some c \<Rightarrow> absorb c e)"
    by (simp add: hot_store_candle updated_candle_def)
next
  fix d e sy t assume "hot_inv cfg now d" "hot_valid cfg now e" "(sy, t) \<noteq> (q_symbol e, minute_of e)"
  then show "hot_candle (hot_store cfg now d e) sy t = hot_candle d sy t" by (auto simp: hot_store_candle)
next
  fix d sy t c assume "hot_inv cfg now d" "hot_candle d sy t = Some c"
  then show "b_symbol c = sy \<and> b_open_time c = t" using hot_inv_candle by blast
qed simp

section \<open>The hot history\<close>

text \<open>Minute candles outside the window, and the order of the rows, do not matter to the aggregation.\<close>

lemma sort_key_set_eq:
  assumes "distinct (map f xs)" "distinct (map f ys)" "set xs = set ys"
  shows "sort_key (f :: 'a \<Rightarrow> 'b::linorder) xs = sort_key f ys"
proof (rule sort_key_inj_key_eq)
  have "distinct xs" "distinct ys" using assms(1,2) by (simp_all add: distinct_map)
  then show "mset xs = mset (sort_key f ys)" using assms(3) by (simp add: set_eq_iff_mset_eq_distinct [symmetric])
  show "inj_on f (set xs)" using assms(1) by (simp add: distinct_map)
qed simp

lemma outside_window:
  assumes "minute_us dvd b_open_time c" "in_window (timeframe_seconds tf) start effective_end (bucket_of (timeframe_seconds tf) c)"
  shows "start \<le> b_open_time c \<and> b_open_time c \<le> effective_end"
  using minute_in_bucket [OF assms(1), of tf] assms(2) by (simp add: in_window_def)

lemma aggregate_rows_cong:
  assumes ok: "\<forall>c \<in> set cs. minute_ok c" and d: "distinct (map b_open_time cs)" "distinct (map b_open_time rows)"
    and w: "history_window tf limit end_at = Inr (start, effective_end)"
    and rows: "set rows = {c \<in> set cs. start \<le> b_open_time c \<and> b_open_time c \<le> effective_end}"
  shows "aggregate_base_candles symbol tf limit end_at retention rows =
    aggregate_base_candles symbol tf limit end_at retention cs"
proof -
  let ?i = "timeframe_seconds tf"
  let ?P = "\<lambda>b c. in_window ?i start effective_end (bucket_of ?i c) \<and> bucket_of ?i c = b"
  have inw: "in_window ?i start effective_end (bucket_of ?i c) \<Longrightarrow> c \<in> set cs \<Longrightarrow> c \<in> set rows" for c
    using outside_window ok unfolding rows minute_ok_def by blast
  have "window_buckets ?i start effective_end rows = window_buckets ?i start effective_end cs"
    using inw rows by (auto simp: window_buckets_def)
  moreover have "window_obs ?i start effective_end rows b = window_obs ?i start effective_end cs b" for b
  proof -
    have "set (filter (?P b) rows) = set (filter (?P b) cs)" using inw rows by auto
    then have "sort_key b_open_time (filter (?P b) rows) = sort_key b_open_time (filter (?P b) cs)"
      using d by (intro sort_key_set_eq) (simp_all add: distinct_map_filter)
    then show ?thesis by (simp add: window_obs_def filter_sort)
  qed
  ultimately have "series_buckets ?i start effective_end rows = series_buckets ?i start effective_end cs"
    by (simp add: series_buckets_def)
  with \<open>\<And>b. window_obs ?i start effective_end rows b = window_obs ?i start effective_end cs b\<close>
  show ?thesis by (simp add: aggregate_closed_form w)
qed

lemma timestamp_le [simp]: "timestamp s \<le> timestamp t \<longleftrightarrow> s \<le> t"
  by (simp add: timestamp_def)

lemma timestamp_back: "\<lfloor>timestamp t * 1000000\<rfloor> = t"
  by (simp add: timestamp_def)

lemma timestamp_inj [simp]: "timestamp s = timestamp t \<longleftrightarrow> s = t"
  by (simp add: timestamp_def)

text \<open>The minutes of a symbol that the index offers for a window.\<close>

definition indexed_minutes :: "redis_db \<Rightarrow> string \<Rightarrow> rat \<Rightarrow> instant \<Rightarrow> instant \<Rightarrow> instant list" where
  "indexed_minutes d sy expired start effective_end =
     map (\<lambda>p. \<lfloor>snd p * 1000000\<rfloor>)
       (sort_key (\<lambda>p. (snd p, fst p)) (filter (\<lambda>p. timestamp start \<le> snd p \<and> snd p \<le> timestamp effective_end)
          (zset (db_zremrangebyscore d (candle_index_key sy) expired) (candle_index_key sy))))"

lemma index_entry:
  assumes "hot_inv cfg now d" "p \<in> set (zset d (candle_index_key sy))"
  shows "\<exists>t. minute_us dvd t \<and> p = (bucket_epoch t, timestamp t)"
proof -
  have "dict_ok (zset d (candle_index_key sy))" using assms(1) by (simp add: hot_inv_def zset_ok_def)
  then have "dict_get (zset d (candle_index_key sy)) (fst p) = Some (snd p)"
    using assms(2) by (simp add: dict_get_in [symmetric])
  then have "\<exists>t. minute_us dvd t \<and> fst p = bucket_epoch t \<and> snd p = timestamp t"
    using assms(1) unfolding hot_inv_def by blast
  then show ?thesis by (metis prod.collapse)
qed

lemma indexed_minutes:
  fixes sy :: string and start effective_end :: instant
  assumes inv: "hot_inv cfg now d"
  defines "expired \<equiv> expired_bucket_score cfg now"
  defines "ts \<equiv> indexed_minutes d sy expired start effective_end"
  shows "db_zrangebyscore (db_zremrangebyscore d (candle_index_key sy) expired) (candle_index_key sy)
      (timestamp start) (timestamp effective_end) = map bucket_epoch ts"
    "\<forall>t \<in> set ts. minute_us dvd t" "distinct ts"
    "t \<in> set ts \<longleftrightarrow> minute_us dvd t \<and> dict_get (zset d (candle_index_key sy)) (bucket_epoch t) = Some (timestamp t) \<and>
       expired < timestamp t \<and> start \<le> t \<and> t \<le> effective_end"
proof -
  let ?z = "zset d (candle_index_key sy)"
  let ?f = "\<lambda>p. \<lfloor>snd p * 1000000\<rfloor> :: instant"
  let ?Q = "\<lambda>p. expired < snd p \<and> timestamp start \<le> snd p \<and> snd p \<le> timestamp effective_end"
  let ?L = "sort_key (\<lambda>p. (snd p, fst p)) (filter ?Q ?z)"
  have ts: "ts = map ?f ?L"
    by (simp add: ts_def indexed_minutes_def db_zremrangebyscore_def conj_commute conj_left_commute)
  have e: "\<exists>t. minute_us dvd t \<and> p = (bucket_epoch t, timestamp t)" if "p \<in> set ?L" for p
    by (rule index_entry [OF inv, of _ sy]) (use that in simp)
  have ret: "p = (bucket_epoch (?f p), timestamp (?f p)) \<and> minute_us dvd ?f p" if "p \<in> set ?L" for p
    using e [OF that] by (auto simp: timestamp_back)
  show "db_zrangebyscore (db_zremrangebyscore d (candle_index_key sy) expired) (candle_index_key sy)
      (timestamp start) (timestamp effective_end) = map bucket_epoch ts"
  proof -
    have "fst p = bucket_epoch (?f p)" if "p \<in> set ?L" for p
      using arg_cong [OF conjunct1 [OF ret [OF that]], of fst] by (simp only: fst_conv)
    then have "map fst ?L = map (\<lambda>p. bucket_epoch (?f p)) ?L" by (rule map_cong [OF refl])
    then show ?thesis
      by (simp add: ts db_zrangebyscore_def db_zremrangebyscore_def conj_commute conj_left_commute comp_def)
  qed
  show "\<forall>t \<in> set ts. minute_us dvd t" using ret by (auto simp: ts)
  have ok: "dict_ok ?z" using inv by (simp add: hot_inv_def zset_ok_def)
  have "inj_on ?f (set ?L)"
  proof (rule inj_onI)
    fix p q assume "p \<in> set ?L" "q \<in> set ?L" "?f p = ?f q"
    then have "p = (bucket_epoch (?f p), timestamp (?f p))" "(bucket_epoch (?f p), timestamp (?f p)) = q"
      using ret [of p] ret [of q] by argo+
    then show "p = q" by (rule trans)
  qed
  moreover have "distinct ?L" using ok by (auto simp: dict_ok_def distinct_map)
  ultimately show "distinct ts" by (simp add: ts distinct_map)
  show "t \<in> set ts \<longleftrightarrow> minute_us dvd t \<and> dict_get ?z (bucket_epoch t) = Some (timestamp t) \<and>
      expired < timestamp t \<and> start \<le> t \<and> t \<le> effective_end"
  proof
    assume "t \<in> set ts"
    then obtain p where p: "p \<in> set ?L" "t = ?f p" by (auto simp: ts)
    with ret [OF p(1)] have "p = (bucket_epoch t, timestamp t)" "minute_us dvd t" by auto
    with p(1) ok show "minute_us dvd t \<and> dict_get ?z (bucket_epoch t) = Some (timestamp t) \<and>
        expired < timestamp t \<and> start \<le> t \<and> t \<le> effective_end"
      by (simp add: dict_get_in)
  next
    assume a: "minute_us dvd t \<and> dict_get ?z (bucket_epoch t) = Some (timestamp t) \<and>
        expired < timestamp t \<and> start \<le> t \<and> t \<le> effective_end"
    then have "(bucket_epoch t, timestamp t) \<in> set ?L" using ok by (simp add: dict_get_in)
    then have "?f (bucket_epoch t, timestamp t) \<in> set ts" unfolding ts set_map by (rule imageI)
    then show "t \<in> set ts" by (simp add: timestamp_back)
  qed
qed

context redis
begin

lemma collect_candles_eq:
  assumes "hot_inv cfg now d" "kv (db r) = kv d" "\<forall>t \<in> set ts. minute_us dvd t"
  shows "collect_candles R r sy (map bucket_epoch ts) =
    Inr (List.map_filter (hot_candle d sy) ts, map bucket_epoch (filter (\<lambda>t. hot_candle d sy t = None) ts))"
  using assms(3)
proof (induction ts)
  case (Cons t ts)
  then have k: "kv (db r) (candle_key sy (bucket_epoch t)) = map_option CandleJson (hot_candle d sy t)"
    using hot_inv_get [OF assms(1)] assms(2) by simp
  show ?case
  proof (cases "hot_candle d sy t")
    case None
    with Cons k show ?thesis by (simp add: map_filter_simps)
  next
    case (Some c)
    note c = hot_inv_candle [OF assms(1) Some]
    from Some Cons k c show ?thesis
      by (simp add: map_filter_simps candle_of_payload_ok del: candle_of_payload.simps)
  qed
qed (simp add: map_filter_simps)

lemma hot_get_candles_eq:
  assumes inv: "hot_inv cfg now (db r)" and w: "history_window tf limit end_at = Inr (start, effective_end)"
  shows "fst (hot_get_candles R cfg now r symbol tf limit end_at) =
    aggregate_base_candles (py_upper symbol) tf limit (utc_datetime effective_end) (candle_history_retention_seconds cfg)
      (List.map_filter (hot_candle (db r) (py_upper symbol))
         (indexed_minutes (db r) (py_upper symbol) (expired_bucket_score cfg now) start effective_end))"
proof -
  let ?S = "py_upper symbol" and ?x = "expired_bucket_score cfg now"
  note m = indexed_minutes [OF inv, where sy = ?S and start = start and effective_end = effective_end]
  have "kv (db (zremrangebyscore_cmd R r (candle_index_key ?S) ?x)) = kv (db r)"
    by (simp add: db_zremrangebyscore_def)
  from collect_candles_eq [OF inv this m(2), of ?S] show ?thesis
    by (simp add: hot_get_candles_def w m(1) Let_def)
qed

end

lemma hot_inv_empty: "hot_inv cfg now empty_db"
  by (simp add: hot_inv_def empty_db_def zset_ok_def hot_candle_def)

lemma set_map_filter: "set (List.map_filter f xs) = {y. \<exists>x \<in> set xs. f x = Some y}"
  by (induction xs) (auto simp: map_filter_simps split: option.splits)

lemma distinct_candles:
  assumes "hot_inv cfg now d" "distinct ts"
  shows "distinct (map b_open_time (List.map_filter (hot_candle d sy) ts))"
  using assms(2)
  by (induction ts)
    (auto simp: map_filter_simps set_map_filter hot_inv_candle(2) [OF assms(1)] split: option.splits)

lemma history_window_utc:
  "history_window tf limit end_at = Inr (start, effective_end) \<Longrightarrow>
   history_window tf limit (utc_datetime effective_end) = Inr (start, effective_end)"
  by (auto simp: history_window_def Let_def split: if_splits)

text \<open>The candles of a symbol, as the store holds them for the quotes \<open>es\<close>.\<close>

lemma hot_represents:
  assumes inv: "hot_inv cfg now d" and holds: "hot.holds d es"
  defines "qs \<equiv> \<lambda>sy. filter (\<lambda>e. q_symbol e = sy) es"
  defines "cs \<equiv> \<lambda>sy. List.map_filter (hot_candle d sy) (sorted_list_of_set (minute_of ` set (qs sy)))"
  shows "represents (cs sy) (qs sy)" "distinct (map b_open_time (cs sy))"
    "c \<in> set (cs sy) \<longleftrightarrow> (\<exists>t. hot_candle d sy t = Some c)"
proof -
  show d: "distinct (map b_open_time (cs sy))"
    unfolding cs_def by (rule distinct_candles [OF inv]) simp
  have same: "filter (in_bucket sy t) es = filter (\<lambda>e. floor_utc (event_ts e) 60 = t) (qs sy)" for t
    unfolding qs_def filter_filter by (rule filter_cong [OF refl]) (auto simp: in_bucket_def)
  have min: "t \<in> minute_of ` set (qs sy)" if "hot_candle d sy t = Some c" for t c
  proof -
    have "filter (in_bucket sy t) es \<noteq> []"
      using hot.holds_candle [OF holds that] summarises_nonempty by blast
    then show ?thesis by (auto simp: qs_def filter_empty_conv in_bucket_minute)
  qed
  show mem: "c \<in> set (cs sy) \<longleftrightarrow> (\<exists>t. hot_candle d sy t = Some c)" for c
    using min by (auto simp: cs_def set_map_filter)
  have "summarises c (filter (\<lambda>e. floor_utc (event_ts e) 60 = b_open_time c) (qs sy))" if "c \<in> set (cs sy)" for c
  proof -
    from that mem obtain t where t: "hot_candle d sy t = Some c" by blast
    then have "b_open_time c = t" using hot_inv_candle(2) [OF inv] by blast
    with hot.holds_candle [OF holds t] show ?thesis by (simp add: same)
  qed
  moreover have "floor_utc (event_ts e) 60 \<in> b_open_time ` set (cs sy)" if "e \<in> set (qs sy)" for e
  proof -
    have "e \<in> set es" "q_symbol e = sy" using that by (auto simp: qs_def)
    with hot.holds_present [OF holds] obtain c where c: "hot_candle d sy (minute_of e) = Some c" by blast
    then have "b_open_time c = minute_of e" "c \<in> set (cs sy)"
      using hot_inv_candle(2) [OF inv] mem by blast+
    then show ?thesis by (metis image_eqI minute_of_def)
  qed
  ultimately show "represents (cs sy) (qs sy)" using d by (simp add: represents_def)
qed

section \<open>Properties\<close>

text \<open>The optimistic update is atomic: whatever other clients do between its read and its commit, a
  successful \<open>cache_quote\<close> of a quote inside the retention commits the candle computed from the value that is
  in the store at the moment of the commit, so no concurrent update is lost.\<close>

theorem cache_quote_atomic:
  assumes "cache_quote R cfg now others touched e r = (Inr (), r')"
    "now < minute_of e + (60 + candle_history_retention_seconds cfg) * us_per_second"
  shows "\<exists>r1 c. r' = commit_quote R cfg now e c r1 \<and> next_candle (get_cmd R r1 (quote_candle_key e)) e = Inr c"
proof -
  have aware: "is_aware (q_provider_timestamp e)"
    using assms(1) by (auto simp: cache_quote_def floor_time_def split: if_splits)
  then have "cache_attempts R cfg now others touched e (candle_update_retry_limit cfg) 0 r = (Inr (), r')"
    using assms by (simp add: cache_quote_def floor_time_def minute_of_def event_ts_def Let_def algebra_simps)
  then show ?thesis by (rule cache_attempts_commit)
qed

text \<open>C7: the hot layer is exact: after valid quotes have been cached one after the other, the history of a
  symbol over a window inside the retention summarises exactly the cached quotes of the window.\<close>

theorem hot_history_exact:
  assumes "redis R db" "db r = foldl (hot_store cfg now) empty_db es" "\<forall>e \<in> set es. hot_valid cfg now e"
    and w: "history_window tf limit end_at = Inr (start, effective_end)"
    and lim: "limit \<le> 1000" "symbol_ok (py_upper symbol)" "0 < candle_history_retention_seconds cfg"
    and recent: "expired_bucket_score cfg now < timestamp start"
  shows "\<exists>s. fst (hot_get_candles R cfg now r symbol tf limit end_at) = Inr s \<and>
    series_exact tf start (dt_us end_at) (s_data s) (filter (\<lambda>e. q_symbol e = py_upper symbol) es)"
proof -
  let ?S = "py_upper symbol" and ?d = "db r"
  let ?qs = "filter (\<lambda>e. q_symbol e = ?S) es"
  let ?cs = "List.map_filter (hot_candle ?d ?S) (sorted_list_of_set (minute_of ` set ?qs))"
  let ?ts = "indexed_minutes ?d ?S (expired_bucket_score cfg now) start effective_end"
  let ?rows = "List.map_filter (hot_candle ?d ?S) ?ts"
  have "hot.holds empty_db []" by (simp add: hot.holds_def hot_candle_def empty_db_def)
  from hot.holds_store_all [OF hot_inv_empty assms(3) this]
  have inv: "hot_inv cfg now ?d" and "hot.holds ?d (accepted (\<lambda>_ _. True) (hot_store cfg now) empty_db es)"
    by (simp_all add: assms(2))
  moreover have "accepted (\<lambda>_ _. True) (hot_store cfg now) d es = es" for d by (induction es arbitrary: d) auto
  ultimately have holds: "hot.holds ?d es" by simp
  note rep = hot_represents [OF inv holds, where sy = ?S]
  note m = indexed_minutes [OF inv, where sy = ?S and start = start and effective_end = effective_end]
  have e: "effective_end = dt_us end_at" using history_window_Inr(1) [OF w] .
  have rows: "set ?rows = {c \<in> set ?cs. start \<le> b_open_time c \<and> b_open_time c \<le> effective_end}"
  proof (intro set_eqI iffI)
    fix c assume "c \<in> set ?rows"
    then obtain t where t: "t \<in> set ?ts" "hot_candle ?d ?S t = Some c" by (auto simp: set_map_filter)
    then show "c \<in> {c \<in> set ?cs. start \<le> b_open_time c \<and> b_open_time c \<le> effective_end}"
      using m(4) [of t] rep(3) [of c] hot_inv_candle(2) [OF inv t(2)] by auto
  next
    fix c assume "c \<in> {c \<in> set ?cs. start \<le> b_open_time c \<and> b_open_time c \<le> effective_end}"
    then obtain t where t: "hot_candle ?d ?S t = Some c" "start \<le> b_open_time c" "b_open_time c \<le> effective_end"
      using rep(3) by auto
    have bt: "b_open_time c = t" using hot_inv_candle(2) [OF inv t(1)] .
    have x: "expired_bucket_score cfg now < timestamp t"
      using recent t(2) bt by (meson less_le_trans timestamp_le)
    then have "dict_get (zset ?d (candle_index_key ?S)) (bucket_epoch t) = Some (timestamp t)"
      using inv t(1) unfolding hot_inv_def by blast
    then have "t \<in> set ?ts" using m(4) [of t] x t bt hot_inv_candle(6) [OF inv t(1)] by simp
    with t(1) show "c \<in> set ?rows" by (auto simp: set_map_filter)
  qed
  have ok: "\<forall>c \<in> set ?cs. minute_ok c \<and> base_candle_ok c" using rep(3) hot_inv_candle(4,5) [OF inv] by blast
  note w' = history_window_utc [OF w]
  have eq: "aggregate_base_candles ?S tf limit (utc_datetime effective_end) (candle_history_retention_seconds cfg) ?rows =
      aggregate_base_candles ?S tf limit (utc_datetime effective_end) (candle_history_retention_seconds cfg) ?cs"
    using ok by (intro aggregate_rows_cong [OF _ rep(2) distinct_candles [OF inv m(3)] w' rows]) auto
  have "1 \<le> limit" using history_window_Inr(2) [OF w] .
  with lim ok obtain s where s: "aggregate_base_candles ?S tf limit (utc_datetime effective_end)
      (candle_history_retention_seconds cfg) ?cs = Inr s"
    using aggregate_defined [of limit "utc_datetime effective_end" ?S "candle_history_retention_seconds cfg" ?cs tf] by auto
  have "s_period_start s = start" using aggregate_data(1) [OF s] w' by simp
  with aggregate_exact [OF s rep(1)] have "series_exact tf start (dt_us end_at) (s_data s) ?qs" by (simp add: e)
  with redis.hot_get_candles_eq [OF assms(1) inv w] eq s show ?thesis by simp
qed

text \<open>An event is accepted for processing exactly once: the first \<open>accept_event_once\<close> of an identifier
  answers yes, every later one no, and other identifiers are not affected.\<close>

theorem accept_once:
  assumes "redis R db" "kv (db r) (dedupe_key (q_event_id e)) = None" "accept_event_once R r e = (first, r')"
  shows "first \<and> \<not> fst (accept_event_once R r' e) \<and> db (snd (accept_event_once R r' e)) = db r' \<and>
    (\<forall>f. q_event_id f \<noteq> q_event_id e \<longrightarrow> fst (accept_event_once R r' f) = fst (accept_event_once R r f))"
proof -
  note l = redis.setnx [OF assms(1)]
  have "first = fst (accept_event_once R r e)" "r' = snd (accept_event_once R r e)" using assms(3) by simp_all
  with assms(2) show ?thesis by (simp add: accept_event_once_def l db_setnx_def)
qed

text \<open>Sequence observation keeps the highest sequence seen per provider and symbol, and reports every
  event that does not directly follow it: a gap with the number of missing events, or an out-of-order event.\<close>

theorem observe_sequence_spec:
  assumes "redis R db" "q_sequence e = Some n"
    "kv (db r) (sequence_key (q_provider e) (q_symbol e)) = map_option Number previous"
    "observe_sequence R r e = (m, r')"
  shows "kv (db r') (sequence_key (q_provider e) (q_symbol e)) =
      Some (Number (case previous of None \<Rightarrow> n | Some p \<Rightarrow> max p n)) \<and>
    m = Inr (case previous of None \<Rightarrow> None | Some p \<Rightarrow>
       if n = p + 1 then None
       else Some \<lparr>gap_symbol = q_symbol e, gap_previous_sequence = Some p, gap_current_sequence = n,
              gap_size = (if p < n then n - p - 1 else 0), gap_out_of_order = (n \<le> p)\<rparr>)"
proof -
  note l = redis.get [OF assms(1)] redis.set [OF assms(1)] redis.expire [OF assms(1)]
  show ?thesis
  proof (cases previous)
    case None
    with assms(2-4) show ?thesis by (auto simp: observe_sequence_def l Let_def)
  next
    case (Some p)
    with assms(2-4) show ?thesis
      by (cases "n = p + 1"; cases "p < n") (auto simp: observe_sequence_def l Let_def)
  qed
qed

text \<open>Recording usage is idempotent: a second record with the same idempotency key is refused and adds
  nothing to the usage stream.\<close>

theorem usage_idempotent:
  assumes "redis R db" "record_usage R cfg t r u = (first, r1)" "record_usage R cfg t' r1 u' = (again, r2)"
    "u_idempotency_key u' = u_idempotency_key u"
  shows "\<not> again \<and> stream (db r2) = stream (db r1) \<and>
    stream (db r1) (usage_stream cfg) = stream (db r) (usage_stream cfg) @
      (if first then [last (stream (db r1) (usage_stream cfg))] else [])"
proof -
  note l = redis.setnx [OF assms(1)] redis.xadd [OF assms(1)]
  have 1: "first = fst (record_usage R cfg t r u)" "r1 = snd (record_usage R cfg t r u)"
    "again = fst (record_usage R cfg t' r1 u')" "r2 = snd (record_usage R cfg t' r1 u')"
    using assms(2,3) by simp_all
  show ?thesis unfolding 1 using assms(4)
    by (auto simp: record_usage_def case_prod_beta l db_setnx_def)
qed

text \<open>The latest quote of a symbol is the one cached last, with its age in milliseconds and the staleness
  verdict of the freshness limit.\<close>

theorem latest_after_cache:
  assumes "redis R db" "hot_inv cfg now (db r)" "hot_valid cfg now e" "validate_quote (quote_dump e) = Inr e"
    "cache_quote R cfg now (\<lambda>_ r. r) (\<lambda>_. False) e r = (m, r')"
  shows "m = Inr () \<and> get_latest R cfg later r' (q_symbol e) = Inr (Some (snapshot_of cfg later e))"
proof -
  obtain n where n: "candle_update_retry_limit cfg = Suc n"
    using assms(3) by (cases "candle_update_retry_limit cfg") (auto simp: hot_valid_def)
  have "next_candle (get_cmd R r (quote_candle_key e)) e = Inr (updated_candle (db r) e)"
    using updated_candle_ok(5) [OF assms(2,3)] by (simp add: redis.get [OF assms(1)])
  then have "m = Inr ()" and r': "r' = commit_quote R cfg now e (updated_candle (db r) e) r"
    using assms(3,5) cache_attempts_quiet [of "\<lambda>_ d. d" r "\<lambda>_. False" R cfg now e n]
    by (simp_all add: cache_quote_def floor_time_def hot_valid_def minute_of_def event_ts_def n algebra_simps
        del: cache_attempts.simps)
  have "py_upper (q_symbol e) = q_symbol e"
    using assms(3) by (simp add: hot_valid_def symbol_ok_def py_upper_symbol_fix)
  then have "get_latest R cfg later r' (q_symbol e) = Inr (Some (snapshot_of cfg later e))"
    by (simp add: get_latest_def redis.get [OF assms(1)] r' redis.commit_quote_kv [OF assms(1)]
        quote_candle_key_def assms(4))
  with \<open>m = Inr ()\<close> show ?thesis by blast
qed

section \<open>Witnesses\<close>

definition sample_store_config :: store_config where
  "sample_store_config =
     \<lparr>quote_stream = ''smdg:quotes:v1'', quote_pubsub_channel = ''smdg:quotes:fanout:v1'',
      usage_stream = ''smdg:usage:v1'', dead_letter_stream = ''smdg:dead-letter:v1'',
      stream_group = ''smdg:processors:v1'', retry_limit = 3, quote_freshness_seconds = 5,
      candle_history_retention_seconds = 3600, candle_update_retry_limit = 8\<rparr>"

lemma sample_hot_valid:
  "0 < p \<Longrightarrow> 0 \<le> t \<Longrightarrow> hot_valid sample_store_config 200000000 (sample_quote i p t)"
proof -
  assume "0 < p" "0 \<le> t"
  then have "- 60000000 \<le> minute_of (sample_quote i p t)"
    using floor_utc_upper [of 60 t] by (simp add: minute_of_def)
  moreover have "symbol_ok ''AAPL''" by code_simp
  moreover have "is_aware (q_provider_timestamp (sample_quote i p t))" by (simp add: sample_quote_def)
  ultimately show ?thesis using \<open>0 < p\<close> by (simp add: hot_valid_def sample_store_config_def)
qed

lemma sample_quotes_hot: "\<forall>e \<in> set sample_quotes. hot_valid sample_store_config 200000000 e"
  by (simp add: sample_quotes_def sample_hot_valid)

theorem cache_quote_atomic_witness:
  "\<exists>r1 c. hot_store sample_store_config 200000000 empty_db (sample_quote 1 9 61000000) =
     commit_quote db_ops sample_store_config 200000000 (sample_quote 1 9 61000000) c r1 \<and>
     next_candle (get_cmd db_ops r1 (quote_candle_key (sample_quote 1 9 61000000))) (sample_quote 1 9 61000000) = Inr c"
proof -
  have v: "hot_valid sample_store_config 200000000 (sample_quote 1 9 61000000)" by (simp add: sample_hot_valid)
  have "cache_quote db_ops sample_store_config 200000000 (\<lambda>_ d. d) (\<lambda>_. False) (sample_quote 1 9 61000000) empty_db =
      (Inr (), hot_store sample_store_config 200000000 empty_db (sample_quote 1 9 61000000))"
    using hot_store_commit [OF hot_inv_empty v] by (simp add: hot_store_def)
  from cache_quote_atomic [OF this] v show ?thesis by (simp add: hot_valid_def)
qed

theorem hot_history_exact_witness:
  "\<exists>s. fst (hot_get_candles db_ops sample_store_config 200000000
       (foldl (hot_store sample_store_config 200000000) empty_db sample_quotes) ''aapl'' TF_1m 2 (utc_datetime 180000000)) = Inr s \<and>
     series_exact TF_1m 60000000 180000000 (s_data s) sample_quotes"
proof -
  have u: "py_upper ''aapl'' = ''AAPL''" by code_simp
  have w: "history_window TF_1m 2 (utc_datetime 180000000) = Inr (60000000, 180000000)" by code_simp
  have "symbol_ok (py_upper ''aapl'')" by code_simp
  moreover have "filter (\<lambda>e. q_symbol e = ''AAPL'') sample_quotes = sample_quotes"
    by (simp add: sample_quotes_def)
  moreover have "expired_bucket_score sample_store_config 200000000 < timestamp 60000000"
    by (simp add: expired_bucket_score_def sample_store_config_def timestamp_def)
  ultimately show ?thesis
    using hot_history_exact [OF mem_redis _ sample_quotes_hot w,
        of "foldl (hot_store sample_store_config 200000000) empty_db sample_quotes" "''aapl''"]
    by (simp add: u) (simp add: sample_store_config_def)
qed

theorem accept_once_witness:
  "\<exists>r'. accept_event_once db_ops empty_db (sample_quote 1 9 61000000) = (True, r') \<and>
     \<not> fst (accept_event_once db_ops r' (sample_quote 1 9 61000000))"
proof -
  obtain f r' where a: "accept_event_once db_ops empty_db (sample_quote 1 9 61000000) = (f, r')" by (metis surj_pair)
  from accept_once [OF mem_redis _ a] a show ?thesis by (auto simp: empty_db_def)
qed

theorem observe_sequence_spec_witness:
  "\<exists>r'. observe_sequence db_ops (empty_db\<lparr>kv := (\<lambda>_. Some (Number 1))\<rparr>) (sample_quote 1 9 61000000) =
     (Inr (Some \<lparr>gap_symbol = ''AAPL'', gap_previous_sequence = Some 1, gap_current_sequence = 3,
        gap_size = 1, gap_out_of_order = False\<rparr>), r')"
proof -
  obtain m r' where o: "observe_sequence db_ops (empty_db\<lparr>kv := (\<lambda>_. Some (Number 1))\<rparr>) (sample_quote 1 9 61000000) = (m, r')"
    by (metis surj_pair)
  have "q_sequence (sample_quote 1 9 61000000) = Some 3"
    by (simp add: sample_quote_def quote_of_input_def sample_input_def)
  from observe_sequence_spec [OF mem_redis this _ o, of "Some 1"] o show ?thesis by simp
qed

definition sample_usage :: usage_event where
  "sample_usage = \<lparr>u_idempotency_key = ''k'', u_client_id = ''u'', u_event_type = ''quote_read'', u_quantity = 1, u_metadata = []\<rparr>"

theorem usage_idempotent_witness:
  "\<exists>first r1 again r2. record_usage db_ops sample_store_config (utc_datetime 1) empty_db sample_usage = (first, r1) \<and>
     record_usage db_ops sample_store_config (utc_datetime 2) r1 sample_usage = (again, r2) \<and> \<not> again \<and> stream r2 = stream r1"
proof -
  obtain a r1 where 1: "record_usage db_ops sample_store_config (utc_datetime 1) empty_db sample_usage = (a, r1)" by (metis surj_pair)
  obtain b r2 where 2: "record_usage db_ops sample_store_config (utc_datetime 2) r1 sample_usage = (b, r2)" by (metis surj_pair)
  from usage_idempotent [OF mem_redis 1 2] 1 2 show ?thesis by auto
qed

theorem latest_after_cache_witness:
  "\<exists>m r'. cache_quote db_ops sample_store_config 200000000 (\<lambda>_ r. r) (\<lambda>_. False) (quote_of_input sample_input) empty_db = (m, r') \<and>
     get_latest db_ops sample_store_config 210000000 r' ''AAPL'' =
       Inr (Some (snapshot_of sample_store_config 210000000 (quote_of_input sample_input)))"
proof -
  let ?e = "quote_of_input sample_input"
  obtain m r' where c: "cache_quote db_ops sample_store_config 200000000 (\<lambda>_ r. r) (\<lambda>_. False) ?e empty_db = (m, r')"
    by (metis surj_pair)
  have v: "hot_valid sample_store_config 200000000 ?e" by code_simp
  have q: "q_symbol ?e = ''AAPL''" by code_simp
  have d: "validate_quote (quote_dump ?e) = Inr ?e" by code_simp
  from latest_after_cache [OF mem_redis _ v d c, of 210000000] c q show ?thesis by (simp add: hot_inv_empty)
qed

end
