(* ===== verification/Pipeline.thy ===== *)
theory Pipeline
  imports Storage Archive QoS
begin

text \<open>
  The consumers of the Redis streams: \<open>QuoteProcessor\<close> and \<open>FanoutListener\<close> of \<open>pipeline.py\<close>, \<open>UsageSink\<close>
  of \<open>usage_sink.py\<close>, \<open>CandleArchiveSink\<close> of \<open>candle_archive.py\<close> and \<open>RecoveringCandleArchiveSink\<close> of
  \<open>candle_archive_worker.py\<close>.  Each consumes entries that the server has delivered to its group, and
  acknowledges, retries or dead-letters them.  Every call of the store may find the service unreachable:
  \<open>fault\<close> says which calls raise.

  The lemmas show what a processed entry leaves behind, that a poison entry ends in the dead-letter stream
  after the retry limit, and that the archive worker loses nothing to transient failures; two others record
  that the quote processor does lose events that way and that a failed usage entry takes its batch with it.
\<close>

section \<open>The quote processor\<close>

datatype store_call = Accept | Observe | Health | Cache | Fanout | Ack | Retry | DeadLetter | Persist | Publish | Status

type_synonym faults = "store_call \<Rightarrow> error option"

definition stream_health_key :: "string \<Rightarrow> string \<Rightarrow> string" where
  "stream_health_key provider symbol = ''smdg:stream-health:'' @ provider @ '':'' @ symbol"

definition entry_quote :: "entry \<Rightarrow> quote_event result" where
  "entry_quote flds =
     (case dict_get flds ''payload'' of None \<Rightarrow> Inl (KeyError ''payload'') | Some p \<Rightarrow> quote_of_payload p)"

definition ack_call :: "'r redis_ops \<Rightarrow> faults \<Rightarrow> string \<Rightarrow> string \<Rightarrow> string \<Rightarrow> ('r, unit) call" where
  "ack_call R fault stream_name grp stream_id =
     callS (fault Ack) (\<lambda>r. (Inr (), ack R r stream_name grp [stream_id]))"

definition record_health :: "'r redis_ops \<Rightarrow> faults \<Rightarrow> datetime \<Rightarrow> quote_event \<Rightarrow> gap_observation option \<Rightarrow> ('r, unit) call" where
  "record_health R fault t e observation =
     (case observation of
        None \<Rightarrow> returnS ()
      | Some g \<Rightarrow> callS (fault Health) (\<lambda>r. (Inr (),
          expire_cmd R (set_cmd R r (stream_health_key (q_provider e) (q_symbol e))
            (FieldsJson [(''status'', Text ''degraded''),
               (''kind'', Text (if gap_out_of_order g then ''out_of_order'' else ''gap'')),
               (''previous_sequence'', Number (the (gap_previous_sequence g))),
               (''current_sequence'', Number (gap_current_sequence g)), (''gap'', Number (gap_size g)),
               (''observed_at'', Iso t)]))
            (stream_health_key (q_provider e) (q_symbol e)) 300)))"

definition process_body ::
  "'r redis_ops \<Rightarrow> store_config \<Rightarrow> faults \<Rightarrow> (nat \<Rightarrow> 'r \<Rightarrow> 'r) \<Rightarrow> (nat \<Rightarrow> bool) \<Rightarrow> datetime \<Rightarrow> string \<Rightarrow> entry \<Rightarrow> ('r, unit) call" where
  "process_body R cfg fault others touched t stream_id flds =
     bindS (liftS (entry_quote flds)) (\<lambda>e.
     bindS (callS (fault Accept) (\<lambda>r. let (ok, r') = accept_event_once R r e in (Inr ok, r'))) (\<lambda>ok.
       if \<not> ok then ack_call R fault (quote_stream cfg) (stream_group cfg) stream_id
       else
         bindS (callS (fault Observe) (\<lambda>r. observe_sequence R r e)) (\<lambda>observation.
         bindS (record_health R fault t e observation) (\<lambda>_.
         bindS (callS (fault Cache) (cache_quote R cfg (dt_us t) others touched e)) (\<lambda>_.
         bindS (callS (fault Fanout) (\<lambda>r. (Inr (), publish_fanout R cfg r e))) (\<lambda>_.
         ack_call R fault (quote_stream cfg) (stream_group cfg) stream_id))))))"

definition handle_failure ::
  "'r redis_ops \<Rightarrow> store_config \<Rightarrow> faults \<Rightarrow> datetime \<Rightarrow> string \<Rightarrow> entry \<Rightarrow> error \<Rightarrow> ('r, unit) call" where
  "handle_failure R cfg fault t stream_id flds err =
     bindS (callS (fault Retry) (\<lambda>r. increment_retry R r stream_id)) (\<lambda>retry_count.
       if retry_limit cfg \<le> retry_count then
         bindS (callS (fault DeadLetter) (\<lambda>r. (Inr (),
           move_to_dead_letter R cfg r (quote_stream cfg) stream_id flds (error_text err) retry_count t)))
           (\<lambda>_. ack_call R fault (quote_stream cfg) (stream_group cfg) stream_id)
       else returnS ())"

definition process_one ::
  "'r redis_ops \<Rightarrow> store_config \<Rightarrow> faults \<Rightarrow> (nat \<Rightarrow> 'r \<Rightarrow> 'r) \<Rightarrow> (nat \<Rightarrow> bool) \<Rightarrow> datetime \<Rightarrow> string \<Rightarrow> entry \<Rightarrow> ('r, unit) call" where
  "process_one R cfg fault others touched t stream_id flds =
     catchS (process_body R cfg fault others touched t stream_id flds) (handle_failure R cfg fault t stream_id flds)"

text \<open>One message of the fan-out channel: \<open>fanout_messages\<close> validates it and the hub publishes it.\<close>

definition fanout_one :: "hub \<Rightarrow> payload \<Rightarrow> hub result" where
  "fanout_one h p = bindE (quote_of_payload p) (\<lambda>e. Inr (hub_publish h e))"

text \<open>\<open>claimed[1]\<close> of the reply to \<open>XAUTOCLAIM\<close>, when there is one.\<close>

definition claim_stale :: "(string \<times> (string \<times> entry) list) option \<Rightarrow> (string \<times> entry) list" where
  "claim_stale claimed = (case claimed of None \<Rightarrow> [] | Some (cursor, entries) \<Rightarrow> entries)"

section \<open>The usage sink\<close>

record usage_record =
  ur_client_id :: string
  ur_event_type :: string
  ur_quantity :: int
  ur_metadata :: entry
  ur_created_at :: instant

type_synonym usage_table = "(string, usage_record) dict"

definition insert_usage :: "string \<Rightarrow> usage_record \<Rightarrow> usage_table \<Rightarrow> usage_table result" where
  "insert_usage key row tbl =
     (if ur_quantity row < 0 then Inl (PostgresError ''check_violation'')
      else if dict_get tbl key \<noteq> None then Inr tbl
      else Inr (dict_set key row tbl))"

definition required :: "entry \<Rightarrow> string \<Rightarrow> payload result" where
  "required flds k = (case dict_get flds k of None \<Rightarrow> Inl (KeyError k) | Some p \<Rightarrow> Inr p)"

definition created_at_of :: "entry \<Rightarrow> instant \<Rightarrow> instant result" where
  "created_at_of flds now =
     (case dict_get flds ''created_at'' of
        None \<Rightarrow> Inr now
      | Some (Text []) \<Rightarrow> Inr now
      | Some (Iso d) \<Rightarrow> Inr (dt_us d)
      | Some _ \<Rightarrow> Inl (ValueError ''Invalid isoformat string''))"

definition metadata_of :: "entry \<Rightarrow> entry result" where
  "metadata_of flds =
     (case dict_get flds ''metadata'' of
        None \<Rightarrow> Inr []
      | Some (FieldsJson m) \<Rightarrow> Inr m
      | Some _ \<Rightarrow> Inl (ValueError ''Invalid JSON''))"

definition usage_args :: "entry \<Rightarrow> entry \<Rightarrow> instant \<Rightarrow> (string \<times> usage_record) result" where
  "usage_args flds metadata created_at =
     bindE (required flds ''idempotency_key'') (\<lambda>key.
     bindE (required flds ''client_id'') (\<lambda>client_id.
     bindE (required flds ''event_type'') (\<lambda>event_type.
     bindE (case dict_get flds ''quantity'' of None \<Rightarrow> Inr 1 | Some q \<Rightarrow> int_of_payload q) (\<lambda>quantity.
       Inr (payload_text key, \<lparr>ur_client_id = payload_text client_id, ur_event_type = payload_text event_type,
         ur_quantity = quantity, ur_metadata = metadata, ur_created_at = created_at\<rparr>)))))"

definition dead_letter_or_raise ::
  "'r redis_ops \<Rightarrow> store_config \<Rightarrow> faults \<Rightarrow> datetime \<Rightarrow> string \<Rightarrow> string \<Rightarrow> string \<Rightarrow> string \<Rightarrow> entry \<Rightarrow> error \<Rightarrow> ('r \<times> 'x, unit) call" where
  "dead_letter_or_raise R cfg fault t source grp key stream_id flds err =
     bindS (callS (fault Retry) (\<lambda>(r, x). let (n, r') = increment_retry R r key in (n, (r', x)))) (\<lambda>retry_count.
       if retry_limit cfg \<le> retry_count then
         bindS (callS (fault DeadLetter) (\<lambda>(r, x). (Inr (),
           (move_to_dead_letter R cfg r source stream_id flds (error_text err) retry_count t, x))))
           (\<lambda>_. callS (fault Ack) (\<lambda>(r, x). (Inr (), (ack R r source grp [stream_id], x))))
       else raiseS err)"

definition usage_persist ::
  "'r redis_ops \<Rightarrow> store_config \<Rightarrow> string \<Rightarrow> faults \<Rightarrow> bool \<Rightarrow> datetime \<Rightarrow> string \<Rightarrow> entry \<Rightarrow> ('r \<times> usage_table, unit) call" where
  "usage_persist R cfg usage_group fault started t stream_id flds =
     (if \<not> started then raiseS (RuntimeError ''usage sink is not started'')
      else catchS
        (bindS (liftS (created_at_of flds (dt_us t))) (\<lambda>created_at.
         bindS (liftS (metadata_of flds)) (\<lambda>metadata.
         bindS (callS (fault Persist) (\<lambda>(r, tbl).
            case bindE (usage_args flds metadata created_at) (\<lambda>(key, row). insert_usage key row tbl) of
              Inl e \<Rightarrow> (Inl e, (r, tbl)) | Inr tbl' \<Rightarrow> (Inr (), (r, tbl')))) (\<lambda>_.
         callS (fault Ack) (\<lambda>(r, tbl). (Inr (), (ack R r (usage_stream cfg) usage_group [stream_id], tbl)))))))
        (dead_letter_or_raise R cfg fault t (usage_stream cfg) usage_group
           (''usage:'' @ usage_stream cfg @ '':'' @ stream_id) stream_id flds))"

text \<open>One iteration of the loop of \<open>run\<close> on the messages that \<open>read_group\<close> returned.  An exception leaves the
  loop over the batch and is logged.\<close>

definition usage_iteration ::
  "'r redis_ops \<Rightarrow> store_config \<Rightarrow> string \<Rightarrow> faults \<Rightarrow> bool \<Rightarrow> datetime \<Rightarrow> (string \<times> entry) list \<Rightarrow> ('r \<times> usage_table, unit) call" where
  "usage_iteration R cfg grp fault started t messages =
     catchS (forS (\<lambda>(i, flds). usage_persist R cfg grp fault started t i flds) messages) (\<lambda>_. returnS ())"

section \<open>The archive sinks\<close>

definition persist_call :: "faults \<Rightarrow> quote_event \<Rightarrow> ('r \<times> archive, unit) call" where
  "persist_call fault e =
     callS (fault Persist) (\<lambda>(r, a). case persist_event a e of Inl err \<Rightarrow> (Inl err, (r, a)) | Inr (_, a') \<Rightarrow> (Inr (), (r, a')))"

definition archive_retry_key :: "store_config \<Rightarrow> string \<Rightarrow> string" where
  "archive_retry_key cfg stream_id = ''archive:'' @ quote_stream cfg @ '':'' @ stream_id"

definition archive_sink_persist ::
  "'r redis_ops \<Rightarrow> store_config \<Rightarrow> string \<Rightarrow> faults \<Rightarrow> datetime \<Rightarrow> string \<Rightarrow> entry \<Rightarrow> ('r \<times> archive, unit) call" where
  "archive_sink_persist R cfg grp fault t stream_id flds =
     catchS
       (bindS (liftS (entry_quote flds)) (\<lambda>e.
        bindS (persist_call fault e) (\<lambda>_.
        callS (fault Ack) (\<lambda>(r, a). (Inr (), (ack R r (quote_stream cfg) grp [stream_id], a))))))
       (dead_letter_or_raise R cfg fault t (quote_stream cfg) grp (archive_retry_key cfg stream_id) stream_id flds)"

text \<open>\<open>RecoveringCandleArchiveSink._persist\<close>: only an invalid message is retried and dead-lettered.\<close>

abbreviation handle_invalid_message ::
  "'r redis_ops \<Rightarrow> store_config \<Rightarrow> string \<Rightarrow> faults \<Rightarrow> datetime \<Rightarrow> string \<Rightarrow> entry \<Rightarrow> error \<Rightarrow> ('r \<times> archive, unit) call" where
  "handle_invalid_message R cfg grp fault t stream_id flds \<equiv>
     dead_letter_or_raise R cfg fault t (quote_stream cfg) grp (archive_retry_key cfg stream_id) stream_id flds"

definition worker_persist ::
  "'r redis_ops \<Rightarrow> store_config \<Rightarrow> string \<Rightarrow> faults \<Rightarrow> datetime \<Rightarrow> string \<Rightarrow> entry \<Rightarrow> ('r \<times> archive, unit) call" where
  "worker_persist R cfg grp fault t stream_id flds =
     (case entry_quote flds of
        Inl err \<Rightarrow> handle_invalid_message R cfg grp fault t stream_id flds err
      | Inr e \<Rightarrow>
          bindS (persist_call fault e) (\<lambda>_.
          callS (fault Ack) (\<lambda>(r, a). (Inr (), (ack R r (quote_stream cfg) grp [stream_id], a)))))"

text \<open>\<open>_claim_stale\<close> of the worker, which remembers the cursor of the scan.\<close>

definition worker_claim :: "(string \<times> (string \<times> entry) list) option \<Rightarrow> (string \<times> entry) list \<times> string" where
  "worker_claim claimed =
     (case claimed of None \<Rightarrow> ([], ''0-0'') | Some (cursor, entries) \<Rightarrow> (entries, cursor))"

text \<open>One iteration of \<open>run\<close> of the two sinks; the worker reclaims stale entries before it reads new ones.\<close>

definition archive_iteration ::
  "'r redis_ops \<Rightarrow> store_config \<Rightarrow> string \<Rightarrow> faults \<Rightarrow> datetime \<Rightarrow> (string \<times> entry) list \<Rightarrow> ('r \<times> archive, unit) call" where
  "archive_iteration R cfg grp fault t messages =
     catchS (forS (\<lambda>(i, flds). archive_sink_persist R cfg grp fault t i flds) messages) (\<lambda>_. returnS ())"

definition worker_iteration ::
  "'r redis_ops \<Rightarrow> store_config \<Rightarrow> string \<Rightarrow> faults \<Rightarrow> datetime \<Rightarrow> (string \<times> (string \<times> entry) list) option \<Rightarrow>
   (nat \<Rightarrow> (string \<times> entry) list) \<Rightarrow> ('r \<times> archive, unit) call" where
  "worker_iteration R cfg grp fault t claimed read_group =
     (let messages = fst (worker_claim claimed);
          messages = (if length messages < 200 then messages @ read_group (200 - length messages) else messages)
      in catchS (forS (\<lambda>(i, flds). worker_persist R cfg grp fault t i flds) messages) (\<lambda>_. returnS ()))"

text \<open>One iteration of \<open>QuoteProcessor.run\<close>: stale entries are claimed only when there is nothing new.\<close>

definition processor_iteration ::
  "'r redis_ops \<Rightarrow> store_config \<Rightarrow> faults \<Rightarrow> (nat \<Rightarrow> 'r \<Rightarrow> 'r) \<Rightarrow> (nat \<Rightarrow> bool) \<Rightarrow> datetime \<Rightarrow>
   (string \<times> entry) list \<Rightarrow> (string \<times> (string \<times> entry) list) option \<Rightarrow> ('r, unit) call" where
  "processor_iteration R cfg fault others touched t new claimed =
     catchS (forS (\<lambda>(i, flds). process_one R cfg fault others touched t i flds)
       (if new = [] then claim_stale claimed else new)) (\<lambda>_. returnS ())"

section \<open>Effects of the processor\<close>

definition quiet_faults :: faults where
  "quiet_faults c = None"

lemma quiet_faults [simp]: "quiet_faults c = None"
  by (simp add: quiet_faults_def)

lemma pipeline_keys [simp]:
  "dedupe_key i \<noteq> candle_key sy ep" "sequence_key p q \<noteq> candle_key sy ep" "stream_health_key p q \<noteq> candle_key sy ep"
  "sequence_key p q \<noteq> dedupe_key i" "dedupe_key i \<noteq> sequence_key p q" "stream_health_key p q \<noteq> dedupe_key i"
  "dedupe_key i \<noteq> stream_health_key p q" "dedupe_key i \<noteq> latest_key a" "latest_key a \<noteq> dedupe_key i"
  "retry_key a \<noteq> candle_key sy ep" "retry_key a \<noteq> dedupe_key i" "dedupe_key i \<noteq> retry_key a"
  "candle_key sy ep \<noteq> dedupe_key i" "sequence_key p q \<noteq> latest_key a" "stream_health_key p q \<noteq> latest_key a"
  "retry_key a \<noteq> latest_key b" "retry_key a \<noteq> sequence_key p q" "retry_key a \<noteq> stream_health_key p q"
  by (simp_all add: dedupe_key_def candle_key_def sequence_key_def stream_health_key_def latest_key_def retry_key_def)

text \<open>Two states between which only bookkeeping keys have changed: no candle, latest quote, stream or message.\<close>

definition bookkept :: "redis_db \<Rightarrow> redis_db \<Rightarrow> bool" where
  "bookkept d d' \<longleftrightarrow> zset d' = zset d \<and> published d' = published d \<and> stream d' = stream d \<and> pel d' = pel d \<and>
     (\<forall>sy ep. kv d' (candle_key sy ep) = kv d (candle_key sy ep)) \<and> (\<forall>sy. kv d' (latest_key sy) = kv d (latest_key sy))"

lemma bookkept_kv:
  assumes "bookkept d d1" "\<And>sy ep. k \<noteq> candle_key sy ep" "\<And>sy. k \<noteq> latest_key sy"
  shows "bookkept d (d1\<lparr>kv := (kv d1)(k := v)\<rparr>)"
  using assms(1) assms(2,3) [THEN not_sym] by (simp add: bookkept_def)

lemma bookkept_refl [simp]: "bookkept d d"
  by (simp add: bookkept_def)

lemma bookkept_updated: "bookkept d d' \<Longrightarrow> updated_candle d' e = updated_candle d e"
  by (simp add: bookkept_def updated_candle_def hot_candle_def)

definition acked :: "redis_db \<Rightarrow> string \<Rightarrow> string \<Rightarrow> string \<Rightarrow> redis_db" where
  "acked d stream_name grp i =
     d\<lparr>pel := (pel d)(stream_name := (pel d stream_name)(grp := pel d stream_name grp - {i}))\<rparr>"

lemma acked_again [simp]: "acked (acked d s g i) s g i = acked d s g i"
  by (simp add: acked_def)

lemma acked_simps [simp]:
  "kv (acked d s g i) = kv d" "zset (acked d s g i) = zset d" "stream (acked d s g i) = stream d"
  "published (acked d s g i) = published d" "pel (acked d s g i) s g = pel d s g - {i}"
  by (simp_all add: acked_def)

lemma persist_event_store:
  "archive_inv a \<Longrightarrow> archivable e \<Longrightarrow> persist_event a e = Inr (unarchived a e, archive_store a e)"
  by (simp add: archive_store_def persist_event_cases)

lemma archive_store_again:
  assumes "archive_inv a" "archivable e"
  shows "archive_store (archive_store a e) e = archive_store a e"
proof -
  have "archive_inv (archive_store a e)" "\<not> unarchived (archive_store a e) e"
    using pg.inv_store [OF assms] pg.ids_store [OF assms] pg.fresh_ids by auto
  with assms(2) show ?thesis by (simp add: archive_store_def [of "archive_store a e"] persist_event_cases)
qed

lemma bookkept_inv: "bookkept d d' \<Longrightarrow> hot_inv cfg now d \<Longrightarrow> hot_inv cfg now d'"
  by (simp add: bookkept_def hot_inv_def hot_candle_def zset_ok_def)

text \<open>Repeated redeliveries of one entry to the processor, and the dead letter of an entry.\<close>

primrec redeliveries ::
  "'r redis_ops \<Rightarrow> store_config \<Rightarrow> (nat \<Rightarrow> 'r \<Rightarrow> 'r) \<Rightarrow> (nat \<Rightarrow> bool) \<Rightarrow> datetime \<Rightarrow> string \<Rightarrow> entry \<Rightarrow> nat \<Rightarrow> 'r \<Rightarrow> 'r" where
  "redeliveries R cfg others touched t i flds 0 r = r"
| "redeliveries R cfg others touched t i flds (Suc k) r =
     snd (process_one R cfg quiet_faults others touched t i flds (redeliveries R cfg others touched t i flds k r))"

definition dead_letter_entry :: "store_config \<Rightarrow> string \<Rightarrow> entry \<Rightarrow> error \<Rightarrow> int \<Rightarrow> datetime \<Rightarrow> entry" where
  "dead_letter_entry cfg i flds err n t =
     [(''source_stream'', Text (quote_stream cfg)), (''source_id'', Text i), (''payload'', FieldsJson flds),
      (''error'', Text (error_text err)), (''retry_count'', Number n), (''failed_at'', Iso t)]"

context redis
begin

lemma ack_effect [simp]:
  "db (ack R r stream_name grp [i]) = acked (db r) stream_name grp i"
  by (simp add: ack_def acked_def)


lemma observe_effect:
  assumes "kv (db r) (sequence_key (q_provider e) (q_symbol e)) = map_option Number previous"
  shows "\<exists>g v. observe_sequence R r e = (Inr g, snd (observe_sequence R r e)) \<and>
    (db (snd (observe_sequence R r e)) = db r \<or>
     db (snd (observe_sequence R r e)) = (db r)\<lparr>kv := (kv (db r))(sequence_key (q_provider e) (q_symbol e) := v)\<rparr>)"
  using assms by (cases "q_sequence e"; cases previous) (auto simp: observe_sequence_def Let_def)

lemma accept_new:
  assumes "kv (db r) (dedupe_key (q_event_id e)) = None"
  obtains r1 where "accept_event_once R r e = (True, r1)"
    "db r1 = (db r)\<lparr>kv := (kv (db r))(dedupe_key (q_event_id e) := Some (Text ''1''))\<rparr>"
proof -
  have "fst (accept_event_once R r e)"
    "db (snd (accept_event_once R r e)) = (db r)\<lparr>kv := (kv (db r))(dedupe_key (q_event_id e) := Some (Text ''1''))\<rparr>"
    using assms by (simp_all add: accept_event_once_def db_setnx_def case_prod_beta Let_def)
  then show ?thesis by (cases "accept_event_once R r e") (auto intro: that)
qed

lemma accept_seen:
  assumes "kv (db r) (dedupe_key (q_event_id e)) \<noteq> None"
  obtains r1 where "accept_event_once R r e = (False, r1)" "db r1 = db r"
proof -
  have "db_setnx (db r) (dedupe_key (q_event_id e)) (Text ''1'') = (False, db r)"
    using assms by (simp add: db_setnx_def)
  then have "\<not> fst (accept_event_once R r e)" "db (snd (accept_event_once R r e)) = db r"
    by (simp_all add: accept_event_once_def)
  then show ?thesis by (cases "accept_event_once R r e") (auto intro: that)
qed

lemma increment_retry_effect:
  assumes "kv (db r) (retry_key i) = (if n = 0 then None else Some (Number (int n)))"
  obtains r1 where "increment_retry R r i = (Inr (int (Suc n)), r1)"
    "db r1 = (db r)\<lparr>kv := (kv (db r))(retry_key i := Some (Number (int (Suc n))))\<rparr>"
proof -
  have i: "db_incr (db r) (retry_key i) =
      (Inr (int (Suc n)), (db r)\<lparr>kv := (kv (db r))(retry_key i := Some (Number (int (Suc n))))\<rparr>)"
    using assms by (cases n) (simp_all add: db_incr_def add.commute)
  have "fst (increment_retry R r i) = Inr (int (Suc n))"
    "db (snd (increment_retry R r i)) = (db r)\<lparr>kv := (kv (db r))(retry_key i := Some (Number (int (Suc n))))\<rparr>"
    using i by (simp_all add: increment_retry_def case_prod_beta Let_def)
  then show ?thesis by (cases "increment_retry R r i") (auto intro: that)
qed

lemma bookkeeping:
  assumes fresh: "kv (db r) (dedupe_key (q_event_id e)) = None"
    and seq: "kv (db r) (sequence_key (q_provider e) (q_symbol e)) = map_option Number previous"
    and h: "fault Health = None"
  obtains g r1 r2 r3 where "accept_event_once R r e = (True, r1)" "observe_sequence R r1 e = (Inr g, r2)"
    "record_health R fault t e g r2 = (Inr (), r3)" "bookkept (db r) (db r3)"
    "kv (db r3) (dedupe_key (q_event_id e)) = Some (Text ''1'')"
    "\<forall>i. kv (db r3) (retry_key i) = kv (db r) (retry_key i)"
proof -
  let ?k = "dedupe_key (q_event_id e)"
  let ?P = "\<lambda>x. bookkept (db r) (db x) \<and> kv (db x) ?k = Some (Text ''1'') \<and>
    (\<forall>i. kv (db x) (retry_key i) = kv (db r) (retry_key i))"
  obtain r1 where r1: "accept_event_once R r e = (True, r1)"
    and d1: "db r1 = (db r)\<lparr>kv := (kv (db r))(?k := Some (Text ''1''))\<rparr>"
    by (rule accept_new [OF fresh])
  have p1: "?P r1" by (simp add: d1 bookkept_kv)
  have "kv (db r1) (sequence_key (q_provider e) (q_symbol e)) = map_option Number previous"
    using seq by (simp add: d1)
  from observe_effect [OF this] obtain g v where
    o: "observe_sequence R r1 e = (Inr g, snd (observe_sequence R r1 e))"
    "db (snd (observe_sequence R r1 e)) = db r1 \<or>
     db (snd (observe_sequence R r1 e)) = (db r1)\<lparr>kv := (kv (db r1))(sequence_key (q_provider e) (q_symbol e) := v)\<rparr>"
    by blast
  define r2 where "r2 = snd (observe_sequence R r1 e)"
  have p2: "?P r2" using o(2) p1 by (auto simp: r2_def bookkept_kv)
  obtain r3 where r3: "record_health R fault t e g r2 = (Inr (), r3)"
    by (cases "record_health R fault t e g r2")
      (auto simp: record_health_def returnS_def h split: option.splits)
  have "db r3 = db r2 \<or> (\<exists>w. db r3 = (db r2)\<lparr>kv := (kv (db r2))(stream_health_key (q_provider e) (q_symbol e) := w)\<rparr>)"
    using r3 by (cases g) (auto simp: record_health_def returnS_def h)
  with p2 have "?P r3" by (auto simp: bookkept_kv)
  with that [OF r1 _ r3] o(1) show ?thesis by (simp add: r2_def)
qed

lemma cache_quiet:
  assumes "hot_inv cfg now (db r)" "hot_valid cfg now e"
  shows "cache_quote R cfg now (\<lambda>_ r. r) (\<lambda>_. False) e r = (Inr (), commit_quote R cfg now e (updated_candle (db r) e) r)"
proof -
  obtain n where n: "candle_update_retry_limit cfg = Suc n"
    using assms(2) by (cases "candle_update_retry_limit cfg") (auto simp: hot_valid_def)
  have "next_candle (get_cmd R r (quote_candle_key e)) e = Inr (updated_candle (db r) e)"
    using updated_candle_ok(5) [OF assms] by simp
  then show ?thesis using assms(2) cache_attempts_quiet [of "\<lambda>_ d. d" r "\<lambda>_. False" R cfg now e n]
    by (simp add: cache_quote_def floor_time_def hot_valid_def minute_of_def event_ts_def n algebra_simps
        del: cache_attempts.simps)
qed

lemma commit_quote_rest:
  "published (db (commit_quote R cfg now e c r)) = published (db r)"
  "stream (db (commit_quote R cfg now e c r)) = stream (db r)" "pel (db (commit_quote R cfg now e c r)) = pel (db r)"
  by (simp_all add: commit_quote_def Let_def db_zremrangebyscore_def db_zadd_def)

lemma accept_call: "accept_event_once R r e = (ok, r') \<Longrightarrow>
  (\<lambda>r. let (ok, r') = accept_event_once R r e in (Inr ok, r')) r = (Inr ok, r')"
  by simp

lemma process_new:
  assumes inv: "hot_inv cfg (dt_us t) (db r)" and v: "hot_valid cfg (dt_us t) e"
    and e: "entry_quote flds = Inr e" and fresh: "kv (db r) (dedupe_key (q_event_id e)) = None"
    and seq: "kv (db r) (sequence_key (q_provider e) (q_symbol e)) = map_option Number previous"
  shows "\<exists>r'. process_one R cfg quiet_faults (\<lambda>_ r. r) (\<lambda>_. False) t i flds r = (Inr (), r') \<and>
    kv (db r') (quote_candle_key e) = Some (CandleJson (updated_candle (db r) e)) \<and>
    kv (db r') (latest_key (q_symbol e)) = Some (QuoteJson (quote_dump e)) \<and>
    kv (db r') (dedupe_key (q_event_id e)) \<noteq> None \<and>
    published (db r') = published (db r) @ [(quote_pubsub_channel cfg, QuoteJson (quote_dump e))] \<and>
    stream (db r') = stream (db r) \<and> i \<notin> pel (db r') (quote_stream cfg) (stream_group cfg)"
proof -
  obtain g r1 r2 r3 where s: "accept_event_once R r e = (True, r1)" "observe_sequence R r1 e = (Inr g, r2)"
    "record_health R quiet_faults t e g r2 = (Inr (), r3)" "bookkept (db r) (db r3)"
    "kv (db r3) (dedupe_key (q_event_id e)) = Some (Text ''1'')"
    by (rule bookkeeping [OF fresh seq quiet_faults])
  define r4 where "r4 = commit_quote R cfg (dt_us t) e (updated_candle (db r3) e) r3"
  have c: "cache_quote R cfg (dt_us t) (\<lambda>_ r. r) (\<lambda>_. False) e r3 = (Inr (), r4)"
    unfolding r4_def by (rule cache_quiet [OF bookkept_inv [OF s(4) inv] v])
  define r5 where "r5 = ack R (publish_fanout R cfg r4 e) (quote_stream cfg) (stream_group cfg) [i]"
  have "process_body R cfg quiet_faults (\<lambda>_ r. r) (\<lambda>_. False) t i flds r = (Inr (), r5)"
    by (simp add: process_body_def liftS_def e s(1-3) c ack_call_def r5_def)
  then have p: "process_one R cfg quiet_faults (\<lambda>_ r. r) (\<lambda>_. False) t i flds r = (Inr (), r5)"
    by (simp add: process_one_def)
  have "quote_candle_key e \<noteq> dedupe_key (q_event_id e)" "quote_candle_key e \<noteq> latest_key (q_symbol e)"
    by (simp_all add: quote_candle_key_def)
  then show ?thesis using p s(4,5)
    by (auto simp: r5_def r4_def publish_fanout_def commit_quote_kv commit_quote_rest bookkept_updated bookkept_def)
qed

text \<open>A failure between the deduplication and the acknowledgement, and the redelivery after it.\<close>

lemma process_fails:
  assumes e: "entry_quote flds = Inr e" and fresh: "kv (db r) (dedupe_key (q_event_id e)) = None"
    and seq: "kv (db r) (sequence_key (q_provider e) (q_symbol e)) = map_option Number previous"
    and n: "kv (db r) (retry_key i) = None" "1 < retry_limit cfg"
  shows "\<exists>r'. process_one R cfg (quiet_faults(Cache := Some err)) others touched t i flds r = (Inr (), r') \<and>
    bookkept (db r) (db r') \<and> kv (db r') (dedupe_key (q_event_id e)) \<noteq> None"
proof -
  let ?f = "quiet_faults(Cache := Some err)"
  have f: "?f Health = None" by simp
  obtain g r1 r2 r3 where s: "accept_event_once R r e = (True, r1)" "observe_sequence R r1 e = (Inr g, r2)"
    "record_health R ?f t e g r2 = (Inr (), r3)" "bookkept (db r) (db r3)"
    "kv (db r3) (dedupe_key (q_event_id e)) = Some (Text ''1'')" "\<forall>i. kv (db r3) (retry_key i) = kv (db r) (retry_key i)"
    by (rule bookkeeping [where fault = ?f and t = t, OF fresh seq f])
  have b: "process_body R cfg ?f others touched t i flds r = (Inl err, r3)"
    by (simp add: process_body_def liftS_def e s(1-3))
  have "kv (db r3) (retry_key i) = (if (0::nat) = 0 then None else Some (Number (int 0)))" using s(6) n by simp
  then obtain r4 where r4: "increment_retry R r3 i = (Inr (int (Suc 0)), r4)"
    "db r4 = (db r3)\<lparr>kv := (kv (db r3))(retry_key i := Some (Number (int (Suc 0))))\<rparr>"
    by (rule increment_retry_effect)
  have "process_one R cfg ?f others touched t i flds r = (Inr (), r4)"
    using n by (simp add: process_one_def b handle_failure_def r4 returnS_def)
  with s(4,5) show ?thesis by (auto simp: r4(2) bookkept_kv)
qed

lemma process_duplicate:
  assumes e: "entry_quote flds = Inr e" and seen: "kv (db r) (dedupe_key (q_event_id e)) \<noteq> None"
  shows "\<exists>r'. process_one R cfg quiet_faults others touched t i flds r = (Inr (), r') \<and>
    db r' = acked (db r) (quote_stream cfg) (stream_group cfg) i"
proof -
  obtain r1 where a: "accept_event_once R r e = (False, r1)" and d: "db r1 = db r"
    by (rule accept_seen [OF seen])
  have "process_body R cfg quiet_faults others touched t i flds r =
      (Inr (), ack R r1 (quote_stream cfg) (stream_group cfg) [i])"
    by (simp add: process_body_def liftS_def e a ack_call_def bindS_def)
  then show ?thesis by (simp add: process_one_def d)
qed

text \<open>An entry that never validates.\<close>

lemma process_invalid:
  assumes e: "entry_quote flds = Inl err" and n: "kv (db r) (retry_key i) = (if n = 0 then None else Some (Number (int n)))"
  shows "\<exists>r'. process_one R cfg quiet_faults others touched t i flds r = (Inr (), r') \<and>
    kv (db r') (retry_key i) = Some (Number (int (Suc n))) \<and> published (db r') = published (db r) \<and>
    (if retry_limit cfg \<le> int (Suc n)
     then i \<notin> pel (db r') (quote_stream cfg) (stream_group cfg) \<and>
       (\<exists>j. stream (db r') = (stream (db r))(dead_letter_stream cfg := stream (db r) (dead_letter_stream cfg) @
          [(j, dead_letter_entry cfg i flds err (int (Suc n)) t)]))
     else pel (db r') = pel (db r) \<and> stream (db r') = stream (db r))"
proof -
  obtain r1 where r1: "increment_retry R r i = (Inr (int (Suc n)), r1)"
    and d1: "db r1 = (db r)\<lparr>kv := (kv (db r))(retry_key i := Some (Number (int (Suc n))))\<rparr>"
    by (rule increment_retry_effect [OF n])
  have b: "process_body R cfg quiet_faults others touched t i flds r = (Inl err, r)"
    by (simp add: process_body_def liftS_def e)
  show ?thesis
  proof (cases "retry_limit cfg \<le> int (Suc n)")
    case True
    then show ?thesis using d1
      by (auto simp: process_one_def b handle_failure_def r1 ack_call_def move_to_dead_letter_def dead_letter_entry_def)
  next
    case False
    then show ?thesis using d1
      by (simp add: process_one_def b handle_failure_def r1 returnS_def)
  qed
qed

text \<open>Persistence by the archive worker: the effect of any attempt is a prefix of \<open>persist, acknowledge\<close>.\<close>

lemma worker_attempt:
  assumes e: "entry_quote flds = Inr e" and a: "archive_inv a" "archivable e"
    and s: "archive_inv b" "b = a \<or> b = archive_store a e" "db r = d \<or> db r = acked d (quote_stream cfg) grp i"
  shows "\<exists>r' b'. snd (worker_persist R cfg grp fault t i flds (r, b)) = (r', b') \<and> archive_inv b' \<and>
    (b' = a \<or> b' = archive_store a e) \<and> (db r' = d \<or> db r' = acked d (quote_stream cfg) grp i)"
proof -
  have i: "archive_inv (archive_store a e)" using a by (rule pg.inv_store)
  have st: "archive_store b e = archive_store a e" using s(2) archive_store_again [OF a] by auto
  show ?thesis
    using s i persist_event_store [OF s(1) a(2)] acked_again [of d "quote_stream cfg" grp i] st
    by (cases "fault Persist"; cases "fault Ack")
      (auto simp: worker_persist_def e persist_call_def callS_def)
qed

lemma worker_attempts:
  assumes "entry_quote flds = Inr e" "archive_inv a" "archivable e"
  shows "\<exists>r' b'. foldl (\<lambda>s f. snd (worker_persist R cfg grp f t i flds s)) (r, a) fs = (r', b') \<and> archive_inv b' \<and>
    (b' = a \<or> b' = archive_store a e) \<and> (db r' = db r \<or> db r' = acked (db r) (quote_stream cfg) grp i)"
proof (induction fs rule: rev_induct)
  case (snoc f fs)
  then obtain r' b' where s: "foldl (\<lambda>s f. snd (worker_persist R cfg grp f t i flds s)) (r, a) fs = (r', b')"
    "archive_inv b'" "b' = a \<or> b' = archive_store a e" "db r' = db r \<or> db r' = acked (db r) (quote_stream cfg) grp i"
    by blast
  show ?case using worker_attempt [OF assms s(2-4), of f t] by (simp add: s(1))
qed (use assms in simp)

lemma worker_quiet:
  assumes "entry_quote flds = Inr e" "archive_inv b" "archivable e"
  shows "\<exists>r'. worker_persist R cfg grp quiet_faults t i flds (r, b) = (Inr (), (r', archive_store b e)) \<and>
    db r' = acked (db r) (quote_stream cfg) grp i"
  using assms by (simp add: worker_persist_def persist_call_def persist_event_store)

text \<open>An entry that never validates: redeliveries up to the retry limit.\<close>

lemma process_invalid_repeated:
  assumes e: "entry_quote flds = Inl err" and n: "kv (db r) (retry_key i) = None"
    and k: "int k < retry_limit cfg"
  shows "kv (db (redeliveries R cfg others touched t i flds k r)) (retry_key i) = (if k = 0 then None else Some (Number (int k))) \<and>
    pel (db (redeliveries R cfg others touched t i flds k r)) = pel (db r) \<and>
    stream (db (redeliveries R cfg others touched t i flds k r)) = stream (db r)"
  using k
proof (induction k)
  case (Suc k)
  then have "kv (db (redeliveries R cfg others touched t i flds k r)) (retry_key i) = (if k = 0 then None else Some (Number (int k)))"
    by simp
  from process_invalid [OF e this, of cfg others touched t] Suc show ?case by auto
qed (simp add: n)

lemma process_poison:
  assumes e: "entry_quote flds = Inl err" and n: "kv (db r) (retry_key i) = None"
    and l: "retry_limit cfg = int (Suc k)"
  shows "\<exists>j. stream (db (redeliveries R cfg others touched t i flds (Suc k) r)) =
      (stream (db r))(dead_letter_stream cfg := stream (db r) (dead_letter_stream cfg) @
        [(j, dead_letter_entry cfg i flds err (int (Suc k)) t)])"
    "i \<notin> pel (db (redeliveries R cfg others touched t i flds (Suc k) r)) (quote_stream cfg) (stream_group cfg)"
proof -
  let ?r = "redeliveries R cfg others touched t i flds k r"
  have "int k < retry_limit cfg" using l by simp
  note p = process_invalid_repeated [OF e n this, of others touched t]
  then have "kv (db ?r) (retry_key i) = (if k = 0 then None else Some (Number (int k)))" by blast
  from process_invalid [OF e this, of cfg others touched t] p l
  show "\<exists>j. stream (db (redeliveries R cfg others touched t i flds (Suc k) r)) =
      (stream (db r))(dead_letter_stream cfg := stream (db r) (dead_letter_stream cfg) @
        [(j, dead_letter_entry cfg i flds err (int (Suc k)) t)])"
    "i \<notin> pel (db (redeliveries R cfg others touched t i flds (Suc k) r)) (quote_stream cfg) (stream_group cfg)"
    by auto
qed

text \<open>A failure of the usage sink below the retry limit.\<close>

lemma usage_fails:
  assumes "created_at_of flds (dt_us t) = Inr created_at" "metadata_of flds = Inr metadata"
    "usage_args flds metadata created_at = Inl err" "1 < retry_limit cfg"
    and n: "kv (db r) (retry_key (''usage:'' @ usage_stream cfg @ '':'' @ i)) = None"
  shows "\<exists>r'. usage_persist R cfg grp quiet_faults True t i flds (r, tbl) = (Inl err, (r', tbl)) \<and>
    pel (db r') = pel (db r) \<and> stream (db r') = stream (db r)"
proof -
  let ?k = "''usage:'' @ usage_stream cfg @ '':'' @ i"
  have "kv (db r) (retry_key ?k) = (if (0::nat) = 0 then None else Some (Number (int 0)))" using n by simp
  then obtain r1 where r1: "increment_retry R r ?k = (Inr (int (Suc 0)), r1)"
    "db r1 = (db r)\<lparr>kv := (kv (db r))(retry_key ?k := Some (Number (int (Suc 0))))\<rparr>"
    by (rule increment_retry_effect)
  with assms(1-4) show ?thesis
    by (auto simp: usage_persist_def liftS_def dead_letter_or_raise_def raiseS_def)
qed

end

section \<open>Properties\<close>

text \<open>C8: a new valid quote of the stream, processed without a store failure, leaves behind the updated
  candle of its minute, itself as the latest quote of its symbol, its deduplication key and exactly one
  fan-out message, and is acknowledged; no stream gains or loses an entry.\<close>

theorem processed_quote:
  assumes "redis R db" "hot_inv cfg (dt_us t) (db r)" "hot_valid cfg (dt_us t) e" "entry_quote flds = Inr e"
    "kv (db r) (dedupe_key (q_event_id e)) = None"
    "kv (db r) (sequence_key (q_provider e) (q_symbol e)) = map_option Number previous"
  shows "\<exists>r'. process_one R cfg quiet_faults (\<lambda>_ r. r) (\<lambda>_. False) t i flds r = (Inr (), r') \<and>
    kv (db r') (quote_candle_key e) = Some (CandleJson (updated_candle (db r) e)) \<and>
    kv (db r') (latest_key (q_symbol e)) = Some (QuoteJson (quote_dump e)) \<and>
    kv (db r') (dedupe_key (q_event_id e)) \<noteq> None \<and>
    published (db r') = published (db r) @ [(quote_pubsub_channel cfg, QuoteJson (quote_dump e))] \<and>
    stream (db r') = stream (db r) \<and> i \<notin> pel (db r') (quote_stream cfg) (stream_group cfg)"
  by (rule redis.process_new [OF assms])

text \<open>The redelivery of an event that was accepted before is acknowledged and changes nothing else.\<close>

theorem duplicate_only_acked:
  assumes "redis R db" "entry_quote flds = Inr e" "kv (db r) (dedupe_key (q_event_id e)) \<noteq> None"
  shows "\<exists>r'. process_one R cfg quiet_faults others touched t i flds r = (Inr (), r') \<and>
    db r' = acked (db r) (quote_stream cfg) (stream_group cfg) i"
  by (rule redis.process_duplicate [OF assms])

text \<open>An entry that does not validate stays pending and leaves no trace in any stream while it has been
  delivered fewer times than the retry limit; the delivery that reaches the limit moves it, once and with its
  fields, to the dead-letter stream and acknowledges it.\<close>

theorem poison_dead_lettered:
  assumes "redis R db" "entry_quote flds = Inl err" "kv (db r) (retry_key i) = None" "retry_limit cfg = int (Suc n)"
  shows "(k \<le> n \<longrightarrow> pel (db (redeliveries R cfg others touched t i flds k r)) = pel (db r) \<and>
      stream (db (redeliveries R cfg others touched t i flds k r)) = stream (db r)) \<and>
    i \<notin> pel (db (redeliveries R cfg others touched t i flds (Suc n) r)) (quote_stream cfg) (stream_group cfg) \<and>
    (\<exists>j. stream (db (redeliveries R cfg others touched t i flds (Suc n) r)) =
      (stream (db r))(dead_letter_stream cfg := stream (db r) (dead_letter_stream cfg) @
        [(j, dead_letter_entry cfg i flds err (int (Suc n)) t)]))"
  using redis.process_invalid_repeated [OF assms(1-3), of k cfg others touched t]
    redis.process_poison [OF assms, of others touched t] assms(4)
  by auto

text \<open>C39: the deduplication key is set before the quote is cached and fanned out, so a failure of the cache
  loses the quote: the first delivery fails and leaves the entry pending, the redelivery takes the event
  for a duplicate and acknowledges it, and neither the candle, the latest quote, the fan-out channel nor
  the dead-letter stream has seen it.\<close>

theorem transient_failure_loses_quote:
  assumes "redis R db" "entry_quote flds = Inr e" "kv (db r) (dedupe_key (q_event_id e)) = None"
    "kv (db r) (sequence_key (q_provider e) (q_symbol e)) = map_option Number previous"
    "kv (db r) (retry_key i) = None" "1 < retry_limit cfg"
  shows "\<exists>r1 r2. process_one R cfg (quiet_faults(Cache := Some err)) others touched t i flds r = (Inr (), r1) \<and>
    pel (db r1) = pel (db r) \<and>
    process_one R cfg quiet_faults others touched t' i flds r1 = (Inr (), r2) \<and>
    i \<notin> pel (db r2) (quote_stream cfg) (stream_group cfg) \<and>
    kv (db r2) (quote_candle_key e) = kv (db r) (quote_candle_key e) \<and>
    kv (db r2) (latest_key (q_symbol e)) = kv (db r) (latest_key (q_symbol e)) \<and>
    published (db r2) = published (db r) \<and> stream (db r2) = stream (db r)"
proof -
  obtain r1 where 1: "process_one R cfg (quiet_faults(Cache := Some err)) others touched t i flds r = (Inr (), r1)"
    "bookkept (db r) (db r1)" "kv (db r1) (dedupe_key (q_event_id e)) \<noteq> None"
    using redis.process_fails [OF assms, of err others touched t] by blast
  obtain r2 where "process_one R cfg quiet_faults others touched t' i flds r1 = (Inr (), r2)"
    "db r2 = acked (db r1) (quote_stream cfg) (stream_group cfg) i"
    using redis.process_duplicate [OF assms(1,2) 1(3)] by blast
  with 1 show ?thesis by (auto simp: bookkept_def quote_candle_key_def)
qed

text \<open>C9: the archive worker loses nothing to an outage and stores nothing twice: whatever fails in any
  number of earlier attempts, the archive or the acknowledgement after it, a later successful attempt leaves
  the archive as one undisturbed \<open>persist_event\<close> would, the entry acknowledged, and no retry counter, dead
  letter or other key touched.\<close>

theorem worker_exactly_once:
  assumes "redis R db" "entry_quote flds = Inr e" "archive_inv a" "archivable e"
  shows "\<exists>new a' r'. persist_event a e = Inr (new, a') \<and>
    worker_persist R cfg grp quiet_faults t i flds
      (foldl (\<lambda>s fault. snd (worker_persist R cfg grp fault t i flds s)) (r, a) faults) = (Inr (), (r', a')) \<and>
    db r' = acked (db r) (quote_stream cfg) grp i"
proof -
  obtain r1 b where s: "foldl (\<lambda>s f. snd (worker_persist R cfg grp f t i flds s)) (r, a) faults = (r1, b)"
    "archive_inv b" "b = a \<or> b = archive_store a e" "db r1 = db r \<or> db r1 = acked (db r) (quote_stream cfg) grp i"
    using redis.worker_attempts [OF assms, of cfg grp t i r faults] by blast
  obtain r2 where "worker_persist R cfg grp quiet_faults t i flds (r1, b) = (Inr (), (r2, archive_store b e))"
    "db r2 = acked (db r1) (quote_stream cfg) grp i"
    using redis.worker_quiet [OF assms(1,2) s(2) assms(4)] by blast
  moreover have "archive_store b e = archive_store a e" using s(3) archive_store_again [OF assms(3,4)] by auto
  ultimately show ?thesis using s(1,4) persist_event_store [OF assms(3,4)] by auto
qed

text \<open>In the usage sink one malformed entry abandons the rest of its batch: the exception raised below
  the retry limit leaves the loop, so that no later entry of the batch is stored or acknowledged.  The sink
  only asks for new entries and never claims pending ones, so none of them is delivered again.\<close>

theorem usage_failure_abandons_batch:
  assumes "redis R db" "created_at_of flds (dt_us t) = Inr created_at" "metadata_of flds = Inr metadata"
    "usage_args flds metadata created_at = Inl err" "1 < retry_limit cfg"
    "kv (db r) (retry_key (''usage:'' @ usage_stream cfg @ '':'' @ i)) = None"
  shows "\<exists>r'. usage_iteration R cfg grp quiet_faults True t ((i, flds) # messages) (r, tbl) = (Inr (), (r', tbl)) \<and>
    pel (db r') = pel (db r) \<and> stream (db r') = stream (db r)"
proof -
  obtain r' where "usage_persist R cfg grp quiet_faults True t i flds (r, tbl) = (Inl err, (r', tbl))"
    "pel (db r') = pel (db r)" "stream (db r') = stream (db r)"
    using redis.usage_fails [OF assms] by blast
  then show ?thesis by (simp add: usage_iteration_def returnS_def)
qed

section \<open>Witnesses\<close>

definition sample_entry :: entry where
  "sample_entry = [(''payload'', QuoteJson sample_input)]"

lemma sample_entry_quote: "entry_quote sample_entry = Inr (quote_of_input sample_input)"
  by (simp add: entry_quote_def sample_entry_def sample_input_valid)

lemma sample_entry_hot: "hot_valid sample_store_config (dt_us (utc_datetime 200000000)) (quote_of_input sample_input)"
  by code_simp

lemma sample_retry_limit [simp]: "retry_limit sample_store_config = 3"
  by (simp add: sample_store_config_def)

lemma empty_db_fields [simp]:
  "kv empty_db k = None" "stream empty_db = (\<lambda>_. [])" "published empty_db = []"
  by (simp_all add: empty_db_def)

theorem processed_quote_witness:
  "\<exists>r'. process_one db_ops sample_store_config quiet_faults (\<lambda>_ r. r) (\<lambda>_. False) (utc_datetime 200000000) ''1-0''
       sample_entry empty_db = (Inr (), r') \<and>
     kv r' (latest_key (q_symbol (quote_of_input sample_input))) = Some (QuoteJson (quote_dump (quote_of_input sample_input)))"
  using processed_quote [OF mem_redis _ sample_entry_hot sample_entry_quote, of empty_db None "''1-0''"]
  by (auto simp: hot_inv_empty)

theorem duplicate_only_acked_witness:
  "\<exists>r'. process_one db_ops sample_store_config quiet_faults (\<lambda>_ r. r) (\<lambda>_. False) (utc_datetime 200000000) ''1-0''
       sample_entry (empty_db\<lparr>kv := (\<lambda>_. Some (Text ''1''))\<rparr>) = (Inr (), r') \<and> published r' = []"
  using duplicate_only_acked [OF mem_redis sample_entry_quote, of "empty_db\<lparr>kv := (\<lambda>_. Some (Text ''1''))\<rparr>"
      sample_store_config "\<lambda>_ r. r" "\<lambda>_. False" "utc_datetime 200000000" "''1-0''"]
  by auto

theorem poison_dead_lettered_witness:
  "\<exists>j. stream (redeliveries db_ops sample_store_config (\<lambda>_ r. r) (\<lambda>_. False) (utc_datetime 1) ''1-0'' [] 3 empty_db)
     (dead_letter_stream sample_store_config) =
     [(j, dead_letter_entry sample_store_config ''1-0'' [] (KeyError ''payload'') 3 (utc_datetime 1))]"
proof -
  have e: "entry_quote [] = Inl (KeyError ''payload'')" by (simp add: entry_quote_def)
  show ?thesis
    using poison_dead_lettered [OF mem_redis e, of empty_db "''1-0''" sample_store_config 2 0 "\<lambda>_ r. r" "\<lambda>_. False" "utc_datetime 1"]
    by (auto simp: numeral_3_eq_3 numeral_2_eq_2)
qed

theorem transient_failure_loses_quote_witness:
  "\<exists>r1 r2. process_one db_ops sample_store_config (quiet_faults(Cache := Some (ConnectionError ''down'')))
       (\<lambda>_ r. r) (\<lambda>_. False) (utc_datetime 200000000) ''1-0'' sample_entry empty_db = (Inr (), r1) \<and>
     process_one db_ops sample_store_config quiet_faults (\<lambda>_ r. r) (\<lambda>_. False) (utc_datetime 201000000) ''1-0''
       sample_entry r1 = (Inr (), r2) \<and> published r2 = [] \<and> stream r2 = (\<lambda>_. [])"
  using transient_failure_loses_quote [OF mem_redis sample_entry_quote, of empty_db None "''1-0''" sample_store_config
      "ConnectionError ''down''" "\<lambda>_ r. r" "\<lambda>_. False" "utc_datetime 200000000" "utc_datetime 201000000"]
  by auto

theorem worker_exactly_once_witness:
  "\<exists>new a' r'. persist_event empty_archive (quote_of_input sample_input) = Inr (new, a') \<and>
     worker_persist db_ops sample_store_config ''archive'' quiet_faults (utc_datetime 1) ''1-0'' sample_entry
       (foldl (\<lambda>s fault. snd (worker_persist db_ops sample_store_config ''archive'' fault (utc_datetime 1) ''1-0'' sample_entry s))
         (empty_db, empty_archive)
         [quiet_faults(Persist := Some (ConnectionError ''down'')), quiet_faults(Ack := Some (RedisError ''down''))]) =
       (Inr (), (r', a'))"
proof -
  have "archivable (quote_of_input sample_input)" by code_simp
  from worker_exactly_once [OF mem_redis sample_entry_quote empty_archive_inv(1) this]
  show ?thesis by blast
qed

theorem usage_failure_abandons_batch_witness:
  "\<exists>r'. usage_iteration db_ops sample_store_config ''usage'' quiet_faults True (utc_datetime 1)
     [(''1-0'', []), (''2-0'', [(''idempotency_key'', Text ''k''), (''client_id'', Text ''u''), (''event_type'', Text ''x'')])]
     (empty_db, []) = (Inr (), (r', []))"
proof -
  have "created_at_of [] (dt_us (utc_datetime 1)) = Inr (dt_us (utc_datetime 1))" "metadata_of [] = Inr []"
    "usage_args [] [] (dt_us (utc_datetime 1)) = Inl (KeyError ''idempotency_key'')"
    by (simp_all add: created_at_of_def metadata_of_def usage_args_def required_def)
  from usage_failure_abandons_batch [OF mem_redis this, of sample_store_config empty_db "''1-0''" "''usage''"
      "[(''2-0'', [(''idempotency_key'', Text ''k''), (''client_id'', Text ''u''), (''event_type'', Text ''x'')])]" "[]"]
  show ?thesis by auto
qed

end
