(* ===== verification/Usage.thy ===== *)
theory Usage
  imports Storage Bounded_Buffer
begin

text \<open>
  The usage recorder, \<open>usage.py\<close>: a bounded queue between the request paths, which only ever call
  \<open>record\<close>, and the task \<open>run\<close>, which writes to Redis.  A full queue drops the event and counts it.
  The queue is another \<open>bounded_buffer\<close>.

  The lemmas show that every event offered is queued, taken or counted as dropped, and that after
  \<open>close\<close> the task ends: it takes each queued event once, and each idempotency key among them gets
  exactly one entry of the usage stream.
\<close>

section \<open>The recorder\<close>

text \<open>\<open>asyncio.Queue\<close> with its bound (none when it is not positive) and its count of unfinished tasks.\<close>

record usage_recorder =
  uq_queue :: "usage_event list"
  uq_maxsize :: int
  uq_unfinished :: nat
  uq_closed :: bool
  uq_dropped :: nat

definition new_recorder :: "int \<Rightarrow> usage_recorder" where
  "new_recorder max_queue_size =
     \<lparr>uq_queue = [], uq_maxsize = max_queue_size, uq_unfinished = 0, uq_closed = False, uq_dropped = 0\<rparr>"

definition queue_full :: "usage_recorder \<Rightarrow> bool" where
  "queue_full u \<longleftrightarrow> 0 < uq_maxsize u \<and> uq_maxsize u \<le> int (length (uq_queue u))"

definition usage_record_event :: "usage_recorder \<Rightarrow> usage_event \<Rightarrow> bool \<times> usage_recorder" where
  "usage_record_event u event =
     (if queue_full u then (False, u\<lparr>uq_dropped := uq_dropped u + 1\<rparr>)
      else (True, u\<lparr>uq_queue := uq_queue u @ [event], uq_unfinished := uq_unfinished u + 1\<rparr>))"

text \<open>
  One turn of \<open>run\<close>: the loop ends (\<open>None\<close>), waits for half a second (nothing changes), or takes the
  next event and writes it.  A failure of the store is logged; the event is done in every case.
\<close>

definition usage_turn ::
  "'r redis_ops \<Rightarrow> store_config \<Rightarrow> error option \<Rightarrow> datetime \<Rightarrow> usage_recorder \<times> 'r \<Rightarrow> (usage_recorder \<times> 'r) option" where
  "usage_turn R cfg fault t st =
     (let (u, r) = st in
      if uq_closed u \<and> uq_queue u = [] then None
      else case uq_queue u of
        [] \<Rightarrow> Some (u, r)
      | event # rest \<Rightarrow>
          Some (u\<lparr>uq_queue := rest, uq_unfinished := uq_unfinished u - 1\<rparr>,
                case fault of Some _ \<Rightarrow> r | None \<Rightarrow> snd (record_usage R cfg t r event)))"

text \<open>\<open>close\<close> sets the flag and waits for \<open>join\<close>, that is until no task is unfinished.\<close>

definition usage_close :: "usage_recorder \<Rightarrow> usage_recorder" where
  "usage_close u = u\<lparr>uq_closed := True\<rparr>"

definition usage_joined :: "usage_recorder \<Rightarrow> bool" where
  "usage_joined u \<longleftrightarrow> uq_unfinished u = 0"

text \<open>The loop, for at most \<open>n\<close> turns.\<close>

primrec usage_run ::
  "'r redis_ops \<Rightarrow> store_config \<Rightarrow> datetime \<Rightarrow> nat \<Rightarrow> usage_recorder \<times> 'r \<Rightarrow> usage_recorder \<times> 'r" where
  "usage_run R cfg t 0 st = st"
| "usage_run R cfg t (Suc n) st =
     (case usage_turn R cfg None t st of None \<Rightarrow> st | Some st' \<Rightarrow> usage_run R cfg t n st')"

section \<open>The queue as a bounded buffer\<close>

definition recorder_inv :: "usage_recorder \<Rightarrow> bool" where
  "recorder_inv u \<longleftrightarrow> 0 < uq_maxsize u \<and> int (length (uq_queue u)) \<le> uq_maxsize u \<and>
     uq_unfinished u = length (uq_queue u)"

definition offer_usage :: "usage_recorder \<Rightarrow> usage_event \<Rightarrow> usage_recorder" where
  "offer_usage u e = snd (usage_record_event u e)"

definition take_usage :: "unit \<Rightarrow> usage_recorder \<Rightarrow> usage_recorder option" where
  "take_usage _ u =
     (case uq_queue u of [] \<Rightarrow> None
      | e # es \<Rightarrow> Some (u\<lparr>uq_queue := es, uq_unfinished := uq_unfinished u - 1\<rparr>))"

interpretation uq: bounded_buffer offer_usage take_usage "\<lambda>u. length (uq_queue u)" uq_dropped
  "\<lambda>u. nat (uq_maxsize u)" recorder_inv "\<lambda>_. True"
  by unfold_locales
    (auto simp: offer_usage_def usage_record_event_def take_usage_def recorder_inv_def queue_full_def split: list.splits)

lemma new_recorder_inv: "0 < n \<Longrightarrow> recorder_inv (new_recorder n)"
  by (simp add: recorder_inv_def new_recorder_def)

section \<open>Draining\<close>

text \<open>The entries of the usage stream that carry an idempotency key.\<close>

definition usage_entries :: "redis_db \<Rightarrow> store_config \<Rightarrow> string \<Rightarrow> (string \<times> entry) list" where
  "usage_entries d cfg key =
     filter (\<lambda>p. dict_get (snd p) ''idempotency_key'' = Some (Text key)) (stream d (usage_stream cfg))"

lemma usage_key_eq [simp]: "usage_key a = usage_key b \<longleftrightarrow> a = b"
  by (simp add: usage_key_def)

context redis
begin

lemma record_usage_entries:
  "length (usage_entries (db (snd (record_usage R cfg t r e))) cfg key) =
     length (usage_entries (db r) cfg key) +
       (if u_idempotency_key e = key \<and> kv (db r) (usage_key key) = None then 1 else 0)"
  "kv (db (snd (record_usage R cfg t r e))) (usage_key key) = None \<longleftrightarrow>
     kv (db r) (usage_key key) = None \<and> u_idempotency_key e \<noteq> key"
  by (auto simp: record_usage_def case_prod_beta Let_def db_setnx_def usage_entries_def)

lemma usage_run_drains:
  assumes "uq_closed u" "uq_unfinished u = length (uq_queue u)"
  shows "\<exists>u' r'. usage_run R cfg t (length (uq_queue u)) (u, r) = (u', r') \<and> uq_closed u' \<and> uq_queue u' = [] \<and>
    usage_joined u' \<and>
    (\<forall>key. length (usage_entries (db r') cfg key) = length (usage_entries (db r) cfg key) +
       (if key \<in> u_idempotency_key ` set (uq_queue u) \<and> kv (db r) (usage_key key) = None then 1 else 0))"
  using assms
proof (induction "uq_queue u" arbitrary: u r)
  case Nil
  then show ?case by (auto simp: usage_joined_def)
next
  case (Cons e es)
  let ?u = "u\<lparr>uq_queue := es, uq_unfinished := uq_unfinished u - 1\<rparr>"
  let ?r = "snd (record_usage R cfg t r e)"
  have q: "uq_queue u = e # es" using Cons.hyps(2) by simp
  have "es = uq_queue ?u" "uq_closed ?u" "uq_unfinished ?u = length (uq_queue ?u)"
    using Cons.prems by (simp_all add: q)
  from Cons.hyps(1) [OF this, of ?r] obtain u' r' where
    run: "usage_run R cfg t (length (uq_queue ?u)) (?u, ?r) = (u', r')" "uq_closed u'" "uq_queue u' = []" "usage_joined u'"
    and n: "length (usage_entries (db r') cfg key) = length (usage_entries (db ?r) cfg key) +
      (if key \<in> u_idempotency_key ` set (uq_queue ?u) \<and> kv (db ?r) (usage_key key) = None then 1 else 0)" for key
    by blast
  have "usage_run R cfg t (length (uq_queue u)) (u, r) = (u', r')"
    using run(1) by (simp add: q usage_turn_def)
  moreover have "length (usage_entries (db r') cfg key) = length (usage_entries (db r) cfg key) +
      (if key \<in> u_idempotency_key ` set (uq_queue u) \<and> kv (db r) (usage_key key) = None then 1 else 0)" for key
    unfolding n record_usage_entries by (auto simp: q)
  ultimately show ?case using run(2-4) by blast
qed

end

section \<open>Properties\<close>

text \<open>The usage queue loses nothing silently: over any sequence of records and turns from a new
  recorder, what was recorded is what was taken, what is still queued and what was counted as dropped, and
  the queue never exceeds its bound.\<close>

theorem usage_accounting:
  assumes "0 < n" "run_ops offer_usage take_usage (new_recorder n) ops = (u, taken)"
  shows "taken + length (uq_queue u) + uq_dropped u = offers ops \<and> int (length (uq_queue u)) \<le> n"
  using uq.run_ops_account [OF new_recorder_inv [OF assms(1)] _ assms(2)] assms(1)
  by (auto simp: uq.ops_ok_def new_recorder_def)


section \<open>Witnesses\<close>

theorem usage_accounting_witness:
  "\<exists>u taken. run_ops offer_usage take_usage (new_recorder 1) [Offer sample_usage, Offer sample_usage, Take ()] = (u, taken) \<and>
     taken + length (uq_queue u) + uq_dropped u = 2"
proof -
  obtain u taken where r: "run_ops offer_usage take_usage (new_recorder 1) [Offer sample_usage, Offer sample_usage, Take ()] = (u, taken)"
    by (metis surj_pair)
  from usage_accounting [OF _ r] r show ?thesis by auto
qed

definition sample_recorder :: usage_recorder where
  "sample_recorder = offer_usage (offer_usage (new_recorder 5) sample_usage) sample_usage"


end
