(* ===== verification/Json.thy ===== *)
theory Json
  imports Prelude
begin

text \<open>
  Decoded JSON values, as the sources inspect them: WebSocket payloads of the market-data provider, token
  claims and entitlement documents.  A number with a fraction or an exponent is kept as the text Python
  prints for the \<open>float\<close>.  \<open>py_str\<close> is \<open>str(value)\<close>, \<open>py_truth\<close> the truth value,
  \<open>parse_decimal\<close> the constructor \<open>Decimal(text)\<close>, which returns \<open>None\<close> where it raises
  \<open>InvalidOperation\<close>.
\<close>

datatype json =
    JNull
  | JBool bool
  | JInt int
  | JFloat string
  | JStr string
  | JArr "json list"
  | JObj "(string \<times> json) list"

section \<open>Text of a value\<close>

definition join :: "string \<Rightarrow> string list \<Rightarrow> string" where
  "join sep xs = (case xs of [] \<Rightarrow> [] | y # ys \<Rightarrow> y @ concat (map (\<lambda>z. sep @ z) ys))"

text \<open>\<open>repr\<close> of an ASCII string.\<close>

definition repr_char :: "char \<Rightarrow> char \<Rightarrow> string" where
  "repr_char q c =
     (let n = char_code c in
      if c = q \<or> n = 92 then [char_of (92::nat), c]
      else if n = 10 then [char_of (92::nat), CHR ''n'']
      else if n = 13 then [char_of (92::nat), CHR ''r'']
      else if n = 9 then [char_of (92::nat), CHR ''t'']
      else if n < 32 \<or> n = 127 then [char_of (92::nat), CHR ''x''] @ hex_of 2 n
      else [c])"

definition repr_string :: "string \<Rightarrow> string" where
  "repr_string s =
     (let q = (if char_of (39::nat) \<in> set s \<and> char_of (34::nat) \<notin> set s then char_of (34::nat) else char_of (39::nat))
      in [q] @ concat (map (repr_char q) s) @ [q])"

fun py_repr :: "json \<Rightarrow> string" where
  "py_repr JNull = ''None''"
| "py_repr (JBool b) = (if b then ''True'' else ''False'')"
| "py_repr (JInt n) = string_of_int n"
| "py_repr (JFloat s) = s"
| "py_repr (JStr s) = repr_string s"
| "py_repr (JArr xs) = ''['' @ join '', '' (map py_repr xs) @ '']''"
| "py_repr (JObj kvs) = ''{'' @ join '', '' (map (\<lambda>(k, v). repr_string k @ '': '' @ py_repr v) kvs) @ ''}''"

definition py_str :: "json \<Rightarrow> string" where
  "py_str v = (case v of JStr s \<Rightarrow> s | _ \<Rightarrow> py_repr v)"

definition py_truth :: "json \<Rightarrow> bool" where
  "py_truth v = (case v of JNull \<Rightarrow> False | JBool b \<Rightarrow> b | JInt n \<Rightarrow> n \<noteq> 0
     | JFloat s \<Rightarrow> s \<noteq> ''0.0'' \<and> s \<noteq> ''-0.0'' | JStr s \<Rightarrow> s \<noteq> [] | JArr xs \<Rightarrow> xs \<noteq> [] | JObj kvs \<Rightarrow> kvs \<noteq> [])"

lemma py_str_JStr [simp]: "py_str (JStr s) = s"
  by (simp add: py_str_def)

section \<open>Access\<close>

text \<open>\<open>value.get(key)\<close>, where an absent key gives \<open>None\<close>, on an object.\<close>

definition jget :: "(string \<times> json) list \<Rightarrow> string \<Rightarrow> json" where
  "jget kvs k = (case map_of kvs k of None \<Rightarrow> JNull | Some v \<Rightarrow> v)"

text \<open>\<open>value[key]\<close> and \<open>value.get(key)\<close> on any value.\<close>

definition json_item :: "json \<Rightarrow> string \<Rightarrow> json result" where
  "json_item v key = (case v of
       JObj kvs \<Rightarrow> (case dict_get kvs key of None \<Rightarrow> Inl (KeyError key) | Some w \<Rightarrow> Inr w)
     | _ \<Rightarrow> Inl (TypeError ''indices must be integers''))"

definition json_get :: "json \<Rightarrow> string \<Rightarrow> json result" where
  "json_get v key = (case v of JObj kvs \<Rightarrow> Inr (jget kvs key) | _ \<Rightarrow> Inl (AttributeError ''get''))"

text \<open>\<open>for x in value\<close>: an array gives its items, a string its characters, an object its keys.\<close>

definition json_iter :: "json \<Rightarrow> json list result" where
  "json_iter v = (case v of
       JArr xs \<Rightarrow> Inr xs
     | JStr s \<Rightarrow> Inr (map (\<lambda>c. JStr [c]) s)
     | JObj kvs \<Rightarrow> Inr (map (\<lambda>p. JStr (fst p)) kvs)
     | _ \<Rightarrow> Inl (TypeError ''object is not iterable''))"

definition json_hashable :: "json \<Rightarrow> bool" where
  "json_hashable v = (case v of JArr _ \<Rightarrow> False | JObj _ \<Rightarrow> False | _ \<Rightarrow> True)"

text \<open>\<open>set(value)\<close>.\<close>

definition json_set :: "json \<Rightarrow> json list result" where
  "json_set v = bindE (json_iter v) (\<lambda>xs.
     if list_all json_hashable xs then Inr xs else Inl (TypeError ''unhashable type''))"

fun json_strings :: "json list \<Rightarrow> string list option" where
  "json_strings [] = Some []"
| "json_strings (JStr s # xs) = map_option ((#) s) (json_strings xs)"
| "json_strings (_ # xs) = None"

section \<open>Decimals\<close>

definition digits :: "string \<Rightarrow> bool" where
  "digits s \<longleftrightarrow> s \<noteq> [] \<and> list_all is_digit s"

definition split_sign :: "string \<Rightarrow> bool \<times> string" where
  "split_sign s = (case s of [] \<Rightarrow> (False, []) | c # cs \<Rightarrow>
     if c = CHR ''-'' then (True, cs) else if c = CHR ''+'' then (False, cs) else (False, s))"

definition parse_exponent :: "string \<Rightarrow> int option" where
  "parse_exponent s = (let (neg, d) = split_sign s in
     if digits d then Some (if neg then - int (nat_of_digits d) else int (nat_of_digits d)) else None)"

text \<open>Digits with an optional point, at least one digit: the coefficient and the number of decimals.\<close>

definition parse_mantissa :: "string \<Rightarrow> (nat \<times> nat) option" where
  "parse_mantissa s =
     (let (whole, dot, frac) = py_partition (CHR ''.'') s in
      if list_all is_digit whole \<and> list_all is_digit frac \<and> whole @ frac \<noteq> []
      then Some (nat_of_digits (whole @ frac), length frac) else None)"

definition ten_power :: "int \<Rightarrow> rat" where
  "ten_power e = (if 0 \<le> e then 10 ^ nat e else 1 / 10 ^ nat (- e))"

definition parse_finite :: "string \<Rightarrow> rat option" where
  "parse_finite s =
     (let (m, has_exp, e) = py_partition (CHR ''e'') s in
      case (parse_mantissa m, if has_exp then parse_exponent e else Some 0) of
        (Some (coefficient, decimals), Some ex) \<Rightarrow> Some (of_nat coefficient * ten_power (ex - int decimals))
      | _ \<Rightarrow> None)"

definition is_nan_text :: "string \<Rightarrow> bool" where
  "is_nan_text s \<longleftrightarrow> (take 3 s = ''nan'' \<and> list_all is_digit (drop 3 s)) \<or> (take 4 s = ''snan'' \<and> list_all is_digit (drop 4 s))"

definition parse_decimal :: "string \<Rightarrow> decimal option" where
  "parse_decimal s =
     (let (neg, t) = split_sign (py_lower (filter (\<lambda>c. c \<noteq> CHR ''_'') (py_strip s))) in
      if t = ''inf'' \<or> t = ''infinity'' then Some (Infinite neg)
      else if is_nan_text t then Some NaN
      else map_option (\<lambda>x. Finite (if neg then - x else x)) (parse_finite t))"

text \<open>Equality of a decoded value and an \<open>int\<close>, as Python compares them.\<close>

definition json_equals_int :: "json \<Rightarrow> int \<Rightarrow> bool" where
  "json_equals_int v n = (case v of
       JInt m \<Rightarrow> m = n
     | JBool b \<Rightarrow> (if b then 1 else 0) = n
     | JFloat s \<Rightarrow> parse_decimal s = Some (Finite (of_int n))
     | _ \<Rightarrow> False)"

lemma parse_decimal_examples:
  "parse_decimal ''-12.50e1'' = Some (Finite (-125))" "parse_decimal '' 0.25 '' = Some (Finite (1/4))"
  "parse_decimal ''NaN'' = Some NaN" "parse_decimal ''1e'' = None" "parse_decimal '''' = None" "parse_decimal ''.'' = None"
  by code_simp+

end
