(* ===== verification/Security.thy ===== *)
theory Security
  imports Models Json
begin

text \<open>
  Authentication and entitlements, \<open>security.py\<close>: \<open>AuthService\<close>, \<open>ClientProfileClient\<close> with its
  short-lived cache, and \<open>AuthorizationService\<close>.  Token verification (PyJWT) and the profile service
  (HTTP) are arguments: \<open>decode\<close> is what \<open>jwt.decode\<close> makes of a token, \<open>fetch\<close> the outcomes of
  the two requests.  The \<open>claims\<close> of an identity are left out: nothing reads them.

  The lemmas show that without development tokens every identity comes from verified claims, that a
  failing profile service never changes who the client is and a failure of it falls back to the token, and
  that the entitlement checks are exact.  Two others record exceptions that escape: an empty client id in a
  development token, and a \<open>null\<close> channel list from the profile service.
\<close>

section \<open>Authentication\<close>

record auth_config =
  allow_dev_tokens :: bool
  allow_anonymous_dev :: bool

datatype jwt_outcome = Claims "(string \<times> json) list" | Expired | InvalidToken

definition bearer_token :: "string option \<Rightarrow> string option" where
  "bearer_token authorization =
     (case authorization of
        None \<Rightarrow> None
      | Some s \<Rightarrow>
          if s = [] then None
          else let (scheme, found, value) = py_partition (CHR '' '') s
               in if py_lower scheme \<noteq> ''bearer'' \<or> value = [] then None else Some (py_strip value))"

text \<open>The \<open>ClientIdentity\<close> constructor on decoded documents, with \<open>allowed_channels\<close> made a set first.\<close>

definition symbols_of :: "json \<Rightarrow> string list option result" where
  "symbols_of v = (if v = JNull then Inr None else bindE (json_iter v) (\<lambda>xs. Inr (Some (map py_str xs))))"

definition organization_of :: "json \<Rightarrow> string option option" where
  "organization_of v = (case v of JNull \<Rightarrow> Some None | JStr s \<Rightarrow> Some (Some s) | _ \<Rightarrow> None)"

definition identity_of :: "string \<Rightarrow> service_tier \<Rightarrow> json \<Rightarrow> json list \<Rightarrow> json \<Rightarrow> client_identity result" where
  "identity_of client_id tier allowed_symbols allowed_channels organization_id =
     bindE (symbols_of allowed_symbols) (\<lambda>symbols.
       let errs = field_errors
             [(1 \<le> length client_id \<and> length client_id \<le> 128, ''client_id''),
              (json_strings allowed_channels \<noteq> None, ''allowed_channels''),
              (organization_of organization_id \<noteq> None, ''organization_id'')]
       in if errs \<noteq> [] then Inl (FieldErrors errs)
          else make_identity client_id tier symbols (set (the (json_strings allowed_channels)))
                 (the (organization_of organization_id)))"

definition identity_of_claims :: "(string \<times> json) list \<Rightarrow> client_identity result" where
  "identity_of_claims claims =
     (case service_tier_of (case dict_get claims ''tier'' of None \<Rightarrow> ''basic'' | Some v \<Rightarrow> py_str v) of
        None \<Rightarrow> Inl (ValueError ''is not a valid ServiceTier'')
      | Some tier \<Rightarrow>
          (case dict_get claims ''sub'' of
             None \<Rightarrow> Inl (KeyError ''sub'')
           | Some client \<Rightarrow>
               bindE (json_set (case dict_get claims ''allowed_channels'' of None \<Rightarrow> JArr [JStr ''quote''] | Some v \<Rightarrow> v))
                 (\<lambda>channels. identity_of (py_str client) tier (jget claims ''allowed_symbols'') channels
                    (jget claims ''organization_id''))))"

text \<open>\<open>except (KeyError, TypeError, ValueError)\<close>.\<close>

fun claims_error :: "error \<Rightarrow> bool" where
  "claims_error (KeyError _) = True"
| "claims_error (TypeError _) = True"
| "claims_error e = is_value_error e"

definition dev_tier :: "string \<Rightarrow> string" where
  "dev_tier token = fst (py_partition (CHR '':'') (drop 4 token))"

definition dev_client :: "string \<Rightarrow> service_tier \<Rightarrow> string" where
  "dev_client token tier =
     (let (before, found, after) = py_partition (CHR '':'') token
      in if found then after else ''dev-'' @ tier_value tier)"

definition authenticate :: "auth_config \<Rightarrow> (string \<Rightarrow> jwt_outcome) \<Rightarrow> string option \<Rightarrow> client_identity result" where
  "authenticate cfg decode token0 =
     (let token = (case token0 of None \<Rightarrow> [] | Some s \<Rightarrow> s) in
      if token = [] then
        if allow_anonymous_dev cfg then make_identity ''anonymous-dev'' BASIC None {''quote''} None
        else Inl (AuthenticationError ''authentication required'')
      else if allow_dev_tokens cfg \<and> take 4 token = ''dev-'' then
        (case service_tier_of (dev_tier token) of
           None \<Rightarrow> Inl (AuthenticationError ''invalid development token'')
         | Some tier \<Rightarrow> make_identity (dev_client token tier) tier None {''quote''} None)
      else
        (case decode token of
           Expired \<Rightarrow> Inl (AuthenticationError ''token expired'')
         | InvalidToken \<Rightarrow> Inl (AuthenticationError ''invalid token'')
         | Claims claims \<Rightarrow>
             (case identity_of_claims claims of
                Inr identity \<Rightarrow> Inr identity
              | Inl e \<Rightarrow> Inl (if claims_error e then AuthenticationError ''invalid token claims'' else e))))"

section \<open>Entitlements\<close>

text \<open>An attempt to fetch the profile: it fails (\<open>httpx.HTTPError\<close> or a body that is not JSON) or gives a document.\<close>

datatype profile_outcome = FetchFailed | Profile json

record profile_config =
  profile_url :: "string option"
  entitlement_ttl :: rat

type_synonym profile_cache = "(string, client_identity \<times> rat) dict"

definition document_get :: "(string \<times> json) list \<Rightarrow> string \<Rightarrow> json \<Rightarrow> json" where
  "document_get kvs k v = (case dict_get kvs k of None \<Rightarrow> v | Some w \<Rightarrow> w)"

definition string_array :: "string set \<Rightarrow> json" where
  "string_array xs = JArr (map JStr (sorted_list_of_set xs))"

definition identity_of_profile :: "client_identity \<Rightarrow> json \<Rightarrow> client_identity result" where
  "identity_of_profile ident payload =
     (case payload of
        JObj doc \<Rightarrow>
          (case service_tier_of (py_str (document_get doc ''tier'' (JStr (tier_value (ci_tier ident))))) of
             None \<Rightarrow> Inl (ValueError ''is not a valid ServiceTier'')
           | Some tier \<Rightarrow>
               bindE (json_set (document_get doc ''allowed_channels'' (string_array (ci_allowed_channels ident)))) (\<lambda>channels.
                 identity_of (ci_client_id ident) tier
                   (document_get doc ''allowed_symbols''
                      (case ci_allowed_symbols ident of None \<Rightarrow> JNull | Some ss \<Rightarrow> string_array ss))
                   channels
                   (document_get doc ''organization_id''
                      (case ci_organization_id ident of None \<Rightarrow> JNull | Some s \<Rightarrow> JStr s))))
      | _ \<Rightarrow> Inl (AttributeError ''get''))"

text \<open>The loop over the attempts.  \<open>except (httpx.HTTPError, ValueError)\<close> tries again and then falls back.\<close>

fun profile_attempts ::
  "profile_config \<Rightarrow> client_identity \<Rightarrow> profile_cache \<Rightarrow> (profile_outcome \<times> rat) list \<Rightarrow> client_identity result \<times> profile_cache" where
  "profile_attempts cfg ident cache [] = (Inr ident, cache)"
| "profile_attempts cfg ident cache ((FetchFailed, now) # rest) = profile_attempts cfg ident cache rest"
| "profile_attempts cfg ident cache ((Profile payload, now) # rest) =
     (case identity_of_profile ident payload of
        Inr resolved \<Rightarrow> (Inr resolved, dict_set (ci_client_id ident) (resolved, now + entitlement_ttl cfg) cache)
      | Inl e \<Rightarrow> if is_value_error e then profile_attempts cfg ident cache rest else (Inl e, cache))"

text \<open>\<open>resolve\<close>: the outcome of each of the two requests comes with the clock reading after it.\<close>

definition resolve ::
  "profile_config \<Rightarrow> rat \<Rightarrow> profile_outcome \<times> rat \<Rightarrow> profile_outcome \<times> rat \<Rightarrow> client_identity \<Rightarrow> profile_cache \<Rightarrow>
   client_identity result \<times> profile_cache" where
  "resolve cfg now first second ident cache =
     (if profile_url cfg = None then (Inr ident, cache)
      else case dict_get cache (ci_client_id ident) of
        Some (cached, expires_at) \<Rightarrow>
          if now < expires_at then (Inr cached, cache) else profile_attempts cfg ident cache [first, second]
      | None \<Rightarrow> profile_attempts cfg ident cache [first, second])"

section \<open>Authorization\<close>

definition not_entitled :: "string \<Rightarrow> string set \<Rightarrow> error" where
  "not_entitled what denied = AuthorizationError (what @ '' not entitled: '' @ join '','' (sorted_list_of_set denied))"

definition check_symbols :: "client_identity \<Rightarrow> string set \<Rightarrow> unit result" where
  "check_symbols identity symbols =
     (case ci_allowed_symbols identity of
        None \<Rightarrow> Inr ()
      | Some allowed \<Rightarrow> (let denied = symbols - allowed in if denied \<noteq> {} then Inl (not_entitled ''symbols'' denied) else Inr ()))"

definition check_channels :: "client_identity \<Rightarrow> string set \<Rightarrow> unit result" where
  "check_channels identity channels =
     (let denied = channels - ci_allowed_channels identity
      in if denied \<noteq> {} then Inl (not_entitled ''channels'' denied) else Inr ())"

definition entitled :: "client_identity \<Rightarrow> string set \<Rightarrow> bool" where
  "entitled identity symbols \<longleftrightarrow> (case ci_allowed_symbols identity of None \<Rightarrow> True | Some allowed \<Rightarrow> symbols \<subseteq> allowed)"

lemma check_symbols_entitled: "check_symbols identity symbols = Inr () \<longleftrightarrow> entitled identity symbols"
  by (auto simp: check_symbols_def entitled_def Let_def split: option.splits)

lemma check_channels_allowed: "check_channels identity channels = Inr () \<longleftrightarrow> channels \<subseteq> ci_allowed_channels identity"
  by (auto simp: check_channels_def Let_def)

section \<open>Properties\<close>

lemma make_identity_Inr:
  "make_identity c t s ch o' = Inr i \<Longrightarrow> ci_client_id i = c \<and> ci_tier i = t \<and> 1 \<le> length c \<and> length c \<le> 128"
  by (auto simp: make_identity_def split: if_splits)

lemma identity_of_Inr:
  "identity_of c t s ch o' = Inr i \<Longrightarrow> ci_client_id i = c \<and> ci_tier i = t \<and> 1 \<le> length c \<and> length c \<le> 128"
  by (auto simp: identity_of_def bindE_eq_Inr Let_def split: if_splits dest: make_identity_Inr)

lemma json_iter_Inl: "json_iter v = Inl e \<Longrightarrow> \<exists>s. e = TypeError s"
  by (auto simp: json_iter_def split: json.splits)

lemma json_set_Inl: "json_set v = Inl e \<Longrightarrow> \<exists>s. e = TypeError s"
  by (auto simp: json_set_def bindE_eq_Inl split: if_splits dest: json_iter_Inl)

lemma identity_of_Inl: "identity_of c t s ch o' = Inl e \<Longrightarrow> claims_error e"
  by (auto simp: identity_of_def symbols_of_def bindE_eq_Inl make_identity_def Let_def split: if_splits dest!: json_iter_Inl)

lemma identity_of_claims_Inl: "identity_of_claims claims = Inl e \<Longrightarrow> claims_error e"
  by (auto simp: identity_of_claims_def bindE_eq_Inl split: option.splits dest!: json_set_Inl dest: identity_of_Inl)

lemma identity_of_claims_Inr:
  assumes "identity_of_claims claims = Inr i"
  obtains v where "dict_get claims ''sub'' = Some v" "ci_client_id i = py_str v"
    "1 \<le> length (ci_client_id i)" "length (ci_client_id i) \<le> 128"
    "service_tier_of (case dict_get claims ''tier'' of None \<Rightarrow> ''basic'' | Some v \<Rightarrow> py_str v) = Some (ci_tier i)"
  using assms by (auto simp: identity_of_claims_def bindE_eq_Inr split: option.splits dest!: identity_of_Inr)

text \<open>C23: with development tokens and anonymous access switched off, every identity is the subject and tier
  of verified claims: nobody is authenticated without a token that the verifier accepts.\<close>

theorem verified_identity:
  assumes "\<not> allow_dev_tokens cfg" "\<not> allow_anonymous_dev cfg" "authenticate cfg decode token = Inr i"
  shows "\<exists>t claims v. token = Some t \<and> decode t = Claims claims \<and> dict_get claims ''sub'' = Some v \<and>
    ci_client_id i = py_str v \<and> 1 \<le> length (ci_client_id i) \<and> length (ci_client_id i) \<le> 128 \<and>
    service_tier_of (case dict_get claims ''tier'' of None \<Rightarrow> ''basic'' | Some v \<Rightarrow> py_str v) = Some (ci_tier i)"
  using assms
  by (auto simp: authenticate_def Let_def split: option.splits if_splits jwt_outcome.splits sum.splits
      elim!: identity_of_claims_Inr)

text \<open>Outside development tokens a failed authentication is always an \<open>AuthenticationError\<close>, which the
  endpoints answer with 401 (4401 on the WebSocket): no malformed token or claim escapes as another
  exception.\<close>

theorem authentication_failures:
  assumes "authenticate cfg decode token = Inl e" "\<not> (allow_dev_tokens cfg \<and> (\<exists>t. token = Some t \<and> take 4 t = ''dev-''))"
  shows "\<exists>s. e = AuthenticationError s"
  using assms
  by (auto simp: authenticate_def make_identity_def Let_def
      split: option.splits if_splits jwt_outcome.splits sum.splits dest: identity_of_claims_Inl)

text \<open>A development token that ends in a colon has an empty client id; the identity then fails
  validation outside the \<open>try\<close> block, and the exception that escapes is not an \<open>AuthenticationError\<close>.\<close>

theorem dev_token_escapes:
  assumes "allow_dev_tokens cfg"
  shows "authenticate cfg decode (Some (''dev-'' @ tier_value tier @ '':'')) = Inl (FieldErrors [''client_id''])"
  using assms
  by (cases tier) (simp_all add: authenticate_def dev_tier_def dev_client_def service_tier_of_def
      py_partition_def make_identity_def)

definition cache_ok :: "profile_cache \<Rightarrow> bool" where
  "cache_ok cache \<longleftrightarrow> (\<forall>k i t. dict_get cache k = Some (i, t) \<longrightarrow> ci_client_id i = k)"

definition same_client :: "client_identity \<Rightarrow> client_identity result \<Rightarrow> bool" where
  "same_client ident m \<longleftrightarrow> (case m of Inl _ \<Rightarrow> True | Inr i \<Rightarrow> ci_client_id i = ci_client_id ident)"

lemma same_client_simps [simp]:
  "same_client ident (Inl e)" "same_client ident (Inr i) \<longleftrightarrow> ci_client_id i = ci_client_id ident"
  by (simp_all add: same_client_def)

lemma cache_ok_set: "cache_ok cache \<Longrightarrow> ci_client_id i = k \<Longrightarrow> cache_ok (dict_set k (i, t) cache)"
  by (simp add: cache_ok_def dict_simps)

lemma identity_of_profile_client: "identity_of_profile ident p = Inr i \<Longrightarrow> ci_client_id i = ci_client_id ident"
  by (auto simp: identity_of_profile_def bindE_eq_Inr split: json.splits option.splits dest!: identity_of_Inr)

lemma profile_attempts_spec:
  assumes "cache_ok cache" "profile_attempts cfg ident cache xs = (m, cache')"
  shows "cache_ok cache' \<and> same_client ident m \<and>
    ((\<forall>x \<in> set xs. fst x = FetchFailed) \<longrightarrow> m = Inr ident \<and> cache' = cache)"
  using assms
proof (induction cfg ident cache xs rule: profile_attempts.induct)
  case (3 cfg ident cache payload now rest)
  show ?case
  proof (cases "identity_of_profile ident payload")
    case (Inl e)
    with 3 show ?thesis by (cases "is_value_error e") (auto simp: same_client_def split: sum.splits)
  next
    case (Inr i)
    note c = identity_of_profile_client [OF Inr]
    have "m = Inr i" "cache' = dict_set (ci_client_id ident) (i, now + entitlement_ttl cfg) cache"
      using "3.prems"(2) by (simp_all add: Inr)
    with cache_ok_set [OF "3.prems"(1) c] c show ?thesis by simp
  qed
qed auto

text \<open>Resolving entitlements never changes who the client is, keeps the cache keyed by client, and
  falls back to the identity of the token, with nothing cached, when the profile service cannot be reached.\<close>

theorem resolve_keeps_client:
  assumes "cache_ok cache" "resolve cfg now first second ident cache = (m, cache')"
  shows "cache_ok cache' \<and> same_client ident m \<and>
    (dict_get cache (ci_client_id ident) = None \<and> fst first = FetchFailed \<and> fst second = FetchFailed \<longrightarrow>
       m = Inr ident \<and> cache' = cache)"
proof -
  note p = profile_attempts_spec [OF assms(1), of cfg ident "[first, second]" m cache']
  show ?thesis
  proof (cases "dict_get cache (ci_client_id ident)")
    case None
    with assms p show ?thesis by (cases "profile_url cfg") (auto simp: resolve_def)
  next
    case (Some c)
    then have "ci_client_id (fst c) = ci_client_id ident" using assms(1) by (cases c) (auto simp: cache_ok_def)
    with Some assms p show ?thesis
      by (cases "profile_url cfg"; cases c; cases "now < snd c") (auto simp: resolve_def)
  qed
qed

text \<open>A profile document whose channel list is \<open>null\<close> makes \<open>resolve\<close> raise \<open>TypeError\<close>, which the retry
  clause does not catch: the request fails instead of falling back to the token.\<close>

theorem profile_null_escapes:
  assumes "profile_url cfg \<noteq> None" "dict_get cache (ci_client_id ident) = None"
  shows "\<exists>s. resolve cfg now (Profile (JObj [(''allowed_channels'', JNull)]), t) second ident cache = (Inl (TypeError s), cache)"
  using assms
  by (cases "ci_tier ident")
    (simp_all add: resolve_def identity_of_profile_def document_get_def service_tier_of_def json_set_def json_iter_def)

section \<open>Witnesses\<close>

definition strict_auth :: auth_config where
  "strict_auth = \<lparr>allow_dev_tokens = False, allow_anonymous_dev = False\<rparr>"

definition sample_claims :: "(string \<times> json) list" where
  "sample_claims = [(''sub'', JStr ''client-1''), (''tier'', JStr ''pro''), (''allowed_symbols'', JArr [JStr ''aapl''])]"

definition sample_decode :: "string \<Rightarrow> jwt_outcome" where
  "sample_decode t = (if t = ''good'' then Claims sample_claims else InvalidToken)"

definition sample_identity :: client_identity where
  "sample_identity = \<lparr>ci_client_id = ''client-1'', ci_tier = PRO, ci_allowed_symbols = Some {''AAPL''},
     ci_allowed_channels = {''quote''}, ci_organization_id = None\<rparr>"

lemma sample_authenticate: "authenticate strict_auth sample_decode (Some ''good'') = Inr sample_identity"
  by code_simp

theorem verified_identity_witness:
  "\<exists>t claims v. Some ''good'' = Some t \<and> sample_decode t = Claims claims \<and> dict_get claims ''sub'' = Some v \<and>
     ci_client_id sample_identity = py_str v"
  using verified_identity [OF _ _ sample_authenticate] by (auto simp: strict_auth_def)

theorem authentication_failures_witness:
  "\<exists>s e. authenticate strict_auth sample_decode (Some ''bad'') = Inl e \<and> e = AuthenticationError s"
proof -
  have "authenticate strict_auth sample_decode (Some ''bad'') = Inl (AuthenticationError ''invalid token'')" by code_simp
  from authentication_failures [OF this] this show ?thesis by (auto simp: strict_auth_def)
qed

theorem dev_token_escapes_witness:
  "authenticate \<lparr>allow_dev_tokens = True, allow_anonymous_dev = True\<rparr> sample_decode (Some ''dev-pro:'') =
     Inl (FieldErrors [''client_id''])"
  using dev_token_escapes [of "\<lparr>allow_dev_tokens = True, allow_anonymous_dev = True\<rparr>" sample_decode PRO] by simp

definition sample_profile_config :: profile_config where
  "sample_profile_config = \<lparr>profile_url = Some ''http://profiles'', entitlement_ttl = 30\<rparr>"

theorem resolve_keeps_client_witness:
  "resolve sample_profile_config 0 (FetchFailed, 1) (FetchFailed, 2) sample_identity [] = (Inr sample_identity, [])"
proof -
  obtain m c where r: "resolve sample_profile_config 0 (FetchFailed, 1) (FetchFailed, 2) sample_identity [] = (m, c)"
    by (metis surj_pair)
  from resolve_keeps_client [OF _ r] r show ?thesis by (simp add: cache_ok_def)
qed

theorem profile_null_escapes_witness:
  "\<exists>s. resolve sample_profile_config 0 (Profile (JObj [(''allowed_channels'', JNull)]), 1) (FetchFailed, 2) sample_identity [] =
     (Inl (TypeError s), [])"
  using profile_null_escapes [of sample_profile_config "[]" sample_identity 0 1 "(FetchFailed, 2)"]
  by (auto simp: sample_profile_config_def)

end
