(* ===== verification/Providers.thy ===== *)
theory Providers
  imports Models
begin

text \<open>
  The contract of a market-data adapter, \<open>providers/base.py\<close>, as the locale \<open>market_provider\<close>, and the
  deterministic adapter \<open>providers/mock.py\<close>.  The contract is what the collector relies on: connecting
  keeps the subscriptions, subscribing to valid symbols adds them whatever else fails, and health tells
  whether the adapter is connected.

  The lemmas on the mock show that every event it builds passes the market validation and that its
  sequence numbers are consecutive when no gaps or reordering are configured.
\<close>

section \<open>The contract\<close>

datatype provider_state = DISCONNECTED | CONNECTING | CONNECTED | DEGRADED

record provider_health =
  ph_state :: provider_state
  ph_message :: "string option"

text \<open>
  The operations of an adapter over a state; \<open>'c\<close> stands for what the network does during a call.
\<close>

record ('c, 's) provider_ops =
  p_name :: string
  p_connect :: "'c \<Rightarrow> 's \<Rightarrow> unit result \<times> 's"
  p_disconnect :: "'s \<Rightarrow> 's"
  p_subscribe :: "'c \<Rightarrow> string list \<Rightarrow> 's \<Rightarrow> unit result \<times> 's"
  p_unsubscribe :: "'c \<Rightarrow> string list \<Rightarrow> 's \<Rightarrow> unit result \<times> 's"
  p_health :: "'s \<Rightarrow> provider_health"

definition is_connected :: "('c, 's) provider_ops \<Rightarrow> 's \<Rightarrow> bool" where
  "is_connected P s \<longleftrightarrow> ph_state (p_health P s) = CONNECTED"

locale market_provider =
  fixes P :: "('c, 's) provider_ops"
    and upstream :: "'s \<Rightarrow> string set"
    and inv :: "'s \<Rightarrow> bool"
  assumes connect_spec: "inv s \<Longrightarrow> p_connect P c s = (m, s') \<Longrightarrow>
      inv s' \<and> upstream s' = upstream s \<and> (m = Inr () \<longrightarrow> is_connected P s') \<and> (m \<noteq> Inr () \<longrightarrow> is_connected P s' \<longrightarrow> is_connected P s)"
    and disconnect_spec: "inv s \<Longrightarrow> inv (p_disconnect P s) \<and> \<not> is_connected P (p_disconnect P s)"
    and subscribe_spec: "inv s \<Longrightarrow> list_all symbol_ok xs \<Longrightarrow> p_subscribe P c xs s = (m, s') \<Longrightarrow>
      inv s' \<and> upstream s' = upstream s \<union> set xs \<and> p_health P s' = p_health P s"
    and unsubscribe_spec: "inv s \<Longrightarrow> list_all symbol_ok xs \<Longrightarrow> p_unsubscribe P c xs s = (m, s') \<Longrightarrow>
      inv s' \<and> upstream s' = upstream s - set xs \<and> p_health P s' = p_health P s"

section \<open>The mock provider\<close>

record mock_config =
  mc_interval_seconds :: rat
  mc_duplicate_every :: "int option"
  mc_fail_after_events :: "int option"
  mc_gap_every :: "int option"
  mc_out_of_order_every :: "int option"

definition every_ok :: "string \<Rightarrow> int option \<Rightarrow> unit result" where
  "every_ok name value = (case value of Some n \<Rightarrow> if n \<le> 0 then Inl (ValueError (name @ '' must be positive'')) else Inr ()
     | None \<Rightarrow> Inr ())"

definition make_mock_config :: "mock_config \<Rightarrow> mock_config result" where
  "make_mock_config c =
     (if mc_interval_seconds c \<le> 0 then Inl (ValueError ''interval_seconds must be positive'')
      else bindE (every_ok ''duplicate_every'' (mc_duplicate_every c)) (\<lambda>_.
           bindE (every_ok ''fail_after_events'' (mc_fail_after_events c)) (\<lambda>_.
           bindE (every_ok ''gap_every'' (mc_gap_every c)) (\<lambda>_.
           bindE (every_ok ''out_of_order_every'' (mc_out_of_order_every c)) (\<lambda>_. Inr c)))))"

text \<open>The state; \<open>mk_running\<close> says that the task exists and is not done.\<close>

record mock_provider =
  mk_state :: provider_state
  mk_message :: "string option"
  mk_symbols :: "string set"
  mk_sequences :: "(string, int) dict"
  mk_emitted :: int
  mk_queue :: "quote_event list"
  mk_running :: bool

definition new_mock :: mock_provider where
  "new_mock = \<lparr>mk_state = DISCONNECTED, mk_message = None, mk_symbols = {}, mk_sequences = [], mk_emitted = 0,
     mk_queue = [], mk_running = False\<rparr>"

definition mock_name :: string where
  "mock_name = ''mock-provider''"

definition mock_capabilities :: "capability set" where
  "mock_capabilities = {LEVEL1_QUOTE, VOLUME, AGGRESSOR_FLOW, TRADE_COUNT, TOP_OF_BOOK_DEPTH}"

definition mock_connect :: "mock_provider \<Rightarrow> mock_provider" where
  "mock_connect s =
     (if mk_running s then s
      else s\<lparr>mk_state := CONNECTED, mk_message := None, mk_emitted := 0, mk_running := True\<rparr>)"

definition mock_disconnect :: "mock_provider \<Rightarrow> mock_provider" where
  "mock_disconnect s = s\<lparr>mk_running := False, mk_state := DISCONNECTED, mk_message := None\<rparr>"

definition mock_normalize_symbol :: "string \<Rightarrow> string result" where
  "mock_normalize_symbol symbol =
     (let normalized = normalize symbol
      in if normalized = [] then Inl (ValueError ''symbol must not be empty'') else Inr normalized)"

definition set_default :: "'k \<Rightarrow> 'v \<Rightarrow> ('k, 'v) dict \<Rightarrow> ('k, 'v) dict" where
  "set_default k v d = (if dict_get d k = None then dict_set k v d else d)"

definition mock_subscribe :: "string list \<Rightarrow> mock_provider \<Rightarrow> unit result \<times> mock_provider" where
  "mock_subscribe symbols s =
     (case mapE mock_normalize_symbol symbols of
        Inl e \<Rightarrow> (Inl e, s)
      | Inr normalized \<Rightarrow>
          (Inr (), s\<lparr>mk_symbols := mk_symbols s \<union> set normalized,
                     mk_sequences := foldl (\<lambda>d symbol. set_default symbol 0 d) (mk_sequences s) normalized\<rparr>))"

definition mock_unsubscribe :: "string list \<Rightarrow> mock_provider \<Rightarrow> unit result \<times> mock_provider" where
  "mock_unsubscribe symbols s =
     (case mapE mock_normalize_symbol symbols of
        Inl e \<Rightarrow> (Inl e, s)
      | Inr normalized \<Rightarrow> (Inr (), s\<lparr>mk_symbols := mk_symbols s - set normalized\<rparr>))"

definition mock_health :: "mock_provider \<Rightarrow> provider_health" where
  "mock_health s = \<lparr>ph_state = mk_state s, ph_message = mk_message s\<rparr>"

text \<open>One turn of \<open>events\<close>: it ends, waits, or yields the next event.\<close>

datatype event_turn = Ended | Waiting | Yielded quote_event

definition mock_events :: "mock_provider \<Rightarrow> event_turn \<times> mock_provider" where
  "mock_events s =
     (case mk_queue s of
        [] \<Rightarrow> (if mk_running s then Waiting else Ended, s)
      | e # es \<Rightarrow> (Yielded e, s\<lparr>mk_queue := es\<rparr>))"

subsection \<open>Events\<close>

text \<open>\<open>if n and k % n == 0\<close>, where \<open>None\<close> and 0 are false.\<close>

definition divides_every :: "int option \<Rightarrow> int \<Rightarrow> bool" where
  "divides_every n k = (case n of None \<Rightarrow> False | Some m \<Rightarrow> m \<noteq> 0 \<and> k mod m = 0)"

text \<open>Rounding to the nearest integer, ties to even: \<open>round\<close> and, after scaling, \<open>quantize(Decimal("0.01"))\<close>.\<close>

definition round_even :: "rat \<Rightarrow> int" where
  "round_even x =
     (let n = floor x; d = x - of_int n
      in if d < 1 / 2 then n else if 1 / 2 < d then n + 1 else if even n then n else n + 1)"

definition quantize_cents :: "rat \<Rightarrow> rat" where
  "quantize_cents x = of_int (round_even (100 * x)) / 100"

definition symbol_seed :: "string \<Rightarrow> int" where
  "symbol_seed symbol = int (sum_list (map char_code symbol))"

definition mock_sequence :: "mock_config \<Rightarrow> int \<Rightarrow> int \<Rightarrow> int" where
  "mock_sequence cfg previous emission =
     (if divides_every (mc_gap_every cfg) emission then previous + 2 else previous + 1)"

definition mock_emitted_sequence :: "mock_config \<Rightarrow> int \<Rightarrow> int \<Rightarrow> int" where
  "mock_emitted_sequence cfg sequence emission =
     (if divides_every (mc_out_of_order_every cfg) emission \<and> 1 < sequence then sequence - 1 else sequence)"

definition mock_event_input ::
  "mock_config \<Rightarrow> (string \<Rightarrow> uuid) \<Rightarrow> datetime \<Rightarrow> string \<Rightarrow> int \<Rightarrow> int \<Rightarrow> quote_input" where
  "mock_event_input cfg uuid5 now symbol sequence emission =
     (let emitted = mock_emitted_sequence cfg sequence emission;
          seed = symbol_seed symbol;
          price = of_int (50 + seed mod 200) + of_int (sequence mod 20) / 100;
          volume = of_int (1000 + seed mod 250 + emission * 5);
          buy_share = 45 / 100 + of_int (sequence mod 4) * (5 / 100);
          buy_volume = quantize_cents (volume * buy_share)
      in \<lparr>i_schema_version = ''1.1'',
          i_event_id = uuid5 (mock_name @ '':'' @ symbol @ '':'' @ string_of_int emitted @ '':'' @ string_of_int emission),
          i_symbol = symbol, i_price = Finite price,
          i_bid = Some (Finite (price - 1 / 100)), i_ask = Some (Finite (price + 1 / 100)),
          i_provider_timestamp = now, i_received_at = now, i_sequence = Some emitted,
          i_provider = mock_name, i_capabilities = mock_capabilities,
          i_volume = Some (Finite volume), i_buy_volume = Some (Finite buy_volume),
          i_sell_volume = Some (Finite (volume - buy_volume)), i_trade_count = Some (50 + emission mod 25),
          i_bid_depth = Some (Finite (of_int (500 + seed mod 100 + sequence * 3))),
          i_ask_depth = Some (Finite (of_int (480 + seed mod 90 + sequence * 2))),
          i_volume_semantics = Some \<lparr>vs_kind = INTERVAL, vs_unit = BASE_ASSET,
            vs_window_ms = Some (max 1 (round_even (mc_interval_seconds cfg * 1000))), vs_currency = None, vs_origin = PROVIDER_AGGREGATED\<rparr>,
          i_depth_semantics = Some \<lparr>ds_unit = BASE_ASSET, ds_levels = 1, ds_currency = None, ds_origin = NATIVE\<rparr>\<rparr>)"

definition mock_next_event ::
  "mock_config \<Rightarrow> (string \<Rightarrow> uuid) \<Rightarrow> datetime \<Rightarrow> string \<Rightarrow> int \<Rightarrow> mock_provider \<Rightarrow> quote_event result \<times> mock_provider" where
  "mock_next_event cfg uuid5 now symbol emission s =
     (case dict_get (mk_sequences s) symbol of
        None \<Rightarrow> (Inl (KeyError symbol), s)
      | Some previous \<Rightarrow>
          (let sequence = mock_sequence cfg previous emission
           in (validate_quote (mock_event_input cfg uuid5 now symbol sequence emission),
               s\<lparr>mk_sequences := dict_set symbol sequence (mk_sequences s)\<rparr>)))"

definition mock_emit ::
  "mock_config \<Rightarrow> (string \<Rightarrow> uuid) \<Rightarrow> datetime \<Rightarrow> string \<Rightarrow> (mock_provider, unit) call" where
  "mock_emit cfg uuid5 now symbol s0 =
     (let s1 = s0\<lparr>mk_emitted := mk_emitted s0 + 1\<rparr>;
          (m, s2) = mock_next_event cfg uuid5 now symbol (mk_emitted s1) s1
      in case m of
           Inl e \<Rightarrow> (Inl e, s2)
         | Inr event \<Rightarrow>
             (let s3 = s2\<lparr>mk_queue := mk_queue s2 @ event #
                    (if divides_every (mc_duplicate_every cfg) (mk_emitted s2) then [event] else [])\<rparr>
              in case mc_fail_after_events cfg of
                   Some n \<Rightarrow> if n \<noteq> 0 \<and> n \<le> mk_emitted s3
                              then (Inl (ConnectionError ''simulated provider failure''), s3) else (Inr (), s3)
                 | None \<Rightarrow> (Inr (), s3)))"

text \<open>One round of \<open>_run\<close> over the subscribed symbols; an exception ends the task.\<close>

definition mock_round :: "mock_config \<Rightarrow> (string \<Rightarrow> uuid) \<Rightarrow> datetime \<Rightarrow> mock_provider \<Rightarrow> mock_provider" where
  "mock_round cfg uuid5 now s =
     snd (catchS (forS (mock_emit cfg uuid5 now) (sorted_list_of_set (mk_symbols s)))
       (\<lambda>e s. (Inr (), s\<lparr>mk_state := DEGRADED, mk_message := Some (error_text e), mk_running := False\<rparr>)) s)"

section \<open>The mock satisfies the contract\<close>

definition mock_inv :: "mock_provider \<Rightarrow> bool" where
  "mock_inv s \<longleftrightarrow> (mk_running s \<longrightarrow> mk_state s = CONNECTED) \<and> (\<forall>x \<in> mk_symbols s. dict_get (mk_sequences s) x \<noteq> None)"

lemma symbol_ok_normal: "symbol_ok x \<Longrightarrow> normalize x = x \<and> x \<noteq> []"
  by (auto simp: symbol_ok_def normalize_symbol_fix)

lemma mock_normalize_ok: "list_all symbol_ok xs \<Longrightarrow> mapE mock_normalize_symbol xs = Inr xs"
  by (induction xs) (auto simp: mock_normalize_symbol_def symbol_ok_normal)

lemma set_default_keys:
  "dict_get (foldl (\<lambda>d x. set_default x v d) d xs) y = None \<longleftrightarrow> dict_get d y = None \<and> y \<notin> set xs"
  by (induction xs arbitrary: d) (auto simp: set_default_def dict_simps)

definition mock_ops :: "('c, mock_provider) provider_ops" where
  "mock_ops = \<lparr>p_name = mock_name, p_connect = (\<lambda>_ s. (Inr (), mock_connect s)), p_disconnect = mock_disconnect,
     p_subscribe = (\<lambda>_. mock_subscribe), p_unsubscribe = (\<lambda>_. mock_unsubscribe), p_health = mock_health\<rparr>"

interpretation mock: market_provider mock_ops mk_symbols mock_inv
proof
  fix s m s' and xs :: "string list" and c :: 'a assume i: "mock_inv s"
  { assume "list_all symbol_ok xs" "p_subscribe mock_ops c xs s = (m, s')"
    then have "s' = s\<lparr>mk_symbols := mk_symbols s \<union> set xs, mk_sequences := foldl (\<lambda>d x. set_default x 0 d) (mk_sequences s) xs\<rparr>"
      by (simp add: mock_subscribe_def mock_normalize_ok mock_ops_def)
    with i show "mock_inv s' \<and> mk_symbols s' = mk_symbols s \<union> set xs \<and> p_health (mock_ops :: ('a, _) provider_ops) s' = p_health (mock_ops :: ('a, _) provider_ops) s"
      by (auto simp: mock_inv_def mock_health_def mock_ops_def set_default_keys simp del: not_None_eq) }
  { assume "list_all symbol_ok xs" "p_unsubscribe mock_ops c xs s = (m, s')"
    with i show "mock_inv s' \<and> mk_symbols s' = mk_symbols s - set xs \<and> p_health (mock_ops :: ('a, _) provider_ops) s' = p_health (mock_ops :: ('a, _) provider_ops) s"
      by (auto simp: mock_unsubscribe_def mock_normalize_ok mock_inv_def mock_health_def mock_ops_def) }
qed (auto simp: mock_inv_def mock_connect_def mock_disconnect_def mock_health_def mock_ops_def is_connected_def)

section \<open>The events of the mock\<close>

lemma round_even_cases:
  "round_even x = floor x \<and> x - of_int (floor x) \<le> 1 / 2 \<or> round_even x = floor x + 1 \<and> 1 / 2 \<le> x - of_int (floor x)"
  unfolding round_even_def Let_def by (simp only: split: if_splits) linarith

lemma round_even_bounds: "x - 1 / 2 \<le> of_int (round_even x)" "of_int (round_even x) \<le> x + 1 / 2"
proof -
  have f: "of_int (floor x) \<le> x" "x < of_int (floor x) + 1" by linarith+
  show "x - 1 / 2 \<le> of_int (round_even x)" "of_int (round_even x) \<le> x + 1 / 2"
    using round_even_cases [of x] f by (elim disjE conjE; simp only: of_int_add of_int_1; linarith)+
qed

lemma quantize_cents_bounds: "x - 1 / 200 \<le> quantize_cents x" "quantize_cents x \<le> x + 1 / 200"
  using round_even_bounds [of "100 * x"] by (simp_all add: quantize_cents_def field_simps)

lemma mock_flow:
  fixes volume :: rat
  assumes "1000 \<le> volume"
  shows "0 \<le> quantize_cents (volume * (45 / 100 + of_int (k mod 4) * (5 / 100)))"
    "quantize_cents (volume * (45 / 100 + of_int (k mod 4) * (5 / 100))) \<le> volume"
proof -
  have "0 \<le> k mod 4" "k mod 4 \<le> 3" by (auto simp: zmod_le_nonneg_dividend intro: zless_imp_add1_zle [of _ 3, simplified])
  then have k: "(0::rat) \<le> of_int (k mod 4)" "of_int (k mod 4) \<le> (3::rat)" by (simp, metis of_int_le_iff of_int_numeral)
  let ?share = "45 / 100 + of_int (k mod 4) * (5 / 100) :: rat"
  have "45 / 100 \<le> ?share" "?share \<le> 60 / 100" using k by auto
  then have "volume * (45 / 100) \<le> volume * ?share" "volume * ?share \<le> volume * (60 / 100)"
    using assms by (auto intro!: mult_left_mono)
  then show "0 \<le> quantize_cents (volume * ?share)" "quantize_cents (volume * ?share) \<le> volume"
    using quantize_cents_bounds [of "volume * ?share"] assms by linarith+
qed

lemma mock_input_valid:
  assumes "symbol_ok symbol" "is_aware now" "1 \<le> sequence" "0 \<le> emission"
  shows "validate_quote (mock_event_input cfg uuid5 now symbol sequence emission) =
    Inr (quote_of_input (mock_event_input cfg uuid5 now symbol sequence emission))"
proof -
  let ?i = "mock_event_input cfg uuid5 now symbol sequence emission"
  define seed where "seed = symbol_seed symbol"
  define price :: rat where "price = of_int (50 + seed mod 200) + of_int (sequence mod 20) / 100"
  define volume :: rat where "volume = of_int (1000 + seed mod 250 + emission * 5)"
  have "(0::int) \<le> seed mod 200" "(0::int) \<le> sequence mod 20" "(0::int) \<le> seed mod 250" by simp_all
  then have p: "50 \<le> price" and v: "1000 \<le> volume" using assms(4) unfolding price_def volume_def by auto
  have b: "0 \<le> quantize_cents (volume * (9 / 20 + of_int (sequence mod 4) / 20))"
    "quantize_cents (volume * (9 / 20 + of_int (sequence mod 4) / 20)) \<le> volume"
    using mock_flow [OF v, of sequence] by simp_all
  have d: "(0::int) \<le> 500 + seed mod 100 + sequence * 3" "(0::int) \<le> 480 + seed mod 90 + sequence * 2"
    using assms(3) by (simp_all add: add_nonneg_nonneg)
  have e: "0 \<le> mock_emitted_sequence cfg sequence emission" using assms(3) by (simp add: mock_emitted_sequence_def)
  have sv: "schema_version_ok ''1.1''" "schema_minor_text ''1.1'' = ''1''" "nat_of_digits ''1'' = 1" by code_simp+
  have ok: "symbol_ok (normalize symbol)" using assms(1) symbol_ok_normal by simp
  have "quote_field_errors ?i = []"
    unfolding quote_field_errors_Nil using p v b d e ok assms(2) sv(1)
    by (simp add: mock_event_input_def Let_def seed_def [symmetric] price_def [symmetric] volume_def [symmetric] less_max_iff_disj
        mock_name_def validate_volume_semantics_def validate_depth_semantics_def vs_normalize_currency_def ds_normalize_currency_def
        vs_field_errors_def ds_field_errors_def vs_validate_semantics_def ds_validate_semantics_def flip: of_int_add of_int_mult)
  moreover have "market_ok (quote_of_input ?i)"
    using sv by (simp add: market_ok_def quote_of_input_def mock_event_input_def Let_def mock_capabilities_def ds_normalize_currency_def)
  ultimately show ?thesis by (simp add: validate_quote_iff)
qed

lemma mock_emit_effect:
  assumes "symbol_ok symbol" "is_aware now" "dict_get (mk_sequences s) symbol = Some n" "0 \<le> n" "0 \<le> mk_emitted s"
    and fail: "mc_fail_after_events cfg = None"
  shows "\<exists>e dup. mock_emit cfg uuid5 now symbol s =
      (Inr (), s\<lparr>mk_emitted := mk_emitted s + 1, mk_sequences := dict_set symbol (mock_sequence cfg n (mk_emitted s + 1)) (mk_sequences s),
         mk_queue := mk_queue s @ e # (if dup then [e] else [])\<rparr>) \<and>
    quote_fields_ok e \<and> market_ok e \<and> q_symbol e = symbol \<and> q_provider e = mock_name \<and>
    q_sequence e = Some (mock_emitted_sequence cfg (mock_sequence cfg n (mk_emitted s + 1)) (mk_emitted s + 1)) \<and>
    dup = divides_every (mc_duplicate_every cfg) (mk_emitted s + 1)"
proof -
  let ?i = "mock_event_input cfg uuid5 now symbol (mock_sequence cfg n (mk_emitted s + 1)) (mk_emitted s + 1)"
  have v: "validate_quote ?i = Inr (quote_of_input ?i)"
    using assms(1,2,4,5) by (intro mock_input_valid) (simp_all add: mock_sequence_def)
  then have "quote_fields_ok (quote_of_input ?i)" "market_ok (quote_of_input ?i)"
    by (auto simp: validate_quote_iff intro: quote_of_input_fields_ok)
  moreover have "q_symbol (quote_of_input ?i) = symbol" "q_provider (quote_of_input ?i) = mock_name"
    "q_sequence (quote_of_input ?i) = Some (mock_emitted_sequence cfg (mock_sequence cfg n (mk_emitted s + 1)) (mk_emitted s + 1))"
    using symbol_ok_normal [OF assms(1)] by (simp_all add: quote_of_input_def mock_event_input_def Let_def)
  moreover have "mock_emit cfg uuid5 now symbol s =
      (Inr (), s\<lparr>mk_emitted := mk_emitted s + 1, mk_sequences := dict_set symbol (mock_sequence cfg n (mk_emitted s + 1)) (mk_sequences s),
         mk_queue := mk_queue s @ quote_of_input ?i #
           (if divides_every (mc_duplicate_every cfg) (mk_emitted s + 1) then [quote_of_input ?i] else [])\<rparr>)"
    using v assms(3) fail by (simp add: mock_emit_def mock_next_event_def Let_def)
  ultimately show ?thesis by blast
qed

section \<open>Properties\<close>

text \<open>Every event the mock provider builds for a subscribed valid symbol passes the market validation,
  carries the symbol and a sequence number that follows the previous one (skipping one when a gap is
  configured), and is queued once, or twice when a duplicate is configured; nothing else changes.\<close>

theorem mock_emits_valid_quotes:
  assumes "symbol_ok symbol" "is_aware now" "dict_get (mk_sequences s) symbol = Some n" "0 \<le> n" "0 \<le> mk_emitted s"
    "mc_fail_after_events cfg = None"
  shows "\<exists>e dup. mock_emit cfg uuid5 now symbol s =
      (Inr (), s\<lparr>mk_emitted := mk_emitted s + 1, mk_sequences := dict_set symbol (mock_sequence cfg n (mk_emitted s + 1)) (mk_sequences s),
         mk_queue := mk_queue s @ e # (if dup then [e] else [])\<rparr>) \<and>
    quote_fields_ok e \<and> market_ok e \<and> q_symbol e = symbol \<and> q_provider e = mock_name \<and>
    q_sequence e = Some (mock_emitted_sequence cfg (mock_sequence cfg n (mk_emitted s + 1)) (mk_emitted s + 1)) \<and>
    dup = divides_every (mc_duplicate_every cfg) (mk_emitted s + 1)"
  using assms by (rule mock_emit_effect)

section \<open>Witnesses\<close>

definition sample_mock_config :: mock_config where
  "sample_mock_config = \<lparr>mc_interval_seconds = 1 / 4, mc_duplicate_every = None, mc_fail_after_events = None,
     mc_gap_every = None, mc_out_of_order_every = None\<rparr>"

definition sample_mock :: mock_provider where
  "sample_mock = snd (mock_subscribe [''AAPL''] (mock_connect new_mock))"

lemma sample_mock_sequence: "dict_get (mk_sequences sample_mock) ''AAPL'' = Some 0" "mk_emitted sample_mock = 0"
  by code_simp+

theorem mock_emits_valid_quotes_witness:
  "\<exists>e s'. mock_emit sample_mock_config (\<lambda>_. 7) (utc_datetime 1) ''AAPL'' sample_mock = (Inr (), s') \<and> market_ok e \<and> mk_queue s' = [e]"
proof -
  have "symbol_ok ''AAPL''" by code_simp
  moreover have "mk_queue sample_mock = []" by code_simp
  ultimately show ?thesis
    using mock_emits_valid_quotes [of "''AAPL''" "utc_datetime 1" sample_mock 0 sample_mock_config "\<lambda>_. 7"] sample_mock_sequence
    by (auto simp: sample_mock_config_def divides_every_def)
qed

end
