(* ===== verification/Coinbase.thy ===== *)
theory Coinbase
  imports Providers Json
begin

text \<open>
  The research adapter for Coinbase Advanced Trade, \<open>providers/coinbase.py\<close>: the fail-closed
  configuration, the session diagnostics, the projector from WebSocket messages to quote events, and the
  provider with its subscription acknowledgements and reader.  The WebSocket library, \<open>uuid5\<close> and
  \<open>datetime.fromisoformat\<close> are arguments: outcomes of sends and of the connection attempt, \<open>uuid5\<close> of a name
  and \<open>fromiso\<close> of a text.  Decimal addition is exact.

  A call of the projector maps its state to an outcome and the state it leaves, also when it raises.  The
  queue holds what was put and not yet yielded, the event on which a full queue makes the reader wait included.

  The lemmas show what a projected event says about its trades, that the usage guard is exact, and that the
  adapter satisfies the provider contract; two others record that a not-a-number in a message ends the reader
  and that a one-sided book makes every trade of the symbol be rejected.
\<close>

section \<open>Configuration\<close>

record coinbase_config =
  cc_url :: string
  cc_use_mode :: string
  cc_terms_accepted :: bool
  cc_environment :: string
  cc_queue_size :: int
  cc_idle_timeout :: rat

definition make_coinbase_config :: "coinbase_config \<Rightarrow> coinbase_config result" where
  "make_coinbase_config c =
     (if take 6 (cc_url c) \<noteq> ''wss://'' \<and> take 5 (cc_url c) \<noteq> ''ws://''
      then Inl (ValueError ''Coinbase WebSocket URL must use ws:// or wss://'')
      else if cc_queue_size c \<le> 0 then Inl (ValueError ''queue_size must be positive'')
      else if cc_idle_timeout c \<le> 0 then Inl (ValueError ''message_idle_timeout_seconds must be positive'')
      else Inr c)"

definition validate_usage :: "coinbase_config \<Rightarrow> unit result" where
  "validate_usage c =
     (if cc_use_mode c \<noteq> ''personal_research''
      then Inl (CoinbaseUsageError ''Coinbase provider requires use_mode=personal_research'')
      else if \<not> cc_terms_accepted c
      then Inl (CoinbaseUsageError ''Coinbase Market Data Terms must be acknowledged explicitly'')
      else if py_lower (py_strip (cc_environment c)) = ''production''
      then Inl (CoinbaseUsageError ''Coinbase public market data integration is disabled in production'')
      else Inr ())"

section \<open>Diagnostics\<close>

text \<open>\<open>type(exc).__name__\<close>; a validator that raises inside a model gives a \<open>ValidationError\<close>.\<close>

fun error_type :: "error \<Rightarrow> string" where
  "error_type (ValueError _) = ''ValidationError''"
| "error_type (FieldErrors _) = ''ValidationError''"
| "error_type (KeyError _) = ''KeyError''"
| "error_type (TypeError _) = ''TypeError''"
| "error_type (CoinbaseProtocolError _) = ''CoinbaseProtocolError''"
| "error_type (CoinbaseUsageError _) = ''CoinbaseUsageError''"
| "error_type InvalidOperation = ''InvalidOperation''"
| "error_type (ConnectionError _) = ''ConnectionError''"
| "error_type (OSError _) = ''OSError''"
| "error_type (RuntimeError _) = ''RuntimeError''"
| "error_type (AuthenticationError _) = ''AuthenticationError''"
| "error_type (AuthorizationError _) = ''AuthorizationError''"
| "error_type (LedgerIntegrityError _) = ''LedgerIntegrityError''"
| "error_type (RedisError _) = ''RedisError''"
| "error_type (PostgresError _) = ''PostgresError''"
| "error_type (AttributeError _) = ''AttributeError''"
| "error_type (HTTPException _ _) = ''HTTPException''"
| "error_type (OverflowError _) = ''OverflowError''"

definition failure_code :: "string \<Rightarrow> error \<Rightarrow> string" where
  "failure_code ctxt e = ctxt @ '':'' @ error_type e"

record diagnostics =
  dg_raw_total :: nat
  dg_raw_by_channel :: "(string, nat) dict"
  dg_projected_total :: nat
  dg_rejected_total :: nat
  dg_rejected_by_type :: "(string, nat) dict"
  dg_high_water :: nat
  dg_first_message_at :: "instant option"
  dg_last_message_at :: "instant option"
  dg_max_raw_gap :: rat
  dg_max_event_gap :: rat
  dg_acknowledgements :: "(string, nat) dict"
  dg_reader_final_state :: string
  dg_reader_final_error :: "string option"
  dg_provider_state :: string
  dg_provider_message :: "string option"
  dg_last_raw :: "rat option"
  dg_last_event :: "rat option"

definition fresh_diagnostics :: diagnostics where
  "fresh_diagnostics =
     \<lparr>dg_raw_total = 0, dg_raw_by_channel = [], dg_projected_total = 0, dg_rejected_total = 0, dg_rejected_by_type = [],
      dg_high_water = 0, dg_first_message_at = None, dg_last_message_at = None, dg_max_raw_gap = 0, dg_max_event_gap = 0,
      dg_acknowledgements = [], dg_reader_final_state = ''never_started'', dg_reader_final_error = None,
      dg_provider_state = ''disconnected'', dg_provider_message = None, dg_last_raw = None, dg_last_event = None\<rparr>"

definition bump :: "string \<Rightarrow> (string, nat) dict \<Rightarrow> (string, nat) dict" where
  "bump k d = dict_set k (dict_get_default d k 0 + 1) d"

text \<open>The largest gap so far, with a new reading of the monotonic clock.\<close>

definition widest :: "rat option \<Rightarrow> rat \<Rightarrow> rat \<Rightarrow> rat" where
  "widest previous now gap = (case previous of None \<Rightarrow> gap | Some t \<Rightarrow> if gap < now - t then now - t else gap)"

definition record_raw_message :: "rat \<Rightarrow> instant \<Rightarrow> string \<Rightarrow> diagnostics \<Rightarrow> diagnostics" where
  "record_raw_message now now_utc channel d =
     d\<lparr>dg_raw_total := dg_raw_total d + 1, dg_raw_by_channel := bump channel (dg_raw_by_channel d),
       dg_first_message_at := (case dg_first_message_at d of None \<Rightarrow> Some now_utc | Some t \<Rightarrow> Some t),
       dg_last_message_at := Some now_utc, dg_max_raw_gap := widest (dg_last_raw d) now (dg_max_raw_gap d),
       dg_last_raw := Some now\<rparr>"

definition record_projected_event :: "rat \<Rightarrow> diagnostics \<Rightarrow> diagnostics" where
  "record_projected_event now d =
     d\<lparr>dg_projected_total := dg_projected_total d + 1, dg_max_event_gap := widest (dg_last_event d) now (dg_max_event_gap d),
       dg_last_event := Some now\<rparr>"

definition record_rejected :: "string \<Rightarrow> diagnostics \<Rightarrow> diagnostics" where
  "record_rejected name d =
     d\<lparr>dg_rejected_total := dg_rejected_total d + 1, dg_rejected_by_type := bump name (dg_rejected_by_type d)\<rparr>"

definition record_queue_depth :: "nat \<Rightarrow> diagnostics \<Rightarrow> diagnostics" where
  "record_queue_depth depth d = (if dg_high_water d < depth then d\<lparr>dg_high_water := depth\<rparr> else d)"

definition record_acknowledgement :: "string \<Rightarrow> diagnostics \<Rightarrow> diagnostics" where
  "record_acknowledgement channel d = d\<lparr>dg_acknowledgements := bump channel (dg_acknowledgements d)\<rparr>"

definition finalize_reader :: "string \<Rightarrow> string option \<Rightarrow> diagnostics \<Rightarrow> diagnostics" where
  "finalize_reader st err d = d\<lparr>dg_reader_final_state := st, dg_reader_final_error := err\<rparr>"

section \<open>Reading a message\<close>

abbreviation protocol_error :: "string \<Rightarrow> error" where
  "protocol_error \<equiv> CoinbaseProtocolError"

fun objects :: "json list \<Rightarrow> (string \<times> json) list list option" where
  "objects [] = Some []"
| "objects (JObj kvs # xs) = map_option ((#) kvs) (objects xs)"
| "objects (_ # xs) = None"

definition mapping_sequence :: "json \<Rightarrow> string \<Rightarrow> (string \<times> json) list list result" where
  "mapping_sequence value fld =
     (case value of
        JArr xs \<Rightarrow> (case objects xs of None \<Rightarrow> Inl (protocol_error (fld @ '' items must be objects'')) | Some os \<Rightarrow> Inr os)
      | _ \<Rightarrow> Inl (protocol_error (fld @ '' must be an array'')))"

definition symbol_of :: "json \<Rightarrow> string result" where
  "symbol_of value =
     (let symbol = normalize (if py_truth value then py_str value else []) in
      if symbol = [] then Inl (protocol_error ''product_id must not be empty'')
      else if \<not> list_all symbol_char symbol then Inl (protocol_error ''product_id contains unsupported characters'')
      else Inr symbol)"

definition replace_z :: "string \<Rightarrow> string" where
  "replace_z s = concat (map (\<lambda>c. if c = CHR ''Z'' then ''+00:00'' else [c]) s)"

definition timestamp_of :: "(string \<Rightarrow> datetime option) \<Rightarrow> json \<Rightarrow> string \<Rightarrow> datetime result" where
  "timestamp_of fromiso value fld =
     (if value = JNull then Inl (protocol_error (fld @ '' is required''))
      else case fromiso (replace_z (py_str value)) of
        None \<Rightarrow> Inl (protocol_error (fld @ '' must be ISO-8601''))
      | Some parsed \<Rightarrow> if \<not> is_aware parsed then Inl (protocol_error (fld @ '' must include timezone information'')) else Inr parsed)"

definition decimal_of :: "json \<Rightarrow> string \<Rightarrow> decimal result" where
  "decimal_of value fld =
     (case parse_decimal (py_str value) of None \<Rightarrow> Inl (protocol_error (fld @ '' must be numeric'')) | Some d \<Rightarrow> Inr d)"

text \<open>Comparing a not-a-number with \<open><\<close> or \<open><=\<close> raises \<open>InvalidOperation\<close>.\<close>

definition positive_decimal_of :: "json \<Rightarrow> string \<Rightarrow> decimal result" where
  "positive_decimal_of value fld =
     bindE (decimal_of value fld) (\<lambda>number.
       case number of
         NaN \<Rightarrow> Inl InvalidOperation
       | Finite x \<Rightarrow> if x \<le> 0 then Inl (protocol_error (fld @ '' must be greater than zero'')) else Inr number
       | Infinite neg \<Rightarrow> if neg then Inl (protocol_error (fld @ '' must be greater than zero'')) else Inr number)"

definition non_negative_decimal_of :: "json \<Rightarrow> string \<Rightarrow> decimal result" where
  "non_negative_decimal_of value fld =
     bindE (decimal_of value fld) (\<lambda>number.
       case number of
         NaN \<Rightarrow> Inl InvalidOperation
       | Finite x \<Rightarrow> if x < 0 then Inl (protocol_error (fld @ '' must not be negative'')) else Inr number
       | Infinite neg \<Rightarrow> if neg then Inl (protocol_error (fld @ '' must not be negative'')) else Inr number)"

definition absent :: "json \<Rightarrow> bool" where
  "absent value \<longleftrightarrow> value = JNull \<or> value = JStr []"

definition optional_positive :: "json \<Rightarrow> string \<Rightarrow> decimal option result" where
  "optional_positive value fld =
     (if absent value then Inr None else bindE (positive_decimal_of value fld) (\<lambda>d. Inr (Some d)))"

definition optional_non_negative :: "json \<Rightarrow> string \<Rightarrow> decimal option result" where
  "optional_non_negative value fld =
     (if absent value then Inr None else bindE (non_negative_decimal_of value fld) (\<lambda>d. Inr (Some d)))"

text \<open>Addition of decimals.\<close>

fun decimal_add :: "decimal \<Rightarrow> decimal \<Rightarrow> decimal result" where
  "decimal_add (Finite x) (Finite y) = Inr (Finite (x + y))"
| "decimal_add NaN _ = Inr NaN"
| "decimal_add _ NaN = Inr NaN"
| "decimal_add (Infinite a) (Infinite b) = (if a = b then Inr (Infinite a) else Inl InvalidOperation)"
| "decimal_add (Infinite a) (Finite _) = Inr (Infinite a)"
| "decimal_add (Finite _) (Infinite b) = Inr (Infinite b)"

section \<open>The projector\<close>

record ticker_state =
  ts_price :: decimal
  ts_bid :: "decimal option"
  ts_ask :: "decimal option"
  ts_bid_quantity :: "decimal option"
  ts_ask_quantity :: "decimal option"
  ts_provider_timestamp :: datetime

record projector =
  pj_tickers :: "(string, ticker_state) dict"
  pj_sequences :: "(string, int) dict"

definition new_projector :: projector where
  "new_projector = \<lparr>pj_tickers = [], pj_sequences = []\<rparr>"

definition clear_connection_state :: "projector \<Rightarrow> projector" where
  "clear_connection_state p = p\<lparr>pj_tickers := []\<rparr>"

definition ticker_of :: "datetime \<Rightarrow> (string \<times> json) list \<Rightarrow> ticker_state result" where
  "ticker_of message_timestamp ticker =
     bindE (positive_decimal_of (jget ticker ''price'') ''price'') (\<lambda>price.
     bindE (optional_positive (jget ticker ''best_bid'') ''best_bid'') (\<lambda>bid.
     bindE (optional_positive (jget ticker ''best_ask'') ''best_ask'') (\<lambda>ask.
     bindE (optional_non_negative (jget ticker ''best_bid_quantity'') ''best_bid_quantity'') (\<lambda>bq.
     bindE (optional_non_negative (jget ticker ''best_ask_quantity'') ''best_ask_quantity'') (\<lambda>aq.
       Inr \<lparr>ts_price = price, ts_bid = bid, ts_ask = ask, ts_bid_quantity = bq, ts_ask_quantity = aq,
            ts_provider_timestamp = message_timestamp\<rparr>)))))"

definition apply_one_ticker :: "datetime \<Rightarrow> (string \<times> json) list \<Rightarrow> (projector, unit) call" where
  "apply_one_ticker message_timestamp ticker =
     bindS (liftS (symbol_of (jget ticker ''product_id''))) (\<lambda>symbol.
     bindS (liftS (ticker_of message_timestamp ticker)) (\<lambda>st p.
       (Inr (), p\<lparr>pj_tickers := dict_set symbol st (pj_tickers p)\<rparr>)))"

definition apply_ticker :: "(string \<Rightarrow> datetime option) \<Rightarrow> (string \<times> json) list \<Rightarrow> (projector, unit) call" where
  "apply_ticker fromiso payload =
     bindS (liftS (timestamp_of fromiso (jget payload ''timestamp'') ''timestamp'')) (\<lambda>message_timestamp.
     bindS (liftS (mapping_sequence (jget payload ''events'') ''events'')) (\<lambda>evs.
       forS (\<lambda>event. bindS (liftS (mapping_sequence (jget event ''tickers'') ''tickers''))
         (forS (apply_one_ticker message_timestamp))) evs))"

text \<open>The accumulators of the loop over the trades of one symbol.\<close>

record flow =
  fl_total :: decimal
  fl_buy :: decimal
  fl_sell :: decimal
  fl_ids :: "string list"
  fl_price :: "decimal option"
  fl_timestamp :: datetime

definition text_of :: "(string \<times> json) list \<Rightarrow> string \<Rightarrow> string" where
  "text_of d k = (case dict_get d k of None \<Rightarrow> [] | Some v \<Rightarrow> py_str v)"

definition add_trade :: "(string \<Rightarrow> datetime option) \<Rightarrow> flow \<Rightarrow> (string \<times> json) list \<Rightarrow> flow result" where
  "add_trade fromiso f trade =
     bindE (non_negative_decimal_of (jget trade ''size'') ''size'') (\<lambda>sz.
     bindE (positive_decimal_of (jget trade ''price'') ''price'') (\<lambda>price.
     let maker_side = normalize (text_of trade ''side'') in
     bindE (if maker_side = ''SELL'' then bindE (decimal_add (fl_buy f) sz) (\<lambda>b. Inr (f\<lparr>fl_buy := b\<rparr>))
            else if maker_side = ''BUY'' then bindE (decimal_add (fl_sell f) sz) (\<lambda>s. Inr (f\<lparr>fl_sell := s\<rparr>))
            else Inl (protocol_error ''trade side must be BUY or SELL'')) (\<lambda>f1.
     let trade_id = py_strip (text_of trade ''trade_id'') in
     if trade_id = [] then Inl (protocol_error ''trade_id must not be empty'')
     else bindE (decimal_add (fl_total f1) sz) (\<lambda>total.
       let f2 = f1\<lparr>fl_ids := fl_ids f1 @ [trade_id], fl_total := total, fl_price := Some price\<rparr> in
       if jget trade ''time'' = JNull then Inr f2
       else bindE (timestamp_of fromiso (jget trade ''time'') ''trade.time'') (\<lambda>t.
         Inr (if dt_us (fl_timestamp f2) < dt_us t then f2\<lparr>fl_timestamp := t\<rparr> else f2))))))"

fun add_trades :: "(string \<Rightarrow> datetime option) \<Rightarrow> flow \<Rightarrow> (string \<times> json) list list \<Rightarrow> flow result" where
  "add_trades fromiso f [] = Inr f"
| "add_trades fromiso f (t # ts) = bindE (add_trade fromiso f t) (\<lambda>f'. add_trades fromiso f' ts)"

definition empty_flow :: "datetime \<Rightarrow> flow" where
  "empty_flow t = \<lparr>fl_total = Finite 0, fl_buy = Finite 0, fl_sell = Finite 0, fl_ids = [], fl_price = None, fl_timestamp = t\<rparr>"

definition coinbase_name :: string where
  "coinbase_name = ''coinbase-advanced-trade''"

definition base_capabilities :: "capability set" where
  "base_capabilities = {LEVEL1_QUOTE, VOLUME, AGGRESSOR_FLOW, TRADE_COUNT}"

definition trade_event_input ::
  "(string \<Rightarrow> uuid) \<Rightarrow> ticker_state option \<Rightarrow> string \<Rightarrow> flow \<Rightarrow> decimal \<Rightarrow> nat \<Rightarrow> int \<Rightarrow> datetime \<Rightarrow> quote_input" where
  "trade_event_input uuid5 ticker symbol f price count sequence received_at =
     (let bid_depth = Option.bind ticker ts_bid_quantity; ask_depth = Option.bind ticker ts_ask_quantity;
          depth = (bid_depth \<noteq> None \<and> ask_depth \<noteq> None)
      in \<lparr>i_schema_version = ''1.1'',
          i_event_id = uuid5 (join '':'' [coinbase_name, symbol, join '','' (fl_ids f)]),
          i_symbol = symbol, i_price = price, i_bid = Option.bind ticker ts_bid, i_ask = Option.bind ticker ts_ask,
          i_provider_timestamp = fl_timestamp f, i_received_at = received_at, i_sequence = Some sequence,
          i_provider = coinbase_name,
          i_capabilities = (if depth then insert TOP_OF_BOOK_DEPTH base_capabilities else base_capabilities),
          i_volume = Some (fl_total f), i_buy_volume = Some (fl_buy f), i_sell_volume = Some (fl_sell f),
          i_trade_count = Some (int count), i_bid_depth = bid_depth, i_ask_depth = ask_depth,
          i_volume_semantics = Some \<lparr>vs_kind = INTERVAL, vs_unit = BASE_ASSET, vs_window_ms = Some 250, vs_currency = None,
            vs_origin = GATEWAY_DERIVED\<rparr>,
          i_depth_semantics = (if depth then Some \<lparr>ds_unit = BASE_ASSET, ds_levels = 1, ds_currency = None, ds_origin = NATIVE\<rparr>
            else None)\<rparr>)"

text \<open>\<open>_build_quote_event\<close>: the local sequence advances before the event is validated.\<close>

definition build_quote_event ::
  "(string \<Rightarrow> datetime option) \<Rightarrow> (string \<Rightarrow> uuid) \<Rightarrow> datetime \<Rightarrow> datetime \<Rightarrow> string \<Rightarrow> (string \<times> json) list list \<Rightarrow>
   (projector, quote_event) call" where
  "build_quote_event fromiso uuid5 message_timestamp received_at symbol trades p =
     (case add_trades fromiso (empty_flow message_timestamp) trades of
        Inl e \<Rightarrow> (Inl e, p)
      | Inr f \<Rightarrow>
          (case fl_price f of
             None \<Rightarrow> (Inl (protocol_error ''market_trades event contains no trades''), p)
           | Some price \<Rightarrow>
               (let sequence = dict_get_default (pj_sequences p) symbol 0 + 1
                in (validate_quote (trade_event_input uuid5 (dict_get (pj_tickers p) symbol) symbol f price (length trades)
                      sequence received_at),
                    p\<lparr>pj_sequences := dict_set symbol sequence (pj_sequences p)\<rparr>))))"

text \<open>\<open>defaultdict(list)\<close> of the trades, appended in order.\<close>

definition group_trade ::
  "(string, (string \<times> json) list list) dict \<Rightarrow> (string \<times> json) list \<Rightarrow> (string, (string \<times> json) list list) dict result" where
  "group_trade d trade =
     bindE (symbol_of (jget trade ''product_id'')) (\<lambda>symbol. Inr (dict_set symbol (dict_get_default d symbol [] @ [trade]) d))"

fun group_trades ::
  "(string, (string \<times> json) list list) dict \<Rightarrow> (string \<times> json) list list \<Rightarrow> (string, (string \<times> json) list list) dict result" where
  "group_trades d [] = Inr d"
| "group_trades d (t # ts) = bindE (group_trade d t) (\<lambda>d'. group_trades d' ts)"

fun group_events ::
  "(string, (string \<times> json) list list) dict \<Rightarrow> (string \<times> json) list list \<Rightarrow> (string, (string \<times> json) list list) dict result" where
  "group_events d [] = Inr d"
| "group_events d (event # es) =
     bindE (mapping_sequence (jget event ''trades'') ''trades'') (\<lambda>ts. bindE (group_trades d ts) (\<lambda>d'. group_events d' es))"

fun build_all ::
  "(string \<Rightarrow> datetime option) \<Rightarrow> (string \<Rightarrow> uuid) \<Rightarrow> datetime \<Rightarrow> datetime \<Rightarrow> (string \<times> (string \<times> json) list list) list \<Rightarrow>
   (projector, quote_event list) call" where
  "build_all fromiso uuid5 mt rt [] = returnS []"
| "build_all fromiso uuid5 mt rt ((symbol, trades) # rest) =
     (if trades = [] then build_all fromiso uuid5 mt rt rest
      else bindS (build_quote_event fromiso uuid5 mt rt symbol trades) (\<lambda>e.
           bindS (build_all fromiso uuid5 mt rt rest) (\<lambda>es. returnS (e # es))))"

definition project_trades ::
  "(string \<Rightarrow> datetime option) \<Rightarrow> (string \<Rightarrow> uuid) \<Rightarrow> datetime \<Rightarrow> (string \<times> json) list \<Rightarrow> (projector, quote_event list) call" where
  "project_trades fromiso uuid5 received_at payload =
     bindS (liftS (timestamp_of fromiso (jget payload ''timestamp'') ''timestamp'')) (\<lambda>message_timestamp.
     bindS (liftS (bindE (mapping_sequence (jget payload ''events'') ''events'') (group_events []))) (\<lambda>by_symbol.
       build_all fromiso uuid5 message_timestamp received_at (sort_key fst by_symbol)))"

definition projector_apply ::
  "(string \<Rightarrow> datetime option) \<Rightarrow> (string \<Rightarrow> uuid) \<Rightarrow> datetime \<Rightarrow> (string \<times> json) list \<Rightarrow> (projector, quote_event list) call" where
  "projector_apply fromiso uuid5 received_at payload =
     (let channel = text_of payload ''channel'' in
      if channel = ''ticker'' then bindS (apply_ticker fromiso payload) (\<lambda>_. returnS [])
      else if channel = ''market_trades'' then project_trades fromiso uuid5 received_at payload
      else returnS [])"

section \<open>The provider\<close>

definition required_channels :: "string list" where
  "required_channels = [''heartbeats'', ''ticker'', ''market_trades'']"

text \<open>
  \<open>cb_connected\<close> says that there is a connection object, \<open>cb_running\<close> that the reader task exists and is
  not done, \<open>cb_all_acknowledged\<close> is the event that \<open>subscribe\<close> waits for.
\<close>

record coinbase =
  cb_state :: provider_state
  cb_message :: "string option"
  cb_symbols :: "string set"
  cb_queue :: "quote_event list"
  cb_projector :: projector
  cb_connected :: bool
  cb_running :: bool
  cb_heartbeats_subscribed :: bool
  cb_acknowledged :: "string set"
  cb_all_acknowledged :: bool
  cb_diagnostics :: diagnostics
  cb_sent :: "json list"

definition new_coinbase :: coinbase where
  "new_coinbase =
     \<lparr>cb_state = DISCONNECTED, cb_message = None, cb_symbols = {}, cb_queue = [], cb_projector = new_projector,
      cb_connected = False, cb_running = False, cb_heartbeats_subscribed = False, cb_acknowledged = {},
      cb_all_acknowledged = False, cb_diagnostics = fresh_diagnostics, cb_sent = []\<rparr>"

fun state_name :: "provider_state \<Rightarrow> string" where
  "state_name DISCONNECTED = ''disconnected''"
| "state_name CONNECTING = ''connecting''"
| "state_name CONNECTED = ''connected''"
| "state_name DEGRADED = ''degraded''"

definition sync_ack_event :: "coinbase \<Rightarrow> coinbase" where
  "sync_ack_event s = s\<lparr>cb_all_acknowledged := list_all (\<lambda>c. c \<in> cb_acknowledged s) required_channels\<rparr>"

definition sync_diagnostics :: "coinbase \<Rightarrow> coinbase" where
  "sync_diagnostics s = s\<lparr>cb_diagnostics := (cb_diagnostics s)\<lparr>dg_provider_state := state_name (cb_state s),
     dg_provider_message := cb_message s\<rparr>\<rparr>"

definition coinbase_connect :: "coinbase_config \<Rightarrow> error option \<Rightarrow> coinbase \<Rightarrow> unit result \<times> coinbase" where
  "coinbase_connect cfg fault s =
     (case validate_usage cfg of
        Inl e \<Rightarrow> (Inl e, s)
      | Inr _ \<Rightarrow>
          if cb_running s then (Inr (), s)
          else let s1 = sync_diagnostics (s\<lparr>cb_diagnostics := fresh_diagnostics, cb_state := CONNECTING, cb_message := None\<rparr>);
                   s2 = sync_ack_event (s1\<lparr>cb_projector := clear_connection_state (cb_projector s1), cb_acknowledged := {}\<rparr>)
               in case fault of
                    Some e \<Rightarrow> (Inl e, sync_diagnostics (s2\<lparr>cb_state := DEGRADED, cb_message := Some (failure_code ''connection_failed'' e)\<rparr>))
                  | None \<Rightarrow> (Inr (), (sync_diagnostics (s2\<lparr>cb_connected := True, cb_running := True, cb_state := CONNECTED\<rparr>))
                              \<lparr>cb_heartbeats_subscribed := False\<rparr>))"

text \<open>The cancelled reader records its end.\<close>

definition coinbase_disconnect :: "coinbase \<Rightarrow> coinbase" where
  "coinbase_disconnect s =
     (let s1 = sync_diagnostics (sync_ack_event (s\<lparr>cb_running := False, cb_connected := False, cb_symbols := {}, cb_state := DISCONNECTED,
            cb_message := None, cb_heartbeats_subscribed := False, cb_acknowledged := {}\<rparr>))
      in if cb_running s then s1\<lparr>cb_diagnostics := finalize_reader ''cancelled'' None (cb_diagnostics s1)\<rparr> else s1)"

text \<open>The JSON object of a subscription message, keys sorted.\<close>

definition subscription_message :: "string \<Rightarrow> string \<Rightarrow> string list \<Rightarrow> json" where
  "subscription_message action channel symbols =
     JObj ([(''channel'', JStr channel)] @ (if symbols \<noteq> [] then [(''product_ids'', JArr (map JStr symbols))] else []) @
           [(''type'', JStr action)])"

definition require_connection :: "(coinbase, unit) call" where
  "require_connection s = (if cb_connected s then (Inr (), s) else (Inl (ConnectionError ''Coinbase provider is not connected''), s))"

text \<open>\<open>connection.send\<close>; \<open>faults\<close> says for each message whether sending it raises.\<close>

definition send :: "(json \<Rightarrow> error option) \<Rightarrow> json \<Rightarrow> (coinbase, unit) call" where
  "send faults m = callS (faults m) (\<lambda>s. (Inr (), s\<lparr>cb_sent := cb_sent s @ [m]\<rparr>))"

text \<open>
  \<open>subscribe\<close> up to the wait for the acknowledgements, after which it returns; the caller is still
  waiting while \<open>cb_all_acknowledged\<close> is false and a channel was missing.
\<close>

definition coinbase_subscribe :: "(json \<Rightarrow> error option) \<Rightarrow> string list \<Rightarrow> (coinbase, unit) call" where
  "coinbase_subscribe faults symbols s =
     (case mapE (\<lambda>x. symbol_of (JStr x)) symbols of
        Inl e \<Rightarrow> (Inl e, s)
      | Inr normalized \<Rightarrow>
          (let new_symbols = sorted_list_of_set (set normalized - cb_symbols s);
               missing = filter (\<lambda>c. c \<notin> cb_acknowledged s) required_channels;
               s1 = s\<lparr>cb_symbols := cb_symbols s \<union> set normalized\<rparr>
           in if new_symbols = [] \<and> missing = [] then (Inr (), s1)
              else bindS require_connection (\<lambda>_.
                   bindS (\<lambda>s. (Inr (), s\<lparr>cb_all_acknowledged := False\<rparr>)) (\<lambda>_.
                   bindS (\<lambda>s. if cb_heartbeats_subscribed s then (Inr (), s)
                              else bindS (send faults (subscription_message ''subscribe'' ''heartbeats'' []))
                                     (\<lambda>_ s. (Inr (), s\<lparr>cb_heartbeats_subscribed := True\<rparr>)) s) (\<lambda>_.
                   forS (\<lambda>channel. send faults (subscription_message ''subscribe'' channel new_symbols))
                     [''ticker'', ''market_trades'']))) s1))"

definition coinbase_unsubscribe :: "(json \<Rightarrow> error option) \<Rightarrow> string list \<Rightarrow> (coinbase, unit) call" where
  "coinbase_unsubscribe faults symbols s =
     (case mapE (\<lambda>x. symbol_of (JStr x)) symbols of
        Inl e \<Rightarrow> (Inl e, s)
      | Inr normalized \<Rightarrow>
          (let act = sorted_list_of_set (set normalized \<inter> cb_symbols s);
               s1 = s\<lparr>cb_symbols := cb_symbols s - set normalized\<rparr>
           in if act = [] then (Inr (), s1)
              else bindS require_connection (\<lambda>_.
                   forS (\<lambda>channel. bindS (send faults (subscription_message ''unsubscribe'' channel act)) (\<lambda>_ s.
                     (Inr (), sync_ack_event (s\<lparr>cb_acknowledged := cb_acknowledged s - {channel}\<rparr>))))
                     [''ticker'', ''market_trades'']) s1))"

definition coinbase_health :: "coinbase \<Rightarrow> provider_health" where
  "coinbase_health s = \<lparr>ph_state = cb_state s, ph_message = cb_message s\<rparr>"

definition coinbase_events :: "coinbase \<Rightarrow> event_turn \<times> coinbase" where
  "coinbase_events s =
     (case cb_queue s of
        [] \<Rightarrow> (if cb_running s then Waiting else Ended, s)
      | e # es \<Rightarrow> (Yielded e, s\<lparr>cb_queue := es\<rparr>))"

subsection \<open>Acknowledgements\<close>

definition acknowledge_channel :: "coinbase \<Rightarrow> string \<Rightarrow> coinbase" where
  "acknowledge_channel s name =
     (let s1 = s\<lparr>cb_diagnostics := record_acknowledgement name (cb_diagnostics s)\<rparr>
      in if name \<in> set required_channels then sync_ack_event (s1\<lparr>cb_acknowledged := insert name (cb_acknowledged s1)\<rparr>) else s1)"

definition acknowledge_value :: "json \<Rightarrow> string \<Rightarrow> (coinbase, unit) call" where
  "acknowledge_value value fld s =
     (case value of
        JArr xs \<Rightarrow> bindS (liftS (mapping_sequence value (fld @ ''.items''))) (\<lambda>items s.
          (Inr (), foldl (\<lambda>s item. let name = py_strip (text_of item ''name'') in if name \<noteq> [] then acknowledge_channel s name else s) s items)) s
      | JObj kvs \<Rightarrow> (Inr (), foldl (\<lambda>s p. if fst p \<noteq> [] then acknowledge_channel s (fst p) else s) s kvs)
      | _ \<Rightarrow> (Inr (), s))"

definition acknowledge_keys :: "string \<Rightarrow> (string \<times> json) list \<Rightarrow> (coinbase, unit) call" where
  "acknowledge_keys prefix doc =
     forS (\<lambda>key. if jget doc key = JNull then returnS () else acknowledge_value (jget doc key) (prefix @ key))
       [''subscriptions'', ''channels'']"

definition record_acknowledgements :: "(string \<times> json) list \<Rightarrow> (coinbase, unit) call" where
  "record_acknowledgements payload =
     bindS (acknowledge_keys [] payload) (\<lambda>_.
       case jget payload ''events'' of
         JArr xs \<Rightarrow> bindS (liftS (mapping_sequence (JArr xs) ''events'')) (forS (acknowledge_keys ''events.''))
       | _ \<Rightarrow> returnS ())"

subsection \<open>The reader\<close>

text \<open>What the socket gives: a message (\<open>None\<close> when it is not JSON), silence, or the end of the stream.\<close>

datatype reader_input = Message "json option" | Silence | Closed

text \<open>The clock readings and the wall clock while a message is handled.\<close>

record reader_clock =
  rc_monotonic :: rat
  rc_utc :: instant

definition enqueue_event :: "coinbase_config \<Rightarrow> reader_clock \<Rightarrow> coinbase \<Rightarrow> quote_event \<Rightarrow> coinbase" where
  "enqueue_event cfg clock s event =
     (if q_symbol event \<in> cb_symbols s then
        let q = cb_queue s @ [event]
        in s\<lparr>cb_queue := q,
             cb_diagnostics := record_queue_depth (min (length q) (nat (cc_queue_size cfg)))
               (record_projected_event (rc_monotonic clock) (cb_diagnostics s))\<rparr>
      else s)"

definition on_projector :: "(projector, 'a) call \<Rightarrow> (coinbase, 'a) call" where
  "on_projector m s = (let (x, p) = m (cb_projector s) in (x, s\<lparr>cb_projector := p\<rparr>))"

definition handle_payload ::
  "coinbase_config \<Rightarrow> (string \<Rightarrow> datetime option) \<Rightarrow> (string \<Rightarrow> uuid) \<Rightarrow> reader_clock \<Rightarrow> string \<Rightarrow> (string \<times> json) list \<Rightarrow>
   (coinbase, unit) call" where
  "handle_payload cfg fromiso uuid5 clock channel payload =
     bindS (if channel = ''subscriptions'' then record_acknowledgements payload else returnS ()) (\<lambda>_.
     bindS (on_projector (projector_apply fromiso uuid5 (utc_datetime (rc_utc clock)) payload)) (\<lambda>evs s.
       (Inr (), foldl (enqueue_event cfg clock) s evs)))"

definition reject :: "string \<Rightarrow> coinbase \<Rightarrow> coinbase" where
  "reject name s = s\<lparr>cb_diagnostics := record_rejected name (cb_diagnostics s)\<rparr>"

definition saw_message :: "reader_clock \<Rightarrow> string \<Rightarrow> coinbase \<Rightarrow> coinbase" where
  "saw_message clock channel s =
     s\<lparr>cb_diagnostics := record_raw_message (rc_monotonic clock) (rc_utc clock) channel (cb_diagnostics s)\<rparr>"

definition reader_ends :: "string \<Rightarrow> string option \<Rightarrow> string \<Rightarrow> coinbase \<Rightarrow> coinbase" where
  "reader_ends final err message s =
     sync_diagnostics (s\<lparr>cb_running := False, cb_state := DEGRADED, cb_message := Some message,
       cb_diagnostics := finalize_reader final err (cb_diagnostics s)\<rparr>)"

fun is_type_error :: "error \<Rightarrow> bool" where
  "is_type_error (TypeError _) = True"
| "is_type_error _ = False"

text \<open>One turn of the loop.  \<open>except (TypeError, ValueError)\<close> rejects the message; anything else ends the reader.\<close>

definition reader_turn ::
  "coinbase_config \<Rightarrow> (string \<Rightarrow> datetime option) \<Rightarrow> (string \<Rightarrow> uuid) \<Rightarrow> reader_clock \<Rightarrow> string \<Rightarrow> reader_input \<Rightarrow> coinbase \<Rightarrow> coinbase" where
  "reader_turn cfg fromiso uuid5 clock idle_text inp s =
     (case inp of
        Silence \<Rightarrow> reader_ends ''stalled'' None (''no upstream message within '' @ idle_text @ ''s'') s
      | Closed \<Rightarrow> reader_ends ''ended'' None ''upstream stream ended'' s
      | Message None \<Rightarrow> reject ''JSONDecodeError'' (saw_message clock ''unparsed'' s)
      | Message (Some (JObj payload)) \<Rightarrow>
          (let channel = (let c = py_strip (text_of payload ''channel'') in if c = [] then ''unknown'' else c)
           in case handle_payload cfg fromiso uuid5 clock channel payload (saw_message clock channel s) of
                (Inr _, s') \<Rightarrow> s'
              | (Inl e, s') \<Rightarrow>
                  if is_type_error e \<or> is_value_error e then reject (error_type e) s'
                  else reader_ends ''failed'' (Some (error_type e)) (failure_code ''reader_failed'' e) s')
      | Message (Some _) \<Rightarrow> reject ''CoinbaseProtocolError'' (saw_message clock ''unparsed'' s))"

section \<open>The adapter satisfies the contract\<close>

definition coinbase_inv :: "coinbase \<Rightarrow> bool" where
  "coinbase_inv s \<longleftrightarrow> (cb_running s \<longrightarrow> cb_state s = CONNECTED \<and> cb_connected s)"

lemma sync_simps [simp]:
  "cb_symbols (sync_ack_event s) = cb_symbols s" "cb_state (sync_ack_event s) = cb_state s"
  "cb_message (sync_ack_event s) = cb_message s" "cb_running (sync_ack_event s) = cb_running s"
  "cb_connected (sync_ack_event s) = cb_connected s" "cb_queue (sync_ack_event s) = cb_queue s"
  "cb_symbols (sync_diagnostics s) = cb_symbols s" "cb_state (sync_diagnostics s) = cb_state s"
  "cb_message (sync_diagnostics s) = cb_message s" "cb_running (sync_diagnostics s) = cb_running s"
  "cb_connected (sync_diagnostics s) = cb_connected s" "cb_queue (sync_diagnostics s) = cb_queue s"
  by (simp_all add: sync_ack_event_def sync_diagnostics_def)

lemma symbol_of_ok: "symbol_ok x \<Longrightarrow> symbol_of (JStr x) = Inr x"
  by (auto simp: symbol_of_def py_truth_def symbol_ok_normal symbol_ok_def)

lemma symbols_of_ok: "list_all symbol_ok xs \<Longrightarrow> mapE (\<lambda>x. symbol_of (JStr x)) xs = Inr xs"
  by (induction xs) (auto simp: symbol_of_ok)

text \<open>The part of the state that sending messages and recording acknowledgements leaves alone.\<close>

definition session :: "coinbase \<Rightarrow> string set \<times> provider_state \<times> string option \<times> bool \<times> bool \<times> quote_event list \<times> projector" where
  "session s = (cb_symbols s, cb_state s, cb_message s, cb_running s, cb_connected s, cb_queue s, cb_projector s)"

lemma session_send: "session (snd (send faults m s)) = session s"
  by (cases "faults m") (simp_all add: send_def session_def)

lemma session_sync: "session (sync_ack_event s) = session s"
  by (simp add: session_def sync_ack_event_def)

lemma session_updates [simp]:
  "session (s\<lparr>cb_all_acknowledged := b\<rparr>) = session s" "session (s\<lparr>cb_heartbeats_subscribed := b\<rparr>) = session s"
  "session (s\<lparr>cb_acknowledged := a\<rparr>) = session s" "session (s\<lparr>cb_diagnostics := d\<rparr>) = session s"
  by (simp_all add: session_def)

lemma session_subscribe:
  assumes "list_all symbol_ok xs"
  shows "session (snd (coinbase_subscribe faults xs s)) = session (s\<lparr>cb_symbols := cb_symbols s \<union> set xs\<rparr>)"
proof -
  let ?P = "\<lambda>s'. session s' = session (s\<lparr>cb_symbols := cb_symbols s \<union> set xs\<rparr>)"
  show ?thesis unfolding coinbase_subscribe_def symbols_of_ok [OF assms]
    by (simp add: Let_def)
      (intro conjI impI bindS_preserves [of ?P] forS_preserves [of ?P];
       auto simp: session_send require_connection_def returnS_def intro!: bindS_preserves [of ?P])
qed

lemma session_unsubscribe:
  assumes "list_all symbol_ok xs"
  shows "session (snd (coinbase_unsubscribe faults xs s)) = session (s\<lparr>cb_symbols := cb_symbols s - set xs\<rparr>)"
proof -
  let ?P = "\<lambda>s'. session s' = session (s\<lparr>cb_symbols := cb_symbols s - set xs\<rparr>)"
  show ?thesis unfolding coinbase_unsubscribe_def symbols_of_ok [OF assms]
    by (simp add: Let_def)
      (intro conjI impI bindS_preserves [of ?P] forS_preserves [of ?P];
       auto simp: session_send session_sync require_connection_def returnS_def intro!: bindS_preserves [of ?P])
qed

text \<open>The network during a call: the outcome of a connection attempt and of each send.\<close>

type_synonym network = "error option \<times> (json \<Rightarrow> error option)"

definition coinbase_ops :: "coinbase_config \<Rightarrow> (network, coinbase) provider_ops" where
  "coinbase_ops cfg = \<lparr>p_name = coinbase_name, p_connect = (\<lambda>c. coinbase_connect cfg (fst c)), p_disconnect = coinbase_disconnect,
     p_subscribe = (\<lambda>c. coinbase_subscribe (snd c)), p_unsubscribe = (\<lambda>c. coinbase_unsubscribe (snd c)), p_health = coinbase_health\<rparr>"

interpretation coinbase: market_provider "coinbase_ops cfg" cb_symbols coinbase_inv
  for cfg
proof
  fix s m s' and c :: network and xs :: "string list" assume i: "coinbase_inv s"
  { assume "p_connect (coinbase_ops cfg) c s = (m, s')"
    with i show "coinbase_inv s' \<and> cb_symbols s' = cb_symbols s \<and> (m = Inr () \<longrightarrow> is_connected (coinbase_ops cfg) s') \<and>
        (m \<noteq> Inr () \<longrightarrow> is_connected (coinbase_ops cfg) s' \<longrightarrow> is_connected (coinbase_ops cfg) s)"
      by (auto simp: coinbase_ops_def is_connected_def coinbase_connect_def coinbase_inv_def coinbase_health_def Let_def
          split: sum.splits if_splits option.splits) }
  show "coinbase_inv (p_disconnect (coinbase_ops cfg) s) \<and> \<not> is_connected (coinbase_ops cfg) (p_disconnect (coinbase_ops cfg) s)"
    by (simp add: coinbase_ops_def is_connected_def coinbase_disconnect_def coinbase_inv_def coinbase_health_def Let_def)
  { assume "list_all symbol_ok xs" "p_subscribe (coinbase_ops cfg) c xs s = (m, s')"
    with session_subscribe [of xs "snd c" s] i
    show "coinbase_inv s' \<and> cb_symbols s' = cb_symbols s \<union> set xs \<and> p_health (coinbase_ops cfg) s' = p_health (coinbase_ops cfg) s"
      by (simp add: coinbase_ops_def session_def coinbase_inv_def coinbase_health_def) }
  { assume "list_all symbol_ok xs" "p_unsubscribe (coinbase_ops cfg) c xs s = (m, s')"
    with session_unsubscribe [of xs "snd c" s] i
    show "coinbase_inv s' \<and> cb_symbols s' = cb_symbols s - set xs \<and> p_health (coinbase_ops cfg) s' = p_health (coinbase_ops cfg) s"
      by (simp add: coinbase_ops_def session_def coinbase_inv_def coinbase_health_def) }
qed

section \<open>What an event says about its trades\<close>

definition trade_size :: "(string \<times> json) list \<Rightarrow> rat" where
  "trade_size trade = (case parse_decimal (py_str (jget trade ''size'')) of Some (Finite x) \<Rightarrow> x | _ \<Rightarrow> 0)"

definition trade_price :: "(string \<times> json) list \<Rightarrow> rat" where
  "trade_price trade = (case parse_decimal (py_str (jget trade ''price'')) of Some (Finite x) \<Rightarrow> x | _ \<Rightarrow> 0)"

definition maker_side :: "(string \<times> json) list \<Rightarrow> string" where
  "maker_side trade = normalize (text_of trade ''side'')"

definition side_volume :: "string \<Rightarrow> (string \<times> json) list list \<Rightarrow> rat" where
  "side_volume side trades = sum_list (map trade_size (filter (\<lambda>t. maker_side t = side) trades))"

lemma decimal_add_Finite: "decimal_add a b = Inr (Finite z) \<longleftrightarrow> (\<exists>x y. a = Finite x \<and> b = Finite y \<and> z = x + y)"
  by (cases a; cases b) auto

lemma non_negative_size:
  "non_negative_decimal_of (jget t ''size'') ''size'' = Inr (Finite x) \<Longrightarrow> trade_size t = x"
  by (auto simp: non_negative_decimal_of_def decimal_of_def trade_size_def bindE_eq_Inr split: option.splits decimal.splits if_splits)

lemma positive_price:
  "positive_decimal_of (jget t ''price'') ''price'' = Inr (Finite x) \<Longrightarrow> trade_price t = x"
  by (auto simp: positive_decimal_of_def decimal_of_def trade_price_def bindE_eq_Inr split: option.splits decimal.splits if_splits)

text \<open>One trade: what it adds, when the new sums are finite.\<close>

lemma add_trade_sums:
  assumes "add_trade fromiso f t = Inr f'" "fl_total f' = Finite T" "fl_buy f' = Finite B" "fl_sell f' = Finite S"
  shows "fl_total f = Finite (T - trade_size t) \<and> fl_buy f = Finite (B - side_volume ''SELL'' [t]) \<and>
    fl_sell f = Finite (S - side_volume ''BUY'' [t]) \<and> (maker_side t = ''SELL'' \<or> maker_side t = ''BUY'') \<and>
    (\<forall>x. fl_price f' = Some (Finite x) \<longrightarrow> x = trade_price t) \<and> fl_price f' \<noteq> None"
proof -
  from assms(1) obtain sz price f1 total where
    sz: "non_negative_decimal_of (jget t ''size'') ''size'' = Inr sz" and
    pr: "positive_decimal_of (jget t ''price'') ''price'' = Inr price" and
    side: "(if maker_side t = ''SELL'' then bindE (decimal_add (fl_buy f) sz) (\<lambda>b. Inr (f\<lparr>fl_buy := b\<rparr>))
            else if maker_side t = ''BUY'' then bindE (decimal_add (fl_sell f) sz) (\<lambda>s. Inr (f\<lparr>fl_sell := s\<rparr>))
            else Inl (protocol_error ''trade side must be BUY or SELL'')) = Inr f1" and
    tot: "decimal_add (fl_total f1) sz = Inr total" and
    f': "fl_total f' = total" "fl_buy f' = fl_buy f1" "fl_sell f' = fl_sell f1" "fl_price f' = Some price"
    by (auto simp: add_trade_def bindE_eq_Inr Let_def maker_side_def split: if_splits)
  from tot f'(1) assms(2) obtain x where x: "sz = Finite x" "fl_total f1 = Finite (T - x)"
    by (auto simp: decimal_add_Finite)
  have ts: "trade_size t = x" using sz x(1) by (simp add: non_negative_size)
  have "\<forall>y. price = Finite y \<longrightarrow> y = trade_price t" using pr positive_price by auto
  with side x ts f' assms(3,4) show ?thesis
    by (auto simp: side_volume_def bindE_eq_Inr decimal_add_Finite split: if_splits)
qed

lemma add_trades_sums:
  assumes "add_trades fromiso f ts = Inr f'" "fl_total f' = Finite T" "fl_buy f' = Finite B" "fl_sell f' = Finite S"
  shows "fl_total f = Finite (T - sum_list (map trade_size ts)) \<and> fl_buy f = Finite (B - side_volume ''SELL'' ts) \<and>
    fl_sell f = Finite (S - side_volume ''BUY'' ts) \<and> (\<forall>t \<in> set ts. maker_side t = ''SELL'' \<or> maker_side t = ''BUY'')"
  using assms(1)
proof (induction ts arbitrary: f)
  case Nil
  with assms(2-) show ?case by (simp add: side_volume_def)
next
  case (Cons t ts)
  then obtain g where g: "add_trade fromiso f t = Inr g" "add_trades fromiso g ts = Inr f'" by (auto simp: bindE_eq_Inr)
  from Cons.IH [OF g(2)] add_trade_sums [OF g(1)] show ?case by (auto simp: side_volume_def)
qed

lemma add_trades_price:
  assumes "add_trades fromiso f ts = Inr f'" "ts \<noteq> []" "fl_total f' = Finite T" "fl_buy f' = Finite B" "fl_sell f' = Finite S"
    "fl_price f' = Some (Finite x)"
  shows "x = trade_price (last ts)"
  using assms(1,2)
proof (induction ts arbitrary: f)
  case (Cons t ts)
  then obtain g where g: "add_trade fromiso f t = Inr g" "add_trades fromiso g ts = Inr f'" by (auto simp: bindE_eq_Inr)
  show ?case
  proof (cases "ts = []")
    case True
    with g add_trade_sums [OF g(1)] assms(3-) show ?thesis by auto
  next
    case False
    with Cons.IH [OF g(2)] show ?thesis by simp
  qed
qed simp

lemma add_trade_timestamp: "add_trade fromiso f t = Inr f' \<Longrightarrow> dt_us (fl_timestamp f) \<le> dt_us (fl_timestamp f')"
  by (auto simp: add_trade_def bindE_eq_Inr Let_def split: if_splits)

lemma add_trades_timestamp: "add_trades fromiso f ts = Inr f' \<Longrightarrow> dt_us (fl_timestamp f) \<le> dt_us (fl_timestamp f')"
  by (induction ts arbitrary: f) (auto simp: bindE_eq_Inr dest!: add_trade_timestamp intro: order_trans)

lemma positive_decimal_Finite: "positive_decimal d \<Longrightarrow> d = Finite (finite_value d)"
  by (cases d) auto

lemma non_negative_decimal_Finite: "non_negative_decimal d \<Longrightarrow> d = Finite (finite_value d)"
  by (cases d) auto

lemma build_quote_event_Inr:
  assumes "build_quote_event fromiso uuid5 mt rt symbol trades p = (Inr e, p')"
  obtains f where "add_trades fromiso (empty_flow mt) trades = Inr f" "fl_price f = Some (Finite (q_price e))"
    "fl_total f = Finite (the (q_volume e))" "fl_buy f = Finite (the (q_buy_volume e))" "fl_sell f = Finite (the (q_sell_volume e))"
    "q_volume e \<noteq> None" "q_buy_volume e \<noteq> None" "q_sell_volume e \<noteq> None"
    "q_sequence e = Some (dict_get_default (pj_sequences p) symbol 0 + 1)" "q_symbol e = normalize symbol"
    "q_trade_count e = Some (int (length trades))" "q_provider_timestamp e = fl_timestamp f"
    "p' = p\<lparr>pj_sequences := dict_set symbol (dict_get_default (pj_sequences p) symbol 0 + 1) (pj_sequences p)\<rparr>"
    "quote_fields_ok e" "market_ok e"
proof -
  let ?n = "dict_get_default (pj_sequences p) symbol 0 + 1"
  from assms obtain f price where f: "add_trades fromiso (empty_flow mt) trades = Inr f" "fl_price f = Some price"
    "p' = p\<lparr>pj_sequences := dict_set symbol ?n (pj_sequences p)\<rparr>"
    and v: "validate_quote (trade_event_input uuid5 (dict_get (pj_tickers p) symbol) symbol f price (length trades) ?n rt) = Inr e"
    by (auto simp: build_quote_event_def Let_def split: sum.splits option.splits)
  let ?i = "trade_event_input uuid5 (dict_get (pj_tickers p) symbol) symbol f price (length trades) ?n rt"
  have e: "e = quote_of_input ?i" "market_ok e" and ok: "quote_field_errors ?i = []"
    using v by (auto simp: validate_quote_iff)
  have "quote_fields_ok e" unfolding e(1) using ok by (rule quote_of_input_fields_ok)
  moreover from ok have "positive_decimal price" "non_negative_decimal (fl_total f)" "non_negative_decimal (fl_buy f)"
    "non_negative_decimal (fl_sell f)"
    unfolding quote_field_errors_Nil by (simp_all add: trade_event_input_def Let_def)
  then have "price = Finite (finite_value price)" "fl_total f = Finite (finite_value (fl_total f))"
    "fl_buy f = Finite (finite_value (fl_buy f))" "fl_sell f = Finite (finite_value (fl_sell f))"
    by (blast intro: positive_decimal_Finite non_negative_decimal_Finite)+
  ultimately show ?thesis using f e(2)
    by (intro that [of f]) (simp_all add: e(1) quote_of_input_def trade_event_input_def Let_def)
qed

section \<open>The reader\<close>

lemma build_all_valid:
  assumes "build_all fromiso uuid5 mt rt xs p = (Inr es, p')"
  shows "\<forall>e \<in> set es. quote_fields_ok e \<and> market_ok e"
  using assms
proof (induction xs arbitrary: p es)
  case (Cons x xs)
  obtain symbol trades where x: "x = (symbol, trades)" by (cases x)
  show ?case
  proof (cases "trades = []")
    case True
    with Cons show ?thesis by (simp add: x)
  next
    case False
    obtain m q where b: "build_quote_event fromiso uuid5 mt rt symbol trades p = (m, q)" by (metis surj_pair)
    obtain m' q' where r: "build_all fromiso uuid5 mt rt xs q = (m', q')" by (metis surj_pair)
    from Cons.prems False obtain e es' where "m = Inr e" "m' = Inr es'" "es = e # es'"
      by (auto simp: x b r bindS_def returnS_def split: sum.splits)
    with Cons.IH [of q es'] b r Cons.prems False show ?thesis
      by (auto simp: x bindS_def returnS_def elim!: build_quote_event_Inr)
  qed
qed (simp add: returnS_def)

lemma bindS_Inr: "bindS m f s = (Inr y, s') \<Longrightarrow> \<exists>x t. m s = (Inr x, t) \<and> f x t = (Inr y, s')"
  by (cases "m s"; cases "fst (m s)") auto

lemma projector_apply_valid:
  assumes "projector_apply fromiso uuid5 rt payload p = (Inr es, p')"
  shows "\<forall>e \<in> set es. quote_fields_ok e \<and> market_ok e"
proof (cases "text_of payload ''channel'' = ''market_trades''")
  case True
  with assms show ?thesis
    by (auto simp: projector_apply_def project_trades_def dest!: bindS_Inr build_all_valid)
next
  case False
  with assms have "es = []"
    by (auto simp: projector_apply_def returnS_def Let_def split: if_splits dest!: bindS_Inr)
  then show ?thesis by simp
qed

lemma session_acknowledge_channel: "session (acknowledge_channel s name) = session s"
  by (simp add: acknowledge_channel_def session_sync Let_def)

lemma session_foldl:
  "(\<And>s x. session (g s x) = session s) \<Longrightarrow> session (foldl g s xs) = session s"
  by (induction xs arbitrary: s) auto

lemma session_acknowledge_value: "session (snd (acknowledge_value value fld s)) = session s"
proof -
  let ?P = "\<lambda>s'. session s' = session s"
  have "session (foldl (\<lambda>s item. let name = py_strip (text_of item ''name'') in if name \<noteq> [] then acknowledge_channel s name else s) s' items) =
      session s'" for s' items
    by (rule session_foldl) (simp add: session_acknowledge_channel Let_def)
  then have "?P (snd (bindS (liftS (mapping_sequence value (fld @ ''.items''))) (\<lambda>items s.
      (Inr (), foldl (\<lambda>s item. let name = py_strip (text_of item ''name'') in if name \<noteq> [] then acknowledge_channel s name else s) s items)) s))"
    by (intro bindS_preserves [of ?P]) (simp_all add: liftS_def)
  moreover have "session (foldl (\<lambda>s p. if fst p \<noteq> [] then acknowledge_channel s (fst p) else s) s kvs) = session s" for kvs :: "(string \<times> json) list"
    by (rule session_foldl) (simp add: session_acknowledge_channel)
  ultimately show ?thesis by (cases "value") (simp_all add: acknowledge_value_def)
qed

lemma session_acknowledge_keys: "session (snd (acknowledge_keys prefix doc s)) = session s"
  unfolding acknowledge_keys_def
  by (rule forS_preserves [of "\<lambda>s'. session s' = session s"]) (auto simp: returnS_def session_acknowledge_value)

lemma session_acknowledgements: "session (snd (record_acknowledgements payload s)) = session s"
proof -
  let ?P = "\<lambda>s'. session s' = session s"
  show ?thesis unfolding record_acknowledgements_def
  proof (rule bindS_preserves [of ?P])
    fix s' assume "?P s'"
    then have "?P (snd (bindS (liftS (mapping_sequence (JArr xs) ''events'')) (forS (acknowledge_keys ''events.'')) s'))" for xs
      by (intro bindS_preserves [of ?P]) (auto simp: liftS_def session_acknowledge_keys intro!: forS_preserves [of ?P])
    with \<open>?P s'\<close> show "?P (snd ((case jget payload ''events'' of
         JArr xs \<Rightarrow> bindS (liftS (mapping_sequence (JArr xs) ''events'')) (forS (acknowledge_keys ''events.''))
       | _ \<Rightarrow> returnS ()) s'))"
      by (simp add: returnS_def split: json.splits)
  qed (rule session_acknowledge_keys)
qed

lemma enqueue_all:
  "cb_symbols (foldl (enqueue_event cfg clock) s es) = cb_symbols s \<and>
   cb_queue (foldl (enqueue_event cfg clock) s es) = cb_queue s @ filter (\<lambda>e. q_symbol e \<in> cb_symbols s) es"
  by (induction es arbitrary: s) (auto simp: enqueue_event_def Let_def)

lemma handle_payload_queue:
  assumes "handle_payload cfg fromiso uuid5 clock channel payload s = (m, s')"
  shows "\<exists>new. cb_queue s' = cb_queue s @ new \<and> cb_symbols s' = cb_symbols s \<and>
    (\<forall>e \<in> set new. q_symbol e \<in> cb_symbols s \<and> quote_fields_ok e \<and> market_ok e)"
proof -
  let ?ack = "if channel = ''subscriptions'' then record_acknowledgements payload else returnS ()"
  obtain m1 s1 where a: "?ack s = (m1, s1)" by (metis surj_pair)
  have "session (snd (?ack s)) = session s" by (simp add: session_acknowledgements returnS_def)
  then have s1: "cb_queue s1 = cb_queue s" "cb_symbols s1 = cb_symbols s" "cb_projector s1 = cb_projector s"
    by (simp_all add: a session_def)
  obtain x p where ap: "projector_apply fromiso uuid5 (utc_datetime (rc_utc clock)) payload (cb_projector s1) = (x, p)" by (metis surj_pair)
  show ?thesis
  proof (cases m1)
    case (Inl e)
    with assms s1 a show ?thesis by (simp add: handle_payload_def)
  next
    case ok: (Inr u)
    show ?thesis
    proof (cases x)
      case (Inl e)
      with ok assms s1 a ap have "s' = s1\<lparr>cb_projector := p\<rparr>" by (simp add: handle_payload_def on_projector_def)
      with s1 show ?thesis by simp
    next
      case (Inr es)
      then have "s' = foldl (enqueue_event cfg clock) (s1\<lparr>cb_projector := p\<rparr>) es"
        using ok assms a ap by (simp add: handle_payload_def on_projector_def)
      with projector_apply_valid [OF ap [unfolded Inr]] s1 show ?thesis
        using enqueue_all [of cfg clock "s1\<lparr>cb_projector := p\<rparr>" es] by auto
    qed
  qed
qed

lemma reader_turn_queue:
  "\<exists>new. cb_queue (reader_turn cfg fromiso uuid5 clock idle_text inp s) = cb_queue s @ new \<and>
    cb_symbols (reader_turn cfg fromiso uuid5 clock idle_text inp s) = cb_symbols s \<and>
    (\<forall>e \<in> set new. q_symbol e \<in> cb_symbols s \<and> quote_fields_ok e \<and> market_ok e)"
proof (cases "\<exists>payload. inp = Message (Some (JObj payload))")
  case True
  then obtain payload where inp: "inp = Message (Some (JObj payload))" by blast
  define channel where "channel = (let c = py_strip (text_of payload ''channel'') in if c = [] then ''unknown'' else c)"
  obtain m s' where h: "handle_payload cfg fromiso uuid5 clock channel payload (saw_message clock channel s) = (m, s')" by (metis surj_pair)
  have "cb_queue (saw_message clock channel s) = cb_queue s" "cb_symbols (saw_message clock channel s) = cb_symbols s"
    by (simp_all add: saw_message_def)
  with handle_payload_queue [OF h] show ?thesis
    by (cases m) (auto simp: inp reader_turn_def channel_def [symmetric] h reject_def reader_ends_def)
next
  case False
  then have "cb_queue (reader_turn cfg fromiso uuid5 clock idle_text inp s) = cb_queue s"
    "cb_symbols (reader_turn cfg fromiso uuid5 clock idle_text inp s) = cb_symbols s"
    by (auto simp: reader_turn_def reject_def saw_message_def reader_ends_def split: reader_input.splits option.splits json.splits)
  then show ?thesis by simp
qed

text \<open>What the adapter's own calls do to the part of the state its health depends on.\<close>

definition link :: "coinbase \<Rightarrow> string set \<times> provider_state \<times> bool \<times> bool" where
  "link s = (cb_symbols s, cb_state s, cb_running s, cb_connected s)"

lemma link_session: "session s = session s' \<Longrightarrow> link s = link s'"
  by (simp add: session_def link_def)

lemma link_enqueue: "link (foldl (enqueue_event cfg clock) s es) = link s"
  by (induction es arbitrary: s) (simp_all add: enqueue_event_def link_def Let_def)

lemma link_payload: "link (snd (handle_payload cfg fromiso uuid5 clock channel payload s)) = link s"
proof -
  let ?P = "\<lambda>s'. link s' = link s"
  have "link (snd (record_acknowledgements payload s)) = link s" by (rule link_session) (rule session_acknowledgements)
  then have a: "?P (snd ((if channel = ''subscriptions'' then record_acknowledgements payload else returnS ()) s))"
    by (simp add: returnS_def)
  have p: "link (snd (on_projector m s')) = link s'" for m :: "(projector, quote_event list) call" and s'
    by (simp add: on_projector_def link_def split: prod.splits)
  show ?thesis unfolding handle_payload_def
    by (rule bindS_preserves [of ?P], rule a, rule bindS_preserves [of ?P]) (simp_all add: p link_enqueue)
qed

lemma reader_turn_link:
  assumes "s' = reader_turn cfg fromiso uuid5 clock idle_text inp s"
  shows "link s' = link s \<or> link s' = (cb_symbols s, DEGRADED, False, cb_connected s)"
proof (cases "\<exists>payload. inp = Message (Some (JObj payload))")
  case True
  then obtain payload where inp: "inp = Message (Some (JObj payload))" by blast
  define channel where "channel = (let c = py_strip (text_of payload ''channel'') in if c = [] then ''unknown'' else c)"
  obtain m s1 where h: "handle_payload cfg fromiso uuid5 clock channel payload (saw_message clock channel s) = (m, s1)" by (metis surj_pair)
  have "link (saw_message clock channel s) = link s" by (simp add: saw_message_def link_def)
  then have "link s1 = link s" using link_payload [of cfg fromiso uuid5 clock channel payload "saw_message clock channel s"]
    by (simp add: h)
  with assms show ?thesis
    by (cases m) (auto simp: inp reader_turn_def channel_def [symmetric] h reject_def reader_ends_def link_def)
next
  case False
  with assms show ?thesis
    by (auto simp: reader_turn_def reject_def saw_message_def reader_ends_def link_def split: reader_input.splits option.splits json.splits)
qed

text \<open>The calls that can run while \<open>subscribe\<close> waits and no reader is left; only \<open>connect\<close> starts a reader.\<close>

inductive without_reader :: "coinbase \<Rightarrow> coinbase \<Rightarrow> bool" where
  idle: "without_reader s s"
| subscribing: "without_reader s s1 \<Longrightarrow> coinbase_subscribe faults xs s1 = (m, s2) \<Longrightarrow> without_reader s s2"
| unsubscribing: "without_reader s s1 \<Longrightarrow> coinbase_unsubscribe faults xs s1 = (m, s2) \<Longrightarrow> without_reader s s2"
| disconnecting: "without_reader s s1 \<Longrightarrow> without_reader s (coinbase_disconnect s1)"
| reading: "without_reader s s1 \<Longrightarrow> coinbase_events s1 = (turn, s2) \<Longrightarrow> without_reader s s2"

definition unacknowledged :: "bool \<Rightarrow> coinbase \<Rightarrow> bool" where
  "unacknowledged b s \<longleftrightarrow> (cb_running s \<longrightarrow> b) \<and> \<not> cb_all_acknowledged s \<and> \<not> set required_channels \<subseteq> cb_acknowledged s"

lemma unacknowledged_send: "unacknowledged r s \<Longrightarrow> unacknowledged r (snd (send faults m s))"
  by (cases "faults m") (simp_all add: send_def unacknowledged_def)

lemma unacknowledged_connection: "unacknowledged r s \<Longrightarrow> unacknowledged r (snd (require_connection s))"
  by (simp add: require_connection_def)

lemma unacknowledged_subscribe: "unacknowledged r s \<Longrightarrow> unacknowledged r (snd (coinbase_subscribe faults xs s))"
proof -
  assume u: "unacknowledged r s"
  then have s1: "unacknowledged r (s\<lparr>cb_symbols := A\<rparr>)" for A by (simp add: unacknowledged_def)
  have f: "unacknowledged r (s\<lparr>cb_all_acknowledged := False\<rparr>)" "unacknowledged r (s\<lparr>cb_heartbeats_subscribed := b\<rparr>)"
    if "unacknowledged r s" for s b
    using that by (simp_all add: unacknowledged_def)
  have h: "unacknowledged r (snd (if cb_heartbeats_subscribed s then (Inr (), s)
      else bindS (send faults m) (\<lambda>_ s. (Inr (), s\<lparr>cb_heartbeats_subscribed := True\<rparr>)) s))" if "unacknowledged r s" for s m
    using that by (auto simp: f unacknowledged_send intro!: bindS_preserves [of "unacknowledged r"])
  show ?thesis using s1 u unfolding coinbase_subscribe_def
    by (auto simp: Let_def f h unacknowledged_send unacknowledged_connection returnS_def split: sum.splits
        intro!: bindS_preserves [of "unacknowledged r"] forS_preserves [of "unacknowledged r"])
qed

lemma unacknowledged_unsubscribe: "unacknowledged r s \<Longrightarrow> unacknowledged r (snd (coinbase_unsubscribe faults xs s))"
proof -
  assume u: "unacknowledged r s"
  then have s1: "unacknowledged r (s\<lparr>cb_symbols := A\<rparr>)" for A by (simp add: unacknowledged_def)
  have f: "unacknowledged r (sync_ack_event (s\<lparr>cb_acknowledged := cb_acknowledged s - {x}\<rparr>))" if "unacknowledged r s" for s x
    using that by (auto simp: unacknowledged_def sync_ack_event_def list_all_iff)
  show ?thesis using s1 u unfolding coinbase_unsubscribe_def
    by (auto simp: Let_def f unacknowledged_send unacknowledged_connection returnS_def split: sum.splits
        intro!: bindS_preserves [of "unacknowledged r"] forS_preserves [of "unacknowledged r"])
qed

lemma unacknowledged_stays:
  assumes "without_reader s s'" "unacknowledged r s"
  shows "unacknowledged r s'"
  using assms
proof (induction rule: without_reader.induct)
  case (subscribing s s1 faults xs m s2)
  then show ?case using unacknowledged_subscribe [of r s1 faults xs] by simp
next
  case (unsubscribing s s1 faults xs m s2)
  then show ?case using unacknowledged_unsubscribe [of r s1 faults xs] by simp
next
  case (disconnecting s s1)
  then show ?case by (simp add: unacknowledged_def coinbase_disconnect_def sync_ack_event_def sync_diagnostics_def required_channels_def Let_def)
next
  case (reading s s1 turn s2)
  then show ?case by (auto simp: coinbase_events_def unacknowledged_def split: list.splits)
qed

section \<open>Properties\<close>

text \<open>C22: an event projected from trades says what the trades say: its volume is the sum of their sizes and
  is split without rest into aggressive buys (the maker sold) and aggressive sells, its price is that of the
  last trade, its count their number, its time not before the message, and its sequence number follows the
  previous one of the symbol; and it passes the market validation.\<close>

theorem projected_trades:
  assumes "build_quote_event fromiso uuid5 mt rt symbol trades p = (Inr e, p')" "trades \<noteq> []"
  shows "q_volume e = Some (sum_list (map trade_size trades)) \<and> q_buy_volume e = Some (side_volume ''SELL'' trades) \<and>
    q_sell_volume e = Some (side_volume ''BUY'' trades) \<and>
    sum_list (map trade_size trades) = side_volume ''SELL'' trades + side_volume ''BUY'' trades \<and>
    q_price e = trade_price (last trades) \<and> q_trade_count e = Some (int (length trades)) \<and>
    dt_us mt \<le> dt_us (q_provider_timestamp e) \<and>
    q_sequence e = Some (dict_get_default (pj_sequences p) symbol 0 + 1) \<and>
    dict_get (pj_sequences p') symbol = q_sequence e \<and> quote_fields_ok e \<and> market_ok e"
proof -
  from assms(1) obtain f where f: "add_trades fromiso (empty_flow mt) trades = Inr f" "fl_price f = Some (Finite (q_price e))"
    "fl_total f = Finite (the (q_volume e))" "fl_buy f = Finite (the (q_buy_volume e))" "fl_sell f = Finite (the (q_sell_volume e))"
    "q_volume e \<noteq> None" "q_buy_volume e \<noteq> None" "q_sell_volume e \<noteq> None"
    "q_sequence e = Some (dict_get_default (pj_sequences p) symbol 0 + 1)"
    "q_trade_count e = Some (int (length trades))" "q_provider_timestamp e = fl_timestamp f"
    "p' = p\<lparr>pj_sequences := dict_set symbol (dict_get_default (pj_sequences p) symbol 0 + 1) (pj_sequences p)\<rparr>"
    "quote_fields_ok e" "market_ok e"
    by (rule build_quote_event_Inr)
  from add_trades_sums [OF f(1,3-5)]
  have s: "the (q_volume e) = sum_list (map trade_size trades)" "the (q_buy_volume e) = side_volume ''SELL'' trades"
    "the (q_sell_volume e) = side_volume ''BUY'' trades"
    and m: "\<forall>t \<in> set trades. maker_side t = ''SELL'' \<or> maker_side t = ''BUY''"
    by (auto simp: empty_flow_def)
  have "sum_list (map trade_size trades) = side_volume ''SELL'' trades + side_volume ''BUY'' trades"
    using m by (induction trades) (auto simp: side_volume_def)
  moreover have "q_price e = trade_price (last trades)" using add_trades_price [OF f(1) assms(2) f(3-5,2)] .
  moreover have "dt_us mt \<le> dt_us (fl_timestamp f)" using add_trades_timestamp [OF f(1)] by (simp add: empty_flow_def)
  moreover have "dict_get (pj_sequences p') symbol = q_sequence e" by (simp add: f(9,12) dict_simps)
  ultimately show ?thesis using s f(6-11,13,14) by auto
qed

text \<open>The adapter is fail-closed: outside the acknowledged personal research mode, and in production in
  any case, connecting raises \<open>CoinbaseUsageError\<close> and changes nothing.\<close>

theorem usage_guard:
  assumes "cc_use_mode cfg \<noteq> ''personal_research'' \<or> \<not> cc_terms_accepted cfg \<or>
    py_lower (py_strip (cc_environment cfg)) = ''production''"
  shows "\<exists>msg. coinbase_connect cfg fault s = (Inl (CoinbaseUsageError msg), s)"
  using assms by (auto simp: coinbase_connect_def validate_usage_def)

text \<open>C34: whatever arrives on the socket, the reader only appends to the queue, and only events of subscribed
  symbols that pass the market validation.\<close>

theorem reader_queues_valid_quotes:
  "\<exists>new. cb_queue (reader_turn cfg fromiso uuid5 clock idle_text inp s) = cb_queue s @ new \<and>
    cb_symbols (reader_turn cfg fromiso uuid5 clock idle_text inp s) = cb_symbols s \<and>
    list_all (\<lambda>e. q_symbol e \<in> cb_symbols s \<and> quote_fields_ok e \<and> market_ok e) new"
  using reader_turn_queue [of cfg fromiso uuid5 clock idle_text inp s] by (simp add: list_all_iff)

text \<open>A book with a quantity on one side only makes every trade of the symbol be rejected until the next
  ticker, although the trades themselves are well formed: the event is built with one depth and not the other.\<close>

theorem one_sided_book_rejects:
  assumes "dict_get (pj_tickers p) symbol = Some t" "(ts_bid_quantity t = None) \<noteq> (ts_ask_quantity t = None)"
  shows "\<exists>err. fst (build_quote_event fromiso uuid5 mt rt symbol trades p) = Inl err"
proof (rule ccontr)
  assume "\<not> ?thesis"
  then obtain e where "fst (build_quote_event fromiso uuid5 mt rt symbol trades p) = Inr e"
    by (meson sum.exhaust)
  then obtain f price n where v: "validate_quote (trade_event_input uuid5 (Some t) symbol f price (length trades) n rt) = Inr e"
    using assms(1) by (auto simp: build_quote_event_def Let_def split: sum.splits option.splits)
  then have "market_ok e" unfolding validate_quote_iff by blast
  then have "q_bid_depth e = None \<longleftrightarrow> q_ask_depth e = None" by (simp add: market_ok_def)
  moreover have "e = quote_of_input (trade_event_input uuid5 (Some t) symbol f price (length trades) n rt)"
    using v by (simp add: validate_quote_iff)
  ultimately show False using assms(2) by (simp add: quote_of_input_def trade_event_input_def Let_def)
qed

text \<open>A ticker message whose price is not a number ends the reader: the comparison raises
  \<open>InvalidOperation\<close>, which is not a \<open>ValueError\<close>, so the clause that rejects malformed messages does not
  catch it, and the provider is degraded and has to reconnect.\<close>

theorem nan_ends_reader:
  assumes "fromiso ts = Some t" "is_aware t" "CHR ''Z'' \<notin> set ts"
  shows "let s' = reader_turn cfg fromiso uuid5 clock idle_text (Message (Some (JObj [(''channel'', JStr ''ticker''), (''timestamp'', JStr ts),
      (''events'', JArr [JObj [(''tickers'', JArr [JObj [(''product_id'', JStr ''BTC-USD''), (''price'', JStr ''NaN'')]])]])]))) s
    in \<not> cb_running s' \<and> cb_state s' = DEGRADED \<and> cb_message s' = Some ''reader_failed:InvalidOperation''"
proof -
  have z: "replace_z ts = ts" using assms(3) by (induction ts) (auto simp: replace_z_def)
  have n: "parse_decimal ''NaN'' = Some NaN" by code_simp
  have sy: "symbol_of (JStr ''BTC-USD'') = Inr ''BTC-USD''" by code_simp
  have st: "py_strip ''ticker'' = ''ticker''" by code_simp
  show ?thesis using assms(1,2)
    by (simp add: Let_def reader_turn_def text_of_def st handle_payload_def returnS_def on_projector_def projector_apply_def
        apply_ticker_def liftS_def jget_def timestamp_of_def z mapping_sequence_def apply_one_ticker_def sy ticker_of_def
        positive_decimal_of_def decimal_of_def n reader_ends_def failure_code_def bindS_def)
qed


section \<open>Witnesses\<close>

definition sample_iso :: "string \<Rightarrow> datetime option" where
  "sample_iso s = (if s = ''T1'' then Some (utc_datetime 1) else if s = ''T2'' then Some (utc_datetime 2) else None)"

definition sample_trade :: "string \<Rightarrow> string \<Rightarrow> string \<Rightarrow> string \<Rightarrow> (string \<times> json) list" where
  "sample_trade i side sz price =
     [(''trade_id'', JStr i), (''product_id'', JStr ''BTC-USD''), (''side'', JStr side), (''size'', JStr sz), (''price'', JStr price), (''time'', JStr ''T2'')]"

definition sample_trades :: "(string \<times> json) list list" where
  "sample_trades = [sample_trade ''1'' ''BUY'' ''0.5'' ''100'', sample_trade ''2'' ''SELL'' ''0.25'' ''101.5'']"

lemma sample_trades_built:
  "is_ok (fst (build_quote_event sample_iso (\<lambda>_. 7) (utc_datetime 1) (utc_datetime 3) ''BTC-USD'' sample_trades new_projector))"
  by code_simp

theorem projected_trades_witness:
  "\<exists>e p'. build_quote_event sample_iso (\<lambda>_. 7) (utc_datetime 1) (utc_datetime 3) ''BTC-USD'' sample_trades new_projector = (Inr e, p') \<and>
     q_volume e = Some (sum_list (map trade_size sample_trades)) \<and> q_price e = trade_price (last sample_trades)"
proof -
  obtain e p' where b: "build_quote_event sample_iso (\<lambda>_. 7) (utc_datetime 1) (utc_datetime 3) ''BTC-USD'' sample_trades new_projector = (Inr e, p')"
    using sample_trades_built by (metis is_ok_iff prod.collapse)
  from projected_trades [OF b] b show ?thesis by (auto simp: sample_trades_def)
qed

definition disabled_config :: coinbase_config where
  "disabled_config = \<lparr>cc_url = ''wss://advanced-trade-ws.coinbase.com'', cc_use_mode = ''disabled'', cc_terms_accepted = False,
     cc_environment = ''development'', cc_queue_size = 10000, cc_idle_timeout = 15\<rparr>"

theorem usage_guard_witness: "\<exists>msg. coinbase_connect disabled_config None new_coinbase = (Inl (CoinbaseUsageError msg), new_coinbase)"
  using usage_guard [of disabled_config] by (simp add: disabled_config_def)

definition one_sided :: projector where
  "one_sided = new_projector\<lparr>pj_tickers := [(''BTC-USD'', \<lparr>ts_price = Finite 100, ts_bid = Some (Finite 99), ts_ask = None,
     ts_bid_quantity = Some (Finite 1), ts_ask_quantity = None, ts_provider_timestamp = utc_datetime 1\<rparr>)]\<rparr>"

theorem one_sided_book_rejects_witness:
  "\<exists>err. fst (build_quote_event sample_iso (\<lambda>_. 7) (utc_datetime 1) (utc_datetime 3) ''BTC-USD'' sample_trades one_sided) = Inl err"
  using one_sided_book_rejects [of one_sided "''BTC-USD''"] by (simp add: one_sided_def)

theorem nan_ends_reader_witness:
  "cb_message (reader_turn disabled_config sample_iso (\<lambda>_. 7) \<lparr>rc_monotonic = 1, rc_utc = 1\<rparr> ''15''
     (Message (Some (JObj [(''channel'', JStr ''ticker''), (''timestamp'', JStr ''T1''),
      (''events'', JArr [JObj [(''tickers'', JArr [JObj [(''product_id'', JStr ''BTC-USD''), (''price'', JStr ''NaN'')]])]])]))) new_coinbase) =
   Some ''reader_failed:InvalidOperation''"
  using nan_ends_reader [of sample_iso "''T1''" "utc_datetime 1"] by (simp add: sample_iso_def Let_def)

definition open_config :: coinbase_config where
  "open_config = disabled_config\<lparr>cc_use_mode := ''personal_research'', cc_terms_accepted := True\<rparr>"

definition fresh_connection :: coinbase where
  "fresh_connection = snd (coinbase_connect open_config None new_coinbase)"

lemma fresh_connection_waits:
  "fst (coinbase_subscribe (\<lambda>_. None) [''BTC-USD''] fresh_connection) = Inr ()"
  "cb_acknowledged fresh_connection = {}" "\<not> cb_all_acknowledged fresh_connection"
  by code_simp+


end
