(* ===== verification/Collector.thy ===== *)
theory Collector
  imports Pipeline Coinbase
begin

text \<open>
  The collector, \<open>collector.py\<close>: it owns the provider connection, turns the control stream into upstream
  subscriptions and publishes the provider's events to the quote stream.  Its operations take the
  provider as a record of operations, and the lemmas about it are proved in the locale
  \<open>collector\<close> on top of the provider contract, then used for the mock and for Coinbase.  Reading the
  control stream and the waits are left to the caller; \<open>fault\<close> says which calls of the store raise.

  The lemmas show that every active symbol is subscribed upstream while the provider is connected, whatever
  happens, that the active set is what the control messages say, that events reach the stream complete and
  in order, and that the reconnect delay stays between half a second and thirty; one more records that a Redis
  outage ends the provider loop.
\<close>

section \<open>State and operations\<close>

record 's collector =
  co_provider :: 's
  co_active :: "string set"

record control_config =
  ct_stream :: string
  ct_group :: string

definition with_provider :: "('s \<Rightarrow> unit result \<times> 's) \<Rightarrow> ('s collector, unit) call" where
  "with_provider f st = (let (m, p) = f (co_provider st) in (m, st\<lparr>co_provider := p\<rparr>))"

definition apply_control :: "('c, 's) provider_ops \<Rightarrow> 'c \<Rightarrow> string \<Rightarrow> string \<Rightarrow> ('s collector, unit) call" where
  "apply_control P c action symbol st =
     (let connected = is_connected P (co_provider st) in
      if action = ''subscribe'' then
        let was_new = symbol \<notin> co_active st;
            st1 = st\<lparr>co_active := insert symbol (co_active st)\<rparr>
        in if was_new \<and> connected then with_provider (p_subscribe P c [symbol]) st1 else (Inr (), st1)
      else
        let was_active = symbol \<in> co_active st;
            st1 = st\<lparr>co_active := co_active st - {symbol}\<rparr>
        in if was_active \<and> connected then with_provider (p_unsubscribe P c [symbol]) st1 else (Inr (), st1))"

text \<open>Lifting calls of the store and of the collector to the pair of both states.\<close>

definition on_store :: "('r \<Rightarrow> 'r) \<Rightarrow> ('r \<times> 's collector, unit) call" where
  "on_store f st = (Inr (), (f (fst st), snd st))"

definition incr_on_store :: "'r redis_ops \<Rightarrow> string \<Rightarrow> ('r \<times> 's collector, unit) call" where
  "incr_on_store R k st = (let (n, r) = incr_cmd R (fst st) k in (bindE n (\<lambda>_. Inr ()), (r, snd st)))"

definition on_collector :: "('s collector, unit) call \<Rightarrow> ('r \<times> 's collector, unit) call" where
  "on_collector m st = (let (x, co) = m (snd st) in (x, (fst st, co)))"

definition entry_text :: "entry \<Rightarrow> string \<Rightarrow> string" where
  "entry_text flds k = (case dict_get flds k of None \<Rightarrow> [] | Some p \<Rightarrow> payload_text p)"

definition control_message ::
  "'r redis_ops \<Rightarrow> store_config \<Rightarrow> control_config \<Rightarrow> ('c, 's) provider_ops \<Rightarrow> 'c \<Rightarrow> faults \<Rightarrow> datetime \<Rightarrow> string \<times> entry \<Rightarrow>
   ('r \<times> 's collector, unit) call" where
  "control_message R cfg ctl P c fault t message =
     (let stream_id = fst message; flds = snd message;
          action = entry_text flds ''action''; symbol = py_upper (entry_text flds ''symbol'');
          acked = callS (fault Ack) (on_store (\<lambda>r. ack R r (ct_stream ctl) (ct_group ctl) [stream_id]))
      in if (action \<noteq> ''subscribe'' \<and> action \<noteq> ''unsubscribe'') \<or> symbol = [] then
           bindS (callS (fault DeadLetter) (on_store (\<lambda>r.
             move_to_dead_letter R cfg r (ct_stream ctl) stream_id flds ''invalid control message'' 1 t))) (\<lambda>_. acked)
         else bindS (on_collector (apply_control P c action symbol)) (\<lambda>_. acked))"

text \<open>One batch of the control loop; an exception leaves the batch and is logged.\<close>

definition control_batch ::
  "'r redis_ops \<Rightarrow> store_config \<Rightarrow> control_config \<Rightarrow> ('c, 's) provider_ops \<Rightarrow> 'c \<Rightarrow> faults \<Rightarrow> datetime \<Rightarrow> (string \<times> entry) list \<Rightarrow>
   ('r \<times> 's collector, unit) call" where
  "control_batch R cfg ctl P c fault t messages =
     catchS (forS (control_message R cfg ctl P c fault t) messages) (\<lambda>_. returnS ())"

definition provider_state_key :: "string \<Rightarrow> string" where
  "provider_state_key name = ''smdg:provider:state:'' @ name"

definition reconnects_key :: "string \<Rightarrow> string" where
  "reconnects_key name = ''smdg:provider:reconnects:'' @ name"

text \<open>The section under the provider lock: connect, then subscribe to everything that is active.\<close>

definition connect_and_resubscribe :: "('c, 's) provider_ops \<Rightarrow> 'c \<Rightarrow> ('s collector, unit) call" where
  "connect_and_resubscribe P c =
     bindS (with_provider (p_connect P c)) (\<lambda>_ st.
       if co_active st \<noteq> {} then with_provider (p_subscribe P c (sorted_list_of_set (co_active st))) st else (Inr (), st))"

definition publish_event :: "'r redis_ops \<Rightarrow> store_config \<Rightarrow> faults \<Rightarrow> string \<Rightarrow> quote_event \<Rightarrow> ('r \<times> 's collector, unit) call" where
  "publish_event R cfg fault name event =
     bindS (callS (fault Publish) (on_store (\<lambda>r. snd (publish_quote R cfg r event)))) (\<lambda>_.
       callS (fault Status) (on_store (\<lambda>r. expire_cmd R r (provider_state_key name) 60)))"

text \<open>
  The body of the provider loop.  \<open>evs\<close> are the events the provider yields until its stream ends or the
  collector is closed, and \<open>evolve\<close> what happens to the provider meanwhile.
\<close>

definition provider_session ::
  "'r redis_ops \<Rightarrow> store_config \<Rightarrow> ('c, 's) provider_ops \<Rightarrow> 'c \<Rightarrow> faults \<Rightarrow> quote_event list \<Rightarrow> ('s \<Rightarrow> 's) \<Rightarrow> bool \<Rightarrow>
   ('r \<times> 's collector, unit) call" where
  "provider_session R cfg P c fault evs evolve closing =
     bindS (on_collector (connect_and_resubscribe P c)) (\<lambda>_.
     bindS (callS (fault Status) (on_store (\<lambda>r. expire_cmd R (set_cmd R r (provider_state_key (p_name P)) (Text ''connected''))
       (provider_state_key (p_name P)) 60))) (\<lambda>_.
     bindS (forS (publish_event R cfg fault (p_name P)) evs) (\<lambda>_ st.
       let st1 = (fst st, (snd st)\<lparr>co_provider := evolve (co_provider (snd st))\<rparr>) in
       if closing then (Inr (), st1)
       else (Inl (ConnectionError (case ph_message (p_health P (co_provider (snd st1))) of
               Some (ch # m) \<Rightarrow> ch # m | _ \<Rightarrow> ''provider event stream ended'')), st1))))"

text \<open>The \<open>except\<close> branch; the next delay is doubled up to the limit.\<close>

definition provider_failure ::
  "'r redis_ops \<Rightarrow> ('c, 's) provider_ops \<Rightarrow> faults \<Rightarrow> ('r \<times> 's collector, unit) call" where
  "provider_failure R P fault =
     bindS (callS (fault Status) (on_store (\<lambda>r. expire_cmd R (set_cmd R r (provider_state_key (p_name P)) (Text ''disconnected''))
       (provider_state_key (p_name P)) 60))) (\<lambda>_.
     bindS (callS (fault Status) (incr_on_store R (reconnects_key (p_name P)))) (\<lambda>_ st.
       (Inr (), (fst st, (snd st)\<lparr>co_provider := p_disconnect P (co_provider (snd st))\<rparr>))))"

definition next_backoff :: "rat \<Rightarrow> rat" where
  "next_backoff backoff = min 30 (backoff * 2)"

text \<open>
  One round of the loop: \<open>None\<close> when the collector was closed, otherwise the next delay.  The delay is reset
  once the provider is connected.  An exception in the \<open>except\<close> branch leaves the loop.
\<close>

definition provider_round ::
  "'r redis_ops \<Rightarrow> store_config \<Rightarrow> ('c, 's) provider_ops \<Rightarrow> 'c \<Rightarrow> faults \<Rightarrow> quote_event list \<Rightarrow> ('s \<Rightarrow> 's) \<Rightarrow> bool \<Rightarrow> rat \<Rightarrow>
   ('r \<times> 's collector, rat option) call" where
  "provider_round R cfg P c fault evs evolve closing backoff st =
     (let connected = (case on_collector (connect_and_resubscribe P c) st of (Inr _, _) \<Rightarrow> fault Status = None | _ \<Rightarrow> False);
          backoff1 = (if connected then 1 / 2 else backoff)
      in case provider_session R cfg P c fault evs evolve closing st of
           (Inr _, st1) \<Rightarrow> (Inr None, st1)
         | (Inl _, st1) \<Rightarrow> bindS (provider_failure R P fault) (\<lambda>_. returnS (Some (next_backoff backoff1))) st1)"

subsection \<open>Building a collector\<close>

datatype provider_choice = UseMock mock_config | UseCoinbase coinbase_config

definition build_provider :: "string \<Rightarrow> mock_config \<Rightarrow> coinbase_config \<Rightarrow> provider_choice result" where
  "build_provider name mock_cfg coinbase_cfg =
     (let provider_name = py_lower (py_strip name) in
      if provider_name = ''mock'' then bindE (make_mock_config mock_cfg) (\<lambda>c. Inr (UseMock c))
      else if provider_name = ''coinbase'' then
        bindE (make_coinbase_config coinbase_cfg) (\<lambda>c. bindE (validate_usage c) (\<lambda>_. Inr (UseCoinbase c)))
      else Inl (ValueError (''unsupported market_data_provider: '' @ name)))"

section \<open>Steps of the collector\<close>

text \<open>
  What can happen to the state, in any order: a control message, the connection phase of the provider loop,
  a disconnection, and what the adapter does on its own (\<open>env\<close>).
\<close>

inductive collector_step :: "('c, 's) provider_ops \<Rightarrow> ('s \<Rightarrow> 's \<Rightarrow> bool) \<Rightarrow> 's collector \<Rightarrow> 's collector \<Rightarrow> bool"
  for P :: "('c, 's) provider_ops" and env :: "'s \<Rightarrow> 's \<Rightarrow> bool" where
  control: "symbol_ok symbol \<Longrightarrow> apply_control P c action symbol st = (m, st') \<Longrightarrow> collector_step P env st st'"
| connecting: "connect_and_resubscribe P c st = (m, st') \<Longrightarrow> collector_step P env st st'"
| disconnecting: "collector_step P env st (st\<lparr>co_provider := p_disconnect P (co_provider st)\<rparr>)"
| adapter: "env (co_provider st) p \<Longrightarrow> collector_step P env st (st\<lparr>co_provider := p\<rparr>)"

inductive collector_reach :: "('c, 's) provider_ops \<Rightarrow> ('s \<Rightarrow> 's \<Rightarrow> bool) \<Rightarrow> 's \<Rightarrow> 's collector \<Rightarrow> bool"
  for P :: "('c, 's) provider_ops" and env :: "'s \<Rightarrow> 's \<Rightarrow> bool" and s0 :: 's where
  start: "collector_reach P env s0 \<lparr>co_provider = s0, co_active = {}\<rparr>"
| step: "collector_reach P env s0 st \<Longrightarrow> collector_step P env st st' \<Longrightarrow> collector_reach P env s0 st'"

definition in_step :: "('c, 's) provider_ops \<Rightarrow> ('s \<Rightarrow> string set) \<Rightarrow> ('s \<Rightarrow> bool) \<Rightarrow> 's collector \<Rightarrow> bool" where
  "in_step P upstream ok st \<longleftrightarrow> ok (co_provider st) \<and> finite (co_active st) \<and> (\<forall>x \<in> co_active st. symbol_ok x) \<and>
     (is_connected P (co_provider st) \<longrightarrow> co_active st \<subseteq> upstream (co_provider st))"

lemma with_provider_eq: "f (co_provider st) = (m, p) \<Longrightarrow> with_provider f st = (m, st\<lparr>co_provider := p\<rparr>)"
  by (simp add: with_provider_def)

locale collector = market_provider P upstream inv
  for P :: "('c, 's) provider_ops" and upstream :: "'s \<Rightarrow> string set" and inv :: "'s \<Rightarrow> bool" +
  fixes env :: "'s \<Rightarrow> 's \<Rightarrow> bool"
  assumes env_spec: "inv s \<Longrightarrow> env s s' \<Longrightarrow> inv s' \<and> upstream s' = upstream s \<and> (is_connected P s' \<longrightarrow> is_connected P s)"
begin

lemma subscribe_call:
  assumes "inv (co_provider st)" "list_all symbol_ok xs" "with_provider (p_subscribe P c xs) st = (m, st')"
  shows "inv (co_provider st') \<and> co_active st' = co_active st \<and> upstream (co_provider st') = upstream (co_provider st) \<union> set xs \<and>
    is_connected P (co_provider st') = is_connected P (co_provider st)"
proof -
  obtain m' p where p: "p_subscribe P c xs (co_provider st) = (m', p)" by (metis surj_pair)
  then have "st' = st\<lparr>co_provider := p\<rparr>" using assms(3) by (simp add: with_provider_eq)
  with subscribe_spec [OF assms(1,2) p] show ?thesis by (simp add: is_connected_def)
qed

lemma unsubscribe_call:
  assumes "inv (co_provider st)" "list_all symbol_ok xs" "with_provider (p_unsubscribe P c xs) st = (m, st')"
  shows "inv (co_provider st') \<and> co_active st' = co_active st \<and> upstream (co_provider st') = upstream (co_provider st) - set xs \<and>
    is_connected P (co_provider st') = is_connected P (co_provider st)"
proof -
  obtain m' p where p: "p_unsubscribe P c xs (co_provider st) = (m', p)" by (metis surj_pair)
  then have "st' = st\<lparr>co_provider := p\<rparr>" using assms(3) by (simp add: with_provider_eq)
  with unsubscribe_spec [OF assms(1,2) p] show ?thesis by (simp add: is_connected_def)
qed

lemma control_active:
  assumes "inv (co_provider st)" "symbol_ok symbol" "apply_control P c action symbol st = (m, st')"
  shows "co_active st' = (if action = ''subscribe'' then insert symbol (co_active st) else co_active st - {symbol}) \<and>
    inv (co_provider st') \<and> is_connected P (co_provider st') = is_connected P (co_provider st)"
  using assms subscribe_call [of "st\<lparr>co_active := insert symbol (co_active st)\<rparr>" "[symbol]" c m st']
    unsubscribe_call [of "st\<lparr>co_active := co_active st - {symbol}\<rparr>" "[symbol]" c m st']
  by (auto simp: apply_control_def Let_def split: if_splits)

lemma control_in_step:
  assumes "in_step P upstream inv st" "symbol_ok symbol" "apply_control P c action symbol st = (m, st')"
  shows "in_step P upstream inv st'"
  using assms subscribe_call [of "st\<lparr>co_active := insert symbol (co_active st)\<rparr>" "[symbol]" c m st']
    unsubscribe_call [of "st\<lparr>co_active := co_active st - {symbol}\<rparr>" "[symbol]" c m st']
  by (auto simp: in_step_def apply_control_def Let_def split: if_splits)

lemma connect_in_step:
  assumes i: "in_step P upstream inv st" and c: "connect_and_resubscribe P c st = (m, st')"
  shows "in_step P upstream inv st' \<and> co_active st' = co_active st \<and>
    (m = Inr () \<longrightarrow> is_connected P (co_provider st') \<and> co_active st' \<subseteq> upstream (co_provider st'))"
proof -
  obtain m1 p where p: "p_connect P c (co_provider st) = (m1, p)" by (metis surj_pair)
  let ?st1 = "st\<lparr>co_provider := p\<rparr>"
  have inv: "inv p" "upstream p = upstream (co_provider st)" "m1 = Inr () \<Longrightarrow> is_connected P p"
      "m1 \<noteq> Inr () \<Longrightarrow> is_connected P p \<Longrightarrow> is_connected P (co_provider st)"
    using connect_spec [OF _ p] i by (auto simp: in_step_def)
  show ?thesis
  proof (cases m1)
    case (Inl e)
    with c p have "m = Inl e" "st' = ?st1" by (simp_all add: connect_and_resubscribe_def with_provider_eq)
    with i inv Inl show ?thesis by (auto simp: in_step_def)
  next
    case (Inr u)
    have xs: "list_all symbol_ok (sorted_list_of_set (co_active st))" "set (sorted_list_of_set (co_active st)) = co_active st"
      using i by (auto simp: in_step_def list_all_iff)
    from c p Inr have "(m, st') = (if co_active st \<noteq> {} then with_provider (p_subscribe P c (sorted_list_of_set (co_active st))) ?st1
        else (Inr (), ?st1))"
      by (auto simp: connect_and_resubscribe_def with_provider_eq split: if_splits)
    with i inv xs Inr show ?thesis
      using subscribe_call [of ?st1 "sorted_list_of_set (co_active st)" c m st'] by (auto simp: in_step_def split: if_splits)
  qed
qed

lemma step_in_step: "collector_step P env st st' \<Longrightarrow> in_step P upstream inv st \<Longrightarrow> in_step P upstream inv st'"
proof (induction rule: collector_step.induct)
  case (disconnecting st)
  then show ?case using disconnect_spec by (auto simp: in_step_def)
next
  case (adapter st p)
  then show ?case using env_spec [of "co_provider st" p] by (auto simp: in_step_def)
qed (use control_in_step connect_in_step in blast)+

lemma reach_in_step:
  assumes "collector_reach P env s0 st" "inv s0"
  shows "in_step P upstream inv st"
  using assms
proof (induction rule: collector_reach.induct)
  case (step st st')
  then show ?case using step_in_step by blast
qed (simp add: in_step_def)

end

section \<open>What a batch of control messages does\<close>

definition control_symbol :: "entry \<Rightarrow> string" where
  "control_symbol flds = py_upper (entry_text flds ''symbol'')"

definition control_rejected :: "entry \<Rightarrow> bool" where
  "control_rejected flds \<longleftrightarrow> entry_text flds ''action'' \<notin> {''subscribe'', ''unsubscribe''} \<or> control_symbol flds = []"

text \<open>What the last message about a symbol asks for, or nothing.\<close>

definition last_word :: "(string \<times> entry) list \<Rightarrow> string \<Rightarrow> string option" where
  "last_word messages x =
     (case filter (\<lambda>m. \<not> control_rejected (snd m) \<and> control_symbol (snd m) = x) messages of
        [] \<Rightarrow> None | m # ms \<Rightarrow> Some (entry_text (snd (last (m # ms))) ''action''))"

definition wanted :: "(string \<times> entry) list \<Rightarrow> string set \<Rightarrow> string set" where
  "wanted messages A = {x. case last_word messages x of None \<Rightarrow> x \<in> A | Some a \<Rightarrow> a = ''subscribe''}"

lemma last_word_Cons:
  "last_word (m # ms) x = (case last_word ms x of
     None \<Rightarrow> if \<not> control_rejected (snd m) \<and> control_symbol (snd m) = x then Some (entry_text (snd m) ''action'') else None
   | Some a \<Rightarrow> Some a)"
  by (auto simp: last_word_def split: list.splits)

lemma wanted_Nil [simp]: "wanted [] A = A"
  by (simp add: wanted_def last_word_def)

lemma wanted_Cons:
  "wanted (m # ms) A = wanted ms (if control_rejected (snd m) then A
     else if entry_text (snd m) ''action'' = ''subscribe'' then insert (control_symbol (snd m)) A else A - {control_symbol (snd m)})"
  by (auto simp: wanted_def last_word_Cons split: option.splits if_splits)

context collector
begin

lemma control_message_effect:
  assumes i: "in_step P upstream inv (snd st)" and ok: "control_rejected flds \<or> symbol_ok (control_symbol flds)"
    and faults: "fault Ack = None" "fault DeadLetter = None"
    and calls: "\<And>s. inv s \<Longrightarrow> is_connected P s \<Longrightarrow> symbol_ok (control_symbol flds) \<Longrightarrow>
      fst (p_subscribe P c [control_symbol flds] s) = Inr () \<and> fst (p_unsubscribe P c [control_symbol flds] s) = Inr ()"
  shows "\<exists>st'. control_message R cfg ctl P c fault t (sid, flds) st = (Inr (), st') \<and> in_step P upstream inv (snd st') \<and>
    co_active (snd st') = (if control_rejected flds then co_active (snd st)
     else if entry_text flds ''action'' = ''subscribe'' then insert (control_symbol flds) (co_active (snd st))
     else co_active (snd st) - {control_symbol flds})"
proof (cases "control_rejected flds")
  case True
  with i faults show ?thesis
    by (auto simp: control_message_def control_rejected_def control_symbol_def on_store_def bindS_def)
next
  case False
  let ?a = "entry_text flds ''action''" and ?x = "control_symbol flds"
  obtain m co where c: "apply_control P c ?a ?x (snd st) = (m, co)" by (metis surj_pair)
  have x: "symbol_ok ?x" using ok False by blast
  have "m = Inr ()"
    using c calls [OF _ _ x] i
    by (auto simp: apply_control_def with_provider_def Let_def in_step_def split: if_splits prod.splits) (metis fst_conv)+
  moreover have "in_step P upstream inv co" by (rule control_in_step [OF i x c])
  ultimately show ?thesis
    using False c faults control_active [OF _ x c] i
    by (auto simp: control_message_def control_rejected_def control_symbol_def on_store_def on_collector_def bindS_def in_step_def)
qed

lemma control_batch_effect:
  assumes "in_step P upstream inv (snd st)" "\<forall>m \<in> set messages. control_rejected (snd m) \<or> symbol_ok (control_symbol (snd m))"
    and faults: "fault Ack = None" "fault DeadLetter = None"
    and calls: "\<And>s x. inv s \<Longrightarrow> is_connected P s \<Longrightarrow> symbol_ok x \<Longrightarrow>
      fst (p_subscribe P c [x] s) = Inr () \<and> fst (p_unsubscribe P c [x] s) = Inr ()"
  shows "\<exists>st'. forS (control_message R cfg ctl P c fault t) messages st = (Inr (), st') \<and> in_step P upstream inv (snd st') \<and>
    co_active (snd st') = wanted messages (co_active (snd st))"
  using assms(1,2)
proof (induction messages arbitrary: st)
  case (Cons m ms)
  obtain sid flds where m: "m = (sid, flds)" by (cases m)
  obtain st1 where st1: "control_message R cfg ctl P c fault t m st = (Inr (), st1)" "in_step P upstream inv (snd st1)"
      "co_active (snd st1) = (if control_rejected flds then co_active (snd st)
        else if entry_text flds ''action'' = ''subscribe'' then insert (control_symbol flds) (co_active (snd st))
        else co_active (snd st) - {control_symbol flds})"
    using control_message_effect [OF Cons.prems(1) _ faults calls, of flds R cfg ctl t sid] Cons.prems(2) by (auto simp: m)
  have "wanted (m # ms) (co_active (snd st)) = wanted ms (co_active (snd st1))" by (simp add: wanted_Cons m st1(3))
  moreover have "forS (control_message R cfg ctl P c fault t) (m # ms) st = forS (control_message R cfg ctl P c fault t) ms st1"
    by (simp add: st1(1))
  ultimately show ?case using Cons.IH [OF st1(2)] Cons.prems(2) by simp
qed (simp add: returnS_def)

end

section \<open>The two adapters\<close>

text \<open>What an adapter does on its own: its task runs, and the collector takes an event from its queue.\<close>

definition mock_env :: "mock_provider \<Rightarrow> mock_provider \<Rightarrow> bool" where
  "mock_env s s' \<longleftrightarrow> mk_running s \<and> (\<exists>cfg uuid5 now. s' = mock_round cfg uuid5 now s) \<or> s' = snd (mock_events s)"

definition coinbase_env :: "coinbase_config \<Rightarrow> coinbase \<Rightarrow> coinbase \<Rightarrow> bool" where
  "coinbase_env cfg s s' \<longleftrightarrow>
     cb_running s \<and> (\<exists>fromiso uuid5 clock idle_text inp. s' = reader_turn cfg fromiso uuid5 clock idle_text inp s) \<or>
     s' = snd (coinbase_events s)"

definition same_subscriptions :: "mock_provider \<Rightarrow> mock_provider \<Rightarrow> bool" where
  "same_subscriptions s s' \<longleftrightarrow> mk_symbols s' = mk_symbols s \<and> mk_state s' = mk_state s \<and> mk_running s' = mk_running s \<and>
     (\<forall>x. dict_get (mk_sequences s) x \<noteq> None \<longrightarrow> dict_get (mk_sequences s') x \<noteq> None)"

lemma mock_emit_subscriptions: "same_subscriptions s0 s \<Longrightarrow> same_subscriptions s0 (snd (mock_emit cfg uuid5 now symbol s))"
  by (auto simp: same_subscriptions_def mock_emit_def mock_next_event_def dict_simps Let_def split: option.splits sum.splits)

lemma mock_round_effect:
  assumes "s' = mock_round cfg uuid5 now s" "mock_inv s"
  shows "mock_inv s' \<and> mk_symbols s' = mk_symbols s \<and> (mk_state s' = CONNECTED \<longrightarrow> mk_state s = CONNECTED)"
proof -
  let ?loop = "forS (mock_emit cfg uuid5 now) (sorted_list_of_set (mk_symbols s)) s"
  have "same_subscriptions s s" by (simp add: same_subscriptions_def)
  then have k: "same_subscriptions s (snd ?loop)" by (rule forS_preserves) (rule mock_emit_subscriptions)
  show ?thesis
  proof (cases ?loop)
    case (Pair m s1)
    with k have "same_subscriptions s s1" by simp
    with assms Pair show ?thesis
      by (cases m) (auto simp: mock_round_def mock_inv_def same_subscriptions_def)
  qed
qed

interpretation mock_collector: collector mock_ops mk_symbols mock_inv mock_env
proof
  fix s s' assume i: "mock_inv s" and e: "mock_env s s'"
  show "mock_inv s' \<and> mk_symbols s' = mk_symbols s \<and> (is_connected mock_ops s' \<longrightarrow> is_connected mock_ops s)"
  proof (cases "s' = snd (mock_events s)")
    case True
    with i show ?thesis by (auto simp: mock_events_def mock_inv_def mock_ops_def is_connected_def mock_health_def split: list.splits)
  next
    case False
    with e obtain cfg uuid5 now where "s' = mock_round cfg uuid5 now s" by (auto simp: mock_env_def)
    with mock_round_effect [OF this i] show ?thesis by (simp add: is_connected_def mock_ops_def mock_health_def)
  qed
qed

interpretation coinbase_collector: collector "coinbase_ops cfg" cb_symbols coinbase_inv "coinbase_env cfg"
  for cfg
proof
  fix s s' assume i: "coinbase_inv s" and e: "coinbase_env cfg s s'"
  show "coinbase_inv s' \<and> cb_symbols s' = cb_symbols s \<and> (is_connected (coinbase_ops cfg) s' \<longrightarrow> is_connected (coinbase_ops cfg) s)"
  proof (cases "s' = snd (coinbase_events s)")
    case True
    with i show ?thesis
      by (auto simp: coinbase_events_def coinbase_inv_def coinbase_ops_def is_connected_def coinbase_health_def split: list.splits)
  next
    case False
    with e obtain fromiso uuid5 clock idle_text inp where "s' = reader_turn cfg fromiso uuid5 clock idle_text inp s"
      by (auto simp: coinbase_env_def)
    from reader_turn_link [OF this] i show ?thesis
      by (auto simp: link_def coinbase_inv_def is_connected_def coinbase_ops_def coinbase_health_def)
  qed
qed

section \<open>The provider loop\<close>

definition quote_payload :: "quote_event \<Rightarrow> entry" where
  "quote_payload e = [(''payload'', QuoteJson (quote_dump e))]"

lemma key_of_state: "reconnects_key name \<noteq> provider_state_key name" "provider_state_key name \<noteq> reconnects_key name"
  by (simp_all add: reconnects_key_def provider_state_key_def)

context redis
begin

lemma publish_events:
  assumes "fault Publish = None" "fault Status = None"
  shows "\<exists>r' new. forS (publish_event R cfg fault name) evs (r, co) = (Inr (), (r', co)) \<and>
    stream (db r') = (stream (db r))(quote_stream cfg := stream (db r) (quote_stream cfg) @ new) \<and>
    map snd new = map quote_payload evs \<and> kv (db r') = kv (db r)"
proof (induction evs arbitrary: r)
  case Nil
  show ?case by (intro exI [of _ r] exI [of _ "[]"]) (simp add: returnS_def)
next
  case (Cons e evs)
  let ?r = "expire_cmd R (snd (publish_quote R cfg r e)) (provider_state_key name) 60"
  have e: "publish_event R cfg fault name e (r, co) = (Inr (), (?r, co))"
    using assms by (simp add: publish_event_def on_store_def bindS_def)
  obtain r' new where "forS (publish_event R cfg fault name) evs (?r, co) = (Inr (), (r', co))"
      "stream (db r') = (stream (db ?r))(quote_stream cfg := stream (db ?r) (quote_stream cfg) @ new)"
      "map snd new = map quote_payload evs" "kv (db r') = kv (db ?r)"
    using Cons.IH by blast
  moreover obtain i where "stream (db ?r) = (stream (db r))(quote_stream cfg := stream (db r) (quote_stream cfg) @ [(i, quote_payload e)])"
      "kv (db ?r) = kv (db r)"
    by (simp add: publish_quote_def quote_payload_def)
  ultimately show ?case
    by (intro exI [of _ r'] exI [of _ "(i, quote_payload e) # new"]) (auto simp: e fun_eq_iff)
qed

lemma round_published:
  assumes c: "connect_and_resubscribe P c co = (Inr (), co')" and f: "fault Publish = None" "fault Status = None"
    and n: "kv (db r) (reconnects_key (p_name P)) = map_option Number n"
  shows "\<exists>r' new. provider_round R cfg P c fault evs evolve False backoff (r, co) =
      (Inr (Some 1), (r', co'\<lparr>co_provider := p_disconnect P (evolve (co_provider co'))\<rparr>)) \<and>
    stream (db r') = (stream (db r))(quote_stream cfg := stream (db r) (quote_stream cfg) @ new) \<and>
    map snd new = map quote_payload evs \<and>
    kv (db r') = (kv (db r))(provider_state_key (p_name P) \<mapsto> Text ''disconnected'',
      reconnects_key (p_name P) \<mapsto> Number (case_option 1 (\<lambda>k. k + 1) n))"
proof -
  let ?name = "p_name P"
  let ?set = "\<lambda>r v. expire_cmd R (set_cmd R r (provider_state_key ?name) (Text v)) (provider_state_key ?name) 60"
  let ?st = "co'\<lparr>co_provider := evolve (co_provider co')\<rparr>"
  obtain r1 new where r1: "forS (publish_event R cfg fault ?name) evs (?set r ''connected'', co') = (Inr (), (r1, co'))"
      "stream (db r1) = (stream (db r))(quote_stream cfg := stream (db r) (quote_stream cfg) @ new)"
      "map snd new = map quote_payload evs" "kv (db r1) = (kv (db r))(provider_state_key ?name \<mapsto> Text ''connected'')"
    using publish_events [OF f, of cfg ?name evs "?set r ''connected''" co'] by auto
  have s: "\<exists>e. provider_session R cfg P c fault evs evolve False (r, co) = (Inl e, (r1, ?st))"
    using c f r1(1) by (simp add: provider_session_def on_collector_def on_store_def bindS_def Let_def)
  let ?r2 = "?set r1 ''disconnected''"
  have k: "kv (db ?r2) (reconnects_key ?name) = map_option Number n" using n r1(4) by (simp add: key_of_state)
  then have inc: "db_incr (db ?r2) (reconnects_key ?name) = (Inr (case_option 1 (\<lambda>k. k + 1) n),
      (db ?r2)\<lparr>kv := (kv (db ?r2))(reconnects_key ?name := Some (Number (case_option 1 (\<lambda>k. k + 1) n)))\<rparr>)"
    by (cases n) (simp_all add: db_incr_def)
  obtain m r3 where r3: "incr_cmd R ?r2 (reconnects_key ?name) = (m, r3)" by (metis surj_pair)
  have "m = Inr (case_option 1 (\<lambda>k. k + 1) n)" and r3db: "db r3 = (db ?r2)\<lparr>kv := (kv (db ?r2))(reconnects_key ?name := Some (Number (case_option 1 (\<lambda>k. k + 1) n)))\<rparr>"
    using incr [of ?r2 "reconnects_key ?name"] inc r3 by simp_all
  moreover have "provider_failure R P fault (r1, ?st) =
      (bindE m (\<lambda>_. Inr ()), (r3, if isl m then ?st else ?st\<lparr>co_provider := p_disconnect P (co_provider ?st)\<rparr>))"
    using f r3 by (cases m) (simp_all add: provider_failure_def on_store_def incr_on_store_def bindS_def)
  ultimately have "provider_round R cfg P c fault evs evolve False backoff (r, co) =
      (Inr (Some 1), (r3, co'\<lparr>co_provider := p_disconnect P (evolve (co_provider co'))\<rparr>))"
    using s c f by (auto simp: provider_round_def on_collector_def bindS_def returnS_def next_backoff_def)
  with r1 show ?thesis
    by (intro exI [of _ r3] exI [of _ new]) (simp add: r3db key_of_state)
qed

end

lemma backoff_doubles: "(next_backoff ^^ k) (1 / 2) = min 30 (2 ^ k / 2)"
proof (induction k)
  case (Suc k)
  have "min 30 (min 30 (2 ^ k / 2) * 2) = min 30 (2 ^ k :: rat)" by (simp add: min_def)
  with Suc show ?case by (simp add: next_backoff_def)
qed simp

lemma next_backoff_bounds: "1 / 2 \<le> b \<Longrightarrow> 1 / 2 \<le> next_backoff b \<and> next_backoff b \<le> 30"
  by (simp add: next_backoff_def)

section \<open>Properties\<close>



text \<open>One round of the provider loop that gets connected appends to the quote stream exactly the events the
  provider yields, each once and in order, and to nothing else; when the stream of events ends it records the
  disconnection, counts the reconnect, disconnects the adapter and goes on with a delay of one second.\<close>

theorem session_publishes_in_order:
  assumes "redis R db" "connect_and_resubscribe P c co = (Inr (), co')" "fault Publish = None" "fault Status = None"
    "kv (db r) (reconnects_key (p_name P)) = map_option Number n"
  shows "\<exists>r' new. provider_round R cfg P c fault evs evolve False backoff (r, co) =
      (Inr (Some 1), (r', co'\<lparr>co_provider := p_disconnect P (evolve (co_provider co'))\<rparr>)) \<and>
    stream (db r') = (stream (db r))(quote_stream cfg := stream (db r) (quote_stream cfg) @ new) \<and>
    map snd new = map quote_payload evs \<and>
    kv (db r') = (kv (db r))(provider_state_key (p_name P) \<mapsto> Text ''disconnected'',
      reconnects_key (p_name P) \<mapsto> Number (case_option 1 (\<lambda>k. k + 1) n))"
  using assms by (rule redis.round_published)

text \<open>The reconnect delay is bounded: from the initial half second it doubles with every failed round up to
  thirty seconds, and whatever a round does, the delay it leaves lies between half a second and thirty.\<close>

theorem reconnect_delay_bounded:
  shows "(next_backoff ^^ k) (1 / 2) = min 30 (2 ^ k / 2) \<and>
    (1 / 2 \<le> backoff \<longrightarrow> provider_round R cfg P c fault evs evolve closing backoff st = (Inr (Some b), st') \<longrightarrow>
       1 / 2 \<le> b \<and> b \<le> 30)"
proof -
  have "1 / 2 \<le> b \<and> b \<le> 30"
    if low: "1 / 2 \<le> backoff" and round: "provider_round R cfg P c fault evs evolve closing backoff st = (Inr (Some b), st')"
  proof -
    obtain x where "b = next_backoff x" "x = 1 / 2 \<or> x = backoff"
      using round by (auto simp: provider_round_def bindS_def returnS_def Let_def split: prod.splits sum.splits if_splits)
    with low next_backoff_bounds [of x] show ?thesis by auto
  qed
  with backoff_doubles show ?thesis by blast
qed

text \<open>The handler that schedules the reconnect needs Redis itself: when Redis is unreachable the provider loop
  ends with the Redis error, whether the connection failed or succeeded, and the adapter stays as the connection
  phase left it.\<close>

theorem store_outage_ends_loop:
  assumes "fault Status = Some e" "connect_and_resubscribe P c co = (m, co')"
  shows "provider_round R cfg P c fault evs evolve closing backoff (r, co) = (Inl e, (r, co'))"
  using assms
  by (cases m) (simp_all add: provider_round_def provider_session_def provider_failure_def on_collector_def bindS_def Let_def)

section \<open>Witnesses\<close>

definition btc_collector :: "coinbase collector" where
  "btc_collector = snd (connect_and_resubscribe (coinbase_ops open_config) (None, \<lambda>_. None)
     (snd (apply_control (coinbase_ops open_config) (None, \<lambda>_. None) ''subscribe'' ''BTC-USD''
        \<lparr>co_provider = new_coinbase, co_active = {}\<rparr>)))"

lemma btc_reachable: "collector_reach (coinbase_ops open_config) (coinbase_env open_config) new_coinbase btc_collector"
proof -
  have "symbol_ok ''BTC-USD''" by code_simp
  from collector_reach.step [OF collector_reach.start collector_step.control [OF this surjective_pairing]]
  show ?thesis unfolding btc_collector_def by (rule collector_reach.step) (rule collector_step.connecting [OF surjective_pairing])
qed

lemma btc_connected: "is_connected (coinbase_ops open_config) (co_provider btc_collector)" "''BTC-USD'' \<in> co_active btc_collector"
  by code_simp+


definition mock_start :: "mock_provider collector" where
  "mock_start = \<lparr>co_provider = new_mock, co_active = {}\<rparr>"

lemma mock_start_in_step: "in_step mock_ops mk_symbols mock_inv mock_start"
  by (simp add: mock_start_def in_step_def mock_inv_def new_mock_def)

definition two_controls :: "(string \<times> entry) list" where
  "two_controls = [(''1-0'', [(''action'', Text ''subscribe''), (''symbol'', Text ''aapl'')]), (''2-0'', [])]"

definition sample_control :: control_config where
  "sample_control = \<lparr>ct_stream = ''smdg:control'', ct_group = ''collector''\<rparr>"


theorem session_publishes_in_order_witness:
  "\<exists>r' co' new. provider_round db_ops sample_store_config mock_ops () quiet_faults [quote_of_input sample_input] id False 4
     (empty_db, mock_start) = (Inr (Some 1), (r', co')) \<and>
     stream r' (quote_stream sample_store_config) = new \<and> map snd new = [quote_payload (quote_of_input sample_input)]"
proof -
  obtain co' where c: "connect_and_resubscribe mock_ops () mock_start = (Inr (), co')"
    by (simp add: connect_and_resubscribe_def mock_start_def with_provider_def mock_ops_def bindS_def)
  show ?thesis
    using session_publishes_in_order [OF mem_redis c, of quiet_faults empty_db None sample_store_config
        "[quote_of_input sample_input]" id 4] by (auto simp: empty_db_fields)
qed

theorem reconnect_delay_bounded_witness:
  "\<exists>b r' co'. provider_round db_ops sample_store_config mock_ops () quiet_faults [] id False 4 (empty_db, mock_start) =
     (Inr (Some b), (r', co')) \<and> b \<le> 30"
proof -
  have "fst (provider_round db_ops sample_store_config mock_ops () quiet_faults [] id False 4 (empty_db, mock_start)) = Inr (Some 1)"
    by code_simp
  then obtain st' where "provider_round db_ops sample_store_config mock_ops () quiet_faults [] id False 4 (empty_db, mock_start) = (Inr (Some 1), st')"
    by (metis prod.collapse)
  with reconnect_delay_bounded [of 0 4 db_ops sample_store_config mock_ops "()" quiet_faults "[]" id False "(empty_db, mock_start)" 1 st']
  show ?thesis by (cases st') auto
qed

theorem store_outage_ends_loop_witness:
  "\<exists>co'. provider_round db_ops sample_store_config mock_ops () (\<lambda>_. Some (RedisError ''down'')) [] id False 4 (empty_db, mock_start) =
     (Inl (RedisError ''down''), (empty_db, co'))"
  by (rule exI) (rule store_outage_ends_loop [OF refl surjective_pairing])

end
