(* ===== verification/Gateway.thy ===== *)
theory Gateway
  imports Usage Security QoS Subscriptions Archive
begin

text \<open>
  The application, \<open>app.py\<close>: the REST endpoints for quotes and operations, and one WebSocket
  connection from the handshake to its cleanup.  A handler is a call over the state of one gateway process:
  the subscription registry with its Redis server, the connection hub, the usage queue and the entitlement
  cache.  An \<open>HTTPException\<close> is a value of the error type; every other error is an exception that leaves the
  handler.  Clock readings, fresh identifiers, the keys a \<open>SCAN\<close> returns and the outcome of a send are
  arguments.  Metrics and log output are left out.

  The lemmas show that no session ever holds a subscription it is not entitled to or above its tier's limit,
  that a refused command changes nothing but the rate-limit bucket and is answered with one error, what an
  accepted command does, that the end of a connection leaves nothing of it behind, and which status each REST
  request gets.  Further ones record the messages that end a connection instead of being refused, and the
  handshake failure that leaks its session.
\<close>

section \<open>State\<close>

record gateway_config =
  gc_policies :: "(string, tier_policy) dict"
  gc_store :: store_config
  gc_subs :: sub_config
  gc_auth :: auth_config
  gc_profile :: profile_config
  gc_archive_enabled :: bool
  gc_websocket_queue_size :: int
  gc_warning_threshold :: int
  gc_idle_timeout :: rat

record 'r gateway =
  gw_registry :: "'r registry"
  gw_hub :: hub
  gw_usage :: usage_recorder
  gw_profiles :: profile_cache

text \<open>What a request reads from outside: the clocks, a fresh identifier and the keys that \<open>SCAN\<close> returns.\<close>

record request_env =
  re_time :: rat
  re_utc :: instant
  re_created_at :: string
  re_fresh :: string
  re_scan :: "string list"

definition gw_server :: "'r gateway \<Rightarrow> 'r" where
  "gw_server gw = server (gw_registry gw)"

definition with_server :: "'r \<Rightarrow> 'r gateway \<Rightarrow> 'r gateway" where
  "with_server r gw = gw\<lparr>gw_registry := (gw_registry gw)\<lparr>server := r\<rparr>\<rparr>"

definition record_usage_event :: "string \<Rightarrow> string \<Rightarrow> string \<Rightarrow> int \<Rightarrow> entry \<Rightarrow> ('r gateway, unit) call" where
  "record_usage_event key client_id event_type quantity metadata gw =
     (Inr (), gw\<lparr>gw_usage := snd (usage_record_event (gw_usage gw)
        \<lparr>u_idempotency_key = key, u_client_id = client_id, u_event_type = event_type, u_quantity = quantity, u_metadata = metadata\<rparr>)\<rparr>)"

definition allow_call :: "'r redis_ops \<Rightarrow> request_env \<Rightarrow> string \<Rightarrow> client_identity \<Rightarrow> int \<Rightarrow> ('r gateway, bool) call" where
  "allow_call R env scope identity limit gw =
     (let (m, r) = limiter_allow R (gw_server gw) scope identity limit (re_time env) in (m, with_server r gw))"

section \<open>REST\<close>

text \<open>The outcome of the two entitlement requests, with the clock before and after them.\<close>

type_synonym profile_calls = "rat \<times> (profile_outcome \<times> rat) \<times> (profile_outcome \<times> rat)"

definition identify :: "gateway_config \<Rightarrow> (string \<Rightarrow> jwt_outcome) \<Rightarrow> profile_calls \<Rightarrow> string option \<Rightarrow> ('r gateway, client_identity) call" where
  "identify cfg decode calls token =
     bindS (liftS (authenticate (gc_auth cfg) decode token)) (\<lambda>identity gw.
       let (now, first, second) = calls;
           (m, cache) = resolve (gc_profile cfg) now first second identity (gw_profiles gw)
       in (m, gw\<lparr>gw_profiles := cache\<rparr>))"

definition get_identity :: "gateway_config \<Rightarrow> (string \<Rightarrow> jwt_outcome) \<Rightarrow> profile_calls \<Rightarrow> string option \<Rightarrow> ('r gateway, client_identity) call" where
  "get_identity cfg decode calls authorization =
     catchS (identify cfg decode calls (bearer_token authorization)) (\<lambda>e.
       case e of AuthenticationError s \<Rightarrow> raiseS (HTTPException 401 s) | _ \<Rightarrow> raiseS e)"

definition enforce_rest_limit :: "'r redis_ops \<Rightarrow> gateway_config \<Rightarrow> request_env \<Rightarrow> client_identity \<Rightarrow> ('r gateway, unit) call" where
  "enforce_rest_limit R cfg env identity =
     bindS (liftS (policy_for (gc_policies cfg) (ci_tier identity))) (\<lambda>policy.
     bindS (allow_call R env ''rest'' identity (rest_requests_per_minute policy)) (\<lambda>allowed.
       if allowed then returnS () else raiseS (HTTPException 429 ''REST rate limit exceeded'')))"

text \<open>The path pattern \<open>^[A-Za-z0-9._:-]{1,32}$\<close>.\<close>

definition symbol_path_ok :: "string \<Rightarrow> bool" where
  "symbol_path_ok s \<longleftrightarrow> 1 \<le> length s \<and> length s \<le> 32 \<and> list_all (\<lambda>c. symbol_char (upper_char c)) s"

definition forbidden :: "error \<Rightarrow> ('s, 'a) call" where
  "forbidden e = (case e of AuthorizationError s \<Rightarrow> raiseS (HTTPException 403 s) | _ \<Rightarrow> raiseS e)"

definition latest_quote ::
  "'r redis_ops \<Rightarrow> gateway_config \<Rightarrow> request_env \<Rightarrow> client_identity \<Rightarrow> string \<Rightarrow> ('r gateway, quote_snapshot) call" where
  "latest_quote R cfg env identity symbol =
     (if \<not> symbol_path_ok symbol then raiseS (HTTPException 422 ''symbol'')
      else let normalized = py_upper symbol in
        bindS (catchS (liftS (check_symbols identity {normalized})) forbidden) (\<lambda>_.
        bindS (enforce_rest_limit R cfg env identity) (\<lambda>_.
        bindS (\<lambda>gw. (get_latest R (gc_store cfg) (re_utc env) (gw_server gw) normalized, gw)) (\<lambda>snapshot.
          case snapshot of
            None \<Rightarrow> raiseS (HTTPException 404 ''quote not found'')
          | Some snap \<Rightarrow>
              bindS (record_usage_event (''rest:'' @ ci_client_id identity @ '':'' @ normalized @ '':'' @ re_fresh env)
                (ci_client_id identity) ''quote_read'' 1
                [(''symbol'', Text normalized), (''tier'', Text (tier_value (ci_tier identity)))]) (\<lambda>_. returnS snap)))))"

definition requested_symbols :: "string \<Rightarrow> string list" where
  "requested_symbols symbols = py_unique (map normalize (filter (\<lambda>s. py_strip s \<noteq> []) (py_split CHR '','' symbols)))"

definition unprocessable :: "error \<Rightarrow> ('s, 'a) call" where
  "unprocessable e = (case e of
       AuthorizationError s \<Rightarrow> raiseS (HTTPException 403 s)
     | _ \<Rightarrow> if is_value_error e then raiseS (HTTPException 422 (error_text e)) else raiseS e)"

definition latest_quotes ::
  "'r redis_ops \<Rightarrow> gateway_config \<Rightarrow> request_env \<Rightarrow> client_identity \<Rightarrow> string \<Rightarrow>
   ('r gateway, quote_snapshot list \<times> string list) call" where
  "latest_quotes R cfg env identity symbols =
     (let normalized = requested_symbols symbols in
      if symbols = [] \<or> 4096 < length symbols then raiseS (HTTPException 422 ''symbols'')
      else if normalized = [] then raiseS (HTTPException 422 ''at least one symbol is required'')
      else
        bindS (catchS (liftS (bindE (validate_symbol_count (gc_policies cfg) (ci_tier identity) (int (length normalized))) (\<lambda>_.
          check_symbols identity (set normalized)))) unprocessable) (\<lambda>_.
        bindS (enforce_rest_limit R cfg env identity) (\<lambda>_.
        bindS (\<lambda>gw. (get_many R (gc_store cfg) (re_utc env) (gw_server gw) [] normalized, gw)) (\<lambda>snapshots.
        bindS (record_usage_event (''rest-many:'' @ ci_client_id identity @ '':'' @ re_fresh env)
          (ci_client_id identity) ''quote_multi_read'' (int (length normalized))
          [(''symbols'', TextList normalized), (''tier'', Text (tier_value (ci_tier identity)))]) (\<lambda>_.
          returnS (concat (map (\<lambda>s. case dict_get snapshots s of Some (Some snap) \<Rightarrow> [snap] | _ \<Rightarrow> []) normalized),
            filter (\<lambda>s. dict_get snapshots s = Some None) normalized))))))"

text \<open>Health: \<open>ping\<close> is the outcome of the Redis call; the reply has a status and two texts.\<close>

definition readiness :: "gateway_config \<Rightarrow> error option \<Rightarrow> archive option \<Rightarrow> (int \<times> string \<times> string) result" where
  "readiness cfg ping archive =
     (case ping of
        Some (RedisError _) \<Rightarrow> Inr (503, ''unavailable'', [])
      | Some e \<Rightarrow> Inl e
      | None \<Rightarrow> Inr (200, ''available'', if \<not> gc_archive_enabled cfg then ''disabled''
          else if archive \<noteq> None then ''available'' else ''unavailable''))"

record internal_stats =
  is_local :: hub_stats
  is_global :: sub_stats
  is_pending :: int
  is_dropped :: nat
  is_archive_available :: bool
  is_timescale_enabled :: bool

definition internal_stats :: "'r redis_ops \<Rightarrow> request_env \<Rightarrow> int \<Rightarrow> archive option \<Rightarrow> 'r gateway \<Rightarrow> internal_stats \<times> 'r gateway" where
  "internal_stats R env pending archive gw =
     (let (stats, r) = refresh_metrics R (re_time env) (re_scan env) (gw_server gw)
      in (\<lparr>is_local = local_stats (gw_hub gw), is_global = stats, is_pending = pending, is_dropped = uq_dropped (gw_usage gw),
           is_archive_available = (archive \<noteq> None),
           is_timescale_enabled = (case archive of None \<Rightarrow> False | Some a \<Rightarrow> timescale_enabled a)\<rparr>, with_server r gw))"

section \<open>The WebSocket connection\<close>

datatype stream_message =
    ConnectedMsg string client_identity tier_policy string int
  | PongMsg "string option"
  | SubscribedMsg "string option" "string list" "string list"
  | UnsubscribedMsg "string option" "string list"
  | SnapshotMsg "string option" quote_snapshot
  | QuoteMsg quote_event
  | HeartbeatMsg string
  | SlowConsumerMsg nat
  | IdleTimeoutMsg
  | ErrorMsg "string option" string string

subsection \<open>The handshake\<close>

datatype handshake = Closed int string | Opened client_identity tier_policy "stream_message list"

definition connection_limit_text :: "int \<Rightarrow> int \<Rightarrow> string" where
  "connection_limit_text active limit =
     ''connection limit exceeded ('' @ string_of_int active @ ''/'' @ string_of_int limit @ '')''"

definition new_session :: "gateway_config \<Rightarrow> tier_policy \<Rightarrow> string \<Rightarrow> client_identity \<Rightarrow> client_session" where
  "new_session cfg policy connection_id identity =
     \<lparr>cs_connection_id = connection_id, cs_identity = identity,
      cs_buffer = new_buffer (max 1 (min (gc_websocket_queue_size cfg) (max_symbols policy * 2))),
      cs_subscriptions = {}, cs_last_sent = []\<rparr>"

text \<open>
  The first message and its usage record.  \<open>hello\<close> is the outcome of accepting the socket and of sending; both
  run before the \<open>try\<close> block, so an exception there skips the cleanup.
\<close>

definition greet_client ::
  "request_env \<Rightarrow> client_identity \<Rightarrow> tier_policy \<Rightarrow> string \<Rightarrow> string \<Rightarrow> int \<Rightarrow> error option \<Rightarrow> ('r gateway, handshake) call" where
  "greet_client env identity policy connection_id correlation_id active hello =
     (case hello of
        Some e \<Rightarrow> raiseS e
      | None \<Rightarrow>
          bindS (record_usage_event (''ws-connect:'' @ connection_id) (ci_client_id identity) ''ws_connect'' 1
            [(''tier'', Text (tier_value (ci_tier identity)))]) (\<lambda>_.
            returnS (Opened identity policy [ConnectedMsg connection_id identity policy correlation_id active])))"

text \<open>\<open>market_stream\<close> up to the receive loop.\<close>

definition open_stream ::
  "'r redis_ops \<Rightarrow> gateway_config \<Rightarrow> (string \<Rightarrow> jwt_outcome) \<Rightarrow> profile_calls \<Rightarrow> request_env \<Rightarrow> string option \<Rightarrow> string option \<Rightarrow>
   string \<Rightarrow> string \<Rightarrow> error option \<Rightarrow> ('r gateway, handshake) call" where
  "open_stream R cfg decode calls env query_token authorization connection_id correlation_id hello =
     (let token = (case query_token of Some (ch # t) \<Rightarrow> Some (ch # t) | _ \<Rightarrow> bearer_token authorization) in
      bindS (catchS (bindS (identify cfg decode calls token) (\<lambda>i. returnS (Some i)))
               (\<lambda>e. case e of AuthenticationError _ \<Rightarrow> returnS None | _ \<Rightarrow> raiseS e)) (\<lambda>found.
        case found of
          None \<Rightarrow> returnS (Closed 4401 ''authentication failed'')
        | Some identity \<Rightarrow>
            bindS (liftS (policy_for (gc_policies cfg) (ci_tier identity))) (\<lambda>policy gw.
              let ((acquired, active), r) = acquire R (gw_server gw) (sc_ttl_seconds (gc_subs cfg)) (ci_client_id identity)
                     connection_id (max_connections policy) (re_time env);
                  gw1 = with_server r gw
              in if \<not> acquired then (Inr (Closed 4408 (connection_limit_text active (max_connections policy))), gw1)
                 else greet_client env identity policy connection_id correlation_id active hello
                   (gw1\<lparr>gw_hub := hub_add (gw_hub gw1) (new_session cfg policy connection_id identity)\<rparr>))))"

text \<open>The \<open>finally\<close> block.\<close>

definition close_stream ::
  "'r redis_ops \<Rightarrow> gateway_config \<Rightarrow> request_env \<Rightarrow> client_identity \<Rightarrow> string \<Rightarrow> 'r gateway \<Rightarrow> 'r gateway" where
  "close_stream R cfg env identity connection_id gw =
     (let reg = snd (registry_disconnect R (gc_subs cfg) (re_scan env) connection_id (re_time env) (gw_registry gw));
          gw1 = gw\<lparr>gw_registry := reg, gw_hub := snd (hub_remove (gw_hub gw) connection_id)\<rparr>;
          gw2 = with_server (release R (gw_server gw1) connection_id) gw1
      in snd (record_usage_event (''ws-disconnect:'' @ connection_id) (ci_client_id identity) ''ws_disconnect'' 1
           [(''tier'', Text (tier_value (ci_tier identity)))] gw2))"

subsection \<open>Commands\<close>

text \<open>
  \<open>SubscriptionCommand.model_validate\<close> on a decoded message.  The validator of \<open>symbols\<close> runs first on
  whatever value the field has; a \<open>TypeError\<close> in it is not turned into a validation error.
\<close>

definition raw_symbols :: "(string \<times> json) list \<Rightarrow> string list option result" where
  "raw_symbols doc =
     (case dict_get doc ''symbols'' of
        None \<Rightarrow> Inr None
      | Some JNull \<Rightarrow> Inr None
      | Some v \<Rightarrow> bindE (json_iter v) (\<lambda>xs. Inr (Some (map py_str xs))))"

definition raw_channels :: "(string \<times> json) list \<Rightarrow> string list option" where
  "raw_channels doc =
     (case dict_get doc ''channels'' of None \<Rightarrow> Some [''quote''] | Some (JArr xs) \<Rightarrow> json_strings xs | _ \<Rightarrow> None)"

definition raw_request_id :: "(string \<times> json) list \<Rightarrow> string option option" where
  "raw_request_id doc =
     (case dict_get doc ''request_id'' of
        None \<Rightarrow> Some None | Some JNull \<Rightarrow> Some None | Some (JStr s) \<Rightarrow> Some (Some s) | _ \<Rightarrow> None)"

definition known_fields :: "(string \<times> json) list \<Rightarrow> bool" where
  "known_fields doc \<longleftrightarrow> set (map fst doc) \<subseteq> {''action'', ''symbols'', ''channels'', ''request_id''}"

definition raw_action :: "(string \<times> json) list \<Rightarrow> string option" where
  "raw_action doc = (case dict_get doc ''action'' of Some (JStr a) \<Rightarrow> Some a | _ \<Rightarrow> None)"

definition command_of_json :: "json \<Rightarrow> subscription_command result" where
  "command_of_json payload =
     (case payload of
        JObj doc \<Rightarrow>
          bindE (raw_symbols doc) (\<lambda>symbols.
            if raw_action doc = None \<or> raw_channels doc = None \<or> raw_request_id doc = None \<or> \<not> known_fields doc
            then Inl (FieldErrors [''type''])
            else validate_command \<lparr>in_action = the (raw_action doc), in_symbols = symbols,
                   in_channels = the (raw_channels doc), in_request_id = the (raw_request_id doc)\<rparr>)
      | _ \<Rightarrow> Inl (FieldErrors [''model'']))"

type_synonym 'r ws = "'r gateway \<times> stream_message list"

definition on_gateway :: "('r gateway, 'a) call \<Rightarrow> ('r ws, 'a) call" where
  "on_gateway m st = (let (x, gw) = m (fst st) in (x, (gw, snd st)))"

definition send_message :: "stream_message \<Rightarrow> ('r ws, unit) call" where
  "send_message m st = (Inr (), (fst st, snd st @ [m]))"

definition session_subscriptions :: "hub \<Rightarrow> string \<Rightarrow> string set" where
  "session_subscriptions h cid = (case hub_session h cid of None \<Rightarrow> {} | Some s \<Rightarrow> cs_subscriptions s)"

text \<open>Subscribing: first the registry, then the hub; a failure of the hub takes the registry back.\<close>

definition register_symbols ::
  "'r redis_ops \<Rightarrow> gateway_config \<Rightarrow> request_env \<Rightarrow> string \<Rightarrow> string set \<Rightarrow> ('r gateway, string set \<times> string set) call" where
  "register_symbols R cfg env cid symbols gw =
     (let (global_added, reg) = registry_subscribe R (gc_subs cfg) (re_scan env) (re_created_at env) cid (re_time env) symbols (gw_registry gw)
      in case hub_subscribe (gc_policies cfg) (gw_hub gw) cid symbols of
           Inr (local_added, h) \<Rightarrow> (Inr (global_added, local_added), gw\<lparr>gw_registry := reg, gw_hub := h\<rparr>)
         | Inl e \<Rightarrow> (Inl e, gw\<lparr>gw_registry := snd (registry_unsubscribe R (gc_subs cfg) (re_scan env) cid (re_time env) global_added reg)\<rparr>))"

definition send_snapshot :: "'r redis_ops \<Rightarrow> gateway_config \<Rightarrow> request_env \<Rightarrow> string option \<Rightarrow> string \<Rightarrow> ('r ws, unit) call" where
  "send_snapshot R cfg env request_id symbol =
     bindS (\<lambda>st. (get_latest R (gc_store cfg) (re_utc env) (gw_server (fst st)) symbol, st)) (\<lambda>snapshot.
       case snapshot of None \<Rightarrow> returnS () | Some snap \<Rightarrow> send_message (SnapshotMsg request_id snap))"

definition subscribe_command ::
  "'r redis_ops \<Rightarrow> gateway_config \<Rightarrow> request_env \<Rightarrow> client_identity \<Rightarrow> string \<Rightarrow> string option \<Rightarrow> string set \<Rightarrow> ('r ws, unit) call" where
  "subscribe_command R cfg env identity cid request_id symbols =
     bindS (\<lambda>st. (validate_symbol_count (gc_policies cfg) (ci_tier identity)
       (int (card (session_subscriptions (gw_hub (fst st)) cid \<union> symbols))), st)) (\<lambda>_.
     bindS (on_gateway (register_symbols R cfg env cid symbols)) (\<lambda>(global_added, local_added).
     bindS (forS (send_snapshot R cfg env request_id) (sorted_list_of_set local_added)) (\<lambda>_.
       send_message (SubscribedMsg request_id (sorted_list_of_set local_added) (sorted_list_of_set global_added)))))"

definition unsubscribe_command ::
  "'r redis_ops \<Rightarrow> gateway_config \<Rightarrow> request_env \<Rightarrow> string \<Rightarrow> string option \<Rightarrow> string set \<Rightarrow> ('r ws, unit) call" where
  "unsubscribe_command R cfg env cid request_id symbols =
     bindS (on_gateway (\<lambda>gw. case hub_unsubscribe (gw_hub gw) cid symbols of
         Inl e \<Rightarrow> (Inl e, gw)
       | Inr (removed, h) \<Rightarrow> (Inr removed, gw\<lparr>gw_hub := h,
           gw_registry := snd (registry_unsubscribe R (gc_subs cfg) (re_scan env) cid (re_time env) removed (gw_registry gw))\<rparr>))) (\<lambda>removed.
       send_message (UnsubscribedMsg request_id (sorted_list_of_set removed)))"

definition action_text :: "action \<Rightarrow> string" where
  "action_text a = (case a of Subscribe \<Rightarrow> ''subscribe'' | Unsubscribe \<Rightarrow> ''unsubscribe'' | Ping \<Rightarrow> ''ping'')"

definition execute_command ::
  "'r redis_ops \<Rightarrow> gateway_config \<Rightarrow> request_env \<Rightarrow> client_identity \<Rightarrow> string \<Rightarrow> subscription_command \<Rightarrow> ('r ws, unit) call" where
  "execute_command R cfg env identity cid command =
     (let symbols = set (cmd_symbols command); request_id = cmd_request_id command in
      bindS (if cmd_action command = Subscribe then subscribe_command R cfg env identity cid request_id symbols
             else unsubscribe_command R cfg env cid request_id symbols) (\<lambda>_.
        on_gateway (record_usage_event
          (''ws:'' @ cid @ '':'' @ (case request_id of Some (ch # t) \<Rightarrow> ch # t | _ \<Rightarrow> re_fresh env) @ '':'' @ action_text (cmd_action command))
          (ci_client_id identity) (''ws_'' @ action_text (cmd_action command)) (int (card symbols))
          [(''tier'', Text (tier_value (ci_tier identity))), (''channels'', TextList (sorted_list_of_set (set (cmd_channels command))))])))"

definition run_command ::
  "'r redis_ops \<Rightarrow> gateway_config \<Rightarrow> request_env \<Rightarrow> client_identity \<Rightarrow> string \<Rightarrow> subscription_command \<Rightarrow> ('r ws, unit) call" where
  "run_command R cfg env identity cid command =
     (if cmd_action command = Ping then send_message (PongMsg (cmd_request_id command))
      else
        bindS (liftS (check_channels identity (set (cmd_channels command)))) (\<lambda>_.
        bindS (liftS (check_symbols identity (set (cmd_symbols command)))) (\<lambda>_.
        bindS (liftS (policy_for (gc_policies cfg) (ci_tier identity))) (\<lambda>policy.
        bindS (on_gateway (allow_call R env ''subscription'' identity (subscription_ops_per_minute policy))) (\<lambda>allowed.
          if allowed then execute_command R cfg env identity cid command
          else send_message (ErrorMsg (cmd_request_id command) ''rate_limit'' ''subscription limit exceeded''))))))"

text \<open>
  One message of \<open>receive_loop\<close>.  The reply to a refused command carries its \<open>request_id\<close>, which has to be
  text again; an exception in the handler, and every exception that is no \<open>ValueError\<close>, ends the loop.
\<close>

definition error_reply :: "json \<Rightarrow> error \<Rightarrow> ('r ws, unit) call" where
  "error_reply payload e =
     (if \<not> is_value_error e then raiseS e
      else case (case payload of JObj doc \<Rightarrow> raw_request_id doc | _ \<Rightarrow> Some None) of
        None \<Rightarrow> raiseS (FieldErrors [''request_id''])
      | Some request_id \<Rightarrow>
          send_message (ErrorMsg request_id (case e of AuthorizationError _ \<Rightarrow> ''forbidden'' | _ \<Rightarrow> ''invalid_command'') (error_text e)))"

definition receive_one ::
  "'r redis_ops \<Rightarrow> gateway_config \<Rightarrow> request_env \<Rightarrow> client_identity \<Rightarrow> string \<Rightarrow> json \<Rightarrow> ('r ws, unit) call" where
  "receive_one R cfg env identity cid payload =
     catchS (bindS (liftS (command_of_json payload)) (run_command R cfg env identity cid)) (error_reply payload)"

subsection \<open>Heartbeats and deliveries\<close>

text \<open>One turn of \<open>heartbeat_loop\<close>; the flag says that the connection is closed with code 4408.\<close>

definition heartbeat_turn ::
  "'r redis_ops \<Rightarrow> gateway_config \<Rightarrow> request_env \<Rightarrow> rat \<Rightarrow> rat \<Rightarrow> string \<Rightarrow> ('r ws, bool) call" where
  "heartbeat_turn R cfg env now last_activity cid st =
     (if gc_idle_timeout cfg < now - last_activity then bindS (send_message IdleTimeoutMsg) (\<lambda>_. returnS True) st
      else let r1 = registry_heartbeat R (gc_subs cfg) cid (re_time env) (gw_server (fst st));
               r2 = connection_heartbeat R r1 (sc_ttl_seconds (gc_subs cfg)) cid (re_time env)
           in bindS (send_message (HeartbeatMsg cid)) (\<lambda>_. returnS False) (with_server r2 (fst st), snd st))"

text \<open>One turn of \<open>send_loop\<close>: the quote, and a warning once enough updates were coalesced since the last one.\<close>

definition send_loop_turn ::
  "gateway_config \<Rightarrow> rat \<Rightarrow> client_session \<Rightarrow> nat \<Rightarrow> rat \<Rightarrow> rat \<Rightarrow> (client_session \<times> nat \<times> stream_message list) option" where
  "send_loop_turn cfg interval session previous_warning now sent =
     (case send_turn interval session now sent of
        None \<Rightarrow> None
      | Some (e, session') \<Rightarrow>
          (let coalesced = lb_coalesced (cs_buffer session') in
           if gc_warning_threshold cfg \<le> int coalesced - int previous_warning
           then Some (session', coalesced, [QuoteMsg e, SlowConsumerMsg coalesced])
           else Some (session', previous_warning, [QuoteMsg e])))"

section \<open>The sessions of a gateway\<close>

text \<open>
  What the tasks of one gateway do, in any order: connections open and close, messages arrive, quotes are
  delivered and sent, and anything else happens that leaves the hub alone (REST requests, heartbeats, other
  gateways on the same Redis server).  Connection identifiers are fresh.
\<close>

inductive gw_step :: "'r redis_ops \<Rightarrow> gateway_config \<Rightarrow> 'r gateway \<Rightarrow> 'r gateway \<Rightarrow> bool"
  for R :: "'r redis_ops" and cfg :: gateway_config where
  connecting: "hub_session (gw_hub gw) cid = None \<Longrightarrow>
    open_stream R cfg decode calls env query_token authorization cid correlation_id hello gw = (m, gw') \<Longrightarrow> gw_step R cfg gw gw'"
| receiving: "hub_session (gw_hub gw) cid = Some s \<Longrightarrow>
    receive_one R cfg env (cs_identity s) cid payload (gw, out) = (m, (gw', out')) \<Longrightarrow> gw_step R cfg gw gw'"
| delivering: "gw_step R cfg gw (gw\<lparr>gw_hub := hub_deliver e (gw_hub gw) cid\<rparr>)"
| sending: "hub_session (gw_hub gw) cid = Some s \<Longrightarrow> send_loop_turn cfg interval s previous now sent = Some (s', previous', messages) \<Longrightarrow>
    gw_step R cfg gw (gw\<lparr>gw_hub := (gw_hub gw)\<lparr>sessions := dict_set cid s' (sessions (gw_hub gw))\<rparr>\<rparr>)"
| closing: "gw_step R cfg gw (close_stream R cfg env identity cid gw)"
| elsewhere: "gw_hub gw' = gw_hub gw \<Longrightarrow> gw_step R cfg gw gw'"

inductive gw_reach :: "'r redis_ops \<Rightarrow> gateway_config \<Rightarrow> 'r gateway \<Rightarrow> bool"
  for R :: "'r redis_ops" and cfg :: gateway_config where
  booted: "gw_hub gw = empty_hub \<Longrightarrow> gw_reach R cfg gw"
| stepped: "gw_reach R cfg gw \<Longrightarrow> gw_step R cfg gw gw' \<Longrightarrow> gw_reach R cfg gw'"

definition session_allowed :: "client_session \<Rightarrow> bool" where
  "session_allowed s \<longleftrightarrow> entitled (cs_identity s) (cs_subscriptions s) \<and> (\<forall>x \<in> cs_subscriptions s. symbol_ok x)"

definition gw_inv :: "gateway_config \<Rightarrow> 'r gateway \<Rightarrow> bool" where
  "gw_inv cfg gw \<longleftrightarrow> hub_inv (gc_policies cfg) (gw_hub gw) \<and> (\<forall>cid s. hub_session (gw_hub gw) cid = Some s \<longrightarrow> session_allowed s)"

definition policies_ok :: "gateway_config \<Rightarrow> bool" where
  "policies_ok cfg \<longleftrightarrow> (\<forall>tier p. policy_for (gc_policies cfg) tier = Inr p \<longrightarrow> 0 \<le> max_symbols p)"

text \<open>What one message can do to the hub.\<close>

definition hub_change :: "gateway_config \<Rightarrow> client_identity \<Rightarrow> string \<Rightarrow> hub \<Rightarrow> hub \<Rightarrow> bool" where
  "hub_change cfg identity cid h h' \<longleftrightarrow> h' = h \<or>
     (\<exists>symbols added. finite symbols \<and> entitled identity symbols \<and> (\<forall>x \<in> symbols. symbol_ok x) \<and>
        hub_subscribe (gc_policies cfg) h cid symbols = Inr (added, h')) \<or>
     (\<exists>symbols removed. finite symbols \<and> hub_unsubscribe h cid symbols = Inr (removed, h'))"

lemma hub_unchanged [simp]:
  "gw_hub (fst (snd (send_message m st))) = gw_hub (fst st)"
  "gw_hub (snd (record_usage_event k c t n md gw)) = gw_hub gw"
  "gw_hub (snd (allow_call R env scope identity limit gw)) = gw_hub gw"
  "gw_hub (with_server r gw) = gw_hub gw"
  by (simp_all add: send_message_def record_usage_event_def allow_call_def with_server_def split: prod.splits)

lemma on_gateway_eq: "on_gateway m st = (x, st') \<longleftrightarrow> (\<exists>gw. m (fst st) = (x, gw) \<and> st' = (gw, snd st))"
  by (cases "m (fst st)") (auto simp: on_gateway_def)

lemma snapshots_hub:
  fixes st :: "'r ws"
  shows "gw_hub (fst (snd (forS (send_snapshot R cfg env request_id) xs st))) = gw_hub (fst st)"
proof (rule forS_preserves [of "\<lambda>st'. gw_hub (fst st') = gw_hub (fst st)"])
  fix x and st' :: "'r ws" assume "gw_hub (fst st') = gw_hub (fst st)"
  then show "gw_hub (fst (snd (send_snapshot R cfg env request_id x st'))) = gw_hub (fst st)"
    unfolding send_snapshot_def by (auto intro!: bindS_preserves [of "\<lambda>st'. gw_hub (fst st') = gw_hub (fst st)"]
        simp: returnS_def split: option.splits)
qed simp

lemma validated_symbols:
  assumes "command_of_json payload = Inr command" "x \<in> set (cmd_symbols command)"
  shows "symbol_ok x"
proof -
  obtain r where r: "validate_command r = Inr command"
    using assms(1) unfolding command_of_json_def
    by (cases payload) (auto simp: bindE_eq_Inr split: if_splits)
  then have "command_field_errors r = []" "cmd_symbols command = normalize_symbols (in_symbols r)"
    by (auto simp: validate_command_def Let_def split: if_splits)
  then show ?thesis using assms(2) by (simp add: command_field_errors_def field_errors_def list_all_iff split: if_splits)
qed

lemma subscribe_hub:
  assumes "subscribe_command R cfg env identity cid request_id symbols st = (m, st')"
    "finite symbols" "entitled identity symbols" "\<forall>x \<in> symbols. symbol_ok x"
  shows "hub_change cfg identity cid (gw_hub (fst st)) (gw_hub (fst st'))"
  using assms(1) unfolding subscribe_command_def
proof (cases rule: bindS_cases)
  case (returned x st1)
  then have st1: "st1 = st" by simp
  from returned(2) show ?thesis unfolding st1
  proof (cases rule: bindS_cases)
    case (raised e)
    then show ?thesis
      by (auto simp: on_gateway_eq register_symbols_def hub_change_def split: prod.splits sum.splits)
  next
    case (returned added st2)
    then obtain local_added global_added where a: "added = (global_added, local_added)"
        "hub_subscribe (gc_policies cfg) (gw_hub (fst st)) cid symbols = Inr (local_added, gw_hub (fst st2))"
      by (auto simp: on_gateway_eq register_symbols_def split: prod.splits sum.splits)
    obtain n st3 where f: "forS (send_snapshot R cfg env request_id) (sorted_list_of_set local_added) st2 = (n, st3)" by (metis surj_pair)
    have "gw_hub (fst st3) = gw_hub (fst st2)"
      using snapshots_hub [of R cfg env request_id "sorted_list_of_set local_added" st2] by (simp add: f)
    moreover have "gw_hub (fst st') = gw_hub (fst st3)"
      using returned(2) f by (cases n) (auto simp: a send_message_def)
    ultimately have "gw_hub (fst st') = gw_hub (fst st2)" by simp
    with a assms(2-4) show ?thesis by (auto simp: hub_change_def)
  qed
qed (auto simp: hub_change_def)

lemma unsubscribe_hub:
  assumes "unsubscribe_command R cfg env cid request_id symbols st = (m, st')" "finite symbols"
  shows "hub_change cfg identity cid (gw_hub (fst st)) (gw_hub (fst st'))"
  using assms(1) unfolding unsubscribe_command_def
proof (cases rule: bindS_cases)
  case (raised e)
  then show ?thesis by (auto simp: on_gateway_eq hub_change_def split: sum.splits)
next
  case (returned removed st1)
  then have "hub_unsubscribe (gw_hub (fst st)) cid symbols = Inr (removed, gw_hub (fst st1))"
    by (auto simp: on_gateway_eq split: sum.splits)
  moreover have "gw_hub (fst st') = gw_hub (fst st1)" using returned(2) by (metis hub_unchanged(1) snd_conv)
  ultimately show ?thesis using assms(2) by (auto simp: hub_change_def)
qed

lemma execute_command_hub:
  assumes "entitled identity (set (cmd_symbols command))" "\<forall>x \<in> set (cmd_symbols command). symbol_ok x"
  shows "hub_change cfg identity cid (gw_hub (fst st)) (gw_hub (fst (snd (execute_command R cfg env identity cid command st))))"
proof -
  let ?P = "\<lambda>st'. hub_change cfg identity cid (gw_hub (fst st)) (gw_hub (fst st'))"
  let ?body = "if cmd_action command = Subscribe then subscribe_command R cfg env identity cid (cmd_request_id command) (set (cmd_symbols command))
     else unsubscribe_command R cfg env cid (cmd_request_id command) (set (cmd_symbols command))"
  have body: "?P st'" if "?body st = (m, st')" for m st'
    using that assms by (cases "cmd_action command = Subscribe") (auto intro: subscribe_hub unsubscribe_hub)
  have usage: "?P (snd (on_gateway (record_usage_event k c t n md) st'))" if "?P st'" for k c t n md st'
    using that by (simp add: on_gateway_def record_usage_event_def)
  show ?thesis unfolding execute_command_def Let_def
    by (rule bindS_post [of _ _ ?P]) (use body usage in blast)+
qed

lemma run_command_hub:
  assumes ok: "\<forall>x \<in> set (cmd_symbols command). symbol_ok x"
  shows "hub_change cfg identity cid (gw_hub (fst st)) (gw_hub (fst (snd (run_command R cfg env identity cid command st))))"
proof (cases "cmd_action command = Ping")
  case True
  then show ?thesis by (simp add: run_command_def hub_change_def)
next
  case False
  let ?P = "\<lambda>st'. hub_change cfg identity cid (gw_hub (fst st)) (gw_hub (fst st'))"
  have refl: "?P st'" if "gw_hub (fst st') = gw_hub (fst st)" for st' using that by (simp add: hub_change_def)
  have allow: "gw_hub (fst st') = gw_hub (fst st)" if "on_gateway (allow_call R env scope identity n) st = (m, st')" for scope n m st'
    using that by (auto simp: on_gateway_eq) (metis hub_unchanged(3) snd_conv)
  have exec: "?P (snd (execute_command R cfg env identity cid command st'))"
    if "entitled identity (set (cmd_symbols command))" "gw_hub (fst st') = gw_hub (fst st)" for st'
    using execute_command_hub [OF that(1) ok, of cfg cid st' R env] that(2) by simp
  show ?thesis unfolding run_command_def if_not_P [OF False]
  proof (rule bindS_post [of _ _ ?P], goal_cases)
    case (2 u s1)
    then have s1: "s1 = st" by (simp add: liftS_def)
    show ?case unfolding s1
    proof (rule bindS_post [of _ _ ?P], goal_cases)
      case (2 u s2)
      then have s2: "s2 = st" "entitled identity (set (cmd_symbols command))"
        by (simp_all add: liftS_def check_symbols_entitled [symmetric])
      show ?case unfolding s2(1)
      proof (rule bindS_post [of _ _ ?P], goal_cases)
        case (2 policy s3)
        then have s3: "s3 = st" by (simp add: liftS_def)
        show ?case unfolding s3
          by (rule bindS_post [of _ _ ?P]) (auto dest!: allow intro!: refl exec [OF s2(2)])
      qed (auto simp: liftS_def intro: refl)
    qed (auto simp: liftS_def intro: refl)
  qed (auto simp: liftS_def intro: refl)
qed

lemma receive_one_hub:
  "hub_change cfg identity cid (gw_hub (fst st)) (gw_hub (fst (snd (receive_one R cfg env identity cid payload st))))"
proof -
  have e: "gw_hub (fst (snd (error_reply payload e st'))) = gw_hub (fst st')" for e st'
    by (simp add: error_reply_def raiseS_def split: json.splits option.splits)
  show ?thesis
  proof (cases "command_of_json payload")
    case (Inl err)
    then have "receive_one R cfg env identity cid payload st = error_reply payload err st"
      by (simp add: receive_one_def liftS_def)
    then show ?thesis by (simp add: e hub_change_def)
  next
    case (Inr command)
    obtain m st' where r: "run_command R cfg env identity cid command st = (m, st')" by (metis surj_pair)
    then have "hub_change cfg identity cid (gw_hub (fst st)) (gw_hub (fst st'))"
      using run_command_hub [of command cfg identity cid st R env] validated_symbols [OF Inr] by auto
    moreover have "bindS (liftS (command_of_json payload)) (run_command R cfg env identity cid) st = (m, st')"
      using r Inr by (simp add: liftS_def bindS_def)
    ultimately show ?thesis by (cases m) (simp_all add: receive_one_def e)
  qed
qed

lemma session_allowed_change:
  assumes "hub_change cfg (cs_identity s0) cid h h'" "hub_session h cid = Some s0"
    "\<forall>c s. hub_session h c = Some s \<longrightarrow> session_allowed s" "hub_session h' c = Some s"
  shows "session_allowed s"
proof -
  have s0: "session_allowed s0" using assms(2,3) by blast
  consider "h' = h" | symbols added where "entitled (cs_identity s0) symbols" "\<forall>x \<in> symbols. symbol_ok x"
      "hub_subscribe (gc_policies cfg) h cid symbols = Inr (added, h')"
    | symbols removed where "hub_unsubscribe h cid symbols = Inr (removed, h')"
    using assms(1) by (auto simp: hub_change_def)
  then show ?thesis
  proof cases
    case 1
    with assms(3,4) show ?thesis by blast
  next
    case 2
    then have "sessions h' = dict_set cid (s0\<lparr>cs_subscriptions := cs_subscriptions s0 \<union> symbols\<rparr>) (sessions h)"
      using assms(2) by (auto simp: hub_subscribe_def hub_session_def Let_def bindE_eq_Inr)
    moreover have "session_allowed (s0\<lparr>cs_subscriptions := cs_subscriptions s0 \<union> symbols\<rparr>)"
      using s0 2 by (auto simp: session_allowed_def entitled_def split: option.splits)
    ultimately show ?thesis using assms(3,4) by (auto simp: hub_session_def dict_simps split: if_splits)
  next
    case 3
    then have "sessions h' = dict_set cid (s0\<lparr>cs_subscriptions := cs_subscriptions s0 - symbols \<inter> cs_subscriptions s0\<rparr>) (sessions h)"
      using assms(2) by (auto simp: hub_unsubscribe_def hub_session_def Let_def)
    moreover have "session_allowed (s0\<lparr>cs_subscriptions := cs_subscriptions s0 - symbols \<inter> cs_subscriptions s0\<rparr>)"
      using s0 by (auto simp: session_allowed_def entitled_def split: option.splits)
    ultimately show ?thesis using assms(3,4) by (auto simp: hub_session_def dict_simps split: if_splits)
  qed
qed

lemma hub_change_inv:
  "hub_change cfg identity cid h h' \<Longrightarrow> hub_inv (gc_policies cfg) h \<Longrightarrow> hub_inv (gc_policies cfg) h'"
  by (auto simp: hub_change_def intro: hub_subscribe_inv hub_unsubscribe_inv)

lemma open_stream_hub:
  assumes "open_stream R cfg decode calls env query_token authorization cid correlation_id hello gw = (m, gw')"
  shows "gw_hub gw' = gw_hub gw \<or>
    (\<exists>policy identity. policy_for (gc_policies cfg) (ci_tier identity) = Inr policy \<and>
       gw_hub gw' = hub_add (gw_hub gw) (new_session cfg policy cid identity))"
proof -
  let ?P = "\<lambda>gw'. gw_hub gw' = gw_hub gw \<or>
    (\<exists>policy identity. policy_for (gc_policies cfg) (ci_tier identity) = Inr policy \<and>
       gw_hub gw' = hub_add (gw_hub gw) (new_session cfg policy cid identity))"
  let ?token = "case query_token of Some (ch # t) \<Rightarrow> Some (ch # t) | _ \<Rightarrow> bearer_token authorization"
  have i: "gw_hub gw1 = gw_hub gw" if "identify cfg decode calls ?token gw = (x, gw1)" for x gw1
    using that by (auto simp: identify_def bindS_def liftS_def split: sum.splits prod.splits)
  have f: "gw_hub gw1 = gw_hub gw"
    if "catchS (bindS (identify cfg decode calls ?token) (\<lambda>i. returnS (Some i)))
      (\<lambda>e. case e of AuthenticationError _ \<Rightarrow> returnS None | _ \<Rightarrow> raiseS e) gw = (x, gw1)" for x gw1
  proof -
    obtain y gw2 where y: "identify cfg decode calls ?token gw = (y, gw2)" by (metis surj_pair)
    then show ?thesis using that i [OF y]
      by (cases y) (auto simp: catchS_def bindS_def returnS_def raiseS_def split: error.splits)
  qed
  have "?P (snd (open_stream R cfg decode calls env query_token authorization cid correlation_id hello gw))"
    unfolding open_stream_def Let_def
  proof (rule bindS_post [of _ _ ?P], goal_cases)
    case (2 found gw1)
    then have h1: "gw_hub gw1 = gw_hub gw" using f by blast
    show ?case
    proof (cases found)
      case (Some identity)
      show ?thesis unfolding Some option.case
      proof (rule bindS_post [of _ _ ?P], goal_cases)
        case (2 policy gw2)
        then have "policy_for (gc_policies cfg) (ci_tier identity) = Inr policy" "gw2 = gw1" by (simp_all add: liftS_def)
        with h1 show ?case
          by (auto simp: greet_client_def raiseS_def bindS_def returnS_def record_usage_event_def with_server_def split: prod.splits if_splits option.splits sum.splits)
      qed (auto simp: liftS_def h1)
    qed (simp add: returnS_def h1)
  qed (use f in blast)
  with assms show ?thesis by simp
qed

lemma new_session_fields:
  "cs_subscriptions (new_session cfg policy cid identity) = {}" "open_buffer (cs_buffer (new_session cfg policy cid identity))"
  "cs_connection_id (new_session cfg policy cid identity) = cid" "cs_identity (new_session cfg policy cid identity) = identity"
  by (simp_all add: new_session_def open_buffer_def new_buffer_inv) (simp add: new_buffer_def)

lemma gw_step_inv:
  assumes "gw_step R cfg gw gw'" "gw_inv cfg gw" "policies_ok cfg"
  shows "gw_inv cfg gw'"
  using assms
proof (induction rule: gw_step.induct)
  case (connecting gw cid decode calls env query_token authorization correlation_id hello m gw')
  from open_stream_hub [OF connecting(2)] show ?case
  proof (elim disjE exE conjE)
    fix policy identity
    let ?s = "new_session cfg policy cid identity"
    assume p: "policy_for (gc_policies cfg) (ci_tier identity) = Inr policy" and h: "gw_hub gw' = hub_add (gw_hub gw) ?s"
    have "0 \<le> max_symbols policy" using connecting(4) p by (auto simp: policies_ok_def)
    then have "hub_inv (gc_policies cfg) (hub_add (gw_hub gw) ?s)"
      using connecting(1,3) p by (intro hub_add_inv) (simp_all add: gw_inv_def new_session_fields hub_session_def)
    moreover have "session_allowed ?s" by (simp add: session_allowed_def new_session_fields entitled_def split: option.splits)
    ultimately show ?thesis
      using connecting(3) by (auto simp: gw_inv_def h hub_session_def hub_add_def dict_simps new_session_fields split: if_splits)
  qed (use connecting(3) in \<open>simp add: gw_inv_def\<close>)
next
  case (receiving gw cid s env payload out m gw' out')
  then have "hub_change cfg (cs_identity s) cid (gw_hub gw) (gw_hub gw')"
    using receive_one_hub [of cfg "cs_identity s" cid "(gw, out)" R env payload] by simp
  with receiving(1,3) show ?case
    using hub_change_inv session_allowed_change by (fastforce simp: gw_inv_def)
next
  case (delivering gw e cid)
  then have "hub_inv (gc_policies cfg) (hub_deliver e (gw_hub gw) cid)" by (simp add: gw_inv_def hub_deliver_inv)
  moreover have "session_allowed s" if "hub_session (hub_deliver e (gw_hub gw) cid) c = Some s" for c s
    using that delivering(1)
    by (auto simp: gw_inv_def hub_session_def hub_deliver_def dict_simps session_allowed_def split: option.splits if_splits)
  ultimately show ?case by (simp add: gw_inv_def)
next
  case (sending gw cid s interval previous now sent s' previous' messages)
  then obtain e where e: "send_turn interval s now sent = Some (e, s')"
    by (auto simp: send_loop_turn_def Let_def split: option.splits if_splits)
  then have "cs_identity s' = cs_identity s" "cs_subscriptions s' = cs_subscriptions s"
    by (auto simp: send_turn_def split: due.splits)
  moreover have "hub_inv (gc_policies cfg) ((gw_hub gw)\<lparr>sessions := dict_set cid s' (sessions (gw_hub gw))\<rparr>)"
    using sending(1,3) by (intro hub_sent_inv [OF _ _ e]) (simp_all add: gw_inv_def hub_session_def)
  ultimately show ?case
    using sending(1,3) by (auto simp: gw_inv_def hub_session_def dict_simps session_allowed_def split: if_splits)
next
  case (closing gw env identity cid)
  then show ?case
    using hub_remove_inv [of "gc_policies cfg" "gw_hub gw" cid]
    by (auto simp: gw_inv_def close_stream_def Let_def hub_session_def hub_remove_def dict_simps split: option.splits if_splits)
next
  case (elsewhere gw' gw)
  then show ?case by (simp add: gw_inv_def)
qed

lemma gw_reach_inv:
  assumes "gw_reach R cfg gw" "policies_ok cfg"
  shows "gw_inv cfg gw"
  using assms
proof (induction rule: gw_reach.induct)
  case (booted gw)
  then show ?case by (auto simp: gw_inv_def hub_session_def empty_hub_def hub_inv_def index_ok_def indexed_def subscribed_def dict_get_default_def dict_ok_def)
next
  case (stepped gw gw')
  then show ?case using gw_step_inv by blast
qed

section \<open>The end of a connection\<close>

context redis
begin

lemma unsubscribe_one_effect:
  assumes "zset_ok (db (server reg))" "py_upper x = x" "unsubscribe_one R cfg cid now x (acc, reg) = (acc', reg')"
  shows "zset_ok (db (server reg'))" "kv (db (server reg')) = kv (db (server reg))"
    "live (db (server reg')) k now = (if k = symbol_key x then live (db (server reg)) k now - {cid} else live (db (server reg)) k now)"
proof -
  obtain removed after r1 where u: "unsubscribe_script R (server reg) (symbol_key x) (connection_key cid) now cid x = ((removed, after), r1)"
    by (metis prod.exhaust)
  have "server reg' = r1" using assms(2,3) u by (auto simp: unsubscribe_one_def schedule_release_def Let_def)
  with unsubscribe_script_effect [OF assms(1) u] show
    "zset_ok (db (server reg'))" "kv (db (server reg')) = kv (db (server reg))"
    "live (db (server reg')) k now = (if k = symbol_key x then live (db (server reg)) k now - {cid} else live (db (server reg)) k now)"
    by simp_all
qed

lemma unsubscribe_all_effect:
  assumes "zset_ok (db (server reg))" "\<forall>x \<in> set xs. py_upper x = x"
  shows "let reg' = snd (foldl (\<lambda>st x. unsubscribe_one R cfg cid now x st) (acc, reg) xs) in
    zset_ok (db (server reg')) \<and> kv (db (server reg')) = kv (db (server reg)) \<and>
    (\<forall>k. live (db (server reg')) k now = live (db (server reg)) k now - (if k \<in> symbol_key ` set xs then {cid} else {}))"
  using assms
proof (induction xs arbitrary: acc reg)
  case (Cons x xs)
  obtain acc1 reg1 where u: "unsubscribe_one R cfg cid now x (acc, reg) = (acc1, reg1)" by (metis surj_pair)
  note e = unsubscribe_one_effect [OF Cons.prems(1) _ u]
  from Cons.IH [of reg1 acc1] Cons.prems e show ?case by (auto simp: u Let_def)
qed simp

lemma registry_disconnect_effect:
  fixes reg cid now
  defines "r \<equiv> db (server reg)"
  assumes "zset_ok r" "finite (sset r (connection_key cid))" "\<forall>x \<in> sset r (connection_key cid). py_upper x = x"
    and d: "d = db (server (snd (registry_disconnect R cfg scan cid now reg)))"
  shows "zset_ok d" "sset d (connection_key cid) = {}" "k \<noteq> connection_key cid \<Longrightarrow> kv d k = kv r k"
    "live d k now = live r k now - (if k \<in> symbol_key ` sset r (connection_key cid) then {cid} else {})"
proof -
  let ?S = "sset r (connection_key cid)"
  define reg1 where "reg1 = (if ?S \<noteq> {} then snd (registry_unsubscribe R cfg scan cid now ?S reg) else reg)"
  have d1: "d = (db (server reg1))\<lparr>kv := (kv (db (server reg1)))(connection_key cid := None),
      sset := (sset (db (server reg1)))(connection_key cid := {})\<rparr>"
    by (auto simp: d registry_disconnect_def reg1_def r_def Let_def case_prod_beta)
  let ?reg2 = "snd (foldl (\<lambda>st x. unsubscribe_one R cfg cid now x st) ({}, reg) (sorted_list_of_set ?S))"
  have u: "zset_ok (db (server ?reg2))" "kv (db (server ?reg2)) = kv r"
    "live (db (server ?reg2)) k now = live r k now - (if k \<in> symbol_key ` ?S then {cid} else {})" for k
    using unsubscribe_all_effect [of reg "sorted_list_of_set ?S" cfg cid now "{}"] assms(2-4) by (auto simp: Let_def r_def)
  have s: "server (snd (registry_unsubscribe R cfg scan cid now ?S reg)) = snd (refresh_metrics R now scan (server ?reg2))"
    by (simp add: registry_unsubscribe_def refreshed_def case_prod_beta Let_def)
  have reg1: "zset_ok (db (server reg1)) \<and> kv (db (server reg1)) = kv r \<and>
      live (db (server reg1)) k now = live r k now - (if k \<in> symbol_key ` ?S then {cid} else {})" for k
  proof (cases "?S = {}")
    case True
    then have "reg1 = reg" by (simp add: reg1_def)
    with True assms(2) show ?thesis by (simp add: r_def [symmetric])
  next
    case False
    then have "server reg1 = snd (refresh_metrics R now scan (server ?reg2))" by (simp add: reg1_def s)
    with refresh_effect [OF u(1) order_refl, of now scan] u(2) u(3) [of k] show ?thesis by simp
  qed
  show "zset_ok d" "sset d (connection_key cid) = {}" "k \<noteq> connection_key cid \<Longrightarrow> kv d k = kv r k"
    "live d k now = live r k now - (if k \<in> symbol_key ` ?S then {cid} else {})"
    using reg1 [of k] by (simp_all add: d1)
qed

lemma close_stream_effect:
  assumes ok: "zset_ok (db (gw_server gw))" "finite (sset (db (gw_server gw)) (connection_key cid))"
      "\<forall>x \<in> sset (db (gw_server gw)) (connection_key cid). py_upper x = x"
    and owner: "kv (db (gw_server gw)) (owner_key cid) = Some (Text client)"
    and d: "d = db (gw_server (close_stream R cfg env identity cid gw))"
  shows "kv d (owner_key cid) = None" "cid \<notin> live d (client_key client) (re_time env)" "sset d (connection_key cid) = {}"
    "x \<in> sset (db (gw_server gw)) (connection_key cid) \<Longrightarrow> cid \<notin> live d (symbol_key x) (re_time env)"
proof -
  let ?reg = "snd (registry_disconnect R (gc_subs cfg) (re_scan env) cid (re_time env) (gw_registry gw))"
  note e = registry_disconnect_effect [where reg = "gw_registry gw" and cid = cid and cfg = "gc_subs cfg" and scan = "re_scan env"
      and now = "re_time env", OF ok [unfolded gw_server_def] refl]
  have keys: "owner_key cid \<noteq> connection_key cid" "symbol_key y \<noteq> client_key client" "connection_key cid \<noteq> owner_key cid" for y
    by (simp_all add: owner_key_def connection_key_def symbol_key_def client_key_def)
  have o: "kv (db (server ?reg)) (owner_key cid) = Some (Text client)" using e(3) [OF keys(1)] owner by (simp add: gw_server_def)
  have d1: "d = db (release R (server ?reg) cid)"
    by (simp add: d close_stream_def record_usage_event_def with_server_def gw_server_def Let_def)
  note r = release_effect [OF e(1) o]
  show "kv d (owner_key cid) = None" using r(3) by (simp add: d1)
  show "cid \<notin> live d (client_key client) (re_time env)" using r(1) by (simp add: d1)
  show "sset d (connection_key cid) = {}" using e(2) keys o by (simp add: d1 release_def)
  assume "x \<in> sset (db (gw_server gw)) (connection_key cid)"
  then have "cid \<notin> live (db (server ?reg)) (symbol_key x) (re_time env)" by (simp add: e(4) gw_server_def)
  moreover have "live d (symbol_key x) (re_time env) = live (db (server ?reg)) (symbol_key x) (re_time env)"
    by (rule live_cong) (simp add: d1 r(4) keys)
  ultimately show "cid \<notin> live d (symbol_key x) (re_time env)" by simp
qed

end

section \<open>What a command does\<close>

lemma command_request_id:
  assumes "command_of_json payload = Inr command"
  shows "\<exists>doc. payload = JObj doc \<and> raw_request_id doc = Some (cmd_request_id command)"
  using assms by (cases payload) (auto simp: command_of_json_def validate_command_def bindE_eq_Inr Let_def split: if_splits)

lemma send_snapshots:
  fixes st :: "'r ws"
  assumes "\<forall>x \<in> set xs. \<exists>snap. get_latest R (gc_store cfg) (re_utc env) (gw_server (fst st)) x = Inr snap"
  shows "\<exists>snaps. forS (send_snapshot R cfg env request_id) xs st = (Inr (), (fst st, snd st @ map (SnapshotMsg request_id) snaps)) \<and>
    snaps = concat (map (\<lambda>x. case get_latest R (gc_store cfg) (re_utc env) (gw_server (fst st)) x of Inr (Some snap) \<Rightarrow> [snap] | _ \<Rightarrow> []) xs)"
  using assms
proof (induction xs arbitrary: st)
  case Nil
  show ?case by (simp add: returnS_def)
next
  case (Cons x xs)
  then obtain snap where snap: "get_latest R (gc_store cfg) (re_utc env) (gw_server (fst st)) x = Inr snap" by auto
  define now :: "quote_snapshot list" where "now = (case snap of None \<Rightarrow> [] | Some y \<Rightarrow> [y])"
  let ?st1 = "(fst st, snd st @ map (SnapshotMsg request_id) now)"
  have "send_snapshot R cfg env request_id x st = (Inr (), ?st1)"
    by (cases snap) (simp_all add: send_snapshot_def snap now_def returnS_def send_message_def)
  with Cons.IH [of ?st1] Cons.prems show ?case by (simp add: snap now_def split: option.splits)
qed

lemma register_symbols_effect:
  assumes "hub_session (gw_hub gw) cid = Some s"
    "validate_symbol_count (gc_policies cfg) (ci_tier (cs_identity s)) (int (card (cs_subscriptions s \<union> symbols))) = Inr ()"
    "registry_subscribe R (gc_subs cfg) (re_scan env) (re_created_at env) cid (re_time env) symbols (gw_registry gw) = (added, reg)"
  shows "\<exists>h. register_symbols R cfg env cid symbols gw = (Inr (added, symbols - cs_subscriptions s), gw\<lparr>gw_registry := reg, gw_hub := h\<rparr>) \<and>
    hub_session h cid = Some (s\<lparr>cs_subscriptions := cs_subscriptions s \<union> symbols\<rparr>)"
  using assms by (auto simp: register_symbols_def hub_subscribe_def hub_session_def Let_def dict_simps)

section \<open>Properties\<close>

text \<open>C3: whatever connections, messages, deliveries and disconnections happen, in any order, every session holds
  only subscriptions to valid symbols its client is entitled to, and never more than its tier allows.\<close>

theorem sessions_stay_entitled:
  assumes "gw_reach R cfg gw" "policies_ok cfg" "hub_session (gw_hub gw) cid = Some s"
  shows "entitled (cs_identity s) (cs_subscriptions s) \<and> (\<forall>x \<in> cs_subscriptions s. symbol_ok x) \<and>
    (\<exists>p. policy_for (gc_policies cfg) (ci_tier (cs_identity s)) = Inr p \<and> int (card (cs_subscriptions s)) \<le> max_symbols p)"
  using gw_reach_inv [OF assms(1,2)] assms(3) hub_inv_session [of "gc_policies cfg" "gw_hub gw" cid s]
  by (auto simp: gw_inv_def session_allowed_def session_inv_def hub_session_def)


text \<open>A subscription command for a channel or a symbol the client is not entitled to is answered with one
  \<open>forbidden\<close> error that carries its request identifier, and changes nothing, not even the rate-limit bucket.\<close>

theorem forbidden_command_refused:
  assumes "command_of_json payload = Inr command" "cmd_action command \<noteq> Ping"
    "\<not> (set (cmd_channels command) \<subseteq> ci_allowed_channels identity \<and> entitled identity (set (cmd_symbols command)))"
  shows "\<exists>reason. receive_one R cfg env identity cid payload (gw, out) =
    (Inr (), (gw, out @ [ErrorMsg (cmd_request_id command) ''forbidden'' reason]))"
proof -
  obtain doc where doc: "payload = JObj doc" "raw_request_id doc = Some (cmd_request_id command)"
    using command_request_id [OF assms(1)] by blast
  have "\<exists>reason. run_command R cfg env identity cid command (gw, out) = (Inl (AuthorizationError reason), (gw, out))"
  proof (cases "check_channels identity (set (cmd_channels command))")
    case (Inl e)
    then show ?thesis using assms(2)
      by (auto simp: run_command_def liftS_def bindS_def check_channels_def not_entitled_def Let_def split: if_splits)
  next
    case (Inr u)
    then have "\<not> entitled identity (set (cmd_symbols command))" using assms(3) by (simp add: check_channels_allowed)
    then obtain reason where "check_symbols identity (set (cmd_symbols command)) = Inl (AuthorizationError reason)"
      by (auto simp: entitled_def check_symbols_def not_entitled_def Let_def split: option.splits)
    with Inr assms(2) show ?thesis by (simp add: run_command_def liftS_def bindS_def)
  qed
  then show ?thesis
    using assms(1) doc by (auto simp: receive_one_def liftS_def bindS_def catchS_def error_reply_def send_message_def)
qed

text \<open>An admitted subscription within the tier's limit adds exactly its symbols to the session, after which the
  client gets the stored snapshots of the new symbols and one acknowledgement that lists them.\<close>

theorem subscription_accepted:
  assumes "command_of_json payload = Inr command" "cmd_action command = Subscribe"
    "set (cmd_channels command) \<subseteq> ci_allowed_channels (cs_identity s)" "entitled (cs_identity s) (set (cmd_symbols command))"
    "policy_for (gc_policies cfg) (ci_tier (cs_identity s)) = Inr policy"
    "allow_call R env ''subscription'' (cs_identity s) (subscription_ops_per_minute policy) gw = (Inr True, gw1)"
    "hub_session (gw_hub gw) cid = Some s" "int (card (cs_subscriptions s \<union> set (cmd_symbols command))) \<le> max_symbols policy"
    "registry_subscribe R (gc_subs cfg) (re_scan env) (re_created_at env) cid (re_time env) (set (cmd_symbols command)) (gw_registry gw1) = (added, reg)"
    "\<forall>x \<in> set (cmd_symbols command). \<exists>snap. get_latest R (gc_store cfg) (re_utc env) (server reg) x = Inr snap"
  shows "\<exists>gw' snaps. receive_one R cfg env (cs_identity s) cid payload (gw, out) =
      (Inr (), (gw', out @ map (SnapshotMsg (cmd_request_id command)) snaps @
         [SubscribedMsg (cmd_request_id command) (sorted_list_of_set (set (cmd_symbols command) - cs_subscriptions s)) (sorted_list_of_set added)])) \<and>
    gw_registry gw' = reg \<and>
    hub_session (gw_hub gw') cid = Some (s\<lparr>cs_subscriptions := cs_subscriptions s \<union> set (cmd_symbols command)\<rparr>)"
proof -
  let ?xs = "set (cmd_symbols command)" and ?id = "cmd_request_id command"
  have h1: "gw_hub gw1 = gw_hub gw" using hub_unchanged(3) assms(6) by (metis snd_conv)
  have v: "validate_symbol_count (gc_policies cfg) (ci_tier (cs_identity s)) (int (card (cs_subscriptions s \<union> ?xs))) = Inr ()"
    using assms(5,8) by (simp add: validate_symbol_count_def)
  obtain h where reg: "register_symbols R cfg env cid ?xs gw1 = (Inr (added, ?xs - cs_subscriptions s), gw1\<lparr>gw_registry := reg, gw_hub := h\<rparr>)"
      and s': "hub_session h cid = Some (s\<lparr>cs_subscriptions := cs_subscriptions s \<union> ?xs\<rparr>)"
    using register_symbols_effect [OF _ v assms(9)] assms(7) h1 by auto
  let ?gw2 = "gw1\<lparr>gw_registry := reg, gw_hub := h\<rparr>"
  obtain snaps where snaps: "forS (send_snapshot R cfg env ?id) (sorted_list_of_set (?xs - cs_subscriptions s)) (?gw2, out) =
      (Inr (), (?gw2, out @ map (SnapshotMsg ?id) snaps))"
    using send_snapshots [of "sorted_list_of_set (?xs - cs_subscriptions s)" R cfg env "(?gw2, out)" ?id] assms(10)
    by (auto simp: gw_server_def)
  have sub: "subscribe_command R cfg env (cs_identity s) cid ?id ?xs (gw1, out) =
      (Inr (), (?gw2, out @ map (SnapshotMsg ?id) snaps @
        [SubscribedMsg ?id (sorted_list_of_set (?xs - cs_subscriptions s)) (sorted_list_of_set added)]))"
    using v assms(7) h1 reg snaps
    by (simp add: subscribe_command_def session_subscriptions_def on_gateway_def bindS_def send_message_def)
  have chk: "check_channels (cs_identity s) (set (cmd_channels command)) = Inr ()" "check_symbols (cs_identity s) ?xs = Inr ()"
    using assms(3,4) by (simp_all add: check_channels_allowed check_symbols_entitled)
  have "\<exists>gw'. run_command R cfg env (cs_identity s) cid command (gw, out) =
      (Inr (), (gw', out @ map (SnapshotMsg ?id) snaps @
        [SubscribedMsg ?id (sorted_list_of_set (?xs - cs_subscriptions s)) (sorted_list_of_set added)])) \<and> gw_registry gw' = reg \<and> gw_hub gw' = h"
    using assms(2,5,6) chk sub
    by (simp add: run_command_def execute_command_def liftS_def on_gateway_def bindS_def record_usage_event_def Let_def)
  with s' assms(1) show ?thesis by (auto simp: receive_one_def liftS_def bindS_def catchS_def)
qed

text \<open>The outcome of a quote request in every case: 403 without touching the limiter when the client is not
  entitled, 429 when the limiter refuses, 404 when no quote is stored, and otherwise the stored quote, with one
  usage event.\<close>

theorem quote_request_status:
  assumes "symbol_path_ok symbol" "policy_for (gc_policies cfg) (ci_tier identity) = Inr policy"
    "allow_call R env ''rest'' identity (rest_requests_per_minute policy) gw = (Inr allowed, gw1)"
    "get_latest R (gc_store cfg) (re_utc env) (gw_server gw1) (py_upper symbol) = Inr found"
  shows "\<exists>reason event. latest_quote R cfg env identity symbol gw =
    (if \<not> entitled identity {py_upper symbol} then (Inl (HTTPException 403 reason), gw)
     else if \<not> allowed then (Inl (HTTPException 429 reason), gw1)
     else case found of None \<Rightarrow> (Inl (HTTPException 404 reason), gw1)
       | Some snap \<Rightarrow> (Inr snap, gw1\<lparr>gw_usage := snd (usage_record_event (gw_usage gw1) event)\<rparr>)) \<and>
    u_client_id event = ci_client_id identity \<and> u_event_type event = ''quote_read''"
proof (cases "entitled identity {py_upper symbol}")
  case False
  then obtain reason where "check_symbols identity {py_upper symbol} = Inl (AuthorizationError reason)"
    by (auto simp: entitled_def check_symbols_def not_entitled_def Let_def split: option.splits)
  then have "latest_quote R cfg env identity symbol gw = (Inl (HTTPException 403 reason), gw)"
    using assms(1) by (simp add: latest_quote_def liftS_def catchS_def bindS_def forbidden_def raiseS_def Let_def)
  with False show ?thesis
    by (intro exI [of _ reason] exI [of _ "\<lparr>u_idempotency_key = [], u_client_id = ci_client_id identity, u_event_type = ''quote_read'',
          u_quantity = 0, u_metadata = []\<rparr>"]) simp
next
  case True
  let ?event = "\<lparr>u_idempotency_key = ''rest:'' @ ci_client_id identity @ '':'' @ py_upper symbol @ '':'' @ re_fresh env,
    u_client_id = ci_client_id identity, u_event_type = ''quote_read'', u_quantity = 1,
    u_metadata = [(''symbol'', Text (py_upper symbol)), (''tier'', Text (tier_value (ci_tier identity)))]\<rparr>"
  have c: "check_symbols identity {py_upper symbol} = Inr ()" using True by (simp add: check_symbols_entitled)
  show ?thesis using assms c True
    by (intro exI [of _ "if allowed then ''quote not found'' else ''REST rate limit exceeded''"] exI [of _ ?event])
      (simp add: latest_quote_def enforce_rest_limit_def liftS_def catchS_def bindS_def raiseS_def returnS_def record_usage_event_def Let_def
        split: option.splits)
qed

text \<open>C38: a connection whose first message cannot be sent leaks: the session stays in the hub and its slot and owner
  record stay on the Redis server, because the cleanup belongs to a later \<open>try\<close> block.\<close>

theorem handshake_failure_leaks_session:
  assumes "redis R db" "identify cfg decode calls (bearer_token authorization) gw = (Inr identity, gw1)"
    "policy_for (gc_policies cfg) (ci_tier identity) = Inr policy" "0 < sc_ttl_seconds (gc_subs cfg)" "zset_ok (db (gw_server gw1))"
    "int (card (insert cid (live (db (gw_server gw1)) (client_key (ci_client_id identity)) (re_time env)))) \<le> max_connections policy"
  shows "\<exists>gw'. open_stream R cfg decode calls env None authorization cid correlation_id (Some e) gw = (Inl e, gw') \<and>
    hub_session (gw_hub gw') cid = Some (new_session cfg policy cid identity) \<and>
    cid \<in> live (db (gw_server gw')) (client_key (ci_client_id identity)) (re_time env) \<and>
    kv (db (gw_server gw')) (owner_key cid) = Some (Text (ci_client_id identity))"
proof -
  obtain granted n r where a: "acquire R (gw_server gw1) (sc_ttl_seconds (gc_subs cfg)) (ci_client_id identity) cid
      (max_connections policy) (re_time env) = ((granted, n), r)"
    by (metis prod.exhaust)
  note eff = redis.acquire_effect [OF assms(1,5,4) a]
  have granted using eff(1) assms(6) by simp
  let ?gw = "(with_server r gw1)\<lparr>gw_hub := hub_add (gw_hub gw1) (new_session cfg policy cid identity)\<rparr>"
  have "open_stream R cfg decode calls env None authorization cid correlation_id (Some e) gw = (Inl e, ?gw)"
    using assms(2,3) a \<open>granted\<close>
    by (simp add: open_stream_def greet_client_def raiseS_def catchS_def bindS_def returnS_def liftS_def Let_def)
  moreover have "hub_session (gw_hub ?gw) cid = Some (new_session cfg policy cid identity)"
    by (simp add: hub_session_def hub_add_def new_session_fields dict_simps)
  ultimately show ?thesis using eff(2,6) \<open>granted\<close> by (auto simp: gw_server_def with_server_def)
qed

text \<open>Messages that end the connection instead of being refused: a number as the list of symbols raises
  \<open>TypeError\<close> in the validator, and a refused command whose request identifier is no text makes the error reply
  itself fail.\<close>

theorem malformed_message_ends_session:
  "receive_one R cfg env identity cid (JObj [(''action'', JStr ''subscribe''), (''symbols'', JInt n)]) st =
     (Inl (TypeError ''object is not iterable''), st) \<and>
   receive_one R cfg env identity cid (JObj [(''action'', JStr ''ping''), (''request_id'', JInt n)]) st =
     (Inl (FieldErrors [''request_id'']), st)"
  by (simp add: receive_one_def command_of_json_def raw_symbols_def raw_request_id_def json_iter_def liftS_def error_reply_def raiseS_def
      catchS_def bindS_def)

text \<open>A text in place of the list of symbols is taken apart into its letters.\<close>

lemma text_symbols_split:
  "command_of_json (JObj [(''action'', JStr ''subscribe''), (''symbols'', JStr ''AAPL'')]) =
     Inr \<lparr>cmd_action = Subscribe, cmd_symbols = [''A'', ''P'', ''L''], cmd_channels = [''quote''], cmd_request_id = None\<rparr>"
  by code_simp

section \<open>Witnesses\<close>

definition sample_gateway_config :: gateway_config where
  "sample_gateway_config = \<lparr>gc_policies = default_tier_policies, gc_store = sample_store_config,
     gc_subs = \<lparr>sc_ttl_seconds = 60, sc_control_stream = ''smdg:control''\<rparr>,
     gc_auth = \<lparr>allow_dev_tokens = True, allow_anonymous_dev = True\<rparr>,
     gc_profile = \<lparr>profile_url = None, entitlement_ttl = 30\<rparr>, gc_archive_enabled = False,
     gc_websocket_queue_size = 512, gc_warning_threshold = 100, gc_idle_timeout = 45\<rparr>"

definition sample_env :: request_env where
  "sample_env = \<lparr>re_time = 1, re_utc = 0, re_created_at = [], re_fresh = ''f'', re_scan = []\<rparr>"

definition fresh_gateway :: "redis_db gateway" where
  "fresh_gateway = \<lparr>gw_registry = \<lparr>server = empty_db, release_tasks = {}\<rparr>, gw_hub = empty_hub, gw_usage = new_recorder 5, gw_profiles = []\<rparr>"

definition anonymous_calls :: profile_calls where
  "anonymous_calls = (0, (FetchFailed, 0), (FetchFailed, 0))"

definition pro_policy :: tier_policy where
  "pro_policy = the (dict_get default_tier_policies ''pro'')"

definition open_result :: "handshake result \<times> redis_db gateway" where
  "open_result = open_stream db_ops sample_gateway_config sample_decode anonymous_calls sample_env None (Some ''Bearer good'')
     ''c1'' ''x'' None fresh_gateway"

definition pro_session :: client_session where
  "pro_session = new_session sample_gateway_config pro_policy ''c1'' sample_identity"

definition subscribe_text :: "string \<Rightarrow> json" where
  "subscribe_text symbol = JObj [(''action'', JStr ''subscribe''), (''symbols'', JArr [JStr symbol])]"

lemma sample_policies_ok: "policies_ok sample_gateway_config"
  by (auto simp: policies_ok_def sample_gateway_config_def policy_for_def default_tier_policies_def split: option.splits if_splits)

lemma sample_pro: "policy_for (gc_policies sample_gateway_config) (ci_tier (cs_identity pro_session)) = Inr pro_policy"
  by code_simp

lemma sample_open: "hub_session (gw_hub (snd open_result)) ''c1'' = Some pro_session"
  by code_simp

lemma sample_commands:
  "command_of_json (subscribe_text ''aapl'') = Inr \<lparr>cmd_action = Subscribe, cmd_symbols = [''AAPL''], cmd_channels = [''quote''], cmd_request_id = None\<rparr>"
  "command_of_json (subscribe_text ''tsla'') = Inr \<lparr>cmd_action = Subscribe, cmd_symbols = [''TSLA''], cmd_channels = [''quote''], cmd_request_id = None\<rparr>"
  by code_simp+

lemma sample_open_reach: "gw_reach db_ops sample_gateway_config (snd open_result)"
proof -
  have "gw_reach db_ops sample_gateway_config fresh_gateway" by (rule gw_reach.booted) (simp add: fresh_gateway_def)
  moreover have "hub_session (gw_hub fresh_gateway) ''c1'' = None" by (simp add: fresh_gateway_def hub_session_def empty_hub_def)
  ultimately show ?thesis
    by (rule gw_reach.stepped [OF _ gw_step.connecting]) (unfold open_result_def, rule surjective_pairing)
qed

theorem sessions_stay_entitled_witness:
  "entitled (cs_identity pro_session) (cs_subscriptions pro_session) \<and>
   (\<exists>p. policy_for (gc_policies sample_gateway_config) (ci_tier (cs_identity pro_session)) = Inr p)"
  using sessions_stay_entitled [OF sample_open_reach sample_policies_ok sample_open] by blast

theorem forbidden_command_refused_witness:
  "\<exists>reason. receive_one db_ops sample_gateway_config sample_env sample_identity ''c1'' (subscribe_text ''tsla'') (snd open_result, []) =
     (Inr (), (snd open_result, [ErrorMsg None ''forbidden'' reason]))"
  using forbidden_command_refused [OF sample_commands(2), of sample_identity db_ops sample_gateway_config sample_env "''c1''" "snd open_result" "[]"]
  by (simp add: sample_identity_def entitled_def)

lemma sample_allowed:
  "fst (allow_call db_ops sample_env ''subscription'' (cs_identity pro_session) (subscription_ops_per_minute pro_policy) (snd open_result)) = Inr True"
  "fst (allow_call db_ops sample_env ''rest'' sample_identity (rest_requests_per_minute pro_policy) (snd open_result)) = Inr True"
  by code_simp+

definition sample_added :: "string set \<times> redis_db registry" where
  "sample_added = registry_subscribe db_ops (gc_subs sample_gateway_config) [] [] ''c1'' 1 {''AAPL''}
     (gw_registry (snd (allow_call db_ops sample_env ''subscription'' (cs_identity pro_session)
        (subscription_ops_per_minute pro_policy) (snd open_result))))"

lemma sample_no_quote:
  "get_latest db_ops (gc_store sample_gateway_config) 0 (server (snd sample_added)) ''AAPL'' = Inr None"
  "get_latest db_ops (gc_store sample_gateway_config) 0 (gw_server (snd (allow_call db_ops sample_env ''rest'' sample_identity
     (rest_requests_per_minute pro_policy) (snd open_result)))) ''AAPL'' = Inr None"
  by code_simp+

lemma pro_session_fields: "cs_identity pro_session = sample_identity" "cs_subscriptions pro_session = {}"
  by (simp_all add: pro_session_def new_session_fields)

theorem subscription_accepted_witness:
  "\<exists>gw' out' added. receive_one db_ops sample_gateway_config sample_env sample_identity ''c1'' (subscribe_text ''aapl'') (snd open_result, []) =
     (Inr (), (gw', out' @ [SubscribedMsg None [''AAPL''] added])) \<and>
     hub_session (gw_hub gw') ''c1'' = Some (pro_session\<lparr>cs_subscriptions := {''AAPL''}\<rparr>)"
proof -
  let ?gw1 = "snd (allow_call db_ops sample_env ''subscription'' (cs_identity pro_session) (subscription_ops_per_minute pro_policy) (snd open_result))"
  have a: "allow_call db_ops sample_env ''subscription'' (cs_identity pro_session) (subscription_ops_per_minute pro_policy) (snd open_result) =
      (Inr True, ?gw1)"
    using sample_allowed(1) by (metis prod.collapse)
  have r: "registry_subscribe db_ops (gc_subs sample_gateway_config) (re_scan sample_env) (re_created_at sample_env) ''c1'' (re_time sample_env)
      {''AAPL''} (gw_registry ?gw1) = (fst sample_added, snd sample_added)"
    by (simp add: sample_added_def sample_env_def)
  have m: "int (card {''AAPL''}) \<le> max_symbols pro_policy" by code_simp
  have e: "entitled sample_identity {''AAPL''}" "{''quote''} \<subseteq> ci_allowed_channels sample_identity"
    by (simp_all add: sample_identity_def entitled_def)
  have q: "\<exists>snap. get_latest db_ops (gc_store sample_gateway_config) (re_utc sample_env) (server (snd sample_added)) ''AAPL'' = Inr snap"
    using sample_no_quote(1) by (simp add: sample_env_def)
  show ?thesis
    using subscription_accepted [OF sample_commands(1) _ _ _ sample_pro a sample_open, of "fst sample_added" "snd sample_added" "[]"] r m e q
    by (auto simp: pro_session_fields)
qed

theorem quote_request_status_witness:
  "\<exists>reason gw'. latest_quote db_ops sample_gateway_config sample_env sample_identity ''aapl'' (snd open_result) =
     (Inl (HTTPException 404 reason), gw')"
proof -
  let ?gw1 = "snd (allow_call db_ops sample_env ''rest'' sample_identity (rest_requests_per_minute pro_policy) (snd open_result))"
  have a: "allow_call db_ops sample_env ''rest'' sample_identity (rest_requests_per_minute pro_policy) (snd open_result) = (Inr True, ?gw1)"
    using sample_allowed(2) by (metis prod.collapse)
  have p: "symbol_path_ok ''aapl''" "py_upper ''aapl'' = ''AAPL''" by code_simp+
  have q: "get_latest db_ops (gc_store sample_gateway_config) (re_utc sample_env) (gw_server ?gw1) (py_upper ''aapl'') = Inr None"
    using sample_no_quote(2) p(2) by (simp add: sample_env_def)
  from quote_request_status [OF p(1) sample_pro [unfolded pro_session_fields] a q] p(2) show ?thesis
    by (auto simp: sample_identity_def entitled_def)
qed

definition closing_gateway :: "redis_db gateway" where
  "closing_gateway = fresh_gateway\<lparr>gw_hub := one_session_hub, gw_registry := \<lparr>server = empty_db
     \<lparr>kv := (kv empty_db)(owner_key ''c1'' := Some (Text ''u'')), sset := (sset empty_db)(connection_key ''c1'' := {''AAPL''}),
      zset := (zset empty_db)(symbol_key ''AAPL'' := [(''c1'', 60)], client_key ''u'' := [(''c1'', 60)])\<rparr>, release_tasks = {}\<rparr>\<rparr>"


theorem handshake_failure_leaks_session_witness:
  "\<exists>gw'. open_stream db_ops sample_gateway_config sample_decode anonymous_calls sample_env None (Some ''Bearer good'') ''c1'' ''x''
     (Some (RuntimeError ''gone'')) fresh_gateway = (Inl (RuntimeError ''gone''), gw') \<and>
     hub_session (gw_hub gw') ''c1'' = Some pro_session"
proof -
  have i: "identify sample_gateway_config sample_decode anonymous_calls (bearer_token (Some ''Bearer good'')) fresh_gateway = (Inr sample_identity, fresh_gateway)"
  proof -
    have "authenticate (gc_auth sample_gateway_config) sample_decode (bearer_token (Some ''Bearer good'')) = Inr sample_identity" by code_simp
    then show ?thesis
      by (simp add: identify_def liftS_def bindS_def anonymous_calls_def resolve_def sample_gateway_config_def fresh_gateway_def)
  qed
  have z: "zset_ok (id (gw_server fresh_gateway))" "live (id (gw_server fresh_gateway)) k 1 = {}" for k
    by (simp_all add: gw_server_def fresh_gateway_def empty_db_def zset_ok_def dict_ok_def live_def)
  have m: "1 \<le> max_connections pro_policy" by code_simp
  have ttl: "0 < sc_ttl_seconds (gc_subs sample_gateway_config)" by (simp add: sample_gateway_config_def)
  have lim: "int (card (insert ''c1'' (live (id (gw_server fresh_gateway)) (client_key (ci_client_id sample_identity)) (re_time sample_env))))
      \<le> max_connections pro_policy"
    using m z(2) by (simp add: sample_env_def)
  from handshake_failure_leaks_session [OF mem_redis i sample_pro [unfolded pro_session_fields] ttl z(1) lim, of "''x''" "RuntimeError ''gone''"]
  show ?thesis unfolding pro_session_def by blast
qed

end
