(* ===== verification/Candle_Api.thy ===== *)
theory Candle_Api
  imports Gateway
begin

text \<open>
  The history endpoint, \<open>candle_api.py\<close>: the checks of a request, the reader that is reconnected to the
  archive at most every thirty seconds, and the answer of the hybrid store.  The state is that of the gateway
  with the reader of the archive; the history store of the application always holds the same archive object,
  so one field stands for both.  What connecting to PostgreSQL gives is an argument.

  The lemmas give the outcome of a request in every case and show that a failed connection attempt is not
  repeated within thirty seconds.
\<close>

record history_config =
  hc_archive_enabled :: bool
  hc_database_url :: "string option"
  hc_archive_retention :: int

record history_reader =
  hr_archive :: "archive option"
  hr_retry_at :: rat

text \<open>A connection attempt: the clock before the lock, inside it and after a failure, the outcomes of the pool
  and of the statements, and the database it reaches.\<close>

record attempt =
  at_before :: rat
  at_locked :: rat
  at_failed :: rat
  at_pool :: "unit result"
  at_tables :: "unit result"
  at_listed :: bool
  at_install :: "unit result"
  at_database :: archive_db

definition reader_available :: "history_reader \<Rightarrow> bool" where
  "reader_available hr \<longleftrightarrow> (case hr_archive hr of None \<Rightarrow> False | Some a \<Rightarrow> available a)"

definition archive_configured :: "history_config \<Rightarrow> bool" where
  "archive_configured hc \<longleftrightarrow> hc_archive_enabled hc \<and> hc_database_url hc \<noteq> None \<and> hc_database_url hc \<noteq> Some []"

definition ensure_archive_reader :: "history_config \<Rightarrow> attempt \<Rightarrow> (history_reader, unit) call" where
  "ensure_archive_reader hc att hr =
     (if \<not> archive_configured hc \<or> reader_available hr \<or> at_before att < hr_retry_at hr \<or> at_locked att < hr_retry_at hr
      then (Inr (), hr)
      else case make_archive (hc_database_url hc) (at_database att) of
        Inl e \<Rightarrow> (Inl e, hr)
      | Inr candidate \<Rightarrow>
          (case start_archive (at_pool att) (at_tables att) (at_listed att) (at_install att) candidate of
             (Inl e, _) \<Rightarrow> (Inr (), hr\<lparr>hr_retry_at := at_failed att + 30\<rparr>)
           | (Inr _, a) \<Rightarrow> (Inr (), hr\<lparr>hr_archive := Some a, hr_retry_at := 0\<rparr>)))"

text \<open>\<open>HybridCandleHistoryStore.get_candles\<close> on the two stores.\<close>

definition history_get_candles ::
  "'r redis_ops \<Rightarrow> store_config \<Rightarrow> history_config \<Rightarrow> instant \<Rightarrow> archive option \<Rightarrow> 'r \<Rightarrow> string \<Rightarrow> timeframe \<Rightarrow> int \<Rightarrow> datetime \<Rightarrow>
   candle_series result \<times> 'r" where
  "history_get_candles R cfg hc now arch r symbol tf limit end_at =
     (let (hot, r') = hot_get_candles R cfg now r symbol tf limit end_at
      in (hybrid_get_candles hot (map_option (\<lambda>a. archive_get_candles a (hc_archive_retention hc) symbol tf limit end_at) arch)
            now (candle_history_retention_seconds cfg) (hc_archive_retention hc) tf limit, r'))"

definition history_end :: "instant \<Rightarrow> datetime option \<Rightarrow> datetime result" where
  "history_end now end_at =
     (case end_at of
        None \<Rightarrow> Inr (utc_datetime now)
      | Some t \<Rightarrow>
          if \<not> is_aware t then Inl (HTTPException 422 ''end must include timezone information'')
          else if now < dt_us t then Inl (HTTPException 422 ''end must not be in the future'')
          else Inr (utc_datetime (dt_us t)))"

definition on_app :: "('r gateway, 'a) call \<Rightarrow> ('r gateway \<times> history_reader, 'a) call" where
  "on_app m st = (let (x, gw) = m (fst st) in (x, (gw, snd st)))"

definition on_reader :: "(history_reader, 'a) call \<Rightarrow> ('r gateway \<times> history_reader, 'a) call" where
  "on_reader m st = (let (x, hr) = m (snd st) in (x, (fst st, hr)))"

definition no_history :: "service_tier \<Rightarrow> error" where
  "no_history tier = HTTPException 403 (''historical data is not available for the '' @ tier_value tier @ '' tier'')"

fun timeframe_text :: "timeframe \<Rightarrow> string" where
  "timeframe_text TF_1m = ''1m''"
| "timeframe_text TF_5m = ''5m''"
| "timeframe_text TF_15m = ''15m''"
| "timeframe_text TF_1h = ''1h''"
| "timeframe_text TF_4h = ''4h''"
| "timeframe_text TF_1d = ''1d''"

definition serve_history ::
  "'r redis_ops \<Rightarrow> gateway_config \<Rightarrow> history_config \<Rightarrow> request_env \<Rightarrow> client_identity \<Rightarrow> string \<Rightarrow> timeframe \<Rightarrow> int \<Rightarrow> datetime \<Rightarrow>
   ('r gateway \<times> history_reader, candle_series) call" where
  "serve_history R cfg hc env identity symbol tf limit end_at =
     bindS (\<lambda>st. let (m, r) = history_get_candles R (gc_store cfg) hc (re_utc env) (hr_archive (snd st)) (gw_server (fst st)) symbol tf limit end_at
                 in (m, (with_server r (fst st), snd st))) (\<lambda>series.
     bindS (on_app (record_usage_event (''rest-candles:'' @ ci_client_id identity @ '':'' @ symbol @ '':'' @ re_fresh env)
       (ci_client_id identity) ''candle_history_read'' (s_returned_count series)
       [(''symbol'', Text symbol), (''timeframe'', Text (timeframe_text tf)), (''tier'', Text (tier_value (ci_tier identity))),
        (''source'', Text ''observed_quote_aggregation'')])) (\<lambda>_.
       returnS series))"

definition historical_candles ::
  "'r redis_ops \<Rightarrow> gateway_config \<Rightarrow> history_config \<Rightarrow> request_env \<Rightarrow> attempt \<Rightarrow> client_identity \<Rightarrow> string \<Rightarrow> timeframe \<Rightarrow> int \<Rightarrow>
   datetime option \<Rightarrow> ('r gateway \<times> history_reader, candle_series) call" where
  "historical_candles R cfg hc env att identity symbol tf limit end_at =
     (if \<not> symbol_path_ok symbol \<or> limit < 1 \<or> 1000 < limit then raiseS (HTTPException 422 ''request'')
      else let normalized = py_upper symbol in
        bindS (catchS (liftS (check_symbols identity {normalized})) forbidden) (\<lambda>_.
        bindS (liftS (policy_for (gc_policies cfg) (ci_tier identity))) (\<lambda>policy.
          if \<not> historical_data policy then raiseS (no_history (ci_tier identity))
          else
            bindS (on_app (enforce_rest_limit R cfg env identity)) (\<lambda>_.
            bindS (liftS (history_end (re_utc env) end_at)) (\<lambda>effective_end.
            bindS (on_reader (ensure_archive_reader hc att)) (\<lambda>_.
              serve_history R cfg hc env identity normalized tf limit effective_end))))))"

section \<open>Properties\<close>

lemma ensure_returns: "\<exists>hr'. ensure_archive_reader hc att hr = (Inr (), hr')"
  by (auto simp: ensure_archive_reader_def make_archive_def archive_configured_def split: prod.splits sum.splits)

text \<open>A history request is refused, in this order, when the client is not entitled to the symbol, its tier has no
  history, its request limit is used up or the end is naive or in the future; otherwise the answer is that of
  the hybrid store for the symbol in upper case, whether or not the archive could be reconnected.\<close>

theorem history_request_outcome:
  assumes "symbol_path_ok symbol" "1 \<le> limit" "limit \<le> 1000"
    and p: "policy_for (gc_policies cfg) (ci_tier identity) = Inr policy"
    and a: "allow_call R env ''rest'' identity (rest_requests_per_minute policy) gw = (Inr allowed, gw1)"
  shows "\<exists>reason hr'. ensure_archive_reader hc att hr = (Inr (), hr') \<and>
    historical_candles R cfg hc env att identity symbol tf limit end_at (gw, hr) =
      (if \<not> entitled identity {py_upper symbol} then (Inl (HTTPException 403 reason), (gw, hr))
       else if \<not> historical_data policy then (Inl (no_history (ci_tier identity)), (gw, hr))
       else if \<not> allowed then (Inl (HTTPException 429 reason), (gw1, hr))
       else case history_end (re_utc env) end_at of
         Inl e \<Rightarrow> (Inl e, (gw1, hr))
       | Inr t \<Rightarrow> serve_history R cfg hc env identity (py_upper symbol) tf limit t (gw1, hr'))"
proof -
  obtain hr' where r: "ensure_archive_reader hc att hr = (Inr (), hr')" using ensure_returns by blast
  have ok: "symbol_path_ok symbol" "\<not> limit < 1" "\<not> 1000 < limit" using assms(1-3) by simp_all
  note defs = historical_candles_def liftS_def bindS_def catchS_def raiseS_def on_app_def on_reader_def enforce_rest_limit_def
    returnS_def Let_def
  show ?thesis
  proof (cases "entitled identity {py_upper symbol}")
    case False
    then obtain reason where "check_symbols identity {py_upper symbol} = Inl (AuthorizationError reason)"
      by (auto simp: entitled_def check_symbols_def not_entitled_def Let_def split: option.splits)
    then show ?thesis using False r by (intro exI [of _ reason] exI [of _ hr']) (simp add: defs ok forbidden_def)
  next
    case True
    then have "check_symbols identity {py_upper symbol} = Inr ()" by (simp add: check_symbols_entitled)
    then show ?thesis using True r p a
      by (intro exI [of _ "''REST rate limit exceeded''"] exI [of _ hr']) (simp add: defs ok split: sum.splits)
  qed
qed

text \<open>After a failed attempt to connect to the archive none is made within thirty seconds of it: until then every
  request leaves the reader as it is.\<close>

theorem archive_retry_cooldown:
  assumes "archive_configured hc" "\<not> reader_available hr" "hr_retry_at hr \<le> at_before att" "hr_retry_at hr \<le> at_locked att"
    and "at_pool att = Inl e" "ensure_archive_reader hc att hr = (Inr (), hr')" "at_before later < at_failed att + 30"
  shows "hr_archive hr' = hr_archive hr \<and> ensure_archive_reader hc later hr' = (Inr (), hr')"
proof -
  have "hr' = hr\<lparr>hr_retry_at := at_failed att + 30\<rparr>"
    using assms(1-6) by (auto simp: ensure_archive_reader_def make_archive_def start_archive_def archive_configured_def split: if_splits)
  then show ?thesis using assms(7) by (simp add: ensure_archive_reader_def)
qed

section \<open>Witnesses\<close>

definition sample_history_config :: history_config where
  "sample_history_config = \<lparr>hc_archive_enabled = True, hc_database_url = Some ''postgresql://archive'', hc_archive_retention = 3600\<rparr>"

definition failed_attempt :: "rat \<Rightarrow> attempt" where
  "failed_attempt now = \<lparr>at_before = now, at_locked = now, at_failed = now, at_pool = Inl (OSError ''refused''), at_tables = Inr (),
     at_listed = False, at_install = Inr (), at_database = \<lparr>events = [], candles_1m = []\<rparr>\<rparr>"

definition no_reader :: history_reader where
  "no_reader = \<lparr>hr_archive = None, hr_retry_at = 0\<rparr>"

theorem history_request_outcome_witness:
  "\<exists>gw'. historical_candles db_ops sample_gateway_config sample_history_config sample_env (failed_attempt 1) sample_identity ''aapl'' TF_1m 5
     (Some (utc_datetime 1)) (snd open_result, no_reader) = (Inl (HTTPException 422 ''end must not be in the future''), (gw', no_reader))"
proof -
  let ?gw1 = "snd (allow_call db_ops sample_env ''rest'' sample_identity (rest_requests_per_minute pro_policy) (snd open_result))"
  have a: "allow_call db_ops sample_env ''rest'' sample_identity (rest_requests_per_minute pro_policy) (snd open_result) = (Inr True, ?gw1)"
    using sample_allowed(2) by (metis prod.collapse)
  have p: "symbol_path_ok ''aapl''" "py_upper ''aapl'' = ''AAPL''" "historical_data pro_policy" by code_simp+
  have e: "history_end (re_utc sample_env) (Some (utc_datetime 1)) = Inl (HTTPException 422 ''end must not be in the future'')"
    by (simp add: history_end_def sample_env_def)
  from history_request_outcome [OF p(1) _ _ sample_pro [unfolded pro_session_fields] a, of 5 sample_history_config "failed_attempt 1"
      no_reader TF_1m "Some (utc_datetime 1)"] p e
  show ?thesis by (auto simp: sample_identity_def entitled_def)
qed

theorem archive_retry_cooldown_witness:
  "\<exists>hr'. ensure_archive_reader sample_history_config (failed_attempt 1) no_reader = (Inr (), hr') \<and>
     ensure_archive_reader sample_history_config (failed_attempt 2) hr' = (Inr (), hr')"
proof -
  obtain hr' where r: "ensure_archive_reader sample_history_config (failed_attempt 1) no_reader = (Inr (), hr')" using ensure_returns by blast
  have "archive_configured sample_history_config" "\<not> reader_available no_reader"
    by (simp_all add: archive_configured_def sample_history_config_def reader_available_def no_reader_def)
  from archive_retry_cooldown [OF this _ _ _ r, of "OSError ''refused''" "failed_attempt 2"] r show ?thesis
    by (simp add: failed_attempt_def no_reader_def)
qed

end
