(* ===== verification/Sha256.thy ===== *)
theory Sha256
  imports Prelude
begin

text \<open>
  SHA-256 as \<open>hashlib.sha256(data).hexdigest()\<close> computes it for the evidence ledger of
  \<open>recorder.py\<close>: the message is a byte string, the arithmetic is on 32-bit words that wrap, and the digest
  is rendered as 64 lowercase hexadecimal characters.  The round constants are the leading fractional bits
  of the cube roots of the first 64 primes, the initial state those of the square roots of the first eight.
\<close>

unbundle bit_operations_syntax

type_synonym word32 = "32 word"

definition rotate_right :: "nat \<Rightarrow> word32 \<Rightarrow> word32" where
  "rotate_right n w = drop_bit n w OR push_bit (32 - n) w"

definition round_constants :: "word32 list" where
  "round_constants =
    [1116352408, 1899447441, 3049323471, 3921009573, 961987163, 1508970993, 2453635748, 2870763221,
     3624381080, 310598401, 607225278, 1426881987, 1925078388, 2162078206, 2614888103, 3248222580,
     3835390401, 4022224774, 264347078, 604807628, 770255983, 1249150122, 1555081692, 1996064986,
     2554220882, 2821834349, 2952996808, 3210313671, 3336571891, 3584528711, 113926993, 338241895,
     666307205, 773529912, 1294757372, 1396182291, 1695183700, 1986661051, 2177026350, 2456956037,
     2730485921, 2820302411, 3259730800, 3345764771, 3516065817, 3600352804, 4094571909, 275423344,
     430227734, 506948616, 659060556, 883997877, 958139571, 1322822218, 1537002063, 1747873779,
     1955562222, 2024104815, 2227730452, 2361852424, 2428436474, 2756734187, 3204031479, 3329325298]"

type_synonym sha_state = "word32 list"

definition initial_state :: sha_state where
  "initial_state =
    [1779033703, 3144134277, 1013904242, 2773480762, 1359893119, 2600822924, 528734635, 1541459225]"

section \<open>Padding\<close>

definition big_endian :: "nat \<Rightarrow> nat \<Rightarrow> nat list" where
  "big_endian k n = map (\<lambda>i. n div 256 ^ (k - 1 - i) mod 256) [0..<k]"

definition pad_message :: "nat list \<Rightarrow> nat list" where
  "pad_message bs = bs @ [128] @ replicate ((119 - length bs mod 64) mod 64) 0 @ big_endian 8 (8 * length bs)"

fun words_of_bytes :: "nat list \<Rightarrow> word32 list" where
  "words_of_bytes (a # b # c # d # bs) =
     (of_nat (16777216 * a + 65536 * b + 256 * c + d)) # words_of_bytes bs"
| "words_of_bytes _ = []"

fun blocks_of :: "nat \<Rightarrow> word32 list \<Rightarrow> word32 list list" where
  "blocks_of 0 ws = []"
| "blocks_of (Suc n) ws = take 16 ws # blocks_of n (drop 16 ws)"

section \<open>Compression\<close>

definition small_sigma0 :: "word32 \<Rightarrow> word32" where
  "small_sigma0 x = rotate_right 7 x XOR rotate_right 18 x XOR drop_bit 3 x"

definition small_sigma1 :: "word32 \<Rightarrow> word32" where
  "small_sigma1 x = rotate_right 17 x XOR rotate_right 19 x XOR drop_bit 10 x"

definition big_sigma0 :: "word32 \<Rightarrow> word32" where
  "big_sigma0 x = rotate_right 2 x XOR rotate_right 13 x XOR rotate_right 22 x"

definition big_sigma1 :: "word32 \<Rightarrow> word32" where
  "big_sigma1 x = rotate_right 6 x XOR rotate_right 11 x XOR rotate_right 25 x"

text \<open>The message schedule, newest word first: \<open>extend_schedule n ws\<close> adds \<open>n\<close> words.\<close>

primrec extend_schedule :: "nat \<Rightarrow> word32 list \<Rightarrow> word32 list" where
  "extend_schedule 0 ws = ws"
| "extend_schedule (Suc n) ws =
     extend_schedule n ((small_sigma1 (ws ! 1) + ws ! 6 + small_sigma0 (ws ! 14) + ws ! 15) # ws)"

definition message_schedule :: "word32 list \<Rightarrow> word32 list" where
  "message_schedule block = rev (extend_schedule 48 (rev block))"

fun sha_round :: "sha_state \<Rightarrow> word32 \<times> word32 \<Rightarrow> sha_state" where
  "sha_round [a, b, c, d, e, f, g, h] (k, w) =
     (let t1 = h + big_sigma1 e + ((e AND f) XOR (NOT e AND g)) + k + w;
          t2 = big_sigma0 a + ((a AND b) XOR (a AND c) XOR (b AND c))
      in [t1 + t2, a, b, c, d + t1, e, f, g])"
| "sha_round s _ = s"

definition compress :: "sha_state \<Rightarrow> word32 list \<Rightarrow> sha_state" where
  "compress s block =
     map2 (+) s (foldl sha_round s (zip round_constants (message_schedule block)))"

section \<open>The digest\<close>

definition sha256_words :: "nat list \<Rightarrow> sha_state" where
  "sha256_words bs =
     (let padded = pad_message bs in
      foldl compress initial_state (blocks_of (length padded div 64) (words_of_bytes padded)))"

definition sha256_hexdigest :: "string \<Rightarrow> string" where
  "sha256_hexdigest s = concat (map (\<lambda>w. hex_of 8 (unat w)) (sha256_words (map char_code s)))"

text \<open>The digest is always 64 characters of \<open>0123456789abcdef\<close>.\<close>

lemma length_sha_round [simp]: "length (sha_round s x) = length s"
  by (induction s x rule: sha_round.induct) (simp_all add: Let_def)

lemma length_sha_rounds [simp]: "length (foldl sha_round s xs) = length s"
  by (induction xs arbitrary: s) auto

lemma length_compress [simp]: "length (compress s block) = length s"
  by (simp add: compress_def)

lemma length_compress_blocks [simp]: "length (foldl compress s bs) = length s"
  by (induction bs arbitrary: s) auto

lemma length_sha256_words [simp]: "length (sha256_words bs) = 8"
  by (simp add: sha256_words_def Let_def initial_state_def)

definition hex_char :: "char \<Rightarrow> bool" where
  "hex_char c \<longleftrightarrow> c \<in> set ''0123456789abcdef''"

lemma hex_digit_char: "n < 16 \<Longrightarrow> hex_char (hex_digit n)"
proof -
  have "list_all (\<lambda>n. hex_char (hex_digit n)) [0..<16]" by code_simp
  moreover assume "n < 16"
  ultimately show ?thesis by (simp add: list_all_iff)
qed

lemma hex_of_chars: "list_all hex_char (hex_of k n)"
  by (induction k) (simp_all add: hex_digit_char)

lemma length_concat_hex: "length (concat (map (\<lambda>w. hex_of 8 (f w)) ws)) = 8 * length ws"
  by (induction ws) auto

lemma sha256_hexdigest_format:
  "length (sha256_hexdigest s) = 64" "list_all hex_char (sha256_hexdigest s)"
  by (simp add: sha256_hexdigest_def length_concat_hex) (auto simp: sha256_hexdigest_def list_all_iff dest: hex_of_chars [unfolded list_all_iff, rule_format])

end
