(* ===== verification/Json_Text.thy ===== *)
theory Json_Text
  imports Json
begin

text \<open>
  JSON text as the recorder writes and reads it: \<open>json.dumps\<close> with sorted keys, compact separators and
  \<open>ensure_ascii=False\<close>, and \<open>json.loads\<close> on text and on bytes.  A Python \<open>str\<close> is represented by its UTF-8
  bytes; a lone surrogate, which \<open>loads\<close> lets through, by its generalised three-byte form, so that
  \<open>encode("utf-8")\<close> is the identity where \<open>encodable\<close> holds and raises elsewhere.

  \<open>float_repr\<close>, an argument of the reader, is \<open>repr(float(text))\<close>; \<open>float_repr_ok\<close> states what Python
  documents of it.  Python refuses conversions between text and integers beyond 4300 digits.  The limit on
  the nesting depth (\<open>RecursionError\<close>) is not modelled.
\<close>

section \<open>Characters\<close>

abbreviation quote_char :: char where "quote_char \<equiv> CHR 0x22"
abbreviation backslash :: char where "backslash \<equiv> CHR 0x5C"
abbreviation newline_char :: char where "newline_char \<equiv> CHR 0x0A"

text \<open>The UTF-8 bytes of a code point.\<close>

definition utf8_char :: "nat \<Rightarrow> string" where
  "utf8_char n =
     (if n < 128 then [char_of n]
      else if n < 2048 then [char_of (192 + n div 64), char_of (128 + n mod 64)]
      else if n < 65536 then [char_of (224 + n div 4096), char_of (128 + n div 64 mod 64), char_of (128 + n mod 64)]
      else [char_of (240 + n div 262144), char_of (128 + n div 4096 mod 64), char_of (128 + n div 64 mod 64),
            char_of (128 + n mod 64)])"

text \<open>Whether a string has no surrogate, that is, \<open>encode("utf-8")\<close> does not raise.\<close>

fun encodable :: "string \<Rightarrow> bool" where
  "encodable (a # b # s) \<longleftrightarrow> \<not> (char_code a = 237 \<and> 160 \<le> char_code b) \<and> encodable (b # s)"
| "encodable _ \<longleftrightarrow> True"

definition encode_utf8 :: "string \<Rightarrow> string result" where
  "encode_utf8 s = (if encodable s then Inr s
     else Inl (ValueError ''utf-8 codec can not encode character: surrogates not allowed''))"

section \<open>Writing\<close>

definition escape_char :: "char \<Rightarrow> string" where
  "escape_char c =
     (let n = char_code c in
      if c = quote_char \<or> c = backslash then [backslash, c]
      else if 32 \<le> n then [c]
      else if n = 8 then [backslash, CHR ''b'']
      else if n = 9 then [backslash, CHR ''t'']
      else if n = 10 then [backslash, CHR ''n'']
      else if n = 12 then [backslash, CHR ''f'']
      else if n = 13 then [backslash, CHR ''r'']
      else [backslash, CHR ''u''] @ hex_of 4 n)"

definition dump_string :: "string \<Rightarrow> string" where
  "dump_string s = [quote_char] @ concat (map escape_char s) @ [quote_char]"

text \<open>The text of a \<open>float\<close>: its \<open>repr\<close>, except for the three special values.\<close>

definition dump_float :: "string \<Rightarrow> string" where
  "dump_float s = (if s = ''nan'' then ''NaN'' else if s = ''inf'' then ''Infinity''
     else if s = ''-inf'' then ''-Infinity'' else s)"

definition dump_member :: "string \<times> string \<Rightarrow> string" where
  "dump_member p = dump_string (fst p) @ '':'' @ snd p"

fun dump_json :: "json \<Rightarrow> string" where
  "dump_json JNull = ''null''"
| "dump_json (JBool b) = (if b then ''true'' else ''false'')"
| "dump_json (JInt n) = string_of_int n"
| "dump_json (JFloat s) = dump_float s"
| "dump_json (JStr s) = dump_string s"
| "dump_json (JArr xs) = ''['' @ join '','' (map dump_json xs) @ '']''"
| "dump_json (JObj kvs) =
     ''{'' @ join '','' (map dump_member (sort_key fst (map (\<lambda>(k, v). (k, dump_json v)) kvs))) @ ''}''"

definition digits_limit :: nat where
  "digits_limit = 4300"

definition int_printable :: "int \<Rightarrow> bool" where
  "int_printable n \<longleftrightarrow> length (string_of_nat (nat \<bar>n\<bar>)) \<le> digits_limit"

fun ints_printable :: "json \<Rightarrow> bool" where
  "ints_printable (JInt n) = int_printable n"
| "ints_printable (JArr xs) = list_all ints_printable xs"
| "ints_printable (JObj kvs) = list_all (\<lambda>(k, v). ints_printable v) kvs"
| "ints_printable _ = True"

definition json_dumps :: "json \<Rightarrow> string result" where
  "json_dumps v = (if ints_printable v then Inr (dump_json v)
     else Inl (ValueError ''Exceeds the limit (4300 digits) for integer string conversion''))"

section \<open>Scanning\<close>

text \<open>
  \<open>Malformed\<close> is a \<open>JSONDecodeError\<close> or a \<open>UnicodeDecodeError\<close>; \<open>TooManyDigits\<close> the plain \<open>ValueError\<close> of
  \<open>int\<close>.
\<close>

datatype json_failure = Malformed | TooManyDigits

type_synonym 'a scan = "json_failure + 'a \<times> string"

definition skip_ws :: "string \<Rightarrow> string" where
  "skip_ws s = dropWhile (\<lambda>c. c \<in> set [CHR '' '', CHR 0x09, CHR 0x0A, CHR 0x0D]) s"

definition hex_value :: "char \<Rightarrow> nat option" where
  "hex_value c =
     (let n = char_code c in
      if 48 \<le> n \<and> n \<le> 57 then Some (n - 48)
      else if 65 \<le> n \<and> n \<le> 70 then Some (n - 55)
      else if 97 \<le> n \<and> n \<le> 102 then Some (n - 87)
      else None)"

definition scan_hex4 :: "string \<Rightarrow> (nat \<times> string) option" where
  "scan_hex4 s = (case s of a # b # c # d # r \<Rightarrow>
       (case (hex_value a, hex_value b, hex_value c, hex_value d) of
          (Some w, Some x, Some y, Some z) \<Rightarrow> Some (4096 * w + 256 * x + 16 * y + z, r)
        | _ \<Rightarrow> None)
     | _ \<Rightarrow> None)"

text \<open>
  A \<open>\u\<close> escape after its \<open>u\<close>: a high surrogate directly followed by an escaped low one gives one code point.
\<close>

definition scan_unicode :: "string \<Rightarrow> (string \<times> string) option" where
  "scan_unicode s = (case scan_hex4 s of
       None \<Rightarrow> None
     | Some (n, r) \<Rightarrow>
         (if 55296 \<le> n \<and> n \<le> 56319 \<and> take 2 r = [backslash, CHR ''u'']
          then case scan_hex4 (drop 2 r) of
                 Some (m, r') \<Rightarrow> (if 56320 \<le> m \<and> m \<le> 57343
                   then Some (utf8_char (65536 + 1024 * (n - 55296) + (m - 56320)), r')
                   else Some (utf8_char n, r))
               | None \<Rightarrow> Some (utf8_char n, r)
          else Some (utf8_char n, r)))"

definition simple_escape :: "char \<Rightarrow> char option" where
  "simple_escape c =
     map_of [(quote_char, quote_char), (backslash, backslash), (CHR ''/'', CHR ''/''), (CHR ''b'', CHR 0x08),
             (CHR ''f'', CHR 0x0C), (CHR ''n'', CHR 0x0A), (CHR ''r'', CHR 0x0D), (CHR ''t'', CHR 0x09)] c"

lemma scan_hex4_length: "scan_hex4 s = Some (n, r) \<Longrightarrow> length r < length s"
  by (auto simp: scan_hex4_def split: list.splits option.splits)

lemma scan_unicode_length [termination_simp]: "scan_unicode s = Some (t, r) \<Longrightarrow> length r < length s"
  by (auto simp: scan_unicode_def split: option.splits prod.splits if_splits dest!: scan_hex4_length)

text \<open>A string after its opening quote; control characters must be escaped.\<close>

fun scan_string :: "string \<Rightarrow> string scan" where
  "scan_string [] = Inl Malformed"
| "scan_string (c # s) =
     (if c = quote_char then Inr ([], s)
      else if c = backslash then
        (case s of
           [] \<Rightarrow> Inl Malformed
         | e # r \<Rightarrow>
             (if e = CHR ''u'' then
                (case scan_unicode r of
                   None \<Rightarrow> Inl Malformed
                 | Some (t, r') \<Rightarrow> map_sum id (map_prod ((@) t) id) (scan_string r'))
              else (case simple_escape e of
                   None \<Rightarrow> Inl Malformed
                 | Some x \<Rightarrow> map_sum id (map_prod ((#) x) id) (scan_string r))))
      else if char_code c < 32 then Inl Malformed
      else map_sum id (map_prod ((#) c) id) (scan_string s))"

lemma map_scan_eq_Inr:
  "map_sum id (map_prod f id) m = Inr (x, r) \<longleftrightarrow> (\<exists>y. m = Inr (y, r) \<and> x = f y)"
  by (cases m) auto

lemma scan_string_length: "scan_string s = Inr (t, r) \<Longrightarrow> length r < length s"
proof (induction s arbitrary: t rule: scan_string.induct)
  case (2 c s)
  then show ?case
    by (fastforce simp: map_scan_eq_Inr split: if_splits list.splits option.splits prod.splits
        dest: scan_unicode_length)
qed simp

text \<open>A number: \<open>-?(0|[1-9][0-9]*)(\.[0-9]+)?([eE][-+]?[0-9]+)?\<close>, its parts and the rest.\<close>

definition scan_digits :: "string \<Rightarrow> string \<times> string" where
  "scan_digits s = (takeWhile is_digit s, dropWhile is_digit s)"

definition scan_whole :: "string \<Rightarrow> (string \<times> string) option" where
  "scan_whole s = (case s of
       [] \<Rightarrow> None
     | c # r \<Rightarrow> if c = CHR ''0'' then Some ([c], r) else if is_digit c then Some (scan_digits s) else None)"

definition scan_fraction :: "string \<Rightarrow> string \<times> string" where
  "scan_fraction s = (case s of
       [] \<Rightarrow> ([], s)
     | c # r \<Rightarrow> if c = CHR ''.'' \<and> fst (scan_digits r) \<noteq> [] then (c # fst (scan_digits r), snd (scan_digits r)) else ([], s))"

definition scan_exponent_sign :: "string \<Rightarrow> string \<times> string" where
  "scan_exponent_sign s = (case s of [] \<Rightarrow> ([], s) | c # r \<Rightarrow> if c = CHR ''-'' \<or> c = CHR ''+'' then ([c], r) else ([], s))"

definition scan_exponent :: "string \<Rightarrow> string \<times> string" where
  "scan_exponent s = (case s of
       [] \<Rightarrow> ([], s)
     | c # r \<Rightarrow>
         (if c = CHR ''e'' \<or> c = CHR ''E'' then
            (let (sg, d) = scan_exponent_sign r
             in if fst (scan_digits d) \<noteq> [] then (c # sg @ fst (scan_digits d), snd (scan_digits d)) else ([], s))
          else ([], s)))"

definition scan_sign :: "string \<Rightarrow> string \<times> string" where
  "scan_sign s = (case s of [] \<Rightarrow> ([], s) | c # r \<Rightarrow> if c = CHR ''-'' then ([c], r) else ([], s))"

definition scan_number :: "(string \<Rightarrow> string) \<Rightarrow> string \<Rightarrow> json scan" where
  "scan_number float_repr s =
     (let (sg, s1) = scan_sign s in
      case scan_whole s1 of
        None \<Rightarrow> Inl Malformed
      | Some (whole, s2) \<Rightarrow>
          (let (frac, s3) = scan_fraction s2; (ex, s4) = scan_exponent s3 in
           if frac = [] \<and> ex = [] then
             (if digits_limit < length whole then Inl TooManyDigits
              else Inr (JInt (if sg = [] then int (nat_of_digits whole) else - int (nat_of_digits whole)), s4))
           else Inr (JFloat (float_repr (sg @ whole @ frac @ ex)), s4)))"

text \<open>The words \<open>null\<close>, \<open>true\<close>, \<open>false\<close> and the three special numbers.\<close>

definition scan_words :: "(string \<times> json) list" where
  "scan_words = [(''null'', JNull), (''true'', JBool True), (''false'', JBool False), (''NaN'', JFloat ''nan''),
     (''Infinity'', JFloat ''inf''), (''-Infinity'', JFloat ''-inf'')]"

definition scan_word :: "string \<Rightarrow> (json \<times> string) option" where
  "scan_word s = map_option (\<lambda>(w, v). (v, drop (length w) s)) (find (\<lambda>(w, v). take (length w) s = w) scan_words)"

text \<open>\<open>dict(pairs)\<close>: the last value of a repeated key, at the place of the first.\<close>

definition dict_of :: "(string \<times> json) list \<Rightarrow> (string \<times> json) list" where
  "dict_of ps = fold (\<lambda>(k, v). dict_set k v) ps []"

section \<open>Reading\<close>

text \<open>
  The three scanners of the decoder.  \<open>scan_items\<close> stands before a value, \<open>scan_members\<close> before a key.  The
  guards on the length of the rest only help the termination proof: \<open>scan_value_length\<close> below shows that they
  always hold.
\<close>

lemma length_skip_ws [simp]: "length (skip_ws s) \<le> length s"
  by (simp add: skip_ws_def length_dropWhile_le)

lemma skip_ws_bounds:
  "length s < n \<Longrightarrow> Suc (2 * length (skip_ws s)) \<le> 2 * n" "length s \<le> n \<Longrightarrow> 2 * length (skip_ws s) \<le> Suc (Suc (2 * n))"
  "length s \<le> n \<Longrightarrow> 2 * length (skip_ws s) \<le> Suc (2 * n)" "length s \<le> n \<Longrightarrow> 2 * length (skip_ws s) \<le> 2 * n"
  using length_skip_ws [of s] by linarith+

lemma length_skip_ws_Cons: "skip_ws s = c # r \<Longrightarrow> length r < length s"
  using length_skip_ws [of s] by simp

function (sequential)
  scan_value :: "(string \<Rightarrow> string) \<Rightarrow> string \<Rightarrow> json scan" and
  scan_items :: "(string \<Rightarrow> string) \<Rightarrow> string \<Rightarrow> json list scan" and
  scan_members :: "(string \<Rightarrow> string) \<Rightarrow> string \<Rightarrow> (string \<times> json) list scan"
where
  "scan_value fr [] = Inl Malformed"
| "scan_value fr (c # s) =
     (if c = quote_char then map_sum id (map_prod JStr id) (scan_string s)
      else if c = CHR ''['' then
        (if take 1 (skip_ws s) = '']'' then Inr (JArr [], drop 1 (skip_ws s))
         else map_sum id (map_prod JArr id) (scan_items fr (skip_ws s)))
      else if c = CHR ''{'' then
        (if take 1 (skip_ws s) = ''}'' then Inr (JObj [], drop 1 (skip_ws s))
         else map_sum id (map_prod (\<lambda>ps. JObj (dict_of ps)) id) (scan_members fr (skip_ws s)))
      else case scan_word (c # s) of
          Some p \<Rightarrow> Inr p
        | None \<Rightarrow> scan_number fr (c # s))"
| "scan_items fr s =
     (case scan_value fr s of
        Inl e \<Rightarrow> Inl e
      | Inr (v, r) \<Rightarrow>
          (case skip_ws r of
             [] \<Rightarrow> Inl Malformed
           | c # r' \<Rightarrow>
               (if c = CHR '']'' then Inr ([v], r')
                else if c = CHR '','' \<and> length r' < length s then
                  map_sum id (map_prod ((#) v) id) (scan_items fr (skip_ws r'))
                else Inl Malformed)))"
| "scan_members fr [] = Inl Malformed"
| "scan_members fr (q # s) =
     (if q \<noteq> quote_char then Inl Malformed
      else case scan_string s of
        Inl e \<Rightarrow> Inl e
      | Inr (k, r0) \<Rightarrow>
          (case skip_ws r0 of
             [] \<Rightarrow> Inl Malformed
           | d # r1 \<Rightarrow>
               (if d \<noteq> CHR '':'' then Inl Malformed
                else case scan_value fr (skip_ws r1) of
                  Inl e \<Rightarrow> Inl e
                | Inr (v, r) \<Rightarrow>
                    (case skip_ws r of
                       [] \<Rightarrow> Inl Malformed
                     | c # r' \<Rightarrow>
                         (if c = CHR ''}'' then Inr ([(k, v)], r')
                          else if c = CHR '','' \<and> length r' < length s then
                            map_sum id (map_prod ((#) (k, v)) id) (scan_members fr (skip_ws r'))
                          else Inl Malformed)))))"
  by pat_completeness auto

termination
  by (relation "measure (\<lambda>x. case x of Inl (fr, s) \<Rightarrow> 2 * length s | Inr (Inl (fr, s)) \<Rightarrow> 2 * length s + 1
        | Inr (Inr (fr, s)) \<Rightarrow> 2 * length s + 1)")
     (auto dest!: scan_string_length length_skip_ws_Cons simp: less_Suc_eq_le intro!: skip_ws_bounds)

lemma scan_whole_length: "scan_whole s = Some (w, r) \<Longrightarrow> length r < length s"
  by (auto simp: scan_whole_def scan_digits_def less_Suc_eq_le length_dropWhile_le split: list.splits if_splits)

lemma scan_fraction_length: "length (snd (scan_fraction s)) \<le> length s"
  by (auto simp: scan_fraction_def scan_digits_def intro: le_SucI length_dropWhile_le split: list.splits)

lemma scan_exponent_length: "length (snd (scan_exponent s)) \<le> length s"
  by (auto simp: scan_exponent_def scan_exponent_sign_def scan_digits_def Let_def intro!: le_SucI length_dropWhile_le split: list.splits prod.splits)

lemma scan_sign_length: "length (snd (scan_sign s)) \<le> length s"
  by (auto simp: scan_sign_def split: list.splits)

lemma scan_number_length:
  assumes "scan_number fr s = Inr (v, r)"
  shows "length r < length s"
proof -
  obtain sg s1 w s2 f s3 e s4
    where parts: "scan_sign s = (sg, s1)" "scan_whole s1 = Some (w, s2)" "scan_fraction s2 = (f, s3)" "scan_exponent s3 = (e, s4)"
    using assms by (cases "scan_sign s"; cases "scan_whole (snd (scan_sign s))")
      (auto simp: scan_number_def Let_def split: prod.splits)
  with assms have "r = s4" by (auto simp: scan_number_def split: if_splits)
  with parts show ?thesis
    using scan_sign_length [of s] scan_whole_length [of s1 w s2] scan_fraction_length [of s2] scan_exponent_length [of s3]
    by simp
qed

lemma scan_word_length: "s \<noteq> [] \<Longrightarrow> scan_word s = Some (v, r) \<Longrightarrow> length r < length s"
  by (cases s) (auto simp: scan_word_def scan_words_def split: if_splits)

declare scan_items.simps [simp del]

text \<open>What a successful scan has read.\<close>

lemma scan_items_eq_Inr:
  "scan_items fr s = Inr (vs, r) \<longleftrightarrow>
     (\<exists>v r0. scan_value fr s = Inr (v, r0) \<and>
        (skip_ws r0 = CHR '']'' # r \<and> vs = [v] \<or>
         (\<exists>r' vs'. skip_ws r0 = CHR '','' # r' \<and> length r' < length s \<and> scan_items fr (skip_ws r') = Inr (vs', r) \<and> vs = v # vs')))"
  by (subst scan_items.simps) (auto simp: map_scan_eq_Inr split: sum.splits list.splits if_splits)

lemma scan_members_eq_Inr:
  "scan_members fr s = Inr (ps, r) \<longleftrightarrow>
     (\<exists>s0 k r0 r1 v r2. s = quote_char # s0 \<and> scan_string s0 = Inr (k, r0) \<and> skip_ws r0 = CHR '':'' # r1 \<and>
        scan_value fr (skip_ws r1) = Inr (v, r2) \<and>
        (skip_ws r2 = CHR ''}'' # r \<and> ps = [(k, v)] \<or>
         (\<exists>r' ps'. skip_ws r2 = CHR '','' # r' \<and> length r' < length s0 \<and> scan_members fr (skip_ws r') = Inr (ps', r) \<and> ps = (k, v) # ps')))"
  by (cases s) (auto simp: map_scan_eq_Inr split: sum.splits list.splits if_splits)

lemma scan_value_eq_Inr:
  "scan_value fr s = Inr (v, r) \<longleftrightarrow>
     (\<exists>c t. s = c # t \<and>
       (if c = quote_char then \<exists>x. scan_string t = Inr (x, r) \<and> v = JStr x
        else if c = CHR ''['' then
          (if take 1 (skip_ws t) = '']'' then v = JArr [] \<and> r = drop 1 (skip_ws t)
           else \<exists>vs. scan_items fr (skip_ws t) = Inr (vs, r) \<and> v = JArr vs)
        else if c = CHR ''{'' then
          (if take 1 (skip_ws t) = ''}'' then v = JObj [] \<and> r = drop 1 (skip_ws t)
           else \<exists>ps. scan_members fr (skip_ws t) = Inr (ps, r) \<and> v = JObj (dict_of ps))
        else scan_word s = Some (v, r) \<or> scan_word s = None \<and> scan_number fr s = Inr (v, r)))"
  by (cases s) (auto simp: map_scan_eq_Inr split: option.splits)

lemma scan_lengths:
  "(\<forall>v r. scan_value fr s = Inr (v, r) \<longrightarrow> length r < length s) \<and>
   (\<forall>vs r. scan_items fr s = Inr (vs, r) \<longrightarrow> length r < length s) \<and>
   (\<forall>ps r. scan_members fr s = Inr (ps, r) \<longrightarrow> length r < length s)"
proof (induction s rule: measure_induct_rule [of length])
  case (less s)
  have ws: "length (skip_ws t) < length s" "length r < length (skip_ws t) \<Longrightarrow> length r < length t" if "length t < length s" for t r :: string
    using length_skip_ws [of t] that by linarith+
  have shorter: "scan_value fr (skip_ws t) = Inr (v, r) \<Longrightarrow> length r < length t"
      "scan_items fr (skip_ws t) = Inr (vs, r) \<Longrightarrow> length r < length t"
      "scan_members fr (skip_ws t) = Inr (ps, r) \<Longrightarrow> length r < length t" if "length t < length s" for t v r vs ps
    using less.IH [OF ws(1) [OF that]] ws(2) [OF that] by blast+
  have drop: "length (skip_ws t) - Suc 0 \<le> length t" for t
    using length_skip_ws [of t] by linarith
  have atom: "scan_word (c # t) = Some (v, r) \<Longrightarrow> length r < Suc (length t)"
      "scan_number fr (c # t) = Inr (v, r) \<Longrightarrow> length r < Suc (length t)" for c t v r
    using scan_word_length [of "c # t"] scan_number_length [of fr "c # t"] by auto
  have "length r < length s" if "scan_value fr s = Inr (v, r)" for v r
    using iffD1 [OF scan_value_eq_Inr that] shorter drop [THEN le_imp_less_Suc]
    by (auto simp: atom less_SucI scan_string_length split: if_splits)
  moreover have "length r < length s" if members: "scan_members fr s = Inr (ps, r)" for ps r
  proof -
    obtain s0 k r0 r1 v r2 where s: "s = quote_char # s0" "scan_string s0 = Inr (k, r0)" "skip_ws r0 = CHR '':'' # r1"
        "scan_value fr (skip_ws r1) = Inr (v, r2)"
      and rest: "skip_ws r2 = CHR ''}'' # r \<or> (\<exists>r' ps'. skip_ws r2 = CHR '','' # r' \<and> scan_members fr (skip_ws r') = Inr (ps', r))"
      using iffD1 [OF scan_members_eq_Inr members] by blast
    have r1: "length r1 < length s"
      using s(1) scan_string_length [OF s(2)] length_skip_ws_Cons [OF s(3)] by simp
    note r2 = shorter(1) [OF r1 s(4)]
    from rest show ?thesis
    proof (elim disjE exE conjE)
      fix r' ps' assume "skip_ws r2 = CHR '','' # r'" and more: "scan_members fr (skip_ws r') = Inr (ps', r)"
      then have "length r' < length s" using r1 r2 by (auto dest: length_skip_ws_Cons)
      with shorter(3) [OF this more] show ?thesis by simp
    qed (use r1 r2 in \<open>auto dest: length_skip_ws_Cons\<close>)
  qed
  moreover have "length r < length s" if items: "scan_items fr s = Inr (vs, r)" for vs r
  proof -
    obtain v r0 where s: "scan_value fr s = Inr (v, r0)"
      and rest: "skip_ws r0 = CHR '']'' # r \<or> (\<exists>r' vs'. skip_ws r0 = CHR '','' # r' \<and> scan_items fr (skip_ws r') = Inr (vs', r))"
      using iffD1 [OF scan_items_eq_Inr items] by blast
    note r0 = calculation(1) [OF s]
    from rest show ?thesis
    proof (elim disjE exE conjE)
      fix r' vs' assume "skip_ws r0 = CHR '','' # r'" and more: "scan_items fr (skip_ws r') = Inr (vs', r)"
      then have "length r' < length s" using r0 by (auto dest: length_skip_ws_Cons)
      with shorter(2) [OF this more] show ?thesis by simp
    qed (use r0 in \<open>auto dest: length_skip_ws_Cons\<close>)
  qed
  ultimately show ?case by blast
qed

lemma scan_value_length: "scan_value fr s = Inr (v, r) \<Longrightarrow> length r < length s"
  using scan_lengths by blast

section \<open>Decoding\<close>

text \<open>Well-formed UTF-8, the surrogates let through as by the error handler \<open>surrogatepass\<close>.\<close>

definition continuation :: "char \<Rightarrow> bool" where
  "continuation c \<longleftrightarrow> 128 \<le> char_code c \<and> char_code c \<le> 191"

text \<open>The number of bytes after a leading byte, and the narrower ranges of the byte after some of them.\<close>

definition utf8_tail :: "nat \<Rightarrow> nat option" where
  "utf8_tail n = (if n < 128 then Some 0 else if 194 \<le> n \<and> n \<le> 223 then Some 1 else if 224 \<le> n \<and> n \<le> 239 then Some 2
     else if 240 \<le> n \<and> n \<le> 244 then Some 3 else None)"

definition second_ok :: "nat \<Rightarrow> string \<Rightarrow> bool" where
  "second_ok n s \<longleftrightarrow> (case s of [] \<Rightarrow> True | b # _ \<Rightarrow> (n = 224 \<longrightarrow> 160 \<le> char_code b) \<and> (n = 240 \<longrightarrow> 144 \<le> char_code b) \<and>
     (n = 244 \<longrightarrow> char_code b \<le> 143))"

fun utf8_ok :: "string \<Rightarrow> bool" where
  "utf8_ok [] = True"
| "utf8_ok (a # s) = (case utf8_tail (char_code a) of
     None \<Rightarrow> False
   | Some k \<Rightarrow> k \<le> length s \<and> list_all continuation (take k s) \<and> second_ok (char_code a) (take k s) \<and> utf8_ok (drop k s))"

text \<open>UTF-16 and UTF-32 as code units, least significant byte first in \<open>little\<close> endian text.\<close>

definition unit16 :: "bool \<Rightarrow> char \<Rightarrow> char \<Rightarrow> nat" where
  "unit16 little a b = (if little then char_code a + 256 * char_code b else 256 * char_code a + char_code b)"

fun units16 :: "bool \<Rightarrow> string \<Rightarrow> nat list option" where
  "units16 little [] = Some []"
| "units16 little [a] = None"
| "units16 little (a # b # s) = map_option ((#) (unit16 little a b)) (units16 little s)"

fun join_surrogates :: "nat list \<Rightarrow> string" where
  "join_surrogates (n # m # ns) =
     (if 55296 \<le> n \<and> n \<le> 56319 \<and> 56320 \<le> m \<and> m \<le> 57343
      then utf8_char (65536 + 1024 * (n - 55296) + (m - 56320)) @ join_surrogates ns
      else utf8_char n @ join_surrogates (m # ns))"
| "join_surrogates [n] = utf8_char n"
| "join_surrogates [] = []"

fun decode_utf32 :: "bool \<Rightarrow> string \<Rightarrow> string option" where
  "decode_utf32 little [] = Some []"
| "decode_utf32 little (a # b # c # d # s) =
     (let n = (if little then unit16 True a b + 65536 * unit16 True c d else 65536 * unit16 False a b + unit16 False c d)
      in if n \<le> 1114111 then map_option ((@) (utf8_char n)) (decode_utf32 little s) else None)"
| "decode_utf32 little _ = None"

definition decode_utf16 :: "bool \<Rightarrow> string \<Rightarrow> string option" where
  "decode_utf16 little s = map_option join_surrogates (units16 little s)"

definition decode_utf8 :: "string \<Rightarrow> string option" where
  "decode_utf8 s = (if utf8_ok s then Some s else None)"

text \<open>\<open>json.detect_encoding\<close> and the decoding it selects; a byte order mark is dropped.\<close>

definition decode_bytes :: "string \<Rightarrow> string option" where
  "decode_bytes s =
     (let b = map char_code s; n = length s in
      if take 4 b = [255, 254, 0, 0] then decode_utf32 True (drop 4 s)
      else if take 4 b = [0, 0, 254, 255] then decode_utf32 False (drop 4 s)
      else if take 2 b = [255, 254] then decode_utf16 True (drop 2 s)
      else if take 2 b = [254, 255] then decode_utf16 False (drop 2 s)
      else if take 3 b = [239, 187, 191] then decode_utf8 (drop 3 s)
      else if 4 \<le> n then
        (if b ! 0 = 0 then (if b ! 1 = 0 then decode_utf32 False s else decode_utf16 False s)
         else if b ! 1 = 0 then (if b ! 2 = 0 \<and> b ! 3 = 0 then decode_utf32 True s else decode_utf16 True s)
         else decode_utf8 s)
      else if n = 2 then
        (if b ! 0 = 0 then decode_utf16 False s
         else if b ! 1 = 0 then decode_utf16 True s
         else decode_utf8 s)
      else decode_utf8 s)"

definition decode_text :: "(string \<Rightarrow> string) \<Rightarrow> string \<Rightarrow> json_failure + json" where
  "decode_text fr s = (case scan_value fr (skip_ws s) of
       Inl e \<Rightarrow> Inl e
     | Inr (v, r) \<Rightarrow> if skip_ws r = [] then Inr v else Inl Malformed)"

text \<open>\<open>json.loads\<close> on a \<open>str\<close>, which must not begin with a byte order mark, and on \<open>bytes\<close>.\<close>

definition loads_text :: "(string \<Rightarrow> string) \<Rightarrow> string \<Rightarrow> json_failure + json" where
  "loads_text fr s = (if map char_code (take 3 s) = [239, 187, 191] then Inl Malformed else decode_text fr s)"

definition loads_bytes :: "(string \<Rightarrow> string) \<Rightarrow> string \<Rightarrow> json_failure + json" where
  "loads_bytes fr s = (case decode_bytes s of None \<Rightarrow> Inl Malformed | Some t \<Rightarrow> decode_text fr t)"

end
