(* ===== verification/Json_Laws.thy ===== *)
theory Json_Laws
  imports Json_Text
begin

text \<open>
  Reading back what \<open>json.dumps\<close> writes: the text of a value gives the value with the keys of its objects
  sorted (\<open>canon_json\<close>), so that two values with the same text have the same canonical form; and every value
  that \<open>json.loads\<close> returns is one that \<open>json.dumps\<close> can write.
\<close>

section \<open>Values that can be written\<close>

text \<open>The text of a finite \<open>float\<close>: a JSON number with a fraction or an exponent.\<close>

definition float_text :: "string \<Rightarrow> bool" where
  "float_text s \<longleftrightarrow> (let (sg, s1) = scan_sign s in
     case scan_whole s1 of None \<Rightarrow> False
     | Some (w, s2) \<Rightarrow> (let (f, s3) = scan_fraction s2; (e, s4) = scan_exponent s3 in s4 = [] \<and> (f \<noteq> [] \<or> e \<noteq> [])))"

text \<open>
  What Python documents of \<open>repr(float(text))\<close>: it is infinite or the text of a number, which reads back as
  the same float.
\<close>

definition float_repr_ok :: "(string \<Rightarrow> string) \<Rightarrow> bool" where
  "float_repr_ok fr \<longleftrightarrow> (\<forall>s. float_text s \<longrightarrow> fr s \<in> {''inf'', ''-inf''} \<or> float_text (fr s) \<and> fr (fr s) = fr s)"

definition float_ok :: "(string \<Rightarrow> string) \<Rightarrow> string \<Rightarrow> bool" where
  "float_ok fr s \<longleftrightarrow> s \<in> {''nan'', ''inf'', ''-inf''} \<or> float_text s \<and> fr s = s"

fun json_ok :: "(string \<Rightarrow> string) \<Rightarrow> json \<Rightarrow> bool" where
  "json_ok fr (JInt n) = int_printable n"
| "json_ok fr (JFloat s) = float_ok fr s"
| "json_ok fr (JArr xs) = list_all (json_ok fr) xs"
| "json_ok fr (JObj kvs) = (dict_ok kvs \<and> list_all (\<lambda>(k, v). json_ok fr v) kvs)"
| "json_ok fr _ = True"

fun canon_json :: "json \<Rightarrow> json" where
  "canon_json (JArr xs) = JArr (map canon_json xs)"
| "canon_json (JObj kvs) = JObj (sort_key fst (map (\<lambda>(k, v). (k, canon_json v)) kvs))"
| "canon_json v = v"

lemma json_ok_printable: "json_ok fr v \<Longrightarrow> ints_printable v"
proof (induction v)
  case (JArr xs)
  then show ?case by (simp add: list_all_iff)
next
  case (JObj kvs)
  have "ints_printable w" if "(k, w) \<in> set kvs" for k w
    using JObj.IH [OF that, of w] JObj.prems that by (auto simp: list_all_iff)
  then show ?case by (auto simp: list_all_iff)
qed simp_all

text \<open>The same without the limit on the digits, which the writer itself checks.\<close>

fun json_shape :: "(string \<Rightarrow> string) \<Rightarrow> json \<Rightarrow> bool" where
  "json_shape fr (JFloat s) = float_ok fr s"
| "json_shape fr (JArr xs) = list_all (json_shape fr) xs"
| "json_shape fr (JObj kvs) = (dict_ok kvs \<and> list_all (\<lambda>(k, v). json_shape fr v) kvs)"
| "json_shape fr _ = True"

lemma json_ok_iff: "json_ok fr v \<longleftrightarrow> json_shape fr v \<and> ints_printable v"
proof (induction v)
  case (JObj kvs)
  then have "json_ok fr v \<longleftrightarrow> json_shape fr v \<and> ints_printable v" if "(k, v) \<in> set kvs" for k v
    using that by fastforce
  then show ?case by (auto simp: list_all_iff)
qed (auto simp: list_all_iff)

section \<open>Strings\<close>

lemma hex_value_digit: "d < 16 \<Longrightarrow> hex_value (hex_digit d) = Some d"
  by (auto simp: hex_value_def hex_digit_def char_code_def)

lemma scan_hex4_of: "n < 65536 \<Longrightarrow> scan_hex4 (hex_of 4 n @ rest) = Some (n, rest)"
proof -
  assume n: "n < 65536"
  have h2: "hex_of 2 n = [hex_digit (n div 16 mod 16), hex_digit (n mod 16)]"
    by (simp add: numeral_2_eq_2)
  have h: "hex_of 4 n = [hex_digit (n div 4096), hex_digit (n div 256 mod 16), hex_digit (n div 16 mod 16), hex_digit (n mod 16)]"
    using n hex_of.simps(2) [of 3 n] hex_of.simps(2) [of 2 n] by (simp add: h2)
  have "4096 * (n div 4096) + 256 * (n div 256 mod 16) + 16 * (n div 16 mod 16) + n mod 16 = n"
    using div_mult_mod_eq [of "n div 16" 16] div_mult_mod_eq [of "n div 256" 16]
    by (simp add: div_mult2_eq [symmetric]) (use div_mult_mod_eq [of n 16] in linarith)
  moreover have "n div 4096 < 16" using n by (simp add: less_mult_imp_div_less)
  ultimately show ?thesis
    by (simp add: h scan_hex4_def hex_value_digit)
qed

lemma scan_unicode_control: "n < 32 \<Longrightarrow> scan_unicode (hex_of 4 n @ rest) = Some ([char_of n], rest)"
  by (simp add: scan_unicode_def scan_hex4_of utf8_char_def)

lemma char_of_code [simp]: "char_of (char_code c) = c"
  by (simp add: char_code_def)

lemma char_code_inj: "char_code c = char_code d \<longleftrightarrow> c = d"
  by (simp add: char_code_def)

lemma char_code_control:
  "char_code (CHR 0x08) = 8" "char_code (CHR 0x09) = 9" "char_code (CHR 0x0A) = 10" "char_code (CHR 0x0C) = 12"
  "char_code (CHR 0x0D) = 13"
  by (simp_all add: char_code_def)

lemma append_single: "(@) [x] = (#) x"
  by (rule ext) simp

lemma scan_string_plain:
  "c \<noteq> quote_char \<Longrightarrow> c \<noteq> backslash \<Longrightarrow> 32 \<le> char_code c \<Longrightarrow>
     scan_string (c # s) = map_sum id (map_prod ((#) c) id) (scan_string s)"
  by simp

lemma scan_string_simple:
  "simple_escape e = Some x \<Longrightarrow> scan_string (backslash # e # s) = map_sum id (map_prod ((#) x) id) (scan_string s)"
  by (auto simp: simple_escape_def split: if_splits)

lemma scan_string_control:
  "n < 32 \<Longrightarrow> scan_string (backslash # CHR ''u'' # hex_of 4 n @ s) =
     map_sum id (map_prod ((#) (char_of n)) id) (scan_string s)"
  by (simp add: scan_unicode_control append_single)

declare scan_string.simps(2) [simp del]

lemma scan_escaped:
  "scan_string (escape_char c @ rest) = map_sum id (map_prod ((#) c) id) (scan_string rest)"
proof -
  let ?n = "char_code c"
  consider (special) "c = quote_char \<or> c = backslash" | (plain) "c \<noteq> quote_char" "c \<noteq> backslash" "32 \<le> ?n"
    | (short) "c \<noteq> quote_char" "c \<noteq> backslash" "?n \<in> {8, 9, 10, 12, 13}"
    | (control) "c \<noteq> quote_char" "c \<noteq> backslash" "?n < 32" "?n \<notin> {8, 9, 10, 12, 13}"
    by force
  then show ?thesis
  proof cases
    case special
    then show ?thesis by (auto simp: escape_char_def scan_string_simple simple_escape_def)
  next
    case plain
    then show ?thesis by (simp add: escape_char_def scan_string_plain)
  next
    case short
    then have "c \<in> {CHR 0x08, CHR 0x09, CHR 0x0A, CHR 0x0C, CHR 0x0D}"
      by (auto simp: char_code_inj [symmetric] char_code_control)
    then show ?thesis by (auto simp: escape_char_def scan_string_simple simple_escape_def char_code_control)
  next
    case control
    then show ?thesis by (simp add: escape_char_def scan_string_control Let_def)
  qed
qed

lemma scan_dumped_string: "scan_string (concat (map escape_char s) @ quote_char # rest) = Inr (s, rest)"
  by (induction s) (simp_all add: scan_escaped scan_string.simps(2))

section \<open>Numbers\<close>

definition ends_number :: "string \<Rightarrow> bool" where
  "ends_number s \<longleftrightarrow> (case s of [] \<Rightarrow> True | c # _ \<Rightarrow> \<not> is_digit c \<and> c \<notin> set ''.eE+-'')"

lemma ends_number_simps [simp]:
  "ends_number []" "ends_number (CHR '','' # s)" "ends_number (CHR '']'' # s)" "ends_number (CHR ''}'' # s)"
  "ends_number (newline_char # s)"
  by (auto simp: ends_number_def is_digit_def char_code_def)

lemma scan_digits_append: "ends_number rest \<Longrightarrow> scan_digits (s @ rest) = (fst (scan_digits s), snd (scan_digits s) @ rest)"
  by (induction s) (auto simp: scan_digits_def ends_number_def split: list.splits)

lemma scan_whole_append:
  "ends_number rest \<Longrightarrow> scan_whole s = Some (w, r) \<Longrightarrow> scan_whole (s @ rest) = Some (w, r @ rest)"
  using scan_digits_append [of rest s] by (auto simp: scan_whole_def split: list.splits if_splits)

lemma scan_fraction_append:
  "ends_number rest \<Longrightarrow> scan_fraction (s @ rest) = (fst (scan_fraction s), snd (scan_fraction s) @ rest)"
  by (cases s) (auto simp: scan_fraction_def scan_digits_append split: list.splits, auto simp: ends_number_def)

lemma ends_number_Cons: "ends_number (c # s) \<longleftrightarrow> \<not> is_digit c \<and> c \<noteq> CHR ''.'' \<and> c \<noteq> CHR ''e'' \<and> c \<noteq> CHR ''E'' \<and> c \<noteq> CHR ''+'' \<and> c \<noteq> CHR ''-''"
  by (auto simp: ends_number_def)

lemma ends_number_scans:
  assumes "ends_number s"
  shows "scan_digits s = ([], s)" "scan_fraction s = ([], s)" "scan_exponent s = ([], s)"
  using assms by (cases s; auto simp: ends_number_Cons scan_digits_def scan_fraction_def scan_exponent_def)+

lemma scan_exponent_sign_append:
  assumes "ends_number rest"
  shows "scan_exponent_sign (s @ rest) = (fst (scan_exponent_sign s), snd (scan_exponent_sign s) @ rest)"
proof (cases s)
  case Nil
  with assms show ?thesis by (cases rest) (auto simp: scan_exponent_sign_def ends_number_Cons)
qed (simp add: scan_exponent_sign_def)

lemma scan_exponent_append:
  assumes "ends_number rest"
  shows "scan_exponent (s @ rest) = (fst (scan_exponent s), snd (scan_exponent s) @ rest)"
proof (cases s)
  case Nil
  then show ?thesis using ends_number_scans [OF assms] by (simp add: scan_exponent_def)
next
  case (Cons c r)
  with scan_exponent_sign_append [OF assms, of r] scan_digits_append [OF assms, of "snd (scan_exponent_sign r)"]
  show ?thesis by (simp add: scan_exponent_def case_prod_unfold Let_def)
qed

lemma scan_sign_append: "s \<noteq> [] \<Longrightarrow> scan_sign (s @ rest) = (fst (scan_sign s), snd (scan_sign s) @ rest)"
  by (cases s) (auto simp: scan_sign_def)

lemma takeWhile_Nil_drop: "takeWhile P xs = [] \<Longrightarrow> dropWhile P xs = xs"
  using takeWhile_dropWhile_id [of P xs] by simp

lemma scan_parts:
  "scan_whole s = Some (w, r) \<Longrightarrow> w @ r = s" "fst (scan_fraction s) @ snd (scan_fraction s) = s"
  "fst (scan_exponent s) @ snd (scan_exponent s) = s" "fst (scan_sign s) @ snd (scan_sign s) = s"
  by (auto dest: takeWhile_Nil_drop simp: scan_whole_def scan_fraction_def scan_exponent_def scan_exponent_sign_def scan_sign_def scan_digits_def split: list.splits if_splits)

lemma float_text_parts:
  assumes "float_text s"
  obtains sg s1 w s2 f s3 e where "scan_sign s = (sg, s1)" "scan_whole s1 = Some (w, s2)" "scan_fraction s2 = (f, s3)"
    "scan_exponent s3 = (e, [])" "f \<noteq> [] \<or> e \<noteq> []" "s = sg @ w @ f @ e"
proof -
  obtain sg s1 w s2 f s3 e where parts: "scan_sign s = (sg, s1)" "scan_whole s1 = Some (w, s2)" "scan_fraction s2 = (f, s3)"
      "scan_exponent s3 = (e, [])" "f \<noteq> [] \<or> e \<noteq> []"
    using assms by (auto simp: float_text_def Let_def split: prod.splits option.splits)
  then have "s = sg @ w @ f @ e"
    using scan_parts(1) [OF parts(2)] scan_parts(2) [of s2] scan_parts(3) [of s3] scan_parts(4) [of s] by simp
  with parts show ?thesis by (rule that)
qed

lemma scan_number_float:
  assumes "float_text s" "ends_number rest"
  shows "scan_number fr (s @ rest) = Inr (JFloat (fr s), rest)"
proof -
  obtain sg s1 w s2 f s3 e where p: "scan_sign s = (sg, s1)" "scan_whole s1 = Some (w, s2)" "scan_fraction s2 = (f, s3)"
      "scan_exponent s3 = (e, [])" "f \<noteq> [] \<or> e \<noteq> []" "s = sg @ w @ f @ e"
    using assms(1) by (rule float_text_parts)
  then have "s \<noteq> []" by auto
  then show ?thesis
    using p scan_sign_append [of s rest] scan_whole_append [OF assms(2) p(2)] scan_fraction_append [OF assms(2), of s2]
      scan_exponent_append [OF assms(2), of s3]
    by (simp add: scan_number_def)
qed

lemma string_of_nat_head: "0 < n \<Longrightarrow> \<exists>c r. string_of_nat n = c # r \<and> c \<noteq> CHR ''0''"
proof (induction n rule: string_of_nat.induct)
  case (1 n)
  show ?case
  proof (cases "n < 10")
    case True
    then have "char_of (48 + n) \<noteq> CHR ''0''"
      using 1(2) char_code_inj [of "char_of (48 + n)" "CHR ''0''"] by (simp add: char_code_def)
    with True show ?thesis by (subst string_of_nat.simps) simp
  next
    case False
    moreover from False have "0 < n div 10" by simp
    ultimately obtain c r where "string_of_nat (n div 10) = c # r" "c \<noteq> CHR ''0''" using 1 by blast
    with False show ?thesis by (subst string_of_nat.simps) simp
  qed
qed

lemma scan_whole_nat:
  assumes "ends_number rest"
  shows "scan_whole (string_of_nat n @ rest) = Some (string_of_nat n, rest)"
proof (cases "n = 0")
  case True
  moreover have "string_of_nat 0 = ''0''" by code_simp
  ultimately show ?thesis by (simp add: scan_whole_def)
next
  case False
  then obtain c r where c: "string_of_nat n = c # r" "c \<noteq> CHR ''0''" using string_of_nat_head by blast
  have "list_all is_digit (string_of_nat n)" using string_of_nat_digits by blast
  then have "scan_digits (string_of_nat n) = (string_of_nat n, [])"
    by (simp add: scan_digits_def list_all_iff takeWhile_eq_all_conv)
  with c scan_digits_append [OF assms, of "string_of_nat n"] show ?thesis
    using \<open>list_all is_digit (string_of_nat n)\<close> by (simp add: scan_whole_def)
qed

lemma scan_number_int:
  assumes "int_printable n" "ends_number rest"
  shows "scan_number fr (string_of_int n @ rest) = Inr (JInt n, rest)"
proof -
  have "string_of_nat k \<noteq> CHR ''-'' # r" for k r
    using string_of_nat_chars [of "CHR ''-''" k] not_digit(1) by (metis list.set_intros(1))
  then have "scan_sign (string_of_nat k @ rest) = ([], string_of_nat k @ rest)" for k
    using string_of_nat_digits [of k] by (cases "string_of_nat k") (auto simp: scan_sign_def)
  moreover have "scan_sign (''-'' @ s) = (''-'', s)" for s by (simp add: scan_sign_def)
  ultimately show ?thesis
    using assms by (cases "n < 0") (simp_all add: scan_number_def string_of_int_def int_printable_def scan_whole_nat
        ends_number_scans nat_of_digits_string)
qed

section \<open>The first character of a value\<close>

definition whitespace :: "char \<Rightarrow> bool" where
  "whitespace c \<longleftrightarrow> c \<in> set [CHR '' '', CHR 0x09, CHR 0x0A, CHR 0x0D]"

definition value_head :: "string \<Rightarrow> bool" where
  "value_head s \<longleftrightarrow> s \<noteq> [] \<and> \<not> whitespace (hd s) \<and> hd s \<noteq> CHR '']'' \<and> hd s \<noteq> CHR ''}''"

lemma skip_ws_head: "s \<noteq> [] \<Longrightarrow> \<not> whitespace (hd s) \<Longrightarrow> skip_ws (s @ t) = s @ t"
  by (cases s) (auto simp: skip_ws_def whitespace_def)

lemma skip_ws_value: "value_head s \<Longrightarrow> skip_ws (s @ t) = s @ t"
  by (rule skip_ws_head) (simp_all add: value_head_def)

lemma skip_ws_punctuation [simp]:
  "skip_ws (CHR '','' # s) = CHR '','' # s" "skip_ws (CHR '']'' # s) = CHR '']'' # s"
  "skip_ws (CHR ''}'' # s) = CHR ''}'' # s" "skip_ws (CHR '':'' # s) = CHR '':'' # s"
  "skip_ws (quote_char # s) = quote_char # s"
  by (simp_all add: skip_ws_def)

text \<open>A numeral starts with a digit, or with a sign before one.\<close>

definition numeral_head :: "string \<Rightarrow> bool" where
  "numeral_head s \<longleftrightarrow> (\<exists>d r. is_digit d \<and> (s = d # r \<or> s = CHR ''-'' # d # r))"

lemma is_digit_neq:
  assumes "is_digit d"
  shows "d \<noteq> CHR ''n''" "d \<noteq> CHR ''t''" "d \<noteq> CHR ''f''" "d \<noteq> CHR ''N''" "d \<noteq> CHR ''I''" "d \<noteq> CHR ''-''"
    "d \<noteq> quote_char" "d \<noteq> CHR ''[''" "d \<noteq> CHR ''{''" "d \<noteq> CHR '']''" "d \<noteq> CHR ''}''" "\<not> whitespace d"
    "d \<noteq> newline_char" "d \<noteq> CHR ''+''"
  using assms by (auto simp: is_digit_def char_code_def whitespace_def)

lemma numeral_head_append: "numeral_head s \<Longrightarrow> numeral_head (s @ t)"
  by (force simp: numeral_head_def)

lemma numeral_head_scan:
  assumes "numeral_head s"
  shows "scan_value fr s = scan_number fr s"
proof -
  from assms obtain d r where d: "is_digit d" "s = d # r \<or> s = CHR ''-'' # d # r" by (auto simp: numeral_head_def)
  then have "scan_word s = None"
    by (auto simp: scan_word_def scan_words_def is_digit_neq)
  with d show ?thesis by (auto simp: is_digit_neq)
qed

lemma numeral_head_value: "numeral_head s \<Longrightarrow> value_head s"
  by (auto simp: numeral_head_def value_head_def is_digit_neq) (simp add: whitespace_def)

lemma numeral_head_int: "numeral_head (string_of_int n)"
proof -
  have "\<exists>d r. is_digit d \<and> string_of_nat k = d # r" for k
    using string_of_nat_digits [of k] by (cases "string_of_nat k") auto
  then show ?thesis unfolding numeral_head_def string_of_int_def
    by (metis append_Cons append_Nil)
qed

lemma numeral_head_float: "float_text s \<Longrightarrow> numeral_head s"
proof (elim float_text_parts)
  fix sg s1 w s2 f s3 e
  assume p: "scan_sign s = (sg, s1)" "scan_whole s1 = Some (w, s2)"
  then have "\<exists>d r. is_digit d \<and> s1 = d # r"
    by (auto simp: scan_whole_def is_digit_def char_code_def split: list.splits if_splits)
  moreover have "s = s1 \<or> s = CHR ''-'' # s1"
    using p(1) by (auto simp: scan_sign_def split: list.splits if_splits)
  ultimately show "numeral_head s" by (auto simp: numeral_head_def)
qed

lemma dump_head: "json_ok fr v \<Longrightarrow> value_head (dump_json v)"
proof (cases v)
  case (JFloat s)
  moreover assume "json_ok fr v"
  ultimately show ?thesis
    by (auto simp: float_ok_def dump_float_def intro: numeral_head_value numeral_head_float) (simp_all add: value_head_def whitespace_def)
qed (auto simp: numeral_head_value numeral_head_int, auto simp: value_head_def whitespace_def dump_string_def)

section \<open>Round trip\<close>

lemma join_simps [simp]:
  "join sep [x] = x" "join sep (x # y # ys) = x @ sep @ join sep (y # ys)" "join sep [] = []"
  by (simp_all add: join_def)

lemma insort_key_map_values:
  "insort_key fst (k, f k v) (map (\<lambda>(k, v). (k, f k v)) kvs) = map (\<lambda>(k, v). (k, f k v)) (insort_key fst (k, v) kvs)"
  by (induction kvs) auto

lemma sort_key_map_values:
  "sort_key fst (map (\<lambda>(k, v). (k, f k v)) kvs) = map (\<lambda>(k, v). (k, f k v)) (sort_key fst kvs)"
  by (induction kvs) (auto simp: insort_key_map_values)

lemma distinct_map_sort_key: "distinct (map f (sort_key g xs)) \<longleftrightarrow> distinct (map f xs)"
  by (simp add: distinct_map)

lemma dict_of_append: "distinct (map fst (qs @ ps)) \<Longrightarrow> fold (\<lambda>(k, v). dict_set k v) ps qs = qs @ ps"
proof (induction ps arbitrary: qs)
  case (Cons p ps)
  obtain k v where p: "p = (k, v)" by fastforce
  with Cons.prems have "k \<notin> fst ` set qs" by auto
  then have "dict_set k v qs = qs @ [(k, v)]" by (induction qs) auto
  with Cons.IH [of "qs @ [(k, v)]"] Cons.prems p show ?case by simp
qed simp

lemma dict_of_distinct: "dict_ok ps \<Longrightarrow> dict_of ps = ps"
  using dict_of_append [of "[]" ps] by (simp add: dict_of_def dict_ok_def)

lemma dump_json_object:
  "dump_json (JObj kvs) = ''{'' @ join '','' (map (\<lambda>(k, v). dump_member (k, dump_json v)) (sort_key fst kvs)) @ ''}''"
proof -
  have "dump_member \<circ> (\<lambda>(k, v). (k, dump_json v)) = (\<lambda>(k, v). dump_member (k, dump_json v))"
    by auto
  then show ?thesis by (simp add: sort_key_map_values)
qed

lemma scan_value_cases:
  "scan_value fr (quote_char # s) = map_sum id (map_prod JStr id) (scan_string s)"
  "scan_value fr (CHR ''['' # s) = (if take 1 (skip_ws s) = '']'' then Inr (JArr [], drop 1 (skip_ws s))
     else map_sum id (map_prod JArr id) (scan_items fr (skip_ws s)))"
  "scan_value fr (CHR ''{'' # s) = (if take 1 (skip_ws s) = ''}'' then Inr (JObj [], drop 1 (skip_ws s))
     else map_sum id (map_prod (\<lambda>ps. JObj (dict_of ps)) id) (scan_members fr (skip_ws s)))"
  by simp_all

lemma scan_dumped_items:
  assumes "\<And>v rest. v \<in> set vs \<Longrightarrow> ends_number rest \<Longrightarrow> scan_value fr (dump_json v @ rest) = Inr (canon_json v, rest)"
    "\<And>v. v \<in> set vs \<Longrightarrow> value_head (dump_json v)" "vs \<noteq> []"
  shows "scan_items fr (join '','' (map dump_json vs) @ '']'' @ rest) = Inr (map canon_json vs, rest)"
  using assms
proof (induction vs rule: induct_list012)
  case (2 v)
  show ?case
    by (subst scan_items.simps) (use 2(1) [of v "'']'' @ rest"] in simp)
next
  case (3 v w vs)
  have "scan_items fr (join '','' (map dump_json (w # vs)) @ '']'' @ rest) = Inr (map canon_json (w # vs), rest)"
    using 3(2) [OF 3(3,4)] by simp
  moreover have "skip_ws (join '','' (map dump_json (w # vs)) @ '']'' @ rest) = join '','' (map dump_json (w # vs)) @ '']'' @ rest"
  proof -
    have "join '','' (map dump_json (w # vs)) = dump_json w @ (case vs of [] \<Rightarrow> [] | _ \<Rightarrow> '','' @ join '','' (map dump_json vs))"
      by (cases vs) simp_all
    then show ?thesis using skip_ws_value [OF 3(4) [of w]] by simp
  qed
  ultimately show ?case
    using 3(3) [of v "'','' @ join '','' (map dump_json (w # vs)) @ '']'' @ rest"]
    by (subst scan_items.simps) simp
qed simp

lemma dump_member_append:
  "dump_member (k, t) @ rest = quote_char # concat (map escape_char k) @ quote_char # CHR '':'' # t @ rest"
  by (simp add: dump_member_def dump_string_def)

lemma scan_dumped_members:
  assumes "\<And>k v rest. (k, v) \<in> set kvs \<Longrightarrow> ends_number rest \<Longrightarrow> scan_value fr (dump_json v @ rest) = Inr (canon_json v, rest)"
    "\<And>k v. (k, v) \<in> set kvs \<Longrightarrow> value_head (dump_json v)" "kvs \<noteq> []"
  shows "scan_members fr (join '','' (map (\<lambda>(k, v). dump_member (k, dump_json v)) kvs) @ ''}'' @ rest) =
     Inr (map (\<lambda>(k, v). (k, canon_json v)) kvs, rest)"
  using assms
proof (induction kvs rule: induct_list012)
  case (2 p)
  obtain k v where p: "p = (k, v)" by fastforce
  show ?case
    using 2(1) [of k v "''}'' @ rest"] skip_ws_value [OF 2(2) [of k v]]
    by (simp add: p dump_member_append scan_dumped_string)
next
  case (3 p q kvs)
  obtain k v k' v' where p: "p = (k, v)" "q = (k', v')" by fastforce
  let ?tail = "join '','' (map (\<lambda>(k, v). dump_member (k, dump_json v)) (q # kvs)) @ ''}'' @ rest"
  have tail: "scan_members fr ?tail = Inr (map (\<lambda>(k, v). (k, canon_json v)) (q # kvs), rest)"
  proof (rule 3(2))
    show "scan_value fr (dump_json v @ r) = Inr (canon_json v, r)" if "(k, v) \<in> set (q # kvs)" "ends_number r" for k v r
      by (rule 3(3) [of k]) (use that in auto)
    show "value_head (dump_json v)" if "(k, v) \<in> set (q # kvs)" for k v
      by (rule 3(4) [of k]) (use that in auto)
  qed simp
  moreover have "\<exists>t. ?tail = quote_char # t"
    by (cases kvs) (simp_all add: p dump_member_append)
  then have "skip_ws ?tail = ?tail" by (auto simp del: join_simps)
  ultimately show ?case
    using 3(3) [of k v "'','' @ ?tail"] skip_ws_value [OF 3(4) [of k v]]
    by (simp add: p dump_member_append scan_dumped_string)
qed simp

lemma dump_scan:
  "json_ok fr v \<Longrightarrow> ends_number rest \<Longrightarrow> scan_value fr (dump_json v @ rest) = Inr (canon_json v, rest)"
proof (induction v arbitrary: rest)
  case JNull
  then show ?case by (simp add: scan_word_def scan_words_def)
next
  case (JBool b)
  then show ?case by (simp add: scan_word_def scan_words_def)
next
  case (JInt n)
  then show ?case
    by (simp add: numeral_head_scan numeral_head_append numeral_head_int scan_number_int)
next
  case (JFloat s)
  then consider "s = ''nan''" | "s = ''inf''" | "s = ''-inf''" | "float_text s" "fr s = s" "s \<notin> {''nan'', ''inf'', ''-inf''}"
    by (auto simp: float_ok_def)
  then show ?case
  proof cases
    case 4
    with JFloat show ?thesis
      by (simp add: dump_float_def numeral_head_scan numeral_head_append numeral_head_float scan_number_float)
  qed (simp_all add: dump_float_def scan_word_def scan_words_def)
next
  case (JStr s)
  then show ?case by (simp add: dump_string_def scan_dumped_string)
next
  case (JArr vs)
  show ?case
  proof (cases "vs = []")
    case False
    have heads: "value_head (dump_json v)" if "v \<in> set vs" for v
      using that JArr.prems by (auto simp: list_all_iff dump_head)
    have items: "scan_items fr (join '','' (map dump_json vs) @ '']'' @ rest) = Inr (map canon_json vs, rest)"
      by (rule scan_dumped_items) (use JArr False heads in \<open>auto simp: list_all_iff\<close>)
    obtain v t where v: "join '','' (map dump_json vs) = dump_json v @ t" "v \<in> set vs"
      using False by (cases vs) (auto simp: join_def)
    have "skip_ws (join '','' (map dump_json vs) @ '']'' @ rest) = join '','' (map dump_json vs) @ '']'' @ rest"
      "take 1 (join '','' (map dump_json vs) @ '']'' @ rest) \<noteq> '']''"
      using heads [OF v(2)] skip_ws_value [of "dump_json v" "t @ '']'' @ rest"]
      by (simp_all add: v(1)) (cases "dump_json v"; auto simp: value_head_def)
    with items show ?thesis by (simp add: scan_value_cases)
  qed (simp add: scan_value_cases)
next
  case (JObj kvs)
  let ?s = "sort_key fst kvs"
  show ?case
  proof (cases "kvs = []")
    case False
    have parts: "json_ok fr v" "scan_value fr (dump_json v @ r) = Inr (canon_json v, r)"
      if "(k, v) \<in> set kvs" "ends_number r" for k v r
      using JObj.IH [of "(k, v)" v r] JObj.prems that by (auto simp: list_all_iff)
    have ne: "?s \<noteq> []" using False by (metis length_0_conv length_sort)
    have "scan_members fr (join '','' (map (\<lambda>(k, v). dump_member (k, dump_json v)) ?s) @ ''}'' @ rest) =
        Inr (map (\<lambda>(k, v). (k, canon_json v)) ?s, rest)"
    proof (rule scan_dumped_members)
      show "scan_value fr (dump_json v @ r) = Inr (canon_json v, r)" if "(k, v) \<in> set ?s" "ends_number r" for k v r
        by (rule parts(2) [of k]) (use that in auto)
      show "value_head (dump_json v)" if "(k, v) \<in> set ?s" for k v
        by (rule dump_head [OF parts(1) [of k _ "[]"]]) (use that in auto)
    qed (rule ne)
    moreover have "dict_of (map (\<lambda>(k, v). (k, canon_json v)) ?s) = map (\<lambda>(k, v). (k, canon_json v)) ?s"
      by (rule dict_of_distinct) (use JObj.prems in \<open>simp add: dict_ok_def comp_def case_prod_unfold distinct_map_sort_key\<close>)
    moreover obtain t where "join '','' (map (\<lambda>(k, v). dump_member (k, dump_json v)) ?s) = quote_char # t"
      using ne by (cases ?s) (auto simp: join_def dump_member_def dump_string_def)
    ultimately show ?thesis
      by (simp add: scan_value_cases dump_json_object sort_key_map_values del: dump_json.simps)
  qed (simp add: scan_value_cases)
qed

lemma decode_dumped: "json_ok fr v \<Longrightarrow> decode_text fr (dump_json v) = Inr (canon_json v)"
  using dump_scan [of fr v "[]"] skip_ws_value [OF dump_head, of fr v "[]"]
  by (simp add: decode_text_def) (simp add: skip_ws_def)

lemma decode_dumped_line: "json_ok fr v \<Longrightarrow> decode_text fr (dump_json v @ [newline_char]) = Inr (canon_json v)"
  using dump_scan [of fr v "[newline_char]"] skip_ws_value [OF dump_head, of fr v "[newline_char]"]
  by (simp add: decode_text_def) (simp add: skip_ws_def)

text \<open>The text determines the value up to the order of keys.\<close>

lemma dump_json_inject: "json_ok fr u \<Longrightarrow> json_ok fr v \<Longrightarrow> dump_json u = dump_json v \<Longrightarrow> canon_json u = canon_json v"
  using decode_dumped [of fr u] decode_dumped [of fr v] by simp

section \<open>What the reader returns can be written\<close>

lemma foldl_digits: "foldl (\<lambda>n c. 10 * n + (char_code c - 48)) a s < (a + 1) * 10 ^ length s" if "list_all is_digit s" for a
  using that
proof (induction s arbitrary: a)
  case (Cons c s)
  then have "10 * a + (char_code c - 48) + 1 \<le> (a + 1) * 10" by (auto simp: is_digit_def)
  from mult_le_mono1 [OF this, of "10 ^ length s"]
  have "(10 * a + (char_code c - 48) + 1) * 10 ^ length s \<le> (a + 1) * 10 ^ length (c # s)"
    by (simp only: list.size(4) power_Suc mult.assoc add_0_right add_Suc_right)
  with Cons.IH [of "10 * a + (char_code c - 48)"] Cons.prems show ?case by simp
qed simp

lemma length_string_of_nat: "n < 10 ^ k \<Longrightarrow> 0 < k \<Longrightarrow> length (string_of_nat n) \<le> k"
proof (induction n arbitrary: k rule: string_of_nat.induct)
  case (1 n)
  show ?case
  proof (cases "n < 10")
    case False
    with 1(2,3) obtain j where k: "k = Suc j" "0 < j" by (cases k; cases "k - 1") auto
    with 1(2) have "n div 10 < 10 ^ j" by (simp add: less_mult_imp_div_less)
    with 1(1) [OF False this k(2)] False k show ?thesis by (subst string_of_nat.simps) simp
  qed (use 1 in \<open>simp add: string_of_nat.simps\<close>)
qed

lemma is_digit_zero: "is_digit CHR ''0''"
  by (simp add: is_digit_def char_code_def)

lemma scan_whole_digits: "scan_whole s = Some (w, r) \<Longrightarrow> w \<noteq> [] \<and> list_all is_digit w"
  by (auto simp: scan_whole_def scan_digits_def list_all_iff is_digit_zero dest: set_takeWhileD split: list.splits if_splits)

text \<open>Each part of a numeral is scanned again from its own text.\<close>

lemma scan_digits_again: "t = [] \<or> \<not> is_digit (hd t) \<Longrightarrow> scan_digits (takeWhile is_digit s @ t) = (takeWhile is_digit s, t)"
  by (induction s) (auto simp: scan_digits_def, (cases t; simp)+)

lemma scan_sign_again: "scan_sign s = (sg, r) \<Longrightarrow> is_digit (hd t) \<Longrightarrow> t \<noteq> [] \<Longrightarrow> scan_sign (sg @ t) = (sg, t)"
  by (cases t) (auto simp: scan_sign_def is_digit_neq split: list.splits if_splits)

lemma scan_whole_again: "scan_whole s = Some (w, r) \<Longrightarrow> t = [] \<or> \<not> is_digit (hd t) \<Longrightarrow> scan_whole (w @ t) = Some (w, t)"
proof -
  assume t: "t = [] \<or> \<not> is_digit (hd t)" and "scan_whole s = Some (w, r)"
  then consider "w = ''0''" | c u where "w = takeWhile is_digit (c # u)" "is_digit c" "c \<noteq> CHR ''0''"
    by (auto simp: scan_whole_def scan_digits_def split: list.splits if_splits)
  then show ?thesis
  proof cases
    case 2
    with scan_digits_again [OF t, of "c # u"] show ?thesis by (simp add: scan_whole_def)
  qed (simp add: scan_whole_def)
qed

lemma scan_fraction_again:
  assumes "scan_fraction s = (f, r)" "t = [] \<or> \<not> is_digit (hd t) \<and> hd t \<noteq> CHR ''.''"
  shows "scan_fraction (f @ t) = (f, t)"
proof -
  from assms(1) consider "f = []" | u where "f = CHR ''.'' # takeWhile is_digit u" "takeWhile is_digit u \<noteq> []"
    by (auto simp: scan_fraction_def scan_digits_def split: list.splits if_splits)
  then show ?thesis
  proof cases
    case 1
    with assms(2) show ?thesis by (cases t) (auto simp: scan_fraction_def)
  next
    case 2
    with scan_digits_again [of t u] assms(2) show ?thesis by (auto simp: scan_fraction_def)
  qed
qed

lemma scan_exponent_again:
  assumes "scan_exponent s = (e, r)"
  shows "scan_exponent e = (e, [])"
proof (cases "e = []")
  case True
  then show ?thesis by (simp add: scan_exponent_def)
next
  case False
  then obtain c t sg u where e: "c = CHR ''e'' \<or> c = CHR ''E''" "scan_exponent_sign t = (sg, u)" "takeWhile is_digit u \<noteq> []"
      "e = c # sg @ takeWhile is_digit u"
    using assms by (auto simp: scan_exponent_def scan_digits_def split: list.splits if_splits prod.splits)
  then obtain d v where d: "takeWhile is_digit u = d # v" "is_digit d"
    by (cases u) (auto split: if_splits)
  have "scan_exponent_sign (sg @ d # v) = (sg, d # v)"
    using e(2) d(2) by (auto simp: scan_exponent_sign_def is_digit_neq split: list.splits if_splits)
  with e scan_digits_again [of "[]" u] show ?thesis
    by (auto simp: scan_exponent_def d(1))
qed

lemma scan_number_ok:
  assumes "float_repr_ok fr" "scan_number fr s = Inr (v, r)"
  shows "json_ok fr v"
proof -
  obtain sg s1 w s2 f s3 e s4
    where parts: "scan_sign s = (sg, s1)" "scan_whole s1 = Some (w, s2)" "scan_fraction s2 = (f, s3)" "scan_exponent s3 = (e, s4)"
    using assms by (cases "scan_sign s"; cases "scan_whole (snd (scan_sign s))")
      (auto simp: scan_number_def Let_def split: prod.splits)
  show ?thesis
  proof (cases "f = [] \<and> e = []")
    case True
    have w: "w \<noteq> []" "list_all is_digit w" using scan_whole_digits [OF parts(2)] by auto
    then have "nat_of_digits w < 10 ^ length w"
      using foldl_digits [of w 0] by (simp add: nat_of_digits_def)
    then have "length (string_of_nat (nat_of_digits w)) \<le> length w"
      by (rule length_string_of_nat) (use w in simp)
    with True assms(2) parts show ?thesis
      by (auto simp: scan_number_def int_printable_def split: if_splits)
  next
    case False
    have e: "e = [] \<or> \<not> is_digit (hd e) \<and> hd e \<noteq> CHR ''.''"
      using parts(4) by (auto simp: scan_exponent_def is_digit_def char_code_def split: list.splits if_splits prod.splits)
    then have fe: "f @ e = [] \<or> \<not> is_digit (hd (f @ e))"
      using parts(3) by (auto simp: scan_fraction_def is_digit_def char_code_def split: list.splits if_splits)
    have "w \<noteq> []" "is_digit (hd w)" using scan_whole_digits [OF parts(2)] by (auto simp: list_all_iff)
    then have "scan_sign (sg @ w @ f @ e) = (sg, w @ f @ e)" by (intro scan_sign_again [OF parts(1)]) auto
    with scan_exponent_again [OF parts(4)] scan_fraction_again [OF parts(3) e] scan_whole_again [OF parts(2) fe] False
    have "float_text (sg @ w @ f @ e)" by (auto simp: float_text_def)
    with assms(1) have "fr (sg @ w @ f @ e) \<in> {''inf'', ''-inf''} \<or> float_text (fr (sg @ w @ f @ e)) \<and>
        fr (fr (sg @ w @ f @ e)) = fr (sg @ w @ f @ e)"
      by (simp add: float_repr_ok_def)
    with False assms(2) parts show ?thesis
      by (auto simp: scan_number_def float_ok_def split: if_splits)
  qed
qed

lemma list_all_dict_set: "list_all (\<lambda>(k, v). P v) d \<Longrightarrow> P v \<Longrightarrow> list_all (\<lambda>(k, v). P v) (dict_set k v d)"
  by (induction d) auto

lemma dict_of_ok: "list_all (\<lambda>(k, v). P v) ps \<Longrightarrow> dict_ok (dict_of ps) \<and> list_all (\<lambda>(k, v). P v) (dict_of ps)"
proof -
  have "list_all (\<lambda>(k, v). P v) ps \<Longrightarrow> dict_ok d \<and> list_all (\<lambda>(k, v). P v) d \<Longrightarrow>
      dict_ok (fold (\<lambda>(k, v). dict_set k v) ps d) \<and> list_all (\<lambda>(k, v). P v) (fold (\<lambda>(k, v). dict_set k v) ps d)" for d
    by (induction ps arbitrary: d) (auto simp: list_all_dict_set)
  then show "list_all (\<lambda>(k, v). P v) ps \<Longrightarrow> ?thesis" by (simp add: dict_of_def)
qed

lemma scan_word_ok: "scan_word s = Some (v, r) \<Longrightarrow> json_ok fr v"
  by (auto simp: scan_word_def scan_words_def float_ok_def split: if_splits)

lemma scan_ok:
  assumes "float_repr_ok fr"
  shows "(\<forall>v r. scan_value fr s = Inr (v, r) \<longrightarrow> json_ok fr v) \<and>
   (\<forall>vs r. scan_items fr s = Inr (vs, r) \<longrightarrow> list_all (json_ok fr) vs) \<and>
   (\<forall>ps r. scan_members fr s = Inr (ps, r) \<longrightarrow> list_all (\<lambda>(k, v). json_ok fr v) ps)"
proof (induction s rule: measure_induct_rule [of length])
  case (less s)
  have shorter: "scan_value fr (skip_ws t) = Inr (v, r) \<Longrightarrow> json_ok fr v"
      "scan_items fr (skip_ws t) = Inr (vs, r) \<Longrightarrow> list_all (json_ok fr) vs"
      "scan_members fr (skip_ws t) = Inr (ps, r) \<Longrightarrow> list_all (\<lambda>(k, v). json_ok fr v) ps"
    if "length t < length s" for t v r vs ps
    using less.IH [of "skip_ws t"] le_less_trans [OF length_skip_ws that] by blast+
  have head: "json_ok fr v" if scanned: "scan_value fr s = Inr (v, r)" for v r
  proof -
    obtain c t where s: "s = c # t" using scanned by (cases s) auto
    then have "length t < length s" by simp
    note parts = shorter(2,3) [OF this]
    from iffD1 [OF scan_value_eq_Inr scanned] show ?thesis
      by (auto simp: s scan_word_ok scan_number_ok [OF assms] split: if_splits
          dest: parts dict_of_ok [OF parts(2), THEN conjunct1] dict_of_ok [OF parts(2), THEN conjunct2])
  qed
  moreover have "list_all (\<lambda>(k, v). json_ok fr v) ps" if members: "scan_members fr s = Inr (ps, r)" for ps r
  proof -
    obtain s0 k r0 r1 v r2 where s: "s = quote_char # s0" "scan_string s0 = Inr (k, r0)" "skip_ws r0 = CHR '':'' # r1"
        "scan_value fr (skip_ws r1) = Inr (v, r2)"
      and rest: "ps = [(k, v)] \<or> (\<exists>r' ps'. length r' < length s0 \<and> scan_members fr (skip_ws r') = Inr (ps', r) \<and> ps = (k, v) # ps')"
      using iffD1 [OF scan_members_eq_Inr members] by blast
    have "length r1 < length s"
      using s(1) scan_string_length [OF s(2)] length_skip_ws_Cons [OF s(3)] by simp
    with s(4) have "json_ok fr v" by (rule shorter(1) [rotated])
    with rest s(1) show ?thesis by (auto dest: shorter(3) [rotated])
  qed
  moreover have "list_all (json_ok fr) vs" if items: "scan_items fr s = Inr (vs, r)" for vs r
  proof -
    obtain v r0 where "scan_value fr s = Inr (v, r0)"
      and "vs = [v] \<or> (\<exists>r' vs'. length r' < length s \<and> scan_items fr (skip_ws r') = Inr (vs', r) \<and> vs = v # vs')"
      using iffD1 [OF scan_items_eq_Inr items] by blast
    then show ?thesis by (auto dest: head shorter(2) [rotated])
  qed
  ultimately show ?case by blast
qed

lemma decode_text_ok: "float_repr_ok fr \<Longrightarrow> decode_text fr s = Inr v \<Longrightarrow> json_ok fr v"
  using scan_ok by (fastforce simp: decode_text_def split: sum.splits if_splits)

section \<open>Bytes\<close>

text \<open>The strings of a value are well-formed.\<close>

fun strings_ok :: "json \<Rightarrow> bool" where
  "strings_ok (JStr s) = utf8_ok s"
| "strings_ok (JArr xs) = list_all strings_ok xs"
| "strings_ok (JObj kvs) = list_all (\<lambda>(k, v). utf8_ok k \<and> strings_ok v) kvs"
| "strings_ok _ = True"

lemma utf8_ok_append: "utf8_ok s \<Longrightarrow> utf8_ok (s @ t) = utf8_ok t"
  by (induction s rule: utf8_ok.induct) (auto split: option.splits)

lemma utf8_ok_Cons: "char_code c < 128 \<Longrightarrow> utf8_ok (c # s) = utf8_ok s"
  by (simp add: utf8_tail_def second_ok_def)

lemma utf8_ok_punctuation [simp]:
  "utf8_ok (quote_char # s) = utf8_ok s" "utf8_ok (CHR '','' # s) = utf8_ok s" "utf8_ok (CHR '':'' # s) = utf8_ok s"
  "utf8_ok (CHR ''['' # s) = utf8_ok s" "utf8_ok (CHR '']'' # s) = utf8_ok s" "utf8_ok (CHR ''{'' # s) = utf8_ok s"
  "utf8_ok (CHR ''}'' # s) = utf8_ok s" "utf8_ok (newline_char # s) = utf8_ok s"
  by (rule utf8_ok_Cons, simp add: char_code_def)+

declare utf8_ok.simps(2) [simp del]

definition ascii :: "string \<Rightarrow> bool" where
  "ascii s \<longleftrightarrow> list_all (\<lambda>c. char_code c < 128) s"

lemma utf8_ok_ascii: "ascii s \<Longrightarrow> utf8_ok s"
  by (induction s) (auto simp: ascii_def utf8_ok_Cons)

lemma ascii_simps [simp]: "ascii []" "ascii (c # s) \<longleftrightarrow> char_code c < 128 \<and> ascii s" "ascii (s @ t) \<longleftrightarrow> ascii s \<and> ascii t"
  by (simp_all add: ascii_def)

text \<open>No character of a text is a control character, so that a text is one line.\<close>

definition printable :: "string \<Rightarrow> bool" where
  "printable s \<longleftrightarrow> list_all (\<lambda>c. 32 \<le> char_code c) s"

lemma printable_simps [simp]:
  "printable []" "printable (c # s) \<longleftrightarrow> 32 \<le> char_code c \<and> printable s" "printable (s @ t) \<longleftrightarrow> printable s \<and> printable t"
  by (simp_all add: printable_def)

lemma hex_char_codes: "list_all (\<lambda>c. 32 \<le> char_code c \<and> char_code c < 128) (hex_of k n)"
  by (induction k) (auto simp: hex_digit_def char_code_def)

lemma hex_of_codes: "printable (hex_of k n)" "ascii (hex_of k n)"
  using hex_char_codes [of k n] by (auto simp: printable_def ascii_def list_all_iff)

lemma escape_printable: "printable (escape_char c)"
  by (auto simp: escape_char_def Let_def hex_of_codes) (auto simp: char_code_def)

lemma escape_utf8: "char_code c < 128 \<Longrightarrow> ascii (escape_char c)" "128 \<le> char_code c \<Longrightarrow> escape_char c = [c]"
  by (auto simp: escape_char_def Let_def hex_of_codes) (auto simp: char_code_def)

lemma escape_continuation: "list_all continuation s \<Longrightarrow> concat (map escape_char s) = s"
  by (induction s) (auto simp: continuation_def escape_utf8)

lemma escapes_utf8: "utf8_ok s \<Longrightarrow> utf8_ok (concat (map escape_char s))"
proof (induction s rule: utf8_ok.induct)
  case (2 a s)
  then obtain k where k: "utf8_tail (char_code a) = Some k" "k \<le> length s" "list_all continuation (take k s)"
      "second_ok (char_code a) (take k s)" "utf8_ok (drop k s)"
    by (auto simp: utf8_ok.simps(2) split: option.splits)
  have rest: "utf8_ok (concat (map escape_char (drop k s)))" using 2(1) k by blast
  have "concat (map escape_char s) = concat (map escape_char (take k s @ drop k s))" by simp
  also have "\<dots> = take k s @ concat (map escape_char (drop k s))"
    by (simp only: map_append concat_append escape_continuation [OF k(3)])
  finally have s: "concat (map escape_char s) = take k s @ concat (map escape_char (drop k s))" .
  show ?case
  proof (cases "char_code a < 128")
    case True
    then have "k = 0" using k(1) by (simp add: utf8_tail_def)
    with rest True show ?thesis using utf8_ok_append [OF utf8_ok_ascii] by (simp add: escape_utf8)
  next
    case False
    with k rest show ?thesis by (simp add: s escape_utf8 utf8_ok.simps(2))
  qed
qed simp

lemma dump_string_codes: "printable (dump_string s)" "utf8_ok s \<Longrightarrow> utf8_ok (dump_string s)"
proof -
  have "printable (concat (map escape_char s))" by (induction s) (auto simp: escape_printable)
  then show "printable (dump_string s)" by (simp add: dump_string_def) (simp add: char_code_def)
  show "utf8_ok (dump_string s)" if "utf8_ok s"
    using escapes_utf8 [OF that] utf8_ok_append [of "concat (map escape_char s)" "[quote_char]"]
    by (simp add: dump_string_def)
qed

lemma digits_codes: "list_all is_digit s \<Longrightarrow> printable s \<and> ascii s"
  by (auto simp: printable_def ascii_def list_all_iff is_digit_def)

lemma int_codes: "printable (string_of_int n)" "ascii (string_of_int n)"
  using digits_codes string_of_nat_digits by (auto simp: string_of_int_def) (simp_all add: char_code_def)

lemma scan_codes:
  "scan_sign s = (sg, r) \<Longrightarrow> printable sg \<and> ascii sg" "scan_whole s = Some (w, r) \<Longrightarrow> printable w \<and> ascii w"
  "scan_fraction s = (f, r) \<Longrightarrow> printable f \<and> ascii f" "scan_exponent_sign s = (sg, r) \<Longrightarrow> printable sg \<and> ascii sg"
proof -
  have digits: "printable (takeWhile is_digit t)" "ascii (takeWhile is_digit t)" for t
    using digits_codes [of "takeWhile is_digit t"] by (auto simp: list_all_iff dest: set_takeWhileD)
  show "scan_sign s = (sg, r) \<Longrightarrow> printable sg \<and> ascii sg" "scan_fraction s = (f, r) \<Longrightarrow> printable f \<and> ascii f"
    "scan_exponent_sign s = (sg, r) \<Longrightarrow> printable sg \<and> ascii sg"
    by (auto simp: scan_sign_def scan_fraction_def scan_exponent_sign_def scan_digits_def digits split: list.splits if_splits)
       (simp_all add: char_code_def)
  show "scan_whole s = Some (w, r) \<Longrightarrow> printable w \<and> ascii w"
    using scan_whole_digits digits_codes by blast
qed

lemma scan_exponent_codes: "scan_exponent s = (e, r) \<Longrightarrow> printable e \<and> ascii e"
proof (cases "e = []")
  case False
  have digits: "printable (takeWhile is_digit t)" "ascii (takeWhile is_digit t)" for t
    using digits_codes [of "takeWhile is_digit t"] by (auto simp: list_all_iff dest: set_takeWhileD)
  assume "scan_exponent s = (e, r)"
  with False obtain c t sg u where "c = CHR ''e'' \<or> c = CHR ''E''" "scan_exponent_sign t = (sg, u)" "e = c # sg @ takeWhile is_digit u"
    by (auto simp: scan_exponent_def scan_digits_def split: list.splits if_splits prod.splits)
  with scan_codes(4) [of t sg u] digits [of u] show ?thesis by (auto simp: char_code_def)
qed simp

lemma float_codes: "float_text s \<Longrightarrow> printable s \<and> ascii s"
proof (elim float_text_parts)
  fix sg s1 w s2 f s3 e
  assume "scan_sign s = (sg, s1)" "scan_whole s1 = Some (w, s2)" "scan_fraction s2 = (f, s3)" "scan_exponent s3 = (e, [])"
    and s: "s = sg @ w @ f @ e"
  then have "printable sg \<and> ascii sg" "printable w \<and> ascii w" "printable f \<and> ascii f" "printable e \<and> ascii e"
    using scan_codes scan_exponent_codes by blast+
  then show ?thesis by (simp add: s)
qed

lemma join_codes:
  "list_all printable xs \<Longrightarrow> printable (join '','' xs)" "list_all utf8_ok xs \<Longrightarrow> utf8_ok (join '','' xs)"
  by (induction xs rule: induct_list012) (auto simp: utf8_ok_append, simp_all add: char_code_def)

lemma dump_member_codes:
  "printable t \<Longrightarrow> printable (dump_member (k, t))" "utf8_ok k \<Longrightarrow> utf8_ok t \<Longrightarrow> utf8_ok (dump_member (k, t))"
  using dump_string_codes [of k]
  by (simp_all add: dump_member_def utf8_ok_append) (simp_all add: char_code_def)

lemma word_codes:
  "printable ''null'' \<and> ascii ''null''" "printable ''true'' \<and> ascii ''true''" "printable ''false'' \<and> ascii ''false''"
  "printable ''NaN'' \<and> ascii ''NaN''" "printable ''Infinity'' \<and> ascii ''Infinity''" "printable ''-Infinity'' \<and> ascii ''-Infinity''"
  "printable ''['' \<and> printable '']'' \<and> printable ''{'' \<and> printable ''}''"
  by (simp_all add: char_code_def)

lemma dump_float_codes: "float_ok fr s \<Longrightarrow> printable (dump_float s) \<and> ascii (dump_float s)"
  by (auto simp: float_ok_def dump_float_def word_codes float_codes simp del: printable_simps ascii_simps)

lemma dump_codes:
  "json_ok fr v \<Longrightarrow> printable (dump_json v) \<and> (strings_ok v \<longrightarrow> utf8_ok (dump_json v))"
proof (induction v)
  case (JFloat s)
  then show ?case using dump_float_codes utf8_ok_ascii by (simp del: printable_simps ascii_simps)
next
  case (JInt n)
  then show ?case by (simp add: int_codes utf8_ok_ascii)
next
  case (JStr s)
  then show ?case by (simp add: dump_string_codes)
next
  case (JArr xs)
  then have "list_all printable (map dump_json xs)" "strings_ok (JArr xs) \<longrightarrow> list_all utf8_ok (map dump_json xs)"
    by (auto simp: list_all_iff)
  then show ?case
    using join_codes [of "map dump_json xs"] word_codes(7) by (auto simp: utf8_ok_append)
next
  case (JObj kvs)
  let ?ms = "map (\<lambda>(k, v). dump_member (k, dump_json v)) (sort_key fst kvs)"
  have parts: "json_ok fr v \<Longrightarrow> printable (dump_json v) \<and> (strings_ok v \<longrightarrow> utf8_ok (dump_json v))" if "(k, v) \<in> set kvs" for k v
    using JObj.IH [OF that, of v] by simp
  have "list_all printable ?ms" "strings_ok (JObj kvs) \<longrightarrow> list_all utf8_ok ?ms"
    using JObj.prems parts by (fastforce simp: list_all_iff intro!: dump_member_codes)+
  then show ?case
    using join_codes [of ?ms] word_codes(7) by (auto simp: dump_json_object utf8_ok_append simp del: dump_json.simps)
qed (simp_all add: word_codes utf8_ok_ascii del: printable_simps ascii_simps)

lemma decode_bytes_plain:
  assumes "char_code a < 128" "char_code a \<noteq> 0" "t = [] \<or> char_code (hd t) \<noteq> 0"
  shows "decode_bytes (a # t) = decode_utf8 (a # t)"
proof -
  have "char_code a \<noteq> 255" "char_code a \<noteq> 254" "char_code a \<noteq> 239" using assms(1) by auto
  with assms(2,3) show ?thesis by (cases t) (simp_all add: decode_bytes_def Let_def)
qed

lemma decode_bytes_line:
  assumes "s \<noteq> []" "char_code (hd s) < 128" "printable s"
  shows "decode_bytes (s @ [newline_char]) = decode_utf8 (s @ [newline_char])"
proof -
  obtain a t where s: "s = a # t" using assms(1) by (cases s) auto
  have "char_code a \<noteq> 0" using assms(3) s by auto
  moreover have "char_code (hd (t @ [newline_char])) \<noteq> 0"
    using assms(3) s by (cases t) (auto simp: char_code_control)
  ultimately show ?thesis using assms(2) s decode_bytes_plain [of a "t @ [newline_char]"] by simp
qed

lemma dump_first: "json_ok fr v \<Longrightarrow> dump_json v \<noteq> [] \<and> char_code (hd (dump_json v)) < 128"
proof -
  have head: "s \<noteq> [] \<and> char_code (hd s) < 128" if "ascii s" "s \<noteq> []" for s
    using that by (cases s) auto
  have "string_of_int n \<noteq> []" for n using numeral_head_int [of n] by (auto simp: numeral_head_def)
  moreover have "dump_float s \<noteq> []" if "float_ok fr s" for s
    using that numeral_head_float [of s] by (auto simp: float_ok_def dump_float_def numeral_head_def)
  ultimately show "json_ok fr v \<Longrightarrow> ?thesis"
    using int_codes dump_float_codes head by (cases v) (auto simp: dump_string_def char_code_def)
qed

lemma loads_dumped:
  assumes "json_ok fr v" "strings_ok v"
  shows "loads_text fr (dump_json v) = Inr (canon_json v)" "loads_bytes fr (dump_json v @ [newline_char]) = Inr (canon_json v)"
proof -
  have codes: "printable (dump_json v)" "utf8_ok (dump_json v)" using dump_codes assms by blast+
  obtain a t where d: "dump_json v = a # t" "char_code a < 128" using dump_first [OF assms(1)] by (cases "dump_json v") auto
  then have "map char_code (take 3 (dump_json v)) \<noteq> [239, 187, 191]" by auto
  then show "loads_text fr (dump_json v) = Inr (canon_json v)"
    using decode_dumped [OF assms(1)] by (simp add: loads_text_def)
  show "loads_bytes fr (dump_json v @ [newline_char]) = Inr (canon_json v)"
    using decode_bytes_line [of "dump_json v"] decode_dumped_line [OF assms(1)] codes dump_first [OF assms(1)]
    by (simp add: loads_bytes_def decode_utf8_def utf8_ok_append)
qed

text \<open>Reading the text that \<open>json.dumps\<close> writes, as text or as a line of bytes, gives the value back with its keys sorted.\<close>

theorem json_roundtrip:
  assumes "json_ok fr v" "strings_ok v"
  shows "\<exists>t. json_dumps v = Inr t \<and> loads_text fr t = Inr (canon_json v) \<and> loads_bytes fr (t @ [newline_char]) = Inr (canon_json v)"
  using loads_dumped [OF assms] json_ok_printable [OF assms(1)] by (simp add: json_dumps_def)

lemma sample_json_ok: "json_ok (\<lambda>s. s) (JObj [(''b'', JFloat ''1.5''), (''a'', JArr [JInt (-7), JNull, JStr [CHR 0x0A, quote_char]])])"
  by (simp add: float_ok_def float_text_def scan_sign_def scan_whole_def scan_fraction_def scan_exponent_def scan_digits_def
      is_digit_def char_code_def dict_ok_def int_printable_def digits_limit_def string_of_nat.simps)

theorem json_roundtrip_witness:
  "\<exists>t. json_dumps (JObj [(''b'', JFloat ''1.5''), (''a'', JArr [JInt (-7), JNull, JStr [CHR 0x0A, quote_char]])]) = Inr t \<and>
     loads_text (\<lambda>s. s) t = Inr (JObj [(''a'', JArr [JInt (-7), JNull, JStr [CHR 0x0A, quote_char]]), (''b'', JFloat ''1.5'')]) \<and>
     loads_bytes (\<lambda>s. s) (t @ [newline_char]) = Inr (JObj [(''a'', JArr [JInt (-7), JNull, JStr [CHR 0x0A, quote_char]]), (''b'', JFloat ''1.5'')])"
proof -
  have "strings_ok (JObj [(''b'', JFloat ''1.5''), (''a'', JArr [JInt (-7), JNull, JStr [CHR 0x0A, quote_char]])])"
    by (simp add: utf8_ok_Cons char_code_def)
  from json_roundtrip [OF sample_json_ok this] show ?thesis by simp
qed

section \<open>Canonical forms\<close>

lemma map_of_sort_key: "dict_ok kvs \<Longrightarrow> map_of (sort_key fst kvs) = map_of kvs"
  by (rule ext) (metis dict_get_in dict_ok_def distinct_map_sort_key map_of_eq_None_iff not_None_eq set_map set_sort)

lemma map_of_map_snd: "map_of (map (\<lambda>(k, v). (k, f v)) kvs) k = map_option f (map_of kvs k)"
  by (induction kvs) auto

lemma canon_object: "canon_json (JObj kvs) = JObj (map (\<lambda>(k, v). (k, canon_json v)) (sort_key fst kvs))"
  by (simp add: sort_key_map_values)

lemma jget_canon:
  "dict_ok kvs \<Longrightarrow> jget (map (\<lambda>(k, v). (k, canon_json v)) (sort_key fst kvs)) k = canon_json (jget kvs k)"
  by (auto simp: jget_def map_of_map_snd map_of_sort_key split: option.splits)

lemma sort_key_sorted_values: "sort_key fst (map (\<lambda>(k, v). (k, f k v)) (sort_key fst kvs)) = map (\<lambda>(k, v). (k, f k v)) (sort_key fst kvs)"
  by (simp add: sort_key_map_values sort_key_id_if_sorted)

lemma dump_canon: "dump_json (canon_json v) = dump_json v"
proof (induction v)
  case (JObj kvs)
  then have "dump_json (canon_json v) = dump_json v" if "(k, v) \<in> set kvs" for k v
    using that by fastforce
  then have "map (\<lambda>(k, v). dump_member (k, dump_json v)) (map (\<lambda>(k, v). (k, canon_json v)) (sort_key fst kvs)) =
      map (\<lambda>(k, v). dump_member (k, dump_json v)) (sort_key fst kvs)"
    by auto
  then show ?case
    by (simp only: canon_object dump_json_object sort_key_sorted_values)
qed (auto simp: comp_def cong: map_cong)

lemma ints_printable_canon: "ints_printable (canon_json v) = ints_printable v"
proof (induction v)
  case (JObj kvs)
  then have "ints_printable (canon_json v) = ints_printable v" if "(k, v) \<in> set kvs" for k v
    using that by fastforce
  then show ?case unfolding canon_object by (auto simp: list_all_iff)
qed (auto simp: list_all_iff)

section \<open>ASCII values\<close>

fun ascii_json :: "json \<Rightarrow> bool" where
  "ascii_json (JStr s) = ascii s"
| "ascii_json (JArr xs) = list_all ascii_json xs"
| "ascii_json (JObj kvs) = list_all (\<lambda>(k, v). ascii k \<and> ascii_json v) kvs"
| "ascii_json _ = True"

lemma encodable_ascii: "ascii s \<Longrightarrow> encodable s"
  by (induction s rule: encodable.induct) auto

lemma ascii_dump_string: "ascii s \<Longrightarrow> ascii (dump_string s)"
proof -
  assume "ascii s"
  then have "ascii (concat (map escape_char s))" by (induction s) (auto simp: escape_utf8)
  then show ?thesis by (simp add: dump_string_def) (simp add: char_code_def)
qed

lemma ascii_join: "list_all ascii xs \<Longrightarrow> ascii (join '','' xs)"
  by (induction xs rule: induct_list012) (auto, simp_all add: char_code_def)

lemma ascii_brackets: "ascii ''['' \<and> ascii '']'' \<and> ascii ''{'' \<and> ascii ''}'' \<and> ascii '':''"
  by (simp add: char_code_def)

lemma ascii_dump: "json_shape fr v \<Longrightarrow> ascii_json v \<Longrightarrow> ascii (dump_json v)"
proof (induction v)
  case (JArr xs)
  then have "list_all ascii (map dump_json xs)" by (auto simp: list_all_iff)
  with ascii_join ascii_brackets show ?case by simp
next
  case (JObj kvs)
  let ?ms = "map (\<lambda>(k, v). dump_member (k, dump_json v)) (sort_key fst kvs)"
  have "ascii (dump_json v) \<and> ascii k" if "(k, v) \<in> set kvs" for k v
    using JObj.IH [OF that, of v] JObj.prems that by (auto simp: list_all_iff)
  then have "list_all ascii ?ms"
    using ascii_dump_string ascii_brackets by (fastforce simp: list_all_iff dump_member_def)
  with ascii_join [of ?ms] ascii_brackets show ?case by (simp add: dump_json_object del: dump_json.simps)
next
  case (JFloat s)
  then show ?case using dump_float_codes by simp
qed (simp_all add: ascii_dump_string int_codes word_codes del: ascii_simps)

end
