(* ===== verification/Ledger.thy ===== *)
theory Ledger
  imports Sha256 Json_Laws
begin

text \<open>
  The evidence ledger of \<open>recorder.py\<close>: its verification, and the writer that appends hash-chained JSON lines
  and rolls partial writes back.

  A file is its bytes.  What the operating system does to one append is an \<open>os_calls\<close> record: the result of
  every \<open>os.write\<close>, and whether \<open>fsync\<close> and \<open>ftruncate\<close> fail.  Opening, \<open>stat\<close> and reading of the file do not
  fail in the model, and no other process writes to it.

  The lemmas show that an append is atomic, that the state of an open writer is what the verification of its
  file gives, and that two ledgers with one head hash have the same rows unless they exhibit a collision of
  SHA-256 or a preimage of the genesis hash.
\<close>

section \<open>Constants\<close>

definition LEDGER_VERSION :: string where "LEDGER_VERSION = ''1.0''"
definition LEDGER_ALGORITHM :: string where "LEDGER_ALGORITHM = ''sha256''"
definition GENESIS_HASH :: string where "GENESIS_HASH = replicate 64 (CHR ''0'')"
definition PROVENANCE_SYSTEM :: string where "PROVENANCE_SYSTEM = ''smart-market-data-gateway''"
definition PROVENANCE_COMPONENT :: string where "PROVENANCE_COMPONENT = ''websocket-jsonl-recorder''"
definition PROVENANCE_TRANSPORT :: string where "PROVENANCE_TRANSPORT = ''websocket''"

definition RESERVED_LEDGER_FIELDS :: "string list" where
  "RESERVED_LEDGER_FIELDS = [''ledger_version'', ''ledger_algorithm'', ''ledger_index'', ''previous_record_hash'',
     ''record_hash'', ''recorder_session_id'', ''provenance_system'', ''provenance_component'', ''provenance_transport'']"

type_synonym object = "(string, json) dict"

section \<open>Hashes\<close>

definition canonical_record_bytes :: "object \<Rightarrow> string result" where
  "canonical_record_bytes record =
     bindE (json_dumps (JObj (dict_pop ''record_hash'' record))) encode_utf8"

definition compute_record_hash :: "object \<Rightarrow> string result" where
  "compute_record_hash record = bindE (canonical_record_bytes record) (\<lambda>b. Inr (sha256_hexdigest b))"

definition at_line :: "int \<Rightarrow> string \<Rightarrow> error" where
  "at_line n what = LedgerIntegrityError (''line '' @ string_of_int n @ '': '' @ what)"

definition require_hash :: "json \<Rightarrow> string \<Rightarrow> int \<Rightarrow> string result" where
  "require_hash v field n = (case v of
       JStr s \<Rightarrow> if length s \<noteq> 64 \<or> \<not> list_all hex_char s
         then Inl (at_line n (field @ '' must be a lowercase 64-character SHA-256 digest'')) else Inr s
     | _ \<Rightarrow> Inl (at_line n (field @ '' must be a lowercase 64-character SHA-256 digest'')))"

section \<open>Verification\<close>

record ledger_verification =
  records :: int
  head_hash :: string
  session_ids :: "string list"

text \<open>\<open>for raw_line in handle\<close>: the lines of the file with their ends.\<close>

fun file_lines :: "string \<Rightarrow> string list" where
  "file_lines [] = []"
| "file_lines (c # s) =
     (if c = newline_char then [c] # file_lines s
      else case file_lines s of [] \<Rightarrow> [[c]] | l # ls \<Rightarrow> (c # l) # ls)"

text \<open>The locals of the loop: \<open>expected_previous_hash\<close>, \<open>expected_index\<close> and \<open>session_ids\<close>.\<close>

record ledger_scan =
  expected_previous :: string
  expected_index :: int
  seen_sessions :: "string set"

definition check_header :: "int \<Rightarrow> int \<Rightarrow> object \<Rightarrow> unit result" where
  "check_header n expected payload =
     (if jget payload ''ledger_version'' \<noteq> JStr LEDGER_VERSION then Inl (at_line n ''unsupported or missing ledger_version'')
      else if jget payload ''ledger_algorithm'' \<noteq> JStr LEDGER_ALGORITHM then Inl (at_line n ''unsupported or missing ledger_algorithm'')
      else if \<not> json_equals_int (jget payload ''ledger_index'') expected
        then Inl (at_line n (''ledger_index must equal '' @ string_of_int expected))
      else if jget payload ''provenance_system'' \<noteq> JStr PROVENANCE_SYSTEM then Inl (at_line n ''invalid provenance_system'')
      else if jget payload ''provenance_component'' \<noteq> JStr PROVENANCE_COMPONENT then Inl (at_line n ''invalid provenance_component'')
      else if jget payload ''provenance_transport'' \<noteq> JStr PROVENANCE_TRANSPORT then Inl (at_line n ''invalid provenance_transport'')
      else Inr ())"

definition check_session :: "int \<Rightarrow> object \<Rightarrow> string result" where
  "check_session n payload = (case jget payload ''recorder_session_id'' of
       JStr s \<Rightarrow> if py_strip s = [] then Inl (at_line n ''recorder_session_id is required'') else Inr s
     | _ \<Rightarrow> Inl (at_line n ''recorder_session_id is required''))"

definition verify_payload :: "ledger_scan \<Rightarrow> object \<Rightarrow> ledger_scan result" where
  "verify_payload sc payload =
     (let n = expected_index sc + 1 in
      bindE (check_header n (expected_index sc) payload) (\<lambda>_.
      bindE (check_session n payload) (\<lambda>session_id.
      bindE (require_hash (jget payload ''previous_record_hash'') ''previous_record_hash'' n) (\<lambda>previous_hash.
      if previous_hash \<noteq> expected_previous sc
      then Inl (at_line n ''previous_record_hash does not match the prior record'')
      else bindE (require_hash (jget payload ''record_hash'') ''record_hash'' n) (\<lambda>stored_hash.
        bindE (compute_record_hash payload) (\<lambda>computed_hash.
        if stored_hash \<noteq> computed_hash then Inl (at_line n ''record_hash mismatch'')
        else Inr \<lparr>expected_previous = stored_hash, expected_index = expected_index sc + 1,
                  seen_sessions = insert session_id (seen_sessions sc)\<rparr>))))))"

definition read_line :: "(string \<Rightarrow> string) \<Rightarrow> int \<Rightarrow> string \<Rightarrow> object result" where
  "read_line fr n raw_line = (case loads_bytes fr raw_line of
       Inl Malformed \<Rightarrow> Inl (at_line n ''invalid UTF-8 JSON record'')
     | Inl TooManyDigits \<Rightarrow> Inl (ValueError ''Exceeds the limit (4300 digits) for integer string conversion'')
     | Inr (JObj payload) \<Rightarrow> Inr payload
     | Inr _ \<Rightarrow> Inl (at_line n ''ledger record must be an object''))"

definition verify_line :: "(string \<Rightarrow> string) \<Rightarrow> ledger_scan \<Rightarrow> string \<Rightarrow> ledger_scan result" where
  "verify_line fr sc raw_line = bindE (read_line fr (expected_index sc + 1) raw_line) (verify_payload sc)"

primrec verify_lines :: "(string \<Rightarrow> string) \<Rightarrow> ledger_scan \<Rightarrow> string list \<Rightarrow> ledger_scan result" where
  "verify_lines fr sc [] = Inr sc"
| "verify_lines fr sc (l # ls) = bindE (verify_line fr sc l) (\<lambda>sc'. verify_lines fr sc' ls)"

definition empty_scan :: ledger_scan where
  "empty_scan = \<lparr>expected_previous = GENESIS_HASH, expected_index = 0, seen_sessions = {}\<rparr>"

definition verification_of :: "ledger_scan \<Rightarrow> ledger_verification" where
  "verification_of sc = \<lparr>records = expected_index sc, head_hash = expected_previous sc,
     session_ids = sorted_list_of_set (seen_sessions sc)\<rparr>"

text \<open>The file is \<^const>\<open>None\<close> when it does not exist; its path is left out of the message.\<close>

definition verify_jsonl_ledger :: "(string \<Rightarrow> string) \<Rightarrow> string option \<Rightarrow> bool \<Rightarrow> ledger_verification result" where
  "verify_jsonl_ledger fr file allow_missing = (case file of
       None \<Rightarrow> if allow_missing then Inr \<lparr>records = 0, head_hash = GENESIS_HASH, session_ids = []\<rparr>
         else Inl (LedgerIntegrityError ''ledger does not exist'')
     | Some content \<Rightarrow>
         (if content = [] then Inr \<lparr>records = 0, head_hash = GENESIS_HASH, session_ids = []\<rparr>
          else if last content \<noteq> newline_char
            then Inl (LedgerIntegrityError ''ledger must end with a complete newline-terminated record'')
          else bindE (verify_lines fr empty_scan (file_lines content)) (\<lambda>sc. Inr (verification_of sc))))"

section \<open>Writing\<close>

record writer =
  w_file :: string
  w_open :: bool
  w_session :: string
  w_index :: int
  w_previous :: string
  w_fsync :: bool

record os_calls =
  os_write :: "nat \<Rightarrow> int result"
  os_sync :: "error option"
  os_truncate :: "error option"
  os_resync :: "error option"

text \<open>\<open>AtomicJsonlWriter(path, fsync, session_id)\<close>; a missing \<open>session_id\<close> is a fresh UUID.\<close>

definition make_writer :: "uuid \<Rightarrow> string option \<Rightarrow> bool \<Rightarrow> string \<Rightarrow> writer result" where
  "make_writer fresh session_id fsync content =
     (let s = (case session_id of None \<Rightarrow> uuid_str fresh | Some t \<Rightarrow> if t = [] then uuid_str fresh else t) in
      if py_strip s = [] then Inl (ValueError ''session_id must not be empty'')
      else Inr \<lparr>w_file = content, w_open = False, w_session = s, w_index = 0, w_previous = GENESIS_HASH, w_fsync = fsync\<rparr>)"

text \<open>\<open>__enter__\<close>: the file exists from here on (\<open>O_CREAT\<close>).\<close>

definition writer_enter :: "(string \<Rightarrow> string) \<Rightarrow> (writer, unit) call" where
  "writer_enter fr w = (case verify_jsonl_ledger fr (Some (w_file w)) False of
       Inl e \<Rightarrow> (Inl e, w\<lparr>w_open := False\<rparr>)
     | Inr v \<Rightarrow> (Inr (), w\<lparr>w_open := True, w_index := records v, w_previous := head_hash v\<rparr>))"

definition writer_close :: "writer \<Rightarrow> writer" where
  "writer_close w = w\<lparr>w_open := False\<rparr>"

text \<open>The write loop: \<open>os.write\<close> may append any positive number of the remaining bytes.\<close>

function write_remaining :: "(nat \<Rightarrow> int result) \<Rightarrow> nat \<Rightarrow> string \<Rightarrow> string \<Rightarrow> unit result \<times> string" where
  "write_remaining os i remaining file =
     (if remaining = [] then (Inr (), file)
      else case os i of
        Inl e \<Rightarrow> (Inl e, file)
      | Inr written \<Rightarrow>
          if written \<le> 0 then (Inl (OSError ''JSONL append made no progress''), file)
          else write_remaining os (Suc i) (drop (nat written) remaining) (file @ take (nat written) remaining))"
  by pat_completeness auto

termination
  by (relation "measure (\<lambda>(os, i, remaining, file). length remaining)") auto

declare write_remaining.simps [simp del]

text \<open>One append, with the roll-back of everything it has written when it fails.\<close>

definition append_payload :: "os_calls \<Rightarrow> bool \<Rightarrow> string \<Rightarrow> string \<Rightarrow> unit result \<times> string" where
  "append_payload os fsync payload file =
     (let (written, file1) = write_remaining (os_write os) 0 payload file;
          outcome = (case written of Inl e \<Rightarrow> Some e | Inr _ \<Rightarrow> if fsync then os_sync os else None)
      in case outcome of
           None \<Rightarrow> (Inr (), file1)
         | Some e \<Rightarrow>
             (case os_truncate os of
                Some e' \<Rightarrow> (Inl e', file1)
              | None \<Rightarrow>
                  (case (fsync, os_resync os) of
                     (True, Some e') \<Rightarrow> (Inl e', take (length file) file1)
                   | _ \<Rightarrow> (Inl e, take (length file) file1))))"

definition ledger_fields :: "writer \<Rightarrow> object" where
  "ledger_fields w =
     [(''ledger_version'', JStr LEDGER_VERSION), (''ledger_algorithm'', JStr LEDGER_ALGORITHM),
      (''ledger_index'', JInt (w_index w)), (''previous_record_hash'', JStr (w_previous w)),
      (''recorder_session_id'', JStr (w_session w)), (''provenance_system'', JStr PROVENANCE_SYSTEM),
      (''provenance_component'', JStr PROVENANCE_COMPONENT), (''provenance_transport'', JStr PROVENANCE_TRANSPORT)]"

definition dict_update :: "object \<Rightarrow> object \<Rightarrow> object" where
  "dict_update d new = fold (\<lambda>(k, v). dict_set k v) new d"

definition writer_write :: "os_calls \<Rightarrow> object \<Rightarrow> (writer, object) call" where
  "writer_write os record w =
     (let conflicting = filter (\<lambda>f. f \<in> set (dict_keys record)) RESERVED_LEDGER_FIELDS in
      if \<not> w_open w then (Inl (RuntimeError ''JSONL writer is not open''), w)
      else if conflicting \<noteq> [] then
        (Inl (ValueError (''record contains reserved evidence-ledger fields: '' @ join '', '' (sort conflicting))), w)
      else (let ledger_record = dict_update record (ledger_fields w) in
        case compute_record_hash ledger_record of
          Inl e \<Rightarrow> (Inl e, w)
        | Inr digest \<Rightarrow>
            (let hashed = dict_set ''record_hash'' (JStr digest) ledger_record in
             case bindE (canonical_record_bytes hashed) (\<lambda>_. bindE (json_dumps (JObj hashed)) (\<lambda>t. encode_utf8 (t @ [newline_char]))) of
               Inl e \<Rightarrow> (Inl e, w)
             | Inr payload \<Rightarrow>
                 (case append_payload os (w_fsync w) payload (w_file w) of
                    (Inl e, file) \<Rightarrow> (Inl e, w\<lparr>w_file := file\<rparr>)
                  | (Inr _, file) \<Rightarrow>
                      (Inr hashed, w\<lparr>w_file := file, w_previous := digest, w_index := w_index w + 1\<rparr>)))))"

section \<open>Appending a line\<close>

lemma file_lines_append: "s = [] \<or> last s = newline_char \<Longrightarrow> file_lines (s @ t) = file_lines s @ file_lines t"
proof (induction s)
  case (Cons c s)
  have nonempty: "file_lines s \<noteq> []" if "s \<noteq> []"
    using that by (cases s) (auto split: list.splits)
  from Cons nonempty show ?case by (cases "s = []") (auto split: list.splits)
qed simp

lemma file_lines_single: "newline_char \<notin> set l \<Longrightarrow> file_lines (l @ [newline_char]) = [l @ [newline_char]]"
  by (induction l) auto

lemma verify_lines_append: "verify_lines fr sc (ls @ ms) = bindE (verify_lines fr sc ls) (\<lambda>sc'. verify_lines fr sc' ms)"
  by (induction ls arbitrary: sc) (auto simp: bindE_def split: sum.splits)

text \<open>A file that verifies, by the state of the loop at its end.\<close>

definition scan_ledger :: "(string \<Rightarrow> string) \<Rightarrow> string \<Rightarrow> ledger_scan \<Rightarrow> bool" where
  "scan_ledger fr content sc \<longleftrightarrow>
     (content = [] \<or> last content = newline_char) \<and> verify_lines fr empty_scan (file_lines content) = Inr sc"

lemma verify_iff_scan:
  "verify_jsonl_ledger fr (Some content) missing = Inr v \<longleftrightarrow> (\<exists>sc. scan_ledger fr content sc \<and> v = verification_of sc)"
  by (auto simp: verify_jsonl_ledger_def scan_ledger_def bindE_eq_Inr verification_of_def empty_scan_def)

lemma scan_ledger_line:
  assumes "scan_ledger fr content sc" "newline_char \<notin> set l" "verify_line fr sc (l @ [newline_char]) = Inr sc'"
  shows "scan_ledger fr (content @ l @ [newline_char]) sc'"
  using assms by (simp add: scan_ledger_def file_lines_append file_lines_single verify_lines_append)

definition hash_format :: "string \<Rightarrow> bool" where
  "hash_format s \<longleftrightarrow> length s = 64 \<and> list_all hex_char s"

lemma require_hash_eq_Inr: "require_hash v field n = Inr s \<longleftrightarrow> v = JStr s \<and> hash_format s"
  by (cases v) (auto simp: require_hash_def hash_format_def)

lemma genesis_format: "hash_format GENESIS_HASH"
  by (simp add: hash_format_def GENESIS_HASH_def hex_char_def list_all_iff)

lemma check_header_eq_Inr:
  "check_header n i payload = Inr () \<longleftrightarrow>
     jget payload ''ledger_version'' = JStr LEDGER_VERSION \<and> jget payload ''ledger_algorithm'' = JStr LEDGER_ALGORITHM \<and>
     json_equals_int (jget payload ''ledger_index'') i \<and> jget payload ''provenance_system'' = JStr PROVENANCE_SYSTEM \<and>
     jget payload ''provenance_component'' = JStr PROVENANCE_COMPONENT \<and>
     jget payload ''provenance_transport'' = JStr PROVENANCE_TRANSPORT"
  by (auto simp: check_header_def)

lemma check_session_eq_Inr:
  "check_session n payload = Inr s \<longleftrightarrow> jget payload ''recorder_session_id'' = JStr s \<and> py_strip s \<noteq> []"
  by (cases "jget payload ''recorder_session_id''") (auto simp: check_session_def)

text \<open>What a line that passes says: its header, its link and its own hash.\<close>

lemma verify_payload_eq_Inr:
  "verify_payload sc payload = Inr sc' \<longleftrightarrow>
     (\<exists>s digest. check_header (expected_index sc + 1) (expected_index sc) payload = Inr () \<and>
        jget payload ''recorder_session_id'' = JStr s \<and> py_strip s \<noteq> [] \<and>
        jget payload ''previous_record_hash'' = JStr (expected_previous sc) \<and> hash_format (expected_previous sc) \<and>
        jget payload ''record_hash'' = JStr digest \<and> hash_format digest \<and> compute_record_hash payload = Inr digest \<and>
        sc' = \<lparr>expected_previous = digest, expected_index = expected_index sc + 1,
               seen_sessions = insert s (seen_sessions sc)\<rparr>)"
  by (auto simp: verify_payload_def bindE_eq_Inr require_hash_eq_Inr check_session_eq_Inr if_Inl_eq_Inr Let_def)

lemma read_line_eq_Inr: "read_line fr n raw = Inr payload \<longleftrightarrow> loads_bytes fr raw = Inr (JObj payload)"
  by (auto simp: read_line_def split: sum.splits json_failure.splits json.splits)

text \<open>The hash of a record depends on its canonical form only.\<close>

lemma delete_sort_values:
  "dict_pop k (map (\<lambda>(k, v). (k, f v)) (sort_key fst kvs)) = map (\<lambda>(k, v). (k, f v)) (sort_key fst (dict_pop k kvs))"
  by (simp add: AList.delete_eq filter_map comp_def case_prod_unfold filter_sort [symmetric])

lemma compute_record_hash_canon:
  "dict_ok kvs \<Longrightarrow> compute_record_hash (map (\<lambda>(k, v). (k, canon_json v)) (sort_key fst kvs)) = compute_record_hash kvs"
  using dump_canon [of "JObj (dict_pop ''record_hash'' kvs)"] ints_printable_canon [of "JObj (dict_pop ''record_hash'' kvs)"]
  unfolding canon_object
  by (simp only: compute_record_hash_def canonical_record_bytes_def delete_sort_values json_dumps_def)

section \<open>The append is atomic\<close>

lemma write_remaining_prefix:
  "\<exists>p q. remaining = p @ q \<and> snd (write_remaining os i remaining file) = file @ p \<and>
     (fst (write_remaining os i remaining file) = Inr () \<longleftrightarrow> q = [])"
proof (induction os i remaining "file" rule: write_remaining.induct)
  case (1 os i remaining content)
  consider "remaining = []" | e where "remaining \<noteq> []" "os i = Inl e" | n where "remaining \<noteq> []" "os i = Inr n" "n \<le> 0"
    | n where "remaining \<noteq> []" "os i = Inr n" "0 < n"
    by (cases "os i") force+
  then show ?case
  proof cases
    case 4
    obtain p q where "drop (nat n) remaining = p @ q"
        "snd (write_remaining os (Suc i) (drop (nat n) remaining) (content @ take (nat n) remaining)) = (content @ take (nat n) remaining) @ p"
        "fst (write_remaining os (Suc i) (drop (nat n) remaining) (content @ take (nat n) remaining)) = Inr () \<longleftrightarrow> q = []"
      using 1 [OF 4(1,2)] 4(3) by (meson not_le)
    note rec = this
    have "remaining = (take (nat n) remaining @ p) @ q" using rec(1) by (metis append_take_drop_id append.assoc)
    moreover have "write_remaining os i remaining content =
        write_remaining os (Suc i) (drop (nat n) remaining) (content @ take (nat n) remaining)"
      using 4 by (subst write_remaining.simps) simp
    ultimately show ?thesis using rec(2,3) by (metis append.assoc)
  qed (subst (1 2) write_remaining.simps, auto)+
qed

lemma append_payload_cases:
  assumes "os_truncate os = None" "append_payload os fsync payload file = (y, file')"
  shows "(y = Inr () \<and> file' = file @ payload) \<or> (\<exists>e. y = Inl e) \<and> file' = file"
proof -
  obtain y1 file1 where w: "write_remaining (os_write os) 0 payload file = (y1, file1)" by fastforce
  with write_remaining_prefix [of payload "os_write os" 0 "file"] obtain p q
    where p: "payload = p @ q" "file1 = file @ p" "y1 = Inr () \<longleftrightarrow> q = []"
    by auto
  show ?thesis
  proof (cases y1)
    case (Inl e)
    with assms w p show ?thesis
      by (cases fsync; cases "os_resync os") (auto simp: append_payload_def)
  next
    case (Inr u)
    with p have "file1 = file @ payload" by simp
    with Inr assms w show ?thesis
      by (cases fsync; cases "os_sync os"; cases "os_resync os") (auto simp: append_payload_def)
  qed
qed

lemma append_payload_quiet:
  assumes "\<And>i. os_write os i = Inr (int (length payload))" "os_sync os = None" "payload \<noteq> []"
  shows "append_payload os fsync payload file = (Inr (), file @ payload)"
  using assms by (simp add: append_payload_def write_remaining.simps)

lemma writer_write_cases:
  assumes "writer_write os record w = (y, w')"
  obtains (refused) e where "y = Inl e" "w' = w"
    | (appended) r digest t z content where "w_open w" "set (dict_keys record) \<inter> set RESERVED_LEDGER_FIELDS = {}"
        "r = dict_update record (ledger_fields w)" "compute_record_hash r = Inr digest"
        "t = dump_json (JObj (dict_set ''record_hash'' (JStr digest) r))"
        "ints_printable (JObj (dict_set ''record_hash'' (JStr digest) r))"
        "append_payload os (w_fsync w) (t @ [newline_char]) (w_file w) = (z, content)"
        "y = (case z of Inl e \<Rightarrow> Inl e | Inr _ \<Rightarrow> Inr (dict_set ''record_hash'' (JStr digest) r))"
        "w' = (case z of Inl _ \<Rightarrow> w\<lparr>w_file := content\<rparr> | Inr _ \<Rightarrow> w\<lparr>w_file := content, w_previous := digest, w_index := w_index w + 1\<rparr>)"
proof (cases "w_open w \<and> set (dict_keys record) \<inter> set RESERVED_LEDGER_FIELDS = {}")
  case False
  with assms have "\<exists>e. y = Inl e \<and> w' = w"
    by (auto simp: writer_write_def Let_def filter_empty_conv split: if_splits)
  then show ?thesis using refused by blast
next
  case True
  then have keys: "filter (\<lambda>f. f \<in> set (dict_keys record)) RESERVED_LEDGER_FIELDS = []"
    by (auto simp: filter_empty_conv)
  let ?r = "dict_update record (ledger_fields w)"
  show ?thesis
  proof (cases "compute_record_hash ?r")
    case (Inl e)
    with assms True keys have "y = Inl e \<and> w' = w" by (simp add: writer_write_def)
    then show ?thesis using refused by blast
  next
    case (Inr digest)
    let ?h = "dict_set ''record_hash'' (JStr digest) ?r"
    show ?thesis
    proof (cases "bindE (canonical_record_bytes ?h) (\<lambda>_. bindE (json_dumps (JObj ?h)) (\<lambda>t. encode_utf8 (t @ [newline_char])))")
      case (Inl e)
      with assms True keys \<open>compute_record_hash ?r = Inr digest\<close> have "y = Inl e \<and> w' = w" by (simp add: writer_write_def)
      then show ?thesis using refused by blast
    next
      case (Inr payload)
      then have p: "ints_printable (JObj ?h)" "payload = dump_json (JObj ?h) @ [newline_char]"
        by (auto simp: bindE_eq_Inr json_dumps_def encode_utf8_def split: if_splits)
      obtain z content where a: "append_payload os (w_fsync w) payload (w_file w) = (z, content)" by fastforce
      have "writer_write os record w = (case (z, content) of (Inl e, file) \<Rightarrow> (Inl e, w\<lparr>w_file := file\<rparr>)
          | (Inr _, file) \<Rightarrow> (Inr ?h, w\<lparr>w_file := file, w_previous := digest, w_index := w_index w + 1\<rparr>))"
        using True keys \<open>compute_record_hash ?r = Inr digest\<close> Inr a by (simp add: writer_write_def)
      with assms show ?thesis
        by (intro appended [OF _ _ refl \<open>compute_record_hash ?r = Inr digest\<close> refl p(1) a [unfolded p(2)]])
           (use True in \<open>auto split: sum.splits\<close>)
    qed
  qed
qed

section \<open>A written record verifies\<close>

lemma delete_update_same: "dict_pop k (dict_set k v d) = dict_pop k d"
  by (induction d) auto

lemma compute_record_hash_set: "compute_record_hash (dict_set ''record_hash'' v d) = compute_record_hash d"
  by (simp add: compute_record_hash_def canonical_record_bytes_def delete_update_same)

definition hashed_record :: "string \<Rightarrow> object \<Rightarrow> writer \<Rightarrow> object" where
  "hashed_record digest record w = dict_set ''record_hash'' (JStr digest) (dict_update record (ledger_fields w))"

lemma hashed_fields:
  "jget (hashed_record h r w) ''ledger_version'' = JStr LEDGER_VERSION"
  "jget (hashed_record h r w) ''ledger_algorithm'' = JStr LEDGER_ALGORITHM"
  "jget (hashed_record h r w) ''ledger_index'' = JInt (w_index w)"
  "jget (hashed_record h r w) ''previous_record_hash'' = JStr (w_previous w)"
  "jget (hashed_record h r w) ''recorder_session_id'' = JStr (w_session w)"
  "jget (hashed_record h r w) ''provenance_system'' = JStr PROVENANCE_SYSTEM"
  "jget (hashed_record h r w) ''provenance_component'' = JStr PROVENANCE_COMPONENT"
  "jget (hashed_record h r w) ''provenance_transport'' = JStr PROVENANCE_TRANSPORT"
  "jget (hashed_record h r w) ''record_hash'' = JStr h"
  by (simp_all add: jget_def hashed_record_def dict_update_def ledger_fields_def dict_get_set)

lemma hashed_other: "k \<notin> set RESERVED_LEDGER_FIELDS \<Longrightarrow> jget (hashed_record h r w) k = jget r k"
  by (simp add: jget_def hashed_record_def dict_update_def ledger_fields_def dict_get_set RESERVED_LEDGER_FIELDS_def)

lemma dict_ok_update: "dict_ok d \<Longrightarrow> dict_ok (fold (\<lambda>(k, v). dict_set k v) new d)"
  by (induction new arbitrary: d) (auto simp: case_prod_unfold)

lemma list_all_update:
  "list_all P d \<Longrightarrow> list_all P new \<Longrightarrow> (\<And>k v d. list_all P d \<Longrightarrow> P (k, v) \<Longrightarrow> list_all P (dict_set k v d)) \<Longrightarrow>
     list_all P (fold (\<lambda>(k, v). dict_set k v) new d)"
  by (induction new arbitrary: d) (auto simp: case_prod_unfold)

lemma list_all_set: "list_all P d \<Longrightarrow> P (k, v) \<Longrightarrow> list_all P (dict_set k v d)" for d :: object
  by (induction d) auto

definition session_ok :: "writer \<Rightarrow> bool" where
  "session_ok w \<longleftrightarrow> py_strip (w_session w) \<noteq> [] \<and> utf8_ok (w_session w) \<and> hash_format (w_previous w)"

lemma hex_char_ascii: "hex_char c \<Longrightarrow> char_code c < 128"
  by (auto simp: hex_char_def char_code_def)

lemma hash_format_utf8: "hash_format s \<Longrightarrow> utf8_ok s"
  by (rule utf8_ok_ascii) (auto simp: hash_format_def ascii_def list_all_iff hex_char_ascii)

lemma reserved_utf8:
  "list_all utf8_ok RESERVED_LEDGER_FIELDS"
  "list_all utf8_ok [LEDGER_VERSION, LEDGER_ALGORITHM, PROVENANCE_SYSTEM, PROVENANCE_COMPONENT, PROVENANCE_TRANSPORT]"
  by code_simp+

lemma hashed_ok:
  assumes "json_ok fr (JObj r)" "strings_ok (JObj r)" "session_ok w" "hash_format h" "int_printable (w_index w)"
  shows "json_ok fr (JObj (hashed_record h r w))" "strings_ok (JObj (hashed_record h r w))"
proof -
  have "list_all (\<lambda>(k, v). json_ok fr v) (dict_update r (ledger_fields w))"
    unfolding dict_update_def by (rule list_all_update) (use assms(1,5) list_all_set in \<open>auto simp: ledger_fields_def\<close>)
  moreover have "dict_ok (dict_update r (ledger_fields w))"
    using assms(1) by (simp add: dict_update_def dict_ok_update)
  ultimately show "json_ok fr (JObj (hashed_record h r w))"
    by (simp add: hashed_record_def list_all_dict_set)
  let ?P = "\<lambda>(k, v). utf8_ok k \<and> strings_ok v"
  have "list_all ?P (ledger_fields w)"
    using reserved_utf8 assms(3) by (simp add: ledger_fields_def RESERVED_LEDGER_FIELDS_def session_ok_def hash_format_utf8)
  then have "list_all ?P (dict_update r (ledger_fields w))"
    unfolding dict_update_def by (intro list_all_update) (use assms(2) list_all_set [of ?P] in auto)
  then show "strings_ok (JObj (hashed_record h r w))"
    using list_all_set [of ?P _ "''record_hash''" "JStr h"] reserved_utf8(1) assms(4)
    by (simp add: hashed_record_def hash_format_utf8 RESERVED_LEDGER_FIELDS_def)
qed

lemma hashed_printable: "ints_printable (JObj (hashed_record h r w)) \<Longrightarrow> int_printable (w_index w)"
proof -
  have "map_of (hashed_record h r w) ''ledger_index'' = Some (JInt (w_index w))"
    using hashed_fields(3) [of h r w] by (simp add: jget_def split: option.splits)
  then have "(''ledger_index'', JInt (w_index w)) \<in> set (hashed_record h r w)" by (rule map_of_SomeD)
  then show "ints_printable (JObj (hashed_record h r w)) \<Longrightarrow> ?thesis" by (force simp: list_all_iff)
qed

lemma hashed_printable_record:
  assumes "ints_printable (JObj (hashed_record h r w))" "set (dict_keys r) \<inter> set RESERVED_LEDGER_FIELDS = {}" "dict_ok r"
  shows "ints_printable (JObj r)"
proof -
  have "ints_printable v" if v: "(k, v) \<in> set r" for k v
  proof -
    have "k \<in> set (dict_keys r)" using v by (force simp: dict_keys_def)
    with assms(2) have "jget (hashed_record h r w) k = jget r k" by (intro hashed_other) auto
    moreover have "jget r k = v" using v assms(3) by (simp add: jget_def dict_get_in)
    moreover have "ints_printable (jget (hashed_record h r w) k)"
      using assms(1) by (cases "map_of (hashed_record h r w) k") (auto simp: jget_def list_all_iff dest: map_of_SomeD)
    ultimately show ?thesis by simp
  qed
  then show ?thesis by (auto simp: list_all_iff)
qed

lemma record_hash_format: "compute_record_hash r = Inr h \<Longrightarrow> hash_format h"
  using sha256_hexdigest_format by (auto simp: compute_record_hash_def bindE_eq_Inr hash_format_def)

lemma verify_written_line:
  assumes "json_ok fr (JObj r)" "strings_ok (JObj r)" "session_ok w" "ints_printable (JObj (hashed_record h r w))"
    "compute_record_hash (dict_update r (ledger_fields w)) = Inr h"
    "expected_index sc = w_index w" "expected_previous sc = w_previous w"
  shows "verify_line fr sc (dump_json (JObj (hashed_record h r w)) @ [newline_char]) =
     Inr \<lparr>expected_previous = h, expected_index = w_index w + 1, seen_sessions = insert (w_session w) (seen_sessions sc)\<rparr>"
proof -
  let ?h = "hashed_record h r w"
  have h: "hash_format h" by (rule record_hash_format [OF assms(5)])
  note ok = hashed_ok [OF assms(1-3) h hashed_printable [OF assms(4)]]
  then have d: "dict_ok ?h" by simp
  let ?c = "map (\<lambda>(k, v). (k, canon_json v)) (sort_key fst ?h)"
  have "read_line fr n (dump_json (JObj ?h) @ [newline_char]) = Inr ?c" for n
    using loads_dumped(2) [OF ok] unfolding read_line_eq_Inr canon_object .
  moreover have "compute_record_hash ?c = Inr h"
    using assms(5) compute_record_hash_canon [OF d] by (simp add: hashed_record_def compute_record_hash_set)
  ultimately show ?thesis
    using assms(3) h by (simp add: verify_line_def verify_payload_eq_Inr check_header_eq_Inr jget_canon [OF d] hashed_fields
        json_equals_int_def assms(6,7) session_ok_def)
qed

section \<open>A session of writes\<close>

text \<open>A writer whose state is what the verification of its file gives.\<close>

definition writer_agrees :: "(string \<Rightarrow> string) \<Rightarrow> writer \<Rightarrow> ledger_scan \<Rightarrow> bool" where
  "writer_agrees fr w sc \<longleftrightarrow> scan_ledger fr (w_file w) sc \<and> expected_index sc = w_index w \<and>
     expected_previous sc = w_previous w \<and> session_ok w"

definition ledger_line :: "object \<Rightarrow> string" where
  "ledger_line row = dump_json (JObj row) @ [newline_char]"

lemma printable_newline: "printable s \<Longrightarrow> newline_char \<notin> set s"
  by (auto simp: printable_def list_all_iff char_code_control)

lemma writer_write_agrees:
  assumes agrees: "writer_agrees fr w sc" and given: "json_shape fr (JObj r)" "strings_ok (JObj r)"
    and os: "os_truncate os = None" and run: "writer_write os r w = (y, w')"
  shows "(\<exists>e. y = Inl e \<and> w' = w) \<or>
     (\<exists>row digest. y = Inr row \<and> row = hashed_record digest r w \<and> hash_format digest \<and>
        w' = w\<lparr>w_file := w_file w @ ledger_line row, w_previous := digest, w_index := w_index w + 1\<rparr> \<and>
        writer_agrees fr w' \<lparr>expected_previous = digest, expected_index = w_index w + 1,
          seen_sessions = insert (w_session w) (seen_sessions sc)\<rparr>)"
  using run
proof (cases rule: writer_write_cases)
  case (appended row0 digest t z content)
  show ?thesis
  proof (cases z)
    case (Inl e)
    with append_payload_cases [OF os appended(7)] appended(8,9) show ?thesis by auto
  next
    case (Inr u)
    let ?row = "hashed_record digest r w"
    have row: "dict_set ''record_hash'' (JStr digest) row0 = ?row" by (simp add: hashed_record_def appended(3))
    have content: "content = w_file w @ ledger_line ?row"
      using append_payload_cases [OF os appended(7)] Inr by (simp add: ledger_line_def appended(5) row)
    have hash: "hash_format digest" by (rule record_hash_format [OF appended(4)])
    have ints: "ints_printable (JObj ?row)" using appended(6) by (simp only: row)
    note agrees' = agrees [unfolded writer_agrees_def]
    have given': "json_ok fr (JObj r)"
      using given(1) hashed_printable_record [OF ints appended(2)] by (simp only: json_ok_iff json_shape.simps simp_thms)
    have line: "verify_line fr sc (dump_json (JObj ?row) @ [newline_char]) =
        Inr \<lparr>expected_previous = digest, expected_index = w_index w + 1, seen_sessions = insert (w_session w) (seen_sessions sc)\<rparr>"
      by (rule verify_written_line) (use agrees' given given' ints appended(3,4) in auto)
    have "json_ok fr (JObj ?row)"
      by (rule hashed_ok(1)) (use agrees' given given' hash hashed_printable [OF ints] in auto)
    then have "newline_char \<notin> set (dump_json (JObj ?row))" using dump_codes printable_newline by blast
    with agrees' line have "scan_ledger fr (w_file w @ ledger_line ?row)
        \<lparr>expected_previous = digest, expected_index = w_index w + 1, seen_sessions = insert (w_session w) (seen_sessions sc)\<rparr>"
      unfolding ledger_line_def by (intro scan_ledger_line) auto
    with Inr appended(8,9) row hash agrees' content show ?thesis
      by (auto simp: writer_agrees_def session_ok_def)
  qed
qed blast

text \<open>A sequence of attempts, each with what the operating system does to it.\<close>

primrec write_records :: "(os_calls \<times> object) list \<Rightarrow> writer \<Rightarrow> object result list \<times> writer" where
  "write_records [] w = ([], w)"
| "write_records (a # ats) w =
     (let (y, w1) = writer_write (fst a) (snd a) w; (ys, w2) = write_records ats w1 in (y # ys, w2))"

definition written_rows :: "object result list \<Rightarrow> object list" where
  "written_rows ys = concat (map (\<lambda>y. case y of Inl _ \<Rightarrow> [] | Inr row \<Rightarrow> [row]) ys)"

lemma written_rows_simps [simp]:
  "written_rows [] = []" "written_rows (Inl e # ys) = written_rows ys" "written_rows (Inr row # ys) = row # written_rows ys"
  by (simp_all add: written_rows_def)

definition attempt_ok :: "(string \<Rightarrow> string) \<Rightarrow> os_calls \<times> object \<Rightarrow> bool" where
  "attempt_ok fr a \<longleftrightarrow> os_truncate (fst a) = None \<and> json_shape fr (JObj (snd a)) \<and> strings_ok (JObj (snd a))"

lemma write_records_agrees:
  assumes "writer_agrees fr w sc" "list_all (attempt_ok fr) ats" "write_records ats w = (ys, w')"
  shows "\<exists>sc'. writer_agrees fr w' sc' \<and> expected_index sc' = expected_index sc + int (length (written_rows ys)) \<and>
     seen_sessions sc' = seen_sessions sc \<union> (if written_rows ys = [] then {} else {w_session w}) \<and>
     w_session w' = w_session w \<and> w_file w' = w_file w @ concat (map ledger_line (written_rows ys))"
  using assms
proof (induction ats arbitrary: w sc ys)
  case (Cons a ats)
  obtain y w1 ys1 where steps: "writer_write (fst a) (snd a) w = (y, w1)" "write_records ats w1 = (ys1, w')" "ys = y # ys1"
    using Cons.prems(3) by (auto simp: Let_def split: prod.splits)
  have ok: "json_shape fr (JObj (snd a))" "strings_ok (JObj (snd a))" "os_truncate (fst a) = None" "list_all (attempt_ok fr) ats"
    using Cons.prems(2) by (simp_all add: attempt_ok_def [of fr a])
  from writer_write_agrees [OF Cons.prems(1) ok(1-3) steps(1)] show ?case
  proof (elim disjE exE conjE)
    fix e assume "y = Inl e" "w1 = w"
    with Cons.IH [OF Cons.prems(1) ok(4)] steps show ?thesis by simp
  next
    fix row digest assume y: "y = Inr row" and w1: "w1 = w\<lparr>w_file := w_file w @ ledger_line row, w_previous := digest, w_index := w_index w + 1\<rparr>"
      and agrees: "writer_agrees fr w1 \<lparr>expected_previous = digest, expected_index = w_index w + 1,
          seen_sessions = insert (w_session w) (seen_sessions sc)\<rparr>"
    have "expected_index sc = w_index w" using Cons.prems(1) by (simp add: writer_agrees_def)
    moreover obtain sc' where "writer_agrees fr w' sc'" "expected_index sc' = w_index w + 1 + int (length (written_rows ys1))"
        "seen_sessions sc' = insert (w_session w) (seen_sessions sc) \<union> (if written_rows ys1 = [] then {} else {w_session w1})"
        "w_session w' = w_session w1" "w_file w' = w_file w1 @ concat (map ledger_line (written_rows ys1))"
      using Cons.IH [OF agrees ok(4) steps(2)] by auto
    ultimately show ?thesis by (intro exI [of _ sc']) (simp add: steps(3) y w1)
  qed
qed auto

lemma verify_lines_hash:
  "verify_lines fr sc ls = Inr sc' \<Longrightarrow> hash_format (expected_previous sc) \<Longrightarrow> hash_format (expected_previous sc')"
proof (induction ls arbitrary: sc)
  case (Cons l ls)
  then obtain sc1 where "verify_line fr sc l = Inr sc1" "verify_lines fr sc1 ls = Inr sc'"
    by (auto simp: bindE_eq_Inr)
  moreover from this(1) have "hash_format (expected_previous sc1)"
    by (auto simp: verify_line_def bindE_eq_Inr verify_payload_eq_Inr)
  ultimately show ?case using Cons.IH by blast
qed simp

lemma uuid_str_utf8: "utf8_ok (uuid_str u)"
  by (rule utf8_ok_ascii) (simp add: uuid_str_def Let_def hex_of_codes, simp add: char_code_def)

lemma writer_enter_agrees:
  assumes "make_writer fresh sid fsync content = Inr w0" "writer_enter fr w0 = (Inr (), w)" "\<And>s. sid = Some s \<Longrightarrow> utf8_ok s"
  shows "\<exists>sc. writer_agrees fr w sc \<and> verify_jsonl_ledger fr (Some content) False = Inr (verification_of sc) \<and> w_file w = content"
proof -
  have w0: "w_file w0 = content" "py_strip (w_session w0) \<noteq> []" "utf8_ok (w_session w0)"
    using assms(1,3) uuid_str_utf8 by (auto simp: make_writer_def Let_def split: option.splits if_splits)
  then obtain v where v: "verify_jsonl_ledger fr (Some content) False = Inr v"
      "w = w0\<lparr>w_open := True, w_index := records v, w_previous := head_hash v\<rparr>"
    using assms(2) by (auto simp: writer_enter_def split: sum.splits)
  then obtain sc where sc: "scan_ledger fr content sc" "v = verification_of sc" by (auto simp: verify_iff_scan)
  then have "hash_format (expected_previous sc)"
    using verify_lines_hash [of fr empty_scan] genesis_format by (auto simp: scan_ledger_def empty_scan_def)
  with sc v w0 show ?thesis
    by (intro exI [of _ sc]) (simp add: writer_agrees_def session_ok_def verification_of_def)
qed

section \<open>Tamper evidence\<close>

primrec verify_payloads :: "ledger_scan \<Rightarrow> object list \<Rightarrow> ledger_scan result" where
  "verify_payloads sc [] = Inr sc"
| "verify_payloads sc (p # ps) = bindE (verify_payload sc p) (\<lambda>sc'. verify_payloads sc' ps)"

definition ledger_rows :: "(string \<Rightarrow> string) \<Rightarrow> string \<Rightarrow> object list" where
  "ledger_rows fr content = map (\<lambda>l. case loads_bytes fr l of Inr (JObj p) \<Rightarrow> p | _ \<Rightarrow> []) (file_lines content)"

text \<open>The bytes that a row's hash is taken of: all of its fields except \<open>record_hash\<close>.\<close>

definition hashed_text :: "object \<Rightarrow> string" where
  "hashed_text row = dump_json (JObj (dict_pop ''record_hash'' row))"

lemma verify_lines_payloads:
  "verify_lines fr sc ls = Inr sc' \<Longrightarrow>
     (\<forall>l \<in> set ls. \<exists>p. loads_bytes fr l = Inr (JObj p)) \<and>
     verify_payloads sc (map (\<lambda>l. case loads_bytes fr l of Inr (JObj p) \<Rightarrow> p | _ \<Rightarrow> []) ls) = Inr sc'"
  by (induction ls arbitrary: sc) (auto simp: bindE_eq_Inr verify_line_def read_line_eq_Inr)

lemma verify_payloads_snoc:
  "verify_payloads sc (ps @ [p]) = Inr sc' \<longleftrightarrow> (\<exists>sc1. verify_payloads sc ps = Inr sc1 \<and> verify_payload sc1 p = Inr sc')"
  by (induction ps arbitrary: sc) (auto simp: bindE_eq_Inr)

lemma loads_bytes_ok: "float_repr_ok fr \<Longrightarrow> loads_bytes fr s = Inr v \<Longrightarrow> json_ok fr v"
  by (auto simp: loads_bytes_def dest: decode_text_ok split: option.splits)

lemma compute_record_hash_text: "compute_record_hash p = Inr d \<Longrightarrow> d = sha256_hexdigest (hashed_text p)"
  by (auto simp: compute_record_hash_def canonical_record_bytes_def bindE_eq_Inr json_dumps_def encode_utf8_def hashed_text_def
      split: if_splits)

lemma json_ok_pop: "json_ok fr (JObj p) \<Longrightarrow> json_ok fr (JObj (dict_pop k p))"
  using dict_ok_pop [of p k] by (auto simp: list_all_iff AList.delete_eq)

lemma hashed_text_link:
  assumes "json_ok fr (JObj p)" "json_ok fr (JObj q)" "hashed_text p = hashed_text q"
    "jget p ''previous_record_hash'' = JStr a" "jget q ''previous_record_hash'' = JStr b"
  shows "a = b"
proof -
  let ?p = "dict_pop ''record_hash'' p" and ?q = "dict_pop ''record_hash'' q"
  have ok: "dict_ok ?p" "dict_ok ?q" using json_ok_pop assms(1,2) by simp_all
  have "canon_json (JObj ?p) = canon_json (JObj ?q)"
    by (rule dump_json_inject [of fr]) (use json_ok_pop assms(1-3) in \<open>auto simp: hashed_text_def\<close>)
  then have "map (\<lambda>(k, v). (k, canon_json v)) (sort_key fst ?p) = map (\<lambda>(k, v). (k, canon_json v)) (sort_key fst ?q)"
    by (simp only: canon_object json.inject)
  then have "canon_json (jget ?p ''previous_record_hash'') = canon_json (jget ?q ''previous_record_hash'')"
    by (simp only: jget_canon [OF ok(1), symmetric] jget_canon [OF ok(2), symmetric])
  with assms(4,5) show ?thesis by (simp add: jget_def dict_get_pop)
qed

text \<open>Two chains with the same head.\<close>

definition collision :: "object list \<Rightarrow> object list \<Rightarrow> bool" where
  "collision ps qs \<longleftrightarrow> (\<exists>x \<in> hashed_text ` set ps. \<exists>y \<in> hashed_text ` set qs. x \<noteq> y \<and> sha256_hexdigest x = sha256_hexdigest y)"

definition genesis_preimage :: "object list \<Rightarrow> bool" where
  "genesis_preimage ps \<longleftrightarrow> (\<exists>x \<in> hashed_text ` set ps. sha256_hexdigest x = GENESIS_HASH)"

lemma chain_head:
  assumes "verify_payload sc p = Inr sc'"
  shows "expected_previous sc' = sha256_hexdigest (hashed_text p)" "jget p ''previous_record_hash'' = JStr (expected_previous sc)"
  using assms compute_record_hash_text by (auto simp: verify_payload_eq_Inr)

lemma same_head_same_chain:
  assumes "list_all (\<lambda>p. json_ok fr (JObj p)) (ps @ qs)"
    "verify_payloads empty_scan ps = Inr sc1" "verify_payloads empty_scan qs = Inr sc2" "expected_previous sc1 = expected_previous sc2"
  shows "map hashed_text ps = map hashed_text qs \<or> collision ps qs \<or> genesis_preimage (ps @ qs)"
  using assms
proof (induction ps arbitrary: qs sc1 sc2 rule: rev_induct)
  case Nil
  show ?case
  proof (cases qs rule: rev_cases)
    case (snoc qs' q)
    with Nil obtain sc3 where "verify_payload sc3 q = Inr sc2" by (auto simp: verify_payloads_snoc)
    from chain_head(1) [OF this] Nil.prems(4) Nil.prems(2) [symmetric] have "sha256_hexdigest (hashed_text q) = GENESIS_HASH" by (simp add: empty_scan_def)
    with snoc show ?thesis by (auto simp: genesis_preimage_def)
  qed simp
next
  case (snoc p ps)
  then obtain sc3 where p: "verify_payloads empty_scan ps = Inr sc3" "verify_payload sc3 p = Inr sc1"
    by (auto simp: verify_payloads_snoc)
  show ?case
  proof (cases qs rule: rev_cases)
    case Nil
    then have "sc2 = empty_scan" using snoc.prems(3) by simp
    with snoc.prems(4) chain_head(1) [OF p(2)] have "sha256_hexdigest (hashed_text p) = GENESIS_HASH" by (simp add: empty_scan_def)
    then show ?thesis by (auto simp: genesis_preimage_def)
  next
    case qs: (snoc qs' q)
    with snoc.prems obtain sc4 where q: "verify_payloads empty_scan qs' = Inr sc4" "verify_payload sc4 q = Inr sc2"
      by (auto simp: verify_payloads_snoc)
    have digest: "sha256_hexdigest (hashed_text p) = sha256_hexdigest (hashed_text q)"
      using chain_head(1) [OF p(2)] chain_head(1) [OF q(2)] snoc.prems(4) by simp
    show ?thesis
    proof (cases "hashed_text p = hashed_text q")
      case False
      with digest qs have "collision (ps @ [p]) qs" by (auto simp: collision_def)
      then show ?thesis by blast
    next
      case True
      have "json_ok fr (JObj p)" "json_ok fr (JObj q)" using snoc.prems(1) qs by (simp_all del: json_ok.simps)
      from hashed_text_link [OF this True chain_head(2) [OF p(2)] chain_head(2) [OF q(2)]]
      have "expected_previous sc3 = expected_previous sc4" .
      from snoc.IH [OF _ p(1) q(1) this] snoc.prems(1) qs
      have "map hashed_text ps = map hashed_text qs' \<or> collision ps qs' \<or> genesis_preimage (ps @ qs')" by simp
      with True qs show ?thesis by (auto simp: collision_def genesis_preimage_def)
    qed
  qed
qed

section \<open>Properties of the ledger\<close>

text \<open>C18: An append is all or nothing: when it raises, the file, the index and the previous hash are as before,
  and otherwise exactly one line was added, with the hash of its other fields.\<close>

theorem append_all_or_nothing:
  assumes "os_truncate os = None" "writer_write os r w = (y, w')"
  shows "(\<exists>e. y = Inl e) \<and> w' = w \<or>
     (\<exists>row. y = Inr row \<and> w' = w\<lparr>w_file := w_file w @ ledger_line row, w_index := w_index w + 1,
        w_previous := sha256_hexdigest (hashed_text row)\<rparr>)"
  using assms(2)
proof (cases rule: writer_write_cases)
  case (appended row0 digest t z content)
  have "hashed_text (dict_set ''record_hash'' (JStr digest) row0) = hashed_text row0"
    by (simp add: hashed_text_def delete_update_same)
  moreover note compute_record_hash_text [OF appended(4)] append_payload_cases [OF assms(1) appended(7)]
  ultimately show ?thesis
    using appended(5,8,9) by (cases z) (auto simp: ledger_line_def)
qed blast

text \<open>Whatever the appends of a session run into, the file verifies afterwards: its lines are those it had and
  the rows that were acknowledged, and the writer's index and previous hash are the ones verification finds.\<close>

theorem ledger_session_verifies:
  assumes "make_writer fresh (Some sid) fsync content = Inr w0" "utf8_ok sid" "writer_enter fr w0 = (Inr (), w)"
    "list_all (attempt_ok fr) ats" "write_records ats w = (ys, w')"
  shows "\<exists>v v'. verify_jsonl_ledger fr (Some content) False = Inr v \<and> verify_jsonl_ledger fr (Some (w_file w')) False = Inr v' \<and>
     w_file w' = content @ concat (map ledger_line (written_rows ys)) \<and>
     records v' = records v + int (length (written_rows ys)) \<and> records v' = w_index w' \<and> head_hash v' = w_previous w'"
proof -
  from writer_enter_agrees [OF assms(1,3)] assms(2) obtain sc
    where sc: "writer_agrees fr w sc" "verify_jsonl_ledger fr (Some content) False = Inr (verification_of sc)" "w_file w = content"
    by auto
  from write_records_agrees [OF sc(1) assms(4,5)] obtain sc'
    where sc': "writer_agrees fr w' sc'" "expected_index sc' = expected_index sc + int (length (written_rows ys))"
      "w_file w' = w_file w @ concat (map ledger_line (written_rows ys))"
    by auto
  then have "verify_jsonl_ledger fr (Some (w_file w')) False = Inr (verification_of sc')"
    by (auto simp: writer_agrees_def verify_iff_scan)
  moreover have "records (verification_of sc') = expected_index sc'" "head_hash (verification_of sc') = expected_previous sc'"
    "records (verification_of sc) = expected_index sc"
    by (simp_all add: verification_of_def)
  ultimately show ?thesis using sc sc' by (auto simp: writer_agrees_def)
qed

text \<open>C13: The ledger is tamper-evident: two ledgers that verify with the same head hash have the same fields in every
  row, or else two of their rows are a collision of SHA-256, or one of them hashes to the genesis value.\<close>

theorem ledger_tamper_evident:
  assumes "float_repr_ok fr" "verify_jsonl_ledger fr (Some f1) m1 = Inr v1" "verify_jsonl_ledger fr (Some f2) m2 = Inr v2"
    "head_hash v1 = head_hash v2"
  shows "map hashed_text (ledger_rows fr f1) = map hashed_text (ledger_rows fr f2) \<or>
     collision (ledger_rows fr f1) (ledger_rows fr f2) \<or> genesis_preimage (ledger_rows fr f1 @ ledger_rows fr f2)"
proof -
  have chain: "\<exists>sc. verify_payloads empty_scan (ledger_rows fr f) = Inr sc \<and> expected_previous sc = head_hash v \<and>
      list_all (\<lambda>p. json_ok fr (JObj p)) (ledger_rows fr f)" if verified: "verify_jsonl_ledger fr (Some f) m = Inr v" for f m v
  proof -
    from verified obtain sc where sc: "verify_lines fr empty_scan (file_lines f) = Inr sc" "v = verification_of sc"
      unfolding verify_iff_scan scan_ledger_def by blast
    note lines = verify_lines_payloads [OF sc(1)]
    have "json_ok fr (JObj p)" if "l \<in> set (file_lines f)" "p = (case loads_bytes fr l of Inr (JObj p) \<Rightarrow> p | _ \<Rightarrow> [])" for l p
    proof -
      from that(1) lines obtain q where "loads_bytes fr l = Inr (JObj q)" by blast
      with loads_bytes_ok [OF assms(1) this] that(2) show ?thesis by simp
    qed
    with lines sc(2) show ?thesis
      by (auto simp: ledger_rows_def list_all_iff verification_of_def simp del: json_ok.simps)
  qed
  obtain sc1 sc2 where c: "verify_payloads empty_scan (ledger_rows fr f1) = Inr sc1" "expected_previous sc1 = head_hash v1"
      "verify_payloads empty_scan (ledger_rows fr f2) = Inr sc2" "expected_previous sc2 = head_hash v2"
      "list_all (\<lambda>p. json_ok fr (JObj p)) (ledger_rows fr f1 @ ledger_rows fr f2)"
    using chain [OF assms(2)] chain [OF assms(3)] by auto
  show ?thesis by (rule same_head_same_chain [OF c(5,1,3)]) (simp add: c(2,4) assms(4))
qed

lemma verify_lines_sessions:
  "verify_lines fr sc ls = Inr sc' \<Longrightarrow> finite (seen_sessions sc) \<Longrightarrow> \<forall>s \<in> seen_sessions sc. py_strip s \<noteq> [] \<Longrightarrow>
     expected_index sc' = expected_index sc + int (length ls) \<and> finite (seen_sessions sc') \<and>
     (\<forall>s \<in> seen_sessions sc'. py_strip s \<noteq> []) \<and> (seen_sessions sc' = {} \<longleftrightarrow> seen_sessions sc = {} \<and> ls = [])"
proof (induction ls arbitrary: sc)
  case (Cons l ls)
  then obtain sc1 where sc1: "verify_line fr sc l = Inr sc1" "verify_lines fr sc1 ls = Inr sc'" by (auto simp: bindE_eq_Inr)
  then obtain s where "py_strip s \<noteq> []" "expected_index sc1 = expected_index sc + 1" "seen_sessions sc1 = insert s (seen_sessions sc)"
    by (auto simp: verify_line_def bindE_eq_Inr verify_payload_eq_Inr)
  with Cons.IH [OF sc1(2)] Cons.prems(2,3) show ?case by simp
qed simp

text \<open>C29: The result of a verification is well-formed: it counts the lines of the file, its head is a SHA-256 digest, and
  its session ids are in order, without repetition or blank ones, and empty only for an empty ledger.\<close>

theorem verification_well_formed:
  assumes "verify_jsonl_ledger fr (Some content) missing = Inr v"
  shows "records v = int (length (file_lines content)) \<and> hash_format (head_hash v) \<and> sorted (session_ids v) \<and>
     distinct (session_ids v) \<and> list_all (\<lambda>s. py_strip s \<noteq> []) (session_ids v) \<and> (session_ids v = [] \<longleftrightarrow> content = [])"
proof -
  from assms obtain sc where sc: "verify_lines fr empty_scan (file_lines content) = Inr sc" "v = verification_of sc"
    by (auto simp: verify_iff_scan scan_ledger_def)
  have "file_lines content = [] \<longleftrightarrow> content = []" by (cases content) (auto split: list.splits)
  with verify_lines_sessions [OF sc(1)] verify_lines_hash [OF sc(1)] genesis_format sc(2) show ?thesis
    by (auto simp: empty_scan_def verification_of_def list_all_iff)
qed

text \<open>C28: Reading an acknowledged line gives the row back with its keys in order: the fields of the record as they
  were given, and the ledger's own.\<close>

theorem written_row_reads_back:
  assumes "os_truncate os = None" "writer_write os r w = (Inr row, w')" "json_shape fr (JObj r)" "strings_ok (JObj r)" "session_ok w"
  shows "\<exists>kvs. w_file w' = w_file w @ ledger_line row \<and> loads_bytes fr (ledger_line row) = Inr (JObj kvs) \<and>
     sorted (dict_keys kvs) \<and> (\<forall>k. k \<notin> set RESERVED_LEDGER_FIELDS \<longrightarrow> jget kvs k = canon_json (jget r k)) \<and>
     jget kvs ''ledger_index'' = JInt (w_index w) \<and> jget kvs ''previous_record_hash'' = JStr (w_previous w) \<and>
     jget kvs ''recorder_session_id'' = JStr (w_session w)"
  using assms(2)
proof (cases rule: writer_write_cases)
  case (appended row0 digest t z content)
  have row: "row = hashed_record digest r w" "z = Inr ()"
    using appended(3,8) by (cases z; simp add: hashed_record_def)+
  have w': "w_file w' = w_file w @ ledger_line row"
    using append_payload_cases [OF assms(1) appended(7)] appended(3,5,9) row by (simp add: ledger_line_def hashed_record_def)
  have ints: "ints_printable (JObj (hashed_record digest r w))" using appended(3,6) by (simp only: hashed_record_def)
  have "json_ok fr (JObj r)"
    using assms(3) hashed_printable_record [OF ints appended(2)] by (simp only: json_ok_iff json_shape.simps simp_thms)
  note ok = hashed_ok [OF this assms(4,5) record_hash_format [OF appended(4)] hashed_printable [OF ints]]
  then have d: "dict_ok (hashed_record digest r w)" by simp
  let ?c = "map (\<lambda>(k, v). (k, canon_json v)) (sort_key fst (hashed_record digest r w))"
  have "loads_bytes fr (ledger_line row) = Inr (JObj ?c)"
    using loads_dumped(2) [OF ok] by (simp only: ledger_line_def row(1) canon_object)
  moreover have "sorted (dict_keys ?c)"
    by (simp add: dict_keys_def comp_def case_prod_unfold)
  ultimately show ?thesis using w'
    by (intro exI [of _ ?c]) (simp add: jget_canon [OF d] hashed_fields hashed_other)
qed simp

section \<open>A record that the writer accepts\<close>

definition plain_record :: "object \<Rightarrow> bool" where
  "plain_record r \<longleftrightarrow> dict_ok r \<and> list_all (\<lambda>(k, v). json_shape id v \<and> ascii k \<and> ascii_json v \<and> ints_printable v) r"

lemma plain_record_set:
  assumes "plain_record r" "ascii k" "json_shape id v" "ascii_json v" "ints_printable v"
  shows "plain_record (dict_set k v r)"
  using assms list_all_set [of "\<lambda>(k, v). json_shape id v \<and> ascii k \<and> ascii_json v \<and> ints_printable v" r k v]
  by (simp add: plain_record_def)

lemma plain_record_pop: "plain_record r \<Longrightarrow> plain_record (dict_pop k r)"
  using dict_ok_pop [of r k] by (auto simp: plain_record_def list_all_iff AList.delete_eq)

lemma plain_record_dumps:
  assumes "plain_record r"
  shows "json_dumps (JObj r) = Inr (dump_json (JObj r))" "ascii (dump_json (JObj r))" "encodable (dump_json (JObj r))"
proof -
  have "json_shape id (JObj r)" "ascii_json (JObj r)" "ints_printable (JObj r)"
    using assms by (auto simp: plain_record_def list_all_iff)
  then show "json_dumps (JObj r) = Inr (dump_json (JObj r))" and "ascii (dump_json (JObj r))"
    by (simp_all only: json_dumps_def ascii_dump [of id] if_True)
  then show "encodable (dump_json (JObj r))" by (intro encodable_ascii)
qed

lemma reserved_ascii:
  "list_all ascii RESERVED_LEDGER_FIELDS"
  "list_all ascii [LEDGER_VERSION, LEDGER_ALGORITHM, PROVENANCE_SYSTEM, PROVENANCE_COMPONENT, PROVENANCE_TRANSPORT]"
  by code_simp+

lemma hash_format_ascii: "hash_format s \<Longrightarrow> ascii s"
  by (auto simp: hash_format_def ascii_def list_all_iff hex_char_ascii)

lemma writer_write_runs:
  assumes "w_open w" "set (dict_keys r) \<inter> set RESERVED_LEDGER_FIELDS = {}" "plain_record r" "int_printable (w_index w)"
    "ascii (w_session w)" "hash_format (w_previous w)"
  shows "\<exists>digest. hash_format digest \<and> writer_write os r w =
    (case append_payload os (w_fsync w) (ledger_line (hashed_record digest r w)) (w_file w) of
       (Inl e, content) \<Rightarrow> (Inl e, w\<lparr>w_file := content\<rparr>)
     | (Inr _, content) \<Rightarrow> (Inr (hashed_record digest r w), w\<lparr>w_file := content, w_previous := digest, w_index := w_index w + 1\<rparr>))"
proof -
  let ?l = "dict_update r (ledger_fields w)"
  have keys: "filter (\<lambda>f. f \<in> set (dict_keys r)) RESERVED_LEDGER_FIELDS = []"
    using assms(2) by (auto simp: filter_empty_conv)
  have l: "plain_record ?l"
    using assms(3-6) reserved_ascii unfolding dict_update_def ledger_fields_def
    by (simp add: plain_record_set hash_format_ascii RESERVED_LEDGER_FIELDS_def del: ascii_simps)
  note p = plain_record_dumps [OF plain_record_pop [OF l, of "''record_hash''"]]
  define digest where "digest = sha256_hexdigest (hashed_text ?l)"
  have h: "compute_record_hash ?l = Inr digest"
    using p by (simp add: compute_record_hash_def canonical_record_bytes_def encode_utf8_def digest_def hashed_text_def)
  have "plain_record (hashed_record digest r w)"
    unfolding hashed_record_def using l hash_format_ascii [OF record_hash_format [OF h]] reserved_ascii(1)
    by (intro plain_record_set) (simp_all add: RESERVED_LEDGER_FIELDS_def del: ascii_simps)
  note row = plain_record_dumps [OF this] plain_record_dumps [OF plain_record_pop [OF this, of "''record_hash''"]]
  have "encodable (ledger_line (hashed_record digest r w))"
    unfolding ledger_line_def by (rule encodable_ascii) (use row(2) in \<open>simp add: char_code_control\<close>)
  then have "bindE (canonical_record_bytes (hashed_record digest r w))
      (\<lambda>_. bindE (json_dumps (JObj (hashed_record digest r w))) (\<lambda>t. encode_utf8 (t @ [newline_char]))) =
      Inr (ledger_line (hashed_record digest r w))"
    using row by (simp add: canonical_record_bytes_def encode_utf8_def ledger_line_def)
  then show ?thesis
    using assms(1) keys h record_hash_format [OF h] unfolding hashed_record_def
    by (intro exI [of _ digest]) (simp add: writer_write_def Let_def)
qed

section \<open>Witnesses\<close>

definition quiet_os :: os_calls where
  "quiet_os = \<lparr>os_write = (\<lambda>_. Inr 7), os_sync = None, os_truncate = None, os_resync = None\<rparr>"

definition full_disk :: os_calls where
  "full_disk = \<lparr>os_write = (\<lambda>i. if i = 0 then Inr 3 else Inl (OSError ''No space left on device'')), os_sync = None,
     os_truncate = None, os_resync = None\<rparr>"

definition sample_writer :: writer where
  "sample_writer = \<lparr>w_file = [], w_open = True, w_session = ''s1'', w_index = 0, w_previous = GENESIS_HASH, w_fsync = True\<rparr>"

definition sample_attempts :: "(os_calls \<times> object) list" where
  "sample_attempts = [(quiet_os, [(''symbol'', JStr ''AAPL'')]), (full_disk, [(''symbol'', JStr ''TSLA'')]),
     (quiet_os, [(''symbol'', JStr ''MSFT''), (''sequence'', JInt 7)])]"

lemma sample_attempts_ok: "list_all (attempt_ok id) sample_attempts"
  by (simp add: sample_attempts_def attempt_ok_def quiet_os_def full_disk_def dict_ok_def utf8_ok_Cons char_code_def)

lemma sample_writer_made:
  "make_writer 0 (Some ''s1'') True [] = Inr (sample_writer\<lparr>w_open := False\<rparr>)"
  "writer_enter id (sample_writer\<lparr>w_open := False\<rparr>) = (Inr (), sample_writer)"
  by (simp_all add: make_writer_def sample_writer_def py_strip_def py_isspace_def char_code_def writer_enter_def
      verify_jsonl_ledger_def)

lemma sample_session_utf8: "utf8_ok ''s1''"
  by (simp add: utf8_ok_Cons char_code_def)

lemma write_remaining_working:
  "(\<And>i. \<exists>n. os i = Inr n \<and> 0 < n) \<Longrightarrow> write_remaining os i remaining content = (Inr (), content @ remaining)"
proof (induction os i remaining content rule: write_remaining.induct)
  case (1 os i remaining content)
  obtain n where "os i = Inr n" "0 < n" using "1.prems" by blast
  with 1 show ?case by (subst write_remaining.simps) simp
qed

lemma append_quiet: "append_payload quiet_os fsync payload content = (Inr (), content @ payload)"
  using write_remaining_working [of "os_write quiet_os" 0 payload content] by (simp add: append_payload_def quiet_os_def)

lemma append_full_disk:
  "3 < length payload \<Longrightarrow> append_payload full_disk fsync payload content = (Inl (OSError ''No space left on device''), content)"
  by (simp add: append_payload_def full_disk_def write_remaining.simps) auto

lemma ledger_line_long: "3 < length (ledger_line (hashed_record digest r w))"
proof -
  obtain a b kvs where "sort_key fst (hashed_record digest r w) = (a, b) # kvs"
    using hashed_fields(9) [of digest r w] by (cases "sort_key fst (hashed_record digest r w)")
      (auto simp: jget_def dest!: arg_cong [of _ _ set])
  then have "2 < length (dump_json (JObj (hashed_record digest r w)))"
    by (simp add: dump_json_object join_def dump_member_def dump_string_def del: dump_json.simps)
  then show ?thesis by (simp add: ledger_line_def)
qed

lemma sample_writer_runs:
  assumes "session_ok w" "w_open w" "ascii (w_session w)" "w_index w < 10" "0 \<le> w_index w"
    "plain_record r" "set (dict_keys r) \<inter> set RESERVED_LEDGER_FIELDS = {}"
  shows "\<exists>digest. hash_format digest \<and> writer_write quiet_os r w = (Inr (hashed_record digest r w), w\<lparr>w_file := w_file w @ ledger_line (hashed_record digest r w),
       w_previous := digest, w_index := w_index w + 1\<rparr>)"
    "writer_write full_disk r w = (Inl (OSError ''No space left on device''), w)"
proof -
  have "int_printable (w_index w)"
  proof -
    have "nat (w_index w) < 10 ^ 1" using assms(4) by simp
    from length_string_of_nat [OF this] assms(5) show ?thesis by (simp add: int_printable_def digits_limit_def)
  qed
  moreover have "hash_format (w_previous w)" using assms(1) by (simp add: session_ok_def)
  ultimately have run: "\<exists>digest. hash_format digest \<and> writer_write os r w =
    (case append_payload os (w_fsync w) (ledger_line (hashed_record digest r w)) (w_file w) of
       (Inl e, content) \<Rightarrow> (Inl e, w\<lparr>w_file := content\<rparr>)
     | (Inr _, content) \<Rightarrow> (Inr (hashed_record digest r w), w\<lparr>w_file := content, w_previous := digest, w_index := w_index w + 1\<rparr>))" for os
    using assms by (intro writer_write_runs)
  from run [of quiet_os] show "\<exists>digest. hash_format digest \<and> writer_write quiet_os r w = (Inr (hashed_record digest r w),
      w\<lparr>w_file := w_file w @ ledger_line (hashed_record digest r w), w_previous := digest, w_index := w_index w + 1\<rparr>)"
    by (simp add: append_quiet)
  from run [of full_disk] show "writer_write full_disk r w = (Inl (OSError ''No space left on device''), w)"
    by (auto simp: append_full_disk ledger_line_long)
qed

lemma sample_writer_ok: "session_ok sample_writer" "ascii (w_session sample_writer)" "w_open sample_writer" "w_index sample_writer = 0"
  using genesis_format by (simp_all add: session_ok_def sample_writer_def py_strip_def py_isspace_def utf8_ok_Cons char_code_def)

lemma sample_records:
  "plain_record [(''symbol'', JStr ''AAPL'')]" "plain_record [(''symbol'', JStr ''TSLA'')]"
  "plain_record [(''symbol'', JStr ''MSFT''), (''sequence'', JInt 7)]"
  "set (dict_keys [(''symbol'', JStr t)]) \<inter> set RESERVED_LEDGER_FIELDS = {}"
  "set (dict_keys [(''symbol'', JStr t), (''sequence'', JInt n)]) \<inter> set RESERVED_LEDGER_FIELDS = {}"
  by (simp_all add: plain_record_def dict_ok_def char_code_def int_printable_def string_of_nat.simps digits_limit_def dict_keys_def
      RESERVED_LEDGER_FIELDS_def)

lemma sample_attempts_run:
  "\<exists>d1 d2 w'. write_records sample_attempts sample_writer = ([Inr d1, Inl (OSError ''No space left on device''), Inr d2], w')"
proof -
  note start = sample_writer_ok(1,3,2)
  obtain h1 where h1: "hash_format h1" and w1: "writer_write quiet_os [(''symbol'', JStr ''AAPL'')] sample_writer =
      (Inr (hashed_record h1 [(''symbol'', JStr ''AAPL'')] sample_writer), sample_writer\<lparr>w_file := w_file sample_writer @
        ledger_line (hashed_record h1 [(''symbol'', JStr ''AAPL'')] sample_writer), w_previous := h1, w_index := w_index sample_writer + 1\<rparr>)"
    (is "_ = (_, ?w1)")
    using sample_writer_runs(1) [OF start _ _ sample_records(1,4)] sample_writer_ok(4) by auto
  have next1: "session_ok ?w1" "w_open ?w1" "ascii (w_session ?w1)" "w_index ?w1 = 1"
    using start h1 sample_writer_ok(4) by (simp_all add: session_ok_def)
  have w2: "writer_write full_disk [(''symbol'', JStr ''TSLA'')] ?w1 = (Inl (OSError ''No space left on device''), ?w1)"
    by (rule sample_writer_runs(2) [OF next1(1-3) _ _ sample_records(2,4)]) (simp_all only: next1(4))
  obtain h3 w3 where "writer_write quiet_os [(''symbol'', JStr ''MSFT''), (''sequence'', JInt 7)] ?w1 =
      (Inr (hashed_record h3 [(''symbol'', JStr ''MSFT''), (''sequence'', JInt 7)] ?w1), w3)"
    using sample_writer_runs(1) [OF next1(1-3) _ _ sample_records(3,5)] next1(4) by auto
  with w1 w2 show ?thesis by (simp add: sample_attempts_def)
qed

theorem ledger_session_verifies_witness:
  "\<exists>d1 d2 w' v'. write_records sample_attempts sample_writer = ([Inr d1, Inl (OSError ''No space left on device''), Inr d2], w') \<and>
     verify_jsonl_ledger id (Some (w_file w')) False = Inr v' \<and> w_file w' = ledger_line d1 @ ledger_line d2 \<and> records v' = 2"
proof -
  obtain d1 d2 w' where run: "write_records sample_attempts sample_writer = ([Inr d1, Inl (OSError ''No space left on device''), Inr d2], w')"
    using sample_attempts_run by blast
  have "verify_jsonl_ledger id (Some []) False = Inr v \<Longrightarrow> records v = 0" for v
    by (auto simp: verify_jsonl_ledger_def)
  with ledger_session_verifies [OF sample_writer_made(1) sample_session_utf8 sample_writer_made(2) sample_attempts_ok run] run
  show ?thesis by auto
qed

theorem append_all_or_nothing_witness:
  "\<exists>row w'. writer_write quiet_os [(''symbol'', JStr ''AAPL'')] sample_writer = (Inr row, w') \<and> w_file w' = ledger_line row \<and>
     w_index w' = 1 \<and> w_previous w' = sha256_hexdigest (hashed_text row)"
proof -
  obtain h w' where run: "writer_write quiet_os [(''symbol'', JStr ''AAPL'')] sample_writer =
      (Inr (hashed_record h [(''symbol'', JStr ''AAPL'')] sample_writer), w')"
    using sample_writer_runs(1) [OF sample_writer_ok(1,3,2) _ _ sample_records(1,4)] sample_writer_ok(4) by auto
  have "os_truncate quiet_os = None" by (simp add: quiet_os_def)
  from append_all_or_nothing [OF this run] run show ?thesis by (auto simp: sample_writer_def)
qed

theorem written_row_reads_back_witness:
  "\<exists>row w' kvs. writer_write quiet_os [(''symbol'', JStr ''AAPL'')] sample_writer = (Inr row, w') \<and>
     loads_bytes id (ledger_line row) = Inr (JObj kvs) \<and> jget kvs ''symbol'' = JStr ''AAPL'' \<and> jget kvs ''ledger_index'' = JInt 0"
proof -
  obtain h w' where run: "writer_write quiet_os [(''symbol'', JStr ''AAPL'')] sample_writer =
      (Inr (hashed_record h [(''symbol'', JStr ''AAPL'')] sample_writer), w')"
    using sample_writer_runs(1) [OF sample_writer_ok(1,3,2) _ _ sample_records(1,4)] sample_writer_ok(4) by auto
  have "os_truncate quiet_os = None" "json_shape id (JObj [(''symbol'', JStr ''AAPL'')])" "strings_ok (JObj [(''symbol'', JStr ''AAPL'')])"
    by (simp_all add: quiet_os_def dict_ok_def utf8_ok_Cons char_code_def)
  from written_row_reads_back [OF this(1) run this(2,3) sample_writer_ok(1)] obtain kvs where
    "loads_bytes id (ledger_line (hashed_record h [(''symbol'', JStr ''AAPL'')] sample_writer)) = Inr (JObj kvs)"
    "\<And>k. k \<notin> set RESERVED_LEDGER_FIELDS \<Longrightarrow> jget kvs k = canon_json (jget [(''symbol'', JStr ''AAPL'')] k)"
    "jget kvs ''ledger_index'' = JInt (w_index sample_writer)"
    by blast
  with run sample_writer_ok(4) show ?thesis by (simp add: jget_def RESERVED_LEDGER_FIELDS_def)
qed

text \<open>The same row with a blank before it: another file that verifies with the same head.\<close>

lemma loads_blank_line:
  assumes "json_ok fr v" "strings_ok v"
  shows "loads_bytes fr (CHR '' '' # dump_json v @ [newline_char]) = loads_bytes fr (dump_json v @ [newline_char])"
proof -
  have codes: "printable (dump_json v)" "utf8_ok (dump_json v)" using dump_codes assms by blast+
  have "decode_text fr (CHR '' '' # dump_json v @ [newline_char]) = decode_text fr (dump_json v @ [newline_char])"
    by (simp add: decode_text_def skip_ws_def)
  then show ?thesis
    using decode_bytes_line [of "dump_json v"] decode_bytes_line [of "CHR '' '' # dump_json v"] codes dump_first [OF assms(1)]
    by (simp add: loads_bytes_def decode_utf8_def utf8_ok_append utf8_ok_Cons char_code_def)
qed

lemma verify_blank_line:
  assumes "json_ok fr v" "strings_ok v"
  shows "verify_jsonl_ledger fr (Some (CHR '' '' # dump_json v @ [newline_char])) False =
     verify_jsonl_ledger fr (Some (dump_json v @ [newline_char])) False"
proof -
  have "newline_char \<notin> set (dump_json v)"
    using dump_codes [OF assms(1)] by (auto simp: printable_def list_all_iff char_code_def)
  then show ?thesis
    using file_lines_single [of "dump_json v"] file_lines_single [of "CHR '' '' # dump_json v"] loads_blank_line [OF assms]
    by (simp add: verify_jsonl_ledger_def verify_line_def read_line_def)
qed

theorem ledger_tamper_evident_witness:
  "\<exists>f v. verify_jsonl_ledger id (Some f) False = Inr v \<and> records v = 1 \<and> verify_jsonl_ledger id (Some (CHR '' '' # f)) False = Inr v \<and>
     (map hashed_text (ledger_rows id f) = map hashed_text (ledger_rows id (CHR '' '' # f)) \<or>
      collision (ledger_rows id f) (ledger_rows id (CHR '' '' # f)) \<or> genesis_preimage (ledger_rows id f @ ledger_rows id (CHR '' '' # f)))"
proof -
  have id: "float_repr_ok id" by (simp add: float_repr_ok_def)
  obtain h w' where run: "writer_write quiet_os [(''symbol'', JStr ''AAPL'')] sample_writer =
      (Inr (hashed_record h [(''symbol'', JStr ''AAPL'')] sample_writer), w')" "hash_format h"
    using sample_writer_runs(1) [OF sample_writer_ok(1,3,2) _ _ sample_records(1,4)] sample_writer_ok(4) by auto
  let ?row = "JObj (hashed_record h [(''symbol'', JStr ''AAPL'')] sample_writer)"
  have empty: "writer_agrees id sample_writer empty_scan"
    using sample_writer_ok(1) by (simp add: writer_agrees_def scan_ledger_def sample_writer_def empty_scan_def)
  have plain: "json_shape id (JObj [(''symbol'', JStr ''AAPL'')])" "strings_ok (JObj [(''symbol'', JStr ''AAPL'')])"
      "os_truncate quiet_os = None" "json_ok id (JObj [(''symbol'', JStr ''AAPL'')])"
    by (simp_all add: quiet_os_def dict_ok_def utf8_ok_Cons char_code_def)
  from writer_write_agrees [OF empty plain(1-3) run(1)] obtain sc where sc: "writer_agrees id w' sc" "expected_index sc = 1"
      "w_file w' = dump_json ?row @ [newline_char]"
    using sample_writer_ok(4) by (auto simp: ledger_line_def sample_writer_def)
  then have v: "verify_jsonl_ledger id (Some (w_file w')) False = Inr (verification_of sc)"
    by (auto simp: writer_agrees_def verify_iff_scan)
  have "int_printable (w_index sample_writer)" by (simp add: sample_writer_ok int_printable_def digits_limit_def string_of_nat.simps)
  note row = hashed_ok [OF plain(4,2) sample_writer_ok(1) run(2) this]
  from verify_blank_line [OF row] v have "verify_jsonl_ledger id (Some (CHR '' '' # w_file w')) False = Inr (verification_of sc)"
    by (simp only: sc(3))
  from ledger_tamper_evident [OF id v this refl] v this sc(2) show ?thesis
    by (intro exI [of _ "w_file w'"] exI [of _ "verification_of sc"]) (simp add: verification_of_def)
qed

theorem verification_well_formed_witness:
  "\<exists>w' v. snd (write_records sample_attempts sample_writer) = w' \<and> verify_jsonl_ledger id (Some (w_file w')) False = Inr v \<and>
     records v = int (length (file_lines (w_file w'))) \<and> hash_format (head_hash v) \<and> session_ids v \<noteq> []"
proof -
  obtain d1 d2 w' where run: "write_records sample_attempts sample_writer = ([Inr d1, Inl (OSError ''No space left on device''), Inr d2], w')"
    using sample_attempts_run by blast
  from writer_enter_agrees [OF sample_writer_made] sample_session_utf8 obtain sc where sc: "writer_agrees id sample_writer sc" by auto
  from write_records_agrees [OF sc sample_attempts_ok run] obtain sc' where "writer_agrees id w' sc'" by auto
  then have v: "verify_jsonl_ledger id (Some (w_file w')) False = Inr (verification_of sc')"
    by (auto simp: writer_agrees_def verify_iff_scan)
  have "w_file w' \<noteq> []"
    using write_records_agrees [OF sc sample_attempts_ok run] by (auto simp: written_rows_def ledger_line_def)
  with verification_well_formed [OF v] v run show ?thesis by auto
qed

end
