(* ===== verification/Recorder.thy ===== *)
theory Recorder
  imports Ledger Models
begin

text \<open>
  The stream recorder of \<open>recorder.py\<close>: messages are validated, repeated sequence numbers dropped, gaps
  counted, and quotes written to the ledger; the loop reconnects to the gateway with a growing pause.

  Pydantic's validation of a decoded message and of a quote, and the JSON dump of a quote, are the fields of a
  \<open>codec\<close>.  The connections that the network offers are a list of attempts; \<open>asyncio.CancelledError\<close>, which ends
  the program, the parsing of the command line and the printing are not modelled.
\<close>

section \<open>Recording messages\<close>

record recorder_counters =
  received :: int
  written :: int
  malformed :: int
  duplicates :: int
  gaps :: int
  reconnects :: int
  dropped :: int

definition fresh_counters :: recorder_counters where
  "fresh_counters = \<lparr>received = 0, written = 0, malformed = 0, duplicates = 0, gaps = 0, reconnects = 0, dropped = 0\<rparr>"

record gateway_message =
  sm_type :: string
  sm_data :: object

text \<open>
  What pydantic does: \<open>StreamMessage.model_validate\<close> and \<open>QuoteEvent.model_validate\<close> on a decoded object, and
  \<open>model_dump(mode="json")\<close> of a quote.
\<close>

record codec =
  validate_message :: "object \<Rightarrow> gateway_message result"
  validate_event :: "object \<Rightarrow> quote_event result"
  dump_event :: "quote_event \<Rightarrow> object"

datatype raw_message = Text string | Bytes string

record message_recorder =
  r_writer :: writer
  r_counters :: recorder_counters
  r_last_sequence :: "(string, int) dict"

text \<open>\<open>json.loads(raw_message)\<close>; both of its exceptions are \<open>ValueError\<close>s.\<close>

definition decode_message :: "(string \<Rightarrow> string) \<Rightarrow> raw_message \<Rightarrow> json result" where
  "decode_message fr raw =
     (case (case raw of Text s \<Rightarrow> loads_text fr s | Bytes s \<Rightarrow> loads_bytes fr s) of
        Inl _ \<Rightarrow> Inl (ValueError ''invalid JSON'')
      | Inr v \<Rightarrow> Inr v)"

definition dget :: "object \<Rightarrow> string \<Rightarrow> json \<Rightarrow> json" where
  "dget d k v = dict_get_default d k v"

definition quote_from_message :: "codec \<Rightarrow> gateway_message \<Rightarrow> (quote_event option \<times> object) result" where
  "quote_from_message c m =
     (let payload = dget (sm_data m) ''quote'' (JObj (sm_data m)) in
      if sm_type m = ''quote'' \<or> sm_type m = ''snapshot'' then
        (let metadata = [(''source_message_type'', JStr (sm_type m)),
               (''stale'', JBool (sm_type m = ''snapshot'' \<and> py_truth (dget (sm_data m) ''stale'' (JBool False))))]
         in case payload of
              JObj kvs \<Rightarrow> bindE (validate_event c kvs) (\<lambda>q. Inr (Some q, metadata))
            | _ \<Rightarrow> Inl (ValueError ''quote payload must be an object''))
      else Inr (None, []))"

definition parse_message :: "(string \<Rightarrow> string) \<Rightarrow> codec \<Rightarrow> raw_message \<Rightarrow> (quote_event option \<times> object) result" where
  "parse_message fr c raw =
     bindE (decode_message fr raw) (\<lambda>v. case v of
         JObj kvs \<Rightarrow> bindE (validate_message c kvs) (quote_from_message c)
       | _ \<Rightarrow> Inl (ValueError ''stream message must be a JSON object''))"

text \<open>\<open>_sequence_metadata\<close>: \<^const>\<open>None\<close> for a repeated or older sequence number.\<close>

definition sequence_metadata :: "quote_event \<Rightarrow> message_recorder \<Rightarrow> object option \<times> message_recorder" where
  "sequence_metadata q r = (case q_sequence q of
       None \<Rightarrow> (Some [(''degraded_stream'', JBool False), (''sequence_gap'', JBool False), (''gap_size'', JInt 0)], r)
     | Some n \<Rightarrow>
         (let previous = dict_get (r_last_sequence r) (q_symbol q) in
          if (case previous of None \<Rightarrow> False | Some p \<Rightarrow> n \<le> p)
          then (None, r\<lparr>r_counters := (r_counters r)\<lparr>duplicates := duplicates (r_counters r) + 1\<rparr>\<rparr>)
          else (let gap_size = (case previous of None \<Rightarrow> 0 | Some p \<Rightarrow> max 0 (n - p - 1));
                    counters = (if gap_size \<noteq> 0 then (r_counters r)\<lparr>gaps := gaps (r_counters r) + 1\<rparr> else r_counters r)
                in (Some [(''degraded_stream'', JBool (0 < gap_size)), (''sequence_gap'', JBool (0 < gap_size)),
                          (''gap_size'', JInt gap_size)],
                    r\<lparr>r_counters := counters, r_last_sequence := dict_set (q_symbol q) n (r_last_sequence r)\<rparr>))))"

definition quote_record :: "codec \<Rightarrow> quote_event \<Rightarrow> object \<Rightarrow> object \<Rightarrow> object" where
  "quote_record c q metadata sequence =
     dict_set ''channel'' (JStr ''quote'') (dict_set ''event_type'' (JStr ''quote'')
       (dict_update (dict_update (dump_event c q) metadata) sequence))"

definition is_caught :: "error \<Rightarrow> bool" where
  "is_caught e \<longleftrightarrow> is_value_error e \<or> (\<exists>t. e = TypeError t)"

definition is_os_error :: "error \<Rightarrow> bool" where
  "is_os_error e \<longleftrightarrow> (case e of OSError _ \<Rightarrow> True | ConnectionError _ \<Rightarrow> True | _ \<Rightarrow> False)"

definition handle :: "(string \<Rightarrow> string) \<Rightarrow> codec \<Rightarrow> os_calls \<Rightarrow> raw_message \<Rightarrow> (message_recorder, bool) call" where
  "handle fr c os raw r0 =
     (let r = r0\<lparr>r_counters := (r_counters r0)\<lparr>received := received (r_counters r0) + 1\<rparr>\<rparr> in
      case parse_message fr c raw of
        Inl e \<Rightarrow> if is_caught e
          then (Inr False, r\<lparr>r_counters := (r_counters r)\<lparr>malformed := malformed (r_counters r) + 1\<rparr>\<rparr>)
          else (Inl e, r)
      | Inr (None, _) \<Rightarrow> (Inr False, r)
      | Inr (Some q, metadata) \<Rightarrow>
          (case sequence_metadata q r of
             (None, r1) \<Rightarrow> (Inr False, r1)
           | (Some sequence, r1) \<Rightarrow>
               (case writer_write os (quote_record c q metadata sequence) (r_writer r1) of
                  (Inl e, w) \<Rightarrow>
                    (Inl e, r1\<lparr>r_writer := w, r_counters := (if is_os_error e
                       then (r_counters r1)\<lparr>dropped := dropped (r_counters r1) + 1\<rparr> else r_counters r1)\<rparr>)
                | (Inr _, w) \<Rightarrow>
                    (Inr True, r1\<lparr>r_writer := w, r_counters := (r_counters r1)\<lparr>written := written (r_counters r1) + 1\<rparr>\<rparr>))))"

section \<open>The connection loop\<close>

text \<open>\<open>consume_messages\<close> on a stream, each message with what the operating system does to its append.\<close>

primrec consume_messages ::
  "(string \<Rightarrow> string) \<Rightarrow> codec \<Rightarrow> int \<Rightarrow> (raw_message \<times> os_calls) list \<Rightarrow> (message_recorder, unit) call" where
  "consume_messages fr c max_records [] r = (Inr (), r)"
| "consume_messages fr c max_records (m # ms) r =
     (case handle fr c (snd m) (fst m) r of
        (Inl e, r') \<Rightarrow> (Inl e, r')
      | (Inr _, r') \<Rightarrow> if 0 < max_records \<and> max_records \<le> written (r_counters r') then (Inr (), r')
          else consume_messages fr c max_records ms r')"

text \<open>
  One attempt to connect: refused, or opened, where the subscription may fail to be sent and the stream ends
  after its messages, with an exception or without.
\<close>

datatype connect_attempt =
    Refused error
  | Opened "error option" "(raw_message \<times> os_calls) list" "error option"

text \<open>The body of the \<open>try\<close>: \<open>Inr ()\<close> is the \<open>return counters\<close>, and \<open>attempt = 0\<close> once the connection is open.\<close>

definition connection_round ::
  "(string \<Rightarrow> string) \<Rightarrow> codec \<Rightarrow> int \<Rightarrow> connect_attempt \<Rightarrow> nat \<Rightarrow> message_recorder \<Rightarrow> unit result \<times> nat \<times> message_recorder" where
  "connection_round fr c max_records a n r = (case a of
       Refused e \<Rightarrow> (Inl e, n, r)
     | Opened send_error ms stream_error \<Rightarrow>
         (case send_error of
            Some e \<Rightarrow> (Inl e, 0, r)
          | None \<Rightarrow>
              (case consume_messages fr c max_records ms r of
                 (Inl e, r') \<Rightarrow> (Inl e, 0, r')
               | (Inr _, r') \<Rightarrow>
                   if 0 < max_records \<and> max_records \<le> written (r_counters r') then (Inr (), 0, r')
                   else (Inl (case stream_error of Some e \<Rightarrow> e | None \<Rightarrow> ConnectionError ''gateway WebSocket stream ended''), 0, r'))))"

text \<open>\<open>min(30.0, 0.5 * 2 ** (attempt - 1))\<close>; an integer of 1025 bits does not fit a \<open>float\<close>.\<close>

definition reconnect_pause :: "nat \<Rightarrow> rat result" where
  "reconnect_pause attempt = (if 1025 \<le> attempt then Inl (OverflowError ''int too large to convert to float'')
     else Inr (min 30 (1 / 2 * 2 ^ (attempt - 1))))"

datatype recording = Recorded | Failed error | Running

text \<open>
  The loop over the connections that are offered, with the pauses it makes; \<open>Running\<close> when it is still waiting
  for a connection at the end of the list.
\<close>

primrec record_loop ::
  "(string \<Rightarrow> string) \<Rightarrow> codec \<Rightarrow> int \<Rightarrow> int \<Rightarrow> connect_attempt list \<Rightarrow> nat \<Rightarrow> message_recorder \<Rightarrow> recording \<times> rat list \<times> message_recorder" where
  "record_loop fr c max_records max_reconnects [] n r =
     (if max_records \<le> 0 \<or> written (r_counters r) < max_records then (Running, [], r) else (Recorded, [], r))"
| "record_loop fr c max_records max_reconnects (a # conns) n r =
     (if \<not> (max_records \<le> 0 \<or> written (r_counters r) < max_records) then (Recorded, [], r)
      else case connection_round fr c max_records a n r of
        (Inr _, n', r') \<Rightarrow> (Recorded, [], r')
      | (Inl e, n', r') \<Rightarrow>
          (let r1 = r'\<lparr>r_counters := (r_counters r')\<lparr>reconnects := reconnects (r_counters r') + 1\<rparr>\<rparr> in
           if max_reconnects < int (Suc n') then (Failed (RuntimeError ''gateway recorder exceeded reconnect limit''), [], r1)
           else (case reconnect_pause (Suc n') of
               Inl e' \<Rightarrow> (Failed e', [], r1)
             | Inr pause \<Rightarrow>
                 (let (out, pauses, r2) = record_loop fr c max_records max_reconnects conns (Suc n') r1
                  in (out, pause # pauses, r2)))))"

definition record_symbols :: "string list \<Rightarrow> string list" where
  "record_symbols symbols = sorted_list_of_set (set (map normalize (filter (\<lambda>s. py_strip s \<noteq> []) symbols)))"

text \<open>\<open>record_websocket\<close>; leaving the \<open>with\<close> block closes the writer.\<close>

definition record_websocket ::
  "(string \<Rightarrow> string) \<Rightarrow> codec \<Rightarrow> uuid \<Rightarrow> string \<Rightarrow> string list \<Rightarrow> string \<Rightarrow> int \<Rightarrow> int \<Rightarrow> bool \<Rightarrow> connect_attempt list \<Rightarrow>
     (recording \<times> rat list \<times> message_recorder) result" where
  "record_websocket fr c fresh token symbols content max_records max_reconnects fsync conns =
     (if record_symbols symbols = [] then Inl (ValueError ''at least one symbol is required'')
      else if token = [] then Inl (ValueError ''a bearer token is required'')
      else bindE (make_writer fresh None fsync content) (\<lambda>w0.
        case writer_enter fr w0 of
          (Inl e, _) \<Rightarrow> Inl e
        | (Inr _, w) \<Rightarrow>
            (let (out, pauses, r) = record_loop fr c max_records max_reconnects conns 0
                   \<lparr>r_writer = w, r_counters = fresh_counters, r_last_sequence = []\<rparr>
             in Inr (out, pauses, if out = Running then r else r\<lparr>r_writer := writer_close (r_writer r)\<rparr>))))"

section \<open>The command\<close>

definition verification_dict :: "ledger_verification \<Rightarrow> object" where
  "verification_dict v = [(''records'', JInt (records v)), (''head_hash'', JStr (head_hash v)),
     (''session_ids'', JArr (map JStr (session_ids v))), (''verified'', JBool True)]"

definition counters_dict :: "recorder_counters \<Rightarrow> object" where
  "counters_dict n = [(''received'', JInt (received n)), (''written'', JInt (written n)), (''malformed'', JInt (malformed n)),
     (''duplicates'', JInt (duplicates n)), (''gaps'', JInt (gaps n)), (''reconnects'', JInt (reconnects n)),
     (''dropped'', JInt (dropped n))]"

text \<open>The parsed arguments: a file is given with its content, and is \<open>Some None\<close> when it does not exist.\<close>

record recorder_args =
  ra_token :: "string option"
  ra_symbols :: "string list"
  ra_output :: "string option option"
  ra_verify_ledger :: "string option option"
  ra_max_records :: int
  ra_max_reconnects :: int
  ra_no_fsync :: bool

definition default_args :: recorder_args where
  "default_args = \<lparr>ra_token = None, ra_symbols = [], ra_output = None, ra_verify_ledger = None, ra_max_records = 0,
     ra_max_reconnects = 10, ra_no_fsync = False\<rparr>"

text \<open>How \<open>main\<close> ends: a \<open>SystemExit\<close> with a message, status 0 after printing a document, or an exception of another class.\<close>

datatype command_end = SystemExit string | Printed object | Uncaught error | StillRecording

definition exits :: "error \<Rightarrow> command_end" where
  "exits e = SystemExit (''smdg-recorder: '' @ error_text e)"

definition is_ledger_error :: "error \<Rightarrow> bool" where
  "is_ledger_error e \<longleftrightarrow> (case e of LedgerIntegrityError _ \<Rightarrow> True | _ \<Rightarrow> is_os_error e)"

definition is_run_error :: "error \<Rightarrow> bool" where
  "is_run_error e \<longleftrightarrow> is_os_error e \<or> is_value_error e \<or> (case e of RuntimeError _ \<Rightarrow> True | _ \<Rightarrow> False)"

definition verify_command :: "(string \<Rightarrow> string) \<Rightarrow> string option \<Rightarrow> command_end" where
  "verify_command fr file = (case verify_jsonl_ledger fr file False of
       Inl e \<Rightarrow> if is_ledger_error e then exits e else Uncaught e
     | Inr v \<Rightarrow> Printed (verification_dict v))"

definition record_command ::
  "(string \<Rightarrow> string) \<Rightarrow> codec \<Rightarrow> uuid \<Rightarrow> string \<Rightarrow> recorder_args \<Rightarrow> string option \<Rightarrow> connect_attempt list \<Rightarrow> command_end" where
  "record_command fr c fresh token args file conns =
     (case record_websocket fr c fresh token (ra_symbols args) (case file of None \<Rightarrow> [] | Some content \<Rightarrow> content)
           (ra_max_records args) (ra_max_reconnects args) (\<not> ra_no_fsync args) conns of
        Inl e \<Rightarrow> if is_run_error e then exits e else Uncaught e
      | Inr (Failed e, _, _) \<Rightarrow> if is_run_error e then exits e else Uncaught e
      | Inr (Recorded, _, r) \<Rightarrow> Printed (counters_dict (r_counters r))
      | Inr (Running, _, _) \<Rightarrow> StillRecording)"

definition recorder_main :: "(string \<Rightarrow> string) \<Rightarrow> codec \<Rightarrow> uuid \<Rightarrow> recorder_args \<Rightarrow> connect_attempt list \<Rightarrow> command_end" where
  "recorder_main fr c fresh args conns =
     (case ra_verify_ledger args of
        Some file \<Rightarrow> verify_command fr file
      | None \<Rightarrow>
          (case ra_token args of
             None \<Rightarrow> SystemExit ''smdg-recorder: set --token or SMDG_RECORDER_TOKEN''
           | Some token \<Rightarrow>
               if token = [] then SystemExit ''smdg-recorder: set --token or SMDG_RECORDER_TOKEN''
               else if ra_symbols args = [] then SystemExit ''smdg-recorder: provide at least one --symbol''
               else (case ra_output args of
                   None \<Rightarrow> SystemExit ''smdg-recorder: --output is required when recording''
                 | Some file \<Rightarrow> record_command fr c fresh token args file conns)))"

text \<open>
  Two exceptions the command does not turn into an exit: a ledger line with an integer beyond 4300 digits or a
  lone surrogate raises a \<open>ValueError\<close> that is no \<open>LedgerIntegrityError\<close>, and the pause before the 1025th
  attempt overflows.
\<close>

lemma long_integer_uncaught:
  assumes "loads_bytes fr (first @ [newline_char]) = Inl TooManyDigits" "newline_char \<notin> set first"
  shows "\<exists>e. verify_command fr (Some (first @ newline_char # rest)) = Uncaught e \<or>
    verify_command fr (Some (first @ newline_char # rest)) = SystemExit ''smdg-recorder: ledger must end with a complete newline-terminated record''"
proof -
  have "file_lines (first @ newline_char # rest) = (first @ [newline_char]) # file_lines rest"
    using file_lines_append [of "first @ [newline_char]" rest] file_lines_single [OF assms(2)] by simp
  then show ?thesis
    using assms(1) by (simp add: verify_command_def verify_jsonl_ledger_def verify_line_def read_line_def is_ledger_error_def is_os_error_def exits_def)
qed

lemma pause_overflow_uncaught:
  "reconnect_pause 1025 = Inl e \<Longrightarrow> \<not> is_run_error e"
  by (auto simp: reconnect_pause_def is_run_error_def is_os_error_def)

section \<open>What the recorder records\<close>

lemma sequence_metadata_None:
  "sequence_metadata q r = (None, r') \<Longrightarrow> r_writer r' = r_writer r \<and> r_last_sequence r' = r_last_sequence r \<and>
     written (r_counters r') = written (r_counters r)"
  by (auto simp: sequence_metadata_def Let_def split: option.splits if_splits)

definition seen_after :: "quote_event \<Rightarrow> (string, int) dict \<Rightarrow> (string, int) dict" where
  "seen_after q d = (case q_sequence q of None \<Rightarrow> d | Some n \<Rightarrow> dict_set (q_symbol q) n d)"

lemma sequence_metadata_Some:
  "sequence_metadata q r = (Some sq, r') \<Longrightarrow> r_writer r' = r_writer r \<and> written (r_counters r') = written (r_counters r) \<and>
     r_last_sequence r' = seen_after q (r_last_sequence r) \<and>
     (\<forall>n p. q_sequence q = Some n \<longrightarrow> dict_get (r_last_sequence r) (q_symbol q) = Some p \<longrightarrow> p < n)"
  by (auto simp: sequence_metadata_def seen_after_def Let_def split: option.splits if_splits)

lemma sequence_metadata_shape:
  "sequence_metadata q r = (Some sq, r') \<Longrightarrow> \<exists>b g. sq = [(''degraded_stream'', JBool b), (''sequence_gap'', JBool b), (''gap_size'', JInt g)]"
  by (auto simp: sequence_metadata_def Let_def split: option.splits if_splits)

text \<open>The ways a message is handled.\<close>

lemma handle_cases:
  assumes "handle fr c os raw r = (y, r')"
  obtains (skipped) "y = Inr False \<or> (\<exists>e. y = Inl e)" "r_writer r' = r_writer r" "r_last_sequence r' = r_last_sequence r"
      "written (r_counters r') = written (r_counters r)"
    | (failed) q md sq r1 e where "parse_message fr c raw = Inr (Some q, md)"
        "sequence_metadata q (r\<lparr>r_counters := (r_counters r)\<lparr>received := received (r_counters r) + 1\<rparr>\<rparr>) = (Some sq, r1)"
        "writer_write os (quote_record c q md sq) (r_writer r) = (Inl e, r_writer r')" "y = Inl e"
        "r_last_sequence r' = r_last_sequence r1" "written (r_counters r') = written (r_counters r)"
    | (recorded) q md sq r1 row where "parse_message fr c raw = Inr (Some q, md)"
        "sequence_metadata q (r\<lparr>r_counters := (r_counters r)\<lparr>received := received (r_counters r) + 1\<rparr>\<rparr>) = (Some sq, r1)"
        "writer_write os (quote_record c q md sq) (r_writer r) = (Inr row, r_writer r')" "y = Inr True"
        "r_last_sequence r' = r_last_sequence r1" "written (r_counters r') = written (r_counters r) + 1"
proof -
  let ?r = "r\<lparr>r_counters := (r_counters r)\<lparr>received := received (r_counters r) + 1\<rparr>\<rparr>"
  consider (bad) e where "parse_message fr c raw = Inl e" | (other) md where "parse_message fr c raw = Inr (None, md)"
    | (known) q md r1 where "parse_message fr c raw = Inr (Some q, md)" "sequence_metadata q ?r = (None, r1)"
    | (fresh) q md sq r1 y1 w where "parse_message fr c raw = Inr (Some q, md)" "sequence_metadata q ?r = (Some sq, r1)"
        "writer_write os (quote_record c q md sq) (r_writer r1) = (y1, w)"
  proof (cases "parse_message fr c raw")
    case (Inr p)
    with that show thesis
      by (cases p; cases "fst p"; cases "sequence_metadata (the (fst p)) ?r"; cases "fst (sequence_metadata (the (fst p)) ?r)";
          cases "writer_write os (quote_record c (the (fst p)) (snd p) (the (fst (sequence_metadata (the (fst p)) ?r)))) (r_writer (snd (sequence_metadata (the (fst p)) ?r)))")
         auto
  qed (use that in blast)
  then show thesis
  proof cases
    case bad
    with assms show ?thesis by (intro skipped) (auto simp: handle_def Let_def split: if_splits)
  next
    case other
    with assms show ?thesis by (intro skipped) (auto simp: handle_def Let_def)
  next
    case known
    with assms sequence_metadata_None [OF known(2)] show ?thesis by (intro skipped) (auto simp: handle_def Let_def)
  next
    case fresh
    note eqs = sequence_metadata_Some [OF fresh(2)]
    show ?thesis
    proof (cases y1)
      case (Inl e)
      with assms fresh eqs show ?thesis by (intro failed [OF fresh(1,2)]) (auto simp: handle_def Let_def)
    next
      case (Inr row)
      with assms fresh eqs show ?thesis by (intro recorded [OF fresh(1,2)]) (auto simp: handle_def Let_def)
    qed
  qed
qed

section \<open>The ledger of a recording\<close>

text \<open>What the model asks of the codec: the dump of a quote is an object that JSON text can carry.\<close>

definition codec_ok :: "(string \<Rightarrow> string) \<Rightarrow> codec \<Rightarrow> bool" where
  "codec_ok fr c \<longleftrightarrow> (\<forall>q. json_shape fr (JObj (dump_event c q)) \<and> strings_ok (JObj (dump_event c q)))"

lemma plain_update:
  assumes "json_shape fr (JObj d)" "strings_ok (JObj d)"
    "list_all (\<lambda>(k, v). json_shape fr v) new" "list_all (\<lambda>(k, v). utf8_ok k \<and> strings_ok v) new"
  shows "json_shape fr (JObj (dict_update d new))" "strings_ok (JObj (dict_update d new))"
proof -
  have "list_all (\<lambda>(k, v). json_shape fr v) (dict_update d new)" "dict_ok (dict_update d new)"
    unfolding dict_update_def using assms list_all_set [of "\<lambda>(k, v). json_shape fr v"]
    by (auto intro!: list_all_update simp: dict_ok_update)
  then show "json_shape fr (JObj (dict_update d new))" by simp
  show "strings_ok (JObj (dict_update d new))"
    unfolding dict_update_def using assms list_all_set [of "\<lambda>(k, v). utf8_ok k \<and> strings_ok v"]
    by (auto intro!: list_all_update)
qed

definition flat_ok :: "json \<Rightarrow> bool" where
  "flat_ok v \<longleftrightarrow> (case v of JBool _ \<Rightarrow> True | JInt _ \<Rightarrow> True | JStr s \<Rightarrow> ascii s | _ \<Rightarrow> False)"

lemma flat_ok_parts: "flat_ok v \<Longrightarrow> json_shape fr v \<and> strings_ok v"
  by (cases v) (auto simp: flat_ok_def utf8_ok_ascii)

lemma metadata_flat:
  assumes "parse_message fr c raw = Inr (Some q, md)"
  shows "list_all (\<lambda>(k, v). ascii k \<and> flat_ok v) md"
proof -
  obtain m where "quote_from_message c m = Inr (Some q, md)"
  proof -
    obtain v where "(case v of JObj kvs \<Rightarrow> bindE (validate_message c kvs) (quote_from_message c)
        | _ \<Rightarrow> Inl (ValueError ''stream message must be a JSON object'')) = Inr (Some q, md)"
      using assms by (auto simp: parse_message_def bindE_eq_Inr)
    with that show thesis by (cases v) (auto simp: bindE_eq_Inr)
  qed
  then have "\<exists>b. md = [(''source_message_type'', JStr (sm_type m)), (''stale'', JBool b)] \<and> sm_type m \<in> {''quote'', ''snapshot''}"
    by (auto simp: quote_from_message_def Let_def bindE_eq_Inr split: if_splits json.splits)
  then show ?thesis by (auto simp: flat_ok_def char_code_def)
qed

lemma quote_record_plain:
  assumes "codec_ok fr c" "list_all (\<lambda>(k, v). ascii k \<and> flat_ok v) md" "list_all (\<lambda>(k, v). ascii k \<and> flat_ok v) sq"
  shows "json_shape fr (JObj (quote_record c q md sq))" "strings_ok (JObj (quote_record c q md sq))"
proof -
  have flat: "list_all (\<lambda>(k, v). json_shape fr v) xs \<and> list_all (\<lambda>(k, v). utf8_ok k \<and> strings_ok v) xs"
    if "list_all (\<lambda>(k, v). ascii k \<and> flat_ok v) xs" for xs
    using that flat_ok_parts utf8_ok_ascii by (fastforce simp: list_all_iff)
  have step: "json_shape fr (JObj (dict_update d xs)) \<and> strings_ok (JObj (dict_update d xs))"
    if "json_shape fr (JObj d) \<and> strings_ok (JObj d)" "list_all (\<lambda>(k, v). ascii k \<and> flat_ok v) xs" for d xs
    using that flat [OF that(2)] plain_update by blast
  have "quote_record c q md sq = dict_update (dict_update (dict_update (dump_event c q) md) sq)
      [(''event_type'', JStr ''quote''), (''channel'', JStr ''quote'')]"
    by (simp add: quote_record_def dict_update_def)
  moreover have "list_all (\<lambda>(k, v). ascii k \<and> flat_ok v) [(''event_type'', JStr ''quote''), (''channel'', JStr ''quote'')]"
    by (simp add: flat_ok_def char_code_def)
  moreover have "json_shape fr (JObj (dump_event c q)) \<and> strings_ok (JObj (dump_event c q))"
    using assms(1) by (simp only: codec_ok_def)
  ultimately show "json_shape fr (JObj (quote_record c q md sq))" "strings_ok (JObj (quote_record c q md sq))"
    using step [OF step [OF step [OF _ assms(2)] assms(3)]] by (simp_all only: simp_thms)
qed

definition recorder_agrees :: "(string \<Rightarrow> string) \<Rightarrow> int \<Rightarrow> message_recorder \<Rightarrow> bool" where
  "recorder_agrees fr base r \<longleftrightarrow> (\<exists>sc. writer_agrees fr (r_writer r) sc \<and> expected_index sc = base + written (r_counters r))"

lemma handle_agrees:
  assumes "codec_ok fr c" "os_truncate os = None" "recorder_agrees fr base r" "handle fr c os raw r = (y, r')"
  shows "recorder_agrees fr base r'"
  using assms(4)
proof (cases rule: handle_cases)
  case skipped
  with assms(3) show ?thesis by (simp add: recorder_agrees_def)
next
  case (failed q md sq r1 e)
  have plain: "json_shape fr (JObj (quote_record c q md sq))" "strings_ok (JObj (quote_record c q md sq))"
    using quote_record_plain [OF assms(1) metadata_flat [OF failed(1)]] sequence_metadata_shape [OF failed(2)]
    by (auto simp: flat_ok_def char_code_def simp del: json_shape.simps strings_ok.simps)
  from assms(3) obtain sc where sc: "writer_agrees fr (r_writer r) sc" "expected_index sc = base + written (r_counters r)"
    by (auto simp: recorder_agrees_def)
  from writer_write_agrees [OF sc(1) plain assms(2) failed(3)] sc failed(6) show ?thesis
    by (auto simp: recorder_agrees_def)
next
  case (recorded q md sq r1 row)
  have plain: "json_shape fr (JObj (quote_record c q md sq))" "strings_ok (JObj (quote_record c q md sq))"
    using quote_record_plain [OF assms(1) metadata_flat [OF recorded(1)]] sequence_metadata_shape [OF recorded(2)]
    by (auto simp: flat_ok_def char_code_def simp del: json_shape.simps strings_ok.simps)
  from assms(3) obtain sc where sc: "writer_agrees fr (r_writer r) sc" "expected_index sc = base + written (r_counters r)"
    by (auto simp: recorder_agrees_def)
  from sc have "expected_index sc = w_index (r_writer r)" by (simp add: writer_agrees_def)
  with writer_write_agrees [OF sc(1) plain assms(2) recorded(3)] sc recorded(6) show ?thesis
    by (auto simp: recorder_agrees_def)
qed

text \<open>What every message keeps, a recording keeps.\<close>

definition truncates :: "connect_attempt \<Rightarrow> bool" where
  "truncates a \<longleftrightarrow> (case a of Refused _ \<Rightarrow> True | Opened _ ms _ \<Rightarrow> list_all (\<lambda>m. os_truncate (snd m) = None) ms)"

lemma consume_preserves:
  assumes "\<And>os raw r y r'. os_truncate os = None \<Longrightarrow> P r \<Longrightarrow> handle fr c os raw r = (y, r') \<Longrightarrow> P r'"
    "list_all (\<lambda>m. os_truncate (snd m) = None) ms" "P r" "consume_messages fr c max_records ms r = (y, r')"
  shows "P r'"
  using assms(2-)
proof (induction ms arbitrary: r)
  case (Cons m ms)
  obtain y1 r1 where h: "handle fr c (snd m) (fst m) r = (y1, r1)" by fastforce
  have "P r1" by (rule assms(1) [OF _ _ h]) (use Cons.prems in auto)
  with Cons h show ?case by (cases y1) (auto split: if_splits)
qed simp

lemma record_loop_preserves:
  assumes "\<And>os raw r y r'. os_truncate os = None \<Longrightarrow> P r \<Longrightarrow> handle fr c os raw r = (y, r') \<Longrightarrow> P r'"
    "\<And>r n. P r \<Longrightarrow> P (r\<lparr>r_counters := (r_counters r)\<lparr>reconnects := n\<rparr>\<rparr>)"
    "list_all truncates conns" "P r" "record_loop fr c max_records max_reconnects conns n r = (out, pauses, r')"
  shows "P r'"
  using assms(3-)
proof (induction conns arbitrary: n r out pauses)
  case (Cons a conns)
  obtain y n1 r1 where round: "connection_round fr c max_records a n r = (y, n1, r1)" by (metis prod_cases3)
  have "P r1"
  proof (cases a)
    case (Opened send_error ms stream_error)
    obtain y2 r2 where "consume_messages fr c max_records ms r = (y2, r2)" by fastforce
    moreover from this have "P r2"
      using consume_preserves [where P = P, OF assms(1)] Cons.prems(1,2) Opened by (fastforce simp: truncates_def)
    ultimately show ?thesis
      using round Cons.prems(2) Opened by (auto simp: connection_round_def split: option.splits sum.splits if_splits)
  qed (use round Cons.prems(2) in \<open>simp add: connection_round_def\<close>)
  let ?r2 = "r1\<lparr>r_counters := (r_counters r1)\<lparr>reconnects := reconnects (r_counters r1) + 1\<rparr>\<rparr>"
  have P2: "P ?r2" using assms(2) \<open>P r1\<close> by blast
  have "P r'" if "record_loop fr c max_records max_reconnects conns m ?r2 = (out2, ps, r')" for m out2 ps
    by (rule Cons.IH [OF _ P2 that]) (use Cons.prems(1) in simp)
  with Cons.prems round \<open>P r1\<close> P2 show ?case
    by (cases y) (auto simp: Let_def split: if_splits sum.splits prod.splits)
qed (simp split: if_splits)

text \<open>C14: Whatever the connections deliver and however the appends fail, a recording on a file that verifies leaves
  one that verifies, with exactly the written quotes added.\<close>

theorem recording_verifies:
  assumes "codec_ok fr c" "list_all truncates conns"
    "record_websocket fr c fresh token symbols content max_records max_reconnects fsync conns = Inr (out, pauses, r)"
  shows "\<exists>v v'. verify_jsonl_ledger fr (Some content) False = Inr v \<and>
     verify_jsonl_ledger fr (Some (w_file (r_writer r))) False = Inr v' \<and>
     records v' = records v + written (r_counters r)"
proof -
  obtain w0 w r1 where w0: "make_writer fresh None fsync content = Inr w0" and w: "writer_enter fr w0 = (Inr (), w)"
    and loop: "record_loop fr c max_records max_reconnects conns 0
        \<lparr>r_writer = w, r_counters = fresh_counters, r_last_sequence = []\<rparr> = (out, pauses, r1)"
    and r: "w_file (r_writer r) = w_file (r_writer r1)" "r_counters r = r_counters r1"
  proof -
    from assms(3) obtain w0 where w0: "make_writer fresh None fsync content = Inr w0"
      by (auto simp: record_websocket_def bindE_eq_Inr split: if_splits)
    obtain y w where w: "writer_enter fr w0 = (y, w)" by fastforce
    obtain out' pauses' r1 where loop: "record_loop fr c max_records max_reconnects conns 0
        \<lparr>r_writer = w, r_counters = fresh_counters, r_last_sequence = []\<rparr> = (out', pauses', r1)"
      by (metis prod_cases3)
    show thesis
      by (rule that [of w0 w r1, OF w0]) (use assms(3) w0 w loop in \<open>auto simp: record_websocket_def writer_close_def split: if_splits sum.splits\<close>)
  qed
  from writer_enter_agrees [OF w0 w] obtain sc where sc: "writer_agrees fr w sc"
      "verify_jsonl_ledger fr (Some content) False = Inr (verification_of sc)"
    by auto
  then have "recorder_agrees fr (expected_index sc) \<lparr>r_writer = w, r_counters = fresh_counters, r_last_sequence = []\<rparr>"
    by (auto simp: recorder_agrees_def fresh_counters_def)
  from record_loop_preserves [where P = "recorder_agrees fr (expected_index sc)", OF handle_agrees [OF assms(1)] _ assms(2) this loop]
  have "recorder_agrees fr (expected_index sc) r1" by (simp add: recorder_agrees_def)
  then obtain sc' where "writer_agrees fr (r_writer r1) sc'" "expected_index sc' = expected_index sc + written (r_counters r1)"
    by (auto simp: recorder_agrees_def)
  then have "verify_jsonl_ledger fr (Some (w_file (r_writer r))) False = Inr (verification_of sc')"
      "records (verification_of sc') = records (verification_of sc) + written (r_counters r)"
    using r by (auto simp: writer_agrees_def verify_iff_scan) (simp add: verification_of_def)
  with sc(2) show ?thesis by blast
qed

section \<open>Sequence numbers\<close>

text \<open>The quotes that a series of messages adds to the ledger; an exception leaves the recorder in use.\<close>

primrec handle_all ::
  "(string \<Rightarrow> string) \<Rightarrow> codec \<Rightarrow> (raw_message \<times> os_calls) list \<Rightarrow> message_recorder \<Rightarrow> quote_event list \<times> message_recorder" where
  "handle_all fr c [] r = ([], r)"
| "handle_all fr c (m # ms) r =
     (let (y, r1) = handle fr c (snd m) (fst m) r; (qs, r2) = handle_all fr c ms r1
      in ((case (y, parse_message fr c (fst m)) of (Inr True, Inr (Some q, _)) \<Rightarrow> q # qs | _ \<Rightarrow> qs), r2))"

definition follows :: "quote_event \<Rightarrow> quote_event \<Rightarrow> bool" where
  "follows p q \<longleftrightarrow> (q_symbol p = q_symbol q \<longrightarrow>
     (case (q_sequence p, q_sequence q) of (Some m, Some n) \<Rightarrow> m < n | _ \<Rightarrow> True))"

definition above :: "(string, int) dict \<Rightarrow> quote_event \<Rightarrow> bool" where
  "above d q \<longleftrightarrow> (\<forall>n p. q_sequence q = Some n \<longrightarrow> dict_get d (q_symbol q) = Some p \<longrightarrow> p < n)"

lemma above_step:
  assumes "above (seen_after q d) p"
    "\<forall>n m. q_sequence q = Some n \<longrightarrow> dict_get d (q_symbol q) = Some m \<longrightarrow> m < n"
  shows "above d p"
  using assms by (fastforce simp: above_def seen_after_def dict_get_set split: option.splits if_splits)

lemma above_follows:
  "above (seen_after q d) p \<Longrightarrow> follows q p"
  by (auto simp: above_def follows_def seen_after_def dict_get_set split: option.splits if_splits)

lemma handle_all_increasing:
  "handle_all fr c ms r = (qs, r') \<Longrightarrow>
     sorted_wrt follows qs \<and> list_all (above (r_last_sequence r)) qs \<and>
     written (r_counters r') = written (r_counters r) + int (length qs)"
proof (induction ms arbitrary: r qs)
  case (Cons m ms)
  obtain y r1 qs1 where h: "handle fr c (snd m) (fst m) r = (y, r1)" and rest: "handle_all fr c ms r1 = (qs1, r')"
    and qs: "qs = (case (y, parse_message fr c (fst m)) of (Inr True, Inr (Some q, _)) \<Rightarrow> q # qs1 | _ \<Rightarrow> qs1)"
    using Cons.prems by (auto simp: Let_def split: prod.splits)
  note IH = Cons.IH [OF rest]
  from h show ?case
  proof (cases rule: handle_cases)
    case skipped
    then have "qs = qs1" using qs by auto
    with IH skipped show ?thesis by simp
  next
    case (failed q md sq r2 e)
    note meta = sequence_metadata_Some [OF failed(2), simplified]
    have "list_all (above (r_last_sequence r)) qs1"
      using IH meta failed(5) by (auto simp: list_all_iff intro: above_step)
    with IH failed qs show ?thesis by simp
  next
    case (recorded q md sq r2 row)
    note meta = sequence_metadata_Some [OF recorded(2), simplified]
    have "list_all (above (r_last_sequence r)) qs1" "list_all (follows q) qs1"
      using IH meta recorded(5) by (auto simp: list_all_iff intro: above_step above_follows)
    moreover have "above (r_last_sequence r) q" using meta by (simp add: above_def)
    ultimately show ?thesis using IH recorded qs by (simp add: list_all_iff)
  qed
qed simp

text \<open>C30: The quotes of a symbol that reach the ledger have strictly increasing sequence numbers, whatever is
  repeated, reordered or lost, and the counter of written rows counts them.\<close>

theorem recorded_sequences_increase:
  "let (qs, r') = handle_all fr c ms r in
   sorted_wrt follows qs \<and> written (r_counters r') = written (r_counters r) + int (length qs)"
  using handle_all_increasing [of fr c ms r] by (cases "handle_all fr c ms r") simp

text \<open>A quote whose append fails is lost: the recorder has already noted its sequence number, so the same quote
  delivered again counts as a duplicate, and the next one is recorded without a gap.\<close>

theorem dropped_quote_unrecoverable:
  assumes "parse_message fr c raw = Inr (Some q, md)" "q_sequence q = Some n"
    "sequence_metadata q (r\<lparr>r_counters := (r_counters r)\<lparr>received := received (r_counters r) + 1\<rparr>\<rparr>) = (Some sq, r1)"
    "writer_write os (quote_record c q md sq) (r_writer r) = (Inl (OSError e), w)"
  shows "\<exists>r2. handle fr c os raw r = (Inl (OSError e), r2) \<and> dropped (r_counters r2) = dropped (r_counters r) + 1 \<and>
     (\<forall>os'. fst (handle fr c os' raw r2) = Inr False \<and> r_writer (snd (handle fr c os' raw r2)) = w) \<and>
     (\<forall>q'. q_symbol q' = q_symbol q \<longrightarrow> q_sequence q' = Some (n + 1) \<longrightarrow>
        fst (sequence_metadata q' r2) = Some [(''degraded_stream'', JBool False), (''sequence_gap'', JBool False), (''gap_size'', JInt 0)])"
proof -
  let ?r2 = "r1\<lparr>r_writer := w, r_counters := (r_counters r1)\<lparr>dropped := dropped (r_counters r1) + 1\<rparr>\<rparr>"
  have r1: "r_writer r1 = r_writer r" "dropped (r_counters r1) = dropped (r_counters r)"
      "dict_get (r_last_sequence r1) (q_symbol q) = Some n"
    using assms(2,3) by (auto simp: sequence_metadata_def Let_def dict_get_set split: option.splits if_splits)
  have "handle fr c os raw r = (Inl (OSError e), ?r2)"
    using assms r1(1) by (simp add: handle_def is_os_error_def)
  moreover have "fst (handle fr c os' raw ?r2) = Inr False \<and> r_writer (snd (handle fr c os' raw ?r2)) = w" for os'
    using assms(1,2) r1(3) by (simp add: handle_def sequence_metadata_def)
  moreover have "q_symbol q' = q_symbol q \<Longrightarrow> q_sequence q' = Some (n + 1) \<Longrightarrow> fst (sequence_metadata q' ?r2) =
      Some [(''degraded_stream'', JBool False), (''sequence_gap'', JBool False), (''gap_size'', JInt 0)]" for q'
    using r1(3) by (simp add: sequence_metadata_def)
  ultimately show ?thesis using r1(2) by (intro exI [of _ ?r2]) simp
qed

section \<open>Reconnecting\<close>

lemma refused_from:
  assumes "max_records \<le> 0" "n \<le> 1024"
  shows "k \<le> n \<Longrightarrow> n - k < length conns \<Longrightarrow> (\<And>a. a \<in> set (take (Suc (n - k)) conns) \<Longrightarrow> \<exists>e. a = Refused e) \<Longrightarrow>
    \<exists>r'. record_loop fr c max_records (int n) conns k r =
      (Failed (RuntimeError ''gateway recorder exceeded reconnect limit''), map (\<lambda>k. min 30 (2 ^ k / 2)) [k..<n], r') \<and>
     reconnects (r_counters r') = reconnects (r_counters r) + int (n - k) + 1 \<and> r_writer r' = r_writer r"
proof (induction conns arbitrary: k r)
  case (Cons a conns)
  from Cons.prems(3) [of a] obtain e where a: "a = Refused e" by auto
  let ?r = "r\<lparr>r_counters := (r_counters r)\<lparr>reconnects := reconnects (r_counters r) + 1\<rparr>\<rparr>"
  show ?case
  proof (cases "k = n")
    case True
    with assms a show ?thesis by (simp add: connection_round_def)
  next
    case False
    with Cons.prems(1) have k: "Suc k \<le> n" "n - k = Suc (n - Suc k)" by auto
    have "\<exists>r'. record_loop fr c max_records (int n) conns (Suc k) ?r =
        (Failed (RuntimeError ''gateway recorder exceeded reconnect limit''), map (\<lambda>k. min 30 (2 ^ k / 2)) [Suc k..<n], r') \<and>
       reconnects (r_counters r') = reconnects (r_counters ?r) + int (n - Suc k) + 1 \<and> r_writer r' = r_writer ?r"
      by (rule Cons.IH) (use Cons.prems(2,3) k in auto)
    then obtain r' where r': "record_loop fr c max_records (int n) conns (Suc k) ?r =
        (Failed (RuntimeError ''gateway recorder exceeded reconnect limit''), map (\<lambda>k. min 30 (2 ^ k / 2)) [Suc k..<n], r')"
      "reconnects (r_counters r') = reconnects (r_counters r) + 1 + int (n - Suc k) + 1" "r_writer r' = r_writer r"
      by auto
    have "reconnect_pause (Suc k) = Inr (min 30 (2 ^ k / 2))"
      using k(1) assms(2) by (simp add: reconnect_pause_def)
    with r' assms a k show ?thesis
      by (simp add: connection_round_def upt_conv_Cons)
  qed
qed simp

text \<open>When the gateway refuses every connection, the recorder gives up with a \<open>RuntimeError\<close> after one attempt
  more than \<open>max_reconnects\<close>, having paused \<open>0.5, 1, 2, ...\<close> and at most 30 seconds between them.\<close>

theorem refused_connections_end:
  assumes "max_records \<le> 0" "n \<le> 1024" "n < length conns" "\<And>a. a \<in> set (take (Suc n) conns) \<Longrightarrow> \<exists>e. a = Refused e"
  shows "\<exists>r'. record_loop fr c max_records (int n) conns 0 r =
      (Failed (RuntimeError ''gateway recorder exceeded reconnect limit''), map (\<lambda>k. min 30 (2 ^ k / 2)) [0..<n], r') \<and>
     reconnects (r_counters r') = reconnects (r_counters r) + int n + 1 \<and> r_writer r' = r_writer r"
  using refused_from [OF assms(1,2), where k = 0 and conns = conns and r = r and fr = fr and c = c] assms(3,4) by simp

lemma opened_from:
  assumes "max_records \<le> 0" "1 \<le> max_reconnects"
  shows "(\<And>a. a \<in> set conns \<Longrightarrow> \<exists>e ms e'. a = Opened e ms e') \<Longrightarrow>
    \<exists>r'. record_loop fr c max_records max_reconnects conns n r = (Running, replicate (length conns) (1 / 2), r')"
proof (induction conns arbitrary: n r)
  case Nil
  with assms(1) show ?case by simp
next
  case (Cons a conns)
  from Cons.prems [of a] obtain e ms e' where a: "a = Opened e ms e'" by auto
  obtain err r1 where round: "connection_round fr c max_records a n r = (Inl err, 0, r1)"
    using assms(1) by (cases e; cases "consume_messages fr c max_records ms r"; cases "fst (consume_messages fr c max_records ms r)")
      (auto simp: a connection_round_def)
  have "\<exists>r'. record_loop fr c max_records max_reconnects conns 1
      (r1\<lparr>r_counters := (r_counters r1)\<lparr>reconnects := reconnects (r_counters r1) + 1\<rparr>\<rparr>) = (Running, replicate (length conns) (1 / 2), r')"
    by (rule Cons.IH) (use Cons.prems in auto)
  with assms round show ?case by (auto simp: reconnect_pause_def)
qed

text \<open>A connection that opens resets the count of failures, so no number of connections that open and then fail -
  because the gateway closes them, or because every append fails on a full disk - makes the recorder give up, and
  it pauses half a second each time.\<close>

theorem opened_connections_never_end:
  assumes "max_records \<le> 0" "1 \<le> max_reconnects" "\<And>a. a \<in> set conns \<Longrightarrow> \<exists>e ms e'. a = Opened e ms e'"
  shows "\<exists>r'. record_loop fr c max_records max_reconnects conns 0 r = (Running, replicate (length conns) (1 / 2), r')"
  using opened_from [OF assms(1,2)] assms(3) by blast

section \<open>Witnesses\<close>

definition sample_codec :: codec where
  "sample_codec =
     \<lparr>validate_message = (\<lambda>kvs. case (jget kvs ''type'', jget kvs ''data'') of
         (JStr t, JObj d) \<Rightarrow> Inr \<lparr>sm_type = t, sm_data = d\<rparr> | _ \<Rightarrow> Inl (FieldErrors [''type''])),
      validate_event = (\<lambda>kvs. case jget kvs ''sequence'' of
         JInt n \<Rightarrow> Inr ((quote_of_input sample_input)\<lparr>q_sequence := Some n\<rparr>) | _ \<Rightarrow> Inl (FieldErrors [''sequence''])),
      dump_event = (\<lambda>q. [(''symbol'', JStr ''AAPL''), (''sequence'', case q_sequence q of Some n \<Rightarrow> JInt n | None \<Rightarrow> JNull)])\<rparr>"

definition sample_object :: json where
  "sample_object = JObj [(''type'', JStr ''quote''), (''data'', JObj [(''sequence'', JInt 7)])]"

definition sample_message :: raw_message where
  "sample_message = Text (dump_json sample_object)"

definition sample_message_recorder :: message_recorder where
  "sample_message_recorder = \<lparr>r_writer = sample_writer, r_counters = fresh_counters, r_last_sequence = []\<rparr>"

definition sample_event :: quote_event where
  "sample_event = (quote_of_input sample_input)\<lparr>q_sequence := Some 7\<rparr>"

definition sample_metadata :: object where
  "sample_metadata = [(''source_message_type'', JStr ''quote''), (''stale'', JBool False)]"

lemma sample_parse: "parse_message id sample_codec sample_message = Inr (Some sample_event, sample_metadata)"
proof -
  have "json_ok id sample_object" "strings_ok sample_object"
    by (simp_all add: sample_object_def dict_ok_def int_printable_def digits_limit_def string_of_nat.simps utf8_ok_Cons char_code_def)
  from loads_dumped(1) [OF this]
  have "loads_text id (dump_json sample_object) = Inr (JObj [(''data'', JObj [(''sequence'', JInt 7)]), (''type'', JStr ''quote'')])"
    by (simp add: sample_object_def)
  then show ?thesis
    by (simp add: parse_message_def decode_message_def sample_message_def sample_codec_def jget_def quote_from_message_def
        dget_def dict_get_default_def sample_event_def sample_metadata_def)
qed

lemma sample_codec_ok: "codec_ok id sample_codec"
  by (auto simp: codec_ok_def sample_codec_def dict_ok_def utf8_ok_Cons char_code_def split: option.splits)

lemma sample_sequence:
  "sequence_metadata sample_event (sample_message_recorder\<lparr>r_counters := (r_counters sample_message_recorder)\<lparr>received := received (r_counters sample_message_recorder) + 1\<rparr>\<rparr>) =
     (Some [(''degraded_stream'', JBool False), (''sequence_gap'', JBool False), (''gap_size'', JInt 0)],
      sample_message_recorder\<lparr>r_counters := fresh_counters\<lparr>received := 1\<rparr>, r_last_sequence := [(q_symbol sample_event, 7)]\<rparr>)"
  by (simp add: sequence_metadata_def sample_event_def sample_message_recorder_def fresh_counters_def)

lemma sample_append_fails:
  "writer_write full_disk (quote_record sample_codec sample_event sample_metadata
      [(''degraded_stream'', JBool False), (''sequence_gap'', JBool False), (''gap_size'', JInt 0)]) (r_writer sample_message_recorder) =
     (Inl (OSError ''No space left on device''), sample_writer)"
proof -
  let ?r = "quote_record sample_codec sample_event sample_metadata
      [(''degraded_stream'', JBool False), (''sequence_gap'', JBool False), (''gap_size'', JInt 0)]"
  have r: "?r = [(''symbol'', JStr ''AAPL''), (''sequence'', JInt 7), (''source_message_type'', JStr ''quote''), (''stale'', JBool False),
      (''degraded_stream'', JBool False), (''sequence_gap'', JBool False), (''gap_size'', JInt 0),
      (''event_type'', JStr ''quote''), (''channel'', JStr ''quote'')]"
    by (simp add: quote_record_def dict_update_def sample_codec_def sample_event_def sample_metadata_def)
  have "plain_record ?r" "set (dict_keys ?r) \<inter> set RESERVED_LEDGER_FIELDS = {}"
    unfolding r by (simp_all add: plain_record_def dict_ok_def char_code_def int_printable_def string_of_nat.simps digits_limit_def
        dict_keys_def RESERVED_LEDGER_FIELDS_def)
  from sample_writer_runs(2) [OF sample_writer_ok(1,3,2) _ _ this] show ?thesis
    by (simp add: sample_writer_ok(4) sample_message_recorder_def)
qed

theorem dropped_quote_unrecoverable_witness:
  "\<exists>r2. handle id sample_codec full_disk sample_message sample_message_recorder = (Inl (OSError ''No space left on device''), r2) \<and>
     fst (handle id sample_codec quiet_os sample_message r2) = Inr False \<and>
     fst (sequence_metadata (sample_event\<lparr>q_sequence := Some 8\<rparr>) r2) =
       Some [(''degraded_stream'', JBool False), (''sequence_gap'', JBool False), (''gap_size'', JInt 0)]"
proof -
  have "q_sequence sample_event = Some 7" by (simp add: sample_event_def)
  from dropped_quote_unrecoverable [OF sample_parse this sample_sequence sample_append_fails]
  show ?thesis by (auto simp: sample_event_def)
qed

definition sample_connections :: "connect_attempt list" where
  "sample_connections = [Opened None [(sample_message, full_disk), (sample_message, quiet_os)] None, Refused (OSError ''refused'')]"

lemma uuid_str_visible: "py_strip (uuid_str u) \<noteq> []"
proof -
  have "\<not> py_isspace c" if "hex_char c" for c
    using that by (auto simp: hex_char_def py_isspace_def char_code_def)
  moreover have "\<not> py_isspace CHR ''-''" by (simp add: py_isspace_def char_code_def)
  ultimately have "\<forall>c \<in> set (uuid_str u). \<not> py_isspace c"
    using hex_of_chars by (fastforce simp: uuid_str_def Let_def list_all_iff)
  then have "py_strip (uuid_str u) = uuid_str u" by (rule py_strip_none)
  then show ?thesis by (simp add: uuid_str_def Let_def)
qed

theorem recording_verifies_witness:
  "\<exists>out pauses r v v'. record_websocket id sample_codec 0 ''token'' [''aapl''] [] 0 5 True sample_connections = Inr (out, pauses, r) \<and>
     verify_jsonl_ledger id (Some []) False = Inr v \<and> verify_jsonl_ledger id (Some (w_file (r_writer r))) False = Inr v' \<and>
     records v' = records v + written (r_counters r)"
proof -
  have quiet: "list_all truncates sample_connections"
    by (simp add: sample_connections_def truncates_def full_disk_def quiet_os_def)
  have "\<exists>out pauses r. record_websocket id sample_codec 0 ''token'' [''aapl''] [] 0 5 True sample_connections = Inr (out, pauses, r)"
  proof -
    have "uuid_str 0 \<noteq> []" using uuid_str_visible [of 0] by (auto simp: py_strip_def)
    then have writer: "make_writer 0 None True [] = Inr \<lparr>w_file = [], w_open = False, w_session = uuid_str 0, w_index = 0,
        w_previous = GENESIS_HASH, w_fsync = True\<rparr>"
      using uuid_str_visible [of 0] by (simp add: make_writer_def)
    moreover have "record_symbols [''aapl''] \<noteq> []"
      by (simp add: record_symbols_def py_strip_def py_isspace_def char_code_def)
    ultimately show ?thesis
      by (simp add: record_websocket_def writer_enter_def verify_jsonl_ledger_def split: prod.splits)
  qed
  then obtain out pauses r where run: "record_websocket id sample_codec 0 ''token'' [''aapl''] [] 0 5 True sample_connections = Inr (out, pauses, r)"
    by blast
  from recording_verifies [OF sample_codec_ok quiet run] run show ?thesis by blast
qed

theorem refused_connections_end_witness:
  "\<exists>r'. record_loop id sample_codec 0 2 (replicate 4 (Refused (OSError ''refused''))) 0 sample_message_recorder =
     (Failed (RuntimeError ''gateway recorder exceeded reconnect limit''), [1/2, 1], r') \<and> reconnects (r_counters r') = 3"
proof -
  have "\<exists>r'. record_loop id sample_codec 0 (int 2) (replicate 4 (Refused (OSError ''refused''))) 0 sample_message_recorder =
      (Failed (RuntimeError ''gateway recorder exceeded reconnect limit''), map (\<lambda>k. min 30 (2 ^ k / 2)) [0..<2], r') \<and>
     reconnects (r_counters r') = reconnects (r_counters sample_message_recorder) + int 2 + 1 \<and> r_writer r' = r_writer sample_message_recorder"
    by (rule refused_connections_end) (auto dest!: in_set_takeD)
  then show ?thesis by (auto simp: sample_message_recorder_def fresh_counters_def numeral_2_eq_2)
qed

theorem opened_connections_never_end_witness:
  "\<exists>r'. record_loop id sample_codec 0 1 [Opened None [(sample_message, full_disk)] None, Opened (Some (OSError ''closed'')) [] None] 0 sample_message_recorder =
     (Running, [1/2, 1/2], r')"
proof -
  have "\<exists>r'. record_loop id sample_codec 0 1 [Opened None [(sample_message, full_disk)] None, Opened (Some (OSError ''closed'')) [] None] 0 sample_message_recorder =
     (Running, replicate (length [Opened None [(sample_message, full_disk)] None, Opened (Some (OSError ''closed'')) [] None]) (1 / 2), r')"
    by (rule opened_connections_never_end) auto
  then show ?thesis by (simp only: list.size replicate_Suc) simp
qed

end
