(* ===== verification/Research.thy ===== *)
theory Research
  imports Recorder Coinbase
begin

text \<open>
  The research capture of \<open>research_capture.py\<close>: the checks on symbols, output path and limits, the session that
  records a provider's events straight into the evidence ledger, and the exit of the command.

  The provider is an interface here: what each of its calls does is an input (\<open>provider_run\<close>), and the calls
  that are made are part of the outcome.  A \<open>TimeoutError\<close> is \<open>TimedOut\<close> or \<open>WindowOver\<close>, whether the
  \<open>asyncio.timeout\<close> block or the provider raises it.  Start and finish times, the duration and the printing of
  diagnostics are left out of the result; \<open>fmt\<close> is the format \<open>{x:g}\<close>.

  The lemmas show that a successful capture accounts for every row, that its check of the record count cannot
  fail, that the ledger verifies whatever happens, and that the provider is always disconnected.
\<close>

section \<open>Inputs\<close>

definition normalize_capture_symbols :: "string list \<Rightarrow> string list result" where
  "normalize_capture_symbols symbols =
     (let normalized = sorted_list_of_set (set (map normalize (filter (\<lambda>s. py_strip s \<noteq> []) symbols))) in
      if normalized = [] then Inl (ValueError ''at least one symbol is required'') else Inr normalized)"

text \<open>\<open>Path.suffix\<close> of the last part of a path: from its last dot, unless that is the first or the last character.\<close>

definition path_suffix :: "string \<Rightarrow> string" where
  "path_suffix name =
     (let tail = rev (takeWhile (\<lambda>c. c \<noteq> CHR ''.'') (rev name)) in
      if CHR ''.'' \<in> set name \<and> tail \<noteq> [] \<and> Suc (length tail) < length name then CHR ''.'' # tail else [])"

text \<open>The expanded path is its parts; the file is \<^const>\<open>None\<close> when it does not exist.\<close>

definition validate_private_output :: "string list \<Rightarrow> string option \<Rightarrow> bool \<Rightarrow> unit result" where
  "validate_private_output parts content appending =
     (if parts = [] \<or> py_lower (path_suffix (last parts)) \<noteq> ''.jsonl''
        then Inl (ValueError ''research capture output must use the .jsonl suffix'')
      else if ''recordings'' \<notin> set parts
        then Inl (ValueError ''research capture output must be inside a recordings/ directory'')
      else if (case content of None \<Rightarrow> False | Some t \<Rightarrow> t \<noteq> []) \<and> \<not> appending
        then Inl (ValueError ''output ledger already exists; pass --append to continue its chain'')
      else Inr ())"

record capture_request =
  cq_symbols :: "string list"
  cq_output :: "string list"
  cq_max_records :: int
  cq_max_seconds :: rat
  cq_append :: bool
  cq_fsync :: bool
  cq_connect_timeout :: rat
  cq_subscribe_timeout :: rat

definition check_limits :: "capture_request \<Rightarrow> unit result" where
  "check_limits q =
     (if cq_max_records q < 0 then Inl (ValueError ''max_records must not be negative'')
      else if cq_max_seconds q \<le> 0 then Inl (ValueError ''max_seconds must be positive'')
      else if cq_connect_timeout q \<le> 0 then Inl (ValueError ''connect_timeout must be positive'')
      else if cq_subscribe_timeout q \<le> 0 then Inl (ValueError ''subscribe_timeout must be positive'')
      else Inr ())"

section \<open>A capture\<close>

datatype call_outcome = Returned | Raised error | TimedOut

datatype events_end = EventsEnd | EventsRaise error | WindowOver

record provider_run =
  pr_connect :: call_outcome
  pr_subscribe :: call_outcome
  pr_events :: "(quote_event \<times> os_calls) list"
  pr_end :: events_end
  pr_unsubscribe :: "error option"
  pr_disconnect :: "error option"

datatype provider_call = Connect | Subscribe "string list" | Unsubscribe "string list" | Disconnect

datatype completion_reason = MaxRecords | MaxSeconds | StreamEnded

definition reason_text :: "completion_reason \<Rightarrow> string" where
  "reason_text r = (case r of MaxRecords \<Rightarrow> ''max_records'' | MaxSeconds \<Rightarrow> ''max_seconds'' | StreamEnded \<Rightarrow> ''stream_ended'')"

record capture_result =
  cr_output :: "string list"
  cr_provider :: string
  cr_symbols :: "string list"
  cr_records_written :: int
  cr_ledger_records :: int
  cr_ledger_head_hash :: string
  cr_session_id :: string
  cr_completion_reason :: completion_reason
  cr_complete :: bool
  cr_diagnostic :: "string option"

definition direct_record :: "codec \<Rightarrow> quote_event \<Rightarrow> object" where
  "direct_record c q = dict_update (dump_event c q)
     [(''event_type'', JStr ''quote''), (''channel'', JStr ''quote''), (''source_message_type'', JStr ''provider_direct''),
      (''stale'', JBool False), (''degraded_stream'', JBool False), (''sequence_gap'', JBool False), (''gap_size'', JInt 0)]"

text \<open>\<open>consume\<close> with its timeout: the events until the limit of records, then what ends them.\<close>

primrec consume_events ::
  "codec \<Rightarrow> int \<Rightarrow> events_end \<Rightarrow> (quote_event \<times> os_calls) list \<Rightarrow> int \<Rightarrow> writer \<Rightarrow> completion_reason result \<times> int \<times> writer" where
  "consume_events c max_records ending [] n w =
     ((case ending of EventsEnd \<Rightarrow> Inr StreamEnded | EventsRaise e \<Rightarrow> Inl e | WindowOver \<Rightarrow> Inr MaxSeconds), n, w)"
| "consume_events c max_records ending (x # xs) n w =
     (case writer_write (snd x) (direct_record c (fst x)) w of
        (Inl e, w') \<Rightarrow> (Inl e, n, w')
      | (Inr _, w') \<Rightarrow>
          if 0 < max_records \<and> max_records \<le> n + 1 then (Inr MaxRecords, n + 1, w')
          else consume_events c max_records ending xs (n + 1) w')"

definition exception_name :: "error \<Rightarrow> string" where
  "exception_name e = (case e of ValueError _ \<Rightarrow> ''ValueError'' | _ \<Rightarrow> error_type e)"

text \<open>The inner \<open>try\<close>: connect, subscribe, record; with the calls made, the rows written and the file left.\<close>

definition capture_body ::
  "(string \<Rightarrow> string) \<Rightarrow> (rat \<Rightarrow> string) \<Rightarrow> codec \<Rightarrow> capture_request \<Rightarrow> string list \<Rightarrow> string \<Rightarrow> provider_run \<Rightarrow> string option \<Rightarrow>
     completion_reason result \<times> provider_call list \<times> int \<times> string option" where
  "capture_body fr fmt c q symbols session_id run content =
     (case pr_connect run of
        TimedOut \<Rightarrow> (Inl (RuntimeError (''provider connect exceeded the '' @ fmt (cq_connect_timeout q) @ ''s timeout'')), [Connect], 0, content)
      | Raised e \<Rightarrow> (Inl (RuntimeError (''provider connect failed:'' @ exception_name e)), [Connect], 0, content)
      | Returned \<Rightarrow>
          (case pr_subscribe run of
             TimedOut \<Rightarrow> (Inl (RuntimeError (''provider subscribe exceeded the '' @ fmt (cq_subscribe_timeout q) @ ''s timeout'')),
               [Connect, Subscribe symbols], 0, content)
           | Raised e \<Rightarrow> (Inl (RuntimeError (''provider subscribe failed:'' @ exception_name e)), [Connect, Subscribe symbols], 0, content)
           | Returned \<Rightarrow>
               (case make_writer 0 (Some session_id) (cq_fsync q) (case content of None \<Rightarrow> [] | Some t \<Rightarrow> t) of
                  Inl e \<Rightarrow> (Inl e, [Connect, Subscribe symbols], 0, content)
                | Inr w0 \<Rightarrow>
                    (case writer_enter fr w0 of
                       (Inl e, w) \<Rightarrow> (Inl e, [Connect, Subscribe symbols], 0, Some (w_file w))
                     | (Inr _, w) \<Rightarrow>
                         (let (reason, n, w') = consume_events c (cq_max_records q) (pr_end run) (pr_events run) 0 w
                          in (reason, [Connect, Subscribe symbols], n, Some (w_file w')))))))"

definition capture_provider_session ::
  "(string \<Rightarrow> string) \<Rightarrow> (rat \<Rightarrow> string) \<Rightarrow> codec \<Rightarrow> uuid \<Rightarrow> string \<Rightarrow> capture_request \<Rightarrow> provider_run \<Rightarrow> string option \<Rightarrow>
     capture_result result \<times> provider_call list \<times> string option" where
  "capture_provider_session fr fmt c fresh provider_name q run content =
     (case bindE (normalize_capture_symbols (cq_symbols q)) (\<lambda>symbols.
           bindE (validate_private_output (cq_output q) content (cq_append q)) (\<lambda>_.
           bindE (check_limits q) (\<lambda>_.
           bindE (verify_jsonl_ledger fr content True) (\<lambda>before. Inr (symbols, before))))) of
        Inl e \<Rightarrow> (Inl e, [], content)
      | Inr (symbols, before) \<Rightarrow>
          (let session_id = uuid_str fresh;
               (reason, calls, written, content') = capture_body fr fmt c q symbols session_id run content;
               calls' = calls @ [Unsubscribe symbols, Disconnect];
               outcome = (case (pr_disconnect run, reason) of
                   (Some e, _) \<Rightarrow> Inl e
                 | (None, Inl e) \<Rightarrow> Inl e
                 | (None, Inr completion) \<Rightarrow>
                     if written = 0 then Inl (RuntimeError ''research capture received no market-data events'')
                     else bindE (verify_jsonl_ledger fr content' False) (\<lambda>verification.
                       if records verification \<noteq> records before + written
                       then Inl (RuntimeError ''verified ledger record count does not match the completed capture'')
                       else Inr \<lparr>cr_output = cq_output q, cr_provider = provider_name, cr_symbols = symbols,
                         cr_records_written = written, cr_ledger_records = records verification,
                         cr_ledger_head_hash = head_hash verification, cr_session_id = session_id,
                         cr_completion_reason = completion, cr_complete = (completion = MaxSeconds),
                         cr_diagnostic = (if completion = MaxSeconds then None
                           else Some (''capture ended before the planned '' @ fmt (cq_max_seconds q) @ ''s window: completion_reason='' @
                             reason_text completion @ '', records_written='' @ string_of_int written))\<rparr>))
           in (outcome, calls', content')))"

section \<open>The Coinbase capture and the command\<close>

definition capture_coinbase_research_session ::
  "(string \<Rightarrow> string) \<Rightarrow> (rat \<Rightarrow> string) \<Rightarrow> codec \<Rightarrow> uuid \<Rightarrow> string \<Rightarrow> bool \<Rightarrow> string \<Rightarrow> capture_request \<Rightarrow> provider_run \<Rightarrow>
     string option \<Rightarrow> capture_result result \<times> provider_call list \<times> string option" where
  "capture_coinbase_research_session fr fmt c fresh url terms_accepted environment q run content =
     (case bindE (make_coinbase_config \<lparr>cc_url = url, cc_use_mode = ''personal_research'', cc_terms_accepted = terms_accepted,
               cc_environment = environment, cc_queue_size = 10000, cc_idle_timeout = 15\<rparr>) validate_usage of
        Inl e \<Rightarrow> (Inl e, [], content)
      | Inr _ \<Rightarrow> capture_provider_session fr fmt c fresh ''coinbase-advanced-trade'' q run content)"

text \<open>
  The exit of the command: \<open>Inl\<close> the message of a \<open>SystemExit\<close>, \<open>Inr\<close> a status; \<^const>\<open>None\<close> when an exception
  of another class escapes.  \<open>CoinbaseUsageError\<close> is a \<open>PermissionError\<close> and so an \<open>OSError\<close>.
\<close>

definition reported :: "error \<Rightarrow> bool" where
  "reported e \<longleftrightarrow> is_os_error e \<or> is_value_error e \<or> (case e of RuntimeError _ \<Rightarrow> True | CoinbaseUsageError _ \<Rightarrow> True | _ \<Rightarrow> False)"

definition research_main ::
  "(string \<Rightarrow> string) \<Rightarrow> (rat \<Rightarrow> string) \<Rightarrow> codec \<Rightarrow> uuid \<Rightarrow> string \<Rightarrow> bool \<Rightarrow> string \<Rightarrow> capture_request \<Rightarrow> provider_run \<Rightarrow>
     string option \<Rightarrow> (string + int) option" where
  "research_main fr fmt c fresh url terms_accepted environment q run content =
     (if cq_symbols q = [] then Some (Inl ''smdg-research-capture: provide at least one --symbol'')
      else if \<not> terms_accepted then Some (Inl ''smdg-research-capture: --accept-current-market-data-terms is required'')
      else case capture_coinbase_research_session fr fmt c fresh url terms_accepted environment q run content of
        (Inl e, _) \<Rightarrow> if reported e then Some (Inl (''smdg-research-capture: '' @ error_text e)) else None
      | (Inr result, _) \<Rightarrow> Some (Inr (if cr_complete result then 0 else 1)))"

section \<open>The ledger of a capture\<close>

lemma direct_record_plain:
  assumes "codec_ok fr c"
  shows "json_shape fr (JObj (direct_record c q))" "strings_ok (JObj (direct_record c q))"
proof -
  have "json_shape fr (JObj (dump_event c q))" "strings_ok (JObj (dump_event c q))" using assms by (simp_all only: codec_ok_def)
  then show "json_shape fr (JObj (direct_record c q))" "strings_ok (JObj (direct_record c q))"
    unfolding direct_record_def by (intro plain_update [where fr = fr]; simp add: utf8_ok_Cons char_code_def)+
qed

definition run_truncates :: "provider_run \<Rightarrow> bool" where
  "run_truncates run \<longleftrightarrow> list_all (\<lambda>x. os_truncate (snd x) = None) (pr_events run)"

lemma consume_events_agrees:
  assumes "codec_ok fr c" "list_all (\<lambda>x. os_truncate (snd x) = None) xs" "writer_agrees fr w sc"
    "consume_events c max_records ending xs n w = (y, m, w')"
  shows "\<exists>sc'. writer_agrees fr w' sc' \<and> expected_index sc' - expected_index sc = m - n \<and> n \<le> m \<and>
     (y = Inr MaxRecords \<longrightarrow> 0 < max_records \<and> max_records \<le> m) \<and> (0 < max_records \<and> n < max_records \<longrightarrow> m \<le> max_records)"
  using assms(2-)
proof (induction xs arbitrary: n w sc)
  case Nil
  then show ?case by (intro exI [of _ sc]) (auto split: events_end.splits)
next
  case (Cons x xs)
  obtain y1 w1 where wr: "writer_write (snd x) (direct_record c (fst x)) w = (y1, w1)" by fastforce
  have os: "os_truncate (snd x) = None" using Cons.prems(1) by simp
  from writer_write_agrees [OF Cons.prems(2) direct_record_plain [OF assms(1)] os wr] show ?case
  proof (elim disjE exE conjE)
    fix e assume "y1 = Inl e" "w1 = w"
    with wr Cons.prems show ?thesis by (intro exI [of _ sc]) auto
  next
    fix row digest assume y1: "y1 = Inr row" and agrees: "writer_agrees fr w1 \<lparr>expected_previous = digest,
        expected_index = w_index w + 1, seen_sessions = insert (w_session w) (seen_sessions sc)\<rparr>" (is "writer_agrees fr w1 ?sc1")
    have index: "w_index w = expected_index sc" using Cons.prems(2) by (simp add: writer_agrees_def)
    show ?thesis
    proof (cases "0 < max_records \<and> max_records \<le> n + 1")
      case True
      with wr y1 agrees Cons.prems(3) index show ?thesis by (intro exI [of _ ?sc1]) auto
    next
      case False
      with wr y1 Cons.prems(3) have "consume_events c max_records ending xs (n + 1) w1 = (y, m, w')" by auto
      from Cons.IH [OF _ agrees this] Cons.prems(1) index False show ?thesis by force
    qed
  qed
qed

lemma verify_empty: "verify_jsonl_ledger fr (Some []) m = Inr \<lparr>records = 0, head_hash = GENESIS_HASH, session_ids = []\<rparr>"
  by (simp add: verify_jsonl_ledger_def)

lemma verify_content:
  "verify_jsonl_ledger fr content True = Inr before \<Longrightarrow>
     verify_jsonl_ledger fr (Some (case content of None \<Rightarrow> [] | Some t \<Rightarrow> t)) False = Inr before"
  by (cases content) (auto simp: verify_jsonl_ledger_def)

lemma capture_body_agrees:
  assumes "codec_ok fr c" "run_truncates run" "verify_jsonl_ledger fr content True = Inr before"
    "capture_body fr fmt c q symbols (uuid_str fresh) run content = (y, calls, n, content')"
  shows "(\<exists>v. verify_jsonl_ledger fr content' True = Inr v \<and> records v = records before + n) \<and> 0 \<le> n \<and> (0 < n \<longrightarrow> content' \<noteq> None) \<and>
     (0 < cq_max_records q \<longrightarrow> n \<le> cq_max_records q) \<and> calls \<noteq> [] \<and> hd calls = Connect"
proof (cases "pr_connect run = Returned \<and> pr_subscribe run = Returned")
  case False
  with assms(3,4) show ?thesis
    by (cases "pr_connect run"; cases "pr_subscribe run") (auto simp: capture_body_def)
next
  case True
  let ?t = "case content of None \<Rightarrow> [] | Some t \<Rightarrow> t"
  have "py_strip (uuid_str fresh) \<noteq> [] \<and> uuid_str fresh \<noteq> []" using uuid_str_visible [of fresh] by (auto simp: py_strip_def)
  then obtain w0 where w0: "make_writer 0 (Some (uuid_str fresh)) (cq_fsync q) ?t = Inr w0" "w_file w0 = ?t"
    by (simp add: make_writer_def)
  with verify_content [OF assms(3)] obtain w where w: "writer_enter fr w0 = (Inr (), w)"
    by (simp add: writer_enter_def)
  from writer_enter_agrees [OF w0(1) w] uuid_str_utf8 obtain sc
    where sc: "writer_agrees fr w sc" "verify_jsonl_ledger fr (Some ?t) False = Inr (verification_of sc)" by auto
  then have before: "records before = expected_index sc"
    using verify_content [OF assms(3)] by (simp add: verification_of_def)
  obtain reason m w' where run: "consume_events c (cq_max_records q) (pr_end run) (pr_events run) 0 w = (reason, m, w')"
    by (metis prod_cases3)
  with True assms(4) w0 w have out: "y = reason" "calls = [Connect, Subscribe symbols]" "n = m" "content' = Some (w_file w')"
    by (auto simp: capture_body_def)
  from consume_events_agrees [OF assms(1) assms(2) [unfolded run_truncates_def] sc(1) run] obtain sc'
    where sc': "writer_agrees fr w' sc'" "expected_index sc' - expected_index sc = m" "0 \<le> m"
      "0 < cq_max_records q \<longrightarrow> m \<le> cq_max_records q"
    by auto
  then have "verify_jsonl_ledger fr (Some (w_file w')) True = Inr (verification_of sc')"
    by (auto simp: writer_agrees_def verify_iff_scan)
  with out before sc' show ?thesis by (auto simp: verification_of_def)
qed

lemma verify_exists: "verify_jsonl_ledger fr (Some t) True = verify_jsonl_ledger fr (Some t) False"
  by (simp add: verify_jsonl_ledger_def)

text \<open>The stages of a capture.\<close>

lemma capture_cases:
  assumes "capture_provider_session fr fmt c fresh provider_name q run content = (y, calls, content')"
  obtains (rejected) e where "y = Inl e" "calls = []" "content' = content"
    | (captured) symbols before reason cs n where "verify_jsonl_ledger fr content True = Inr before"
        "capture_body fr fmt c q symbols (uuid_str fresh) run content = (reason, cs, n, content')"
        "calls = cs @ [Unsubscribe symbols, Disconnect]"
        "y = (case (pr_disconnect run, reason) of
             (Some e, _) \<Rightarrow> Inl e
           | (None, Inl e) \<Rightarrow> Inl e
           | (None, Inr completion) \<Rightarrow>
               if n = 0 then Inl (RuntimeError ''research capture received no market-data events'')
               else bindE (verify_jsonl_ledger fr content' False) (\<lambda>verification.
                 if records verification \<noteq> records before + n
                 then Inl (RuntimeError ''verified ledger record count does not match the completed capture'')
                 else Inr \<lparr>cr_output = cq_output q, cr_provider = provider_name, cr_symbols = symbols,
                   cr_records_written = n, cr_ledger_records = records verification,
                   cr_ledger_head_hash = head_hash verification, cr_session_id = uuid_str fresh,
                   cr_completion_reason = completion, cr_complete = (completion = MaxSeconds),
                   cr_diagnostic = (if completion = MaxSeconds then None
                     else Some (''capture ended before the planned '' @ fmt (cq_max_seconds q) @ ''s window: completion_reason='' @
                       reason_text completion @ '', records_written='' @ string_of_int n))\<rparr>))"
proof (cases "bindE (normalize_capture_symbols (cq_symbols q)) (\<lambda>symbols.
           bindE (validate_private_output (cq_output q) content (cq_append q)) (\<lambda>_.
           bindE (check_limits q) (\<lambda>_.
           bindE (verify_jsonl_ledger fr content True) (\<lambda>before. Inr (symbols, before)))))")
  case (Inl e)
  with assms show ?thesis by (intro rejected [of e]) (simp_all add: capture_provider_session_def)
next
  case (Inr p)
  then obtain symbols before where p: "p = (symbols, before)" "verify_jsonl_ledger fr content True = Inr before"
    by (auto simp: bindE_eq_Inr)
  obtain reason cs n f where body: "capture_body fr fmt c q symbols (uuid_str fresh) run content = (reason, cs, n, f)"
    by (metis prod_cases4)
  with Inr p assms have "f = content'" by (simp add: capture_provider_session_def)
  with Inr p assms body show ?thesis
    by (intro captured [of before symbols reason cs n]) (auto simp: capture_provider_session_def)
qed


lemma capture_succeeds:
  assumes "codec_ok fr c" "run_truncates run" "verify_jsonl_ledger fr content True = Inr v"
    "capture_provider_session fr fmt c fresh provider_name q run content = (y, calls, content')"
    "pr_disconnect run = None" "n \<noteq> 0" "capture_body fr fmt c q symbols (uuid_str fresh) run content = (Inr completion, cs, n, content')"
    "calls = cs @ [Unsubscribe symbols, Disconnect]"
  shows "\<exists>result. y = Inr result"
  using assms(4)
proof (cases rule: capture_cases)
  case (captured symbols' before reason cs' m)
  note body = capture_body_agrees [OF assms(1,2) captured(1,2)]
  have "symbols' = symbols" using assms(8) captured(3) by simp
  with assms(5,7) captured(2) have "reason = Inr completion" "n = m" by auto
  with assms(5,6) captured(4) body show ?thesis by (cases content') (auto simp: verify_exists)
qed (use assms(8) in simp)

text \<open>Whatever the provider and the disk do, a capture leaves a ledger that verifies; once it has tried to connect it
  ends by unsubscribing and disconnecting; and when rows were recorded and the provider disconnected, the check of
  the record count passes and the capture succeeds.\<close>

theorem capture_leaves_ledger:
  assumes "codec_ok fr c" "run_truncates run" "verify_jsonl_ledger fr content True = Inr v"
    "capture_provider_session fr fmt c fresh provider_name q run content = (y, calls, content')"
  shows "(\<exists>v'. verify_jsonl_ledger fr content' True = Inr v') \<and>
     (calls = [] \<and> content' = content \<or> hd calls = Connect \<and> last calls = Disconnect) \<and>
     (\<forall>symbols completion cs n. calls = cs @ [Unsubscribe symbols, Disconnect] \<longrightarrow> pr_disconnect run = None \<longrightarrow> n \<noteq> 0 \<longrightarrow>
        capture_body fr fmt c q symbols (uuid_str fresh) run content = (Inr completion, cs, n, content') \<longrightarrow> (\<exists>result. y = Inr result))"
proof -
  have "(\<exists>v'. verify_jsonl_ledger fr content' True = Inr v') \<and> (calls = [] \<and> content' = content \<or> hd calls = Connect \<and> last calls = Disconnect)"
    using assms(4)
  proof (cases rule: capture_cases)
    case (captured symbols before reason cs n)
    note body = capture_body_agrees [OF assms(1,2) captured(1,2)]
    then have "hd calls = Connect \<and> last calls = Disconnect" using captured(3) by (cases cs) auto
    with body show ?thesis by blast
  qed (use assms(3) in auto)
  with capture_succeeds [OF assms] show ?thesis by blast
qed

section \<open>Witnesses\<close>

definition sample_capture_req :: capture_request where
  "sample_capture_req = \<lparr>cq_symbols = [''btc-usd''], cq_output = [''recordings'', ''run.jsonl''], cq_max_records = 100,
     cq_max_seconds = 60, cq_append = False, cq_fsync = True, cq_connect_timeout = 30, cq_subscribe_timeout = 30\<rparr>"

definition sample_run :: provider_run where
  "sample_run = \<lparr>pr_connect = Returned, pr_subscribe = Returned, pr_events = [(sample_event, quiet_os)], pr_end = WindowOver,
     pr_unsubscribe = None, pr_disconnect = None\<rparr>"

lemma sample_run_truncates: "run_truncates sample_run"
  by (simp add: run_truncates_def sample_run_def quiet_os_def)

lemma sample_checks:
  "normalize_capture_symbols [''btc-usd''] = Inr [''BTC-USD'']"
  "validate_private_output [''recordings'', ''run.jsonl''] None False = Inr ()" "check_limits sample_capture_req = Inr ()"
  by code_simp+

lemma uuid_str_ascii: "ascii (uuid_str u)"
  by (simp add: uuid_str_def Let_def hex_of_codes) (simp add: char_code_def)

lemma sample_body:
  "\<exists>f. capture_body id (\<lambda>_. ''60'') sample_codec sample_capture_req [''BTC-USD''] (uuid_str 0) sample_run None =
     (Inr MaxSeconds, [Connect, Subscribe [''BTC-USD'']], 1, Some f)"
proof -
  let ?w = "\<lparr>w_file = [], w_open = True, w_session = uuid_str 0, w_index = 0, w_previous = GENESIS_HASH, w_fsync = True\<rparr>"
  let ?r = "direct_record sample_codec sample_event"
  have r: "?r = [(''symbol'', JStr ''AAPL''), (''sequence'', JInt 7), (''event_type'', JStr ''quote''), (''channel'', JStr ''quote''),
      (''source_message_type'', JStr ''provider_direct''), (''stale'', JBool False), (''degraded_stream'', JBool False),
      (''sequence_gap'', JBool False), (''gap_size'', JInt 0)]"
    by (simp add: direct_record_def dict_update_def sample_codec_def sample_event_def)
  have plain: "plain_record ?r" "set (dict_keys ?r) \<inter> set RESERVED_LEDGER_FIELDS = {}"
    unfolding r by (simp_all add: plain_record_def dict_ok_def char_code_def int_printable_def string_of_nat.simps digits_limit_def
        dict_keys_def RESERVED_LEDGER_FIELDS_def)
  have w: "session_ok ?w" "w_open ?w" "ascii (w_session ?w)"
    using uuid_str_visible uuid_str_utf8 genesis_format uuid_str_ascii by (simp_all add: session_ok_def)
  obtain h w' where run: "writer_write quiet_os ?r ?w = (Inr (hashed_record h ?r ?w), w')"
    using sample_writer_runs(1) [OF w _ _ plain] by auto
  have "uuid_str 0 \<noteq> []" using uuid_str_visible [of 0] by (auto simp: py_strip_def)
  then have made: "make_writer 0 (Some (uuid_str 0)) True [] = Inr (?w\<lparr>w_open := False\<rparr>)" "writer_enter id (?w\<lparr>w_open := False\<rparr>) = (Inr (), ?w)"
    using uuid_str_visible [of 0] by (simp_all add: make_writer_def writer_enter_def verify_empty)
  show ?thesis
    using made run by (simp add: capture_body_def sample_run_def sample_capture_req_def)
qed

lemma sample_capture_req:
  "\<exists>result f. capture_provider_session id (\<lambda>_. ''60'') sample_codec 0 ''coinbase-advanced-trade'' sample_capture_req sample_run None =
     (Inr result, [Connect, Subscribe [''BTC-USD''], Unsubscribe [''BTC-USD''], Disconnect], Some f)"
proof -
  obtain f where body: "capture_body id (\<lambda>_. ''60'') sample_codec sample_capture_req [''BTC-USD''] (uuid_str 0) sample_run None =
     (Inr MaxSeconds, [Connect, Subscribe [''BTC-USD'']], 1, Some f)"
    using sample_body by blast
  obtain y calls content' where cap: "capture_provider_session id (\<lambda>_. ''60'') sample_codec 0 ''coinbase-advanced-trade''
      sample_capture_req sample_run None = (y, calls, content')"
    by (metis prod_cases3)
  have missing: "verify_jsonl_ledger id None True = Inr \<lparr>records = 0, head_hash = GENESIS_HASH, session_ids = []\<rparr>"
    by (simp add: verify_jsonl_ledger_def)
  have calls: "calls = [Connect, Subscribe [''BTC-USD'']] @ [Unsubscribe [''BTC-USD''], Disconnect]" "content' = Some f"
    using cap body sample_checks missing by (auto simp: capture_provider_session_def sample_capture_req_def)
  have "\<exists>result. y = Inr result"
    by (rule capture_succeeds [OF sample_codec_ok sample_run_truncates missing cap _ _ body [folded calls(2)] calls(1)])
       (simp_all add: sample_run_def)
  with cap calls show ?thesis by auto
qed


theorem capture_leaves_ledger_witness:
  "\<exists>y calls f v. capture_provider_session id (\<lambda>_. ''60'') sample_codec 0 ''coinbase-advanced-trade'' sample_capture_req sample_run None =
     (y, calls, f) \<and> verify_jsonl_ledger id f True = Inr v \<and> last calls = Disconnect"
proof -
  obtain result f where run: "capture_provider_session id (\<lambda>_. ''60'') sample_codec 0 ''coinbase-advanced-trade'' sample_capture_req sample_run None =
     (Inr result, [Connect, Subscribe [''BTC-USD''], Unsubscribe [''BTC-USD''], Disconnect], Some f)"
    using sample_capture_req by blast
  have missing: "verify_jsonl_ledger id None True = Inr \<lparr>records = 0, head_hash = GENESIS_HASH, session_ids = []\<rparr>"
    by (simp add: verify_jsonl_ledger_def)
  from capture_leaves_ledger [OF sample_codec_ok sample_run_truncates missing run] run show ?thesis by auto
qed

end
