(* ===== verification/Strings.thy ===== *)
theory Strings
  imports Prelude
begin

text \<open>
  The methods of Python's \<open>str\<close>, on ASCII text, that the monitors and the repository checks use beyond those of
  the prelude: prefixes, suffixes and substrings, \<open>count\<close>, \<open>replace\<close>, \<open>splitlines\<close> and \<open>split\<close>, and the
  stripped non-blank lines that two of the checks work on.
\<close>

section \<open>Substrings\<close>

definition starts_with :: "string \<Rightarrow> string \<Rightarrow> bool" where
  "starts_with p s \<longleftrightarrow> take (length p) s = p"

definition ends_with :: "string \<Rightarrow> string \<Rightarrow> bool" where
  "ends_with p s \<longleftrightarrow> starts_with (rev p) (rev s)"

fun contains :: "string \<Rightarrow> string \<Rightarrow> bool" where
  "contains p [] \<longleftrightarrow> p = []"
| "contains p (c # s) \<longleftrightarrow> starts_with p (c # s) \<or> contains p s"

text \<open>Equations for evaluation, which stop at the first difference.\<close>

lemma starts_with_code [code]:
  "starts_with [] s = True" "starts_with (a # p) [] = False"
  "starts_with (a # p) (b # s) = (if a = b then starts_with p s else False)"
  by (auto simp: starts_with_def)

lemma contains_code [code]:
  "contains p [] = (case p of [] \<Rightarrow> True | _ \<Rightarrow> False)"
  "contains p (c # s) = (if starts_with p (c # s) then True else contains p s)"
  by (auto split: list.splits)

lemma starts_with_iff: "starts_with p s \<longleftrightarrow> (\<exists>r. s = p @ r)"
  unfolding starts_with_def by (metis append_eq_conv_conj append_take_drop_id)

lemma ends_with_iff: "ends_with p s \<longleftrightarrow> (\<exists>r. s = r @ p)"
  by (auto simp: ends_with_def starts_with_iff) (metis rev_append rev_rev_ident)

lemma contains_iff: "contains p s \<longleftrightarrow> (\<exists>a b. s = a @ p @ b)"
proof (induction s)
  case (Cons c s)
  have "(\<exists>a b. c # s = a @ p @ b) \<longleftrightarrow> (\<exists>b. c # s = p @ b) \<or> (\<exists>a b. s = a @ p @ b)"
    by (metis append_Cons append_Nil list.inject neq_Nil_conv)
  with Cons show ?case by (simp add: starts_with_iff)
qed auto

text \<open>\<open>s.count(sub)\<close> and \<open>s.replace(old, new)\<close> for a non-empty pattern: occurrences from the left that do not overlap.\<close>

function count_sub :: "string \<Rightarrow> string \<Rightarrow> nat" where
  "count_sub p [] = 0"
| "count_sub p (c # s) =
     (if starts_with p (c # s) then Suc (count_sub p (drop (length p - 1) s)) else count_sub p s)"
  by pat_completeness auto

termination
  by (relation "measure (length \<circ> snd)") auto

function replace_sub :: "string \<Rightarrow> string \<Rightarrow> string \<Rightarrow> string" where
  "replace_sub old new [] = []"
| "replace_sub old new (c # s) =
     (if starts_with old (c # s) then new @ replace_sub old new (drop (length old - 1) s) else c # replace_sub old new s)"
  by pat_completeness auto

termination
  by (relation "measure (length \<circ> snd \<circ> snd)") auto

lemma count_sub_pos: "p \<noteq> [] \<Longrightarrow> 0 < count_sub p s \<longleftrightarrow> contains p s"
  by (induction p s rule: count_sub.induct) auto

section \<open>Lines and words\<close>

definition is_line_break :: "char \<Rightarrow> bool" where
  "is_line_break c \<longleftrightarrow> (10 \<le> char_code c \<and> char_code c \<le> 13) \<or> (28 \<le> char_code c \<and> char_code c \<le> 30)"

lemma char_code_eq: "char_code c = n \<Longrightarrow> c = char_of n"
  by (auto simp: char_code_def)

lemma blank_chars:
  "char_of (9::nat) = CHR 0x09" "char_of (10::nat) = CHR 0x0A" "char_of (11::nat) = CHR 0x0B" "char_of (12::nat) = CHR 0x0C"
  "char_of (13::nat) = CHR 0x0D" "char_of (28::nat) = CHR 0x1C" "char_of (29::nat) = CHR 0x1D" "char_of (30::nat) = CHR 0x1E"
  "char_of (31::nat) = CHR 0x1F" "char_of (32::nat) = CHR '' ''"
  by code_simp+

lemma is_line_break_code [code]:
  "is_line_break c = (c \<in> set [CHR 0x0A, CHR 0x0D, CHR 0x0B, CHR 0x0C, CHR 0x1C, CHR 0x1D, CHR 0x1E])"
proof
  assume "is_line_break c"
  then have "char_code c = 10 \<or> char_code c = 11 \<or> char_code c = 12 \<or> char_code c = 13 \<or> char_code c = 28 \<or> char_code c = 29
    \<or> char_code c = 30" unfolding is_line_break_def by presburger
  then show "c \<in> set [CHR 0x0A, CHR 0x0D, CHR 0x0B, CHR 0x0C, CHR 0x1C, CHR 0x1D, CHR 0x1E]"
    by (auto dest!: char_code_eq simp: blank_chars)
qed (auto simp: is_line_break_def char_code_def)

lemma py_isspace_code [code]:
  "py_isspace c = (c \<in> set [CHR '' '', CHR 0x0A, CHR 0x0D, CHR 0x09, CHR 0x0B, CHR 0x0C, CHR 0x1C, CHR 0x1D, CHR 0x1E, CHR 0x1F])"
proof
  assume "py_isspace c"
  then have "char_code c = 9 \<or> char_code c = 10 \<or> char_code c = 11 \<or> char_code c = 12 \<or> char_code c = 13 \<or> char_code c = 28
    \<or> char_code c = 29 \<or> char_code c = 30 \<or> char_code c = 31 \<or> char_code c = 32" unfolding py_isspace_def by presburger
  then show "c \<in> set [CHR '' '', CHR 0x0A, CHR 0x0D, CHR 0x09, CHR 0x0B, CHR 0x0C, CHR 0x1C, CHR 0x1D, CHR 0x1E, CHR 0x1F]"
    by (auto dest!: char_code_eq simp: blank_chars)
qed (auto simp: py_isspace_def char_code_def)

text \<open>The rest of a text after its first line break, where a carriage return takes a following line feed along.\<close>

definition after_break :: "string \<Rightarrow> string" where
  "after_break r = (case r of a # b # t \<Rightarrow> if char_code a = 13 \<and> char_code b = 10 then t else b # t | _ \<Rightarrow> [])"

lemma length_after_break: "r \<noteq> [] \<Longrightarrow> length (after_break r) < length r"
  by (auto simp: after_break_def split: list.split)

function splitlines :: "string \<Rightarrow> string list" where
  "splitlines s = (if s = [] then []
     else takeWhile (\<lambda>c. \<not> is_line_break c) s # splitlines (after_break (dropWhile (\<lambda>c. \<not> is_line_break c) s)))"
  by pat_completeness auto

termination
proof (relation "measure length")
  fix s :: string
  assume s: "s \<noteq> []"
  let ?r = "dropWhile (\<lambda>c. \<not> is_line_break c) s"
  have "length (after_break ?r) < length s"
  proof (cases "?r = []")
    case True
    then have "after_break ?r = []" by (simp only: after_break_def list.case)
    with s show ?thesis by simp
  next
    case False
    from length_after_break [OF this] length_dropWhile_le [of "\<lambda>c. \<not> is_line_break c" s] show ?thesis by linarith
  qed
  then show "(after_break ?r, s) \<in> measure length" by simp
qed simp

declare splitlines.simps [simp del]

lemma splitlines_lines: "l \<in> set (splitlines s) \<Longrightarrow> list_all (\<lambda>c. \<not> is_line_break c) l"
proof (induction s rule: splitlines.induct)
  case (1 s)
  have first: "list_all (\<lambda>c. \<not> is_line_break c) (takeWhile (\<lambda>c. \<not> is_line_break c) s)"
    by (auto simp: list_all_iff dest: set_takeWhileD)
  from "1.prems" consider "s \<noteq> []" "l = takeWhile (\<lambda>c. \<not> is_line_break c) s"
    | "s \<noteq> []" "l \<in> set (splitlines (after_break (dropWhile (\<lambda>c. \<not> is_line_break c) s)))"
    by (subst (asm) splitlines.simps) (auto split: if_splits)
  then show ?case using first "1.IH" by cases auto
qed

lemma splitlines_line:
  assumes "list_all (\<lambda>c. \<not> is_line_break c) l"
  shows "splitlines (l @ CHR 0x0A # r) = l # splitlines r"
proof -
  have "is_line_break (CHR 0x0A)" by (simp add: is_line_break_def char_code_def)
  with assms have "takeWhile (\<lambda>c. \<not> is_line_break c) (l @ CHR 0x0A # r) = l" "dropWhile (\<lambda>c. \<not> is_line_break c) (l @ CHR 0x0A # r) = CHR 0x0A # r"
    by (auto simp: list_all_iff takeWhile_append dropWhile_append)
  moreover have "after_break (CHR 0x0A # r) = r"
    by (simp add: after_break_def char_code_def split: list.split)
  ultimately show ?thesis by (subst splitlines.simps) simp
qed

lemma replace_sub_skip: "c \<notin> set l \<Longrightarrow> replace_sub (c # p) new (l @ r) = l @ replace_sub (c # p) new r"
  by (induction l) (auto simp: starts_with_def)

text \<open>\<open>s.split()\<close>: the words between white space.\<close>

function words :: "string \<Rightarrow> string list" where
  "words s = (let t = dropWhile py_isspace s in
     if t = [] then [] else takeWhile (\<lambda>c. \<not> py_isspace c) t # words (dropWhile (\<lambda>c. \<not> py_isspace c) t))"
  by pat_completeness auto

termination
proof (relation "measure length")
  fix s t :: string
  assume t: "t = dropWhile py_isspace s" "t \<noteq> []"
  then have "\<not> py_isspace (hd t)" using hd_dropWhile by metis
  then have "length (dropWhile (\<lambda>c. \<not> py_isspace c) t) < length t"
    using t(2) by (cases t) (auto simp: less_Suc_eq_le length_dropWhile_le)
  moreover have "length t \<le> length s" unfolding t(1) by (rule length_dropWhile_le)
  ultimately show "(dropWhile (\<lambda>c. \<not> py_isspace c) t, s) \<in> measure length" by simp
qed simp

declare words.simps [simp del]

text \<open>\<open>[line.strip() for line in text.splitlines() if line.strip()]\<close>\<close>

definition stripped_lines :: "string \<Rightarrow> string list" where
  "stripped_lines s = filter (\<lambda>l. l \<noteq> []) (map py_strip (splitlines s))"

lemma stripped_lines_line:
  "list_all (\<lambda>c. \<not> is_line_break c) l \<Longrightarrow>
     stripped_lines (l @ CHR 0x0A # r) = (if py_strip l = [] then stripped_lines r else py_strip l # stripped_lines r)"
  by (simp add: stripped_lines_def splitlines_line)

section \<open>Positions\<close>

text \<open>\<open>xs.index(x)\<close> where \<open>x\<close> occurs.\<close>

fun list_index :: "'a \<Rightarrow> 'a list \<Rightarrow> nat" where
  "list_index x [] = 0"
| "list_index x (y # ys) = (if x = y then 0 else Suc (list_index x ys))"

lemma list_index_nth: "x \<in> set xs \<Longrightarrow> list_index x xs < length xs \<and> xs ! list_index x xs = x"
  by (induction xs) auto

lemma list_index_first: "i < list_index x xs \<Longrightarrow> xs ! i \<noteq> x"
  by (induction xs arbitrary: i) (auto simp: nth_Cons split: nat.splits if_splits)

text \<open>\<open>[s.strip().upper() for s in text.split(",") if s.strip()]\<close>, a comma-separated list of symbols.\<close>

definition symbol_list :: "string \<Rightarrow> string list" where
  "symbol_list text = map normalize (filter (\<lambda>s. py_strip s \<noteq> []) (py_split (CHR '','') text))"

lemma symbol_list_normal: "x \<in> set (symbol_list text) \<Longrightarrow> x \<noteq> [] \<and> normalize x = x"
  by (auto simp: symbol_list_def normalize_def normal_simps)

end
