(* ===== verification/Observability.thy ===== *)
theory Observability
  imports Strings
begin

text \<open>
  The health monitor of the candle archive, \<open>archive_observability.py\<close>: it reads the state of the archive's Redis
  consumer group, derives the backlog and how close it is to being trimmed, and exports gauges.

  What Redis answers is an input (\<open>archive_replies\<close>): values are texts, bytes, integers or \<open>None\<close>, and a mapping
  has text or byte keys, as the client is configured.  The gauges are the fields of \<open>archive_gauges\<close>; ratios and
  ages are exact.

  The lemmas show that a sample accounts for the backlog, that no exported age or headroom is negative, and that a
  failing sample changes nothing but the alarm.
\<close>

section \<open>Replies\<close>

datatype reply = RNone | RInt int | RText string | RBytes string

type_synonym reply_map = "(reply \<times> reply) list"

definition mapping_value :: "reply_map \<Rightarrow> string \<Rightarrow> reply \<Rightarrow> reply" where
  "mapping_value m key d = (case map_of m (RText key) of
       Some v \<Rightarrow> v
     | None \<Rightarrow> (case map_of m (RBytes key) of Some v \<Rightarrow> v | None \<Rightarrow> d))"

definition reply_text :: "reply \<Rightarrow> string" where
  "reply_text v = (case v of RBytes s \<Rightarrow> s | RText s \<Rightarrow> s | RInt n \<Rightarrow> string_of_int n | RNone \<Rightarrow> ''None'')"

text \<open>\<open>int(text)\<close>: surrounding blanks, a sign, digits with single underscores between them.\<close>

definition grouped_digits :: "string \<Rightarrow> bool" where
  "grouped_digits s \<longleftrightarrow> list_all (\<lambda>part. part \<noteq> [] \<and> list_all is_digit part) (py_split (CHR ''_'') s)"

definition parse_int :: "string \<Rightarrow> int result" where
  "parse_int s =
     (let t = py_strip s;
          (neg, d) = (case t of c # r \<Rightarrow> if c = CHR ''-'' then (True, r) else if c = CHR ''+'' then (False, r) else (False, t) | [] \<Rightarrow> (False, t))
      in if grouped_digits d
         then Inr (let n = int (nat_of_digits (filter is_digit d)) in if neg then - n else n)
         else Inl (ValueError ''invalid literal for int() with base 10''))"

definition reply_int :: "reply \<Rightarrow> int result" where
  "reply_int v = (case v of RInt n \<Rightarrow> Inr n | RText s \<Rightarrow> parse_int s | RBytes s \<Rightarrow> parse_int s
     | RNone \<Rightarrow> Inl (TypeError ''int() argument must be a string or a number''))"

definition reply_truth :: "reply \<Rightarrow> bool" where
  "reply_truth v = (case v of RNone \<Rightarrow> False | RInt n \<Rightarrow> n \<noteq> 0 | RText s \<Rightarrow> s \<noteq> [] | RBytes s \<Rightarrow> s \<noteq> [])"

text \<open>\<open>int(_mapping_value(m, key, 0) or 0)\<close>\<close>

definition count_value :: "reply_map \<Rightarrow> string \<Rightarrow> int result" where
  "count_value m key = (let v = mapping_value m key (RInt 0) in if reply_truth v then reply_int v else Inr 0)"

section \<open>Ages\<close>

definition stream_id_age_seconds :: "string \<Rightarrow> int \<Rightarrow> rat" where
  "stream_id_age_seconds stream_id now_ms =
     (case parse_int (fst (py_partition (CHR ''-'') stream_id)) of
        Inl _ \<Rightarrow> 0
      | Inr timestamp_ms \<Rightarrow> max 0 (of_int (now_ms - timestamp_ms) / 1000))"

section \<open>Collecting\<close>

record archive_replies =
  xlen_reply :: "int result"
  xinfo_groups_reply :: "reply_map list result"
  xrange_reply :: "string \<Rightarrow> reply list result"
  xpending_reply :: "reply_map list result"

record monitor_config =
  mo_group :: string
  mo_stream_maxlen :: int

record consumer_health =
  stream_length_entries :: int
  group_present :: bool
  consumer_count :: int
  pending_entries :: int
  undelivered_entries :: int
  backlog_entries :: int
  backlog_ratio :: rat
  trim_headroom_entries :: int
  oldest_backlog_age_seconds :: rat

definition first_stream_entry_age_seconds :: "archive_replies \<Rightarrow> string \<Rightarrow> int \<Rightarrow> rat result" where
  "first_stream_entry_age_seconds a minimum now_ms =
     bindE (xrange_reply a minimum) (\<lambda>rows. case rows of
         [] \<Rightarrow> Inr 0
       | row # _ \<Rightarrow> Inr (stream_id_age_seconds (reply_text row) now_ms))"

text \<open>
  \<open>XINFO GROUPS\<close>, where a missing stream counts as one without groups; the server's \<open>ResponseError\<close> is
  \<open>RedisError\<close> with its text here, a lost connection is a \<open>ConnectionError\<close>.
\<close>

definition known_groups :: "archive_replies \<Rightarrow> reply_map list result" where
  "known_groups a = (case xinfo_groups_reply a of
       Inl (RedisError t) \<Rightarrow> if contains ''no such key'' (py_lower t) then Inr [] else Inl (RedisError t)
     | m \<Rightarrow> m)"

definition pending_ages :: "archive_replies \<Rightarrow> int \<Rightarrow> int \<Rightarrow> rat list result" where
  "pending_ages a pending now_ms =
     (if pending = 0 then Inr []
      else bindE (xpending_reply a) (\<lambda>rows. case rows of
          [] \<Rightarrow> Inr []
        | row # _ \<Rightarrow> Inr [stream_id_age_seconds (reply_text (mapping_value row ''message_id'' (RText ''0-0''))) now_ms]))"

definition undelivered_ages :: "archive_replies \<Rightarrow> string \<Rightarrow> int \<Rightarrow> int \<Rightarrow> rat list result" where
  "undelivered_ages a last_delivered_id undelivered now_ms =
     (if undelivered = 0 then Inr []
      else bindE (first_stream_entry_age_seconds a
          (if last_delivered_id = ''0-0'' then ''-'' else CHR ''('' # last_delivered_id) now_ms) (\<lambda>age. Inr [age]))"

definition max_default :: "rat list \<Rightarrow> rat" where
  "max_default ages = (case ages of [] \<Rightarrow> 0 | x # xs \<Rightarrow> foldl max x xs)"

definition health_of :: "int \<Rightarrow> int \<Rightarrow> bool \<Rightarrow> int \<Rightarrow> int \<Rightarrow> int \<Rightarrow> rat \<Rightarrow> consumer_health" where
  "health_of maxlen stream_length present consumers pending undelivered age =
     (let backlog = pending + undelivered in
      \<lparr>stream_length_entries = stream_length, group_present = present, consumer_count = consumers, pending_entries = pending,
       undelivered_entries = undelivered, backlog_entries = backlog, backlog_ratio = of_int backlog / of_int maxlen,
       trim_headroom_entries = max 0 (maxlen - backlog), oldest_backlog_age_seconds = age\<rparr>)"

definition collect_candle_archive_consumer_health :: "monitor_config \<Rightarrow> archive_replies \<Rightarrow> int \<Rightarrow> consumer_health result" where
  "collect_candle_archive_consumer_health cfg a now_ms =
     (let maxlen = max 1 (mo_stream_maxlen cfg) in
      bindE (xlen_reply a) (\<lambda>stream_length.
      bindE (known_groups a) (\<lambda>groups.
      case find (\<lambda>g. reply_text (mapping_value g ''name'' (RText [])) = mo_group cfg) groups of
        None \<Rightarrow>
          bindE (if stream_length \<noteq> 0 then first_stream_entry_age_seconds a ''-'' now_ms else Inr 0) (\<lambda>age.
          Inr (health_of maxlen stream_length False 0 0 stream_length age))
      | Some selected \<Rightarrow>
          bindE (count_value selected ''pending'') (\<lambda>pending.
          (let raw_lag = mapping_value selected ''lag'' RNone in
           if raw_lag = RNone then Inl (ValueError ''Redis did not report archive consumer-group lag'')
           else bindE (reply_int raw_lag) (\<lambda>lag.
             bindE (count_value selected ''consumers'') (\<lambda>consumers.
             bindE (pending_ages a pending now_ms) (\<lambda>ages1.
             bindE (undelivered_ages a (reply_text (mapping_value selected ''last-delivered-id'' (RText ''0-0''))) (max 0 lag) now_ms) (\<lambda>ages2.
             Inr (health_of maxlen stream_length True consumers pending (max 0 lag) (max_default (ages1 @ ages2))))))))))))"

section \<open>The monitor\<close>

record archive_gauges =
  ga_monitor_up :: int
  ga_group_present :: int
  ga_consumers :: int
  ga_stream_length :: int
  ga_pending :: int
  ga_undelivered :: int
  ga_backlog :: int
  ga_backlog_ratio :: rat
  ga_trim_headroom :: int
  ga_oldest_age :: rat
  ga_stream_maxlen :: int
  ga_monitor_errors :: int

text \<open>\<open>CandleArchiveMetrics\<close>: gauges start at zero.\<close>

definition new_gauges :: "monitor_config \<Rightarrow> archive_gauges" where
  "new_gauges cfg = \<lparr>ga_monitor_up = 0, ga_group_present = 0, ga_consumers = 0, ga_stream_length = 0, ga_pending = 0,
     ga_undelivered = 0, ga_backlog = 0, ga_backlog_ratio = 0, ga_trim_headroom = 0, ga_oldest_age = 0,
     ga_stream_maxlen = mo_stream_maxlen cfg, ga_monitor_errors = 0\<rparr>"

record archive_monitor =
  am_gauges :: archive_gauges
  am_last_snapshot :: "consumer_health option"
  am_closed :: bool

definition new_monitor :: "monitor_config \<Rightarrow> archive_monitor" where
  "new_monitor cfg = \<lparr>am_gauges = new_gauges cfg, am_last_snapshot = None, am_closed = False\<rparr>"

definition export_snapshot :: "consumer_health \<Rightarrow> archive_gauges \<Rightarrow> archive_gauges" where
  "export_snapshot h g =
     g\<lparr>ga_monitor_up := 1, ga_group_present := (if group_present h then 1 else 0), ga_consumers := consumer_count h,
       ga_stream_length := stream_length_entries h, ga_pending := pending_entries h, ga_undelivered := undelivered_entries h,
       ga_backlog := backlog_entries h, ga_backlog_ratio := backlog_ratio h, ga_trim_headroom := trim_headroom_entries h,
       ga_oldest_age := oldest_backlog_age_seconds h\<rparr>"

definition monitor_sample :: "monitor_config \<Rightarrow> archive_replies \<Rightarrow> int \<Rightarrow> archive_monitor \<Rightarrow> consumer_health option \<times> archive_monitor" where
  "monitor_sample cfg a now_ms m = (case collect_candle_archive_consumer_health cfg a now_ms of
       Inl _ \<Rightarrow> (None, m\<lparr>am_gauges := (am_gauges m)\<lparr>ga_monitor_up := 0, ga_monitor_errors := ga_monitor_errors (am_gauges m) + 1\<rparr>\<rparr>)
     | Inr h \<Rightarrow> (Some h, m\<lparr>am_last_snapshot := Some h, am_gauges := export_snapshot h (am_gauges m)\<rparr>))"

text \<open>\<open>run\<close>: one sample per interval until the monitor is closed; each entry is what one round sees, and whether
  \<open>close\<close> was called by the time its wait ended.\<close>

definition close_monitor :: "archive_monitor \<Rightarrow> archive_monitor" where
  "close_monitor m = m\<lparr>am_closed := True\<rparr>"

record monitor_round =
  mr_replies :: archive_replies
  mr_now_ms :: int
  mr_closes :: bool

primrec run_monitor :: "monitor_config \<Rightarrow> monitor_round list \<Rightarrow> archive_monitor \<Rightarrow> archive_monitor" where
  "run_monitor cfg [] m = m"
| "run_monitor cfg (x # xs) m =
     (if am_closed m then m
      else let m1 = snd (monitor_sample cfg (mr_replies x) (mr_now_ms x) m)
           in run_monitor cfg xs (if mr_closes x then close_monitor m1 else m1))"

section \<open>What a sample means\<close>

lemma age_nonneg [simp]: "0 \<le> stream_id_age_seconds stream_id now_ms"
  by (simp add: stream_id_age_seconds_def split: sum.split)

lemma foldl_max_nonneg: "0 \<le> (x :: rat) \<Longrightarrow> 0 \<le> foldl max x xs"
  by (induction xs arbitrary: x) (auto simp: le_max_iff_disj)

lemma max_default_nonneg: "list_all (\<lambda>x. 0 \<le> x) ages \<Longrightarrow> 0 \<le> max_default ages"
  by (cases ages) (simp_all add: max_default_def foldl_max_nonneg)

lemma first_age_nonneg: "first_stream_entry_age_seconds a minimum now_ms = Inr age \<Longrightarrow> 0 \<le> age"
  by (auto simp: first_stream_entry_age_seconds_def bindE_def split: sum.splits list.splits)

lemma pending_ages_nonneg: "pending_ages a pending now_ms = Inr ages \<Longrightarrow> list_all (\<lambda>x. 0 \<le> x) ages"
  by (auto simp: pending_ages_def bindE_def split: sum.splits list.splits if_splits)

lemma undelivered_ages_nonneg: "undelivered_ages a i n now_ms = Inr ages \<Longrightarrow> list_all (\<lambda>x. 0 \<le> x) ages"
  by (auto simp: undelivered_ages_def bindE_def first_age_nonneg split: sum.splits list.splits if_splits)

text \<open>What a health record must satisfy for a stream of length \<open>n\<close>.\<close>

definition health_accounts :: "monitor_config \<Rightarrow> int \<Rightarrow> consumer_health \<Rightarrow> bool" where
  "health_accounts cfg n h \<longleftrightarrow>
     stream_length_entries h = n \<and> 0 \<le> undelivered_entries h \<and> 0 \<le> trim_headroom_entries h \<and> 0 \<le> oldest_backlog_age_seconds h
     \<and> backlog_entries h = pending_entries h + undelivered_entries h
     \<and> backlog_ratio h * of_int (max 1 (mo_stream_maxlen cfg)) = of_int (backlog_entries h)
     \<and> trim_headroom_entries h = max 0 (max 1 (mo_stream_maxlen cfg) - backlog_entries h)
     \<and> (\<not> group_present h \<longrightarrow> backlog_entries h = n)"

lemma health_of_accounts:
  assumes "0 \<le> undelivered" and "0 \<le> age" and "\<not> present \<Longrightarrow> pending + undelivered = n"
  shows "health_accounts cfg n (health_of (max 1 (mo_stream_maxlen cfg)) n present consumers pending undelivered age)"
  using assms by (simp add: health_accounts_def health_of_def Let_def)

definition group_listed :: "monitor_config \<Rightarrow> reply_map list \<Rightarrow> bool" where
  "group_listed cfg groups \<longleftrightarrow> list_ex (\<lambda>g. reply_text (mapping_value g ''name'' (RText [])) = mo_group cfg) groups"

lemma collect_accounts:
  assumes "collect_candle_archive_consumer_health cfg a now_ms = Inr h" and "xlen_reply a = Inr n" and "0 \<le> n"
  shows "health_accounts cfg n h"
  using assms
  by (auto simp: collect_candle_archive_consumer_health_def Let_def bindE_def max_default_nonneg first_age_nonneg
      pending_ages_nonneg undelivered_ages_nonneg
      split: sum.splits option.splits if_splits intro!: health_of_accounts)

lemma collect_needs_lag:
  assumes "known_groups a = Inr groups"
    and "find (\<lambda>g. reply_text (mapping_value g ''name'' (RText [])) = mo_group cfg) groups = Some g"
    and "mapping_value g ''lag'' RNone = RNone"
  shows "\<exists>e. collect_candle_archive_consumer_health cfg a now_ms = Inl e"
  using assms by (auto simp: collect_candle_archive_consumer_health_def Let_def bindE_def split: sum.splits)

text \<open>C32: a health sample of the archive either fails, and then only raises the alarm (monitor down, one more error, every
  other gauge and the last snapshot unchanged), or exports a snapshot whose backlog is pending plus undelivered, the whole stream
  when the group is missing, with the headroom what is left of the stream's bound; a group without a reported lag always fails.\<close>

theorem archive_sample_outcome:
  assumes "xlen_reply a = Inr n" and "0 \<le> n"
  shows "(\<exists>e. collect_candle_archive_consumer_health cfg a now_ms = Inl e
            \<and> monitor_sample cfg a now_ms m
                = (None, m\<lparr>am_gauges := (am_gauges m)\<lparr>ga_monitor_up := 0, ga_monitor_errors := ga_monitor_errors (am_gauges m) + 1\<rparr>\<rparr>))
       \<or> (\<exists>h groups. known_groups a = Inr groups \<and> health_accounts cfg n h \<and> group_present h = group_listed cfg groups
            \<and> \<not> (\<exists>g. find (\<lambda>g. reply_text (mapping_value g ''name'' (RText [])) = mo_group cfg) groups = Some g
                   \<and> mapping_value g ''lag'' RNone = RNone)
            \<and> monitor_sample cfg a now_ms m
                = (Some h, m\<lparr>am_last_snapshot := Some h, am_gauges := export_snapshot h (am_gauges m)\<rparr>))"
proof (cases "collect_candle_archive_consumer_health cfg a now_ms")
  case (Inl e)
  then show ?thesis by (simp add: monitor_sample_def)
next
  case (Inr h)
  obtain groups where groups: "known_groups a = Inr groups"
    using Inr assms(1) by (auto simp: collect_candle_archive_consumer_health_def Let_def bindE_def split: sum.splits)
  have "group_present h = group_listed cfg groups"
    using Inr assms(1) groups
    by (auto simp: collect_candle_archive_consumer_health_def group_listed_def Let_def bindE_def health_of_def list_ex_iff find_None_iff find_Some_iff
        split: sum.splits option.splits if_splits)
  moreover have "\<not> (\<exists>g. find (\<lambda>g. reply_text (mapping_value g ''name'' (RText [])) = mo_group cfg) groups = Some g
                   \<and> mapping_value g ''lag'' RNone = RNone)"
    using collect_needs_lag [OF groups, of cfg _ now_ms] Inr by auto
  ultimately show ?thesis
    using Inr groups collect_accounts [OF Inr assms] by (simp add: monitor_sample_def)
qed

text \<open>A group with two pending and three undelivered entries, the oldest eight seconds old.\<close>

definition sample_replies :: archive_replies where
  "sample_replies = \<lparr>xlen_reply = Inr 9,
     xinfo_groups_reply = Inr [[(RBytes ''name'', RBytes ''archive''), (RBytes ''pending'', RInt 2), (RBytes ''lag'', RInt 3),
       (RBytes ''consumers'', RInt 1), (RBytes ''last-delivered-id'', RBytes ''4000-1'')]],
     xrange_reply = (\<lambda>_. Inr [RText ''5000-0'']),
     xpending_reply = Inr [[(RText ''message_id'', RBytes ''2000-0'')]]\<rparr>"

definition sample_health :: consumer_health where
  "sample_health = \<lparr>stream_length_entries = 9, group_present = True, consumer_count = 1, pending_entries = 2, undelivered_entries = 3,
     backlog_entries = 5, backlog_ratio = 1 / 2, trim_headroom_entries = 5, oldest_backlog_age_seconds = 8\<rparr>"

lemma sample_replies_health:
  "collect_candle_archive_consumer_health \<lparr>mo_group = ''archive'', mo_stream_maxlen = 10\<rparr> sample_replies 10000 = Inr sample_health"
  by code_simp

lemma xlen_sample: "xlen_reply sample_replies = Inr 9"
  by (simp add: sample_replies_def)

theorem archive_sample_outcome_witness:
  "health_accounts \<lparr>mo_group = ''archive'', mo_stream_maxlen = 10\<rparr> 9 sample_health
   \<and> fst (monitor_sample \<lparr>mo_group = ''archive'', mo_stream_maxlen = 10\<rparr> sample_replies 10000
       (new_monitor \<lparr>mo_group = ''archive'', mo_stream_maxlen = 10\<rparr>)) = Some sample_health"
  using archive_sample_outcome [of sample_replies 9 "\<lparr>mo_group = ''archive'', mo_stream_maxlen = 10\<rparr>" 10000
      "new_monitor \<lparr>mo_group = ''archive'', mo_stream_maxlen = 10\<rparr>"]
  by (auto simp: sample_replies_health monitor_sample_def xlen_sample)

end
