(* ===== verification/Trust_Root.thy ===== *)
theory Trust_Root
  imports Strings Json_Laws
begin

text \<open>
  The trust root of the repository's causal checks, \<open>scripts/ci/check_causal_trust_root.py\<close>: the protected files
  of a pull request's head must have the blob identities that the manifest of its base names.

  Git is an argument: \<open>git\<close> maps the arguments of a command to its exit code and output.  \<open>TrustRootError\<close> is a
  \<open>RuntimeError\<close> and represented as one, without the detail of a JSON error.  The command line and the file
  with the result are left out.

  The lemmas show what an accepted transition says about the head, and that along a chain of accepted ordinary
  pull requests no protected file changes.
\<close>

section \<open>Git\<close>

record git_result =
  returncode :: int
  stdout :: string
  stderr :: string

type_synonym git = "string list \<Rightarrow> git_result"

definition run_git :: "git \<Rightarrow> string list \<Rightarrow> git_result result" where
  "run_git git args =
     (let r = git args;
          detail = (if py_strip (stderr r) \<noteq> [] then py_strip (stderr r) else py_strip (stdout r))
      in if returncode r \<noteq> 0 then Inl (RuntimeError (''git '' @ join '' '' args @ '' failed: '' @ detail)) else Inr r)"

definition is_sha :: "string \<Rightarrow> bool" where
  "is_sha s \<longleftrightarrow> length s = 40 \<and> list_all (\<lambda>c. is_digit c \<or> 97 \<le> char_code c \<and> char_code c \<le> 102) s"

definition validate_sha :: "string \<Rightarrow> string \<Rightarrow> unit result" where
  "validate_sha label v = (if is_sha v then Inr () else
     Inl (RuntimeError (label @ '' must be an exact lowercase 40-character Git SHA'')))"

definition object_spec :: "string \<Rightarrow> string \<Rightarrow> string" where
  "object_spec commit path = commit @ '':'' @ path"

definition object_exists :: "git \<Rightarrow> string \<Rightarrow> bool" where
  "object_exists git spec \<longleftrightarrow> returncode (git [''cat-file'', ''-e'', spec]) = 0"

definition git_blob :: "git \<Rightarrow> string \<Rightarrow> string \<Rightarrow> string result" where
  "git_blob git commit path =
     bindE (run_git git [''rev-parse'', object_spec commit path]) (\<lambda>r.
     let blob = py_strip (stdout r) in
     if is_sha blob then Inr blob else Inl (RuntimeError (''unexpected blob identity for '' @ path @ '': '' @ blob)))"

definition read_git_file :: "git \<Rightarrow> string \<Rightarrow> string \<Rightarrow> string result" where
  "read_git_file git commit path =
     bindE (run_git git [''show'', object_spec commit path]) (\<lambda>r. Inr (stdout r))"

section \<open>The manifest\<close>

definition REQUIRED_PROTECTED_PATHS :: "string list" where
  "REQUIRED_PROTECTED_PATHS =
     [''.github/CODEOWNERS'', ''.github/pull_request_template.md'', ''.github/workflows/causal-pr-gate.yml'',
      ''.github/workflows/ci.yml'', ''AGENTS.md'', ''docs/ci/CAUSAL_PR_GATE.md'', ''pyproject.toml'',
      ''scripts/ci/build_causal_pr_report.py'', ''scripts/ci/check_causal_workflow_contract.py'',
      ''scripts/ci/check_causal_trust_root.py'', ''tests/test_causal_pr_contract.py'',
      ''tests/test_causal_workflow_contract.py'', ''tests/test_causal_trust_root.py'']"

definition protected_path_ok :: "string \<Rightarrow> bool" where
  "protected_path_ok path \<longleftrightarrow> path \<noteq> [] \<and> \<not> starts_with ''/'' path \<and> ''..'' \<notin> set (py_split (CHR ''/'') path)"

definition add_protected :: "string \<times> json \<Rightarrow> (string, string) dict \<Rightarrow> (string, string) dict result" where
  "add_protected item normalized =
     (let path = py_strip (fst item) in
      case snd item of
        JStr blob \<Rightarrow>
          if \<not> protected_path_ok path then Inl (RuntimeError (''invalid protected path: '' @ fst item))
          else if \<not> is_sha blob then Inl (RuntimeError (''invalid Git blob ID for '' @ path))
          else Inr (dict_set path blob normalized)
      | _ \<Rightarrow> Inl (RuntimeError ''trust-root manifest paths and blob IDs must be strings''))"

primrec add_all :: "(string \<times> json) list \<Rightarrow> (string, string) dict \<Rightarrow> (string, string) dict result" where
  "add_all [] normalized = Inr normalized"
| "add_all (item # items) normalized = bindE (add_protected item normalized) (add_all items)"

definition parse_manifest :: "(string \<Rightarrow> string) \<Rightarrow> string \<Rightarrow> (string, string) dict result" where
  "parse_manifest fr text =
     (case loads_text fr text of
        Inl Malformed \<Rightarrow> Inl (RuntimeError ''trust-root manifest is invalid JSON'')
      | Inl TooManyDigits \<Rightarrow> Inl (ValueError ''Exceeds the limit (4300 digits) for integer string conversion'')
      | Inr (JObj payload) \<Rightarrow>
          if \<not> json_equals_int (jget payload ''schema_version'') 1
          then Inl (RuntimeError ''trust-root manifest must have schema_version 1'')
          else (case jget payload ''protected_files'' of
              JObj protected \<Rightarrow>
                bindE (add_all protected []) (\<lambda>normalized.
                let missing = sort (filter (\<lambda>p. p \<notin> set (dict_keys normalized)) REQUIRED_PROTECTED_PATHS) in
                if missing \<noteq> []
                then Inl (RuntimeError (''trust-root manifest is missing required paths: '' @ join '', '' missing))
                else Inr normalized)
            | _ \<Rightarrow> Inl (RuntimeError ''trust-root manifest protected_files must be an object''))
      | Inr _ \<Rightarrow> Inl (RuntimeError ''trust-root manifest must have schema_version 1''))"

section \<open>A transition\<close>

datatype trust_mode = ESTABLISHED | BOOTSTRAP

record trust_verification =
  tv_mode :: trust_mode
  tv_base_sha :: string
  tv_head_sha :: string
  tv_manifest_path :: string
  tv_manifest_blob :: string
  tv_protected_file_count :: int

definition check_protected :: "git \<Rightarrow> string \<Rightarrow> string \<times> string \<Rightarrow> unit result" where
  "check_protected git head item =
     (let (path, expected) = item in
      if \<not> object_exists git (object_spec head path)
      then Inl (RuntimeError (''protected file is missing from exact head: '' @ path))
      else bindE (git_blob git head path) (\<lambda>actual.
        if actual \<noteq> expected
        then Inl (RuntimeError (''protected file blob mismatch for '' @ path @ '': expected '' @ expected @ '', got '' @ actual))
        else Inr ()))"

text \<open>The manifest that governs the transition: its mode, its text and its blob.\<close>

definition governing_manifest :: "git \<Rightarrow> string \<Rightarrow> string \<Rightarrow> string \<Rightarrow> (trust_mode \<times> string \<times> string) result" where
  "governing_manifest git base head manifest_path =
     (if object_exists git (object_spec base manifest_path) then
        bindE (read_git_file git base manifest_path) (\<lambda>text.
        bindE (git_blob git base manifest_path) (\<lambda>base_blob.
        bindE (git_blob git head manifest_path) (\<lambda>head_blob.
        if head_blob \<noteq> base_blob
        then Inl (RuntimeError ''trust-root manifest changed in an ordinary PR; create an independently reviewed bootstrap PR'')
        else Inr (ESTABLISHED, text, base_blob))))
      else if \<not> object_exists git (object_spec head manifest_path)
        then Inl (RuntimeError ''bootstrap head does not contain the trust-root manifest'')
      else
        bindE (read_git_file git head manifest_path) (\<lambda>text.
        bindE (git_blob git head manifest_path) (\<lambda>blob. Inr (BOOTSTRAP, text, blob))))"

definition verify_transition ::
  "(string \<Rightarrow> string) \<Rightarrow> git \<Rightarrow> string \<Rightarrow> string \<Rightarrow> string \<Rightarrow> trust_verification result" where
  "verify_transition fr git base head manifest_path =
     bindE (validate_sha ''base SHA'' base) (\<lambda>_.
     bindE (validate_sha ''head SHA'' head) (\<lambda>_.
     bindE (run_git git [''cat-file'', ''-e'', base @ ''^{commit}'']) (\<lambda>_.
     bindE (run_git git [''cat-file'', ''-e'', head @ ''^{commit}'']) (\<lambda>_.
     bindE (governing_manifest git base head manifest_path) (\<lambda>(mode, text, blob).
     bindE (parse_manifest fr text) (\<lambda>protected.
     bindE (mapE (check_protected git head) (sort_key fst protected)) (\<lambda>_.
     Inr \<lparr>tv_mode = mode, tv_base_sha = base, tv_head_sha = head, tv_manifest_path = manifest_path,
           tv_manifest_blob = blob, tv_protected_file_count = int (length protected)\<rparr>)))))))"

section \<open>What an accepted transition says\<close>

lemma parse_manifest_required:
  "parse_manifest fr contents = Inr protected \<Longrightarrow> set REQUIRED_PROTECTED_PATHS \<subseteq> set (dict_keys protected)"
  by (auto simp: parse_manifest_def bindE_eq_Inr Let_def set_empty [symmetric] simp del: set_empty
      split: sum.splits json_failure.splits json.splits if_splits)

lemma check_protected_eq_Inr:
  "check_protected git head (path, blob) = Inr () \<longleftrightarrow> object_exists git (object_spec head path) \<and> git_blob git head path = Inr blob"
  by (auto simp: check_protected_def bindE_eq_Inr)

lemma mapE_unit: "mapE f xs = Inr us \<Longrightarrow> x \<in> set xs \<Longrightarrow> f x = Inr (() :: unit)"
  by (induction xs arbitrary: us) (auto simp: bindE_eq_Inr)

lemma mapE_unit_all: "(\<And>x. x \<in> set xs \<Longrightarrow> f x = Inr (() :: unit)) \<Longrightarrow> \<exists>us. mapE f xs = Inr us"
  using mapE_cong_Inr [of xs f "\<lambda>_. ()"] by auto

lemma governing_manifest_eq_Inr:
  "governing_manifest git base head mp = Inr (mode, contents, blob) \<longleftrightarrow>
     (if object_exists git (object_spec base mp)
      then mode = ESTABLISHED \<and> read_git_file git base mp = Inr contents \<and> git_blob git base mp = Inr blob \<and> git_blob git head mp = Inr blob
      else mode = BOOTSTRAP \<and> object_exists git (object_spec head mp) \<and> read_git_file git head mp = Inr contents \<and> git_blob git head mp = Inr blob)"
  by (auto simp: governing_manifest_def bindE_eq_Inr)

text \<open>An accepted head has every file of the governing manifest, with the blob that it names.\<close>

lemma verify_transition_sound:
  assumes "verify_transition fr git base head mp = Inr v"
  shows "\<exists>contents protected. governing_manifest git base head mp = Inr (tv_mode v, contents, tv_manifest_blob v) \<and>
     parse_manifest fr contents = Inr protected \<and>
     (\<forall>(path, blob) \<in> set protected. object_exists git (object_spec head path) \<and> git_blob git head path = Inr blob)"
proof -
  from assms obtain contents protected us where
    "governing_manifest git base head mp = Inr (tv_mode v, contents, tv_manifest_blob v)" "parse_manifest fr contents = Inr protected"
    and us: "mapE (check_protected git head) (sort_key fst protected) = Inr us"
    by (auto simp: verify_transition_def bindE_eq_Inr)
  moreover have "object_exists git (object_spec head path) \<and> git_blob git head path = Inr blob" if "(path, blob) \<in> set protected" for path blob
    using mapE_unit [OF us, of "(path, blob)"] that by (simp add: check_protected_eq_Inr)
  ultimately show ?thesis by blast
qed

section \<open>Chains of pull requests\<close>

definition ordinary_transition :: "(string \<Rightarrow> string) \<Rightarrow> git \<Rightarrow> string \<Rightarrow> string \<Rightarrow> string \<Rightarrow> bool" where
  "ordinary_transition fr git mp base head \<longleftrightarrow>
     (case verify_transition fr git base head mp of Inl _ \<Rightarrow> False | Inr v \<Rightarrow> tv_mode v = ESTABLISHED)"

primrec ordinary_chain :: "(string \<Rightarrow> string) \<Rightarrow> git \<Rightarrow> string \<Rightarrow> string \<Rightarrow> string list \<Rightarrow> bool" where
  "ordinary_chain fr git mp base [] \<longleftrightarrow> True"
| "ordinary_chain fr git mp base (head # heads) \<longleftrightarrow> ordinary_transition fr git mp base head \<and> ordinary_chain fr git mp head heads"

text \<open>Git stores contents by their identity: commits that have the same blob at a path have the same text there.\<close>

definition content_addressed :: "git \<Rightarrow> bool" where
  "content_addressed git \<longleftrightarrow> (\<forall>c d path blob. git_blob git c path = Inr blob \<longrightarrow> git_blob git d path = Inr blob \<longrightarrow>
     read_git_file git c path = read_git_file git d path)"

lemma content_addressed_text:
  "content_addressed git \<Longrightarrow> git_blob git c path = Inr blob \<Longrightarrow> git_blob git d path = Inr blob \<Longrightarrow>
     read_git_file git c path = read_git_file git d path"
  unfolding content_addressed_def by blast

lemma ordinary_transition_governed:
  assumes "ordinary_transition fr git mp base head"
  shows "\<exists>contents protected. read_git_file git base mp = Inr contents \<and> parse_manifest fr contents = Inr protected \<and>
     git_blob git base mp = git_blob git head mp \<and> is_ok (git_blob git head mp) \<and>
     (\<forall>(path, blob) \<in> set protected. git_blob git head path = Inr blob)"
proof -
  from assms obtain v where v: "verify_transition fr git base head mp = Inr v" "tv_mode v = ESTABLISHED"
    by (auto simp: ordinary_transition_def split: sum.splits)
  from verify_transition_sound [OF v(1)] v(2) show ?thesis
    by (fastforce simp: governing_manifest_eq_Inr split: if_splits)
qed

lemma chain_governed:
  assumes "content_addressed git" "ordinary_chain fr git mp base heads"
    "read_git_file git base mp = Inr contents" "parse_manifest fr contents = Inr protected" "head \<in> set heads"
  shows "\<forall>(path, blob) \<in> set protected. git_blob git head path = Inr blob"
  using assms(2-5)
proof (induction heads arbitrary: base)
  case (Cons mid heads)
  from ordinary_transition_governed [of fr git mp base mid] Cons.prems
  have step: "git_blob git base mp = git_blob git mid mp" "is_ok (git_blob git mid mp)"
    "\<forall>(path, blob) \<in> set protected. git_blob git mid path = Inr blob" by auto
  then obtain blob where "git_blob git base mp = Inr blob" "git_blob git mid mp = Inr blob" by (auto simp: is_ok_iff)
  from content_addressed_text [OF assms(1) this] have "read_git_file git mid mp = Inr contents" using Cons.prems(2) by simp
  with Cons step(3) show ?case by auto
qed simp

text \<open>C16: Along any chain of ordinary pull requests that the check accepts, each on top of the head before, no protected
  file changes: every head has, at every path of the first base's manifest and so at every required path, the blob that
  this manifest names.\<close>

theorem trust_root_chain:
  assumes "content_addressed git" "ordinary_chain fr git mp base heads" "heads \<noteq> []"
  shows "\<exists>contents protected. read_git_file git base mp = Inr contents \<and> parse_manifest fr contents = Inr protected \<and>
     set REQUIRED_PROTECTED_PATHS \<subseteq> set (dict_keys protected) \<and>
     (\<forall>head \<in> set heads. \<forall>(path, blob) \<in> set protected. git_blob git head path = Inr blob)"
proof -
  from assms(2,3) obtain head where "ordinary_transition fr git mp base head" by (cases heads) auto
  from ordinary_transition_governed [OF this] obtain contents protected
    where "read_git_file git base mp = Inr contents" "parse_manifest fr contents = Inr protected" by blast
  with parse_manifest_required chain_governed [OF assms(1,2)] show ?thesis by blast
qed

text \<open>
  Whatever makes \<open>git cat-file -e\<close> fail on the manifest of the base counts as its absence, for any base: the head's
  own manifest then decides.
\<close>

lemma bootstrap_any_base:
  assumes "is_sha base" "is_sha head" "returncode (git [''cat-file'', ''-e'', base @ ''^{commit}'']) = 0"
    "returncode (git [''cat-file'', ''-e'', head @ ''^{commit}'']) = 0"
    "\<not> object_exists git (object_spec base mp)" "object_exists git (object_spec head mp)"
    "read_git_file git head mp = Inr contents" "git_blob git head mp = Inr blob" "parse_manifest fr contents = Inr protected"
    "\<And>path b. (path, b) \<in> set protected \<Longrightarrow> object_exists git (object_spec head path) \<and> git_blob git head path = Inr b"
  shows "\<exists>v. verify_transition fr git base head mp = Inr v \<and> tv_mode v = BOOTSTRAP"
proof -
  have "\<exists>us. mapE (check_protected git head) (sort_key fst protected) = Inr us"
    by (rule mapE_unit_all) (use assms(10) in \<open>auto simp: check_protected_eq_Inr\<close>)
  moreover have "governing_manifest git base head mp = Inr (BOOTSTRAP, contents, blob)"
    using assms(5-8) by (simp add: governing_manifest_eq_Inr)
  ultimately show ?thesis
    using assms(1-4,9) by (auto simp: verify_transition_def validate_sha_def run_git_def Let_def)
qed

section \<open>Witness\<close>

text \<open>A repository in which every commit has the same tree: the manifest, and every required file with one blob.\<close>

definition sample_blob :: string where
  "sample_blob = replicate 40 (CHR ''a'')"

definition sample_protected :: "(string, string) dict" where
  "sample_protected = map (\<lambda>p. (p, sample_blob)) (sort REQUIRED_PROTECTED_PATHS)"

definition sample_manifest :: json where
  "sample_manifest = JObj [(''protected_files'', JObj (map (\<lambda>(p, b). (p, JStr b)) sample_protected)), (''schema_version'', JInt 1)]"

definition sample_git :: git where
  "sample_git args = \<lparr>returncode = 0,
     stdout = (if take 1 args = [''rev-parse''] then sample_blob @ [newline_char] else if take 1 args = [''show''] then dump_json sample_manifest else []),
     stderr = []\<rparr>"

lemma sample_git_calls:
  "git_blob sample_git c path = Inr sample_blob" "read_git_file sample_git c path = Inr (dump_json sample_manifest)"
  "object_exists sample_git spec"
proof -
  have "is_sha (py_strip (sample_blob @ [newline_char]))" "py_strip (sample_blob @ [newline_char]) = sample_blob" by code_simp+
  then show "git_blob sample_git c path = Inr sample_blob"
    by (simp add: git_blob_def run_git_def sample_git_def)
qed (simp_all add: read_git_file_def run_git_def sample_git_def object_exists_def)

lemma sample_manifest_parsed: "parse_manifest id (dump_json sample_manifest) = Inr sample_protected"
proof -
  have "json_ok id sample_manifest" "strings_ok sample_manifest" "canon_json sample_manifest = sample_manifest" by code_simp+
  then have "loads_text id (dump_json sample_manifest) = Inr sample_manifest" using loads_dumped(1) by metis
  moreover have "add_all (map (\<lambda>(p, b). (p, JStr b)) sample_protected) [] = Inr sample_protected" by code_simp
  moreover have "filter (\<lambda>p. p \<notin> set (dict_keys sample_protected)) REQUIRED_PROTECTED_PATHS = []" by code_simp
  ultimately show ?thesis by (simp add: parse_manifest_def sample_manifest_def jget_def json_equals_int_def)
qed

lemma sample_transition: "is_sha base \<Longrightarrow> is_sha head \<Longrightarrow> ordinary_transition id sample_git mp base head"
proof -
  assume sha: "is_sha base" "is_sha head"
  have "\<exists>us. mapE (check_protected sample_git head) (sort_key fst sample_protected) = Inr us"
    by (rule mapE_unit_all) (auto simp: check_protected_eq_Inr sample_git_calls sample_protected_def)
  moreover have "governing_manifest sample_git base head mp = Inr (ESTABLISHED, dump_json sample_manifest, sample_blob)"
    by (simp add: governing_manifest_eq_Inr sample_git_calls)
  moreover have "run_git sample_git [''cat-file'', ''-e'', c] = Inr \<lparr>returncode = 0, stdout = [], stderr = []\<rparr>" for c
    by (simp add: run_git_def sample_git_def)
  ultimately show ?thesis
    using sha by (auto simp: ordinary_transition_def verify_transition_def validate_sha_def sample_manifest_parsed)
qed

theorem trust_root_chain_witness:
  "\<exists>protected. parse_manifest id (dump_json sample_manifest) = Inr protected \<and>
     set REQUIRED_PROTECTED_PATHS \<subseteq> set (dict_keys protected) \<and>
     list_all (\<lambda>(path, blob). git_blob sample_git (replicate 40 (CHR ''2'')) path = Inr blob) protected"
proof -
  have "content_addressed sample_git" by (simp add: content_addressed_def sample_git_calls)
  moreover have "is_sha (replicate 40 (CHR ''0''))" "is_sha (replicate 40 (CHR ''1''))" "is_sha (replicate 40 (CHR ''2''))" by code_simp+
  then have "ordinary_chain id sample_git ''trust.json'' (replicate 40 (CHR ''0'')) [replicate 40 (CHR ''1''), replicate 40 (CHR ''2'')]"
    by (simp only: ordinary_chain.simps sample_transition simp_thms)
  ultimately show ?thesis
    using trust_root_chain [of sample_git id "''trust.json''" "replicate 40 (CHR ''0'')" "[replicate 40 (CHR ''1''), replicate 40 (CHR ''2'')]"]
    by (auto simp: sample_git_calls list_all_iff)
qed

end
