(* ===== verification/Workflow_Contract.thy ===== *)
theory Workflow_Contract
  imports Strings Json
begin

text \<open>
  The self-protection contract of the causal gate's workflow, \<open>scripts/ci/check_causal_workflow_contract.py\<close>.

  PyYAML's parser is an argument, \<open>compose\<close>, which gives the node tree of a text; the construction of values from
  nodes with the rejection of duplicate keys is the code's own.  Scalars stay strings, so that a value is a \<open>json\<close>
  value made of strings, arrays and objects.  Nodes have the default tags and no node contains itself.
  \<open>ContractError\<close> is a \<open>RuntimeError\<close> and represented as one.  The command line is left out.

  The lemmas show what the lines of an accepted command are, what an accepted workflow guarantees, and that the
  check of a command does not see an early exit.
\<close>

section \<open>Loading\<close>

datatype yaml_node = Scalar string | Sequence "yaml_node list" | Mapping "(yaml_node \<times> yaml_node) list"

datatype yaml_document = Unreadable | Empty | Document yaml_node

abbreviation contract_error :: "string \<Rightarrow> error" where
  "contract_error \<equiv> RuntimeError"

function (sequential) construct :: "yaml_node \<Rightarrow> json result"
and construct_all :: "yaml_node list \<Rightarrow> json list result"
and construct_mapping :: "(yaml_node \<times> yaml_node) list \<Rightarrow> (string, json) dict \<Rightarrow> json result" where
  "construct (Scalar s) = Inr (JStr s)"
| "construct (Sequence ns) = bindE (construct_all ns) (\<lambda>vs. Inr (JArr vs))"
| "construct (Mapping ps) = construct_mapping ps []"
| "construct_all [] = Inr []"
| "construct_all (n # ns) = bindE (construct n) (\<lambda>v. bindE (construct_all ns) (\<lambda>vs. Inr (v # vs)))"
| "construct_mapping [] mapping = Inr (JObj mapping)"
| "construct_mapping ((k, n) # ps) mapping =
     bindE (construct k) (\<lambda>key. case key of
         JStr s \<Rightarrow>
           if s \<in> set (dict_keys mapping) then Inl (contract_error (''duplicate YAML key: '' @ s))
           else bindE (construct n) (\<lambda>v. construct_mapping ps (dict_set s v mapping))
       | _ \<Rightarrow> Inl (TypeError ''unhashable type''))"
  by pat_completeness auto

termination
  by (relation "measure (case_sum size (case_sum (size_list size) (\<lambda>(ps, m). size_list (size_prod size size) ps)))") auto

definition as_mapping :: "json \<Rightarrow> string \<Rightarrow> (string, json) dict result" where
  "as_mapping v label = (case v of JObj kvs \<Rightarrow> Inr kvs | _ \<Rightarrow> Inl (contract_error (label @ '' must be a mapping'')))"

definition as_list :: "json \<Rightarrow> string \<Rightarrow> json list result" where
  "as_list v label = (case v of JArr xs \<Rightarrow> Inr xs | _ \<Rightarrow> Inl (contract_error (label @ '' must be a list'')))"

definition load_unique_yaml :: "(string \<Rightarrow> yaml_document) \<Rightarrow> string \<Rightarrow> (string, json) dict result" where
  "load_unique_yaml compose text = (case compose text of
       Unreadable \<Rightarrow> Inl (contract_error ''invalid YAML'')
     | Empty \<Rightarrow> as_mapping JNull ''workflow''
     | Document n \<Rightarrow> bindE (construct n) (\<lambda>v. as_mapping v ''workflow''))"

text \<open>\<open>str(mapping.get(key, ""))\<close>\<close>

definition yaml_text :: "(string, json) dict \<Rightarrow> string \<Rightarrow> string" where
  "yaml_text kvs key = py_str (dict_get_default kvs key (JStr []))"

definition has_key :: "string \<Rightarrow> (string, json) dict \<Rightarrow> bool" where
  "has_key key kvs \<longleftrightarrow> key \<in> set (dict_keys kvs)"

text \<open>Equality of two dictionaries of strings, the second given by its items.\<close>

definition dict_equals :: "(string, json) dict \<Rightarrow> (string \<times> string) list \<Rightarrow> bool" where
  "dict_equals kvs items \<longleftrightarrow> length kvs = length items \<and> list_all (\<lambda>(k, s). jget kvs k = JStr s) items"

definition positive_timeout :: "string \<Rightarrow> bool" where
  "positive_timeout s \<longleftrightarrow> (case s of [] \<Rightarrow> False | c # r \<Rightarrow> is_digit c \<and> c \<noteq> CHR ''0'' \<and> list_all is_digit r)"

definition job_steps :: "string \<times> json \<Rightarrow> (string, json) dict list result" where
  "job_steps job =
     bindE (as_mapping (snd job) (''job '' @ fst job)) (\<lambda>kvs.
     bindE (as_list (dict_get_default kvs ''steps'' (JArr [])) (''job '' @ fst job @ '' steps'')) (\<lambda>steps.
     mapE (\<lambda>step. as_mapping step (''job '' @ fst job @ '' step'')) steps))"

definition all_steps :: "(string, json) dict \<Rightarrow> (string, json) dict list result" where
  "all_steps workflow =
     bindE (as_mapping (jget workflow ''jobs'') ''jobs'') (\<lambda>jobs.
     bindE (mapE job_steps jobs) (\<lambda>stepss. Inr (concat stepss)))"

section \<open>Commands\<close>

text \<open>\<open>re.search(r"(?m)^\s*trap(?:\s|$)", text)\<close>: the text and what follows each of its line feeds.\<close>

fun after_newlines :: "string \<Rightarrow> string list" where
  "after_newlines [] = []"
| "after_newlines (c # s) = (if c = CHR 0x0A then s # after_newlines s else after_newlines s)"

definition begins_trap :: "string \<Rightarrow> bool" where
  "begins_trap s \<longleftrightarrow> (let r = dropWhile py_isspace s in
     starts_with ''trap'' r \<and> (case drop 4 r of [] \<Rightarrow> True | c # _ \<Rightarrow> py_isspace c))"

definition has_trap :: "string \<Rightarrow> bool" where
  "has_trap s \<longleftrightarrow> list_ex begins_trap (s # after_newlines s)"

definition forbidden_markers :: "(string \<times> string) list" where
  "forbidden_markers = [(''logical OR'', ''||''), (''logical AND'', ''&&''), (''pipeline'', ''|''), (''command substitution'', ''$(''),
     (''legacy command substitution'', [CHR 0x60]), (''errexit disable'', ''set +e''),
     (''errexit option disable'', ''set +o errexit'')]"

definition reject_shell_failure_masking :: "string \<Rightarrow> string \<Rightarrow> unit result" where
  "reject_shell_failure_masking command label =
     (let normalized = replace_sub [CHR 0x0D, CHR 0x0A] [CHR 0x0A] command;
          lines = stripped_lines normalized
      in case find (\<lambda>(_, marker). contains marker normalized) forbidden_markers of
           Some (description, _) \<Rightarrow> Inl (contract_error (label @ '' contains shell-level failure masking: '' @ description))
         | None \<Rightarrow>
             if has_trap normalized then Inl (contract_error (label @ '' contains shell-level failure masking: error trap''))
             else if lines = [] \<or> hd lines \<noteq> ''set -euo pipefail''
               then Inl (contract_error (label @ '' must begin with set -euo pipefail''))
             else if last lines \<noteq> ''fi'' then Inl (contract_error (label @ '' must end at the fail-closed conditional''))
             else if list_ex (\<lambda>l. l = ''true'' \<or> l = '':'') lines
               then Inl (contract_error (label @ '' contains shell-level failure masking: unconditional success''))
             else Inr ())"

text \<open>The five lines that a command must contain, for a tool and the name it is extracted to.\<close>

definition extraction_line :: "string \<Rightarrow> string" where
  \<open>extraction_line source_path = ''git show "${BASE_SHA}:'' @ source_path @ ''" '' @ [CHR 0x5C]\<close>

definition destination_line :: "string \<Rightarrow> string" where
  \<open>destination_line extracted_name = ''> "${RUNNER_TEMP}/'' @ extracted_name @ ''"''\<close>

definition base_execution_line :: "string \<Rightarrow> string" where
  \<open>base_execution_line extracted_name = ''python "${RUNNER_TEMP}/'' @ extracted_name @ ''" '' @ [CHR 0x5C]\<close>

definition bootstrap_guard_line :: string where
  \<open>bootstrap_guard_line = ''elif [[ "${BASE_SHA}" == "${BOOTSTRAP_BASE_SHA}" ]]; then''\<close>

definition bootstrap_execution_line :: "string \<Rightarrow> string" where
  \<open>bootstrap_execution_line source_path = ''python '' @ source_path @ '' '' @ [CHR 0x5C]\<close>

definition required_once :: "string \<Rightarrow> string \<Rightarrow> (string \<times> string) list" where
  "required_once source_path extracted_name =
     [(''base extraction'', extraction_line source_path), (''fixed extraction destination'', destination_line extracted_name),
      (''fixed base-side execution'', base_execution_line extracted_name), (''exact bootstrap guard'', bootstrap_guard_line),
      (''bootstrap head-side execution'', bootstrap_execution_line source_path)]"

definition masks_failure :: "string \<Rightarrow> bool" where
  "masks_failure line \<longleftrightarrow> CHR '';'' \<in> set line \<or> starts_with ''!'' line \<or> ends_with ''&'' line"

definition check_lines :: "string \<Rightarrow> string \<Rightarrow> string \<Rightarrow> string list \<Rightarrow> unit result" where
  "check_lines label source_path extracted_name lines =
     (case find (\<lambda>(_, line). count_list lines line \<noteq> 1) (required_once source_path extracted_name) of
        Some (description, _) \<Rightarrow> Inl (contract_error (label @ '' must contain exactly one '' @ description))
      | None \<Rightarrow>
          (let extraction_index = list_index (extraction_line source_path) lines;
               destination_index = list_index (destination_line extracted_name) lines;
               base_execution_index = list_index (base_execution_line extracted_name) lines;
               guard_index = list_index bootstrap_guard_line lines;
               bootstrap_execution_index = list_index (bootstrap_execution_line source_path) lines
           in if destination_index \<noteq> extraction_index + 1 \<or> base_execution_index \<noteq> destination_index + 1
              then Inl (contract_error (label @ '' must immediately execute the tool written to the fixed extraction destination''))
              else if \<not> (extraction_index < destination_index \<and> destination_index < base_execution_index \<and>
                  base_execution_index < guard_index \<and> guard_index < bootstrap_execution_index)
              then Inl (contract_error (label @ '' must execute the extracted exact base-SHA tool before the bootstrap branch''))
              else if list_ex masks_failure (drop base_execution_index (take guard_index lines))
              then Inl (contract_error (label @ '' contains shell-level failure masking in the established branch''))
              else if bootstrap_execution_line source_path \<in> set (take guard_index lines)
              then Inl (contract_error (label @ '' must not execute the head-side tool in the established branch''))
              else if ''exit 1'' \<notin> set (drop bootstrap_execution_index lines)
              then Inl (contract_error (label @ '' must fail closed outside the exact bootstrap base''))
              else Inr ()))"

definition require_base_bound_execution :: "string \<Rightarrow> string \<Rightarrow> string \<Rightarrow> string \<Rightarrow> unit result" where
  "require_base_bound_execution command label source_path extracted_name =
     bindE (reject_shell_failure_masking command label) (\<lambda>_.
     check_lines label source_path extracted_name (stripped_lines command))"

section \<open>The workflow\<close>

definition require :: "bool \<Rightarrow> string \<Rightarrow> unit result" where
  "require ok message = (if ok then Inr () else Inl (contract_error message))"

lemma require_eq_Inr [simp]: "require ok message = Inr u \<longleftrightarrow> ok"
  by (simp add: require_def)

definition EXACT_CHECK_NAME :: string where "EXACT_CHECK_NAME = ''Causal PR Gate''"
definition BOOTSTRAP_BASE_SHA :: string where "BOOTSTRAP_BASE_SHA = ''59ff16e72fe856cf9b284427f357a5b4bc409ffb''"

definition REQUIRED_EVENTS :: "string list" where
  "REQUIRED_EVENTS = [''opened'', ''synchronize'', ''reopened'', ''ready_for_review'', ''edited'']"

text \<open>\<open>set(values)\<close>, which raises for values that do not hash.\<close>

definition hash_set :: "json list \<Rightarrow> json list result" where
  "hash_set xs = (if list_all json_hashable xs then Inr xs else Inl (TypeError ''unhashable type''))"

definition check_triggers :: "(string, json) dict \<Rightarrow> string \<Rightarrow> unit result" where
  "check_triggers workflow default_branch =
     bindE (as_mapping (jget workflow ''on'') ''on'') (\<lambda>triggers.
     bindE (require (\<not> has_key ''pull_request_target'' triggers) ''pull_request_target is forbidden'') (\<lambda>_.
     bindE (as_mapping (jget triggers ''pull_request'') ''on.pull_request'') (\<lambda>pull_request.
     bindE (bindE (as_list (jget pull_request ''types'') ''on.pull_request.types'') hash_set) (\<lambda>event_types.
     let missing = sort (filter (\<lambda>e. JStr e \<notin> set event_types) REQUIRED_EVENTS) in
     bindE (require (missing = []) (''pull_request event types missing: '' @ join '', '' missing)) (\<lambda>_.
     bindE (bindE (as_list (jget pull_request ''branches'') ''on.pull_request.branches'') hash_set) (\<lambda>branches.
     require (JStr default_branch \<in> set branches) (''workflow must target default branch '' @ default_branch)))))))"

definition check_concurrency :: "(string, json) dict \<Rightarrow> unit result" where
  "check_concurrency workflow =
     bindE (as_mapping (jget workflow ''concurrency'') ''concurrency'') (\<lambda>concurrency.
     let group = yaml_text concurrency ''group'' in
     bindE (require (contains ''github.workflow'' group \<and> contains ''github.event.pull_request.number'' group)
       ''concurrency group must bind workflow and PR number'') (\<lambda>_.
     require (py_lower (yaml_text concurrency ''cancel-in-progress'') = ''true'') ''concurrency must cancel stale runs''))"

text \<open>The jobs that are mappings with a given name.\<close>

definition jobs_named :: "string \<Rightarrow> (string, json) dict \<Rightarrow> (string, json) dict list" where
  "jobs_named name jobs = concat (map (\<lambda>(_, job). case job of
       JObj kvs \<Rightarrow> if jget kvs ''name'' = JStr name then [kvs] else [] | _ \<Rightarrow> []) jobs)"

definition check_gate_job :: "(string, json) dict \<Rightarrow> unit result" where
  "check_gate_job gate =
     bindE (require (\<not> has_key ''if'' gate) ''Causal PR Gate job must not define an if condition'') (\<lambda>_.
     bindE (require (positive_timeout (yaml_text gate ''timeout-minutes''))
       ''Causal PR Gate job must have a positive ASCII timeout-minutes'') (\<lambda>_.
     bindE (as_mapping (jget gate ''permissions'') ''Causal PR Gate permissions'') (\<lambda>permissions.
     bindE (require (dict_equals permissions [(''contents'', ''read'')])
       ''Causal PR Gate permissions must be exactly contents: read'') (\<lambda>_.
     bindE (as_mapping (jget gate ''env'') ''Causal PR Gate env'') (\<lambda>env.
     require (jget env ''BOOTSTRAP_BASE_SHA'' = JStr BOOTSTRAP_BASE_SHA)
       ''Causal PR Gate must bind the one authorized bootstrap base SHA'')))))"

text \<open>\<open>PINNED_ACTION_RE\<close>: owner, repository and path, and 40 hexadecimal digits after the at sign.\<close>

definition name_char :: "char \<Rightarrow> bool" where
  "name_char c \<longleftrightarrow> is_digit c \<or> (65 \<le> char_code c \<and> char_code c \<le> 90) \<or> (97 \<le> char_code c \<and> char_code c \<le> 122) \<or> c \<in> set ''_.-''"

definition pinned_action :: "string \<Rightarrow> bool" where
  "pinned_action s \<longleftrightarrow>
     (let (action, has_at, commit) = py_partition (CHR ''@'') s;
          (owner, slash, rest) = py_partition (CHR ''/'') action;
          (repository, slash2, path) = py_partition (CHR ''/'') rest
      in has_at \<and> slash \<and> owner \<noteq> [] \<and> list_all name_char owner \<and> repository \<noteq> [] \<and> list_all name_char repository
         \<and> (slash2 \<longrightarrow> path \<noteq> [] \<and> list_all (\<lambda>c. name_char c \<or> c = CHR ''/'') path)
         \<and> length commit = 40 \<and> list_all (\<lambda>c. is_digit c \<or> 97 \<le> char_code c \<and> char_code c \<le> 102) commit)"

definition check_actions :: "(string, json) dict list \<Rightarrow> unit result" where
  "check_actions steps =
     bindE (require (\<not> list_ex (has_key ''continue-on-error'') steps) ''workflow steps must not define continue-on-error'') (\<lambda>_.
     case find (\<lambda>step. has_key ''uses'' step \<and> \<not> pinned_action (py_str (jget step ''uses''))) steps of
       Some step \<Rightarrow> Inl (contract_error (''external action is not pinned to a full commit SHA: '' @ py_str (jget step ''uses'')))
     | None \<Rightarrow> Inr ())"

text \<open>The one step of a list that satisfies a condition.\<close>

definition the_step :: "((string, json) dict \<Rightarrow> bool) \<Rightarrow> (string, json) dict list \<Rightarrow> string \<Rightarrow> (string, json) dict result" where
  "the_step P steps message = (case filter P steps of [step] \<Rightarrow> Inr step | _ \<Rightarrow> Inl (contract_error message))"

definition uses_action :: "string \<Rightarrow> (string, json) dict \<Rightarrow> bool" where
  "uses_action action step \<longleftrightarrow> starts_with action (yaml_text step ''uses'')"

definition runs_tool :: "string \<Rightarrow> (string, json) dict \<Rightarrow> bool" where
  "runs_tool tool step \<longleftrightarrow> contains tool (yaml_text step ''run'')"

definition check_checkout :: "(string, json) dict list \<Rightarrow> unit result" where
  "check_checkout gate_steps =
     bindE (the_step (uses_action ''actions/checkout@'') gate_steps
       ''Causal PR Gate must contain exactly one actions/checkout step'') (\<lambda>step.
     bindE (as_mapping (jget step ''with'') ''checkout with'') (\<lambda>settings.
     bindE (require (jget settings ''ref'' = JStr ''${{ github.event.pull_request.head.sha }}'')
       ''checkout ref must be exact pull_request.head.sha'') (\<lambda>_.
     bindE (require (jget settings ''repository'' = JStr ''${{ github.event.pull_request.head.repo.full_name }}'')
       ''checkout repository must be pull_request.head.repo.full_name'') (\<lambda>_.
     bindE (require (py_lower (yaml_text settings ''persist-credentials'') = ''false'')
       ''checkout must set persist-credentials: false'') (\<lambda>_.
     require (yaml_text settings ''fetch-depth'' = ''0'') ''checkout must use fetch-depth: 0'')))))"

definition require_fragments :: "string \<Rightarrow> string list \<Rightarrow> string \<Rightarrow> unit result" where
  "require_fragments command fragments message =
     (case find (\<lambda>f. count_sub f command \<noteq> 2) fragments of
        Some f \<Rightarrow> Inl (contract_error (message @ f)) | None \<Rightarrow> Inr ())"

definition check_analyzer :: "(string, json) dict list \<Rightarrow> unit result" where
  \<open>check_analyzer gate_steps =
     bindE (the_step (runs_tool ''build_causal_pr_report.py'') gate_steps
       ''workflow must run build_causal_pr_report.py exactly once'') (\<lambda>step.
     let command = yaml_text step ''run'' in
     bindE (require_base_bound_execution command ''causal analyzer selection'' ''scripts/ci/build_causal_pr_report.py''
       ''build_causal_pr_report.base.py'') (\<lambda>_.
     require_fragments command
       [''--base-sha "${{ github.event.pull_request.base.sha }}"'', ''--head-sha "${{ github.event.pull_request.head.sha }}"'',
        ''--event-path "${{ github.event_path }}"'', ''--run-id "${{ github.run_id }}"'',
        ''--run-attempt "${{ github.run_attempt }}"'']
       ''analyzer command must pass provenance in established and bootstrap branches: ''))\<close>

definition check_trust_step :: "(string, json) dict list \<Rightarrow> unit result" where
  \<open>check_trust_step gate_steps =
     bindE (the_step (runs_tool ''check_causal_trust_root.py'') gate_steps
       ''workflow must run check_causal_trust_root.py exactly once'') (\<lambda>step.
     let command = yaml_text step ''run'' in
     bindE (require_base_bound_execution command ''trust-root checker selection'' ''scripts/ci/check_causal_trust_root.py''
       ''check_causal_trust_root.base.py'') (\<lambda>_.
     require_fragments command
       [''--base-sha "${{ github.event.pull_request.base.sha }}"'', ''--head-sha "${{ github.event.pull_request.head.sha }}"'',
        ''--manifest-path .github/causal-trust-root.json'', ''--output artifacts/causal/trust-root-verification.json'']
       ''trust-root command must pass required arguments in both branches: ''))\<close>

definition check_validator_step :: "(string, json) dict list \<Rightarrow> unit result" where
  "check_validator_step gate_steps =
     bindE (the_step (runs_tool ''check_causal_workflow_contract.py'') gate_steps
       ''workflow must run the workflow contract validator exactly once'') (\<lambda>step.
     let command = yaml_text step ''run'' in
     bindE (require_base_bound_execution command ''workflow validator selection'' ''scripts/ci/check_causal_workflow_contract.py''
       ''check_causal_workflow_contract.base.py'') (\<lambda>_.
     require (count_sub ''.github/workflows/causal-pr-gate.yml'' command = 2)
       ''workflow validator must inspect the candidate workflow in both branches''))"

definition check_tests :: "(string, json) dict list \<Rightarrow> unit result" where
  "check_tests gate_steps =
     bindE (the_step (runs_tool ''pytest -o addopts='') gate_steps ''Causal PR Gate must run one targeted pytest step'') (\<lambda>step.
     case find (\<lambda>path. \<not> contains path (yaml_text step ''run''))
         [''tests/test_causal_pr_contract.py'', ''tests/test_causal_trust_root.py'', ''tests/test_causal_workflow_contract.py''] of
       Some path \<Rightarrow> Inl (contract_error (''targeted causal tests missing protected test path: '' @ path))
     | None \<Rightarrow> Inr ())"

definition check_upload :: "(string, json) dict list \<Rightarrow> unit result" where
  "check_upload gate_steps =
     bindE (the_step (uses_action ''actions/upload-artifact@'') gate_steps
       ''Causal PR Gate must upload exactly one evidence artifact'') (\<lambda>step.
     bindE (require (replace_sub '' '' [] (yaml_text step ''if'') \<in> set [''${{always()}}'', ''always()''])
       ''evidence upload must run with always()'') (\<lambda>_.
     bindE (as_mapping (jget step ''with'') ''artifact upload with'') (\<lambda>settings.
     bindE (require (jget settings ''if-no-files-found'' = JStr ''error'')
       ''evidence upload must fail closed with if-no-files-found: error'') (\<lambda>_.
     case find (\<lambda>marker. \<not> contains marker (yaml_text settings ''name''))
         [''github.event.pull_request.head.sha'', ''github.run_id'', ''github.run_attempt''] of
       Some marker \<Rightarrow> Inl (contract_error (''artifact name missing provenance marker '' @ marker))
     | None \<Rightarrow> require (jget settings ''path'' = JStr ''artifacts/causal/'') ''artifact upload path must be artifacts/causal/''))))"

definition check_job :: "string \<times> json \<Rightarrow> unit result" where
  "check_job job =
     bindE (as_mapping (snd job) (''job '' @ fst job)) (\<lambda>kvs.
     bindE (require (positive_timeout (yaml_text kvs ''timeout-minutes''))
       (''job '' @ fst job @ '' must have a positive ASCII timeout-minutes'')) (\<lambda>_.
     require (has_key ''permissions'' kvs) (''job '' @ fst job @ '' must define explicit permissions'')))"

definition check_codeql :: "(string, json) dict \<Rightarrow> unit result" where
  "check_codeql jobs =
     (case jobs_named ''CodeQL'' jobs of
        [codeql] \<Rightarrow>
          bindE (require (jget codeql ''if'' = JStr ''${{ github.event.pull_request.head.repo.fork == false }}'')
            ''CodeQL must explicitly skip fork PRs that cannot receive security-events write'') (\<lambda>_.
          bindE (as_mapping (jget codeql ''permissions'') ''CodeQL permissions'') (\<lambda>permissions.
          require (dict_equals permissions [(''contents'', ''read''), (''packages'', ''read''), (''security-events'', ''write'')])
            ''CodeQL job permissions are not the explicit minimum contract''))
      | _ \<Rightarrow> Inl (contract_error ''workflow must contain one CodeQL job''))"

definition check_gate_steps :: "(string, json) dict list \<Rightarrow> unit result" where
  "check_gate_steps gate_steps =
     bindE (require (list_all (\<lambda>step. uses_action ''actions/upload-artifact@'' step \<or> \<not> has_key ''if'' step) gate_steps)
       ''Causal PR Gate steps must not define if conditions'') (\<lambda>_.
     bindE (check_checkout gate_steps) (\<lambda>_.
     bindE (check_analyzer gate_steps) (\<lambda>_.
     bindE (check_trust_step gate_steps) (\<lambda>_.
     bindE (check_validator_step gate_steps) (\<lambda>_.
     bindE (check_tests gate_steps) (\<lambda>_.
     check_upload gate_steps))))))"

definition quoted :: "string \<Rightarrow> string" where
  "quoted s = [CHR 0x27] @ s @ [CHR 0x27]"

definition validate_jobs :: "(string, json) dict \<Rightarrow> (string, json) dict \<Rightarrow> unit result" where
  "validate_jobs workflow jobs =
     (case jobs_named EXACT_CHECK_NAME jobs of
        [gate] \<Rightarrow>
          bindE (check_gate_job gate) (\<lambda>_.
          bindE (all_steps workflow) (\<lambda>steps.
          bindE (check_actions steps) (\<lambda>_.
          bindE (bindE (as_list (jget gate ''steps'') ''gate steps'') (mapE (\<lambda>step. as_mapping step ''gate step''))) (\<lambda>gate_steps.
          bindE (check_gate_steps gate_steps) (\<lambda>_.
          bindE (mapE check_job jobs) (\<lambda>_.
          check_codeql jobs))))))
      | _ \<Rightarrow> Inl (contract_error (''exactly one job must expose stable check name '' @ quoted EXACT_CHECK_NAME)))"

definition validate_workflow_text :: "(string \<Rightarrow> yaml_document) \<Rightarrow> string \<Rightarrow> string \<Rightarrow> unit result" where
  "validate_workflow_text compose contents default_branch =
     bindE (require (\<not> contains ''pull_request_target'' contents) ''pull_request_target is forbidden'') (\<lambda>_.
     bindE (load_unique_yaml compose contents) (\<lambda>workflow.
     bindE (require (jget workflow ''name'' = JStr EXACT_CHECK_NAME) (''workflow name must remain '' @ quoted EXACT_CHECK_NAME)) (\<lambda>_.
     bindE (require (jget workflow ''permissions'' = JObj []) ''workflow-level permissions must be an empty mapping'') (\<lambda>_.
     bindE (check_triggers workflow default_branch) (\<lambda>_.
     bindE (check_concurrency workflow) (\<lambda>_.
     bindE (as_mapping (jget workflow ''jobs'') ''jobs'') (validate_jobs workflow)))))))"

section \<open>The lines of an accepted command\<close>

lemma find_case_eq_Inr:
  "(case find P xs of Some x \<Rightarrow> Inl (f x) | None \<Rightarrow> m) = Inr y \<longleftrightarrow> list_all (\<lambda>x. \<not> P x) xs \<and> m = Inr y"
  by (induction xs) auto

lemma count_list_in: "count_list xs x = 1 \<Longrightarrow> x \<in> set xs"
  by (metis count_notin zero_neq_one)

lemma drop_split:
  assumes "i \<le> j" "j < length xs"
  shows "drop i xs = take (j - i) (drop i xs) @ xs ! j # drop (Suc j) xs"
  using id_take_nth_drop [of "j - i" "drop i xs"] assms by simp

lemma check_lines_eq_Inr:
  "check_lines label src name lines = Inr () \<longleftrightarrow>
     list_all (\<lambda>(_, line). count_list lines line = 1) (required_once src name) \<and>
     list_index (destination_line name) lines = list_index (extraction_line src) lines + 1 \<and>
     list_index (base_execution_line name) lines = list_index (extraction_line src) lines + 2 \<and>
     list_index (base_execution_line name) lines < list_index bootstrap_guard_line lines \<and>
     list_index bootstrap_guard_line lines < list_index (bootstrap_execution_line src) lines \<and>
     \<not> list_ex masks_failure (drop (list_index (base_execution_line name) lines) (take (list_index bootstrap_guard_line lines) lines)) \<and>
     bootstrap_execution_line src \<notin> set (take (list_index bootstrap_guard_line lines) lines) \<and>
     ''exit 1'' \<in> set (drop (list_index (bootstrap_execution_line src) lines) lines)"
  unfolding check_lines_def case_prod_unfold find_case_eq_Inr by (auto simp: Let_def split: if_splits)

text \<open>An accepted command extracts the tool of the base commit, writes it to its fixed place and runs it, in three successive
  lines; up to the bootstrap guard no line masks a failure or runs the head's own tool, which occurs once, after the guard,
  and is followed by a failing exit.\<close>

theorem base_bound_command:
  assumes "require_base_bound_execution command label src name = Inr ()"
  shows "\<exists>pre mid others rest. stripped_lines command =
       pre @ [extraction_line src, destination_line name, base_execution_line name] @ mid @ [bootstrap_guard_line] @
       others @ [bootstrap_execution_line src] @ rest \<and>
     list_all (\<lambda>l. \<not> masks_failure l) mid \<and> bootstrap_execution_line src \<notin> set (pre @ mid @ others @ rest) \<and> ''exit 1'' \<in> set rest"
proof -
  define lines where "lines = stripped_lines command"
  let ?x = "extraction_line src" and ?d = "destination_line name" and ?b = "base_execution_line name"
  let ?g = bootstrap_guard_line and ?h = "bootstrap_execution_line src"
  have checks: "check_lines label src name lines = Inr ()"
    using assms by (auto simp: require_base_bound_execution_def lines_def bindE_eq_Inr)
  note c = iffD1 [OF check_lines_eq_Inr checks]
  have once: "count_list lines l = 1" if "l \<in> {?x, ?d, ?b, ?g, ?h}" for l
    using c that by (auto simp: required_once_def)
  note at = list_index_nth [OF count_list_in [OF once]]
  define i where "i = list_index ?x lines"
  define g where "g = list_index ?g lines"
  define h where "h = list_index ?h lines"
  have pos: "lines ! i = ?x" "lines ! Suc i = ?d" "lines ! Suc (Suc i) = ?b" "lines ! g = ?g" "lines ! h = ?h"
    "Suc (Suc i) < g" "g < h" "h < length lines"
    using at [of ?x] at [of ?d] at [of ?b] at [of ?g] at [of ?h] c by (auto simp: i_def g_def h_def)
  define pre where "pre = take i lines"
  define mid where "mid = take (g - Suc (Suc (Suc i))) (drop (Suc (Suc (Suc i))) lines)"
  define others where "others = take (h - Suc g) (drop (Suc g) lines)"
  define rest where "rest = drop (Suc h) lines"
  have decomposed: "lines = pre @ [?x, ?d, ?b] @ mid @ [?g] @ others @ [?h] @ rest"
  proof -
    have "drop (Suc g) lines = others @ [?h] @ rest"
      using drop_split [of "Suc g" h lines] pos by (simp add: others_def rest_def)
    moreover have "drop (Suc (Suc (Suc i))) lines = mid @ [?g] @ drop (Suc g) lines"
      using drop_split [of "Suc (Suc (Suc i))" g lines] pos by (simp add: mid_def)
    moreover have "lines = pre @ [?x, ?d, ?b] @ drop (Suc (Suc (Suc i))) lines"
      using id_take_nth_drop [of i lines] pos Cons_nth_drop_Suc [of "Suc i" lines] Cons_nth_drop_Suc [of "Suc (Suc i)" lines]
      by (simp add: pre_def)
    ultimately show ?thesis by simp
  qed
  have "drop (Suc (Suc i)) (take g lines) = ?b # mid"
    using pos Cons_nth_drop_Suc [of "Suc (Suc i)" "take g lines"] by (simp add: mid_def drop_take)
  then have "list_all (\<lambda>l. \<not> masks_failure l) mid"
    using c by (auto simp: i_def g_def list_all_iff list_ex_iff)
  moreover have "?h \<notin> set (pre @ mid @ others @ rest)"
  proof -
    have "count_list (pre @ mid @ others @ rest) ?h + 1 \<le> count_list lines ?h" by (subst decomposed) simp
    with once [of ?h] show ?thesis by (simp add: count_list_0_iff)
  qed
  moreover have "''exit 1'' \<in> set rest"
  proof -
    have "''exit 1'' \<noteq> ?h" by (simp add: bootstrap_execution_line_def)
    moreover have "drop h lines = ?h # rest" using pos Cons_nth_drop_Suc [of h lines] by (simp add: rest_def)
    moreover have "''exit 1'' \<in> set (drop h lines)" using c by (simp add: h_def)
    ultimately show ?thesis by auto
  qed
  ultimately show ?thesis using decomposed lines_def by metis
qed

section \<open>An early exit\<close>

definition head_line :: string where
  "head_line = ''set -euo pipefail''"

definition exit_line :: string where
  "exit_line = ''exit 0''"

text \<open>A command that begins with the required line, and the same with an exit right after it.\<close>

definition begun :: "string \<Rightarrow> string" where
  "begun body = head_line @ CHR 0x0A # body"

definition disarmed :: "string \<Rightarrow> string" where
  "disarmed body = head_line @ CHR 0x0A # exit_line @ CHR 0x0A # body"

lemma plain_lines:
  "list_all (\<lambda>c. \<not> is_line_break c) head_line" "list_all (\<lambda>c. \<not> is_line_break c) exit_line"
  "CHR 0x0D \<notin> set head_line" "CHR 0x0D \<notin> set exit_line" "py_strip head_line = head_line" "py_strip exit_line = exit_line"
  by code_simp+

lemma disarmed_lines:
  "stripped_lines (begun body) = head_line # stripped_lines body"
  "stripped_lines (disarmed body) = head_line # exit_line # stripped_lines body"
  using plain_lines by (simp_all add: begun_def disarmed_def stripped_lines_line) (simp_all add: head_line_def exit_line_def)

lemma disarmed_normalized:
  "replace_sub [CHR 0x0D, CHR 0x0A] new (begun body) = begun (replace_sub [CHR 0x0D, CHR 0x0A] new body)"
  "replace_sub [CHR 0x0D, CHR 0x0A] new (disarmed body) = disarmed (replace_sub [CHR 0x0D, CHR 0x0A] new body)"
  using plain_lines(3,4) by (simp_all add: begun_def disarmed_def replace_sub_skip starts_with_def)

lemma contains_skip: "c \<notin> set l \<Longrightarrow> contains (c # p) (l @ r) = contains (c # p) r"
  by (induction l) (auto simp: starts_with_def)

lemma markers_form:
  "list_all (\<lambda>(_, m). m \<noteq> [] \<and> hd m \<notin> set (exit_line @ [CHR 0x0A]) \<and> (take 5 m = ''set +'' \<or> hd m \<notin> set (head_line @ [CHR 0x0A])))
     forbidden_markers"
  by code_simp

lemma markers_skip:
  assumes "(description, marker) \<in> set forbidden_markers"
  shows "contains marker (head_line @ CHR 0x0A # r) = contains marker r" "contains marker (exit_line @ CHR 0x0A # r) = contains marker r"
proof -
  obtain c p where marker: "marker = c # p" and c: "take 5 (c # p) = ''set +'' \<or> c \<notin> set (head_line @ [CHR 0x0A])"
      "c \<notin> set (exit_line @ [CHR 0x0A])"
    using markers_form assms by (cases marker) (fastforce simp: list_all_iff)+
  show "contains marker (exit_line @ CHR 0x0A # r) = contains marker r"
    using contains_skip [OF c(2), of p r] by (simp only: marker append_assoc append_Cons append_Nil)
  from c(1) show "contains marker (head_line @ CHR 0x0A # r) = contains marker r"
  proof
    assume p: "take 5 (c # p) = ''set +''"
    then have c: "c = CHR ''s''" by simp
    have "5 \<le> length (c # p)" using arg_cong [OF p, of length] by simp
    then have "take 5 (take (length (c # p)) (head_line @ CHR 0x0A # r)) = take 5 (head_line @ CHR 0x0A # r)"
      by (simp only: take_take min_absorb1)
    moreover have "take 5 (head_line @ CHR 0x0A # r) = ''set -''" by (simp add: head_line_def)
    ultimately have prefix: "take 5 (take (length (c # p)) (head_line @ CHR 0x0A # r)) = ''set -''" by (simp only:)
    have "\<not> starts_with (c # p) (head_line @ CHR 0x0A # r)"
    proof
      assume "starts_with (c # p) (head_line @ CHR 0x0A # r)"
      then have "take (length (c # p)) (head_line @ CHR 0x0A # r) = c # p" by (simp only: starts_with_def)
      with prefix p have "''set +'' = ''set -''" by (simp only:)
      then show False by simp
    qed
    then have "\<not> starts_with (c # p) (CHR ''s'' # ''et -euo pipefail'' @ CHR 0x0A # r)"
      by (simp only: head_line_def append_Cons simp_thms)
    moreover have "c \<notin> set (''et -euo pipefail'' @ [CHR 0x0A])" by (simp add: c)
    from contains_skip [OF this, of p r] have "contains (c # p) (''et -euo pipefail'' @ CHR 0x0A # r) = contains (c # p) r" by simp
    ultimately have "contains (c # p) (CHR ''s'' # ''et -euo pipefail'' @ CHR 0x0A # r) = contains (c # p) r"
      by (simp only: contains.simps simp_thms)
    then show ?thesis by (simp only: marker head_line_def append_Cons)
  qed (use contains_skip [of c "head_line @ [CHR 0x0A]" p r] marker in simp)
qed

lemma disarmed_markers:
  "(description, marker) \<in> set forbidden_markers \<Longrightarrow> contains marker (disarmed body) = contains marker (begun body)"
  by (simp only: disarmed_def begun_def markers_skip)

lemma after_newlines_line: "CHR 0x0A \<notin> set l \<Longrightarrow> after_newlines (l @ CHR 0x0A # r) = r # after_newlines r"
  by (induction l) auto

lemma disarmed_trap: "has_trap (disarmed body) = has_trap (begun body)"
proof -
  have "\<not> begins_trap (head_line @ r)" "\<not> begins_trap (exit_line @ r)" for r
    by (simp_all add: begins_trap_def head_line_def exit_line_def starts_with_def py_isspace_def char_code_def)
  moreover have "CHR 0x0A \<notin> set head_line" "CHR 0x0A \<notin> set exit_line" by code_simp+
  ultimately show ?thesis by (simp add: has_trap_def disarmed_def begun_def after_newlines_line)
qed

lemma disarmed_masking:
  assumes "reject_shell_failure_masking (begun body) label = Inr ()"
  shows "reject_shell_failure_masking (disarmed body) label = Inr ()"
proof -
  let ?body = "replace_sub [CHR 0x0D, CHR 0x0A] [CHR 0x0A] body"
  have same: "list_all (\<lambda>(_, marker). \<not> contains marker (disarmed ?body)) forbidden_markers =
      list_all (\<lambda>(_, marker). \<not> contains marker (begun ?body)) forbidden_markers"
    by (rule list.pred_cong) (auto simp: disarmed_markers)
  have "head_line \<noteq> ''fi''" "exit_line \<noteq> ''true''" "exit_line \<noteq> '':''" by (simp_all add: head_line_def exit_line_def)
  with assms show ?thesis
    unfolding reject_shell_failure_masking_def disarmed_normalized Let_def case_prod_unfold find_case_eq_Inr disarmed_lines disarmed_trap
    using same by (auto simp: case_prod_unfold split: if_splits)
qed

lemma required_lines_other:
  "list_all (\<lambda>(_, line). line \<noteq> head_line \<and> line \<noteq> exit_line) (required_once src name)"
  by (simp add: required_once_def extraction_line_def destination_line_def base_execution_line_def bootstrap_guard_line_def
      bootstrap_execution_line_def head_line_def exit_line_def)

lemma disarmed_checks:
  assumes "check_lines label src name (head_line # ls) = Inr ()"
  shows "check_lines label src name (head_line # exit_line # ls) = Inr ()"
proof -
  note other = required_lines_other [of src name]
  have "count_list (head_line # exit_line # ls) (snd p) = count_list (head_line # ls) (snd p)" if "p \<in> set (required_once src name)" for p
    using other that by (fastforce simp: list_all_iff)
  then have "list_all (\<lambda>(_, line). count_list (head_line # exit_line # ls) line = 1) (required_once src name) =
      list_all (\<lambda>(_, line). count_list (head_line # ls) line = 1) (required_once src name)"
    by (intro list.pred_cong) (auto simp del: count_list.simps)
  moreover have "list_index l (head_line # exit_line # ls) = Suc (list_index l (head_line # ls))"
    if "l \<noteq> head_line \<and> l \<noteq> exit_line" for l using that by simp
  moreover have "list_index l (head_line # ls) = Suc (list_index l ls)" if "l \<noteq> head_line \<and> l \<noteq> exit_line" for l using that by simp
  moreover have "extraction_line src \<noteq> head_line \<and> extraction_line src \<noteq> exit_line" "destination_line name \<noteq> head_line \<and> destination_line name \<noteq> exit_line"
    "base_execution_line name \<noteq> head_line \<and> base_execution_line name \<noteq> exit_line" "bootstrap_guard_line \<noteq> head_line \<and> bootstrap_guard_line \<noteq> exit_line"
    "bootstrap_execution_line src \<noteq> head_line \<and> bootstrap_execution_line src \<noteq> exit_line"
    using other by (simp_all add: required_once_def)
  ultimately show ?thesis
    using assms unfolding check_lines_eq_Inr by (clarsimp simp del: list_index.simps count_list.simps)
qed

text \<open>C40: The check does not see an early exit: an accepted command is still accepted with \<open>exit 0\<close> as its second line,
  with which it succeeds without running any tool.\<close>

theorem early_exit_accepted:
  assumes "require_base_bound_execution (begun body) label src name = Inr ()"
  shows "require_base_bound_execution (disarmed body) label src name = Inr ()"
  using assms disarmed_masking disarmed_checks
  by (auto simp: require_base_bound_execution_def bindE_eq_Inr disarmed_lines)

section \<open>An accepted workflow\<close>

lemma as_mapping_eq_Inr [simp]: "as_mapping v label = Inr kvs \<longleftrightarrow> v = JObj kvs"
  by (cases v) (auto simp: as_mapping_def)

lemma as_list_eq_Inr [simp]: "as_list v label = Inr xs \<longleftrightarrow> v = JArr xs"
  by (cases v) (auto simp: as_list_def)

lemma the_step_eq_Inr: "the_step P steps message = Inr step \<longleftrightarrow> filter P steps = [step]"
  by (auto simp: the_step_def split: list.splits)

lemma mapE_mapping: "mapE (\<lambda>v. as_mapping v label) vs = Inr ds \<longleftrightarrow> vs = map JObj ds"
  by (induction vs arbitrary: ds) (auto simp: bindE_eq_Inr)

text \<open>What holds of a step of any job.\<close>

definition step_ok :: "(string, json) dict \<Rightarrow> bool" where
  "step_ok step \<longleftrightarrow> \<not> has_key ''continue-on-error'' step \<and> (has_key ''uses'' step \<longrightarrow> pinned_action (py_str (jget step ''uses'')))"

lemma check_actions_eq_Inr: "check_actions steps = Inr () \<longleftrightarrow> list_all step_ok steps"
  unfolding check_actions_def bindE_eq_Inr require_eq_Inr find_case_eq_Inr step_ok_def list_all_iff list_ex_iff by auto

definition job_ok :: "(string, json) dict \<Rightarrow> bool" where
  "job_ok job \<longleftrightarrow> positive_timeout (yaml_text job ''timeout-minutes'') \<and> has_key ''permissions'' job \<and>
     (\<exists>steps. dict_get_default job ''steps'' (JArr []) = JArr (map JObj steps) \<and> list_all step_ok steps)"

text \<open>A tool runs in one step of the gate, unconditionally, as extracted from the base commit.\<close>

definition tool_bound :: "(string, json) dict list \<Rightarrow> string \<Rightarrow> bool" where
  "tool_bound gate_steps tool \<longleftrightarrow> (\<exists>step label. filter (runs_tool (tool @ ''.py'')) gate_steps = [step] \<and>
     require_base_bound_execution (yaml_text step ''run'') label (''scripts/ci/'' @ tool @ ''.py'') (tool @ ''.base.py'') = Inr ())"

lemma check_gate_steps_tools:
  assumes "check_gate_steps gate_steps = Inr ()"
  shows "list_all (tool_bound gate_steps) [''build_causal_pr_report'', ''check_causal_trust_root'', ''check_causal_workflow_contract'']"
proof -
  have "check_analyzer gate_steps = Inr ()" "check_trust_step gate_steps = Inr ()" "check_validator_step gate_steps = Inr ()"
    using assms by (simp_all add: check_gate_steps_def bindE_eq_Inr)
  then show ?thesis
    unfolding check_analyzer_def check_trust_step_def check_validator_step_def
    by (auto simp: tool_bound_def bindE_eq_Inr the_step_eq_Inr Let_def)
qed

lemma job_steps_eq_Inr:
  "job_steps (name, job) = Inr ds \<longleftrightarrow> (\<exists>kvs. job = JObj kvs \<and> dict_get_default kvs ''steps'' (JArr []) = JArr (map JObj ds))"
  by (auto simp: job_steps_def bindE_eq_Inr mapE_mapping)

lemma mapE_member: "mapE f xs = Inr ys \<Longrightarrow> x \<in> set xs \<Longrightarrow> \<exists>y \<in> set ys. f x = Inr y"
  by (induction xs arbitrary: ys) (auto simp: bindE_eq_Inr)

lemma all_steps_job:
  assumes "all_steps workflow = Inr steps" "jget workflow ''jobs'' = JObj jobs" "(name, job) \<in> set jobs"
  shows "\<exists>kvs ds. job = JObj kvs \<and> dict_get_default kvs ''steps'' (JArr []) = JArr (map JObj ds) \<and> set ds \<subseteq> set steps"
proof -
  from assms(1,2) obtain dss where dss: "mapE job_steps jobs = Inr dss" "steps = concat dss"
    by (auto simp: all_steps_def bindE_eq_Inr)
  from mapE_member [OF dss(1) assms(3)] dss(2) show ?thesis by (auto simp: job_steps_eq_Inr)
qed

lemma check_job_eq_Inr:
  "check_job (name, job) = Inr () \<longleftrightarrow> (\<exists>kvs. job = JObj kvs \<and> positive_timeout (yaml_text kvs ''timeout-minutes'') \<and> has_key ''permissions'' kvs)"
  by (auto simp: check_job_def bindE_eq_Inr)

text \<open>In a workflow that passes the contract, every job has a positive timeout, explicit permissions and steps that pin their
  actions to a commit and cannot continue on error; the one gate job is unconditional, as are its steps but the upload, and
  runs each of the three tools in exactly one step, bound to the base commit.\<close>

theorem accepted_workflow:
  assumes "validate_workflow_text compose contents branch = Inr ()"
  shows "\<exists>workflow jobs gate gate_steps. load_unique_yaml compose contents = Inr workflow \<and> jget workflow ''jobs'' = JObj jobs \<and>
     jobs_named EXACT_CHECK_NAME jobs = [gate] \<and> \<not> has_key ''if'' gate \<and> jget gate ''steps'' = JArr (map JObj gate_steps) \<and>
     list_all (\<lambda>step. uses_action ''actions/upload-artifact@'' step \<or> \<not> has_key ''if'' step) gate_steps \<and>
     list_all (tool_bound gate_steps) [''build_causal_pr_report'', ''check_causal_trust_root'', ''check_causal_workflow_contract''] \<and>
     (\<forall>(name, job) \<in> set jobs. \<exists>kvs. job = JObj kvs \<and> job_ok kvs)"
proof -
  from assms obtain workflow jobs where w: "load_unique_yaml compose contents = Inr workflow" "jget workflow ''jobs'' = JObj jobs"
      "validate_jobs workflow jobs = Inr ()"
    by (auto simp: validate_workflow_text_def bindE_eq_Inr)
  then obtain gate where gate: "jobs_named EXACT_CHECK_NAME jobs = [gate]"
    by (auto simp: validate_jobs_def split: list.splits)
  with w(3) obtain steps gate_steps us where g: "check_gate_job gate = Inr ()" "all_steps workflow = Inr steps"
      "check_actions steps = Inr ()" "jget gate ''steps'' = JArr (map JObj gate_steps)" "check_gate_steps gate_steps = Inr ()"
      "mapE check_job jobs = Inr us"
    by (auto simp: validate_jobs_def bindE_eq_Inr mapE_mapping)
  have "\<exists>kvs. job = JObj kvs \<and> job_ok kvs" if "(name, job) \<in> set jobs" for name job
    using all_steps_job [OF g(2) w(2) that] mapE_member [OF g(6) that] g(3)
    by (auto simp: check_actions_eq_Inr check_job_eq_Inr job_ok_def list_all_iff)
  moreover have "\<not> has_key ''if'' gate" using g(1) by (simp add: check_gate_job_def bindE_eq_Inr)
  moreover have "list_all (\<lambda>step. uses_action ''actions/upload-artifact@'' step \<or> \<not> has_key ''if'' step) gate_steps"
    using g(5) by (simp add: check_gate_steps_def bindE_eq_Inr)
  ultimately show ?thesis using w gate g(4) check_gate_steps_tools [OF g(5)] by blast
qed

section \<open>Witnesses\<close>

text \<open>The shape of the commands of the repository's workflow, for a short tool name.\<close>

definition sample_commands :: string where
  \<open>sample_commands = concat (map (\<lambda>l. l @ [CHR 0x0A])
     [''if git cat-file -e t; then'', extraction_line ''t'', destination_line ''b'', base_execution_line ''b'', ''--x'',
      bootstrap_guard_line, bootstrap_execution_line ''t'', ''--x'', ''else'', ''exit 1'', ''fi''])\<close>

lemma sample_command_accepted: "require_base_bound_execution (begun sample_commands) ''tool'' ''t'' ''b'' = Inr ()"
  by code_simp

theorem base_bound_command_witness:
  "\<exists>pre mid others rest. stripped_lines (begun sample_commands) = pre @ [extraction_line ''t'', destination_line ''b'', base_execution_line ''b''] @
       mid @ [bootstrap_guard_line] @ others @ [bootstrap_execution_line ''t''] @ rest \<and> ''exit 1'' \<in> set rest"
  using base_bound_command [OF sample_command_accepted] by blast

theorem early_exit_accepted_witness:
  "require_base_bound_execution (disarmed sample_commands) ''tool'' ''t'' ''b'' = Inr () \<and>
   take 2 (stripped_lines (disarmed sample_commands)) = [''set -euo pipefail'', ''exit 0'']"
  using early_exit_accepted [OF sample_command_accepted] by (simp add: disarmed_lines head_line_def exit_line_def)

end
