(* ===== verification/Causal_Report.thy ===== *)
theory Causal_Report
  imports Trust_Root
begin

text \<open>
  The causal report of a pull request, \<open>scripts/ci/build_causal_pr_report.py\<close>: redaction, the sections of the
  body, the classification of the diff, the contract, and the report whose \<open>passed\<close> decides the check.

  Git is an argument, as in \<open>Trust_Root\<close>; so are the text of the event, and which paths resolve to a file inside the
  repository.  Regular expressions are written out as matching functions on ASCII text.  \<open>GateFailure\<close> is a
  \<open>RuntimeError\<close> and represented as one, without the detail of a decoding error.  The two rendered files are
  left out but for the labels of the graph and the lines on changed files.

  The lemmas show what a report that passed guarantees, that the normalisation of a Markdown item ends in a
  fixed point, and that the labels of the graph cannot end its block.
\<close>

section \<open>Redaction\<close>

text \<open>
  \<open>pattern.sub(replacement, text)\<close>: \<open>m\<close> gives the length of the match at a position, 0 when there is none, from the
  character before it and the text after it.
\<close>

type_synonym pattern = "char option \<Rightarrow> string \<Rightarrow> nat"

function re_sub :: "pattern \<Rightarrow> string \<Rightarrow> char option \<Rightarrow> string \<Rightarrow> string" where
  "re_sub m replacement prev [] = []"
| "re_sub m replacement prev (c # s) =
     (let n = m prev (c # s) in
      if n = 0 then c # re_sub m replacement (Some c) s
      else replacement @ re_sub m replacement (Some (last (take n (c # s)))) (drop (n - 1) s))"
  by pat_completeness auto

termination
  by (relation "measure (\<lambda>(m, r, prev, s). length s)") auto

definition is_letter :: "char \<Rightarrow> bool" where
  "is_letter c \<longleftrightarrow> (65 \<le> char_code c \<and> char_code c \<le> 90) \<or> (97 \<le> char_code c \<and> char_code c \<le> 122)"

definition is_alnum :: "char \<Rightarrow> bool" where
  "is_alnum c \<longleftrightarrow> is_letter c \<or> is_digit c"

definition is_word :: "char \<Rightarrow> bool" where
  "is_word c \<longleftrightarrow> is_alnum c \<or> c = CHR ''_''"

text \<open>\<open>\b\<close> before and after a word character.\<close>

definition word_starts :: "char option \<Rightarrow> bool" where
  "word_starts prev \<longleftrightarrow> (case prev of None \<Rightarrow> True | Some c \<Rightarrow> \<not> is_word c)"

definition word_ends :: "string \<Rightarrow> bool" where
  "word_ends rest \<longleftrightarrow> (case rest of [] \<Rightarrow> True | c # _ \<Rightarrow> \<not> is_word c)"

definition run_length :: "(char \<Rightarrow> bool) \<Rightarrow> string \<Rightarrow> nat" where
  "run_length P s = length (takeWhile P s)"

definition url_match :: pattern where
  "url_match prev s =
     (let k = (if starts_with ''https://'' (py_lower s) then 8 else if starts_with ''http://'' (py_lower s) then 7 else 0);
          n = run_length (\<lambda>c. \<not> py_isspace c \<and> c \<notin> set '')>]}'') (drop k s)
      in if k = 0 \<or> n = 0 then 0 else k + n)"

definition aws_key_match :: pattern where
  "aws_key_match prev s =
     (if word_starts prev \<and> starts_with ''AKIA'' s \<and> length (take 16 (drop 4 s)) = 16 \<and>
         list_all (\<lambda>c. is_digit c \<or> (is_letter c \<and> char_code c \<le> 90)) (take 16 (drop 4 s)) \<and> word_ends (drop 20 s)
      then 20 else 0)"

definition github_token_match :: pattern where
  "github_token_match prev s =
     (let n = run_length is_word (drop 4 s) in
      if word_starts prev \<and> (\<exists>c \<in> set ''oprsu''. starts_with (''gh'' @ [c] @ ''_'') s) \<and> 20 \<le> n then 4 + n else 0)"

definition api_secret_match :: pattern where
  "api_secret_match prev s =
     (let n = run_length is_alnum (drop 3 s) in
      if word_starts prev \<and> starts_with ''sk-'' s \<and> 20 \<le> n \<and> word_ends (drop (3 + n) s) then 3 + n else 0)"

definition private_key_headers :: "string list" where
  "private_key_headers = map (\<lambda>kind. ''-----BEGIN '' @ kind @ ''PRIVATE KEY-----'') [''RSA '', ''EC '', ''OPENSSH '', '''']"

definition private_key_match :: pattern where
  "private_key_match prev s = (case find (\<lambda>h. starts_with h s) private_key_headers of Some h \<Rightarrow> length h | None \<Rightarrow> 0)"

definition secret_names :: "string list" where
  "secret_names = [''apikey'', ''api_key'', ''api-key'', ''token'', ''secret'', ''password'', ''passwd'', ''authorization'']"

text \<open>A secret's name, a colon or an equals sign, and one word.\<close>

definition assignment_match :: pattern where
  "assignment_match prev s =
     (case find (\<lambda>name. starts_with name (py_lower s) \<and> word_ends (drop (length name) s)) secret_names of
        None \<Rightarrow> 0
      | Some name \<Rightarrow>
          (let after_name = drop (length name) s;
               sign = dropWhile py_isspace after_name;
               gap = length after_name - length sign;
               after_sign = drop 1 sign;
               v = dropWhile py_isspace after_sign;
               n = run_length (\<lambda>c. \<not> py_isspace c \<and> c \<notin> set '',;'') v
           in if word_starts prev \<and> sign \<noteq> [] \<and> hd sign \<in> set '':='' \<and> 0 < n
              then length name + gap + 1 + (length after_sign - length v) + n else 0))"

definition sanitize :: "string \<Rightarrow> string" where
  "sanitize s = foldl (\<lambda>t m. re_sub m ''[REDACTED_SECRET]'' None t) (re_sub url_match ''[REDACTED_URL]'' None s)
     [aws_key_match, github_token_match, api_secret_match, private_key_match, assignment_match]"

section \<open>The event\<close>

definition causal_git :: "git \<Rightarrow> string list \<Rightarrow> git_result result" where
  "causal_git git args =
     (let r = git args;
          detail = sanitize (if py_strip (stderr r) \<noteq> [] then py_strip (stderr r) else py_strip (stdout r))
      in if returncode r \<noteq> 0 then Inl (RuntimeError (''git '' @ join '' '' args @ '' failed: '' @ detail)) else Inr r)"

text \<open>The text of the event file; \<^const>\<open>None\<close> when reading it raises an \<open>OSError\<close>.\<close>

definition parse_event :: "(string \<Rightarrow> string) \<Rightarrow> string option \<Rightarrow> (string, json) dict result" where
  "parse_event fr contents =
     (case contents of
        None \<Rightarrow> Inl (RuntimeError ''cannot read GitHub event payload'')
      | Some t \<Rightarrow>
          (case loads_text fr t of
             Inl Malformed \<Rightarrow> Inl (RuntimeError ''cannot read GitHub event payload'')
           | Inl TooManyDigits \<Rightarrow> Inl (ValueError ''Exceeds the limit (4300 digits) for integer string conversion'')
           | Inr (JObj payload) \<Rightarrow> Inr payload
           | Inr _ \<Rightarrow> Inl (RuntimeError ''GitHub event payload must be a JSON object'')))"

primrec nested_value :: "string \<Rightarrow> string list \<Rightarrow> json \<Rightarrow> json result" where
  "nested_value path [] current = Inr current"
| "nested_value path (key # keys) current =
     (case current of
        JObj kvs \<Rightarrow>
          (case map_of kvs key of
             None \<Rightarrow> Inl (RuntimeError (''GitHub event payload is missing '' @ path))
           | Some v \<Rightarrow> nested_value path keys v)
      | _ \<Rightarrow> Inl (RuntimeError (''GitHub event payload is missing '' @ path)))"

definition nested_string :: "(string, json) dict \<Rightarrow> string list \<Rightarrow> string result" where
  "nested_string payload keys =
     bindE (nested_value (join ''.'' keys) keys (JObj payload)) (\<lambda>v. case v of
         JStr s \<Rightarrow> Inr s
       | _ \<Rightarrow> Inl (RuntimeError (''GitHub event field '' @ join ''.'' keys @ '' must be a string'')))"

section \<open>The sections of the body\<close>

fun find_sub :: "string \<Rightarrow> string \<Rightarrow> nat option" where
  "find_sub p [] = (if p = [] then Some 0 else None)"
| "find_sub p (c # s) = (if starts_with p (c # s) then Some 0 else map_option Suc (find_sub p s))"

definition comment_match :: pattern where
  "comment_match prev s =
     (if starts_with ''<!--'' s then (case find_sub ''-->'' (drop 4 s) of Some k \<Rightarrow> 4 + k + 3 | None \<Rightarrow> 0) else 0)"

definition strip_html_comments :: "string \<Rightarrow> string" where
  "strip_html_comments s = py_strip (re_sub comment_match [] None s)"

definition is_blank :: "char \<Rightarrow> bool" where
  "is_blank c \<longleftrightarrow> c = CHR '' '' \<or> c = CHR 0x09"

definition rstrip_by :: "(char \<Rightarrow> bool) \<Rightarrow> string \<Rightarrow> string" where
  "rstrip_by P s = rev (dropWhile P (rev s))"

text \<open>\<open>re.sub(r"[ \t]+#+[ \t]*$", "", title).strip()\<close>\<close>

definition normalize_atx_title :: "string \<Rightarrow> string" where
  "normalize_atx_title title =
     (let hashed = rstrip_by is_blank title;
          front = rstrip_by (\<lambda>c. c = CHR ''#'') hashed
      in py_strip (if front \<noteq> hashed \<and> front \<noteq> [] \<and> is_blank (last front) then front else title))"

text \<open>Up to three spaces, and what follows them.\<close>

definition unindented :: "string \<Rightarrow> string option" where
  "unindented line =
     (let n = run_length (\<lambda>c. c = CHR '' '') line in if n \<le> 3 then Some (drop n line) else None)"

text \<open>\<open>ATX_HEADING_RE\<close>: the level and the title.\<close>

definition atx_heading :: "string \<Rightarrow> (nat \<times> string) option" where
  "atx_heading line =
     (case unindented line of
        None \<Rightarrow> None
      | Some t \<Rightarrow>
          (let n = run_length (\<lambda>c. c = CHR ''#'') t; r = drop n t in
           if 1 \<le> n \<and> n \<le> 6 \<and> (r = [] \<or> is_blank (hd r)) then Some (n, rstrip_by is_blank (dropWhile is_blank r)) else None))"

text \<open>\<open>FENCE_RE\<close>: the character, the length of the marker and the suffix.\<close>

definition fence_line :: "string \<Rightarrow> (char \<times> nat \<times> string) option" where
  "fence_line line =
     (case unindented line of
        None \<Rightarrow> None
      | Some t \<Rightarrow>
          (case t of
             [] \<Rightarrow> None
           | c # _ \<Rightarrow>
               (let n = run_length (\<lambda>d. d = c) t in
                if (c = CHR 0x60 \<or> c = CHR ''~'') \<and> 3 \<le> n then Some (c, n, drop n t) else None)))"

definition SECTION_TITLES :: "string list" where
  "SECTION_TITLES = [''Failure path'', ''Invariant after change'', ''Regression evidence'', ''Residual risk'']"

record section_scan =
  ss_active :: "string option"
  ss_fence :: "(char \<times> nat) option"
  ss_sections :: "(string, string list) dict"

definition scan_line :: "string \<Rightarrow> section_scan \<Rightarrow> section_scan" where
  "scan_line line s =
     (case fence_line line of
        Some (c, n, suffix) \<Rightarrow>
          s\<lparr>ss_fence := (case ss_fence s of
              None \<Rightarrow> Some (c, n)
            | Some (c', n') \<Rightarrow> if c = c' \<and> n' \<le> n \<and> py_strip suffix = [] then None else Some (c', n'))\<rparr>
      | None \<Rightarrow>
          if ss_fence s \<noteq> None then s
          else (case atx_heading line of
              Some (level, raw_title) \<Rightarrow>
                s\<lparr>ss_active := (if level = 3
                    then find (\<lambda>t. py_lower t = py_lower (normalize_atx_title raw_title)) SECTION_TITLES else None)\<rparr>
            | None \<Rightarrow>
                (case ss_active s of
                   None \<Rightarrow> s
                 | Some title \<Rightarrow>
                     s\<lparr>ss_sections := dict_set title (dict_get_default (ss_sections s) title [] @ [line]) (ss_sections s)\<rparr>)))"

definition parse_causal_sections :: "string \<Rightarrow> (string, string) dict" where
  "parse_causal_sections body =
     (let s = fold scan_line (splitlines body)
            \<lparr>ss_active = None, ss_fence = None, ss_sections = map (\<lambda>t. (t, [])) SECTION_TITLES\<rparr>
      in map (\<lambda>(title, lines). (title, strip_html_comments (join [CHR 0x0A] lines))) (ss_sections s))"

section \<open>Placeholders\<close>

text \<open>\<open>re.sub(r"^(?:>\s*)+", "", line)\<close>\<close>

definition drop_quotes :: "string \<Rightarrow> string" where
  "drop_quotes s = (case s of [] \<Rightarrow> []
     | c # _ \<Rightarrow> if c = CHR ''>'' then dropWhile (\<lambda>d. d = CHR ''>'' \<or> py_isspace d) s else s)"

text \<open>\<open>re.sub(r"^(?:[-*+]\s+|\d+[.)]\s+)", "", line)\<close>\<close>

definition drop_marker :: "string \<Rightarrow> string" where
  "drop_marker s =
     (let n = run_length is_digit s;
          k = (if s \<noteq> [] \<and> hd s \<in> set ''-*+'' then 1
               else if 0 < n \<and> drop n s \<noteq> [] \<and> hd (drop n s) \<in> set ''.)'' then n + 1 else 0);
          r = drop k s
      in if 0 < k \<and> r \<noteq> [] \<and> py_isspace (hd r) then dropWhile py_isspace r else s)"

text \<open>\<open>re.sub(r"^\[[ xX]\]\s*", "", line)\<close>\<close>

definition drop_checkbox :: "string \<Rightarrow> string" where
  "drop_checkbox s = (if take 3 s \<in> set [''[ ]'', ''[x]'', ''[X]''] then dropWhile py_isspace (drop 3 s) else s)"

definition item_step :: "string \<Rightarrow> string" where
  "item_step line = py_strip (drop_checkbox (py_strip (drop_marker (py_strip (drop_quotes line)))))"

text \<open>Every one of these steps leaves its argument or shortens it.\<close>

definition shrinks :: "(string \<Rightarrow> string) \<Rightarrow> bool" where
  "shrinks f \<longleftrightarrow> (\<forall>s. f s = s \<or> length (f s) < length s)"

lemma dropWhile_shorter: "dropWhile P xs = xs \<or> length (dropWhile P xs) < length xs"
  by (cases xs) (auto simp: less_Suc_eq_le length_dropWhile_le)

lemma shrinks_py_strip: "shrinks py_strip"
proof (unfold shrinks_def, rule allI)
  fix s
  show "py_strip s = s \<or> length (py_strip s) < length s"
    using dropWhile_shorter [of py_isspace s] dropWhile_shorter [of py_isspace "rev (dropWhile py_isspace s)"]
    unfolding py_strip_def by (metis length_rev less_trans rev_rev_ident)
qed

lemma shrinks_drop_quotes: "shrinks drop_quotes"
proof (unfold shrinks_def, rule allI)
  fix s
  show "drop_quotes s = s \<or> length (drop_quotes s) < length s"
    by (cases s) (use dropWhile_shorter [of "\<lambda>d. d = CHR ''>'' \<or> py_isspace d" s] in \<open>auto simp: drop_quotes_def simp del: dropWhile.simps\<close>)
qed

lemma shrinks_drop_marker: "shrinks drop_marker"
proof (unfold shrinks_def, rule allI)
  fix s
  have "length (dropWhile py_isspace (drop k s)) < length s" if "0 < k" "drop k s \<noteq> []" for k
    using length_dropWhile_le [of py_isspace "drop k s"] that by simp
  then show "drop_marker s = s \<or> length (drop_marker s) < length s"
    by (simp add: drop_marker_def Let_def split del: if_split) (simp split: if_split)
qed

lemma shrinks_drop_checkbox: "shrinks drop_checkbox"
proof (unfold shrinks_def, rule allI)
  fix s
  have "length (dropWhile py_isspace (drop 3 s)) < length s" if "take 3 s \<in> set [''[ ]'', ''[x]'', ''[X]'']"
  proof -
    have "s \<noteq> []" using that by auto
    with length_dropWhile_le [of py_isspace "drop 3 s"] show ?thesis by (cases s) auto
  qed
  then show "drop_checkbox s = s \<or> length (drop_checkbox s) < length s" by (simp add: drop_checkbox_def)
qed

lemma shrinks_compose: "shrinks f \<Longrightarrow> shrinks g \<Longrightarrow> shrinks (\<lambda>s. f (g s))"
  unfolding shrinks_def by (metis less_trans)

lemma shrinks_item_step: "shrinks item_step"
proof -
  note stripped = shrinks_compose [OF shrinks_py_strip]
  have "shrinks (\<lambda>s. py_strip (drop_marker (py_strip (drop_quotes s))))"
    by (rule stripped, rule shrinks_compose [OF shrinks_drop_marker], rule stripped, rule shrinks_drop_quotes)
  from stripped [OF shrinks_compose [OF shrinks_drop_checkbox this]] show ?thesis by (simp add: item_step_def [abs_def])
qed

text \<open>The loop until nothing changes.\<close>

function normalize_item_loop :: "string \<Rightarrow> string" where
  "normalize_item_loop line = (if item_step line = line then line else normalize_item_loop (item_step line))"
  by pat_completeness auto

termination
  by (relation "measure length") (use shrinks_item_step in \<open>auto simp: shrinks_def\<close>)

declare normalize_item_loop.simps [simp del]

definition normalize_markdown_item :: "string \<Rightarrow> string" where
  "normalize_markdown_item raw_line = normalize_item_loop (py_strip raw_line)"

definition placeholder_words :: "string list" where
  "placeholder_words = [''todo'', ''tbd'', ''placeholder'', ''describe'', ''describe here'', ''fill this in'', ''na'', ''n/a'', ''none'']"

text \<open>\<open>PLACEHOLDER_RE.fullmatch(line)\<close>\<close>

definition placeholder_line :: "string \<Rightarrow> bool" where
  "placeholder_line line =
     (let t = py_lower line;
          r = (if t \<noteq> [] \<and> hd t \<in> set ''-*'' then dropWhile py_isspace (tl t) else t)
      in list_ex (\<lambda>w. starts_with w r \<and> list_all (\<lambda>c. py_isspace c \<or> c \<in> set '':;,.!-'') (drop (length w) r)) placeholder_words)"

definition is_placeholder :: "string \<Rightarrow> bool" where
  "is_placeholder v =
     (let normalized = py_strip (strip_html_comments v);
          meaningful = filter (\<lambda>l. l \<noteq> []) (map normalize_markdown_item (splitlines normalized))
      in normalized = [] \<or> list_all placeholder_line meaningful)"

section \<open>The diff\<close>

datatype path_category = Implementation | Workflows | Tests | Documentation | Other

definition category_text :: "path_category \<Rightarrow> string" where
  "category_text c = (case c of Implementation \<Rightarrow> ''implementation'' | Workflows \<Rightarrow> ''workflows'' | Tests \<Rightarrow> ''tests''
     | Documentation \<Rightarrow> ''documentation'' | Other \<Rightarrow> ''other'')"

text \<open>\<open>Path(path).name\<close>\<close>

definition path_name :: "string \<Rightarrow> string" where
  "path_name path = (case filter (\<lambda>c. c \<noteq> [] \<and> c \<noteq> ''.'') (py_split (CHR ''/'') path) of [] \<Rightarrow> [] | cs \<Rightarrow> last cs)"

definition classify_path :: "string \<Rightarrow> path_category" where
  "classify_path path =
     (let lowered = py_lower path; name = path_name lowered in
      if starts_with ''.github/workflows/'' lowered \<or> starts_with ''.github/actions/'' lowered then Workflows
      else if starts_with ''tests/'' lowered \<or> starts_with ''test/'' lowered \<or> starts_with ''test_'' name then Tests
      else if starts_with ''docs/'' lowered \<or> ends_with ''.md'' lowered \<or>
          name \<in> set [''license'', ''license.txt'', ''code_of_conduct.md'', ''contributing.md''] then Documentation
      else if list_ex (\<lambda>p. starts_with p lowered) [''src/'', ''scripts/'', ''migrations/'', ''contracts/'', ''security/'', ''.github/codeowners''] \<or>
          name \<in> set [''pyproject.toml'', ''setup.py'', ''setup.cfg'', ''tox.ini'', ''dockerfile'', ''docker-compose.yml'',
            ''docker-compose.yaml'', ''requirements.txt'', ''requirements-dev.txt'', ''poetry.lock'', ''pipfile'', ''pipfile.lock''] \<or>
          list_ex (\<lambda>p. ends_with p lowered) [''.py'', ''.sh'', ''.sql'', ''.toml'', ''.ini'', ''.cfg''] then Implementation
      else Other)"

record changed_file =
  cf_status :: string
  cf_path :: string
  cf_category :: path_category
  cf_old_path :: "string option"
  cf_old_category :: "path_category option"

definition categories_for :: "changed_file \<Rightarrow> path_category list" where
  "categories_for item = (case cf_old_category item of
       Some c \<Rightarrow> if c = cf_category item then [c] else [cf_category item, c]
     | None \<Rightarrow> [cf_category item])"

definition paths_for :: "changed_file \<Rightarrow> string list" where
  "paths_for item = cf_path item # (case cf_old_path item of Some p \<Rightarrow> [p] | None \<Rightarrow> [])"

definition TRUST_ROOT_MANIFEST_PATH :: string where
  "TRUST_ROOT_MANIFEST_PATH = ''.github/causal-trust-root.json''"

definition is_ci_validator_path :: "string \<Rightarrow> bool" where
  "is_ci_validator_path path \<longleftrightarrow> path = TRUST_ROOT_MANIFEST_PATH \<or> (starts_with ''scripts/ci/'' path \<and> ends_with ''.py'' path)"

definition is_runnable_test_path :: "string \<Rightarrow> bool" where
  "is_runnable_test_path path \<longleftrightarrow> ends_with ''.py'' (py_lower path) \<and>
     (starts_with ''test_'' (py_lower (path_name path)) \<or> ends_with ''_test.py'' (py_lower (path_name path)))"

definition parse_record :: "string \<Rightarrow> changed_file result" where
  "parse_record raw =
     (let parts = py_split (CHR 0x09) raw; status = hd parts in
      if starts_with ''R'' status \<or> starts_with ''C'' status then
        (case parts of
           [_, old_path, destination] \<Rightarrow>
             Inr \<lparr>cf_status = status, cf_path = destination, cf_category = classify_path destination,
               cf_old_path = Some old_path, cf_old_category = Some (classify_path old_path)\<rparr>
         | _ \<Rightarrow> Inl (RuntimeError (''unexpected rename/copy diff record: '' @ sanitize raw)))
      else (case parts of
           [_, destination] \<Rightarrow>
             Inr \<lparr>cf_status = status, cf_path = destination, cf_category = classify_path destination,
               cf_old_path = None, cf_old_category = None\<rparr>
         | _ \<Rightarrow> Inl (RuntimeError (''unexpected diff record: '' @ sanitize raw))))"

definition parse_diff :: "git \<Rightarrow> string \<Rightarrow> string \<Rightarrow> changed_file list result" where
  "parse_diff git base head =
     bindE (causal_git git [''diff'', ''--name-status'', ''--find-renames'', base, head, ''--'']) (\<lambda>r.
     mapE parse_record (filter (\<lambda>raw. py_strip raw \<noteq> []) (splitlines (stdout r))))"

datatype report_mode = STRICT | LIGHTWEIGHT

definition determine_mode :: "changed_file list \<Rightarrow> report_mode" where
  "determine_mode changed =
     (if changed \<noteq> [] \<and> list_all (\<lambda>item. categories_for item = [Documentation]) changed then LIGHTWEIGHT else STRICT)"

section \<open>The contract\<close>

definition path_char :: "char \<Rightarrow> bool" where
  "path_char c \<longleftrightarrow> is_word c \<or> c \<in> set ''./-''"

text \<open>\<open>TEST_PATH_RE\<close> at a position: the longest run of path characters that ends in \<open>.py\<close> at the end of a word.\<close>

definition test_path_match :: pattern where
  "test_path_match prev s =
     (let k = (if starts_with ''tests/'' s then 6 else if starts_with ''test/'' s then 5 else 0);
          n = run_length path_char (drop k s);
          ends = filter (\<lambda>j. ends_with ''.py'' (take j (drop k s)) \<and> word_ends (drop (k + j) s)) (rev [4..<Suc n])
      in if k = 0 \<or> (case prev of None \<Rightarrow> False | Some c \<Rightarrow> path_char c) then 0
         else (case ends of [] \<Rightarrow> 0 | j # _ \<Rightarrow> k + j))"

function find_all :: "pattern \<Rightarrow> char option \<Rightarrow> string \<Rightarrow> string list" where
  "find_all m prev [] = []"
| "find_all m prev (c # s) =
     (let n = m prev (c # s) in
      if n = 0 then find_all m (Some c) s
      else take n (c # s) # find_all m (Some (last (take n (c # s)))) (drop (n - 1) s))"
  by pat_completeness auto

termination
  by (relation "measure (\<lambda>(m, prev, s). length s)") auto

text \<open>\<open>is_repo_file\<close>: whether a path resolves, inside the repository, to a file.\<close>

definition referenced_test_paths :: "(string \<Rightarrow> bool) \<Rightarrow> string \<Rightarrow> string list" where
  "referenced_test_paths is_repo_file regression_text =
     py_unique (filter (\<lambda>p. is_runnable_test_path p \<and> is_repo_file p) (find_all test_path_match None regression_text))"

definition validate_repository_state ::
  "git \<Rightarrow> string \<Rightarrow> string \<Rightarrow> string \<Rightarrow> string \<Rightarrow> (bool \<times> bool \<times> string list) result" where
  "validate_repository_state git base head event_base event_head =
     bindE (validate_sha ''base SHA'' base) (\<lambda>_.
     bindE (validate_sha ''head SHA'' head) (\<lambda>_.
     bindE (validate_sha ''event base SHA'' event_base) (\<lambda>_.
     bindE (validate_sha ''event head SHA'' event_head) (\<lambda>_.
     if base \<noteq> event_base then Inl (RuntimeError ''base SHA does not match github.event.pull_request.base.sha'')
     else if head \<noteq> event_head
       then Inl (RuntimeError ''stale head: requested head SHA does not match github.event.pull_request.head.sha'')
     else bindE (causal_git git [''cat-file'', ''-e'', base @ ''^{commit}'']) (\<lambda>_.
       bindE (causal_git git [''cat-file'', ''-e'', head @ ''^{commit}'']) (\<lambda>_.
       bindE (causal_git git [''rev-parse'', ''HEAD'']) (\<lambda>r.
       bindE (causal_git git [''status'', ''--porcelain=v1'', ''--untracked-files=all'']) (\<lambda>d.
       let checkout = py_strip (stdout r); checkout_matches = (checkout = head); clean = (py_strip (stdout d) = [])
       in Inr (clean, checkout_matches,
            (if checkout_matches then [] else [''checkout mismatch: HEAD is '' @ checkout @ '', expected exact head SHA '' @ head]) @
            (if clean then [] else [''worktree is dirty before causal analysis'']))))))))))"

definition changed_tests :: "changed_file list \<Rightarrow> string list" where
  "changed_tests changed = map cf_path (filter (\<lambda>item. cf_category item = Tests \<and> \<not> starts_with ''D'' (cf_status item) \<and>
     is_runnable_test_path (cf_path item)) changed)"

definition executable_change :: "changed_file list \<Rightarrow> bool" where
  "executable_change changed \<longleftrightarrow>
     list_ex (\<lambda>item. list_ex (\<lambda>c. c \<in> set [Implementation, Workflows, Other]) (categories_for item)) changed"

definition validator_change :: "changed_file list \<Rightarrow> bool" where
  "validator_change changed \<longleftrightarrow>
     list_ex (\<lambda>item. Workflows \<in> set (categories_for item) \<or> list_ex is_ci_validator_path (paths_for item)) changed"

definition mutation_candidate :: "string \<Rightarrow> bool" where
  "mutation_candidate path \<longleftrightarrow> list_ex (\<lambda>w. contains w (py_lower path)) [''workflow'', ''causal'', ''contract'', ''trust_root'']"

definition section_text :: "(string, string) dict \<Rightarrow> string \<Rightarrow> string" where
  "section_text sections title = dict_get_default sections title []"

definition quoted_title :: "string \<Rightarrow> string" where
  "quoted_title t = [CHR 0x27] @ t @ [CHR 0x27]"

definition validate_contract ::
  "(string \<Rightarrow> bool) \<Rightarrow> changed_file list \<Rightarrow> report_mode \<Rightarrow> (string, string) dict \<Rightarrow> string list \<times> string list" where
  "validate_contract is_repo_file changed mode sections =
     (let missing = (if mode = STRICT then filter (\<lambda>t. is_placeholder (section_text sections t)) SECTION_TITLES else []);
          existing = referenced_test_paths is_repo_file (section_text sections ''Regression evidence'');
          tests = changed_tests changed
      in (map (\<lambda>t. ''section '' @ quoted_title t @ '' is missing, empty, or an explicit placeholder'') missing @
          (if mode = STRICT \<and> executable_change changed \<and> tests = [] \<and> existing = []
           then [''executable change requires a changed runnable test or an exact existing runnable test path in Regression evidence'']
           else []) @
          (if validator_change changed \<and> filter mutation_candidate tests = []
           then [''workflow or CI-validator change requires a changed runnable workflow mutation/regression test''] else []),
          py_unique (tests @ existing)))"

section \<open>The report\<close>

record report_args =
  ar_repository :: string
  ar_base_sha :: string
  ar_head_sha :: string
  ar_event :: "string option"
  ar_run_id :: string
  ar_run_attempt :: string

record causal_report =
  rp_repository :: string
  rp_base_sha :: string
  rp_head_sha :: string
  rp_event_head_sha :: string
  rp_run_id :: string
  rp_run_attempt :: string
  rp_mode :: report_mode
  rp_passed :: bool
  rp_errors :: "string list"
  rp_changed_files :: "changed_file list"
  rp_category_counts :: "(string, nat) dict"
  rp_sections_present :: "(string, bool) dict"
  rp_test_paths :: "string list"
  rp_worktree_clean :: bool
  rp_checkout_matches :: bool

text \<open>The variables of \<open>build_report\<close> that the \<open>try\<close> assigns as it goes.\<close>

record report_state =
  rs_errors :: "string list"
  rs_changed :: "changed_file list"
  rs_sections :: "(string, string) dict"
  rs_mode :: report_mode
  rs_event_head :: string
  rs_clean :: bool
  rs_matches :: bool
  rs_tests :: "string list"

definition initial_report_state :: report_state where
  "initial_report_state = \<lparr>rs_errors = [], rs_changed = [], rs_sections = map (\<lambda>t. (t, [])) SECTION_TITLES, rs_mode = STRICT,
     rs_event_head = [], rs_clean = False, rs_matches = False, rs_tests = []\<rparr>"

definition body_text :: "(string, json) dict \<Rightarrow> string result" where
  "body_text payload =
     (case dict_get_default payload ''pull_request'' (JObj []) of
        JObj pull_request \<Rightarrow>
          (case dict_get_default pull_request ''body'' (JStr []) of
             JNull \<Rightarrow> Inr []
           | JStr s \<Rightarrow> Inr s
           | _ \<Rightarrow> Inl (RuntimeError ''pull_request.body must be a string or null''))
      | _ \<Rightarrow> Inr [])"

definition check_state ::
  "git \<Rightarrow> (string \<Rightarrow> bool) \<Rightarrow> report_args \<Rightarrow> string \<Rightarrow> (report_state, unit) call" where
  "check_state git is_repo_file args event_base s =
     (case validate_repository_state git (ar_base_sha args) (ar_head_sha args) event_base (rs_event_head s) of
        Inl e \<Rightarrow> (Inl e, s)
      | Inr (clean, matches, state_errors) \<Rightarrow>
          (let s1 = s\<lparr>rs_clean := clean, rs_matches := matches, rs_errors := rs_errors s @ state_errors\<rparr> in
           if state_errors \<noteq> [] then (Inr (), s1)
           else (case parse_diff git (ar_base_sha args) (ar_head_sha args) of
               Inl e \<Rightarrow> (Inl e, s1)
             | Inr changed \<Rightarrow>
                 (let mode = determine_mode changed;
                      (contract_errors, tests) = validate_contract is_repo_file changed mode (rs_sections s1)
                  in (Inr (), s1\<lparr>rs_changed := changed, rs_mode := mode, rs_tests := tests,
                        rs_errors := rs_errors s1 @ contract_errors\<rparr>)))))"

definition examine :: "(string \<Rightarrow> string) \<Rightarrow> git \<Rightarrow> (string \<Rightarrow> bool) \<Rightarrow> report_args \<Rightarrow> (report_state, unit) call" where
  "examine fr git is_repo_file args s =
     (case bindE (parse_event fr (ar_event args)) (\<lambda>payload.
           bindE (nested_string payload [''pull_request'', ''base'', ''sha'']) (\<lambda>event_base. Inr (payload, event_base))) of
        Inl e \<Rightarrow> (Inl e, s)
      | Inr (payload, event_base) \<Rightarrow>
          (case nested_string payload [''pull_request'', ''head'', ''sha''] of
             Inl e \<Rightarrow> (Inl e, s)
           | Inr event_head \<Rightarrow>
               (let s1 = s\<lparr>rs_event_head := event_head\<rparr> in
                case body_text payload of
                  Inl e \<Rightarrow> (Inl e, s1)
                | Inr body \<Rightarrow> check_state git is_repo_file args event_base (s1\<lparr>rs_sections := parse_causal_sections body\<rparr>))))"

definition count_categories :: "changed_file list \<Rightarrow> (string, nat) dict" where
  "count_categories changed = map (\<lambda>c. (category_text c, length (filter (\<lambda>item. c \<in> set (categories_for item)) changed)))
     [Implementation, Workflows, Tests, Documentation, Other]"

definition make_report :: "report_args \<Rightarrow> report_state \<Rightarrow> causal_report" where
  "make_report args s =
     \<lparr>rp_repository = sanitize (ar_repository args), rp_base_sha = ar_base_sha args, rp_head_sha = ar_head_sha args,
      rp_event_head_sha = rs_event_head s, rp_run_id = ar_run_id args, rp_run_attempt = ar_run_attempt args, rp_mode = rs_mode s,
      rp_passed = (rs_errors s = []), rp_errors = map sanitize (rs_errors s), rp_changed_files = rs_changed s,
      rp_category_counts = count_categories (rs_changed s),
      rp_sections_present = map (\<lambda>t. (t, \<not> is_placeholder (section_text (rs_sections s) t))) SECTION_TITLES,
      rp_test_paths = rs_tests s, rp_worktree_clean = rs_clean s, rp_checkout_matches = rs_matches s\<rparr>"

text \<open>\<open>build_report\<close>: only a \<open>GateFailure\<close> is caught; \<open>Inl\<close> is an exception that ends the script.\<close>

definition build_report :: "(string \<Rightarrow> string) \<Rightarrow> git \<Rightarrow> (string \<Rightarrow> bool) \<Rightarrow> report_args \<Rightarrow> causal_report result" where
  "build_report fr git is_repo_file args =
     (case examine fr git is_repo_file args initial_report_state of
        (Inl (RuntimeError message), s) \<Rightarrow> Inr (make_report args (s\<lparr>rs_errors := rs_errors s @ [message]\<rparr>))
      | (Inl e, s) \<Rightarrow> Inl e
      | (Inr _, s) \<Rightarrow> Inr (make_report args s))"

text \<open>The exit status of the command.\<close>

definition report_status :: "causal_report result \<Rightarrow> int" where
  "report_status outcome = (case outcome of Inl _ \<Rightarrow> 1 | Inr r \<Rightarrow> if rp_passed r then 0 else 1)"

section \<open>Rendering\<close>

definition escape_label :: "char \<Rightarrow> char" where
  "escape_label c = (if c = CHR 0x5C then CHR ''/'' else if c = CHR 0x60 \<or> c = CHR 0x22 then CHR 0x27 else c)"

definition mermaid_label :: "string \<Rightarrow> string \<Rightarrow> string" where
  "mermaid_label v fallback =
     (let normalized = sanitize (join '' '' (words v));
          escaped = map escape_label normalized
      in if take 160 escaped = [] then fallback else take 160 escaped)"

definition in_code :: "string \<Rightarrow> string" where
  "in_code s = [CHR 0x60] @ s @ [CHR 0x60]"

text \<open>The arrow is the UTF-8 form of \<open>U+2192\<close>.\<close>

definition arrow :: string where
  "arrow = [CHR 0xE2, CHR 0x86, CHR 0x92]"

definition changed_file_markdown :: "changed_file \<Rightarrow> string" where
  "changed_file_markdown item =
     (case cf_old_path item of
        Some old_path \<Rightarrow> ''- '' @ in_code (cf_status item) @ '' '' @ in_code (sanitize old_path) @ '' (**'' @
          (case cf_old_category item of Some c \<Rightarrow> category_text c | None \<Rightarrow> ''None'') @ ''**) '' @ arrow @ '' '' @
          in_code (sanitize (cf_path item)) @ '' (**'' @ category_text (cf_category item) @ ''**)''
      | None \<Rightarrow> ''- '' @ in_code (cf_status item) @ '' '' @ in_code (sanitize (cf_path item)) @ '' '' @ arrow @ '' **'' @
          category_text (cf_category item) @ ''**'')"

section \<open>Normalisation ends\<close>

lemma normalize_item_loop_stable:
  "item_step (normalize_item_loop line) = normalize_item_loop line \<and> length (normalize_item_loop line) \<le> length line"
proof (induction line rule: normalize_item_loop.induct)
  case (1 line)
  show ?case
  proof (cases "item_step line = line")
    case False
    moreover have "length (item_step line) < length line" using False shrinks_item_step by (auto simp: shrinks_def)
    ultimately show ?thesis using "1.IH" by (simp add: normalize_item_loop.simps [of line])
  qed (simp add: normalize_item_loop.simps [of line])
qed

lemma item_step_stripped: "item_step line = line \<Longrightarrow> py_strip line = line"
  by (metis item_step_def py_strip_idem)

lemma item_step_plain: "item_step line = line \<Longrightarrow> drop_quotes line = line \<and> drop_marker line = line \<and> drop_checkbox line = line"
proof -
  assume fixed: "item_step line = line"
  have shorter: "length (f s) \<le> length s" "length (f s) = length s \<Longrightarrow> f s = s" if "shrinks f" for f s
    using that by (auto simp: shrinks_def) (metis less_imp_le_nat order_refl)+
  let ?a = "drop_quotes line" let ?b = "py_strip ?a" let ?c = "drop_marker ?b" let ?d = "py_strip ?c" let ?e = "drop_checkbox ?d"
  note le = shorter(1) [OF shrinks_drop_quotes, of line] shorter(1) [OF shrinks_py_strip, of ?a] shorter(1) [OF shrinks_drop_marker, of ?b]
    shorter(1) [OF shrinks_py_strip, of ?c] shorter(1) [OF shrinks_drop_checkbox, of ?d] shorter(1) [OF shrinks_py_strip, of ?e]
  have "length (py_strip ?e) = length line" using fixed by (simp add: item_step_def)
  with le have len: "length ?a = length line" "length ?b = length ?a" "length ?c = length ?b" "length ?d = length ?c" "length ?e = length ?d"
    by linarith+
  have a: "?a = line" by (rule shorter(2) [OF shrinks_drop_quotes len(1)])
  have b: "?b = ?a" by (rule shorter(2) [OF shrinks_py_strip len(2)])
  have c: "?c = ?b" by (rule shorter(2) [OF shrinks_drop_marker len(3)])
  have d: "?d = ?c" by (rule shorter(2) [OF shrinks_py_strip len(4)])
  have e: "?e = ?d" by (rule shorter(2) [OF shrinks_drop_checkbox len(5)])
  from a b c d e show ?thesis by metis
qed

text \<open>The normalisation of a Markdown item always ends, in a text that is no longer than the line and has no surrounding
  white space, quotation mark, list marker or checkbox left; normalising again changes nothing.\<close>

theorem markdown_item_normal:
  "let item = normalize_markdown_item raw_line in
     length item \<le> length raw_line \<and> py_strip item = item \<and> drop_quotes item = item \<and> drop_marker item = item \<and>
     drop_checkbox item = item \<and> normalize_markdown_item item = item"
proof -
  let ?item = "normalize_markdown_item raw_line"
  have fixed: "item_step ?item = ?item" "length ?item \<le> length (py_strip raw_line)"
    using normalize_item_loop_stable [of "py_strip raw_line"] by (simp_all add: normalize_markdown_item_def)
  moreover have "length (py_strip raw_line) \<le> length raw_line" using shrinks_py_strip by (metis shrinks_def order_refl less_imp_le_nat)
  moreover have "normalize_markdown_item ?item = ?item"
    using fixed(1) item_step_stripped [OF fixed(1)] by (simp add: normalize_markdown_item_def [of ?item] normalize_item_loop.simps [of ?item])
  ultimately show ?thesis using item_step_plain [OF fixed(1)] item_step_stripped [OF fixed(1)] by (simp add: Let_def)
qed

section \<open>Redacted labels\<close>

lemma set_re_sub: "set (re_sub m replacement prev s) \<subseteq> set s \<union> set replacement"
proof (induction m replacement prev s rule: re_sub.induct)
  case (2 m replacement prev c s)
  have "set (drop n s) \<subseteq> set (c # s)" for n by (auto dest: in_set_dropD)
  with 2 show ?case by (simp add: Let_def) blast
qed simp

definition redactions :: string where
  "redactions = ''[REDACTED_URL]'' @ ''[REDACTED_SECRET]''"

lemma redactions_visible: "list_all (\<lambda>c. \<not> py_isspace c) redactions"
  by code_simp

lemma set_redactions: "set ''[REDACTED_URL]'' \<subseteq> set redactions" "set ''[REDACTED_SECRET]'' \<subseteq> set redactions"
  unfolding redactions_def set_append by (rule Un_upper1, rule Un_upper2)

lemma set_sanitize: "set (sanitize s) \<subseteq> set s \<union> set redactions"
proof -
  have step: "set (re_sub m ''[REDACTED_SECRET]'' None t) \<subseteq> set s \<union> set redactions" if "set t \<subseteq> set s \<union> set redactions" for m t
    using set_re_sub [of m "''[REDACTED_SECRET]''" None t] set_redactions(2) that by blast
  have "set (re_sub url_match ''[REDACTED_URL]'' None s) \<subseteq> set s \<union> set redactions"
    using set_re_sub [of url_match "''[REDACTED_URL]''" None s] set_redactions(1) by blast
  from step [OF step [OF step [OF step [OF step [OF this]]]]] show ?thesis unfolding sanitize_def foldl.simps .
qed

lemma words_visible: "w \<in> set (words s) \<Longrightarrow> c \<in> set w \<Longrightarrow> \<not> py_isspace c"
proof (induction s rule: words.induct)
  case (1 s)
  let ?t = "dropWhile py_isspace s"
  have "w = takeWhile (\<lambda>c. \<not> py_isspace c) ?t \<or> (?t \<noteq> [] \<and> w \<in> set (words (dropWhile (\<lambda>c. \<not> py_isspace c) ?t)))"
    using "1.prems"(1) by (subst (asm) words.simps) (auto simp: Let_def split: if_splits)
  with 1 show ?case by (auto dest: set_takeWhileD)
qed

lemma set_join: "set (join sep xs) \<subseteq> set sep \<union> \<Union> (set ` set xs)"
  by (auto simp: join_def split: list.splits)

definition label_char :: "char \<Rightarrow> bool" where
  "label_char c \<longleftrightarrow> c \<notin> {CHR 0x60, CHR 0x22, CHR 0x5C} \<and> (c = CHR '' '' \<or> \<not> py_isspace c)"

text \<open>Whatever the body of a pull request says, a label made of it has at most 160 characters, none of them a line
  break, a backtick, a double quote or a backslash, so that it cannot end its string, its line or the code block.\<close>

theorem mermaid_label_contained:
  "mermaid_label v fallback = fallback \<or>
     (length (mermaid_label v fallback) \<le> 160 \<and> list_all label_char (mermaid_label v fallback))"
proof -
  let ?n = "sanitize (join '' '' (words v))"
  have visible: "\<not> py_isspace (CHR ''/'')" "\<not> py_isspace (CHR 0x27)" by code_simp+
  have "c = CHR '' '' \<or> \<not> py_isspace c" if "c \<in> set ?n" for c
  proof -
    have "c \<in> set (join '' '' (words v)) \<or> c \<in> set redactions" using set_sanitize that by blast
    moreover have "\<not> py_isspace d" if "d \<in> set redactions" for d
      using redactions_visible that unfolding list_all_iff by blast
    moreover have "c = CHR '' '' \<or> (\<exists>w \<in> set (words v). c \<in> set w)" if "c \<in> set (join '' '' (words v))"
      using set_join [of "'' ''" "words v"] that by auto
    ultimately show ?thesis using words_visible by blast
  qed
  moreover have "label_char (escape_label c)" if "c = CHR '' '' \<or> \<not> py_isspace c" for c
    using that visible by (cases "c = CHR 0x5C"; cases "c = CHR 0x60"; cases "c = CHR 0x22") (simp_all add: label_char_def escape_label_def)
  ultimately have "list_all label_char (map escape_label ?n)" by (auto simp: list_all_iff)
  then have "list_all label_char (take 160 (map escape_label ?n))" using in_set_takeD unfolding list_all_iff by fast
  then show ?thesis by (simp add: mermaid_label_def Let_def)
qed

text \<open>A bearer token is not redacted: the match of a header ends after the scheme.\<close>

lemma bearer_token_kept: "sanitize ''Authorization: Bearer abc123'' = ''[REDACTED_SECRET] abc123''"
  by code_simp

section \<open>What a passing report guarantees\<close>

definition regression_text :: "(string, string) dict \<Rightarrow> string" where
  "regression_text sections = section_text sections ''Regression evidence''"

text \<open>What the contract asks for, by the mode.\<close>

definition contract_met :: "(string \<Rightarrow> bool) \<Rightarrow> changed_file list \<Rightarrow> report_mode \<Rightarrow> (string, string) dict \<Rightarrow> bool" where
  "contract_met is_repo_file changed mode sections \<longleftrightarrow>
     (case mode of
        LIGHTWEIGHT \<Rightarrow> changed \<noteq> [] \<and> list_all (\<lambda>item. set (categories_for item) = {Documentation}) changed
      | STRICT \<Rightarrow> list_all (\<lambda>t. \<not> is_placeholder (section_text sections t)) SECTION_TITLES \<and>
          (executable_change changed \<longrightarrow> changed_tests changed \<noteq> [] \<or> referenced_test_paths is_repo_file (regression_text sections) \<noteq> [])) \<and>
     (validator_change changed \<longrightarrow> list_ex mutation_candidate (changed_tests changed))"

lemma validate_contract_met:
  assumes "fst (validate_contract is_repo_file changed (determine_mode changed) sections) = []"
  shows "contract_met is_repo_file changed (determine_mode changed) sections"
proof -
  have documents: "set (categories_for item) = {Documentation}" if "categories_for item = [Documentation]" for item using that by simp
  have tests: "list_ex mutation_candidate (changed_tests changed)" if "validator_change changed"
    using assms that by (auto simp: validate_contract_def Let_def filter_empty_conv list_ex_iff split: if_splits)
  show ?thesis
  proof (cases "determine_mode changed")
    case STRICT
    with assms have "filter (\<lambda>t. is_placeholder (section_text sections t)) SECTION_TITLES = []"
      by (simp add: validate_contract_def Let_def)
    then have "list_all (\<lambda>t. \<not> is_placeholder (section_text sections t)) SECTION_TITLES" by (simp add: filter_empty_conv list_all_iff)
    with assms STRICT tests show ?thesis
      by (auto simp: contract_met_def validate_contract_def Let_def regression_text_def split: if_splits)
  next
    case LIGHTWEIGHT
    then have "changed \<noteq> []" "list_all (\<lambda>item. categories_for item = [Documentation]) changed"
      by (auto simp: determine_mode_def split: if_splits)
    with LIGHTWEIGHT tests documents show ?thesis by (auto simp: contract_met_def list_all_iff)
  qed
qed

lemma validate_repository_state_clean:
  assumes "validate_repository_state git base head event_base event_head = Inr (clean, matches, [])"
  shows "is_sha base \<and> is_sha head \<and> base = event_base \<and> head = event_head \<and> clean \<and> matches \<and>
     (\<exists>r d. causal_git git [''rev-parse'', ''HEAD''] = Inr r \<and> py_strip (stdout r) = head \<and>
        causal_git git [''status'', ''--porcelain=v1'', ''--untracked-files=all''] = Inr d \<and> py_strip (stdout d) = [])"
  using assms by (auto simp: validate_repository_state_def validate_sha_def bindE_eq_Inr Let_def split: if_splits)

lemma report_passed_state:
  assumes "build_report fr git is_repo_file args = Inr r" "rp_passed r"
  shows "\<exists>s. examine fr git is_repo_file args initial_report_state = (Inr (), s) \<and> rs_errors s = [] \<and> r = make_report args s"
  using assms
  by (auto simp: build_report_def make_report_def split: prod.splits sum.splits error.splits)

lemma check_state_passed:
  assumes "check_state git is_repo_file args event_base s = (Inr (), s')" "rs_errors s' = []"
  shows "\<exists>changed. validate_repository_state git (ar_base_sha args) (ar_head_sha args) event_base (rs_event_head s) = Inr (rs_clean s', rs_matches s', []) \<and>
     parse_diff git (ar_base_sha args) (ar_head_sha args) = Inr (rs_changed s') \<and> rs_mode s' = determine_mode (rs_changed s') \<and>
     fst (validate_contract is_repo_file (rs_changed s') (rs_mode s') (rs_sections s)) = [] \<and> rs_sections s' = rs_sections s"
  using assms by (auto simp: check_state_def Let_def split: sum.splits prod.splits if_splits)

text \<open>C15: The gate fails closed: the command exits with 0 only if the event names exactly the given commits, the checkout is the
  head and clean, the diff was read, and the contract is met: every change is documentation, or all four sections say
  something and executable changes come with a test; and a change of a workflow or validator comes with a changed test of it.\<close>

theorem report_fails_closed:
  assumes "report_status (build_report fr git is_repo_file args) = 0"
  shows "\<exists>payload body changed r d. parse_event fr (ar_event args) = Inr payload \<and> body_text payload = Inr body \<and>
     nested_string payload [''pull_request'', ''base'', ''sha''] = Inr (ar_base_sha args) \<and>
     nested_string payload [''pull_request'', ''head'', ''sha''] = Inr (ar_head_sha args) \<and>
     is_sha (ar_base_sha args) \<and> is_sha (ar_head_sha args) \<and>
     causal_git git [''rev-parse'', ''HEAD''] = Inr r \<and> py_strip (stdout r) = ar_head_sha args \<and>
     causal_git git [''status'', ''--porcelain=v1'', ''--untracked-files=all''] = Inr d \<and> py_strip (stdout d) = [] \<and>
     parse_diff git (ar_base_sha args) (ar_head_sha args) = Inr changed \<and>
     contract_met is_repo_file changed (determine_mode changed) (parse_causal_sections body)"
proof -
  from assms obtain report where report: "build_report fr git is_repo_file args = Inr report" "rp_passed report"
    by (auto simp: report_status_def split: sum.splits if_splits)
  from report_passed_state [OF this] obtain s where s: "examine fr git is_repo_file args initial_report_state = (Inr (), s)" "rs_errors s = []"
    by blast
  then obtain payload event_base event_head body s0 where e: "parse_event fr (ar_event args) = Inr payload"
      "nested_string payload [''pull_request'', ''base'', ''sha''] = Inr event_base"
      "nested_string payload [''pull_request'', ''head'', ''sha''] = Inr event_head" "body_text payload = Inr body"
      "check_state git is_repo_file args event_base s0 = (Inr (), s)" "rs_event_head s0 = event_head" "rs_sections s0 = parse_causal_sections body"
    by (auto simp: examine_def bindE_eq_Inr bindE_eq_Inl Let_def split: sum.splits prod.splits)
  from check_state_passed [OF e(5) s(2)] e(6,7) have c:
      "validate_repository_state git (ar_base_sha args) (ar_head_sha args) event_base event_head = Inr (rs_clean s, rs_matches s, [])"
      "parse_diff git (ar_base_sha args) (ar_head_sha args) = Inr (rs_changed s)"
      "fst (validate_contract is_repo_file (rs_changed s) (determine_mode (rs_changed s)) (parse_causal_sections body)) = []"
    by auto
  from validate_repository_state_clean [OF c(1)] validate_contract_met [OF c(3)] e(1-4) c(2) show ?thesis by blast
qed

section \<open>Witness\<close>

text \<open>A pull request that changes one document, without a body.\<close>

definition sample_head :: string where
  "sample_head = replicate 40 (CHR ''1'')"

definition sample_base :: string where
  "sample_base = replicate 40 (CHR ''0'')"

definition sample_event_json :: json where
  "sample_event_json = JObj [(''pull_request'', JObj [(''base'', JObj [(''sha'', JStr sample_base)]), (''body'', JNull),
     (''head'', JObj [(''sha'', JStr sample_head)])])]"

definition sample_args :: report_args where
  "sample_args = \<lparr>ar_repository = ''owner/repository'', ar_base_sha = sample_base, ar_head_sha = sample_head,
     ar_event = Some (dump_json sample_event_json), ar_run_id = ''1'', ar_run_attempt = ''1''\<rparr>"

definition sample_pr_git :: git where
  "sample_pr_git args = \<lparr>returncode = 0,
     stdout = (if args = [''rev-parse'', ''HEAD''] then sample_head @ [CHR 0x0A]
       else if take 1 args = [''diff''] then ''M'' @ [CHR 0x09] @ ''docs/a.md'' @ [CHR 0x0A] else []),
     stderr = []\<rparr>"

lemma sample_event_parsed: "parse_event id (ar_event sample_args) = Inr [(''pull_request'', JObj [(''base'', JObj [(''sha'', JStr sample_base)]),
     (''body'', JNull), (''head'', JObj [(''sha'', JStr sample_head)])])]"
proof -
  have "json_ok id sample_event_json" "strings_ok sample_event_json" "canon_json sample_event_json = sample_event_json" by code_simp+
  then have "loads_text id (dump_json sample_event_json) = Inr sample_event_json" using loads_dumped(1) by metis
  then show ?thesis by (simp add: parse_event_def sample_args_def sample_event_json_def)
qed

lemma sample_state: "validate_repository_state sample_pr_git sample_base sample_head sample_base sample_head = Inr (True, True, [])"
proof -
  have "is_sha sample_base" "is_sha sample_head" "py_strip (sample_head @ [CHR 0x0A]) = sample_head" "py_strip [] = []" by code_simp+
  then show ?thesis
    by (simp add: validate_repository_state_def validate_sha_def causal_git_def sample_pr_git_def Let_def)
qed

definition sample_change :: changed_file where
  "sample_change = \<lparr>cf_status = ''M'', cf_path = ''docs/a.md'', cf_category = Documentation, cf_old_path = None, cf_old_category = None\<rparr>"

lemma sample_diff: "parse_diff sample_pr_git sample_base sample_head = Inr [sample_change]"
proof -
  have "mapE parse_record (filter (\<lambda>raw. py_strip raw \<noteq> []) (splitlines (''M'' @ [CHR 0x09] @ ''docs/a.md'' @ [CHR 0x0A]))) = Inr [sample_change]"
    by code_simp
  then show ?thesis by (simp add: parse_diff_def causal_git_def sample_pr_git_def)
qed

lemma sample_contract: "validate_contract (\<lambda>_. False) [sample_change] LIGHTWEIGHT (parse_causal_sections []) = ([], [])"
  by code_simp

lemma sample_report_passes: "report_status (build_report id sample_pr_git (\<lambda>_. False) sample_args) = 0"
proof -
  have "determine_mode [sample_change] = LIGHTWEIGHT" by (simp add: determine_mode_def sample_change_def categories_for_def)
  then have state: "check_state sample_pr_git (\<lambda>_. False) sample_args sample_base s = (Inr (), s\<lparr>rs_clean := True, rs_matches := True,
      rs_errors := rs_errors s, rs_changed := [sample_change], rs_mode := LIGHTWEIGHT, rs_tests := []\<rparr>)"
    if "rs_event_head s = sample_head" "rs_sections s = parse_causal_sections []" for s
    using that sample_state sample_diff sample_contract by (simp add: check_state_def sample_args_def)
  show ?thesis
    by (simp add: build_report_def examine_def sample_event_parsed nested_string_def body_text_def dict_get_default_def state
        initial_report_state_def report_status_def make_report_def)
qed

theorem report_fails_closed_witness:
  "\<exists>changed. parse_diff sample_pr_git sample_base sample_head = Inr changed \<and> is_sha sample_head \<and>
     contract_met (\<lambda>_. False) changed (determine_mode changed) (parse_causal_sections [])"
proof -
  have "body_text [(''pull_request'', JObj [(''base'', JObj [(''sha'', JStr sample_base)]), (''body'', JNull),
      (''head'', JObj [(''sha'', JStr sample_head)])])] = Inr []"
    by (simp add: body_text_def dict_get_default_def)
  with report_fails_closed [OF sample_report_passes] show ?thesis
    by (auto simp: sample_event_parsed) (auto simp: sample_args_def)
qed

end
