(* ===== verification/Logging.thy ===== *)
theory Logging
  imports Strings Json
begin

text \<open>
  \<open>logging.py\<close> and the correlation middleware of \<open>app.py\<close>: the redaction of log payloads, the payload of a record
  and the context variable of the correlation id.

  A payload is a JSON value; its serialisation, and the \<open>default=str\<close> of the serialiser for values that are not
  JSON, are left out.  A \<open>set\<close> of Python is the list of its items.  The time stamp, the text of an exception and fresh
  identifiers are arguments.

  The lemmas show that redaction leaves nothing under a sensitive key at any depth and changes nothing else, that
  it is idempotent, and what it does not reach: the message and the fields of a record themselves.
\<close>

section \<open>Redaction\<close>

definition SENSITIVE_FRAGMENTS :: "string list" where
  "SENSITIVE_FRAGMENTS = [''authorization'', ''token'', ''secret'', ''password'', ''credential'', ''api_key'']"

definition sensitive :: "string \<Rightarrow> bool" where
  "sensitive key \<longleftrightarrow> list_ex (\<lambda>fragment. contains fragment (py_lower key)) SENSITIVE_FRAGMENTS"

fun redact :: "json \<Rightarrow> string \<Rightarrow> json" where
  "redact (JObj kvs) key =
     (if sensitive key then JStr ''[REDACTED]'' else JObj (map (\<lambda>(k, v). (k, redact v k)) kvs))"
| "redact (JArr vs) key =
     (if sensitive key then JStr ''[REDACTED]'' else JArr (map (\<lambda>v. redact v []) vs))"
| "redact v key = (if sensitive key then JStr ''[REDACTED]'' else v)"

section \<open>Records\<close>

record log_record =
  levelname :: string
  log_message :: string
  log_extra :: "(string, json) dict"
  log_exception :: "string option"

definition optional_fields :: "string list" where
  "optional_fields = [''symbol'', ''provider'', ''client_id'', ''tier'', ''stream_id'', ''retry_count'', ''duration_ms'']"

text \<open>\<open>value or None\<close> for a string.\<close>

definition text_or_none :: "string \<Rightarrow> json" where
  "text_or_none s = (if s = [] then JNull else JStr s)"

definition base_payload :: "string \<Rightarrow> string \<Rightarrow> string \<Rightarrow> log_record \<Rightarrow> (string, json) dict" where
  "base_payload now correlation_id connection_id r =
     [(''timestamp'', JStr now), (''severity'', JStr (levelname r)),
      (''service'', dict_get_default (log_extra r) ''service'' (JStr ''gateway'')),
      (''event'', dict_get_default (log_extra r) ''event'' (JStr (log_message r))),
      (''message'', JStr (log_message r)), (''correlation_id'', text_or_none correlation_id),
      (''connection_id'', text_or_none connection_id)]"

definition add_field :: "log_record \<Rightarrow> (string, json) dict \<Rightarrow> string \<Rightarrow> (string, json) dict" where
  "add_field r payload field =
     (let value = dict_get_default (log_extra r) field JNull in
      if value \<noteq> JNull then dict_set field value payload else payload)"

definition record_payload :: "string \<Rightarrow> string \<Rightarrow> string \<Rightarrow> log_record \<Rightarrow> (string, json) dict" where
  "record_payload now correlation_id connection_id r =
     (let payload = foldl (add_field r) (base_payload now correlation_id connection_id r) optional_fields in
      case log_exception r of None \<Rightarrow> payload | Some s \<Rightarrow> dict_set ''exception'' (JStr s) payload)"

text \<open>The value that \<open>JsonFormatter.format\<close> serialises.\<close>

definition format_record :: "string \<Rightarrow> string \<Rightarrow> string \<Rightarrow> log_record \<Rightarrow> json" where
  "format_record now correlation_id connection_id r = redact (JObj (record_payload now correlation_id connection_id r)) []"

section \<open>Correlation\<close>

text \<open>The state is the value of \<open>correlation_id_var\<close>; \<open>fresh\<close> is the text of a new \<open>uuid4\<close>.\<close>

definition new_correlation_id :: "string \<Rightarrow> string option \<Rightarrow> string \<Rightarrow> string \<times> string" where
  "new_correlation_id fresh value var =
     (let correlation_id = (case value of None \<Rightarrow> fresh | Some [] \<Rightarrow> fresh | Some s \<Rightarrow> s) in (correlation_id, correlation_id))"

text \<open>A response is the dictionary of its headers; the handler may raise and sees the variable.\<close>

definition correlation_middleware ::
  "string \<Rightarrow> string option \<Rightarrow> (string, (string, string) dict) call \<Rightarrow> (string, (string, string) dict) call" where
  "correlation_middleware fresh incoming call_next var =
     (let (correlation_id, var1) = new_correlation_id fresh incoming var;
          (response, var2) = call_next var1
      in (bindE response (\<lambda>headers. Inr (dict_set ''x-correlation-id'' correlation_id headers)), []))"

section \<open>Lemmas\<close>

text \<open>What stands under a sensitive key, at any depth, and what does not.\<close>

fun secrets :: "json \<Rightarrow> string \<Rightarrow> json list" where
  "secrets (JObj kvs) key = (if sensitive key then [JObj kvs] else concat (map (\<lambda>(k, v). secrets v k) kvs))"
| "secrets (JArr vs) key = (if sensitive key then [JArr vs] else concat (map (\<lambda>v. secrets v []) vs))"
| "secrets v key = (if sensitive key then [v] else [])"

fun public_leaves :: "json \<Rightarrow> string \<Rightarrow> json list" where
  "public_leaves (JObj kvs) key = (if sensitive key then [] else concat (map (\<lambda>(k, v). public_leaves v k) kvs))"
| "public_leaves (JArr vs) key = (if sensitive key then [] else concat (map (\<lambda>v. public_leaves v []) vs))"
| "public_leaves v key = (if sensitive key then [] else [v])"

lemma concat_map_cong: "(\<And>x. x \<in> set xs \<Longrightarrow> f x = g x) \<Longrightarrow> concat (map f xs) = concat (map g xs)"
  by (metis map_cong)

lemma secrets_redacted: "set (secrets (redact v key) key) \<subseteq> {JStr ''[REDACTED]''}"
proof (induction v key rule: redact.induct)
  case (1 kvs key)
  then have "set (secrets (redact (snd p) (fst p)) (fst p)) \<subseteq> {JStr ''[REDACTED]''}"
    if "\<not> sensitive key" "p \<in> set kvs" for p using that by (cases p) auto
  then show ?case by (cases "sensitive key") (fastforce simp: split_def)+
next
  case (2 vs key)
  then show ?case by (cases "sensitive key") fastforce+
qed simp_all

lemma public_redacted: "public_leaves (redact v key) key = public_leaves v key"
proof (induction v key rule: redact.induct)
  case (1 kvs key)
  then have "public_leaves (redact (snd p) (fst p)) (fst p) = public_leaves (snd p) (fst p)"
    if "\<not> sensitive key" "p \<in> set kvs" for p using that by (cases p) auto
  then show ?case by (auto simp: o_def split_def intro!: concat_map_cong)
next
  case (2 vs key)
  then show ?case by (auto simp: o_def intro!: concat_map_cong)
qed auto

lemma redact_idem: "redact (redact v key) key = redact v key"
  by (induction v key rule: redact.induct) (auto split: prod.splits)

text \<open>Redaction is complete and changes nothing else: after it every value under a sensitive key, at any depth of
  the payload, is the mark, the other leaves are what they were, in order, and redacting again changes nothing.\<close>

theorem redaction_exact:
  "set (secrets (redact v key) key) \<subseteq> {JStr ''[REDACTED]''} \<and>
   public_leaves (redact v key) key = public_leaves v key \<and> redact (redact v key) key = redact v key"
  by (intro conjI secrets_redacted public_redacted redact_idem)

text \<open>The fields of a record are not sensitive, so that a scalar in one of them is written as it is.\<close>

lemma plain_fields:
  "list_all (\<lambda>k. \<not> sensitive k) ([''timestamp'', ''severity'', ''service'', ''event'', ''message'', ''correlation_id'',
     ''connection_id'', ''exception''] @ optional_fields)"
  by code_simp

lemma base_keys:
  "dict_keys (base_payload now c d r) =
   [''timestamp'', ''severity'', ''service'', ''event'', ''message'', ''correlation_id'', ''connection_id'']"
  by (simp add: base_payload_def dict_keys_def)

lemma add_fields_get: "k \<notin> set fs \<Longrightarrow> dict_get (foldl (add_field r) d fs) k = dict_get d k"
  by (induction fs arbitrary: d) (auto simp: add_field_def dict_get_set Let_def)

lemma payload_get:
  "k \<notin> set optional_fields \<Longrightarrow> k \<noteq> ''exception'' \<Longrightarrow> dict_get (record_payload now c d r) k = dict_get (base_payload now c d r) k"
  by (auto simp: record_payload_def add_fields_get dict_get_set Let_def split: option.splits)

lemma redacted_member: "dict_get (map (\<lambda>(k, v). (k, redact v k)) d) k = map_option (\<lambda>v. redact v k) (dict_get d k)"
  by (induction d) auto

lemma not_sensitive_Nil [simp]: "\<not> sensitive []"
  by code_simp

text \<open>A message reaches the log as it is, whatever secret it contains, and so does an exception.\<close>

lemma message_kept:
  "\<exists>kvs. format_record now c d r = JObj kvs \<and> dict_get kvs ''message'' = Some (JStr (log_message r)) \<and>
     (\<forall>s. log_exception r = Some s \<longrightarrow> dict_get kvs ''exception'' = Some (JStr s))"
proof -
  have plain: "\<not> sensitive ''message''" "\<not> sensitive ''exception''" using plain_fields by simp_all
  have "dict_get (base_payload now c d r) ''message'' = Some (JStr (log_message r))" by (simp add: base_payload_def)
  then have m: "dict_get (record_payload now c d r) ''message'' = Some (JStr (log_message r))"
    by (simp add: payload_get optional_fields_def)
  have "dict_get (record_payload now c d r) ''exception'' = Some (JStr s)" if "log_exception r = Some s" for s
    using that by (simp add: record_payload_def dict_get_set Let_def)
  with m plain show ?thesis by (simp add: format_record_def redacted_member)
qed

text \<open>The middleware always clears the variable, and a response carries the id the handler ran under.\<close>

lemma middleware_correlates:
  "\<exists>cid. cid = (if incoming = None \<or> incoming = Some [] then fresh else the incoming) \<and>
     correlation_middleware fresh incoming call_next var =
       (bindE (fst (call_next cid)) (\<lambda>hs. Inr (dict_set ''x-correlation-id'' cid hs)), [])"
  by (auto simp: correlation_middleware_def new_correlation_id_def split_def Let_def split: option.splits list.splits)

end
