(* ===== verification/Benchmark.thy ===== *)
theory Benchmark
  imports Prelude
begin

unbundle bit_operations_syntax

text \<open>
  The routing benchmark, \<open>benchmark.py\<close>, and the accounting of the load generator \<open>benchmarks/ws_load.py\<close>.

  Floats are exact numbers.  The random draws of \<open>random.Random\<close> are a list, the measured times and memory an
  argument; a run that would need more draws than the list has gives \<open>None\<close>.  The Markdown report, the
  parsing of arguments and the printing are left out, and of the load generator the sending of messages and the
  timers.

  The lemmas show what the benchmark measures: the deliveries of both modes in closed form, that the smart mode
  never subscribes or delivers more, so that the reported savings are percentages, and that the checksum of the loop
  cannot trigger its assertion.
\<close>

section \<open>The scenario and its clients\<close>

record benchmark_scenario =
  clients :: nat
  symbols_per_client :: nat
  symbol_universe :: nat
  events_per_symbol :: nat
  provider_events_per_second :: int
  quote_payload_bytes :: nat

definition benchmark_tiers :: "string list" where
  "benchmark_tiers = replicate 70 ''basic'' @ replicate 25 ''pro'' @ replicate 5 ''premium''"

text \<open>\<open>while len(chosen) < wanted: chosen.add(draw)\<close>\<close>

fun choose_symbols :: "nat \<Rightarrow> nat list \<Rightarrow> nat list \<Rightarrow> (nat list \<times> nat list) option" where
  "choose_symbols wanted chosen draws =
     (if wanted \<le> length chosen then Some (chosen, draws)
      else case draws of [] \<Rightarrow> None
        | d # ds \<Rightarrow> choose_symbols wanted (if d \<in> set chosen then chosen else chosen @ [d]) ds)"

declare choose_symbols.simps [simp del]

type_synonym bench_client = "string \<times> nat list"

fun build_clients_from :: "benchmark_scenario \<Rightarrow> nat list \<Rightarrow> nat list \<Rightarrow> bench_client list option" where
  "build_clients_from sc [] draws = Some []"
| "build_clients_from sc (i # is) draws =
     (case choose_symbols (min (symbols_per_client sc) (symbol_universe sc)) [] draws of
        None \<Rightarrow> None
      | Some (chosen, rest) \<Rightarrow>
          map_option ((#) (benchmark_tiers ! (i mod length benchmark_tiers), sort chosen)) (build_clients_from sc is rest))"

definition build_clients :: "benchmark_scenario \<Rightarrow> nat list \<Rightarrow> bench_client list option" where
  "build_clients sc draws = build_clients_from sc [0..<clients sc] draws"

section \<open>One mode\<close>

text \<open>\<open>round(x)\<close>: to the nearest integer, from half to the even one.\<close>

definition py_round :: "rat \<Rightarrow> int" where
  "py_round x = (let n = \<lfloor>x\<rfloor>; d = x - of_int n in
     if d < 1/2 then n else if d > 1/2 then n + 1 else if even n then n else n + 1)"

definition percentile :: "rat list \<Rightarrow> rat \<Rightarrow> rat" where
  "percentile values p =
     (if values = [] then 0
      else let ordered = sort values; n = int (length ordered) - 1 in
        ordered ! nat (min n (max 0 (py_round (of_int n * p)))))"

text \<open>\<open>statistics.median\<close>\<close>

definition median :: "rat list \<Rightarrow> rat" where
  "median values = (let ordered = sort values; n = length ordered in
     if odd n then ordered ! (n div 2) else (ordered ! (n div 2 - 1) + ordered ! (n div 2)) / 2)"

definition add_subscriber :: "string \<Rightarrow> (nat, string list) dict \<Rightarrow> nat \<Rightarrow> (nat, string list) dict" where
  "add_subscriber tier subs symbol = dict_set symbol (dict_get_default subs symbol [] @ [tier]) subs"

definition subscribers_of :: "bench_client list \<Rightarrow> (nat, string list) dict" where
  "subscribers_of cs = foldl (\<lambda>subs (tier, symbols). foldl (add_subscriber tier) subs symbols) [] cs"

definition tier_divisor :: "benchmark_scenario \<Rightarrow> (string, int) dict" where
  "tier_divisor sc = (let rate = of_int (provider_events_per_second sc) in
     [(''basic'', max 1 (py_round (rate / 1))), (''pro'', max 1 (py_round (rate / 5))), (''premium'', 1)])"

text \<open>\<open>tier_divisor[tier]\<close>\<close>

definition divisor_of :: "benchmark_scenario \<Rightarrow> string \<Rightarrow> int result" where
  "divisor_of sc tier = (case dict_get (tier_divisor sc) tier of None \<Rightarrow> Inl (KeyError tier) | Some d \<Rightarrow> Inr d)"

text \<open>The counters of the loop: what was delivered, and the checksum.\<close>

type_synonym loop_state = "int \<times> int"

definition deliver :: "nat \<Rightarrow> loop_state \<Rightarrow> loop_state" where
  "deliver symbol = (\<lambda>(delivered, checksum). (delivered + 1, checksum XOR (int symbol + (delivered + 1))))"

fun route_event :: "benchmark_scenario \<Rightarrow> bool \<Rightarrow> nat \<Rightarrow> nat \<Rightarrow> string list \<Rightarrow> loop_state \<Rightarrow> loop_state result" where
  "route_event sc optimized symbol n [] st = Inr st"
| "route_event sc optimized symbol n (tier # tiers) st =
     (if optimized then bindE (divisor_of sc tier) (\<lambda>d.
        route_event sc optimized symbol n tiers (if int n mod d = 0 then deliver symbol st else st))
      else route_event sc optimized symbol n tiers (deliver symbol st))"

fun route_events :: "benchmark_scenario \<Rightarrow> bool \<Rightarrow> nat \<Rightarrow> string list \<Rightarrow> nat list \<Rightarrow> loop_state \<Rightarrow> loop_state result" where
  "route_events sc optimized symbol tiers [] st = Inr st"
| "route_events sc optimized symbol tiers (n # ns) st =
     bindE (route_event sc optimized symbol n tiers st) (route_events sc optimized symbol tiers ns)"

fun route_symbols :: "benchmark_scenario \<Rightarrow> bool \<Rightarrow> (nat, string list) dict \<Rightarrow> loop_state \<Rightarrow> loop_state result" where
  "route_symbols sc optimized [] st = Inr st"
| "route_symbols sc optimized ((symbol, tiers) # rest) st =
     bindE (route_events sc optimized symbol tiers [0..<events_per_symbol sc] st) (route_symbols sc optimized rest)"

record measurement =
  elapsed_s :: rat
  cpu_s :: rat
  peak_bytes :: nat
  samples_us :: "rat list"

record benchmark_result =
  bench_mode :: string
  provider_subscriptions :: nat
  provider_events :: nat
  delivered_events :: int
  egress_payload_bytes :: int
  elapsed_seconds :: rat
  cpu_seconds :: rat
  peak_memory_bytes :: nat
  p50_processing_us :: rat
  p95_processing_us :: rat

definition run_mode :: "benchmark_scenario \<Rightarrow> bench_client list \<Rightarrow> bool \<Rightarrow> measurement \<Rightarrow> benchmark_result result" where
  "run_mode sc cs optimized m =
     (let subscribers = subscribers_of cs in
      bindE (route_symbols sc optimized subscribers (0, 0)) (\<lambda>(delivered, checksum).
      if checksum = - 1 then Inl (RuntimeError ''unreachable checksum'')
      else Inr \<lparr>bench_mode = (if optimized then ''smart'' else ''baseline''),
        provider_subscriptions = (if optimized then length subscribers else sum_list (map (\<lambda>c. length (snd c)) cs)),
        provider_events = length subscribers * events_per_symbol sc,
        delivered_events = delivered,
        egress_payload_bytes = delivered * int (quote_payload_bytes sc),
        elapsed_seconds = elapsed_s m, cpu_seconds = cpu_s m, peak_memory_bytes = peak_bytes m,
        p50_processing_us = (if samples_us m = [] then 0 else median (samples_us m)),
        p95_processing_us = percentile (samples_us m) (95/100)\<rparr>))"

section \<open>The comparison\<close>

definition savings :: "rat \<Rightarrow> rat \<Rightarrow> rat" where
  "savings before after = (if before \<noteq> 0 then (1 - after / before) * 100 else 0)"

record comparison =
  provider_subscription_reduction :: rat
  delivered_event_reduction :: rat
  egress_payload_reduction :: rat
  cpu_reduction :: rat
  peak_memory_reduction :: rat

definition compare_modes :: "benchmark_result \<Rightarrow> benchmark_result \<Rightarrow> comparison" where
  "compare_modes baseline smart =
     \<lparr>provider_subscription_reduction = savings (of_nat (provider_subscriptions baseline)) (of_nat (provider_subscriptions smart)),
      delivered_event_reduction = savings (of_int (delivered_events baseline)) (of_int (delivered_events smart)),
      egress_payload_reduction = savings (of_int (egress_payload_bytes baseline)) (of_int (egress_payload_bytes smart)),
      cpu_reduction = savings (cpu_seconds baseline) (cpu_seconds smart),
      peak_memory_reduction = savings (of_nat (peak_memory_bytes baseline)) (of_nat (peak_memory_bytes smart))\<rparr>"

definition run_benchmark ::
  "benchmark_scenario \<Rightarrow> nat list \<Rightarrow> measurement \<Rightarrow> measurement \<Rightarrow> (benchmark_result \<times> benchmark_result \<times> comparison) result option" where
  "run_benchmark sc draws m1 m2 =
     map_option (\<lambda>cs. bindE (run_mode sc cs False m1) (\<lambda>baseline. bindE (run_mode sc cs True m2) (\<lambda>smart.
       Inr (baseline, smart, compare_modes baseline smart)))) (build_clients sc draws)"

section \<open>The clients\<close>

lemma choose_symbols_result:
  "choose_symbols k chosen draws = Some (ys, rest) \<Longrightarrow> distinct chosen \<Longrightarrow> length chosen \<le> k \<Longrightarrow> distinct ys \<and> length ys = k"
proof (induction k chosen draws rule: choose_symbols.induct)
  case (1 k chosen draws)
  then show ?case
    by (auto simp: choose_symbols.simps [of k chosen draws] split: if_splits list.splits)
qed

text \<open>The loop ends as soon as the draws have shown enough different symbols.\<close>

lemma choose_symbols_ends: "k \<le> card (set chosen \<union> set draws) \<Longrightarrow> \<exists>r. choose_symbols k chosen draws = Some r"
proof (induction k chosen draws rule: choose_symbols.induct)
  case (1 k chosen draws)
  show ?case
  proof (cases "k \<le> length chosen")
    case False
    then have "draws \<noteq> []" using 1(2) card_length [of chosen] by auto
    then obtain d ds where d: "draws = d # ds" by (cases draws) auto
    moreover have "set (if d \<in> set chosen then chosen else chosen @ [d]) \<union> set ds = set chosen \<union> set draws" using d by auto
    ultimately show ?thesis using 1 False by (subst choose_symbols.simps) simp
  qed (simp add: choose_symbols.simps)
qed

definition client_ok :: "benchmark_scenario \<Rightarrow> bench_client \<Rightarrow> bool" where
  "client_ok sc c \<longleftrightarrow> fst c \<in> set benchmark_tiers \<and> sorted (snd c) \<and> distinct (snd c) \<and>
     length (snd c) = min (symbols_per_client sc) (symbol_universe sc)"

lemma build_clients_ok: "build_clients_from sc is draws = Some cs \<Longrightarrow> length cs = length is \<and> list_all (client_ok sc) cs"
proof (induction "is" arbitrary: draws cs)
  case (Cons i "is")
  then obtain chosen rest cs' where c: "choose_symbols (min (symbols_per_client sc) (symbol_universe sc)) [] draws = Some (chosen, rest)"
    "build_clients_from sc is rest = Some cs'" "cs = (benchmark_tiers ! (i mod length benchmark_tiers), sort chosen) # cs'"
    by (auto split: option.splits)
  have "benchmark_tiers ! (i mod length benchmark_tiers) \<in> set benchmark_tiers"
    by (rule nth_mem) (simp add: benchmark_tiers_def)
  then show ?case using c Cons.IH [OF c(2)] choose_symbols_result [OF c(1)] by (simp add: client_ok_def)
qed simp

section \<open>The counters\<close>

text \<open>A weight of tiers, summed over the subscribers of all symbols.\<close>

definition tally :: "(string \<Rightarrow> int) \<Rightarrow> (nat, string list) dict \<Rightarrow> int" where
  "tally w subs = sum_list (map (\<lambda>p. sum_list (map w (snd p))) subs)"

lemma tally_simps [simp]: "tally w [] = 0" "tally w (p # subs) = sum_list (map w (snd p)) + tally w subs"
  by (simp_all add: tally_def)

lemma tally_add: "tally w (add_subscriber tier subs symbol) = tally w subs + w tier"
  by (induction subs) (auto simp: add_subscriber_def dict_get_default_def)

lemma tally_add_all: "tally w (foldl (add_subscriber tier) subs symbols) = tally w subs + int (length symbols) * w tier"
  by (induction symbols arbitrary: subs) (simp_all add: tally_add algebra_simps)

lemma tally_subscribers: "tally w (subscribers_of cs) = sum_list (map (\<lambda>(tier, symbols). int (length symbols) * w tier) cs)"
proof -
  have "tally w (foldl (\<lambda>subs (tier, symbols). foldl (add_subscriber tier) subs symbols) subs cs) =
    tally w subs + sum_list (map (\<lambda>(tier, symbols). int (length symbols) * w tier) cs)" for subs
    by (induction cs arbitrary: subs) (auto simp: tally_add_all)
  then show ?thesis by (simp add: subscribers_of_def)
qed

lemma tally_sum: "tally (\<lambda>t. \<Sum>n\<leftarrow>ns. f n t) subs = (\<Sum>n\<leftarrow>ns. tally (f n) subs)"
  by (simp add: tally_def sum_list_addf [symmetric]) (induction ns; simp add: sum_list_addf)

lemma subscribers_length: "length (subscribers_of cs) \<le> sum_list (map (\<lambda>c. length (snd c)) cs)"
proof -
  have one: "length (foldl (add_subscriber tier) subs symbols) \<le> length subs + length symbols" for tier subs symbols
  proof (induction symbols arbitrary: subs)
    case (Cons s symbols)
    have "length (add_subscriber tier subs s) \<le> Suc (length subs)" by (simp add: add_subscriber_def length_dict_set)
    then show ?case using Cons [of "add_subscriber tier subs s"] by simp
  qed simp
  have "length (foldl (\<lambda>subs (tier, symbols). foldl (add_subscriber tier) subs symbols) subs cs) \<le>
    length subs + sum_list (map (\<lambda>c. length (snd c)) cs)" for subs
  proof (induction cs arbitrary: subs)
    case (Cons c cs)
    show ?case using Cons [of "foldl (add_subscriber (fst c)) subs (snd c)"] one [of "fst c" subs "snd c"] by (simp add: split_def)
  qed simp
  from this [of "[]"] show ?thesis by (simp add: subscribers_of_def)
qed

definition subscribers_tiers_ok :: "(nat, string list) dict \<Rightarrow> bool" where
  "subscribers_tiers_ok subs \<longleftrightarrow> (\<forall>p \<in> set subs. set (snd p) \<subseteq> set benchmark_tiers)"

lemma tiers_ok_add:
  assumes "subscribers_tiers_ok subs" "tier \<in> set benchmark_tiers" shows "subscribers_tiers_ok (add_subscriber tier subs symbol)"
  using assms by (induction subs) (auto simp: add_subscriber_def subscribers_tiers_ok_def dict_get_default_def)

lemma tiers_ok_subscribers:
  assumes "\<forall>c \<in> set cs. fst c \<in> set benchmark_tiers" shows "subscribers_tiers_ok (subscribers_of cs)"
proof -
  have one: "subscribers_tiers_ok (foldl (add_subscriber tier) subs symbols)"
    if "subscribers_tiers_ok subs" "tier \<in> set benchmark_tiers" for tier subs symbols
    using that by (induction symbols arbitrary: subs) (auto intro: tiers_ok_add)
  have "subscribers_tiers_ok (foldl (\<lambda>subs (tier, symbols). foldl (add_subscriber tier) subs symbols) subs cs)"
    if "subscribers_tiers_ok subs" "\<forall>c \<in> set cs. fst c \<in> set benchmark_tiers" for subs
    using that by (induction cs arbitrary: subs) (simp_all add: one split_def)
  moreover have "subscribers_tiers_ok []" by (simp add: subscribers_tiers_ok_def)
  ultimately show ?thesis using assms by (simp add: subscribers_of_def)
qed

text \<open>The number of times one event of one symbol is delivered for a tier.\<close>

definition the_divisor :: "benchmark_scenario \<Rightarrow> string \<Rightarrow> int" where
  "the_divisor sc tier = the (dict_get (tier_divisor sc) tier)"

definition share :: "benchmark_scenario \<Rightarrow> bool \<Rightarrow> nat \<Rightarrow> string \<Rightarrow> int" where
  "share sc optimized n tier = (if optimized \<and> int n mod the_divisor sc tier \<noteq> 0 then 0 else 1)"

lemma divisor_of_tier: "tier \<in> set benchmark_tiers \<Longrightarrow> divisor_of sc tier = Inr (the_divisor sc tier) \<and> 1 \<le> the_divisor sc tier"
  by (auto simp: divisor_of_def the_divisor_def tier_divisor_def benchmark_tiers_def Let_def)

definition counts :: "loop_state \<Rightarrow> loop_state result \<Rightarrow> int \<Rightarrow> bool" where
  "counts st result n \<longleftrightarrow> (\<exists>checksum. result = Inr (fst st + n, checksum) \<and> 0 \<le> checksum)"

lemma counts_return: "0 \<le> snd st \<Longrightarrow> counts st (Inr st) 0"
  by (cases st) (simp add: counts_def)

lemma counts_bind:
  assumes "counts st m k" "\<And>st'. fst st' = fst st + k \<Longrightarrow> 0 \<le> snd st' \<Longrightarrow> counts st' (f st') l"
  shows "counts st (bindE m f) (k + l)"
  using assms by (auto simp: counts_def algebra_simps)

lemma share_nonneg: "0 \<le> share sc optimized n tier"
  by (simp add: share_def)

lemma sum_nonneg: "(\<And>x. 0 \<le> (f x :: int)) \<Longrightarrow> 0 \<le> sum_list (map f xs)"
  by (induction xs) auto

lemma route_event_counts:
  "set tiers \<subseteq> set benchmark_tiers \<Longrightarrow> 0 \<le> fst st \<Longrightarrow> 0 \<le> snd st \<Longrightarrow>
   counts st (route_event sc optimized symbol n tiers st) (sum_list (map (share sc optimized n) tiers))"
proof (induction tiers arbitrary: st)
  case (Cons tier tiers)
  define st' where "st' = (if share sc optimized n tier = 1 then deliver symbol st else st)"
  have s: "fst st' = fst st + share sc optimized n tier" "0 \<le> fst st'" "0 \<le> snd st'"
    using Cons.prems by (auto simp: st'_def share_def deliver_def split_def)
  have "route_event sc optimized symbol n (tier # tiers) st = route_event sc optimized symbol n tiers st'"
    using divisor_of_tier [of tier sc] Cons.prems(1) by (auto simp: st'_def share_def)
  moreover have "counts st' (route_event sc optimized symbol n tiers st') (sum_list (map (share sc optimized n) tiers))"
    using Cons s by simp
  ultimately show ?case using s(1) by (simp add: counts_def algebra_simps)
qed (simp add: counts_return)

lemma route_events_counts:
  "set tiers \<subseteq> set benchmark_tiers \<Longrightarrow> 0 \<le> fst st \<Longrightarrow> 0 \<le> snd st \<Longrightarrow>
   counts st (route_events sc optimized symbol tiers ns st) (\<Sum>n\<leftarrow>ns. sum_list (map (share sc optimized n) tiers))"
proof (induction ns arbitrary: st)
  case (Cons n ns)
  have "0 \<le> sum_list (map (share sc optimized n) tiers)" by (rule sum_nonneg [OF share_nonneg])
  then show ?case
    using Cons by (auto intro!: counts_bind route_event_counts)
qed (simp add: counts_return)

lemma route_symbols_counts:
  "subscribers_tiers_ok subs \<Longrightarrow> 0 \<le> fst st \<Longrightarrow> 0 \<le> snd st \<Longrightarrow>
   counts st (route_symbols sc optimized subs st) (tally (\<lambda>t. \<Sum>n\<leftarrow>[0..<events_per_symbol sc]. share sc optimized n t) subs)"
proof (induction subs arbitrary: st)
  case (Cons p subs)
  let ?ns = "[0..<events_per_symbol sc]"
  have swap: "(\<Sum>n\<leftarrow>ns. sum_list (map (share sc optimized n) ts)) = sum_list (map (\<lambda>t. \<Sum>n\<leftarrow>ns. share sc optimized n t) ts)" for ns ts
    by (induction ns) (simp_all add: sum_list_addf)
  have nonneg: "0 \<le> (\<Sum>n\<leftarrow>?ns. sum_list (map (share sc optimized n) (snd p)))" by (intro sum_nonneg share_nonneg)
  obtain symbol tiers where p: "p = (symbol, tiers)" by (cases p)
  have "counts st (route_symbols sc optimized (p # subs) st)
      ((\<Sum>n\<leftarrow>?ns. sum_list (map (share sc optimized n) tiers)) +
       tally (\<lambda>t. \<Sum>n\<leftarrow>?ns. share sc optimized n t) subs)"
    unfolding p route_symbols.simps
    using Cons nonneg p by (intro counts_bind route_events_counts Cons.IH) (auto simp: subscribers_tiers_ok_def)
  then show ?case by (simp add: p swap)
qed (simp add: counts_return)

section \<open>What the benchmark reports\<close>

lemma div_step:
  assumes "(1::int) \<le> d" shows "(n + 1 + d - 1) div d = (n + d - 1) div d + (if n mod d = 0 then 1 else 0)"
proof -
  define q r where "q = n div d" and "r = n mod d"
  have n: "n = d * q + r" by (simp add: q_def r_def)
  have r: "0 \<le> r" "r < d" using assms by (simp_all add: r_def)
  have *: "(d * q + x) div d = q + x div d" for x using assms by simp
  have "(n + 1 + d - 1) div d = q + (r + d) div d" using * [of "r + d"] by (simp add: n algebra_simps)
  moreover have "(r + d) div d = 1" using r assms by simp
  moreover have "(n + d - 1) div d = q + (r + d - 1) div d" using * [of "r + d - 1"] by (simp add: n algebra_simps)
  moreover have "(r + d - 1) div d = (if r = 0 then 0 else 1)"
  proof (cases "r = 0")
    case False
    then have "(r + d - 1) div d = (r - 1 + d) div d" "0 \<le> r - 1" "r - 1 < d" using r by (simp_all add: algebra_simps)
    then show ?thesis using False assms by simp
  qed (use assms in simp)
  ultimately show ?thesis by (simp add: r_def)
qed

lemma share_sum:
  assumes "1 \<le> the_divisor sc tier"
  shows "(\<Sum>n\<leftarrow>[0..<k]. share sc optimized n tier) =
    (if optimized then (int k + the_divisor sc tier - 1) div the_divisor sc tier else int k)"
proof (induction k)
  case 0
  then show ?case using assms by simp
next
  case (Suc k)
  then show ?case using div_step [OF assms, of "int k"] by (auto simp: share_def algebra_simps)
qed

definition expected_deliveries :: "benchmark_scenario \<Rightarrow> bool \<Rightarrow> bench_client list \<Rightarrow> int" where
  "expected_deliveries sc optimized cs = (let k = int (events_per_symbol sc) in
     sum_list (map (\<lambda>(tier, symbols). int (length symbols) *
       (if optimized then (k + the_divisor sc tier - 1) div the_divisor sc tier else k)) cs))"

lemma run_mode_result:
  assumes "\<forall>c \<in> set cs. fst c \<in> set benchmark_tiers"
  shows "\<exists>r. run_mode sc cs optimized m = Inr r \<and> delivered_events r = expected_deliveries sc optimized cs \<and>
    egress_payload_bytes r = delivered_events r * int (quote_payload_bytes sc) \<and>
    provider_events r = length (subscribers_of cs) * events_per_symbol sc \<and>
    provider_subscriptions r = (if optimized then length (subscribers_of cs) else sum_list (map (\<lambda>c. length (snd c)) cs))"
proof -
  let ?w = "\<lambda>t. \<Sum>n\<leftarrow>[0..<events_per_symbol sc]. share sc optimized n t"
  have "tally ?w (subscribers_of cs) = expected_deliveries sc optimized cs"
    unfolding tally_subscribers expected_deliveries_def Let_def
    by (intro arg_cong [where f = sum_list] map_cong) (use assms divisor_of_tier share_sum in \<open>auto split: prod.splits\<close>)
  with route_symbols_counts [OF tiers_ok_subscribers [OF assms], of "(0, 0)" sc optimized]
  obtain checksum where "route_symbols sc optimized (subscribers_of cs) (0, 0) = Inr (expected_deliveries sc optimized cs, checksum)"
    "0 \<le> checksum" by (auto simp: counts_def)
  then show ?thesis by (simp add: run_mode_def Let_def)
qed

lemma expected_order:
  assumes "\<forall>c \<in> set cs. fst c \<in> set benchmark_tiers"
  shows "0 \<le> expected_deliveries sc True cs \<and> expected_deliveries sc True cs \<le> expected_deliveries sc False cs"
proof -
  have one: "0 \<le> (k + d - 1) div d \<and> (k + d - 1) div d \<le> k" if "0 \<le> k" "1 \<le> d" for k d :: int
  proof
    show "0 \<le> (k + d - 1) div d" using that by (simp add: pos_imp_zdiv_nonneg_iff)
    have "k + d - 1 \<le> k * d + (d - 1)" using that mult_left_mono [of 1 d k] by simp
    then have "(k + d - 1) div d \<le> (d * k + (d - 1)) div d" using that by (intro zdiv_mono1) (simp_all add: algebra_simps)
    also have "\<dots> = k" using that by simp
    finally show "(k + d - 1) div d \<le> k" .
  qed
  show ?thesis using assms
  proof (induction cs)
    case (Cons c cs)
    have "1 \<le> the_divisor sc (fst c)" using Cons.prems divisor_of_tier by auto
    note d = one [OF _ this, of "int (events_per_symbol sc)"]
    then have "int (length (snd c)) * ((int (events_per_symbol sc) + the_divisor sc (fst c) - 1) div the_divisor sc (fst c)) \<le>
      int (length (snd c)) * int (events_per_symbol sc)" by (intro mult_left_mono) auto
    moreover have "0 \<le> int (length (snd c)) * ((int (events_per_symbol sc) + the_divisor sc (fst c) - 1) div the_divisor sc (fst c))"
      using d by simp
    ultimately show ?case using Cons by (auto simp: expected_deliveries_def Let_def split_def)
  qed (simp add: expected_deliveries_def)
qed

lemma savings_percent: "0 \<le> after \<Longrightarrow> after \<le> before \<Longrightarrow> 0 \<le> savings before after \<and> savings before after \<le> 100"
  by (auto simp: savings_def field_simps)

definition percent :: "rat \<Rightarrow> bool" where
  "percent x \<longleftrightarrow> 0 \<le> x \<and> x \<le> 100"

lemma client_sums:
  assumes "list_all (client_ok sc) cs"
  shows "sum_list (map (\<lambda>c. length (snd c)) cs) = length cs * min (symbols_per_client sc) (symbol_universe sc)"
    "expected_deliveries sc False cs = int (length cs * min (symbols_per_client sc) (symbol_universe sc) * events_per_symbol sc)"
proof -
  show *: "sum_list (map (\<lambda>c. length (snd c)) cs) = length cs * min (symbols_per_client sc) (symbol_universe sc)"
    using assms by (induction cs) (auto simp: client_ok_def)
  have "expected_deliveries sc False cs = int (sum_list (map (\<lambda>c. length (snd c)) cs) * events_per_symbol sc)"
    by (induction cs) (auto simp: expected_deliveries_def Let_def algebra_simps)
  then show "expected_deliveries sc False cs = int (length cs * min (symbols_per_client sc) (symbol_universe sc) * events_per_symbol sc)"
    by (simp add: *)
qed

text \<open>Once its clients are drawn, the benchmark reports what it describes: the baseline delivers every event of every
  subscription, the smart mode every event that the divisor of the tier lets through, both take the same provider events,
  and the reported reductions of subscriptions, deliveries and payload are percentages; the assertion on the checksum
  never fails.\<close>

theorem benchmark_accounts:
  assumes "build_clients sc draws = Some cs"
  shows "\<exists>b s c. run_benchmark sc draws m1 m2 = Some (Inr (b, s, c)) \<and>
    delivered_events b = int (clients sc * min (symbols_per_client sc) (symbol_universe sc) * events_per_symbol sc) \<and>
    delivered_events s = expected_deliveries sc True cs \<and> provider_events b = provider_events s \<and>
    percent (provider_subscription_reduction c) \<and> percent (delivered_event_reduction c) \<and> percent (egress_payload_reduction c)"
proof -
  have ok: "list_all (client_ok sc) cs" "length cs = clients sc"
    using build_clients_ok [of sc "[0..<clients sc]"] assms by (simp_all add: build_clients_def)
  then have tiers: "\<forall>c \<in> set cs. fst c \<in> set benchmark_tiers" by (auto simp: list_all_iff client_ok_def)
  obtain b where b: "run_mode sc cs False m1 = Inr b" "delivered_events b = expected_deliveries sc False cs"
    "egress_payload_bytes b = delivered_events b * int (quote_payload_bytes sc)"
    "provider_events b = length (subscribers_of cs) * events_per_symbol sc"
    "provider_subscriptions b = sum_list (map (\<lambda>c. length (snd c)) cs)"
    using run_mode_result [OF tiers, of sc False m1] by auto
  obtain s where s: "run_mode sc cs True m2 = Inr s" "delivered_events s = expected_deliveries sc True cs"
    "egress_payload_bytes s = delivered_events s * int (quote_payload_bytes sc)"
    "provider_events s = length (subscribers_of cs) * events_per_symbol sc"
    "provider_subscriptions s = length (subscribers_of cs)"
    using run_mode_result [OF tiers, of sc True m2] by auto
  let ?c = "compare_modes b s"
  have "percent (provider_subscription_reduction ?c)"
    using savings_percent [of "of_nat (provider_subscriptions s)" "of_nat (provider_subscriptions b)"] subscribers_length [of cs]
    by (simp add: percent_def compare_modes_def b s)
  moreover have order: "0 \<le> delivered_events s" "delivered_events s \<le> delivered_events b"
    using expected_order [OF tiers, of sc] by (simp_all add: b s)
  then have "percent (delivered_event_reduction ?c)"
    using savings_percent [of "of_int (delivered_events s)" "of_int (delivered_events b)"]
    by (simp add: percent_def compare_modes_def)
  moreover have "percent (egress_payload_reduction ?c)"
    using savings_percent [of "of_int (egress_payload_bytes s)" "of_int (egress_payload_bytes b)"] order
    by (simp add: percent_def compare_modes_def b(3) s(3) mult_right_mono flip: of_int_mult)
  ultimately show ?thesis
    using b s ok client_sums [OF ok(1)] by (simp add: run_benchmark_def assms)
qed

definition sample_scenario :: benchmark_scenario where
  "sample_scenario = \<lparr>clients = 2, symbols_per_client = 2, symbol_universe = 3, events_per_symbol = 5,
     provider_events_per_second = 2, quote_payload_bytes = 256\<rparr>"

definition sample_measurement :: measurement where
  "sample_measurement = \<lparr>elapsed_s = 1, cpu_s = 1, peak_bytes = 1, samples_us = [1, 2, 3]\<rparr>"

theorem benchmark_accounts_witness:
  "\<exists>b s c. run_benchmark sample_scenario [0, 0, 2, 1, 0] sample_measurement sample_measurement = Some (Inr (b, s, c)) \<and>
    delivered_events b = 20 \<and> delivered_events s = 12 \<and> percent (delivered_event_reduction c)"
proof -
  have c: "build_clients sample_scenario [0, 0, 2, 1, 0] = Some [(''basic'', [0, 2]), (''basic'', [0, 1])]"
    by code_simp
  have "expected_deliveries sample_scenario True [(''basic'', [0, 2]), (''basic'', [0, 1])] = 12" by code_simp
  with benchmark_accounts [OF c, of sample_measurement sample_measurement] show ?thesis
    by (auto simp: sample_scenario_def)
qed

text \<open>Percentiles: a percentile of measured values is one of them.\<close>

lemma percentile_member: "values \<noteq> [] \<Longrightarrow> percentile values p \<in> set values"
proof -
  assume v: "values \<noteq> []"
  let ?i = "nat (min (int (length (sort values)) - 1) (max 0 (py_round (of_int (int (length (sort values)) - 1) * p))))"
  have "?i < length (sort values)" using v by (auto simp: nat_less_iff min_def)
  then have "sort values ! ?i \<in> set (sort values)" by (rule nth_mem)
  then show ?thesis using v by (simp add: percentile_def Let_def)
qed

end
