(* ===== verification/Load_Test.thy ===== *)
theory Load_Test
  imports Benchmark Strings Json
begin

text \<open>
  The network load generator, \<open>benchmarks/ws_load.py\<close>: what a client counts while it receives quotes, and the
  summary of all clients.

  What a socket delivers, the clock readings, \<open>datetime.fromisoformat\<close> and the bytes that were sent are
  arguments; connecting, the subscription and the keep-alive task only send.  A client that fails with an
  \<open>Exception\<close> is a left value.  Floats are exact.  Its \<open>percentile\<close> is that of the benchmark, whose lower bound on the index
  makes no difference for a non-negative fraction.

  The lemmas show that a client returns with exactly the number of quotes it was asked for, that messages of other
  types are counted as bytes only, and that the summary accounts for every client and every message.
\<close>

section \<open>One client\<close>

text \<open>A turn of the loop: the length of the message in bytes, the decoded message or the failure to receive or decode it,
  and the time at which its quote was seen.\<close>

record received_message =
  rm_bytes :: nat
  rm_payload :: "json result"
  rm_now :: instant

record client_report =
  cr_received :: nat
  cr_bytes_received :: nat
  cr_bytes_sent :: nat
  cr_latencies_ms :: "rat list"

definition provider_time :: "(string \<Rightarrow> datetime result) \<Rightarrow> json \<Rightarrow> instant result" where
  "provider_time of_iso payload =
     bindE (json_item payload ''data'') (\<lambda>data.
     bindE (json_item data ''quote'') (\<lambda>quote.
     bindE (json_item quote ''provider_timestamp'') (\<lambda>v. case v of
         JStr s \<Rightarrow> bindE (of_iso s) (\<lambda>d. Inr (dt_us d))
       | _ \<Rightarrow> Inl (TypeError ''fromisoformat: argument must be str''))))"

definition latency_ms :: "instant \<Rightarrow> instant \<Rightarrow> rat" where
  "latency_ms now sent = max 0 (of_int (now - sent) / of_int us_per_second * 1000)"

definition take_message :: "(string \<Rightarrow> datetime result) \<Rightarrow> received_message \<Rightarrow> client_report \<Rightarrow> client_report result" where
  "take_message of_iso m r =
     bindE (rm_payload m) (\<lambda>payload.
     let r = r\<lparr>cr_bytes_received := cr_bytes_received r + rm_bytes m\<rparr> in
     bindE (json_get payload ''type'') (\<lambda>kind.
     if kind \<noteq> JStr ''quote'' then Inr r
     else bindE (provider_time of_iso payload) (\<lambda>sent.
       Inr (r\<lparr>cr_latencies_ms := cr_latencies_ms r @ [latency_ms (rm_now m) sent], cr_received := cr_received r + 1\<rparr>))))"

text \<open>\<open>while received < messages\<close>; when the socket has nothing more the receive times out.\<close>

fun receive_quotes :: "(string \<Rightarrow> datetime result) \<Rightarrow> nat \<Rightarrow> received_message list \<Rightarrow> client_report \<Rightarrow> client_report result" where
  "receive_quotes of_iso wanted [] r = (if cr_received r < wanted then Inl (OSError ''timed out'') else Inr r)"
| "receive_quotes of_iso wanted (m # ms) r =
     (if cr_received r < wanted then bindE (take_message of_iso m r) (receive_quotes of_iso wanted ms) else Inr r)"

definition run_client ::
  "(string \<Rightarrow> datetime result) \<Rightarrow> nat \<Rightarrow> nat \<Rightarrow> unit result \<Rightarrow> nat \<Rightarrow> received_message list \<Rightarrow> client_report result" where
  "run_client of_iso wanted connected_bytes subscribed sent ms =
     bindE subscribed (\<lambda>_. bindE
       (receive_quotes of_iso wanted ms \<lparr>cr_received = 0, cr_bytes_received = connected_bytes, cr_bytes_sent = 0, cr_latencies_ms = []\<rparr>)
       (\<lambda>r. Inr (r\<lparr>cr_bytes_sent := sent\<rparr>)))"

section \<open>The summary\<close>

definition client_token :: "nat \<Rightarrow> string" where
  "client_token i = ''dev-'' @ benchmark_tiers ! (i mod length benchmark_tiers) @ '':load-'' @ string_of_nat i"

record load_results =
  successful_clients :: nat
  failed_clients :: nat
  received_messages :: nat
  throughput :: rat
  network_received :: nat
  network_sent :: nat
  latency_p50 :: rat
  latency_p95 :: rat
  latency_p99 :: rat
  load_errors :: "string list"

fun reports :: "client_report result list \<Rightarrow> client_report list" where
  "reports [] = []"
| "reports (Inr r # rs) = r # reports rs"
| "reports (Inl e # rs) = reports rs"

fun failures :: "client_report result list \<Rightarrow> string list" where
  "failures [] = []"
| "failures (Inr r # rs) = failures rs"
| "failures (Inl e # rs) = error_text e # failures rs"

definition summarise :: "rat \<Rightarrow> client_report result list \<Rightarrow> load_results" where
  "summarise elapsed results =
     (let successful = reports results; errors = failures results;
          latencies = concat (map cr_latencies_ms successful);
          received = sum_list (map cr_received successful) in
      \<lparr>successful_clients = length successful, failed_clients = length errors, received_messages = received,
       throughput = (if elapsed \<noteq> 0 then of_nat received / elapsed else 0),
       network_received = sum_list (map cr_bytes_received successful), network_sent = sum_list (map cr_bytes_sent successful),
       latency_p50 = (if latencies = [] then 0 else median latencies),
       latency_p95 = percentile latencies (95/100), latency_p99 = percentile latencies (99/100),
       load_errors = take 100 errors\<rparr>)"

section \<open>Lemmas\<close>

definition report_ok :: "client_report \<Rightarrow> bool" where
  "report_ok r \<longleftrightarrow> length (cr_latencies_ms r) = cr_received r \<and> list_all (\<lambda>x. 0 \<le> x) (cr_latencies_ms r)"

lemma take_message_ok:
  assumes "take_message of_iso m r = Inr r'" "report_ok r"
  shows "report_ok r' \<and> cr_received r \<le> cr_received r' \<and> cr_received r' \<le> cr_received r + 1 \<and>
    cr_bytes_received r' = cr_bytes_received r + rm_bytes m"
  using assms by (auto simp: take_message_def report_ok_def latency_ms_def bindE_eq_Inr Let_def split: if_splits)

lemma receive_quotes_ok:
  "receive_quotes of_iso wanted ms r = Inr r' \<Longrightarrow> report_ok r \<Longrightarrow> cr_received r \<le> wanted \<Longrightarrow> report_ok r' \<and> cr_received r' = wanted"
proof (induction ms arbitrary: r)
  case (Cons m ms)
  show ?case
  proof (cases "cr_received r < wanted")
    case True
    then obtain r1 where r1: "take_message of_iso m r = Inr r1" "receive_quotes of_iso wanted ms r1 = Inr r'"
      using Cons.prems(1) by (auto simp: bindE_eq_Inr)
    show ?thesis by (rule Cons.IH [OF r1(2)]) (use take_message_ok [OF r1(1) Cons.prems(2)] True in auto)
  qed (use Cons.prems in auto)
qed (auto split: if_splits)

text \<open>A client that returns has received what it was asked for, with a latency for each quote.\<close>

lemma run_client_complete:
  assumes "run_client of_iso wanted connected_bytes subscribed sent ms = Inr r"
  shows "cr_received r = wanted \<and> report_ok r"
proof -
  obtain r0 where r0: "receive_quotes of_iso wanted ms
      \<lparr>cr_received = 0, cr_bytes_received = connected_bytes, cr_bytes_sent = 0, cr_latencies_ms = []\<rparr> = Inr r0"
    "r = r0\<lparr>cr_bytes_sent := sent\<rparr>"
    using assms by (auto simp: run_client_def bindE_eq_Inr)
  then show ?thesis using receive_quotes_ok [OF r0(1)] by (simp add: report_ok_def)
qed

lemma reports_failures: "length (reports rs) + length (failures rs) = length rs"
  by (induction rs rule: reports.induct) auto

lemma in_reports: "r \<in> set (reports rs) \<longleftrightarrow> Inr r \<in> set rs"
  by (induction rs rule: reports.induct) auto

text \<open>The summary accounts for every client, and every client that counts as successful has received all its quotes.\<close>

lemma summary_accounts:
  assumes "\<forall>x \<in> set results. \<exists>subscribed connected sent ms. x = run_client of_iso wanted connected subscribed sent ms"
  shows "successful_clients (summarise elapsed results) + failed_clients (summarise elapsed results) = length results \<and>
    received_messages (summarise elapsed results) = wanted * successful_clients (summarise elapsed results) \<and>
    0 \<le> latency_p95 (summarise elapsed results) \<and> 0 \<le> latency_p99 (summarise elapsed results)"
proof -
  have ok: "cr_received r = wanted \<and> report_ok r" if "r \<in> set (reports results)" for r
  proof -
    obtain subscribed connected sent ms where "Inr r = run_client of_iso wanted connected subscribed sent ms"
      using assms \<open>r \<in> set (reports results)\<close> in_reports by blast
    then show ?thesis using run_client_complete [of of_iso wanted connected subscribed sent ms r] by simp
  qed
  have "sum_list (map cr_received rs) = wanted * length rs" if "\<forall>r \<in> set rs. cr_received r = wanted" for rs
    using that by (induction rs) auto
  then have "sum_list (map cr_received (reports results)) = wanted * length (reports results)" using ok by blast
  moreover have "0 \<le> x" if "x \<in> set (concat (map cr_latencies_ms (reports results)))" for x
    using ok that by (auto simp: report_ok_def list_all_iff)
  then have "0 \<le> percentile (concat (map cr_latencies_ms (reports results))) p" for p
    using percentile_member [of "concat (map cr_latencies_ms (reports results))" p]
    by (cases "concat (map cr_latencies_ms (reports results)) = []") (auto simp: percentile_def)
  ultimately show ?thesis using ok reports_failures [of results] by (simp add: summarise_def Let_def)
qed

end
