(* ===== verification/Contract_Check.thy ===== *)
theory Contract_Check
  imports Strings Json
begin

text \<open>
  The compatibility check of the public API, \<open>scripts/check_contract_compatibility.py\<close>.

  The manifest \<open>contracts/public-api-v1.json\<close> is its typed content; the schema that FastAPI generates and the
  decoded \<open>docs/asyncapi.yaml\<close> are arguments of any shape.  \<open>SystemExit\<close> is represented by a \<open>RuntimeError\<close> with
  its message.  The text that is printed on success is left out.

  The lemmas show that the check passes exactly when every promised path, operation, property, message type and
  action is still there.
\<close>

record api_manifest =
  rest_paths :: "(string \<times> string list) list"
  schema_properties :: "(string \<times> string list) list"
  ws_address :: string
  server_message_types :: "string list"
  client_actions :: "string list"

section \<open>Access\<close>

text \<open>\<open>value.get(key, default)\<close>, chains of it with \<open>{}\<close> as the default, and \<open>name in value\<close>.\<close>

definition get_or :: "json \<Rightarrow> string \<Rightarrow> json \<Rightarrow> json result" where
  "get_or v key d = (case v of JObj kvs \<Rightarrow> Inr (dict_get_default kvs key d) | _ \<Rightarrow> Inl (AttributeError ''get''))"

fun get_in :: "json \<Rightarrow> string list \<Rightarrow> json result" where
  "get_in v [] = Inr v"
| "get_in v (key # keys) = bindE (get_or v key (JObj [])) (\<lambda>w. get_in w keys)"

definition name_in :: "string \<Rightarrow> json \<Rightarrow> bool result" where
  "name_in name v = (case v of
       JObj kvs \<Rightarrow> Inr (name \<in> set (dict_keys kvs))
     | JArr xs \<Rightarrow> Inr (JStr name \<in> set xs)
     | JStr s \<Rightarrow> Inr (contains name s)
     | _ \<Rightarrow> Inl (TypeError ''argument is not iterable''))"

section \<open>The REST schema\<close>

definition operation_errors :: "string \<Rightarrow> json \<Rightarrow> string \<Rightarrow> string list result" where
  "operation_errors path current_path method =
     bindE (name_in method current_path) (\<lambda>present.
       Inr (if present then [] else [''removed REST operation: '' @ py_upper method @ '' '' @ path]))"

definition path_errors :: "json \<Rightarrow> string \<times> string list \<Rightarrow> string list result" where
  "path_errors openapi = (\<lambda>(path, methods).
     bindE (get_in openapi [''paths'']) (\<lambda>paths.
     bindE (get_or paths path JNull) (\<lambda>current_path.
       if current_path = JNull then Inr [''removed REST path: '' @ path]
       else bindE (mapE (operation_errors path current_path) methods) (\<lambda>ess. Inr (concat ess)))))"

definition property_errors :: "string \<Rightarrow> json \<Rightarrow> string \<Rightarrow> string list result" where
  "property_errors schema_name properties property_name =
     bindE (name_in property_name properties) (\<lambda>present.
       Inr (if present then [] else [''removed property: '' @ schema_name @ ''.'' @ property_name]))"

definition schema_errors :: "json \<Rightarrow> string \<times> string list \<Rightarrow> string list result" where
  "schema_errors schemas = (\<lambda>(schema_name, required_properties).
     bindE (get_or schemas schema_name JNull) (\<lambda>schema.
       if schema = JNull then Inr [''removed public schema: '' @ schema_name]
       else bindE (get_or schema ''properties'' (JObj [])) (\<lambda>properties.
         bindE (mapE (property_errors schema_name properties) required_properties) (\<lambda>ess. Inr (concat ess)))))"

section \<open>The WebSocket description\<close>

definition address_errors :: "api_manifest \<Rightarrow> json \<Rightarrow> string list result" where
  "address_errors m asyncapi =
     bindE (get_in asyncapi [''channels'', ''marketStream'']) (\<lambda>channel.
     bindE (json_get channel ''address'') (\<lambda>address.
       Inr (if address \<noteq> JStr (ws_address m) then [''WebSocket v1 address changed''] else [])))"

text \<open>\<open>set(names) - found\<close> and its message with the sorted names.\<close>

definition missing_names :: "string list \<Rightarrow> json list \<Rightarrow> string list" where
  "missing_names names found = sort (filter (\<lambda>n. JStr n \<notin> set found) (py_unique names))"

definition missing_errors :: "string \<Rightarrow> string list \<Rightarrow> json list \<Rightarrow> string list" where
  "missing_errors what names found =
     (let missing = missing_names names found in
      if missing \<noteq> [] then [''removed WebSocket '' @ what @ '': '' @ join '', '' missing] else [])"

definition type_errors :: "api_manifest \<Rightarrow> json \<Rightarrow> string list result" where
  "type_errors m asyncapi =
     bindE (get_in asyncapi [''components'', ''messages'', ''ServerMessage'', ''payload'', ''properties'', ''type'']) (\<lambda>v.
     bindE (get_or v ''enum'' (JArr [])) (\<lambda>server_message.
     bindE (json_set server_message) (\<lambda>found.
       Inr (missing_errors ''server message types'' (server_message_types m) found))))"

definition documented_action :: "json \<Rightarrow> json result" where
  "documented_action message =
     bindE (get_in message [''payload'', ''properties'', ''action'']) (\<lambda>v.
     bindE (json_get v ''const'') (\<lambda>c. if json_hashable c then Inr c else Inl (TypeError ''unhashable type'')))"

definition action_errors :: "api_manifest \<Rightarrow> json \<Rightarrow> string list result" where
  "action_errors m asyncapi =
     bindE (get_in asyncapi [''components'', ''messages'']) (\<lambda>v. case v of
         JObj kvs \<Rightarrow> bindE (mapE documented_action (map snd kvs)) (\<lambda>found.
           Inr (missing_errors ''client actions'' (client_actions m) found))
       | _ \<Rightarrow> Inl (AttributeError ''values''))"

section \<open>The check\<close>

definition contract_errors :: "api_manifest \<Rightarrow> json \<Rightarrow> json \<Rightarrow> string list result" where
  "contract_errors m openapi asyncapi =
     bindE (mapE (path_errors openapi) (rest_paths m)) (\<lambda>paths.
     bindE (get_in openapi [''components'', ''schemas'']) (\<lambda>schemas.
     bindE (mapE (schema_errors schemas) (schema_properties m)) (\<lambda>properties.
     bindE (address_errors m asyncapi) (\<lambda>address.
     bindE (type_errors m asyncapi) (\<lambda>types.
     bindE (action_errors m asyncapi) (\<lambda>actions.
       Inr (concat paths @ concat properties @ address @ types @ actions)))))))"

definition check_contract :: "api_manifest \<Rightarrow> json \<Rightarrow> json \<Rightarrow> unit result" where
  "check_contract m openapi asyncapi =
     bindE (contract_errors m openapi asyncapi) (\<lambda>errors.
       if errors \<noteq> [] then Inl (RuntimeError (''Public API v1 compatibility failure:'' @ [CHR 0x0A] @ ''- '' @
         join ([CHR 0x0A] @ ''- '') errors))
       else Inr ())"

section \<open>What a compatible schema contains\<close>

text \<open>The value at a path of keys.\<close>

fun at_path :: "json \<Rightarrow> string list \<Rightarrow> json option" where
  "at_path v [] = Some v"
| "at_path v (key # keys) = (case v of JObj kvs \<Rightarrow> Option.bind (dict_get kvs key) (\<lambda>w. at_path w keys) | _ \<Rightarrow> None)"

definition names_kept :: "json \<Rightarrow> string list \<Rightarrow> string list \<Rightarrow> bool" where
  "names_kept doc path names \<longleftrightarrow>
     (\<forall>name \<in> set names. \<exists>v. at_path doc path = Some v \<and> name_in name v = Inr True)"

definition path_kept :: "json \<Rightarrow> string \<times> string list \<Rightarrow> bool" where
  "path_kept openapi = (\<lambda>(path, methods).
     at_path openapi [''paths'', path] \<notin> {None, Some JNull} \<and> names_kept openapi [''paths'', path] methods)"

definition schema_kept :: "json \<Rightarrow> string \<times> string list \<Rightarrow> bool" where
  "schema_kept openapi = (\<lambda>(schema, properties).
     at_path openapi [''components'', ''schemas'', schema] \<notin> {None, Some JNull} \<and>
     names_kept openapi [''components'', ''schemas'', schema, ''properties''] properties)"

definition stream_kept :: "api_manifest \<Rightarrow> json \<Rightarrow> bool" where
  "stream_kept m asyncapi \<longleftrightarrow>
     at_path asyncapi [''channels'', ''marketStream'', ''address''] = Some (JStr (ws_address m)) \<and>
     (\<forall>t \<in> set (server_message_types m). \<exists>v found.
        at_path asyncapi [''components'', ''messages'', ''ServerMessage'', ''payload'', ''properties'', ''type'', ''enum''] = Some v \<and>
        json_set v = Inr found \<and> JStr t \<in> set found) \<and>
     (\<forall>a \<in> set (client_actions m). \<exists>kvs message.
        at_path asyncapi [''components'', ''messages''] = Some (JObj kvs) \<and> message \<in> snd ` set kvs \<and>
        at_path message [''payload'', ''properties'', ''action'', ''const''] = Some (JStr a))"

section \<open>Lemmas\<close>

lemma get_or_at: "get_or v key d = Inr w \<Longrightarrow> w = (case at_path v [key] of None \<Rightarrow> d | Some x \<Rightarrow> x)"
  by (auto simp: get_or_def dict_get_default_def split: json.splits option.splits)

lemma json_get_at: "json_get v key = Inr w \<Longrightarrow> w = (case at_path v [key] of None \<Rightarrow> JNull | Some x \<Rightarrow> x)"
  by (auto simp: json_get_def jget_def split: json.splits option.splits)

lemma at_path_Nil_object [simp]: "at_path (JObj []) (k # ks) = None"
  by simp

lemma at_path_append: "at_path v (ks @ ls) = Option.bind (at_path v ks) (\<lambda>w. at_path w ls)"
  by (induction ks arbitrary: v) (auto split: json.splits)

lemma get_in_at: "get_in v keys = Inr w \<Longrightarrow> at_path v (keys @ k # ks) = at_path w (k # ks)"
proof (induction keys arbitrary: v)
  case (Cons key keys)
  then obtain x where x: "get_or v key (JObj []) = Inr x" "get_in x keys = Inr w" by (auto simp: bindE_eq_Inr)
  have "at_path v (key # keys @ k # ks) = at_path x (keys @ k # ks)"
    using x(1) by (cases keys) (auto simp: get_or_def dict_get_default_def split: json.splits option.splits)
  with Cons.IH [OF x(2)] show ?case by simp
qed simp

text \<open>A loop that collects messages collects none when no item gives one.\<close>

lemma mapE_concat_Nil:
  "mapE f xs = Inr yss \<Longrightarrow> (\<And>x es. f x = Inr es \<Longrightarrow> es = [] \<longleftrightarrow> P x) \<Longrightarrow> concat yss = [] \<longleftrightarrow> (\<forall>x \<in> set xs. P x)"
proof (induction xs arbitrary: yss)
  case (Cons x xs)
  then obtain ys yss' where y: "f x = Inr ys" "mapE f xs = Inr yss'" "yss = ys # yss'" by (auto simp: bindE_eq_Inr)
  then show ?case using Cons.IH [OF y(2) Cons.prems(2)] Cons.prems(2) [OF y(1)] by (simp del: concat_eq_Nil_conv)
qed simp

lemma operation_errors_Nil: "operation_errors path v name = Inr es \<Longrightarrow> es = [] \<longleftrightarrow> name_in name v = Inr True"
  by (auto simp: operation_errors_def bindE_eq_Inr split: if_splits)

lemma property_errors_Nil: "property_errors schema v name = Inr es \<Longrightarrow> es = [] \<longleftrightarrow> name_in name v = Inr True"
  by (auto simp: property_errors_def bindE_eq_Inr split: if_splits)

lemma operation_names:
  "mapE (operation_errors path v) names = Inr ess \<Longrightarrow> concat ess = [] \<longleftrightarrow> (\<forall>x \<in> set names. name_in x v = Inr True)"
  by (rule mapE_concat_Nil, assumption, erule operation_errors_Nil)

lemma property_names:
  "mapE (property_errors schema v) names = Inr ess \<Longrightarrow> concat ess = [] \<longleftrightarrow> (\<forall>x \<in> set names. name_in x v = Inr True)"
  by (rule mapE_concat_Nil, assumption, erule property_errors_Nil)

lemma path_errors_Nil:
  assumes "path_errors openapi (path, methods) = Inr es"
  shows "es = [] \<longleftrightarrow> path_kept openapi (path, methods)"
proof -
  obtain paths current where p: "get_in openapi [''paths''] = Inr paths" "get_or paths path JNull = Inr current"
    "(if current = JNull then Inr [''removed REST path: '' @ path]
      else bindE (mapE (operation_errors path current) methods) (\<lambda>ess. Inr (concat ess))) = Inr es"
    using assms by (auto simp: path_errors_def bindE_eq_Inr simp del: get_in.simps)
  note at = get_in_at [OF p(1), of path "[]", simplified append.simps] get_or_at [OF p(2)]
  show ?thesis
  proof (cases "current = JNull")
    case True
    then show ?thesis using at p(3) by (auto simp: path_kept_def split: option.splits)
  next
    case False
    then obtain ess where "mapE (operation_errors path current) methods = Inr ess" "es = concat ess"
      using p(3) by (auto simp: bindE_eq_Inr)
    then have "es = [] \<longleftrightarrow> (\<forall>x \<in> set methods. name_in x current = Inr True)"
      by (simp only: operation_names)
    moreover have "at_path openapi [''paths'', path] = Some current" using at False by (auto split: option.splits)
    ultimately show ?thesis using False by (simp add: path_kept_def names_kept_def del: at_path.simps)
  qed
qed

lemma schema_errors_Nil:
  assumes "get_in openapi [''components'', ''schemas''] = Inr schemas" "schema_errors schemas (schema, properties) = Inr es"
  shows "es = [] \<longleftrightarrow> schema_kept openapi (schema, properties)"
proof -
  obtain v where v: "get_or schemas schema JNull = Inr v"
    "(if v = JNull then Inr [''removed public schema: '' @ schema]
      else bindE (get_or v ''properties'' (JObj [])) (\<lambda>ps.
        bindE (mapE (property_errors schema ps) properties) (\<lambda>ess. Inr (concat ess)))) = Inr es"
    using assms(2) by (auto simp: schema_errors_def bindE_eq_Inr)
  note at = get_in_at [OF assms(1), of schema "[]", simplified append.simps]
    get_in_at [OF assms(1), of schema "[''properties'']", simplified append.simps] get_or_at [OF v(1)]
  show ?thesis
  proof (cases "v = JNull")
    case True
    then show ?thesis using at v(2) by (auto simp: schema_kept_def split: option.splits simp del: at_path.simps)
  next
    case False
    then obtain ps ess where p: "get_or v ''properties'' (JObj []) = Inr ps"
      "mapE (property_errors schema ps) properties = Inr ess" "es = concat ess"
      using v(2) by (auto simp: bindE_eq_Inr)
    have "at_path schemas [schema] = Some v" using at(3) False by (auto split: option.splits simp del: at_path.simps)
    then have s: "at_path schemas [schema, ''properties''] = at_path v [''properties'']"
      using at_path_append [of schemas "[schema]" "[''properties'']"] by (simp del: at_path.simps)
    have "es = [] \<longleftrightarrow> (\<forall>x \<in> set properties. name_in x ps = Inr True)"
      by (simp only: p(3) property_names [OF p(2)])
    moreover have "name_in x (JObj []) \<noteq> Inr True" for x by (simp add: name_in_def dict_keys_def)
    then have "(\<forall>x \<in> set properties. name_in x ps = Inr True) \<longleftrightarrow> names_kept openapi [''components'', ''schemas'', schema, ''properties''] properties"
      using get_or_at [OF p(1)] at(2) s by (auto simp: names_kept_def simp del: at_path.simps split: option.splits)
    ultimately show ?thesis using at(1) \<open>at_path schemas [schema] = Some v\<close> False by (simp add: schema_kept_def del: at_path.simps)
  qed
qed

lemma missing_errors_Nil: "missing_errors what names found = [] \<longleftrightarrow> (\<forall>n \<in> set names. JStr n \<in> set found)"
proof -
  have "missing_names names found = [] \<longleftrightarrow> set (missing_names names found) = {}" by simp
  also have "\<dots> \<longleftrightarrow> (\<forall>n \<in> set names. JStr n \<in> set found)" by (auto simp: missing_names_def)
  finally show ?thesis by (simp add: missing_errors_def Let_def)
qed

lemma address_errors_Nil:
  assumes "address_errors m asyncapi = Inr es"
  shows "es = [] \<longleftrightarrow> at_path asyncapi [''channels'', ''marketStream'', ''address''] = Some (JStr (ws_address m))"
proof -
  obtain channel address where a: "get_in asyncapi [''channels'', ''marketStream''] = Inr channel" "json_get channel ''address'' = Inr address"
    "es = (if address \<noteq> JStr (ws_address m) then [''WebSocket v1 address changed''] else [])"
    using assms by (auto simp: address_errors_def bindE_eq_Inr simp del: get_in.simps)
  then show ?thesis
    using get_in_at [OF a(1), of "''address''" "[]", simplified append.simps] json_get_at [OF a(2)]
    by (auto split: option.splits simp del: at_path.simps)
qed

lemma type_errors_Nil:
  assumes "type_errors m asyncapi = Inr es"
  shows "es = [] \<longleftrightarrow> (\<forall>t \<in> set (server_message_types m). \<exists>v found.
    at_path asyncapi [''components'', ''messages'', ''ServerMessage'', ''payload'', ''properties'', ''type'', ''enum''] = Some v \<and>
    json_set v = Inr found \<and> JStr t \<in> set found)"
proof -
  obtain v e found where v: "get_in asyncapi [''components'', ''messages'', ''ServerMessage'', ''payload'', ''properties'', ''type''] = Inr v"
    "get_or v ''enum'' (JArr []) = Inr e" "json_set e = Inr found"
    "es = missing_errors ''server message types'' (server_message_types m) found"
    using assms by (auto simp: type_errors_def bindE_eq_Inr simp del: get_in.simps)
  have "json_set (JArr []) = Inr []" by (simp add: json_set_def json_iter_def)
  then show ?thesis
    using get_in_at [OF v(1), of "''enum''" "[]", simplified append.simps] get_or_at [OF v(2)] v(3,4)
    by (auto simp: missing_errors_Nil split: option.splits simp del: at_path.simps)
qed

lemma documented_action_at:
  assumes "documented_action message = Inr c"
  shows "c = JStr a \<longleftrightarrow> at_path message [''payload'', ''properties'', ''action'', ''const''] = Some (JStr a)"
proof -
  obtain v where v: "get_in message [''payload'', ''properties'', ''action''] = Inr v" "json_get v ''const'' = Inr c"
    using assms by (auto simp: documented_action_def bindE_eq_Inr simp del: get_in.simps split: if_splits)
  then show ?thesis
    using get_in_at [OF v(1), of "''const''" "[]", simplified append.simps] json_get_at [OF v(2)]
    by (auto split: option.splits simp del: at_path.simps)
qed

lemma action_errors_Nil:
  assumes "action_errors m asyncapi = Inr es"
  shows "es = [] \<longleftrightarrow> (\<forall>a \<in> set (client_actions m). \<exists>kvs message.
    at_path asyncapi [''components'', ''messages''] = Some (JObj kvs) \<and> message \<in> snd ` set kvs \<and>
    at_path message [''payload'', ''properties'', ''action'', ''const''] = Some (JStr a))"
proof -
  obtain c messages where c: "get_in asyncapi [''components''] = Inr c" "get_or c ''messages'' (JObj []) = Inr messages"
    "(case messages of JObj kvs \<Rightarrow> bindE (mapE documented_action (map snd kvs)) (\<lambda>found.
       Inr (missing_errors ''client actions'' (client_actions m) found)) | _ \<Rightarrow> Inl (AttributeError ''values'')) = Inr es"
    using assms by (auto simp: action_errors_def bindE_eq_Inr)
  obtain kvs found where k: "messages = JObj kvs" "mapE documented_action (map snd kvs) = Inr found"
    "es = missing_errors ''client actions'' (client_actions m) found"
    using c(3) by (auto simp: bindE_eq_Inr split: json.splits)
  have found: "list_all2 (\<lambda>x y. documented_action x = Inr y) (map snd kvs) found" using k(2) by (simp add: mapE_Inr_iff)
  have "JStr a \<in> set ys \<longleftrightarrow> (\<exists>x \<in> set xs. at_path x [''payload'', ''properties'', ''action'', ''const''] = Some (JStr a))"
    if "list_all2 (\<lambda>x y. documented_action x = Inr y) xs ys" for a xs ys
    using that
  proof (induction rule: list_all2_induct)
    case (Cons x xs y ys)
    then show ?case using documented_action_at [OF Cons(1), of a] by (auto simp del: at_path.simps)
  qed simp
  note this [OF found]
  moreover have "messages = (case at_path asyncapi [''components'', ''messages''] of None \<Rightarrow> JObj [] | Some x \<Rightarrow> x)"
    using get_in_at [OF c(1), of "''messages''" "[]", simplified append.simps] get_or_at [OF c(2)] by simp
  ultimately show ?thesis using k(1,3) by (auto simp: missing_errors_Nil split: option.splits simp del: at_path.simps)
qed

text \<open>C17: the compatibility check is exact: when it returns, it passes if and only if every promised REST path and operation,
  every property of every promised schema, the address of the stream, every server message type and every client
  action are still described.\<close>

theorem contract_check_exact:
  assumes "contract_errors m openapi asyncapi = Inr errors"
  shows "check_contract m openapi asyncapi = Inr () \<longleftrightarrow> (\<forall>p \<in> set (rest_paths m). path_kept openapi p) \<and>
    (\<forall>p \<in> set (schema_properties m). schema_kept openapi p) \<and> stream_kept m asyncapi"
proof -
  obtain paths schemas properties address types actions where c:
    "mapE (path_errors openapi) (rest_paths m) = Inr paths" "get_in openapi [''components'', ''schemas''] = Inr schemas"
    "mapE (schema_errors schemas) (schema_properties m) = Inr properties" "address_errors m asyncapi = Inr address"
    "type_errors m asyncapi = Inr types" "action_errors m asyncapi = Inr actions"
    "errors = concat paths @ concat properties @ address @ types @ actions"
    using assms by (auto simp: contract_errors_def bindE_eq_Inr simp del: get_in.simps)
  have "concat paths = [] \<longleftrightarrow> (\<forall>p \<in> set (rest_paths m). path_kept openapi p)"
    by (rule mapE_concat_Nil [OF c(1)]) (use path_errors_Nil in auto)
  moreover have "concat properties = [] \<longleftrightarrow> (\<forall>p \<in> set (schema_properties m). schema_kept openapi p)"
    by (rule mapE_concat_Nil [OF c(3)]) (use schema_errors_Nil [OF c(2)] in auto)
  moreover have "address = [] \<and> types = [] \<and> actions = [] \<longleftrightarrow> stream_kept m asyncapi"
    using address_errors_Nil [OF c(4)] type_errors_Nil [OF c(5)] action_errors_Nil [OF c(6)]
    by (simp add: stream_kept_def del: at_path.simps)
  moreover have "check_contract m openapi asyncapi = Inr () \<longleftrightarrow> errors = []" by (simp add: check_contract_def assms)
  ultimately show ?thesis using c(7) by (simp del: concat_eq_Nil_conv)
qed

definition sample_api :: api_manifest where
  "sample_api = \<lparr>rest_paths = [(''/v1/quotes'', [''get''])], schema_properties = [(''Candle'', [''symbol''])],
     ws_address = ''/v1/stream'', server_message_types = [''quote''], client_actions = [''ping'']\<rparr>"

definition sample_openapi :: json where
  "sample_openapi = JObj [(''paths'', JObj [(''/v1/quotes'', JObj [(''get'', JObj [])])]),
     (''components'', JObj [(''schemas'', JObj [(''Candle'', JObj [(''properties'', JObj [(''symbol'', JObj [])])])])])]"

definition sample_asyncapi :: "string \<Rightarrow> json" where
  "sample_asyncapi action = JObj [(''channels'', JObj [(''marketStream'', JObj [(''address'', JStr ''/v1/stream'')])]),
     (''components'', JObj [(''messages'', JObj [
        (''ServerMessage'', JObj [(''payload'', JObj [(''properties'', JObj [(''type'', JObj [(''enum'', JArr [JStr ''quote''])])])])]),
        (''Ping'', JObj [(''payload'', JObj [(''properties'', JObj [(''action'', JObj [(''const'', JStr action)])])])])])])]"

theorem contract_check_exact_witness:
  "path_kept sample_openapi (''/v1/quotes'', [''get'']) \<and> stream_kept sample_api (sample_asyncapi ''ping'') \<and>
   \<not> stream_kept sample_api (sample_asyncapi ''pong'')"
proof -
  have "contract_errors sample_api sample_openapi (sample_asyncapi ''ping'') = Inr []"
    "contract_errors sample_api sample_openapi (sample_asyncapi ''pong'') = Inr [''removed WebSocket client actions: ping'']"
    by code_simp+
  note e = this
  have "check_contract sample_api sample_openapi (sample_asyncapi ''ping'') = Inr ()"
    "check_contract sample_api sample_openapi (sample_asyncapi ''pong'') \<noteq> Inr ()"
    by (simp_all add: check_contract_def e)
  moreover have "(''/v1/quotes'', [''get'']) \<in> set (rest_paths sample_api)" by (simp add: sample_api_def)
  ultimately show ?thesis using contract_check_exact [OF e(1)] contract_check_exact [OF e(2)] by blast
qed

end
