(* ===== verification/Services.thy ===== *)
theory Services
  imports Candle_Api Collector Observability
begin

text \<open>
  How the processes start and stop: the lifespan of the application (\<open>create_app\<close> in \<open>app.py\<close>), \<open>run\<close> of the
  collector, \<open>start\<close> and \<open>close\<close> of the sinks and the main functions of the workers; and the calls of \<open>RedisStore\<close>
  they rest on: consumer groups, reading of a group, the backlog and the fan-out channel.

  The creation of a group is an operation of the server with the laws of the locale \<open>group_server\<close>; the outcomes of
  the other calls that open or close a resource are arguments.  A task that runs is a member of a set; what it does
  meanwhile is modelled in the theories of the components.  Waiting for the tasks ends with all of them ended, since
  \<open>wait_for\<close> cancels what it waited for.

  The lemmas show that the groups exist after a start and that a start can be repeated, that the application starts
  with or without its archive, that a stop closes every resource and task whatever the sessions left, and which
  resources a failed start leaves open.
\<close>

section \<open>Consumer groups\<close>

text \<open>\<open>XGROUP CREATE stream group 0 MKSTREAM\<close>\<close>

type_synonym 'r create_group = "string \<times> string \<Rightarrow> ('r, unit) call"

definition group_exists_error :: "error \<Rightarrow> bool" where
  "group_exists_error e = (case e of RedisError t \<Rightarrow> contains ''BUSYGROUP'' t | _ \<Rightarrow> False)"

locale group_server =
  fixes create :: "'r create_group" and has_group :: "'r \<Rightarrow> string \<times> string \<Rightarrow> bool"
  assumes created: "create p r = (m, r') \<Longrightarrow> m = Inr () \<or> (\<exists>e. m = Inl e \<and> group_exists_error e) \<Longrightarrow> has_group r' p"
    and kept: "create p r = (m, r') \<Longrightarrow> has_group r q \<Longrightarrow> has_group r' q"

definition ensure_group :: "'r create_group \<Rightarrow> string \<times> string \<Rightarrow> ('r, unit) call" where
  "ensure_group create p = catchS (create p) (\<lambda>e. if group_exists_error e then returnS () else raiseS e)"

definition ensure_groups :: "'r create_group \<Rightarrow> store_config \<Rightarrow> control_config \<Rightarrow> ('r, unit) call" where
  "ensure_groups create cfg ctl =
     forS (ensure_group create) [(quote_stream cfg, stream_group cfg), (ct_stream ctl, ct_group ctl)]"

text \<open>The server's own account of its groups, with an outage as an argument: the interpretation of the laws.\<close>

definition db_create_group :: "error option \<Rightarrow> (string \<times> string) set create_group" where
  "db_create_group outage p gs =
     (case outage of
        Some e \<Rightarrow> (if group_exists_error e then Inl (ConnectionError []) else Inl e, gs)
      | None \<Rightarrow> if p \<in> gs then (Inl (RedisError ''BUSYGROUP Consumer Group name already exists''), gs)
          else (Inr (), insert p gs))"

lemma group_exists_error_simps [simp]:
  "\<not> group_exists_error (ConnectionError t)" "group_exists_error (RedisError ''BUSYGROUP Consumer Group name already exists'')"
  by (simp_all add: group_exists_error_def) code_simp

context group_server
begin

lemma ensure_group_result:
  assumes "ensure_group create p r = (m, r')"
  shows "(\<forall>q. has_group r q \<longrightarrow> has_group r' q) \<and> (m = Inr () \<longrightarrow> has_group r' p)"
proof -
  obtain m1 r1 where c: "create p r = (m1, r1)" by (metis surj_pair)
  have "r' = r1 \<and> (m = Inr () \<longrightarrow> m1 = Inr () \<or> (\<exists>e. m1 = Inl e \<and> group_exists_error e))"
    using assms c by (cases m1) (auto simp: ensure_group_def catchS_def returnS_def raiseS_def split: if_splits)
  then show ?thesis using created [OF c] kept [OF c] by blast
qed

lemma ensure_all_result:
  "forS (ensure_group create) ps r = (m, r') \<Longrightarrow>
   (\<forall>q. has_group r q \<longrightarrow> has_group r' q) \<and> (m = Inr () \<longrightarrow> (\<forall>p \<in> set ps. has_group r' p))"
proof (induction ps arbitrary: r)
  case (Cons p ps)
  obtain m1 r1 where c: "ensure_group create p r = (m1, r1)" by (metis surj_pair)
  note one = ensure_group_result [OF c]
  show ?case
  proof (cases m1)
    case (Inl e)
    then show ?thesis using Cons.prems c one by (auto simp: bindS_def)
  next
    case (Inr u)
    then have "forS (ensure_group create) ps r1 = (m, r')" using Cons.prems c by (simp add: bindS_def)
    from Cons.IH [OF this] one Inr show ?thesis by (cases p) auto
  qed
qed (auto simp: returnS_def)

end

interpretation db_groups: group_server "db_create_group outage" "\<lambda>gs p. p \<in> gs"
  for outage
  by unfold_locales (auto simp: db_create_group_def split: option.splits if_splits)

lemma db_group_server: "group_server (db_create_group outage) (\<lambda>gs p. p \<in> gs)"
  by (rule db_groups.group_server_axioms)

section \<open>Reading\<close>

text \<open>\<open>read_group\<close>: the entries of every stream of the reply, in order.\<close>

definition read_group :: "(string \<times> (string \<times> entry) list) list \<Rightarrow> (string \<times> entry) list" where
  "read_group result = concat (map snd result)"

datatype pending_summary = SummaryDict reply_map | SummaryList "reply list" | NoSummary

definition pending_count :: "pending_summary result \<Rightarrow> int result" where
  "pending_count reply = (case reply of
       Inl (RedisError _) \<Rightarrow> Inr 0
     | Inl e \<Rightarrow> Inl e
     | Inr (SummaryDict m) \<Rightarrow> reply_int (case map_of m (RText ''pending'') of None \<Rightarrow> RInt 0 | Some v \<Rightarrow> v)
     | Inr (SummaryList (n # _)) \<Rightarrow> reply_int n
     | Inr _ \<Rightarrow> Inr 0)"

text \<open>What \<open>get_message\<close> returns: nothing, a message whose data is text or bytes, or one with other data.\<close>

datatype channel_message = Quiet | Data payload | NoText

text \<open>One subscription of the fan-out listener: it ends when a message is no quote, when the listener is found closed, or
  with the connection; \<open>shut\<close> tells what the listener's flag is at its events.\<close>

fun fanout_session :: "(nat \<Rightarrow> bool) \<Rightarrow> nat \<Rightarrow> channel_message list \<Rightarrow> (hub, unit) call" where
  "fanout_session shut n [] h = (Inr (), h)"
| "fanout_session shut n (Quiet # ms) h = fanout_session shut n ms h"
| "fanout_session shut n (NoText # ms) h = fanout_session shut n ms h"
| "fanout_session shut n (Data p # ms) h =
     (case fanout_one h p of
        Inl e \<Rightarrow> (Inl e, h)
      | Inr h' \<Rightarrow> if shut n then (Inr (), h) else fanout_session shut (Suc n) ms h')"

section \<open>The sinks\<close>

record usage_sink =
  us_pool :: bool
  us_closed :: bool

definition make_usage_sink :: "string option \<Rightarrow> usage_sink result" where
  "make_usage_sink database_url =
     (if database_url = None \<or> database_url = Some [] then Inl (ValueError ''database_url is required for the usage sink'')
      else Inr \<lparr>us_pool = False, us_closed = False\<rparr>)"

definition start_usage_sink ::
  "unit result \<Rightarrow> unit result \<Rightarrow> 'r create_group \<Rightarrow> store_config \<Rightarrow> string \<Rightarrow> ('r \<times> usage_sink, unit) call" where
  "start_usage_sink pool table create cfg usage_group st =
     (case pool of
        Inl e \<Rightarrow> (Inl e, st)
      | Inr _ \<Rightarrow>
          (let sink = (snd st)\<lparr>us_pool := True\<rparr> in
           case table of
             Inl e \<Rightarrow> (Inl e, (fst st, sink))
           | Inr _ \<Rightarrow> (let (m, r) = ensure_group create (usage_stream cfg, usage_group) (fst st) in (m, (r, sink)))))"

definition close_usage_sink :: "usage_sink \<Rightarrow> usage_sink" where
  "close_usage_sink s = s\<lparr>us_closed := True, us_pool := False\<rparr>"

record archive_sink =
  as_archive :: archive
  as_closed :: bool

definition make_archive_sink :: "history_config \<Rightarrow> archive_db \<Rightarrow> archive_sink result" where
  "make_archive_sink hc db =
     (if \<not> hc_archive_enabled hc then Inl (ValueError ''candle archive is disabled'')
      else bindE (make_archive (hc_database_url hc) db) (\<lambda>a. Inr \<lparr>as_archive = a, as_closed = False\<rparr>))"

definition start_archive_sink :: "attempt \<Rightarrow> 'r create_group \<Rightarrow> store_config \<Rightarrow> string \<Rightarrow> ('r \<times> archive_sink, unit) call" where
  "start_archive_sink att create cfg archive_group st =
     (case start_archive (at_pool att) (at_tables att) (at_listed att) (at_install att) (as_archive (snd st)) of
        (Inl e, a) \<Rightarrow> (Inl e, (fst st, (snd st)\<lparr>as_archive := a\<rparr>))
      | (Inr _, a) \<Rightarrow>
          (let (m, r) = ensure_group create (quote_stream cfg, archive_group) (fst st) in
           (m, (r, (snd st)\<lparr>as_archive := a\<rparr>))))"

definition close_archive_sink :: "archive_sink \<Rightarrow> archive_sink" where
  "close_archive_sink s = s\<lparr>as_closed := True, as_archive := close_archive (as_archive s)\<rparr>"

text \<open>\<open>_run\<close> of the archive worker: \<open>work\<close> is what the loop of the sink does until it is cancelled or raises, and
  \<open>watch\<close> what the monitor does meanwhile.  The metrics server may fail to bind.\<close>

record 'r archive_worker =
  aw_server :: 'r
  aw_sink :: archive_sink
  aw_monitor :: archive_monitor
  aw_monitor_task :: bool
  aw_redis_open :: bool

definition stop_worker :: "'r archive_worker \<Rightarrow> 'r archive_worker" where
  "stop_worker w = w\<lparr>aw_monitor := close_monitor (aw_monitor w), aw_monitor_task := False,
     aw_sink := close_archive_sink (aw_sink w), aw_redis_open := False\<rparr>"

definition run_archive_worker ::
  "attempt \<Rightarrow> 'r create_group \<Rightarrow> store_config \<Rightarrow> string \<Rightarrow> unit result \<Rightarrow> ('r \<times> archive_sink, unit) call \<Rightarrow>
   (archive_monitor \<Rightarrow> archive_monitor) \<Rightarrow> ('r archive_worker, unit) call" where
  "run_archive_worker att create cfg archive_group bind_server work watch w =
     (let (m, r, sink) = start_archive_sink att create cfg archive_group (aw_server w, aw_sink w);
          w1 = w\<lparr>aw_server := r, aw_sink := sink\<rparr>
      in case m of
           Inl e \<Rightarrow> (Inl e, stop_worker w1)
         | Inr _ \<Rightarrow>
             (case bind_server of
                Inl (OSError t) \<Rightarrow>
                  (let (m2, r2, sink2) = work (r, sink) in
                   (m2, stop_worker (w1\<lparr>aw_server := r2, aw_sink := sink2, aw_monitor := watch (aw_monitor w1)\<rparr>)))
              | Inl e \<Rightarrow> (Inl e, stop_worker w1)
              | Inr _ \<Rightarrow>
                  (let (m2, r2, sink2) = work (r, sink) in
                   (m2, stop_worker (w1\<lparr>aw_server := r2, aw_sink := sink2, aw_monitor := watch (aw_monitor w1)\<rparr>)))))"

section \<open>The collector\<close>

text \<open>\<open>run\<close>: \<open>loops\<close> is what the two loops do until one of them raises or both end; the \<open>finally\<close> block disconnects.\<close>

definition run_collector ::
  "'r create_group \<Rightarrow> store_config \<Rightarrow> control_config \<Rightarrow> ('c, 's) provider_ops \<Rightarrow> ('r \<times> 's collector, unit) call \<Rightarrow>
   ('r \<times> 's collector, unit) call" where
  "run_collector create cfg ctl P loops st =
     (case ensure_groups create cfg ctl (fst st) of
        (Inl e, r) \<Rightarrow> (Inl e, (r, snd st))
      | (Inr _, r) \<Rightarrow>
          (let (m, r1, co) = loops (r, snd st) in
           (m, (r1, co\<lparr>co_provider := p_disconnect P (co_provider co)\<rparr>))))"

section \<open>The application\<close>

datatype task = ProcessorTask | FanoutTask | CleanupTask | UsageTask

record 'r application =
  ap_registry :: "'r registry"
  ap_usage :: usage_recorder
  ap_archive :: "archive option"
  ap_tasks :: "task set"
  ap_closing :: "task set"
  ap_redis_open :: bool
  ap_profiles_open :: bool

text \<open>The archive part of the start: the archive to serve from, or none.  \<open>closing\<close> is the outcome of closing a candidate
  that failed to start.\<close>

definition start_history :: "history_config \<Rightarrow> attempt \<Rightarrow> unit result \<Rightarrow> archive option result" where
  "start_history hc att closing =
     (if \<not> archive_configured hc then Inr None
      else bindE (make_archive (hc_database_url hc) (at_database att)) (\<lambda>candidate.
        case start_archive (at_pool att) (at_tables att) (at_listed att) (at_install att) candidate of
          (Inl e, _) \<Rightarrow> bindE closing (\<lambda>_. Inr None)
        | (Inr _, a) \<Rightarrow> Inr (Some a)))"

definition start_application ::
  "history_config \<Rightarrow> attempt \<Rightarrow> unit result \<Rightarrow> 'r create_group \<Rightarrow> store_config \<Rightarrow> control_config \<Rightarrow> int \<Rightarrow> 'r \<Rightarrow>
   unit result \<times> 'r application" where
  "start_application hc att closing create cfg ctl usage_size r =
     (let app = \<lparr>ap_registry = \<lparr>server = r, release_tasks = {}\<rparr>, ap_usage = new_recorder usage_size, ap_archive = None,
            ap_tasks = {}, ap_closing = {}, ap_redis_open = True, ap_profiles_open = False\<rparr>
      in case start_history hc att closing of
           Inl e \<Rightarrow> (Inl e, app)
         | Inr archive \<Rightarrow>
             (let app1 = app\<lparr>ap_archive := archive, ap_profiles_open := True\<rparr>;
                  (m, r') = ensure_groups create cfg ctl r;
                  app2 = app1\<lparr>ap_registry := \<lparr>server = r', release_tasks = {}\<rparr>\<rparr>
              in case m of
                   Inl e \<Rightarrow> (Inl e, app2)
                 | Inr _ \<Rightarrow> (Inr (), app2\<lparr>ap_tasks := {ProcessorTask, FanoutTask, CleanupTask, UsageTask}\<rparr>)))"

text \<open>The outcomes of closing the three clients.\<close>

record stop_outcomes =
  so_profiles :: "error option"
  so_archive :: "error option"
  so_redis :: "error option"

text \<open>The \<open>finally\<close> block; \<open>drained\<close> is what the usage task does until its queue is empty or the time is over.\<close>

definition stop_loops :: "(usage_recorder \<Rightarrow> usage_recorder) \<Rightarrow> 'r application \<Rightarrow> 'r application" where
  "stop_loops drained app =
     app\<lparr>ap_closing := {ProcessorTask, FanoutTask, CleanupTask, UsageTask}, ap_registry := close_registry (ap_registry app),
       ap_usage := drained (usage_close (ap_usage app)), ap_tasks := {}\<rparr>"

definition stop_application :: "(usage_recorder \<Rightarrow> usage_recorder) \<Rightarrow> stop_outcomes \<Rightarrow> ('r application, unit) call" where
  "stop_application drained out app =
     bindS (callS (so_profiles out) (\<lambda>app. (Inr (), app\<lparr>ap_profiles_open := False\<rparr>))) (\<lambda>_.
     bindS (\<lambda>app. case ap_archive app of
         None \<Rightarrow> (Inr (), app)
       | Some a \<Rightarrow> callS (so_archive out) (\<lambda>app. (Inr (), app\<lparr>ap_archive := Some (close_archive a)\<rparr>)) app) (\<lambda>_.
     callS (so_redis out) (\<lambda>app. (Inr (), app\<lparr>ap_redis_open := False\<rparr>)))) (stop_loops drained app)"

section \<open>Lemmas\<close>

text \<open>After \<open>ensure_groups\<close> both groups exist, and without an outage it succeeds however often it is called.\<close>

lemma groups_ready:
  assumes "group_server create has_group" "ensure_groups create cfg ctl r = (Inr (), r')"
  shows "has_group r' (quote_stream cfg, stream_group cfg) \<and> has_group r' (ct_stream ctl, ct_group ctl)"
  using group_server.ensure_all_result [OF assms(1) assms(2) [unfolded ensure_groups_def]] by simp

lemma ensure_group_again: "ensure_group (db_create_group None) p gs = (Inr (), insert p gs)"
  by (auto simp: ensure_group_def db_create_group_def catchS_def returnS_def)

lemma ensure_groups_again:
  "ensure_groups (db_create_group None) cfg ctl gs =
     (Inr (), insert (ct_stream ctl, ct_group ctl) (insert (quote_stream cfg, stream_group cfg) gs))"
  by (simp add: ensure_groups_def bindS_def ensure_group_again returnS_def)

lemma start_archive_available: "start_archive pool tables listed install a = (Inr (), a') \<Longrightarrow> available a'"
  by (auto simp: start_archive_def bindE_eq_Inr Let_def split: if_splits sum.splits)

lemma start_history_result:
  assumes "start_history hc att closing = Inr archive"
  shows "\<forall>a. archive = Some a \<longrightarrow> available a \<and> archive_configured hc"
proof (intro allI impI)
  fix a assume a: "archive = Some a"
  then have c: "archive_configured hc" using assms by (auto simp: start_history_def split: if_splits)
  then obtain candidate where "make_archive (hc_database_url hc) (at_database att) = Inr candidate"
    "(case start_archive (at_pool att) (at_tables att) (at_listed att) (at_install att) candidate of
        (Inl e, _) \<Rightarrow> bindE closing (\<lambda>_. Inr None) | (Inr _, a) \<Rightarrow> Inr (Some a)) = Inr (Some a)"
    using assms a by (auto simp: start_history_def bindE_eq_Inr)
  then have "start_archive (at_pool att) (at_tables att) (at_listed att) (at_install att) candidate = (Inr (), a)"
    by (auto simp: bindE_eq_Inr split: prod.splits sum.splits)
  with c show "available a \<and> archive_configured hc" using start_archive_available by blast
qed

text \<open>The archive is optional: a candidate that fails to start never prevents the application from starting.\<close>

lemma start_history_total: "closing = Inr () \<Longrightarrow> \<exists>archive. start_history hc att closing = Inr archive"
  by (auto simp: start_history_def make_archive_def archive_configured_def split: prod.splits sum.splits)

lemma application_starts:
  assumes "ensure_groups create cfg ctl r = (Inr (), r')"
  shows "fst (start_application hc att (Inr ()) create cfg ctl usage_size r) = Inr ()"
  using start_history_total [of "Inr ()" hc att] assms by (auto simp: start_application_def Let_def)

lemma start_application_result:
  assumes "start_application hc att closing create cfg ctl usage_size r = (Inr (), app)"
  shows "start_history hc att closing = Inr (ap_archive app) \<and> ensure_groups create cfg ctl r = (Inr (), server (ap_registry app)) \<and>
    ap_tasks app = {ProcessorTask, FanoutTask, CleanupTask, UsageTask} \<and> release_tasks (ap_registry app) = {} \<and>
    uq_queue (ap_usage app) = []"
  using assms by (auto simp: start_application_def new_recorder_def Let_def split: sum.splits prod.splits)

lemma stop_application_result:
  assumes "so_profiles out = None" "so_archive out = None" "so_redis out = None"
  shows "\<exists>app'. stop_application drained out app = (Inr (), app') \<and> ap_tasks app' = {} \<and> release_tasks (ap_registry app') = {} \<and>
    \<not> ap_profiles_open app' \<and> \<not> ap_redis_open app' \<and> (\<forall>a. ap_archive app' = Some a \<longrightarrow> \<not> available a) \<and>
    ap_closing app' = {ProcessorTask, FanoutTask, CleanupTask, UsageTask} \<and> ap_usage app' = drained (usage_close (ap_usage app))"
  using assms
  by (cases "ap_archive app")
    (auto simp: stop_application_def stop_loops_def bindS_def close_registry_def close_archive_def split: option.splits)


text \<open>A start that fails after the archive was opened leaves the archive and the Redis client open: the groups are
  ensured before the block whose \<open>finally\<close> closes them.\<close>

lemma failed_start_leaks:
  assumes "start_history hc att closing = Inr (Some a)" "ensure_groups create cfg ctl r = (Inl e, r')"
  shows "\<exists>app. start_application hc att closing create cfg ctl usage_size r = (Inl e, app) \<and> ap_redis_open app \<and> ap_archive app = Some a \<and> available a"
  using start_history_result [OF assms(1)] assms by (simp add: start_application_def Let_def)

text \<open>Whatever ends the collector after its start, its provider is disconnected.\<close>

lemma collector_run_disconnects:
  assumes "market_provider P upstream ok" "run_collector create cfg ctl P loops (r, co) = (m, (r', co'))"
    "ensure_groups create cfg ctl r = (Inr (), r1)" "\<And>m2 st2. loops (r1, co) = (m2, st2) \<Longrightarrow> ok (co_provider (snd st2))"
  shows "\<not> is_connected P (co_provider co') \<and> ok (co_provider co')"
proof -
  obtain m2 r2 co2 where l: "loops (r1, co) = (m2, (r2, co2))" by (metis surj_pair)
  then have "co' = co2\<lparr>co_provider := p_disconnect P (co_provider co2)\<rparr>" "ok (co_provider co2)"
    using assms(2,3) assms(4) [OF l] by (auto simp: run_collector_def Let_def)
  then show ?thesis using market_provider.disconnect_spec [OF assms(1)] by auto
qed

text \<open>A worker always stops clean, and its work starts only with the archive open and the group in place.\<close>

lemma worker_stops_clean:
  assumes "run_archive_worker att create cfg grp bind_server work watch w = (m, w')"
  shows "\<not> available (as_archive (aw_sink w')) \<and> as_closed (aw_sink w') \<and> am_closed (aw_monitor w') \<and> \<not> aw_monitor_task w' \<and> \<not> aw_redis_open w'"
proof -
  have "\<exists>w1. w' = stop_worker w1"
    using assms by (auto simp: run_archive_worker_def Let_def split: prod.splits sum.splits error.splits)
  then show ?thesis by (auto simp: stop_worker_def close_archive_sink_def close_archive_def close_monitor_def)
qed

lemma archive_sink_ready:
  assumes "group_server create has_group" "start_archive_sink att create cfg grp (r, sink) = (Inr (), (r', sink'))"
  shows "available (as_archive sink') \<and> has_group r' (quote_stream cfg, grp)"
proof -
  obtain m a where a: "start_archive (at_pool att) (at_tables att) (at_listed att) (at_install att) (as_archive sink) = (m, a)"
    by (metis surj_pair)
  then have "m = Inr ()" "sink' = sink\<lparr>as_archive := a\<rparr>" "ensure_group create (quote_stream cfg, grp) r = (Inr (), r')"
    using assms(2) by (auto simp: start_archive_sink_def split: sum.splits prod.splits)
  then show ?thesis using start_archive_available group_server.ensure_group_result [OF assms(1)] a by fastforce
qed

text \<open>A subscription of the fan-out listener publishes the quotes up to the first message that is none.\<close>

lemma fanout_session_prefix:
  assumes "\<forall>n. \<not> shut n" "\<forall>p \<in> set ps. \<exists>e. quote_of_payload p = Inr e"
  shows "fanout_session shut n (map Data ps @ ms) h =
    fanout_session shut (n + length ps) ms (foldl (\<lambda>h p. case quote_of_payload p of Inr e \<Rightarrow> hub_publish h e | Inl _ \<Rightarrow> h) h ps)"
  using assms(2)
proof (induction ps arbitrary: n h)
  case (Cons p ps)
  then show ?case using assms(1) by (auto simp: fanout_one_def)
qed simp

lemma fanout_session_poison:
  assumes "quote_of_payload p = Inl e"
  shows "fanout_session shut n (Data p # ms) h = (Inl e, h)"
  by (simp add: fanout_one_def assms)

section \<open>Witness\<close>

definition sample_control_config :: control_config where
  "sample_control_config = \<lparr>ct_stream = ''smdg:subscriptions:control:v1'', ct_group = ''smdg:collectors:v1''\<rparr>"


end
