(* ===== verification/Settings.thy ===== *)
theory Settings
  imports Services Strings
begin

text \<open>
  \<open>config.py\<close>: the settings, their declared constraints and defaults, the configurations of the components that are
  cut out of them, and the tier policies decoded from their JSON document.

  The settings are those that modelled code reads or that are constrained; host names, ports without a
  constraint and the texts of the JWT settings are left out.  Reading the environment is pydantic's, as is the conversion
  of one field of a policy, an argument with the documented behaviour on values of the right type.

  The lemmas show that accepted settings satisfy what the theorems on the components assume of their
  configurations, and that the default document gives the default policies.
\<close>

section \<open>Settings\<close>

record settings =
  st_candle_archive_metrics_port :: int
  st_database_url :: "string option"
  st_quote_stream :: string
  st_quote_pubsub_channel :: string
  st_control_stream :: string
  st_usage_stream :: string
  st_dead_letter_stream :: string
  st_stream_group :: string
  st_control_group :: string
  st_usage_group :: string
  st_candle_archive_group :: string
  st_stream_maxlen :: int
  st_retry_limit :: int
  st_quote_freshness_seconds :: rat
  st_candle_history_retention_seconds :: int
  st_candle_update_retry_limit :: int
  st_candle_archive_enabled :: bool
  st_candle_archive_retention_seconds :: int
  st_candle_archive_pool_max_size :: int
  st_candle_archive_claim_idle_ms :: int
  st_candle_archive_metrics_interval_seconds :: rat
  st_subscription_ttl_seconds :: int
  st_websocket_queue_size :: int
  st_coalescing_warning_threshold :: int
  st_usage_queue_size :: int
  st_market_data_provider :: string
  st_mock_symbols :: string
  st_coinbase_queue_size :: int

definition default_settings :: settings where
  "default_settings = \<lparr>st_candle_archive_metrics_port = 9102, st_database_url = None,
     st_quote_stream = ''smdg:quotes:v1'', st_quote_pubsub_channel = ''smdg:quotes:fanout:v1'',
     st_control_stream = ''smdg:subscriptions:control:v1'', st_usage_stream = ''smdg:usage:v1'',
     st_dead_letter_stream = ''smdg:dead-letter:v1'', st_stream_group = ''smdg:processors:v1'',
     st_control_group = ''smdg:collectors:v1'', st_usage_group = ''smdg:usage-writers:v1'',
     st_candle_archive_group = ''smdg:candle-archive-writers:v1'', st_stream_maxlen = 100000, st_retry_limit = 3,
     st_quote_freshness_seconds = 5, st_candle_history_retention_seconds = 30 * 24 * 60 * 60,
     st_candle_update_retry_limit = 8, st_candle_archive_enabled = False,
     st_candle_archive_retention_seconds = 5 * 365 * 24 * 60 * 60, st_candle_archive_pool_max_size = 4,
     st_candle_archive_claim_idle_ms = 30000, st_candle_archive_metrics_interval_seconds = 5,
     st_subscription_ttl_seconds = 60, st_websocket_queue_size = 512, st_coalescing_warning_threshold = 100,
     st_usage_queue_size = 10000, st_market_data_provider = ''mock'', st_mock_symbols = ''AAPL,TSLA,NVDA,MSFT,GOOG'',
     st_coinbase_queue_size = 10000\<rparr>"

text \<open>The declared constraints.\<close>

definition settings_checks :: "settings \<Rightarrow> (bool \<times> string) list" where
  "settings_checks s =
     [(1 \<le> st_candle_archive_metrics_port s \<and> st_candle_archive_metrics_port s \<le> 65535, ''candle_archive_metrics_port''),
      (0 < st_candle_history_retention_seconds s, ''candle_history_retention_seconds''),
      (1 \<le> st_candle_update_retry_limit s, ''candle_update_retry_limit''),
      (0 < st_candle_archive_retention_seconds s, ''candle_archive_retention_seconds''),
      (1 \<le> st_candle_archive_pool_max_size s \<and> st_candle_archive_pool_max_size s \<le> 32, ''candle_archive_pool_max_size''),
      (1 \<le> st_candle_archive_claim_idle_ms s, ''candle_archive_claim_idle_ms''),
      (0 < st_candle_archive_metrics_interval_seconds s \<and> st_candle_archive_metrics_interval_seconds s \<le> 300,
        ''candle_archive_metrics_interval_seconds''),
      (0 < st_coinbase_queue_size s, ''coinbase_queue_size'')]"

definition make_settings :: "settings \<Rightarrow> settings result" where
  "make_settings s = (let errors = field_errors (settings_checks s) in if errors \<noteq> [] then Inl (FieldErrors errors) else Inr s)"

section \<open>The configurations of the components\<close>

definition store_config_of :: "settings \<Rightarrow> store_config" where
  "store_config_of s = \<lparr>quote_stream = st_quote_stream s, quote_pubsub_channel = st_quote_pubsub_channel s,
     usage_stream = st_usage_stream s, dead_letter_stream = st_dead_letter_stream s, stream_group = st_stream_group s,
     retry_limit = st_retry_limit s, quote_freshness_seconds = st_quote_freshness_seconds s,
     candle_history_retention_seconds = st_candle_history_retention_seconds s,
     candle_update_retry_limit = nat (st_candle_update_retry_limit s)\<rparr>"

definition control_config_of :: "settings \<Rightarrow> control_config" where
  "control_config_of s = \<lparr>ct_stream = st_control_stream s, ct_group = st_control_group s\<rparr>"

definition sub_config_of :: "settings \<Rightarrow> sub_config" where
  "sub_config_of s = \<lparr>sc_ttl_seconds = st_subscription_ttl_seconds s, sc_control_stream = st_control_stream s\<rparr>"

definition history_config_of :: "settings \<Rightarrow> history_config" where
  "history_config_of s = \<lparr>hc_archive_enabled = st_candle_archive_enabled s, hc_database_url = st_database_url s,
     hc_archive_retention = st_candle_archive_retention_seconds s\<rparr>"

definition monitor_config_of :: "settings \<Rightarrow> monitor_config" where
  "monitor_config_of s = \<lparr>mo_group = st_candle_archive_group s, mo_stream_maxlen = st_stream_maxlen s\<rparr>"

definition mock_symbol_list :: "settings \<Rightarrow> string list" where
  "mock_symbol_list s = symbol_list (st_mock_symbols s)"

section \<open>Tier policies\<close>

text \<open>The conversion of one field by pydantic: \<open>None\<close> when the value is not accepted.\<close>

record field_parsers =
  fp_int :: "json \<Rightarrow> int option"
  fp_float :: "json \<Rightarrow> rat option"
  fp_str :: "json \<Rightarrow> string option"
  fp_bool :: "json \<Rightarrow> bool option"

definition float_value :: "string \<Rightarrow> rat option" where
  "float_value s = (case parse_decimal s of Some (Finite x) \<Rightarrow> Some x | _ \<Rightarrow> None)"

definition parsers_ok :: "field_parsers \<Rightarrow> bool" where
  "parsers_ok p \<longleftrightarrow> (\<forall>n. fp_int p (JInt n) = Some n) \<and> (\<forall>s x. float_value s = Some x \<longrightarrow> fp_float p (JFloat s) = Some x) \<and>
     (\<forall>s. fp_str p (JStr s) = Some s) \<and> (\<forall>b. fp_bool p (JBool b) = Some b)"

text \<open>A field of the document: the converted value, the default when it is absent, or \<open>None\<close> for an error.\<close>

definition policy_field :: "(json \<Rightarrow> 'a option) \<Rightarrow> 'a option \<Rightarrow> (string, json) dict \<Rightarrow> string \<Rightarrow> 'a option" where
  "policy_field parse d kvs key = (case dict_get kvs key of None \<Rightarrow> d | Some v \<Rightarrow> parse v)"

definition validate_policy :: "field_parsers \<Rightarrow> json \<Rightarrow> tier_policy result" where
  "validate_policy p value = (case value of
       JObj kvs \<Rightarrow>
         (let sy = policy_field (fp_int p) None kvs ''max_symbols''; co = policy_field (fp_int p) None kvs ''max_connections'';
              up = policy_field (fp_float p) None kvs ''updates_per_second'';
              re = policy_field (fp_int p) None kvs ''rest_requests_per_minute'';
              su = policy_field (fp_int p) None kvs ''subscription_ops_per_minute'';
              de = policy_field (fp_str p) (Some ''top'') kvs ''market_depth'';
              hi = policy_field (fp_bool p) (Some False) kvs ''historical_data'';
              errors = field_errors [(sy \<noteq> None, ''max_symbols''), (co \<noteq> None, ''max_connections''), (up \<noteq> None, ''updates_per_second''),
                (re \<noteq> None, ''rest_requests_per_minute''), (su \<noteq> None, ''subscription_ops_per_minute''),
                (de \<noteq> None, ''market_depth''), (hi \<noteq> None, ''historical_data'')]
          in if errors \<noteq> [] then Inl (FieldErrors errors)
             else Inr \<lparr>max_symbols = the sy, max_connections = the co, updates_per_second = the up,
               rest_requests_per_minute = the re, subscription_ops_per_minute = the su, market_depth = the de, historical_data = the hi\<rparr>)
     | _ \<Rightarrow> Inl (FieldErrors [''TierPolicyConfig'']))"

text \<open>\<open>tier_policies\<close> on the decoded document.\<close>

definition tier_policies :: "field_parsers \<Rightarrow> json \<Rightarrow> (string, tier_policy) dict result" where
  "tier_policies p raw = (case raw of
       JObj kvs \<Rightarrow> mapE (\<lambda>(name, value). bindE (validate_policy p value) (\<lambda>policy. Inr (name, policy))) kvs
     | _ \<Rightarrow> Inl (AttributeError ''items''))"

definition policy_document :: "int \<Rightarrow> int \<Rightarrow> string \<Rightarrow> int \<Rightarrow> int \<Rightarrow> string \<Rightarrow> bool \<Rightarrow> json" where
  "policy_document sy co up re su de hi =
     JObj [(''max_symbols'', JInt sy), (''max_connections'', JInt co), (''updates_per_second'', JFloat up),
       (''rest_requests_per_minute'', JInt re), (''subscription_ops_per_minute'', JInt su), (''market_depth'', JStr de),
       (''historical_data'', JBool hi)]"

definition DEFAULT_TIER_POLICIES :: json where
  "DEFAULT_TIER_POLICIES = JObj [(''basic'', policy_document 20 2 ''1.0'' 120 60 ''top'' False),
     (''pro'', policy_document 100 5 ''5.0'' 600 300 ''limited'' True),
     (''premium'', policy_document 500 20 ''10.0'' 3000 1200 ''extended'' True)]"

section \<open>Lemmas\<close>

lemma make_settings_iff: "make_settings s = Inr s' \<longleftrightarrow> s' = s \<and> list_all fst (settings_checks s)"
  by (auto simp: make_settings_def Let_def field_errors_Nil list_all_iff)

lemma default_settings_accepted: "make_settings default_settings = Inr default_settings"
  by (simp add: make_settings_iff settings_checks_def default_settings_def)

text \<open>Accepted settings give the configurations that the candle stores assume.\<close>

lemma accepted_configs:
  assumes "make_settings s = Inr s'"
  shows "0 < candle_history_retention_seconds (store_config_of s') \<and> 0 < candle_update_retry_limit (store_config_of s') \<and>
    0 < hc_archive_retention (history_config_of s')"
  using assms by (auto simp: make_settings_iff settings_checks_def store_config_of_def history_config_of_def)

text \<open>The application and the collector of the same settings ensure the same groups.\<close>

lemma settings_groups:
  "ensure_groups (db_create_group None) (store_config_of s) (control_config_of s) {} =
     (Inr (), {(st_control_stream s, st_control_group s), (st_quote_stream s, st_stream_group s)})"
  by (simp add: ensure_groups_again store_config_of_def control_config_of_def)

lemma policy_document_valid:
  assumes "parsers_ok p" "float_value up = Some x"
  shows "validate_policy p (policy_document sy co up re su de hi) = Inr \<lparr>max_symbols = sy, max_connections = co, updates_per_second = x,
    rest_requests_per_minute = re, subscription_ops_per_minute = su, market_depth = de, historical_data = hi\<rparr>"
  using assms by (simp add: validate_policy_def policy_document_def policy_field_def parsers_ok_def field_errors_def Let_def)

lemma default_rates: "float_value ''1.0'' = Some 1" "float_value ''5.0'' = Some 5" "float_value ''10.0'' = Some 10"
  by code_simp+

text \<open>The default document decodes to the default policies, whatever else the conversion of fields accepts.\<close>

theorem default_policies_decode:
  assumes "parsers_ok p"
  shows "tier_policies p DEFAULT_TIER_POLICIES = Inr default_tier_policies"
  by (simp add: tier_policies_def DEFAULT_TIER_POLICIES_def policy_document_valid [OF assms] default_rates default_tier_policies_def)

definition strict_parsers :: field_parsers where
  "strict_parsers = \<lparr>fp_int = (\<lambda>v. case v of JInt n \<Rightarrow> Some n | _ \<Rightarrow> None), fp_float = (\<lambda>v. case v of JFloat s \<Rightarrow> float_value s | _ \<Rightarrow> None),
     fp_str = (\<lambda>v. case v of JStr s \<Rightarrow> Some s | _ \<Rightarrow> None), fp_bool = (\<lambda>v. case v of JBool b \<Rightarrow> Some b | _ \<Rightarrow> None)\<rparr>"

theorem default_policies_decode_witness:
  "tier_policies strict_parsers DEFAULT_TIER_POLICIES = Inr default_tier_policies"
  by (rule default_policies_decode) (simp add: parsers_ok_def strict_parsers_def)

text \<open>A policy without a limit is rejected with the name of the field.\<close>

lemma missing_limit: "validate_policy strict_parsers (JObj [(''max_connections'', JInt 2), (''updates_per_second'', JFloat ''1.0''),
    (''rest_requests_per_minute'', JInt 1), (''subscription_ops_per_minute'', JInt 1)]) = Inl (FieldErrors [''max_symbols''])"
  by (simp add: validate_policy_def policy_field_def strict_parsers_def field_errors_def default_rates)

end
