(* ===== verification/Spec2Isabelle.thy ===== *)
theory Spec2Isabelle
  imports Models Candles Candle_Store Archive Bounded_Buffer QoS Redis Rate_Limits Subscriptions Storage Pipeline
    Usage Json Security Providers Coinbase Collector Gateway Candle_Api
    Sha256 Json_Text Json_Laws Ledger Recorder Research Strings Observability Trust_Root Workflow_Contract Causal_Report
    Logging Benchmark Load_Test Contract_Check Services Settings
begin

text \<open>
  A model of the Smart Market Data Gateway (\<open>src/src/smart_market_data_gateway\<close>), a Python service that takes quotes
  from a market-data provider, stores and fans them out through Redis, keeps candle history in Redis and
  PostgreSQL, and serves clients over REST and WebSocket, with its capture tools and the checks of its repository.

  How the parts interact.  A collector process owns the connection to one provider: it turns the control stream
  into upstream subscriptions and appends the provider's events to the quote stream.  Each gateway process
  runs a quote processor, which takes entries of that stream, deduplicates them, caches the latest quote and
  the minute candle and publishes the quote; a fan-out listener, which hands published quotes to the connection hub;
  and the application, whose sessions own the buffers the hub fills and whose commands go to the subscription
  registry, which writes the control stream.  Archive workers read the same quote stream into PostgreSQL, a monitor
  exports their lag, and a usage recorder and a usage sink carry usage events to a table.  Apart from these, a
  recorder writes what a WebSocket client receives into a ledger whose rows are chained by SHA-256, a research
  capture does the same with the events of a provider, and three scripts gate pull requests.

  Theories, in the order they build on each other, and what they model:

  \<^item> \<open>Prelude\<close>: errors and results, calls over a state that may raise, insertion-ordered dictionaries, the strings,
    datetimes, decimals and UUIDs the sources use, with the simplification rules the other theories share; \<open>Strings\<close>: the
    further methods of \<open>str\<close>.
  \<^item> \<open>Models\<close> (\<open>domain/models.py\<close>): quotes and their validation, identities, commands.
  \<^item> \<open>Candles\<close> (\<open>candles.py\<close>): minute candles and their aggregation; \<open>Candle_Store\<close>: the contract of a store of minute
    candles, as a locale that the Redis hot layer and the PostgreSQL archive both interpret.
  \<^item> \<open>Archive\<close> (\<open>candle_archive.py\<close>): the SQL of the archive as functions on rows, and the hybrid store.
  \<^item> \<open>Bounded_Buffer\<close>: the contract of a lossy bounded buffer, interpreted by the latest-value buffer of \<open>QoS\<close>
    (\<open>qos.py\<close> and the send loop of \<open>app.py\<close>) and by the queue of \<open>Usage\<close> (\<open>usage.py\<close>).
  \<^item> \<open>Redis\<close>: the server as a record of commands with the documented laws as a locale; \<open>Rate_Limits\<close> (\<open>rate_limit.py\<close>,
    \<open>connections.py\<close>), \<open>Subscriptions\<close> (\<open>subscriptions.py\<close>) and \<open>Storage\<close> (\<open>storage.py\<close>) on top of it.
  \<^item> \<open>Pipeline\<close> (\<open>pipeline.py\<close>, \<open>usage_sink.py\<close>, \<open>candle_archive_worker.py\<close>, the sink of \<open>candle_archive.py\<close>): one entry and one
    batch of each consumer, with the failure of every call as an argument.
  \<^item> \<open>Json\<close>: decoded JSON values; \<open>Security\<close> (\<open>security.py\<close>): authentication, entitlements and authorization.
  \<^item> \<open>Providers\<close> (\<open>providers/base.py\<close>, \<open>providers/mock.py\<close>): the adapter contract as a locale, and the mock; \<open>Coinbase\<close>
    (\<open>providers/coinbase.py\<close>): the projection of messages into quotes and the connection; \<open>Collector\<close>
    (\<open>collector.py\<close>), proved over the contract and interpreted for both adapters.
  \<^item> \<open>Gateway\<close> (\<open>app.py\<close>): the endpoints and a WebSocket connection from handshake to cleanup; \<open>Candle_Api\<close>
    (\<open>candle_api.py\<close>): the history endpoint.
  \<^item> \<open>Sha256\<close>, \<open>Json_Text\<close> and \<open>Json_Laws\<close>: the hash and the text of JSON documents that \<open>recorder.py\<close> takes from the
    standard library, and their round trip; on them \<open>Ledger\<close> and \<open>Recorder\<close> (\<open>recorder.py\<close>): the evidence ledger, its
    verification and atomic append, and the recording loop; \<open>Research\<close> (\<open>research_capture.py\<close>): the capture session.
  \<^item> \<open>Observability\<close> (\<open>archive_observability.py\<close>): the health sample of the archive's consumer group and its gauges.
  \<^item> \<open>Services\<close>: how the application, the collector, the sinks and the archive worker start and stop, with the creation of
    consumer groups as a locale; \<open>Settings\<close> (\<open>config.py\<close>): settings, their checks and the tier policies; \<open>Logging\<close>
    (\<open>logging.py\<close>): redaction, log payloads and the correlation id.
  \<^item> \<open>Trust_Root\<close>, \<open>Workflow_Contract\<close>, \<open>Causal_Report\<close> (\<open>scripts/ci\<close>) and \<open>Contract_Check\<close>
    (\<open>scripts/check_contract_compatibility.py\<close>): the gates on pull requests; \<open>Benchmark\<close> (\<open>benchmark.py\<close>) and \<open>Load_Test\<close>
    (\<open>benchmarks/ws_load.py\<close>): what the two load generators count.

  How definitions correspond to the code.  A class is a record of its fields, an exception a value of type
  \<open>error\<close>, and a method a function that returns its result and the changed object; names follow the source, with a
  prefix where HOL has the name already.  Coroutines that share state are models of their critical sections:
  where the order matters (the hub, the subscription registry, the collector, the sessions of a gateway) an inductive
  step relation lets them happen in any order, and its invariant is proved by rule induction.  What the code
  does not contain is an argument: the Redis server and the replies of its commands, the verification of a token, the
  outcome of HTTP requests, of sends, of operating-system calls and of PostgreSQL connections, \<open>uuid5\<close>, \<open>repr\<close> and \<open>float\<close> of
  floating-point numbers, the parsing of timestamps and of YAML, \<open>git\<close>, the generated schemas, clock readings, random draws,
  fresh identifiers and the keys a \<open>SCAN\<close> returns.  The laws of the Redis server are interpreted by \<open>db_ops\<close>, on which
  every witness runs.

  What the lemmas show.  Validation accepts exactly the consistent quotes and dumps round-trip.  Candles do not
  depend on arrival order, both history layers agree with each other and with the quotes they were given, and the
  SQL aggregation is the Python one.  The pipeline delivers a new entry completely, poison entries end as dead
  letters, and the archive counts every event once whatever fails.  Buffers account for every quote, deliveries
  keep the rate of the tier, the hub's index is consistent, token buckets and connection slots keep their bounds, and a
  subscribed symbol is active upstream.  Sessions never exceed their entitlements, every kind of request has the
  outcome its checks prescribe, and an ended connection leaves nothing behind.  The collector keeps its active
  symbols subscribed and publishes events in order.  A ledger is tamper evident, an append is all or nothing, a recording
  verifies whatever fails meanwhile and its sequence numbers increase, and a capture accounts for its rows.  A health sample
  accounts for the backlog or raises the alarm.  The application starts with or without its archive and a stop closes
  everything.  The gates fail closed: an accepted report, chain of trust roots or public contract is what it claims.  The two
  theorems below compose components.  Where the code falls short of its intention, a theorem states what it does
  instead.

  Bounds.  Loops over lists are structural recursions.  The optimistic transaction of \<open>cache_quote\<close> recurses on the retry
  limit of the settings; \<open>redeliveries\<close> and \<open>usage_run\<close> take the number of turns, and the theorems on them give the
  number that suffices.  The parser of JSON texts and the normalisation of Markdown items end by a measure; the draws of the
  benchmark are a list, with \<open>choose_symbols_ends\<close> for how many suffice.  Endless loops of tasks are modelled by their body.

  Limits of the model.  Strings are ASCII, except in the JSON texts of the ledger, which are bytes.  Decimals, timestamps and
  floats are exact: no rounding to the precision of a decimal context or of a double, no overflow of a datetime or a SQL
  integer.  Entries of a Redis stream are never trimmed and the expiry of keys is only the removal step \<open>db_evict\<close>.  Outside
  the ledger a JSON document is its value.  Validation errors carry the names of the fields.

  Not modelled: \<open>metrics.py\<close>, which declares the Prometheus metrics (what they count is output only; the gauges of the archive
  monitor are modelled), the serialised log lines, the parsing of arguments, the text that the tools print or write as Markdown
  beyond the report's labels and items, the \<open>as_dict\<close> views of diagnostics, and the reading of the environment: all of
  them only format, or are the work of a library.
\<close>

section \<open>Properties across components\<close>

lemma entry_quote_dump: "entry_quote flds = Inr e \<Longrightarrow> validate_quote (quote_dump e) = Inr e"
proof -
  assume "entry_quote flds = Inr e"
  then obtain q where "validate_quote q = Inr e"
    by (auto simp: entry_quote_def split: option.splits elim: quote_of_payload.elims)
  then show ?thesis by (rule validated_dump)
qed

text \<open>C1: end to end, a quote entry of the durable stream reaches the clients: once the processor has handled
  it, the message it published on the fan-out channel, received by a gateway, puts exactly that quote as the
  pending value of its symbol into the buffer of every session subscribed to the symbol.\<close>

theorem stream_to_clients:
  assumes "redis R db" "hot_inv cfg (dt_us t) (db r)" "hot_valid cfg (dt_us t) e" "entry_quote flds = Inr e"
    "kv (db r) (dedupe_key (q_event_id e)) = None"
    "kv (db r) (sequence_key (q_provider e) (q_symbol e)) = map_option Number previous"
    "hub_inv policies h" "subscribed h cid (q_symbol e)"
  shows "\<exists>r' message h' s. process_one R cfg quiet_faults (\<lambda>_ r. r) (\<lambda>_. False) t i flds r = (Inr (), r') \<and>
    published (db r') = published (db r) @ [(quote_pubsub_channel cfg, message)] \<and>
    fanout_one h message = Inr h' \<and> hub_session h' cid = Some s \<and>
    dict_get (lb_events (cs_buffer s)) (q_symbol e) = Some e"
proof -
  obtain r' where r': "process_one R cfg quiet_faults (\<lambda>_ r. r) (\<lambda>_. False) t i flds r = (Inr (), r')"
    "published (db r') = published (db r) @ [(quote_pubsub_channel cfg, QuoteJson (quote_dump e))]"
    using redis.process_new [OF assms(1-6), of i] by blast
  obtain s where "hub_session (hub_publish h e) cid = Some s" "dict_get (lb_events (cs_buffer s)) (q_symbol e) = Some e"
    using hub_publish_session [OF assms(7), of cid e] assms(8) by blast
  moreover have "fanout_one h (QuoteJson (quote_dump e)) = Inr (hub_publish h e)"
    using entry_quote_dump [OF assms(4)] by (simp add: fanout_one_def)
  ultimately show ?thesis using r' by blast
qed

text \<open>C2: the two history layers agree: the Redis hot layer, fed with the first occurrence of every event,
  and the PostgreSQL archive, fed with the deliveries themselves in any order and with any duplicates, hold
  the same candle for every symbol and minute.\<close>

theorem layers_agree:
  assumes "available a" "database a = \<lparr>events = [], candles_1m = []\<rparr>"
    "\<forall>e \<in> set es. archivable e \<and> hot_valid cfg now e" "set es = set fs" "inj_on q_event_id (set es)"
  shows "hot_candle (foldl (hot_store cfg now) empty_db (first_occurrences {} es)) sy m =
    archived_candle (foldl archive_store a fs) sy m"
proof -
  have a: "archive_inv a" "archived_ids a = {}" "pg.holds a []"
    using assms(1,2) by (simp_all add: archive_inv_def archived_ids_def dict_keys_def pg.holds_def archived_candle_def)
  have v: "\<forall>e \<in> set es. archivable e" "\<forall>e \<in> set (first_occurrences {} es). hot_valid cfg now e"
    using assms(3) set_first_occurrences [of "{}" es] by auto
  have "hot.holds empty_db []" by (simp add: hot.holds_def hot_candle_def empty_db_def)
  moreover have "accepted (\<lambda>_ _. True) store s gs = gs" for store :: "redis_db \<Rightarrow> quote_event \<Rightarrow> redis_db" and s gs
    by (induction gs arbitrary: s) auto
  ultimately have "hot.holds (foldl (hot_store cfg now) empty_db (first_occurrences {} es)) (first_occurrences {} es)"
    using hot.holds_store_all [OF hot_inv_empty v(2)] by force
  moreover have "pg.holds (foldl archive_store a es) (first_occurrences {} es)"
    using pg.holds_store_all [OF a(1) v(1) a(3)] pg.accepted_first [OF a(1) v(1)] a(2) by simp
  moreover have "archived_candle (foldl archive_store a es) sy m = archived_candle (foldl archive_store a fs) sy m"
    by (rule pg.convergence [OF a v(1) assms(4,5)])
  ultimately show ?thesis by (metis hot.holds_def pg.holds_def sum.inject(2))
qed

section \<open>Witnesses\<close>

theorem stream_to_clients_witness:
  "\<exists>r' message h' s. process_one db_ops sample_store_config quiet_faults (\<lambda>_ r. r) (\<lambda>_. False)
       (utc_datetime 200000000) ''1-0'' sample_entry empty_db = (Inr (), r') \<and>
     published r' = [(quote_pubsub_channel sample_store_config, message)] \<and>
     fanout_one one_session_hub message = Inr h' \<and> hub_session h' ''c1'' = Some s \<and>
     dict_get (lb_events (cs_buffer s)) ''AAPL'' = Some (quote_of_input sample_input)"
proof -
  have q: "q_symbol (quote_of_input sample_input) = ''AAPL''" by code_simp
  have h: "hub_inv default_tier_policies one_session_hub" using hub_reachable_inv [OF one_session_reachable] by simp
  have s: "subscribed one_session_hub ''c1'' (q_symbol (quote_of_input sample_input))"
    by (simp add: q subscribed_def one_session_hub_def)
  show ?thesis
    using stream_to_clients [OF mem_redis _ sample_entry_hot sample_entry_quote _ _ h s, of empty_db None "''1-0''"]
    by (auto simp: hot_inv_empty q)
qed

theorem layers_agree_witness:
  "hot_candle (foldl (hot_store sample_store_config 200000000) empty_db (first_occurrences {} sample_quotes)) ''AAPL'' 60000000 =
   archived_candle (foldl archive_store empty_archive (rev sample_quotes)) ''AAPL'' 60000000"
proof (rule layers_agree)
  show "available empty_archive" "database empty_archive = \<lparr>events = [], candles_1m = []\<rparr>"
    by (simp_all add: empty_archive_def)
  show "\<forall>e \<in> set sample_quotes. archivable e \<and> hot_valid sample_store_config 200000000 e"
    using sample_quotes_hot by (auto simp: hot_valid_def archivable_def)
  show "set sample_quotes = set (rev sample_quotes)" by simp
  show "inj_on q_event_id (set sample_quotes)" by (auto simp: sample_quotes_def inj_on_def)
qed

end
